(* ===== verification/Prelude.thy ===== *)
theory Prelude
  imports Main "HOL-Library.Word" "HOL-Library.Monad_Syntax"
begin

text \<open>
  Shared vocabulary of the development: the fixed-width integer types of the C sources, byte
  memories, the little-endian byte codecs that several components use, C strings, and the generic
  lemmas on lists, words and memories that the component proofs rest on.

  An operation that can touch memory outside an allocation returns an option: \<open>None\<close> is such a
  fault (the C program has undefined behaviour there), \<open>Some\<close> is a normal return.
\<close>

unbundle bit_operations_syntax

section \<open>Machine integers and result codes\<close>

type_synonym u8 = "8 word"
type_synonym u16 = "16 word"
type_synonym u32 = "32 word"
type_synonym u64 = "64 word"

named_theorems mem_simps \<open>reading back what was written to a byte memory\<close>
named_theorems codec_simps \<open>fixed-width codecs: decode after encode\<close>

definition PLATFORM_ERR :: int where
  "PLATFORM_ERR = 0"

definition PLATFORM_OK :: int where
  "PLATFORM_OK = 1"

definition PLATFORM_UNDERFLOW :: int where
  "PLATFORM_UNDERFLOW = -1"

lemmas platform_codes = PLATFORM_ERR_def PLATFORM_OK_def PLATFORM_UNDERFLOW_def

lemma platform_codes_distinct [simp]:
  "PLATFORM_OK \<noteq> PLATFORM_ERR" "PLATFORM_ERR \<noteq> PLATFORM_OK"
  "PLATFORM_OK \<noteq> PLATFORM_UNDERFLOW" "PLATFORM_UNDERFLOW \<noteq> PLATFORM_OK"
  "PLATFORM_ERR \<noteq> PLATFORM_UNDERFLOW" "PLATFORM_UNDERFLOW \<noteq> PLATFORM_ERR"
  by (simp_all add: platform_codes)

section \<open>Build configuration\<close>

text \<open>The constants of a board's \<open>platform_conf.h\<close> that the portable code refers to.\<close>

record platform_conf =
  NUM_UART :: nat
  NUM_ADC :: nat
  BUILD_SERMUX :: bool
  SERMUX_NUM_VUART :: nat
  SERMUX_PHYS_ID :: nat

definition SERMUX_SERVICE_ID_FIRST :: nat where
  "SERMUX_SERVICE_ID_FIRST = 0xD0"

definition SERMUX_SERVICE_ID_LAST :: nat where
  "SERMUX_SERVICE_ID_LAST = 0xD7"

text \<open>The constants of a C library that the code refers to by name.\<close>

record os_consts =
  O_APPEND :: u32
  O_CREAT :: u32
  O_EXCL :: u32
  O_TRUNC :: u32
  O_SYNC :: u32
  O_RDONLY :: u32
  O_WRONLY :: u32
  O_RDWR :: u32
  SEEK_SET :: u32
  SEEK_CUR :: u32
  SEEK_END :: u32

section \<open>Masks and alignment\<close>

lemma and_pow2_minus_1_nat: "(n::nat) AND (2 ^ k - 1) = n mod 2 ^ k"
  by (metis mask_eq_exp_minus_1 take_bit_eq_mask take_bit_eq_mod)

lemma unat_of_nat_less: "n < 2 ^ LENGTH('a::len) \<Longrightarrow> unat (word_of_nat n :: 'a word) = n"
  by (simp add: unat_of_nat take_bit_nat_eq_self)

lemma ucast_of_nat_small:
  "n < 2 ^ LENGTH('a::len) \<Longrightarrow> (ucast (word_of_nat n :: 'a word) :: 'b::len word) = word_of_nat n"
  by (metis unat_of_nat_less of_nat_unat)

lemma word_and_255: "(w :: 'a::len word) AND 255 = take_bit 8 w"
  using take_bit_eq_mask [of 8 w] by (simp add: mask_numeral)

lemma ucast_and_255: "(ucast ((w :: 'a::len word) AND 255) :: u8) = ucast w"
  by (rule bit_word_eqI) (auto simp: word_and_255 bit_simps)

section \<open>Ring indices\<close>

lemma mod_shift_le:
  assumes "(r + i) mod n = (r + j) mod n" "i \<le> j" "j < n"
  shows "i = (j::nat)"
proof -
  have "n dvd j - i"
    using assms mod_eq_dvd_iff_nat [of "r + i" "r + j" n] by simp
  with assms show ?thesis
    by (auto dest: dvd_imp_le)
qed

lemma mod_shift_inj: "(r + i) mod n = (r + j) mod n \<Longrightarrow> i < n \<Longrightarrow> j < n \<Longrightarrow> i = (j::nat)"
  by (metis mod_shift_le nat_le_linear)

lemma rotate_update:
  assumes "k < length xs"
  shows "rotate r (xs[(r + k) mod length xs := x]) = (rotate r xs)[k := x]"
proof (rule nth_equalityI)
  show "length (rotate r (xs[(r + k) mod length xs := x])) = length ((rotate r xs)[k := x])"
    by simp
next
  fix i
  assume i: "i < length (rotate r (xs[(r + k) mod length xs := x]))"
  have "(r + k) mod length xs < length xs"
    using assms by (intro mod_less_divisor) auto
  moreover have "(r + k) mod length xs = (r + i) mod length xs \<longleftrightarrow> k = i"
    using assms i mod_shift_inj [of r k "length xs" i] by auto
  ultimately show "rotate r (xs[(r + k) mod length xs := x]) ! i = (rotate r xs)[k := x] ! i"
    using assms i by (simp add: nth_rotate nth_list_update)
qed

section \<open>Blocks of bytes in a list\<close>

text \<open>\<open>blit off xs bs\<close> is \<open>memcpy( bs + off, xs, length xs )\<close> on the contents of one allocation,
  \<open>slice off n bs\<close> the \<open>n\<close> bytes found at \<open>off\<close>. Both are only used where the range was checked.\<close>

definition slice :: "nat \<Rightarrow> nat \<Rightarrow> 'a list \<Rightarrow> 'a list" where
  "slice off n bs = take n (drop off bs)"

definition blit :: "nat \<Rightarrow> 'a list \<Rightarrow> 'a list \<Rightarrow> 'a list" where
  "blit off xs bs = take off bs @ xs @ drop (off + length xs) bs"

lemma length_blit [simp]: "off + length xs \<le> length bs \<Longrightarrow> length (blit off xs bs) = length bs"
  by (simp add: blit_def)

lemma length_slice [simp]: "off + n \<le> length bs \<Longrightarrow> length (slice off n bs) = n"
  by (simp add: slice_def)

lemma nth_blit:
  "off + length xs \<le> length bs \<Longrightarrow> i < length bs \<Longrightarrow>
   blit off xs bs ! i = (if off \<le> i \<and> i < off + length xs then xs ! (i - off) else bs ! i)"
  by (auto simp: blit_def nth_append)

lemma nth_slice: "off + n \<le> length bs \<Longrightarrow> i < n \<Longrightarrow> slice off n bs ! i = bs ! (off + i)"
  by (simp add: slice_def)

lemma slice_blit_same [mem_simps]:
  "off + length xs \<le> length bs \<Longrightarrow> n = length xs \<Longrightarrow> slice off n (blit off xs bs) = xs"
  by (simp add: slice_def blit_def)

lemma slice_blit_other [mem_simps]:
  "off + length xs \<le> length bs \<Longrightarrow> o' + n \<le> length bs \<Longrightarrow> o' + n \<le> off \<or> off + length xs \<le> o' \<Longrightarrow>
   slice o' n (blit off xs bs) = slice o' n bs"
  by (intro nth_equalityI) (auto simp: nth_slice nth_blit)

lemma blit_snoc:
  assumes "off + Suc n \<le> length bs" and "n < length xs"
  shows "(blit off (take n xs) bs)[off + n := xs ! n] = blit off (take (Suc n) xs) bs"
proof -
  have "drop (off + n) bs = bs ! (off + n) # drop (Suc (off + n)) bs"
    using assms(1) by (simp add: Cons_nth_drop_Suc)
  with assms show ?thesis
    by (simp add: blit_def take_Suc_conv_app_nth list_update_append min_def)
qed

section \<open>Duff's device\<close>

text \<open>The macro \<open>DUFF_DEVICE_8( count, action )\<close> of \<open>inc/utils.h\<close>: the \<open>switch\<close> jumps into the middle
  of a loop body of eight actions, the loop then runs \<open>_times - 1\<close> full bodies.\<close>

definition DUFF_DEVICE_8 :: "nat \<Rightarrow> ('s \<Rightarrow> 's) \<Rightarrow> 's \<Rightarrow> 's" where
  "DUFF_DEVICE_8 cnt action s =
     (let times = drop_bit 3 (cnt + 7);
          first = (if cnt AND 7 = 0 then 8 else cnt AND 7)
      in ((action ^^ 8) ^^ (times - 1)) ((action ^^ first) s))"

lemma DUFF_DEVICE_8_eq:
  assumes "0 < cnt"
  shows "DUFF_DEVICE_8 cnt action s = (action ^^ cnt) s"
proof -
  have and7: "cnt AND 7 = cnt mod 8"
    using and_pow2_minus_1_nat [of cnt 3] by simp
  have times: "drop_bit 3 (cnt + 7) = (cnt + 7) div 8"
    by (simp add: drop_bit_eq_div)
  have "(cnt mod 8 + 7) div 8 = (if cnt mod 8 = 0 then 0 else 1)"
    by (auto intro: div_nat_eqI)
  moreover have "(cnt + 7) div 8 = cnt div 8 + (cnt mod 8 + 7) div 8"
    using div_mult_self1 [of 8 "cnt mod 8 + 7" "cnt div 8"] by simp
  moreover have "cnt mod 8 = 0 \<Longrightarrow> 0 < cnt div 8"
    using assms by (auto intro: gr0I simp: div_eq_0_iff)
  ultimately have sum: "8 * ((cnt + 7) div 8 - 1) + (if cnt mod 8 = 0 then 8 else cnt mod 8) = cnt"
    using mult_div_mod_eq [of 8 cnt] by auto
  have "((action ^^ 8) ^^ t) ((action ^^ f) s) = (action ^^ (8 * t + f)) s" for t f
    by (simp add: funpow_mult funpow_add)
  then show ?thesis
    by (simp only: DUFF_DEVICE_8_def Let_def and7 times sum)
qed

text \<open>The byte-copy action \<open>*d++ = *s++\<close> used with it. The state is the number of bytes copied and
  the destination; a byte outside either block is a fault.\<close>

definition copy_byte :: "u8 list \<Rightarrow> nat \<Rightarrow> nat \<Rightarrow> nat \<times> u8 list option \<Rightarrow> nat \<times> u8 list option" where
  "copy_byte src soff doff st =
     (Suc (fst st),
      do {
        dst \<leftarrow> snd st;
        if soff + fst st < length src \<and> doff + fst st < length dst
        then Some (dst[doff + fst st := src ! (soff + fst st)]) else None
      })"

lemma copy_byte_simps [simp]:
  "copy_byte src soff doff (i, Some dst) =
     (Suc i, if soff + i < length src \<and> doff + i < length dst
             then Some (dst[doff + i := src ! (soff + i)]) else None)"
  "copy_byte src soff doff (i, None) = (Suc i, None)"
  by (auto simp: copy_byte_def)

lemma copy_byte_steps:
  "soff + n \<le> length src \<Longrightarrow> doff + n \<le> length dst \<Longrightarrow>
   (copy_byte src soff doff ^^ n) (0, Some dst) = (n, Some (blit doff (slice soff n src) dst))"
proof (induction n)
  case 0
  then show ?case by (simp add: blit_def slice_def)
next
  case (Suc n)
  then show ?case
    using blit_snoc [of doff n dst "drop soff src"] by (simp add: slice_def)
qed

lemma copy_byte_fault:
  "length src < soff + n \<or> length dst < doff + n \<Longrightarrow> n \<noteq> 0 \<Longrightarrow>
   snd ((copy_byte src soff doff ^^ n) (0, Some dst)) = None"
proof (induction n)
  case 0
  then show ?case by simp
next
  case (Suc n)
  show ?case
  proof (cases "n = 0 \<or> soff + n \<le> length src \<and> doff + n \<le> length dst")
    case True
    with Suc.prems show ?thesis
      by (auto simp: copy_byte_steps)
  next
    case False
    with Suc.IH have "snd ((copy_byte src soff doff ^^ n) (0, Some dst)) = None"
      by auto
    then show ?thesis
      by (cases "(copy_byte src soff doff ^^ n) (0, Some dst)") auto
  qed
qed

section \<open>Byte memories\<close>

text \<open>An address space seen through a pointer the code never bounds-checks: reads and writes
  always succeed, at the address the code computes.\<close>

type_synonym mem = "nat \<Rightarrow> u8"

text \<open>Pointers are 32 bits wide on every target (and in the desktop tools, which are built with
  \<open>-m32\<close>); code that would move a pointer past the end of the address space faults.\<close>

definition addr_limit :: nat where
  "addr_limit = 2 ^ 32"

definition wr_bytes :: "mem \<Rightarrow> nat \<Rightarrow> u8 list \<Rightarrow> mem" where
  "wr_bytes m a bs = (\<lambda>x. if a \<le> x \<and> x < a + length bs then bs ! (x - a) else m x)"

definition rd_bytes :: "mem \<Rightarrow> nat \<Rightarrow> nat \<Rightarrow> u8 list" where
  "rd_bytes m a n = map (\<lambda>i. m (a + i)) [0..<n]"

lemma length_rd_bytes [simp]: "length (rd_bytes m a n) = n"
  by (simp add: rd_bytes_def)

lemma nth_rd_bytes [simp]: "i < n \<Longrightarrow> rd_bytes m a n ! i = m (a + i)"
  by (simp add: rd_bytes_def)

lemma rd_bytes_0 [simp]: "rd_bytes m a 0 = []"
  by (simp add: rd_bytes_def)

lemma rd_bytes_Suc: "rd_bytes m a (Suc n) = m a # rd_bytes m (Suc a) n"
  by (intro nth_equalityI) (auto simp: nth_Cons split: nat.splits)

lemma rd_bytes_add: "rd_bytes m a (n + k) = rd_bytes m a n @ rd_bytes m (a + n) k"
  by (intro nth_equalityI) (auto simp: nth_append)

lemma rd_bytes_sub: "rd_bytes m a n = bs \<Longrightarrow> k + l \<le> n \<Longrightarrow> rd_bytes m (a + k) l = slice k l bs"
  by (intro nth_equalityI) (auto simp: slice_def add.assoc)

lemma rd_bytes_eqI:
  "(\<And>i. i < n \<Longrightarrow> m (a + i) = m' (b + i)) \<Longrightarrow> rd_bytes m a n = rd_bytes m' b n"
  by (intro nth_equalityI) auto

lemma wr_bytes_Nil [simp]: "wr_bytes m a [] = m"
  by (rule ext) (auto simp: wr_bytes_def)

lemma wr_bytes_outside [mem_simps]:
  "x < a \<or> a + length bs \<le> x \<Longrightarrow> wr_bytes m a bs x = m x"
  by (auto simp: wr_bytes_def)

lemma wr_bytes_inside: "i < length bs \<Longrightarrow> wr_bytes m a bs (a + i) = bs ! i"
  by (auto simp: wr_bytes_def)

lemma rd_wr_bytes_same [mem_simps]: "n = length bs \<Longrightarrow> rd_bytes (wr_bytes m a bs) a n = bs"
  by (intro nth_equalityI) (auto simp: wr_bytes_def)

lemma rd_wr_bytes_other [mem_simps]:
  "b + n \<le> a \<or> a + length bs \<le> b \<Longrightarrow> rd_bytes (wr_bytes m a bs) b n = rd_bytes m b n"
  by (intro rd_bytes_eqI) (auto simp: wr_bytes_def)

lemma wr_bytes_append: "wr_bytes m a (xs @ ys) = wr_bytes (wr_bytes m a xs) (a + length xs) ys"
  by (auto simp: wr_bytes_def nth_append intro!: ext)

section \<open>Little-endian codecs\<close>

text \<open>The two shift-and-mask sequences that \<open>eluarpc.c\<close> and \<open>romfs.c\<close> write out byte by byte.\<close>

definition le16 :: "u16 \<Rightarrow> u8 list" where
  "le16 w = [ucast (w AND 0xFF), ucast (drop_bit 8 w AND 0xFF)]"

definition le32 :: "u32 \<Rightarrow> u8 list" where
  "le32 w = [ucast (w AND 0xFF), ucast (drop_bit 8 w AND 0xFF),
             ucast (drop_bit 16 w AND 0xFF), ucast (drop_bit 24 w AND 0xFF)]"

definition of_le16 :: "u8 \<Rightarrow> u8 \<Rightarrow> u16" where
  "of_le16 b0 b1 = ucast b0 OR push_bit 8 (ucast b1)"

definition of_le32 :: "u8 \<Rightarrow> u8 \<Rightarrow> u8 \<Rightarrow> u8 \<Rightarrow> u32" where
  "of_le32 b0 b1 b2 b3 =
     ucast b0 OR push_bit 8 (ucast b1) OR push_bit 16 (ucast b2) OR push_bit 24 (ucast b3)"

lemma length_le16 [simp]: "length (le16 w) = 2"
  by (simp add: le16_def)

lemma length_le32 [simp]: "length (le32 w) = 4"
  by (simp add: le32_def)

lemma of_le16_le16 [codec_simps]: "of_le16 (le16 w ! 0) (le16 w ! 1) = w"
  by (rule bit_word_eqI) (auto simp: of_le16_def le16_def ucast_and_255 bit_simps)

lemma of_le32_bit:
  assumes "n < 32"
  shows "bit (of_le32 (ucast w) (ucast (drop_bit 8 w)) (ucast (drop_bit 16 w)) (ucast (drop_bit 24 w))) n
    = bit (w :: u32) n"
  using assms
  by (cases "n < 8"; cases "n < 16"; cases "n < 24") (auto simp: of_le32_def bit_simps)

lemma of_le32_le32 [codec_simps]:
  "of_le32 (le32 w ! 0) (le32 w ! 1) (le32 w ! 2) (le32 w ! 3) = w"
  by (rule bit_word_eqI) (simp add: le32_def ucast_and_255 numeral_2_eq_2 numeral_3_eq_3 of_le32_bit)

lemma u8_bit_high: "8 \<le> n \<Longrightarrow> \<not> bit (b :: u8) n"
  using bit_imp_le_length [of b n] by auto

lemma le16_of_le16 [codec_simps]: "le16 (of_le16 b0 b1) = [b0, b1]"
  unfolding le16_def of_le16_def ucast_and_255
  by (auto intro!: bit_word_eqI simp: bit_simps u8_bit_high)

lemma le32_of_le32 [codec_simps]: "le32 (of_le32 b0 b1 b2 b3) = [b0, b1, b2, b3]"
  unfolding le32_def of_le32_def ucast_and_255
  by (auto intro!: bit_word_eqI simp: bit_simps u8_bit_high)

lemma le16_eq_iff: "[b0, b1] = le16 x \<longleftrightarrow> of_le16 b0 b1 = x"
  by (metis One_nat_def le16_of_le16 nth_Cons_0 nth_Cons_Suc of_le16_le16)

lemma le32_eq_iff: "[b0, b1, b2, b3] = le32 x \<longleftrightarrow> of_le32 b0 b1 b2 b3 = x"
proof
  assume *: "[b0, b1, b2, b3] = le32 x"
  show "of_le32 b0 b1 b2 b3 = x"
    using of_le32_le32 [of x] unfolding * [symmetric] by simp
qed (auto simp: codec_simps)

lemma rd_bytes_append_iff:
  "rd_bytes m a (length (xs @ ys)) = xs @ ys \<longleftrightarrow>
   rd_bytes m a (length xs) = xs \<and> rd_bytes m (a + length xs) (length ys) = ys"
  by (simp add: rd_bytes_add append_eq_append_conv)

lemma rd_bytes_Cons_iff:
  "rd_bytes m a (length (x # xs)) = x # xs \<longleftrightarrow> m a = x \<and> rd_bytes m (Suc a) (length xs) = xs"
  by (simp add: rd_bytes_Suc)

lemma wr_bytes_self: "rd_bytes m a (length bs) = bs \<Longrightarrow> wr_bytes m a bs = m"
  by (rule ext) (metis add_diff_inverse_nat le_add_diff_inverse nat_add_left_cancel_less nth_rd_bytes wr_bytes_def)

text \<open>Counting the entries of a table that are in use.\<close>

lemma length_filter_update:
  "i < length xs \<Longrightarrow> \<not> P (xs ! i) \<Longrightarrow> P y \<Longrightarrow> length (filter P (xs[i := y])) = Suc (length (filter P xs))"
  by (induction xs arbitrary: i) (auto split: nat.splits)

lemma length_filter_update_less:
  "i < length xs \<Longrightarrow> P (xs ! i) \<Longrightarrow> \<not> P y \<Longrightarrow> Suc (length (filter P (xs[i := y]))) = length (filter P xs)"
  by (induction xs arbitrary: i) (auto split: nat.splits)

lemma length_filter_update_same:
  "i < length xs \<Longrightarrow> P (xs ! i) = P y \<Longrightarrow> length (filter P (xs[i := y])) = length (filter P xs)"
  by (induction xs arbitrary: i) (auto split: nat.splits)

end
