(* ===== verification/Queues.thy ===== *)
theory Queues
  imports Prelude
begin

text \<open>
  The first-in first-out contract that the interrupt-driven parts of the system rely on: the
  character buffers of \<open>buf.c\<close> and the interrupt queue of \<open>elua_int.c\<close> are both filled by an
  interrupt handler and emptied by the main program. The contract is a locale over a put and a get
  operation; what it gives to a client (any sequence of puts and gets behaves as on a list) is
  proved here once.
\<close>

datatype 'e qop = Put 'e | Get

text \<open>A run of queue operations; it stops with \<open>None\<close> when an operation refuses.\<close>

fun qrun :: "('e \<Rightarrow> 's \<Rightarrow> 's option) \<Rightarrow> ('s \<Rightarrow> ('e \<times> 's) option) \<Rightarrow> 'e qop list \<Rightarrow> 's \<Rightarrow>
    ('e list \<times> 's) option" where
  "qrun put get [] s = Some ([], s)"
| "qrun put get (Put e # ops) s = do { s' \<leftarrow> put e s; qrun put get ops s' }"
| "qrun put get (Get # ops) s =
     do { (e, s') \<leftarrow> get s; (es, s'') \<leftarrow> qrun put get ops s'; Some (e # es, s'') }"

text \<open>The same run on a plain list that holds at most \<open>n\<close> elements.\<close>

fun lrun :: "nat \<Rightarrow> 'e qop list \<Rightarrow> 'e list \<Rightarrow> ('e list \<times> 'e list) option" where
  "lrun n [] q = Some ([], q)"
| "lrun n (Put e # ops) q = (if length q < n then lrun n ops (q @ [e]) else None)"
| "lrun n (Get # ops) q =
     (case q of [] \<Rightarrow> None
      | e # q' \<Rightarrow> do { (es, q'') \<leftarrow> lrun n ops q'; Some (e # es, q'') })"

fun qop_elems :: "'e qop list \<Rightarrow> 'e set" where
  "qop_elems [] = {}"
| "qop_elems (Put e # ops) = insert e (qop_elems ops)"
| "qop_elems (Get # ops) = qop_elems ops"

lemma lrun_conserves:
  "lrun n ops q = Some (es, q') \<Longrightarrow> es @ q' = q @ concat (map (case_qop (\<lambda>e. [e]) []) ops)"
proof (induction n ops q arbitrary: es q' rule: lrun.induct)
  case (3 n ops q)
  then show ?case
    by (fastforce split: list.splits bind_splits)
qed (auto split: if_splits)

locale fifo_queue =
  fixes put :: "'e \<Rightarrow> 's \<Rightarrow> 's option"
    and get :: "'s \<Rightarrow> ('e \<times> 's) option"
    and invar :: "'s \<Rightarrow> bool"
    and elems :: "'s \<Rightarrow> 'e list"
    and room :: "'s \<Rightarrow> nat"
    and valid :: "'s \<Rightarrow> 'e \<Rightarrow> bool"
  assumes put_ok: "invar s \<Longrightarrow> valid s e \<Longrightarrow> length (elems s) < room s \<Longrightarrow>
      \<exists>s'. put e s = Some s' \<and> invar s' \<and> elems s' = elems s @ [e] \<and> room s' = room s \<and> valid s' = valid s"
    and get_ok: "invar s \<Longrightarrow> elems s = e # es \<Longrightarrow>
      \<exists>s'. get s = Some (e, s') \<and> invar s' \<and> elems s' = es \<and> room s' = room s \<and> valid s' = valid s"
    and get_empty: "invar s \<Longrightarrow> elems s = [] \<Longrightarrow> get s = None"
begin

lemma run_refines_list:
  assumes "invar s" and "\<forall>e \<in> qop_elems ops. valid s e"
    and "lrun (room s) ops (elems s) = Some (es, q)"
  shows "\<exists>s'. qrun put get ops s = Some (es, s') \<and> invar s' \<and> elems s' = q \<and> room s' = room s"
  using assms
proof (induction ops arbitrary: s es)
  case Nil
  then show ?case by auto
next
  case (Cons op ops)
  show ?case
  proof (cases op)
    case (Put e)
    with Cons.prems have "length (elems s) < room s" "valid s e"
      and l: "lrun (room s) ops (elems s @ [e]) = Some (es, q)"
      by (auto split: if_splits)
    with Cons.prems(1) obtain s' where s': "put e s = Some s'" "invar s'" "elems s' = elems s @ [e]"
        "room s' = room s" "valid s' = valid s"
      using put_ok by blast
    with Cons.IH [of s' es] Cons.prems(2) l Put show ?thesis by auto
  next
    case Get
    with Cons.prems(3) obtain e q1 es1 where q1: "elems s = e # q1"
      and l: "lrun (room s) ops q1 = Some (es1, q)" and es: "es = e # es1"
      by (auto split: list.splits bind_splits)
    from get_ok [OF Cons.prems(1) q1] obtain s' where s': "get s = Some (e, s')" "invar s'"
        "elems s' = q1" "room s' = room s" "valid s' = valid s"
      by blast
    with Cons.IH [of s' es1] Cons.prems(2) l Get es show ?thesis by auto
  qed
qed

text \<open>What was put comes out once, in order, and nothing else comes out.\<close>

lemma run_in_order:
  assumes "invar s" and "\<forall>e \<in> qop_elems ops. valid s e" and "elems s = []"
    and "lrun (room s) ops [] = Some (es, q)"
  shows "\<exists>s'. qrun put get ops s = Some (es, s') \<and>
      es @ elems s' = concat (map (case_qop (\<lambda>e. [e]) []) ops)"
  using run_refines_list [OF assms(1,2)] lrun_conserves [OF assms(4)] assms(3,4) by auto

end

end
