(* ===== verification/Buf.thy ===== *)
theory Buf
  imports Queues
begin

text \<open>
  The "char device" buffering system (\<open>src/src/buf.c\<close>, \<open>src/inc/buf.h\<close>): one ring buffer per
  UART and per ADC channel, written from interrupt handlers and read by the program. The table of
  descriptors is explicit state; the allocator's \<open>realloc\<close> is a parameter. The theory shows that a
  well-formed descriptor is a bounded FIFO queue, that no access leaves the allocation while it is
  well-formed, and which calls break well-formedness.
\<close>

section \<open>State\<close>

definition BUF_ID_UART :: nat where
  "BUF_ID_UART = 0"

definition BUF_ID_ADC :: nat where
  "BUF_ID_ADC = 1"

definition BUF_SIZE_NONE :: u8 where
  "BUF_SIZE_NONE = 0"

text \<open>\<open>bd_buf\<close> is the pointer: \<open>None\<close> is NULL, \<open>Some\<close> the bytes of the allocation.\<close>

record buf_desc =
  bd_logsize :: u8
  bd_logdsize :: u8
  bd_wptr :: u16
  bd_rptr :: u16
  bd_count :: u16
  bd_buf :: "u8 list option"

record buf_table =
  buf_desc_uart :: "buf_desc list"
  buf_desc_adc :: "buf_desc list"

text \<open>The shift count of \<open>BUF_REALSIZE\<close> is negative only when \<open>logsize\<close> is less than \<open>logdsize\<close>: either the buffer is disabled
  (\<open>logsize\<close> is \<open>BUF_SIZE_NONE\<close>), which every function that uses the macro tests first, or the sum in \<open>buf_set\<close> wrapped around at 256, for an
  allocation of more than \<open>2 ^ 128\<close> bytes; the well-formed buffers below exclude both.\<close>

definition BUF_REALSIZE :: "buf_desc \<Rightarrow> nat" where
  "BUF_REALSIZE p = 2 ^ (unat (bd_logsize p) - unat (bd_logdsize p))"

definition BUF_BYTESIZE :: "buf_desc \<Rightarrow> nat" where
  "BUF_BYTESIZE p = 2 ^ unat (bd_logsize p)"

definition BUF_REALDSIZE :: "buf_desc \<Rightarrow> nat" where
  "BUF_REALDSIZE p = 2 ^ unat (bd_logdsize p)"

definition BUF_MOD_INCR :: "buf_desc \<Rightarrow> u16 \<Rightarrow> u16" where
  "BUF_MOD_INCR p m = word_of_nat ((unat m + BUF_REALDSIZE p) AND (BUF_BYTESIZE p - 1))"

definition buf_getptr :: "buf_table \<Rightarrow> nat \<Rightarrow> nat \<Rightarrow> buf_desc option" where
  "buf_getptr B resid resnum =
     (let ds = (if resid = BUF_ID_UART then buf_desc_uart B
                else if resid = BUF_ID_ADC then buf_desc_adc B else [])
      in if resnum < length ds then Some (ds ! resnum) else None)"

definition buf_putptr :: "buf_table \<Rightarrow> nat \<Rightarrow> nat \<Rightarrow> buf_desc \<Rightarrow> buf_table" where
  "buf_putptr B resid resnum p =
     (if resid = BUF_ID_UART then B\<lparr>buf_desc_uart := (buf_desc_uart B)[resnum := p]\<rparr>
      else B\<lparr>buf_desc_adc := (buf_desc_adc B)[resnum := p]\<rparr>)"

definition bufh_check_resnum :: "platform_conf \<Rightarrow> nat \<Rightarrow> nat \<Rightarrow> nat" where
  "bufh_check_resnum cf resid resnum =
     (if BUILD_SERMUX cf \<and> resid = BUF_ID_UART \<and> resnum \<ge> SERMUX_SERVICE_ID_FIRST
      then resnum - SERMUX_SERVICE_ID_FIRST + NUM_UART cf else resnum)"

text \<open>The prologue \<open>BUF_CHECK_RESNUM; BUF_GETPTR\<close> of every entry point, and the write-back.\<close>

definition with_buf :: "platform_conf \<Rightarrow> buf_table \<Rightarrow> nat \<Rightarrow> nat \<Rightarrow>
    (buf_desc \<Rightarrow> ('a \<times> buf_desc) option) \<Rightarrow> ('a \<times> buf_table) option" where
  "with_buf cf B resid resnum f =
     do {
       let rn = bufh_check_resnum cf resid resnum;
       p \<leftarrow> buf_getptr B resid rn;
       (r, p') \<leftarrow> f p;
       Some (r, buf_putptr B resid rn p')
     }"

section \<open>Operations\<close>

text \<open>\<open>ra old size\<close> is the allocator's \<open>realloc( old, size )\<close>; \<open>None\<close> is NULL.\<close>

definition buf_set_desc :: "(u8 list option \<Rightarrow> nat \<Rightarrow> u8 list option) \<Rightarrow> u8 \<Rightarrow> u8 \<Rightarrow> buf_desc \<Rightarrow>
    (int \<times> buf_desc) option" where
  "buf_set_desc ra lsize ldsize p0 =
     (let p = p0\<lparr>bd_logdsize := ldsize, bd_logsize := lsize + ldsize\<rparr>;
          p1 = p\<lparr>bd_buf := ra (bd_buf p) (BUF_BYTESIZE p)\<rparr>
      in if bd_buf p1 = None
         then let p2 = p1\<lparr>bd_logsize := BUF_SIZE_NONE, bd_rptr := 0, bd_wptr := 0, bd_count := 0\<rparr>
              in if lsize \<noteq> BUF_SIZE_NONE then Some (PLATFORM_ERR, p2) else Some (PLATFORM_OK, p2)
         else Some (PLATFORM_OK, p1))"

definition buf_set :: "platform_conf \<Rightarrow> (u8 list option \<Rightarrow> nat \<Rightarrow> u8 list option) \<Rightarrow> buf_table \<Rightarrow>
    nat \<Rightarrow> nat \<Rightarrow> u8 \<Rightarrow> u8 \<Rightarrow> (int \<times> buf_table) option" where
  "buf_set cf ra B resid resnum lsize ldsize =
     with_buf cf B resid resnum (buf_set_desc ra lsize ldsize)"

definition buf_flush_desc :: "buf_desc \<Rightarrow> buf_desc" where
  "buf_flush_desc p = p\<lparr>bd_rptr := 0, bd_wptr := 0, bd_count := 0\<rparr>"

definition buf_flush :: "platform_conf \<Rightarrow> buf_table \<Rightarrow> nat \<Rightarrow> nat \<Rightarrow> (unit \<times> buf_table) option" where
  "buf_flush cf B resid resnum = with_buf cf B resid resnum (\<lambda>p. Some ((), buf_flush_desc p))"

definition buf_write_desc :: "u8 list \<Rightarrow> buf_desc \<Rightarrow> (int \<times> buf_desc) option" where
  "buf_write_desc data p =
     (if bd_logsize p = BUF_SIZE_NONE then Some (PLATFORM_ERR, p)
      else if unat (bd_count p) > BUF_REALSIZE p then Some (PLATFORM_ERR, p)
      else do {
        bs \<leftarrow> bd_buf p;
        bs' \<leftarrow> snd (DUFF_DEVICE_8 (BUF_REALDSIZE p) (copy_byte data 0 (unat (bd_wptr p))) (0, Some bs));
        Some (PLATFORM_OK,
          p\<lparr>bd_buf := Some bs', bd_wptr := BUF_MOD_INCR p (bd_wptr p), bd_count := bd_count p + 1\<rparr>)
      })"

definition buf_write :: "platform_conf \<Rightarrow> buf_table \<Rightarrow> nat \<Rightarrow> nat \<Rightarrow> u8 list \<Rightarrow>
    (int \<times> buf_table) option" where
  "buf_write cf B resid resnum data = with_buf cf B resid resnum (buf_write_desc data)"

definition buf_is_enabled :: "platform_conf \<Rightarrow> buf_table \<Rightarrow> nat \<Rightarrow> nat \<Rightarrow> bool option" where
  "buf_is_enabled cf B resid resnum =
     map_option (\<lambda>p. bd_logsize p \<noteq> BUF_SIZE_NONE)
       (buf_getptr B resid (bufh_check_resnum cf resid resnum))"

definition buf_get_size :: "platform_conf \<Rightarrow> buf_table \<Rightarrow> nat \<Rightarrow> nat \<Rightarrow> nat option" where
  "buf_get_size cf B resid resnum =
     map_option (\<lambda>p. if bd_logsize p = BUF_SIZE_NONE then 0 else BUF_REALSIZE p)
       (buf_getptr B resid (bufh_check_resnum cf resid resnum))"

definition buf_get_count :: "platform_conf \<Rightarrow> buf_table \<Rightarrow> nat \<Rightarrow> nat \<Rightarrow> nat option" where
  "buf_get_count cf B resid resnum =
     map_option (\<lambda>p. unat (bd_count p)) (buf_getptr B resid (bufh_check_resnum cf resid resnum))"

text \<open>\<open>buf_read\<close> in the three phases between which an interrupt handler can run: the copy into the
  caller's block (returned beside the status), the decrement of \<open>count\<close> (which the code brackets
  with a global interrupt disable) and the advance of \<open>rptr\<close>.\<close>

definition buf_read_copy :: "u8 list \<Rightarrow> buf_desc \<Rightarrow> u8 list option" where
  "buf_read_copy data p =
     do {
       bs \<leftarrow> bd_buf p;
       snd (DUFF_DEVICE_8 (BUF_REALDSIZE p) (copy_byte bs (unat (bd_rptr p)) 0) (0, Some data))
     }"

definition buf_read_dec :: "buf_desc \<Rightarrow> buf_desc" where
  "buf_read_dec p = p\<lparr>bd_count := bd_count p - 1\<rparr>"

definition buf_read_adv :: "buf_desc \<Rightarrow> buf_desc" where
  "buf_read_adv p = p\<lparr>bd_rptr := BUF_MOD_INCR p (bd_rptr p)\<rparr>"

definition buf_read_desc :: "u8 list \<Rightarrow> buf_desc \<Rightarrow> ((int \<times> u8 list) \<times> buf_desc) option" where
  "buf_read_desc data p =
     (if bd_logsize p = BUF_SIZE_NONE \<or> bd_count p = 0 then Some ((PLATFORM_UNDERFLOW, data), p)
      else do {
        data' \<leftarrow> buf_read_copy data p;
        Some ((PLATFORM_OK, data'), buf_read_adv (buf_read_dec p))
      })"

definition buf_read :: "platform_conf \<Rightarrow> buf_table \<Rightarrow> nat \<Rightarrow> nat \<Rightarrow> u8 list \<Rightarrow>
    ((int \<times> u8 list) \<times> buf_table) option" where
  "buf_read cf B resid resnum data = with_buf cf B resid resnum (buf_read_desc data)"

lemmas buf_macros = BUF_REALSIZE_def BUF_BYTESIZE_def BUF_REALDSIZE_def

lemmas buf_table_defs = with_buf_def buf_getptr_def buf_putptr_def bufh_check_resnum_def
  BUF_ID_UART_def BUF_ID_ADC_def

section \<open>Well-formed descriptors\<close>

definition buf_wf :: "buf_desc \<Rightarrow> bool" where
  "buf_wf p \<longleftrightarrow>
     bd_logsize p \<noteq> BUF_SIZE_NONE \<and>
     unat (bd_logdsize p) \<le> unat (bd_logsize p) \<and>
     unat (bd_logsize p) \<le> 16 \<and> unat (bd_logsize p) \<le> unat (bd_logdsize p) + 15 \<and>
     (case bd_buf p of None \<Rightarrow> False | Some bs \<Rightarrow> length bs = BUF_BYTESIZE p) \<and>
     unat (bd_rptr p) < BUF_BYTESIZE p \<and>
     unat (bd_rptr p) mod BUF_REALDSIZE p = 0 \<and>
     unat (bd_count p) \<le> BUF_REALSIZE p \<and>
     unat (bd_wptr p) = (unat (bd_rptr p) + unat (bd_count p) * BUF_REALDSIZE p) mod BUF_BYTESIZE p"

text \<open>The states that writes and reads lead to: the count can exceed the number of elements by one, since the guard of
  \<open>buf_write\<close> only refuses a write when it does already.\<close>

definition buf_sound :: "buf_desc \<Rightarrow> bool" where
  "buf_sound p \<longleftrightarrow>
     bd_logsize p \<noteq> BUF_SIZE_NONE \<and>
     unat (bd_logdsize p) \<le> unat (bd_logsize p) \<and>
     unat (bd_logsize p) \<le> 16 \<and> unat (bd_logsize p) \<le> unat (bd_logdsize p) + 15 \<and>
     (case bd_buf p of None \<Rightarrow> False | Some bs \<Rightarrow> length bs = BUF_BYTESIZE p) \<and>
     unat (bd_rptr p) < BUF_BYTESIZE p \<and>
     unat (bd_rptr p) mod BUF_REALDSIZE p = 0 \<and>
     unat (bd_count p) \<le> BUF_REALSIZE p + 1 \<and>
     unat (bd_wptr p) = (unat (bd_rptr p) + unat (bd_count p) * BUF_REALDSIZE p) mod BUF_BYTESIZE p"

lemma buf_wf_iff: "buf_wf p \<longleftrightarrow> buf_sound p \<and> unat (bd_count p) \<le> BUF_REALSIZE p"
  by (auto simp: buf_wf_def buf_sound_def split: option.splits)

lemma buf_wf_sound: "buf_wf p \<Longrightarrow> buf_sound p"
  by (simp add: buf_wf_iff)

text \<open>The queued elements, oldest first: each is the \<open>BUF_REALDSIZE\<close> bytes of its slot.\<close>

definition slot_off :: "buf_desc \<Rightarrow> nat \<Rightarrow> nat" where
  "slot_off p i = (unat (bd_rptr p) + i * BUF_REALDSIZE p) mod BUF_BYTESIZE p"

definition buf_elems :: "buf_desc \<Rightarrow> u8 list list" where
  "buf_elems p = (case bd_buf p of None \<Rightarrow> []
     | Some bs \<Rightarrow> map (\<lambda>i. slice (slot_off p i) (BUF_REALDSIZE p) bs) [0..<unat (bd_count p)])"

lemma buf_soundE:
  assumes "buf_sound p"
  obtains bs r where "bd_buf p = Some bs" "length bs = BUF_BYTESIZE p"
    "BUF_BYTESIZE p = BUF_REALSIZE p * BUF_REALDSIZE p" "0 < BUF_REALDSIZE p" "0 < BUF_REALSIZE p"
    "unat (bd_rptr p) = r * BUF_REALDSIZE p" "BUF_BYTESIZE p \<le> 2 ^ 16" "BUF_REALSIZE p \<le> 2 ^ 15"
    "unat (bd_count p) \<le> BUF_REALSIZE p + 1"
proof -
  from assms obtain bs where "bd_buf p = Some bs" "length bs = BUF_BYTESIZE p"
    by (auto simp: buf_sound_def split: option.splits)
  moreover have "BUF_BYTESIZE p = BUF_REALSIZE p * BUF_REALDSIZE p"
    using assms by (simp add: buf_sound_def buf_macros power_add [symmetric])
  moreover have "BUF_BYTESIZE p \<le> 2 ^ 16" "BUF_REALSIZE p \<le> 2 ^ 15"
    unfolding buf_macros by (rule power_increasing; use assms in \<open>auto simp: buf_sound_def\<close>)+
  moreover have "unat (bd_rptr p) = unat (bd_rptr p) div BUF_REALDSIZE p * BUF_REALDSIZE p"
    using assms by (simp add: buf_sound_def mod_eq_0_iff_dvd)
  ultimately show ?thesis
    using that assms by (force simp: buf_sound_def buf_macros)
qed

lemma buf_wfE:
  assumes "buf_wf p"
  obtains bs r where "bd_buf p = Some bs" "length bs = BUF_BYTESIZE p"
    "BUF_BYTESIZE p = BUF_REALSIZE p * BUF_REALDSIZE p" "0 < BUF_REALDSIZE p" "0 < BUF_REALSIZE p"
    "unat (bd_rptr p) = r * BUF_REALDSIZE p" "BUF_BYTESIZE p \<le> 2 ^ 16" "BUF_REALSIZE p \<le> 2 ^ 15"
    "unat (bd_count p) \<le> BUF_REALSIZE p"
  using assms unfolding buf_wf_iff by (auto elim: buf_soundE)

lemma slot_off_eq:
  assumes "unat (bd_rptr p) = r * BUF_REALDSIZE p" "BUF_BYTESIZE p = BUF_REALSIZE p * BUF_REALDSIZE p"
  shows "slot_off p i = (r + i) mod BUF_REALSIZE p * BUF_REALDSIZE p"
  using assms by (simp add: slot_off_def add_mult_distrib [symmetric] mult_mod_left)

lemma slot_off_bound:
  assumes "buf_sound p"
  shows "slot_off p i + BUF_REALDSIZE p \<le> BUF_BYTESIZE p"
  using assms
proof (rule buf_soundE)
  fix bs r
  assume *: "BUF_BYTESIZE p = BUF_REALSIZE p * BUF_REALDSIZE p" "0 < BUF_REALSIZE p"
    "unat (bd_rptr p) = r * BUF_REALDSIZE p"
  have "Suc ((r + i) mod BUF_REALSIZE p) * BUF_REALDSIZE p \<le> BUF_REALSIZE p * BUF_REALDSIZE p"
    using *(2) by (intro mult_le_mono1) (simp add: Suc_leI)
  then show ?thesis
    by (simp add: slot_off_eq [OF *(3,1)] *(1) add.commute)
qed

lemma slot_off_disjoint:
  assumes "buf_sound p" "i < BUF_REALSIZE p" "j < BUF_REALSIZE p" "i \<noteq> j"
  shows "slot_off p i + BUF_REALDSIZE p \<le> slot_off p j \<or> slot_off p j + BUF_REALDSIZE p \<le> slot_off p i"
  using assms(1)
proof (rule buf_soundE)
  fix bs r
  assume *: "BUF_BYTESIZE p = BUF_REALSIZE p * BUF_REALDSIZE p" "unat (bd_rptr p) = r * BUF_REALDSIZE p"
  let ?a = "(r + i) mod BUF_REALSIZE p" and ?b = "(r + j) mod BUF_REALSIZE p"
  have "?a \<noteq> ?b"
    using mod_shift_inj [of r i "BUF_REALSIZE p" j] assms by auto
  then have "Suc ?a \<le> ?b \<or> Suc ?b \<le> ?a" by auto
  then have "Suc ?a * BUF_REALDSIZE p \<le> ?b * BUF_REALDSIZE p \<or> Suc ?b * BUF_REALDSIZE p \<le> ?a * BUF_REALDSIZE p"
    by (metis mult_le_mono1)
  then show ?thesis by (simp add: slot_off_eq [OF *(2,1)] add.commute)
qed

lemma buf_macros_upd [simp]:
  "BUF_REALSIZE (p\<lparr>bd_buf := x, bd_wptr := w, bd_count := c\<rparr>) = BUF_REALSIZE p"
  "BUF_BYTESIZE (p\<lparr>bd_buf := x, bd_wptr := w, bd_count := c\<rparr>) = BUF_BYTESIZE p"
  "BUF_REALDSIZE (p\<lparr>bd_buf := x, bd_wptr := w, bd_count := c\<rparr>) = BUF_REALDSIZE p"
  "BUF_REALSIZE (p\<lparr>bd_rptr := w, bd_count := c\<rparr>) = BUF_REALSIZE p"
  "BUF_BYTESIZE (p\<lparr>bd_rptr := w, bd_count := c\<rparr>) = BUF_BYTESIZE p"
  "BUF_REALDSIZE (p\<lparr>bd_rptr := w, bd_count := c\<rparr>) = BUF_REALDSIZE p"
  by (simp_all add: buf_macros)

lemma unat_BUF_MOD_INCR:
  assumes "BUF_BYTESIZE p \<le> 2 ^ 16"
  shows "unat (BUF_MOD_INCR p m) = (unat m + BUF_REALDSIZE p) mod BUF_BYTESIZE p"
proof -
  have "(unat m + BUF_REALDSIZE p) mod BUF_BYTESIZE p < BUF_BYTESIZE p"
    by (simp add: BUF_BYTESIZE_def)
  with assms have "(unat m + BUF_REALDSIZE p) mod BUF_BYTESIZE p < 2 ^ LENGTH(16)"
    by simp
  then show ?thesis
    unfolding BUF_MOD_INCR_def BUF_BYTESIZE_def
    by (simp only: and_pow2_minus_1_nat unat_of_nat_less)
qed

lemma buf_wf_slot_count: "buf_wf p \<Longrightarrow> unat (bd_wptr p) = slot_off p (unat (bd_count p))"
  by (simp add: buf_wf_def slot_off_def)

lemma buf_sound_slot_0: "buf_sound p \<Longrightarrow> unat (bd_rptr p) = slot_off p 0"
  by (simp add: buf_sound_def slot_off_def)

section \<open>The descriptor as a bounded queue\<close>

text \<open>A write into a buffer with room never faults, appends the element and keeps the
  descriptor well-formed.\<close>

lemma buf_write_desc_room:
  assumes wf: "buf_wf p" and len: "length data = BUF_REALDSIZE p"
    and room: "unat (bd_count p) < BUF_REALSIZE p"
  shows "\<exists>p'. buf_write_desc data p = Some (PLATFORM_OK, p') \<and> buf_wf p' \<and>
      buf_elems p' = buf_elems p @ [data] \<and> BUF_REALSIZE p' = BUF_REALSIZE p \<and>
      BUF_REALDSIZE p' = BUF_REALDSIZE p"
  using wf
proof (rule buf_wfE)
  fix bs r
  assume bs: "bd_buf p = Some bs" "length bs = BUF_BYTESIZE p"
    and d: "0 < BUF_REALDSIZE p" and L: "BUF_BYTESIZE p \<le> 2 ^ 16" and n: "BUF_REALSIZE p \<le> 2 ^ 15"
  let ?c = "unat (bd_count p)"
  let ?bs' = "blit (slot_off p ?c) data bs"
  let ?p' = "p\<lparr>bd_buf := Some ?bs', bd_wptr := BUF_MOD_INCR p (bd_wptr p), bd_count := bd_count p + 1\<rparr>"
  have fits: "slot_off p ?c + length data \<le> length bs"
    using slot_off_bound [OF buf_wf_sound [OF wf], of ?c] len bs by simp
  then have "snd (DUFF_DEVICE_8 (BUF_REALDSIZE p) (copy_byte data 0 (unat (bd_wptr p))) (0, Some bs)) = Some ?bs'"
    using len by (simp add: DUFF_DEVICE_8_eq [OF d] buf_wf_slot_count [OF wf] copy_byte_steps slice_def)
  then have res: "buf_write_desc data p = Some (PLATFORM_OK, ?p')"
    using wf room bs by (simp add: buf_write_desc_def buf_wf_def)
  have c': "unat (bd_count p + 1) = Suc ?c"
    using room n by (simp add: unat_word_ariths)
  have slots: "slot_off ?p' = slot_off p"
    by (rule ext) (simp add: slot_off_def)
  have "unat (BUF_MOD_INCR p (bd_wptr p)) = (unat (bd_rptr p) + Suc ?c * BUF_REALDSIZE p) mod BUF_BYTESIZE p"
    using wf by (simp add: unat_BUF_MOD_INCR [OF L] buf_wf_def mod_simps algebra_simps)
  then have wf': "buf_wf ?p'"
    using wf room bs fits c' by (simp add: buf_wf_def)
  have old: "slice (slot_off p i) (BUF_REALDSIZE p) ?bs' = slice (slot_off p i) (BUF_REALDSIZE p) bs"
    if "i < ?c" for i
    using slot_off_disjoint [OF buf_wf_sound [OF wf], of i ?c] slot_off_bound [OF buf_wf_sound [OF wf], of i] that room fits bs len
    by (intro slice_blit_other) auto
  have "buf_elems ?p' = buf_elems p @ [data]"
    using fits len old by (simp add: buf_elems_def bs c' slots mem_simps)
  with res wf' show ?thesis by auto
qed

text \<open>A read from a non-empty buffer never faults and removes the oldest element.\<close>

lemma buf_read_desc_sound:
  assumes wf: "buf_sound p" and ne: "bd_count p \<noteq> 0" and len: "length data = BUF_REALDSIZE p"
  shows "\<exists>p'. buf_read_desc data p = Some ((PLATFORM_OK, hd (buf_elems p)), p') \<and> buf_sound p' \<and> unat (bd_count p') = unat (bd_count p) - 1 \<and>
      buf_elems p' = tl (buf_elems p) \<and> BUF_REALSIZE p' = BUF_REALSIZE p \<and>
      BUF_REALDSIZE p' = BUF_REALDSIZE p"
  using wf
proof (rule buf_soundE)
  fix bs r
  assume bs: "bd_buf p = Some bs" "length bs = BUF_BYTESIZE p"
    and d: "0 < BUF_REALDSIZE p" and L: "BUF_BYTESIZE p \<le> 2 ^ 16"
    and LL: "BUF_BYTESIZE p = BUF_REALSIZE p * BUF_REALDSIZE p"
  let ?c = "unat (bd_count p)"
  let ?p' = "p\<lparr>bd_count := bd_count p - 1, bd_rptr := BUF_MOD_INCR p (bd_rptr p)\<rparr>"
  have c0: "0 < ?c"
    using ne by (simp add: unat_gt_0)
  then have c': "unat (bd_count p - 1) = ?c - 1"
    by (simp add: unat_minus_one ne)
  have data': "blit 0 (slice (slot_off p 0) (BUF_REALDSIZE p) bs) data = slice (slot_off p 0) (BUF_REALDSIZE p) bs"
    using slot_off_bound [OF wf, of 0] bs len by (simp add: blit_def)
  have "snd (DUFF_DEVICE_8 (BUF_REALDSIZE p) (copy_byte bs (unat (bd_rptr p)) 0) (0, Some data))
      = Some (slice (slot_off p 0) (BUF_REALDSIZE p) bs)"
    using slot_off_bound [OF wf, of 0] bs len data'
    by (simp add: DUFF_DEVICE_8_eq [OF d] buf_sound_slot_0 [OF wf] copy_byte_steps)
  moreover have hd: "hd (buf_elems p) = slice (slot_off p 0) (BUF_REALDSIZE p) bs"
    using c0 by (simp add: buf_elems_def bs hd_map)
  ultimately have res: "buf_read_desc data p = Some ((PLATFORM_OK, hd (buf_elems p)), ?p')"
    using wf ne bs
    by (simp add: buf_read_desc_def buf_read_copy_def buf_read_adv_def buf_read_dec_def buf_sound_def
        BUF_MOD_INCR_def buf_macros)
  have r': "unat (BUF_MOD_INCR p (bd_rptr p)) = (unat (bd_rptr p) + BUF_REALDSIZE p) mod BUF_BYTESIZE p"
    by (rule unat_BUF_MOD_INCR [OF L])
  have slots: "slot_off ?p' i = slot_off p (Suc i)" for i
    by (simp add: slot_off_def r' mod_simps algebra_simps BUF_REALDSIZE_def BUF_BYTESIZE_def)
  have "buf_elems ?p' = tl (buf_elems p)"
    by (rule nth_equalityI) (auto simp: buf_elems_def bs c' slots nth_tl BUF_REALDSIZE_def less_diff_conv)
  moreover have "buf_sound ?p'"
  proof -
    have "(unat (bd_rptr p) + BUF_REALDSIZE p) mod BUF_BYTESIZE p < BUF_BYTESIZE p"
      by (simp add: BUF_BYTESIZE_def)
    moreover have "(unat (bd_rptr p) + BUF_REALDSIZE p) mod BUF_BYTESIZE p mod BUF_REALDSIZE p = 0"
    proof -
      have "BUF_REALDSIZE p dvd BUF_BYTESIZE p"
        by (simp add: LL)
      from mod_mod_cancel [OF this] show ?thesis
        using wf by (simp add: buf_sound_def)
    qed
    moreover have "unat (bd_wptr p) = ((unat (bd_rptr p) + BUF_REALDSIZE p) mod BUF_BYTESIZE p
        + (?c - 1) * BUF_REALDSIZE p) mod BUF_BYTESIZE p"
    proof -
      have "?c * BUF_REALDSIZE p = BUF_REALDSIZE p + (?c - 1) * BUF_REALDSIZE p"
        using c0 by (cases ?c) auto
      with wf show ?thesis
        by (simp add: buf_sound_def mod_add_left_eq add.assoc)
    qed
    ultimately show ?thesis
      using wf bs c' r' by (simp add: buf_sound_def buf_macros le_diff_conv)
  qed
  ultimately show ?thesis
    using res c' by (auto simp: buf_macros)
qed

lemma buf_read_desc_nonempty:
  assumes wf: "buf_wf p" and ne: "bd_count p \<noteq> 0" and len: "length data = BUF_REALDSIZE p"
  shows "\<exists>p'. buf_read_desc data p = Some ((PLATFORM_OK, hd (buf_elems p)), p') \<and> buf_wf p' \<and>
      buf_elems p' = tl (buf_elems p) \<and> BUF_REALSIZE p' = BUF_REALSIZE p \<and>
      BUF_REALDSIZE p' = BUF_REALDSIZE p"
  using buf_read_desc_sound [OF buf_wf_sound [OF wf] ne len] wf by (auto simp: buf_wf_iff)

section \<open>Interface: the queue contract\<close>

definition buf_put :: "u8 list \<Rightarrow> buf_desc \<Rightarrow> buf_desc option" where
  "buf_put e p = do { (st, p') \<leftarrow> buf_write_desc e p; if st = PLATFORM_OK then Some p' else None }"

definition buf_get :: "buf_desc \<Rightarrow> (u8 list \<times> buf_desc) option" where
  "buf_get p = do {
     ((st, e), p') \<leftarrow> buf_read_desc (replicate (BUF_REALDSIZE p) 0) p;
     if st = PLATFORM_OK then Some (e, p') else None }"

definition buf_elem_ok :: "buf_desc \<Rightarrow> u8 list \<Rightarrow> bool" where
  "buf_elem_ok p e \<longleftrightarrow> length e = BUF_REALDSIZE p"

lemma length_buf_elems: "buf_wf p \<Longrightarrow> length (buf_elems p) = unat (bd_count p)"
  by (auto simp: buf_elems_def elim: buf_wfE)

lemma length_buf_elems_sound: "buf_sound p \<Longrightarrow> length (buf_elems p) = unat (bd_count p)"
  by (auto simp: buf_elems_def elim: buf_soundE)

interpretation bufq: fifo_queue buf_put buf_get buf_wf buf_elems BUF_REALSIZE buf_elem_ok
proof
  fix s :: buf_desc and e
  assume "buf_wf s" "buf_elem_ok s e" "length (buf_elems s) < BUF_REALSIZE s"
  then show "\<exists>s'. buf_put e s = Some s' \<and> buf_wf s' \<and> buf_elems s' = buf_elems s @ [e] \<and>
      BUF_REALSIZE s' = BUF_REALSIZE s \<and> buf_elem_ok s' = buf_elem_ok s"
    using buf_write_desc_room [of s e]
    by (auto simp: buf_put_def buf_elem_ok_def length_buf_elems fun_eq_iff)
next
  fix s :: buf_desc and e es
  assume s: "buf_wf s" "buf_elems s = e # es"
  then have "bd_count s \<noteq> 0"
    using length_buf_elems [of s] by auto
  with s show "\<exists>s'. buf_get s = Some (e, s') \<and> buf_wf s' \<and> buf_elems s' = es \<and>
      BUF_REALSIZE s' = BUF_REALSIZE s \<and> buf_elem_ok s' = buf_elem_ok s"
    using buf_read_desc_nonempty [of s "replicate (BUF_REALDSIZE s) 0"]
    by (auto simp: buf_get_def buf_elem_ok_def fun_eq_iff)
next
  fix s :: buf_desc
  assume "buf_wf s" "buf_elems s = []"
  then have "bd_count s = 0"
    using length_buf_elems [of s] by (auto simp: unat_eq_0)
  then show "buf_get s = None"
    by (simp add: buf_get_def buf_read_desc_def)
qed

section \<open>Table-level operations\<close>

lemma buf_getptr_putptr:
  assumes "buf_getptr B resid rn = Some p"
  shows "buf_getptr (buf_putptr B resid rn p') resid' rn' =
     (if resid' = resid \<and> rn' = rn then Some p' else buf_getptr B resid' rn')"
  using assms by (auto simp: buf_table_defs split: if_splits)

lemma with_buf_Some:
  assumes "buf_getptr B resid (bufh_check_resnum cf resid resnum) = Some p" "f p = Some (r, p')"
  shows "with_buf cf B resid resnum f = Some (r, buf_putptr B resid (bufh_check_resnum cf resid resnum) p')"
  using assms by (simp add: with_buf_def)

section \<open>All operations, with their results\<close>

text \<open>A write that finds the buffer full is accepted: it replaces the oldest element, which then counts twice.\<close>

lemma buf_write_desc_full:
  assumes wf: "buf_wf p" and full: "unat (bd_count p) = BUF_REALSIZE p" and e: "length e = BUF_REALDSIZE p"
  shows "\<exists>p'. buf_write_desc e p = Some (PLATFORM_OK, p') \<and> buf_sound p' \<and> buf_elems p' = e # tl (buf_elems p) @ [e] \<and>
      BUF_REALSIZE p' = BUF_REALSIZE p \<and> BUF_REALDSIZE p' = BUF_REALDSIZE p"
  using wf
proof (rule buf_wfE)
  fix bs r
  assume bs: "bd_buf p = Some bs" "length bs = BUF_BYTESIZE p" and L: "BUF_BYTESIZE p \<le> 2 ^ 16"
    and d: "0 < BUF_REALDSIZE p" and n: "BUF_REALSIZE p \<le> 2 ^ 15" and n0: "0 < BUF_REALSIZE p"
    and LL: "BUF_BYTESIZE p = BUF_REALSIZE p * BUF_REALDSIZE p"
  note sound = buf_wf_sound [OF wf]
  let ?n = "BUF_REALSIZE p" and ?D = "BUF_REALDSIZE p"
  let ?bs' = "blit (slot_off p 0) e bs"
  let ?p' = "p\<lparr>bd_buf := Some ?bs', bd_wptr := BUF_MOD_INCR p (bd_wptr p), bd_count := bd_count p + 1\<rparr>"
  have wrap: "slot_off p ?n = slot_off p 0" by (simp add: slot_off_def LL)
  have w: "unat (bd_wptr p) = slot_off p 0" using buf_wf_slot_count [OF wf] full wrap by simp
  have fits: "slot_off p 0 + length e \<le> length bs" using slot_off_bound [OF sound, of 0] e bs by simp
  have res: "buf_write_desc e p = Some (PLATFORM_OK, ?p')"
    using wf full bs e fits by (simp add: buf_write_desc_def buf_wf_def DUFF_DEVICE_8_eq [OF d] copy_byte_steps w slice_def)
  have c': "unat (bd_count p + 1) = Suc ?n" using full n by (simp add: unat_word_ariths)
  have slots: "slot_off ?p' = slot_off p" by (rule ext) (simp add: slot_off_def)
  have "unat (BUF_MOD_INCR p (bd_wptr p)) = (unat (bd_rptr p) + Suc ?n * ?D) mod BUF_BYTESIZE p"
    using wf full by (simp add: unat_BUF_MOD_INCR [OF L] buf_wf_def mod_simps algebra_simps)
  then have sound': "buf_sound ?p'" using sound bs fits c' by (simp add: buf_sound_def)
  have old: "slice (slot_off p i) ?D ?bs' = slice (slot_off p i) ?D bs" if "0 < i" "i < ?n" for i
    using slot_off_disjoint [OF sound, of i 0] slot_off_bound [OF sound, of i] that fits bs e by (intro slice_blit_other) auto
  have new: "slice (slot_off p 0) ?D ?bs' = e" using fits e by (simp add: mem_simps)
  have "buf_elems ?p' = map (\<lambda>i. slice (slot_off p i) ?D ?bs') [0..<Suc ?n]" by (simp add: buf_elems_def c' slots)
  also have "[0..<Suc ?n] = 0 # [1..<?n] @ [?n]" using n0 by (simp add: upt_conv_Cons)
  also have "map (\<lambda>i. slice (slot_off p i) ?D ?bs') \<dots> = e # map (\<lambda>i. slice (slot_off p i) ?D bs) [1..<?n] @ [e]"
    using old new wrap by simp
  also have "map (\<lambda>i. slice (slot_off p i) ?D bs) [1..<?n] = tl (buf_elems p)"
    using n0 by (simp add: buf_elems_def bs full map_tl [symmetric] upt_conv_Cons)
  finally show ?thesis using res sound' by auto
qed

text \<open>The calls of one buffer and what they return: the status, and the block of the caller. \<open>buf_flush\<close> returns nothing.\<close>

datatype buf_call = Write "u8 list" | Read "u8 list" | Flush

fun buf_op :: "buf_call \<Rightarrow> buf_desc \<Rightarrow> ((int \<times> u8 list) \<times> buf_desc) option" where
  "buf_op (Write e) p = do { (st, p') \<leftarrow> buf_write_desc e p; Some ((st, e), p') }"
| "buf_op (Read data) p = buf_read_desc data p"
| "buf_op Flush p = Some ((PLATFORM_OK, []), buf_flush_desc p)"

text \<open>The same calls on a list of elements, for a buffer of \<open>n\<close> elements.\<close>

fun list_op :: "nat \<Rightarrow> buf_call \<Rightarrow> u8 list list \<Rightarrow> (int \<times> u8 list) \<times> u8 list list" where
  "list_op n (Write e) q =
     (if length q < n then ((PLATFORM_OK, e), q @ [e])
      else if length q = n then ((PLATFORM_OK, e), e # tl q @ [e])
      else ((PLATFORM_ERR, e), q))"
| "list_op n (Read data) q = (case q of [] \<Rightarrow> ((PLATFORM_UNDERFLOW, data), []) | e # q' \<Rightarrow> ((PLATFORM_OK, e), q'))"
| "list_op n Flush q = ((PLATFORM_OK, []), [])"

fun buf_calls :: "buf_call list \<Rightarrow> buf_desc \<Rightarrow> ((int \<times> u8 list) list \<times> buf_desc) option" where
  "buf_calls [] p = Some ([], p)"
| "buf_calls (c # cs) p = do { (r, p1) \<leftarrow> buf_op c p; (rs, p2) \<leftarrow> buf_calls cs p1; Some (r # rs, p2) }"

fun list_calls :: "nat \<Rightarrow> buf_call list \<Rightarrow> u8 list list \<Rightarrow> (int \<times> u8 list) list \<times> u8 list list" where
  "list_calls n [] q = ([], q)"
| "list_calls n (c # cs) q = (let (r, q1) = list_op n c q; (rs, q2) = list_calls n cs q1 in (r # rs, q2))"

fun call_block_ok :: "nat \<Rightarrow> buf_call \<Rightarrow> bool" where
  "call_block_ok d (Write e) \<longleftrightarrow> length e = d"
| "call_block_ok d (Read data) \<longleftrightarrow> length data = d"
| "call_block_ok d Flush \<longleftrightarrow> True"

lemma buf_op_refines:
  assumes s: "buf_sound p" and c: "call_block_ok (BUF_REALDSIZE p) c"
  shows "\<exists>p'. buf_op c p = Some (fst (list_op (BUF_REALSIZE p) c (buf_elems p)), p') \<and> buf_sound p' \<and>
    buf_elems p' = snd (list_op (BUF_REALSIZE p) c (buf_elems p)) \<and> BUF_REALSIZE p' = BUF_REALSIZE p \<and> BUF_REALDSIZE p' = BUF_REALDSIZE p"
proof (cases c)
  case (Write e)
  consider "unat (bd_count p) < BUF_REALSIZE p" | "unat (bd_count p) = BUF_REALSIZE p" | "unat (bd_count p) > BUF_REALSIZE p" by linarith
  then show ?thesis
  proof cases
    case 1
    with s have "buf_wf p" by (simp add: buf_wf_iff)
    with buf_write_desc_room [of p e] 1 c Write show ?thesis by (auto simp: length_buf_elems_sound [OF s] buf_wf_iff)
  next
    case 2
    with s have "buf_wf p" by (simp add: buf_wf_iff)
    with buf_write_desc_full [of p e] 2 c Write show ?thesis by (auto simp: length_buf_elems_sound [OF s])
  next
    case 3
    with s Write show ?thesis by (simp add: buf_write_desc_def buf_sound_def length_buf_elems_sound [OF s])
  qed
next
  case (Read data)
  show ?thesis
  proof (cases "bd_count p = 0")
    case True
    then have "buf_elems p = []" using length_buf_elems_sound [OF s] by simp
    with s True Read show ?thesis by (simp add: buf_read_desc_def)
  next
    case False
    then have "buf_elems p \<noteq> []" using length_buf_elems_sound [OF s] by (auto simp: unat_eq_0)
    with buf_read_desc_sound [OF s False, of data] Read c show ?thesis by (auto simp: neq_Nil_conv)
  qed
next
  case Flush
  with s show ?thesis by (auto simp: buf_flush_desc_def buf_sound_def buf_elems_def buf_macros split: option.splits)
qed

lemma buf_calls_refine:
  "buf_sound p \<Longrightarrow> list_all (call_block_ok (BUF_REALDSIZE p)) cs \<Longrightarrow>
   \<exists>p'. buf_calls cs p = Some (fst (list_calls (BUF_REALSIZE p) cs (buf_elems p)), p') \<and> buf_sound p' \<and>
    buf_elems p' = snd (list_calls (BUF_REALSIZE p) cs (buf_elems p))"
proof (induction cs arbitrary: p)
  case (Cons c cs)
  obtain p1 where p1: "buf_op c p = Some (fst (list_op (BUF_REALSIZE p) c (buf_elems p)), p1)" "buf_sound p1"
    "buf_elems p1 = snd (list_op (BUF_REALSIZE p) c (buf_elems p))" "BUF_REALSIZE p1 = BUF_REALSIZE p" "BUF_REALDSIZE p1 = BUF_REALDSIZE p"
    using buf_op_refines [of p c] Cons.prems by auto
  from Cons.IH [OF p1(2)] Cons.prems(2) p1 show ?case by (auto simp: Let_def case_prod_beta)
qed simp

section \<open>Reading while interrupts arrive\<close>

text \<open>The steps of \<open>buf_read\<close> behind its check, between which an interrupt can arrive: the copy of each byte, the decrement of \<open>count\<close> and
  the advance of \<open>rptr\<close>. The state has the block of the caller.\<close>

datatype rd_act = Copy nat | Dec | Adv

fun rd_step :: "rd_act \<Rightarrow> u8 list \<times> buf_desc \<Rightarrow> (u8 list \<times> buf_desc) option" where
  "rd_step (Copy i) (data, p) =
     do {
       bs \<leftarrow> bd_buf p;
       if unat (bd_rptr p) + i < length bs \<and> i < length data then Some (data[i := bs ! (unat (bd_rptr p) + i)], p) else None
     }"
| "rd_step Dec (data, p) = Some (data, buf_read_dec p)"
| "rd_step Adv (data, p) = Some (data, buf_read_adv p)"

definition rd_acts :: "nat \<Rightarrow> rd_act list" where
  "rd_acts d = map Copy [0..<d] @ [Dec, Adv]"

text \<open>A schedule is a sequence of steps of the reader and of interrupts, whose handler writes an element. The run stops when a write is refused.\<close>

datatype rd_event = Main rd_act | Irq "u8 list"

fun rd_run :: "rd_event list \<Rightarrow> u8 list \<times> buf_desc \<Rightarrow> (u8 list \<times> buf_desc) option" where
  "rd_run [] s = Some s"
| "rd_run (Main a # es) s = do { s1 \<leftarrow> rd_step a s; rd_run es s1 }"
| "rd_run (Irq e # es) s =
     do {
       (st, p) \<leftarrow> buf_write_desc e (snd s);
       if st = PLATFORM_OK then rd_run es (fst s, p) else None
     }"

fun rd_mains :: "rd_event list \<Rightarrow> rd_act list" where
  "rd_mains [] = []"
| "rd_mains (Main a # es) = a # rd_mains es"
| "rd_mains (Irq e # es) = rd_mains es"

fun rd_irqs :: "rd_event list \<Rightarrow> u8 list list" where
  "rd_irqs [] = []"
| "rd_irqs (Main a # es) = rd_irqs es"
| "rd_irqs (Irq e # es) = e # rd_irqs es"

lemma buf_write_keeps:
  "buf_write_desc e p = Some (PLATFORM_OK, p') \<Longrightarrow> bd_rptr p' = bd_rptr p \<and> BUF_REALDSIZE p' = BUF_REALDSIZE p \<and> BUF_REALSIZE p' = BUF_REALSIZE p"
  by (auto simp: buf_write_desc_def buf_macros split: if_splits bind_splits)

lemma rd_run_after:
  assumes "rd_mains es = []" "buf_wf p" "length (buf_elems p) + length (rd_irqs es) \<le> BUF_REALSIZE p" "list_all (\<lambda>e. length e = BUF_REALDSIZE p) (rd_irqs es)"
  shows "\<exists>p'. rd_run es (data, p) = Some (data, p') \<and> buf_wf p' \<and> buf_elems p' = buf_elems p @ rd_irqs es"
  using assms
proof (induction es arbitrary: p)
  case (Cons ev es)
  then obtain e where ev: "ev = Irq e" by (cases ev) auto
  obtain p1 where p1: "buf_write_desc e p = Some (PLATFORM_OK, p1)" "buf_wf p1" "buf_elems p1 = buf_elems p @ [e]"
    "BUF_REALSIZE p1 = BUF_REALSIZE p" "BUF_REALDSIZE p1 = BUF_REALDSIZE p"
    using buf_write_desc_room [of p e] Cons.prems ev by (auto simp: length_buf_elems)
  with Cons.IH [of p1] Cons.prems ev show ?case by auto
qed auto

text \<open>A write between the decrement and the advance.\<close>

lemma buf_write_dec:
  assumes wf: "buf_wf p" and ne: "bd_count p \<noteq> 0" and w: "buf_write_desc e p = Some (PLATFORM_OK, pw)" and room: "unat (bd_count p) < BUF_REALSIZE p"
  shows "buf_write_desc e (buf_read_dec p) = Some (PLATFORM_OK, buf_read_dec pw)"
proof -
  have le: "unat (bd_count p - 1) \<le> BUF_REALSIZE p" using room ne by (simp add: unat_minus_one)
  show ?thesis using wf w le room by (auto simp: buf_write_desc_def buf_read_dec_def buf_wf_def buf_macros BUF_MOD_INCR_def split: if_splits bind_splits)
qed

lemma buf_elems_nonempty: "buf_wf p \<Longrightarrow> buf_elems p \<noteq> [] \<longleftrightarrow> bd_count p \<noteq> 0"
  using length_buf_elems [of p] by (auto simp: unat_eq_0)

lemma buf_read_adv_dec:
  assumes "buf_wf p" "buf_elems p \<noteq> []"
  shows "buf_wf (buf_read_adv (buf_read_dec p)) \<and> buf_elems (buf_read_adv (buf_read_dec p)) = tl (buf_elems p) \<and>
    BUF_REALSIZE (buf_read_adv (buf_read_dec p)) = BUF_REALSIZE p \<and> BUF_REALDSIZE (buf_read_adv (buf_read_dec p)) = BUF_REALDSIZE p"
  using buf_read_desc_nonempty [of p "replicate (BUF_REALDSIZE p) 0"] assms
  by (auto simp: buf_elems_nonempty buf_read_desc_def buf_wf_def split: if_splits bind_splits)

lemma rd_run_dec:
  assumes "rd_mains es = [Adv]" "buf_wf p" "buf_elems p \<noteq> []" "length (buf_elems p) + length (rd_irqs es) \<le> BUF_REALSIZE p"
    "list_all (\<lambda>e. length e = BUF_REALDSIZE p) (rd_irqs es)"
  shows "\<exists>p'. rd_run es (data, buf_read_dec p) = Some (data, p') \<and> buf_wf p' \<and> buf_elems p' = tl (buf_elems p) @ rd_irqs es"
  using assms
proof (induction es arbitrary: p)
  case (Cons ev es)
  show ?case
  proof (cases ev)
    case (Main a)
    with Cons.prems(1) have "a = Adv" "rd_mains es = []" by auto
    with rd_run_after [of es "buf_read_adv (buf_read_dec p)" data] buf_read_adv_dec [OF Cons.prems(2,3)] Cons.prems Main show ?thesis by auto
  next
    case (Irq e)
    have c: "unat (bd_count p) < BUF_REALSIZE p" "bd_count p \<noteq> 0" using Cons.prems Irq length_buf_elems [of p] by (auto simp: buf_elems_nonempty)
    obtain p1 where p1: "buf_write_desc e p = Some (PLATFORM_OK, p1)" "buf_wf p1" "buf_elems p1 = buf_elems p @ [e]"
      "BUF_REALSIZE p1 = BUF_REALSIZE p" "BUF_REALDSIZE p1 = BUF_REALDSIZE p"
      using buf_write_desc_room [of p e] c Cons.prems Irq by auto
    note w = buf_write_dec [OF Cons.prems(2) c(2) p1(1) c(1)]
    have "\<exists>p'. rd_run es (data, buf_read_dec p1) = Some (data, p') \<and> buf_wf p' \<and> buf_elems p' = tl (buf_elems p1) @ rd_irqs es"
      by (rule Cons.IH) (use Cons.prems Irq p1 in auto)
    with Irq w p1(3) Cons.prems(3) show ?thesis by auto
  qed
qed simp

lemma buf_oldest_byte:
  assumes "buf_wf p" "buf_elems p \<noteq> []" "i < BUF_REALDSIZE p"
  obtains bs where "bd_buf p = Some bs" "unat (bd_rptr p) + i < length bs" "bs ! (unat (bd_rptr p) + i) = hd (buf_elems p) ! i"
    "length (hd (buf_elems p)) = BUF_REALDSIZE p"
  using assms(1)
proof (rule buf_wfE)
  fix bs r
  assume bs: "bd_buf p = Some bs" "length bs = BUF_BYTESIZE p"
  note s = buf_wf_sound [OF assms(1)]
  have b: "slot_off p 0 + BUF_REALDSIZE p \<le> length bs" using slot_off_bound [OF s, of 0] bs by simp
  have c: "0 < unat (bd_count p)" using assms(2) length_buf_elems [OF assms(1)] by (metis length_greater_0_conv)
  then have "hd (buf_elems p) = slice (slot_off p 0) (BUF_REALDSIZE p) bs" by (simp add: buf_elems_def bs hd_map)
  with b assms(3) bs show thesis by (intro that [of bs]) (auto simp: buf_sound_slot_0 [OF s] slice_def)
qed

lemma rd_run_copy:
  assumes "rd_mains es = map Copy [k..<BUF_REALDSIZE p] @ [Dec, Adv]" "buf_wf p" "buf_elems p \<noteq> []"
    "length (buf_elems p) + length (rd_irqs es) \<le> BUF_REALSIZE p" "list_all (\<lambda>e. length e = BUF_REALDSIZE p) (rd_irqs es)"
    "length data = BUF_REALDSIZE p" "k \<le> BUF_REALDSIZE p" "take k data = take k (hd (buf_elems p))"
  shows "\<exists>p'. rd_run es (data, p) = Some (hd (buf_elems p), p') \<and> buf_wf p' \<and> buf_elems p' = tl (buf_elems p) @ rd_irqs es"
  using assms
proof (induction es arbitrary: p k data)
  case (Cons ev es)
  let ?D = "BUF_REALDSIZE p" and ?h = "hd (buf_elems p)"
  show ?case
  proof (cases ev)
    case (Irq e)
    obtain p1 where p1: "buf_write_desc e p = Some (PLATFORM_OK, p1)" "buf_wf p1" "buf_elems p1 = buf_elems p @ [e]"
      "BUF_REALSIZE p1 = BUF_REALSIZE p" "BUF_REALDSIZE p1 = ?D"
      using buf_write_desc_room [of p e] Cons.prems Irq by (auto simp: length_buf_elems)
    have "\<exists>p'. rd_run es (data, p1) = Some (hd (buf_elems p1), p') \<and> buf_wf p' \<and> buf_elems p' = tl (buf_elems p1) @ rd_irqs es"
      by (rule Cons.IH [where k = k]) (use Cons.prems Irq p1 in auto)
    with Irq p1 Cons.prems(3) show ?thesis by auto
  next
    case (Main a)
    show ?thesis
    proof (cases "k < ?D")
      case True
      then have a: "a = Copy k" "rd_mains es = map Copy [Suc k..<?D] @ [Dec, Adv]" using Cons.prems(1) Main by (auto simp: upt_conv_Cons)
      obtain bs where bs: "bd_buf p = Some bs" "unat (bd_rptr p) + k < length bs" "bs ! (unat (bd_rptr p) + k) = ?h ! k" "length ?h = ?D"
        by (rule buf_oldest_byte [OF Cons.prems(2,3) True])
      have "take (Suc k) (data[k := ?h ! k]) = take (Suc k) ?h"
        using True Cons.prems(6,8) bs(4) by (simp add: take_Suc_conv_app_nth)
      then have "\<exists>p'. rd_run es (data[k := ?h ! k], p) = Some (?h, p') \<and> buf_wf p' \<and> buf_elems p' = tl (buf_elems p) @ rd_irqs es"
        by (intro Cons.IH [where k = "Suc k"]) (use Cons.prems Main a True in auto)
      with Main a bs True Cons.prems(6) show ?thesis by auto
    next
      case False
      with Cons.prems(1,7) Main have a: "a = Dec" "rd_mains es = [Adv]" by auto
      obtain bs where "length ?h = ?D" using buf_oldest_byte [OF Cons.prems(2,3), of 0] by (auto simp: BUF_REALDSIZE_def)
      with False Cons.prems(6-8) have "data = ?h" by simp
      with rd_run_dec [OF a(2) Cons.prems(2,3), of data] Cons.prems(4,5) Main a(1) show ?thesis by auto
    qed
  qed
qed simp

text \<open>Without interrupts the steps are \<open>buf_read\<close>.\<close>

lemma rd_run_main: "rd_run (map Main as @ es) s = do { s1 \<leftarrow> rd_run (map Main as) s; rd_run es s1 }"
  by (induction as arbitrary: s) (auto split: bind_split)

lemma rd_mains_Main [simp]: "rd_mains (map Main as) = as" "rd_irqs (map Main as) = []"
  by (induction as) auto

lemma rd_run_copies_keep: "rd_run (map Main (map Copy is)) (data, p) = Some (data', p') \<Longrightarrow> p' = p"
  by (induction "is" arbitrary: data) (auto split: bind_splits if_splits)

lemma rd_run_is_read:
  assumes "buf_wf p" "buf_elems p \<noteq> []" "length data = BUF_REALDSIZE p" "rd_run (map Main (rd_acts (BUF_REALDSIZE p))) (data, p) = Some (data', p')"
  shows "buf_read_desc data p = Some ((PLATFORM_OK, data'), p')"
proof -
  let ?es = "map Main (rd_acts (BUF_REALDSIZE p))"
  have m: "rd_mains ?es = map Copy [0..<BUF_REALDSIZE p] @ [Dec, Adv]" by (simp only: rd_mains_Main rd_acts_def)
  have "length (buf_elems p) + length (rd_irqs ?es) \<le> BUF_REALSIZE p" "list_all (\<lambda>e. length e = BUF_REALDSIZE p) (rd_irqs ?es)"
    using assms(1) length_buf_elems [OF assms(1)] by (simp_all only: rd_mains_Main) (simp_all add: buf_wf_def)
  from rd_run_copy [OF m assms(1,2) this assms(3)] assms(4) have h: "data' = hd (buf_elems p)" by auto
  obtain d where "rd_run (map Main (map Copy [0..<BUF_REALDSIZE p])) (data, p) = Some (d, p)" "p' = buf_read_adv (buf_read_dec p)"
    using assms(4) rd_run_copies_keep by (fastforce simp: rd_acts_def rd_run_main simp del: map_map split: bind_splits)
  moreover have "buf_read_copy data p = Some (hd (buf_elems p))"
    using buf_read_desc_nonempty [of p data] assms(1-3) by (auto simp: buf_elems_nonempty buf_read_desc_def buf_wf_def split: if_splits bind_splits)
  ultimately show ?thesis using assms(1,2) h by (simp add: buf_read_desc_def buf_elems_nonempty buf_wf_def)
qed

section \<open>Properties\<close>

text \<open>C1. Any sequence of writes, reads and flushes of a buffer, whatever they find it to hold, faults nowhere and returns, call by call, the status and
  the block that the same calls on a list return. For a buffer of \<open>n\<close> elements that list is a queue while it has at most \<open>n\<close>
  elements; a write when it has \<open>n\<close> is accepted, but puts the element in the place of the oldest as well as at the end; a write when it
  has \<open>n + 1\<close> is refused; a read when it has none reports an underflow and leaves the caller's block alone.\<close>

theorem buf_calls_refine_list:
  assumes "buf_sound p" and "list_all (call_block_ok (BUF_REALDSIZE p)) cs"
  shows "\<exists>p'. buf_calls cs p = Some (fst (list_calls (BUF_REALSIZE p) cs (buf_elems p)), p') \<and> buf_sound p' \<and>
    buf_elems p' = snd (list_calls (BUF_REALSIZE p) cs (buf_elems p))"
  using assms by (rule buf_calls_refine)

theorem buf_calls_refine_list_witness:
  "\<exists>p'. buf_calls [Write [1], Write [2], Write [3], Write [4], Read [0], Read [0], Read [0], Read [9]]
      \<lparr>bd_logsize = 1, bd_logdsize = 0, bd_wptr = 0, bd_rptr = 0, bd_count = 0, bd_buf = Some [0, 0]\<rparr>
    = Some ([(PLATFORM_OK, [1]), (PLATFORM_OK, [2]), (PLATFORM_OK, [3]), (PLATFORM_ERR, [4]),
        (PLATFORM_OK, [3]), (PLATFORM_OK, [2]), (PLATFORM_OK, [3]), (PLATFORM_UNDERFLOW, [9])], p') \<and> buf_elems p' = []"
proof -
  let ?p = "\<lparr>bd_logsize = 1, bd_logdsize = 0, bd_wptr = 0, bd_rptr = 0, bd_count = 0, bd_buf = Some [0, 0]\<rparr>"
  have p: "buf_sound ?p" "BUF_REALSIZE ?p = 2" "BUF_REALDSIZE ?p = 1" "buf_elems ?p = []"
    by (simp_all add: buf_sound_def buf_macros BUF_SIZE_NONE_def buf_elems_def)
  show ?thesis
    using buf_calls_refine_list [OF p(1), of "[Write [1], Write [2], Write [3], Write [4], Read [0], Read [0], Read [0], Read [9]]"]
    unfolding p(2-4) by auto
qed

text \<open>A run of writes and reads on an empty well-formed buffer that a list of bounded length allows behaves as on that
  list: reads return the elements in the order they were written, and the buffer stays well-formed.\<close>

theorem buf_fifo_run:
  assumes "buf_wf p" and "buf_elems p = []"
    and "\<forall>e \<in> qop_elems ops. length e = BUF_REALDSIZE p"
    and "lrun (BUF_REALSIZE p) ops [] = Some (es, q)"
  shows "\<exists>p'. qrun buf_put buf_get ops p = Some (es, p') \<and> buf_wf p' \<and> buf_elems p' = q \<and>
      es @ q = concat (map (case_qop (\<lambda>e. [e]) []) ops)"
  using bufq.run_refines_list [of p ops es q] lrun_conserves [OF assms(4)] assms
  by (auto simp: buf_elem_ok_def)

definition buf_demo :: buf_desc where
  "buf_demo = \<lparr>bd_logsize = 2, bd_logdsize = 1, bd_wptr = 2, bd_rptr = 2, bd_count = 0,
     bd_buf = Some [0, 0, 0, 0]\<rparr>"

lemma buf_demo_facts:
  "buf_wf buf_demo" "buf_elems buf_demo = []" "BUF_REALDSIZE buf_demo = 2" "BUF_REALSIZE buf_demo = 2"
  by (simp_all add: buf_demo_def buf_wf_def buf_elems_def buf_macros BUF_SIZE_NONE_def)

theorem buf_fifo_run_witness:
  "\<exists>p'. qrun buf_put buf_get [Put [1, 2], Put [3, 4], Get, Put [5, 6], Get] buf_demo
      = Some ([[1, 2], [3, 4]], p') \<and> buf_wf p' \<and> buf_elems p' = [[5, 6]]"
  using buf_fifo_run [of buf_demo "[Put [1, 2], Put [3, 4], Get, Put [5, 6], Get]"
      "[[1, 2], [3, 4]]" "[[5, 6]]"] buf_demo_facts
  by auto

text \<open>C2. Interrupt handlers that write elements while a read of a non-empty buffer is in progress do no harm, provided the buffer has room for the
  elements they write: wherever they arrive between the copies of the single bytes, the decrement of the count and the advance of the
  read position, and however many they are, all writes are accepted, the reader gets the oldest element, and the buffer then has the others
  followed by the new ones, in the order of the interrupts.\<close>

theorem buf_read_interrupted:
  assumes wf: "buf_wf p" and ne: "bd_count p \<noteq> 0" and data: "length data = BUF_REALDSIZE p"
    and es: "rd_mains es = rd_acts (BUF_REALDSIZE p)" "list_all (\<lambda>e. length e = BUF_REALDSIZE p) (rd_irqs es)"
    and room: "unat (bd_count p) + length (rd_irqs es) \<le> BUF_REALSIZE p"
  shows "\<exists>p'. rd_run es (data, p) = Some (hd (buf_elems p), p') \<and> buf_wf p' \<and> buf_elems p' = tl (buf_elems p) @ rd_irqs es"
proof (rule rd_run_copy [where k = 0])
  show "rd_mains es = map Copy [0..<BUF_REALDSIZE p] @ [Dec, Adv]" using es(1) by (simp add: rd_acts_def)
  show "buf_elems p \<noteq> []" using wf ne by (simp add: buf_elems_nonempty)
  show "length (buf_elems p) + length (rd_irqs es) \<le> BUF_REALSIZE p" using room length_buf_elems [OF wf] by simp
qed (use wf es(2) data in simp_all)

definition buf_demo1 :: buf_desc where
  "buf_demo1 = \<lparr>bd_logsize = 2, bd_logdsize = 0, bd_wptr = 0, bd_rptr = 3, bd_count = 1,
     bd_buf = Some [0, 0, 0, 7]\<rparr>"

lemma buf_demo1_facts:
  "buf_wf buf_demo1" "bd_count buf_demo1 \<noteq> 0" "unat (bd_count buf_demo1) < BUF_REALSIZE buf_demo1"
  "BUF_REALDSIZE buf_demo1 = 1" "buf_elems buf_demo1 = [[7]]"
  by (simp_all add: buf_demo1_def buf_wf_def buf_elems_def buf_macros BUF_SIZE_NONE_def slot_off_def slice_def)

theorem buf_read_interrupted_witness:
  "\<exists>p'. rd_run [Irq [8], Main (Copy 0), Main Dec, Irq [9], Main Adv] ([0], buf_demo1) = Some ([7], p') \<and> buf_wf p' \<and> buf_elems p' = [[8], [9]]"
proof -
  have "unat (bd_count buf_demo1) = 1" "BUF_REALSIZE buf_demo1 = 4" by (simp_all add: buf_demo1_def buf_macros)
  then show ?thesis
    using buf_read_interrupted [OF buf_demo1_facts(1,2), of "[0]" "[Irq [8], Main (Copy 0), Main Dec, Irq [9], Main Adv]"] buf_demo1_facts(4,5)
    by (auto simp: rd_acts_def)
qed

text \<open>The guard of \<open>buf_write\<close> lets one element too many in: a write to a full buffer is
  accepted, the count exceeds the size and the next read returns the new element, so the oldest one
  is lost and the queue order is broken.\<close>

theorem buf_write_full_overwrites:
  assumes wf: "buf_wf p" and full: "unat (bd_count p) = BUF_REALSIZE p"
    and e: "length e = BUF_REALDSIZE p" and data: "length data = BUF_REALDSIZE p"
  shows "\<exists>p' p''. buf_write_desc e p = Some (PLATFORM_OK, p') \<and>
      unat (bd_count p') = BUF_REALSIZE p' + 1 \<and> \<not> buf_wf p' \<and>
      buf_read_desc data p' = Some ((PLATFORM_OK, e), p'')"
  using wf
proof (rule buf_wfE)
  fix bs r
  assume bs: "bd_buf p = Some bs" "length bs = BUF_BYTESIZE p"
    and d: "0 < BUF_REALDSIZE p" and n: "BUF_REALSIZE p \<le> 2 ^ 15" and n0: "0 < BUF_REALSIZE p"
    and LL: "BUF_BYTESIZE p = BUF_REALSIZE p * BUF_REALDSIZE p"
  have w: "unat (bd_wptr p) = unat (bd_rptr p)"
    using wf full LL by (simp add: buf_wf_def)
  have fits: "unat (bd_rptr p) + BUF_REALDSIZE p \<le> length bs"
    using slot_off_bound [OF buf_wf_sound [OF wf], of 0] buf_sound_slot_0 [OF buf_wf_sound [OF wf]] bs by simp
  let ?bs' = "blit (unat (bd_rptr p)) e bs"
  let ?p' = "p\<lparr>bd_buf := Some ?bs', bd_wptr := BUF_MOD_INCR p (bd_wptr p), bd_count := bd_count p + 1\<rparr>"
  have res: "buf_write_desc e p = Some (PLATFORM_OK, ?p')"
    using wf full bs e fits
    by (simp add: buf_write_desc_def buf_wf_def DUFF_DEVICE_8_eq [OF d] copy_byte_steps w slice_def)
  have c': "unat (bd_count p + 1) = Suc (BUF_REALSIZE p)"
    using full n by (simp add: unat_word_ariths)
  then have ne: "bd_count p + 1 \<noteq> 0"
    by (metis nat.distinct(1) unat_0)
  have sl: "blit 0 e data = e"
    using e data by (simp add: blit_def)
  have "buf_read_copy data ?p' = Some e"
    using d fits bs e data sl
    by (simp add: buf_read_copy_def DUFF_DEVICE_8_eq copy_byte_steps mem_simps)
  then have "buf_read_desc data ?p' = Some ((PLATFORM_OK, e), buf_read_adv (buf_read_dec ?p'))"
    using wf ne by (simp add: buf_read_desc_def buf_wf_def)
  then show ?thesis
    using res c' by (auto simp: buf_wf_def)
qed

definition buf_demo_full :: buf_desc where
  "buf_demo_full = \<lparr>bd_logsize = 1, bd_logdsize = 0, bd_wptr = 0, bd_rptr = 0, bd_count = 2,
     bd_buf = Some [10, 11]\<rparr>"

theorem buf_write_full_overwrites_witness:
  "\<exists>p' p''. buf_write_desc [12] buf_demo_full = Some (PLATFORM_OK, p') \<and>
      buf_elems buf_demo_full = [[10], [11]] \<and> buf_read_desc [0] p' = Some ((PLATFORM_OK, [12]), p'')"
proof -
  have "buf_wf buf_demo_full" "unat (bd_count buf_demo_full) = BUF_REALSIZE buf_demo_full"
    "BUF_REALDSIZE buf_demo_full = 1"
    by (simp_all add: buf_demo_full_def buf_wf_def buf_macros BUF_SIZE_NONE_def)
  moreover have "buf_elems buf_demo_full = [[10], [11]]"
    by (simp add: buf_demo_full_def buf_elems_def buf_macros slot_off_def slice_def upt_rec)
  ultimately show ?thesis
    using buf_write_full_overwrites [of buf_demo_full "[12]" "[0]"] by auto
qed

text \<open>Resizing a live buffer with \<open>buf_set\<close> keeps the old read and write positions: when the
  new allocation is not larger than the write position, the call still reports success and the next
  accepted write stores outside the allocation.\<close>

theorem buf_set_shrink_faults:
  assumes ra: "\<And>old n. \<exists>bs. ra old n = Some bs \<and> length bs = n"
    and ne: "lsize + ldsize \<noteq> BUF_SIZE_NONE" and small: "2 ^ unat (lsize + ldsize) \<le> unat (bd_wptr p)"
    and cnt: "unat (bd_count p) \<le> 2 ^ (unat (lsize + ldsize) - unat ldsize)"
  shows "\<exists>p'. buf_set_desc ra lsize ldsize p = Some (PLATFORM_OK, p') \<and>
      bd_wptr p' = bd_wptr p \<and> bd_count p' = bd_count p \<and> buf_write_desc e p' = None"
proof -
  obtain bs where bs: "ra (bd_buf p) (2 ^ unat (lsize + ldsize)) = Some bs" "length bs = 2 ^ unat (lsize + ldsize)"
    using ra by blast
  let ?p' = "p\<lparr>bd_logdsize := ldsize, bd_logsize := lsize + ldsize, bd_buf := Some bs\<rparr>"
  have set: "buf_set_desc ra lsize ldsize p = Some (PLATFORM_OK, ?p')"
    using bs by (simp add: buf_set_desc_def Let_def buf_macros)
  have "snd ((copy_byte e 0 (unat (bd_wptr p)) ^^ BUF_REALDSIZE ?p') (0, Some bs)) = None"
    by (rule copy_byte_fault) (use bs small in \<open>auto simp: buf_macros intro: le_less_trans less_add_same_cancel1\<close>)
  then have "buf_write_desc e ?p' = None"
    using ne cnt by (simp add: buf_write_desc_def DUFF_DEVICE_8_eq buf_macros)
  with set show ?thesis by auto
qed

theorem buf_set_shrink_faults_witness:
  "\<exists>p'. buf_set_desc (\<lambda>old n. Some (replicate n 0)) 1 0
        \<lparr>bd_logsize = 2, bd_logdsize = 0, bd_wptr = 3, bd_rptr = 3, bd_count = 0, bd_buf = Some [1, 2, 3, 4]\<rparr>
      = Some (PLATFORM_OK, p') \<and> buf_write_desc [5] p' = None"
  using buf_set_shrink_faults [of "\<lambda>old n. Some (replicate n 0)" 1 0
      "\<lparr>bd_logsize = 2, bd_logdsize = 0, bd_wptr = 3, bd_rptr = 3, bd_count = 0, bd_buf = Some [1, 2, 3, 4]\<rparr>" "[5]"]
  by (auto simp: BUF_SIZE_NONE_def)

text \<open>The entry points address exactly one descriptor of the table: after a write to a
  resource with room, that resource holds one element more, reading it back returns the elements in
  order, and every other UART or ADC buffer is unchanged; virtual UARTs are mapped behind the
  physical ones.\<close>

theorem buf_write_table:
  assumes "buf_getptr B resid (bufh_check_resnum cf resid resnum) = Some p"
    and "buf_wf p" and "unat (bd_count p) < BUF_REALSIZE p" and "length e = BUF_REALDSIZE p"
  shows "\<exists>B' p'. buf_write cf B resid resnum e = Some (PLATFORM_OK, B') \<and>
      buf_getptr B' resid (bufh_check_resnum cf resid resnum) = Some p' \<and>
      buf_wf p' \<and> buf_elems p' = buf_elems p @ [e] \<and>
      buf_get_count cf B' resid resnum = Some (length (buf_elems p) + 1) \<and>
      (\<forall>resid' rn. (resid', rn) \<noteq> (resid, bufh_check_resnum cf resid resnum) \<longrightarrow>
         buf_getptr B' resid' rn = buf_getptr B resid' rn)"
proof -
  from buf_write_desc_room [OF assms(2,4,3)] obtain p' where
    p': "buf_write_desc e p = Some (PLATFORM_OK, p')" "buf_wf p'" "buf_elems p' = buf_elems p @ [e]"
    by blast
  have cnt: "unat (bd_count p') = length (buf_elems p) + 1"
    using length_buf_elems [OF p'(2)] p'(3) by simp
  show ?thesis
    using with_buf_Some [where f = "buf_write_desc e", OF assms(1) p'(1)] p' cnt
    by (auto simp: buf_write_def buf_get_count_def buf_getptr_putptr [OF assms(1)])
qed

definition buf_demo_conf :: platform_conf where
  "buf_demo_conf = \<lparr>NUM_UART = 1, NUM_ADC = 1, BUILD_SERMUX = True, SERMUX_NUM_VUART = 2, SERMUX_PHYS_ID = 0\<rparr>"

definition buf_demo_table :: buf_table where
  "buf_demo_table = \<lparr>buf_desc_uart = [buf_demo_full, buf_demo1, buf_demo1], buf_desc_adc = [buf_demo]\<rparr>"

theorem buf_write_table_witness:
  "\<exists>B' p'. buf_write buf_demo_conf buf_demo_table BUF_ID_UART 0xD1 [9] = Some (PLATFORM_OK, B') \<and>
      buf_getptr B' BUF_ID_UART 2 = Some p' \<and> buf_elems p' = [[7], [9]] \<and>
      buf_getptr B' BUF_ID_UART 1 = Some buf_demo1"
proof -
  have id: "bufh_check_resnum buf_demo_conf BUF_ID_UART 0xD1 = 2"
    by (simp add: bufh_check_resnum_def buf_demo_conf_def SERMUX_SERVICE_ID_FIRST_def)
  have get: "buf_getptr buf_demo_table BUF_ID_UART 2 = Some buf_demo1"
    "buf_getptr buf_demo_table BUF_ID_UART 1 = Some buf_demo1"
    by (simp_all add: buf_getptr_def buf_demo_table_def)
  show ?thesis
    using buf_write_table [of buf_demo_table BUF_ID_UART buf_demo_conf "0xD1" buf_demo1 "[9]"]
      id get buf_demo1_facts
    by fastforce
qed

end
