(* ===== verification/Elua_Int.thy ===== *)
theory Elua_Int
  imports Queues
begin

text \<open>
  Interrupt support (\<open>src/src/elua_int.c\<close>): a ring of pending interrupts that platform code fills
  from interrupt context and that the Lua VM's count hook empties, the enable flags of the
  interrupt sources, and the table of C handlers. The VM itself is outside: whether a Lua state
  exists and whether the hook is installed are two booleans of the state, and the Lua handlers are a
  parameter of the hook: for every interrupt the handler, if it has one, as a state transformer.
\<close>

section \<open>State\<close>

record elua_int_element =
  ie_id :: u8
  ie_resnum :: u16

definition ELUA_INT_EMPTY_SLOT :: u8 where
  "ELUA_INT_EMPTY_SLOT = 0"

definition ELUA_INT_FIRST_ID :: u8 where
  "ELUA_INT_FIRST_ID = 1"

definition LUA_INT_MAX_SOURCES :: nat where
  "LUA_INT_MAX_SOURCES = 128"

text \<open>\<open>'h\<close> is the type of C handlers; \<open>None\<close> is the NULL pointer.\<close>

record 'h elua_int_state =
  int_read_idx :: u8
  int_write_idx :: u8
  int_queue :: "elua_int_element list"
  int_flags :: "u32 list"
  int_lua_running :: bool
  int_hook_set :: bool
  int_c_handler_list :: "'h option list"

text \<open>\<open>lg\<close> is \<open>PLATFORM_INT_QUEUE_LOG_SIZE\<close>, \<open>lst\<close> is \<open>INT_ELUA_LAST\<close>.\<close>

definition INT_IDX_MASK :: "nat \<Rightarrow> nat" where
  "INT_IDX_MASK lg = 2 ^ lg - 1"

definition int_idx_incr :: "nat \<Rightarrow> u8 \<Rightarrow> u8" where
  "int_idx_incr lg i = word_of_nat ((unat i + 1) AND INT_IDX_MASK lg)"

section \<open>Operations\<close>

definition elua_int_enable :: "u8 \<Rightarrow> 'h elua_int_state \<Rightarrow> 'h elua_int_state" where
  "elua_int_enable inttype s =
     (if unat inttype < LUA_INT_MAX_SOURCES
      then let k = unat (drop_bit 5 inttype)
           in s\<lparr>int_flags := (int_flags s)[k := int_flags s ! k OR push_bit (unat (inttype AND 0x1F)) 1]\<rparr>
      else s)"

definition elua_int_disable :: "u8 \<Rightarrow> 'h elua_int_state \<Rightarrow> 'h elua_int_state" where
  "elua_int_disable inttype s =
     (if unat inttype < LUA_INT_MAX_SOURCES
      then let k = unat (drop_bit 5 inttype)
           in s\<lparr>int_flags := (int_flags s)[k := int_flags s ! k AND NOT (push_bit (unat (inttype AND 0x1F)) 1)]\<rparr>
      else s)"

definition elua_int_is_enabled :: "'h elua_int_state \<Rightarrow> u8 \<Rightarrow> bool" where
  "elua_int_is_enabled s inttype =
     (if unat inttype < LUA_INT_MAX_SOURCES
      then int_flags s ! unat (drop_bit 5 inttype) AND push_bit (unat (inttype AND 0x1F)) 1 \<noteq> 0
      else False)"

fun int_flags_clear :: "nat \<Rightarrow> u32 list \<Rightarrow> u32 list" where
  "int_flags_clear 0 fl = fl"
| "int_flags_clear (Suc i) fl = (int_flags_clear i fl)[i := 0]"

definition elua_int_disable_all :: "'h elua_int_state \<Rightarrow> 'h elua_int_state" where
  "elua_int_disable_all s = s\<lparr>int_flags := int_flags_clear (drop_bit 5 LUA_INT_MAX_SOURCES) (int_flags s)\<rparr>"

definition elua_int_cleanup :: "'h elua_int_state \<Rightarrow> 'h elua_int_state" where
  "elua_int_cleanup s =
     (elua_int_disable_all s)\<lparr>int_read_idx := 0, int_write_idx := 0,
        int_queue := map (\<lambda>_. \<lparr>ie_id = ELUA_INT_EMPTY_SLOT, ie_resnum = 0\<rparr>) (int_queue s)\<rparr>"

definition elua_int_add :: "nat \<Rightarrow> u8 \<Rightarrow> u8 \<Rightarrow> u16 \<Rightarrow> 'h elua_int_state \<Rightarrow> int \<times> 'h elua_int_state" where
  "elua_int_add lg lst inttype resnum s =
     (if inttype < ELUA_INT_FIRST_ID \<or> inttype > lst then (PLATFORM_ERR, s)
      else if \<not> int_lua_running s \<or> \<not> elua_int_is_enabled s inttype then (PLATFORM_ERR, s)
      else if ie_id (int_queue s ! unat (int_write_idx s)) \<noteq> ELUA_INT_EMPTY_SLOT then (PLATFORM_ERR, s)
      else (PLATFORM_OK,
        s\<lparr>int_queue := (int_queue s)[unat (int_write_idx s) := \<lparr>ie_id = inttype, ie_resnum = resnum\<rparr>],
          int_write_idx := int_idx_incr lg (int_write_idx s),
          int_hook_set := True\<rparr>))"

text \<open>The first statements of the hook take the interrupt off the queue.\<close>

definition elua_int_pop :: "nat \<Rightarrow> 'h elua_int_state \<Rightarrow> elua_int_element \<times> 'h elua_int_state" where
  "elua_int_pop lg s =
     (let crt = int_queue s ! unat (int_read_idx s)
      in (crt, s\<lparr>int_queue := (int_queue s)[unat (int_read_idx s) := crt\<lparr>ie_id := ELUA_INT_EMPTY_SLOT\<rparr>],
                 int_read_idx := int_idx_incr lg (int_read_idx s)\<rparr>))"

text \<open>\<open>tab w\<close> is the table of Lua handlers in the state \<open>w\<close> of the Lua program: \<open>None\<close> is \<open>nil\<close>. The handler of an interrupt that is enabled is
  called with the resource. It is Lua code, which works on the state of the program and may itself queue, enable or disable interrupts.\<close>

definition elua_int_hook :: "nat \<Rightarrow> ('w \<Rightarrow> u8 \<Rightarrow> (u16 \<Rightarrow> 'w \<times> 'h elua_int_state \<Rightarrow> 'w \<times> 'h elua_int_state) option) \<Rightarrow>
    'w \<times> 'h elua_int_state \<Rightarrow> elua_int_element \<times> 'w \<times> 'h elua_int_state" where
  "elua_int_hook lg tab ws =
     (let (w, s) = ws;
          (crt, s1) = elua_int_pop lg s;
          (w2, s2) = (if elua_int_is_enabled s1 (ie_id crt)
                      then (case tab w (ie_id crt) of None \<Rightarrow> (w, s1) | Some f \<Rightarrow> f (ie_resnum crt) (w, s1))
                      else (w, s1))
      in (crt, w2, if ie_id (int_queue s2 ! unat (int_read_idx s2)) = ELUA_INT_EMPTY_SLOT
               then s2\<lparr>int_hook_set := False\<rparr> else s2))"

definition elua_int_set_c_handler :: "u8 \<Rightarrow> u8 \<Rightarrow> 'h option \<Rightarrow> 'h elua_int_state \<Rightarrow>
    'h option \<times> 'h elua_int_state" where
  "elua_int_set_c_handler lst inttype ph s =
     (if inttype < ELUA_INT_FIRST_ID \<or> inttype > lst then (None, s)
      else let i = unat (inttype - ELUA_INT_FIRST_ID)
           in (int_c_handler_list s ! i, s\<lparr>int_c_handler_list := (int_c_handler_list s)[i := ph]\<rparr>))"

definition elua_int_get_c_handler :: "u8 \<Rightarrow> u8 \<Rightarrow> 'h elua_int_state \<Rightarrow> 'h option" where
  "elua_int_get_c_handler lst inttype s =
     (if inttype < ELUA_INT_FIRST_ID \<or> inttype > lst then None
      else int_c_handler_list s ! unat (inttype - ELUA_INT_FIRST_ID))"

section \<open>Well-formed queues\<close>

definition int_pending :: "elua_int_element \<Rightarrow> bool" where
  "int_pending e \<longleftrightarrow> ie_id e \<noteq> ELUA_INT_EMPTY_SLOT"

text \<open>The slots in queue order, starting at the read index, and the pending ones among them.\<close>

definition int_ring :: "'h elua_int_state \<Rightarrow> elua_int_element list" where
  "int_ring s = rotate (unat (int_read_idx s)) (int_queue s)"

definition int_elems :: "'h elua_int_state \<Rightarrow> elua_int_element list" where
  "int_elems s = takeWhile int_pending (int_ring s)"

definition int_wf :: "nat \<Rightarrow> 'h elua_int_state \<Rightarrow> bool" where
  "int_wf lg s \<longleftrightarrow>
     lg \<le> 8 \<and> length (int_queue s) = 2 ^ lg \<and> length (int_flags s) = 4 \<and>
     unat (int_read_idx s) < 2 ^ lg \<and>
     unat (int_write_idx s) = (unat (int_read_idx s) + length (int_elems s)) mod 2 ^ lg \<and>
     list_all (\<lambda>e. \<not> int_pending e) (dropWhile int_pending (int_ring s)) \<and>
     (int_hook_set s \<longleftrightarrow> int_elems s \<noteq> [])"

lemma length_int_ring [simp]: "length (int_ring s) = length (int_queue s)"
  by (simp add: int_ring_def)

lemma length_int_elems: "int_wf lg s \<Longrightarrow> length (int_elems s) \<le> 2 ^ lg"
  using length_takeWhile_le [of int_pending "int_ring s"] by (simp add: int_elems_def int_wf_def)

lemma unat_int_idx_incr:
  assumes "lg \<le> 8"
  shows "unat (int_idx_incr lg i) = (unat i + 1) mod 2 ^ lg"
proof -
  have "(unat i + 1) mod 2 ^ lg < 2 ^ lg" by simp
  also have "\<dots> \<le> 2 ^ LENGTH(8)"
    using assms by (intro power_increasing) auto
  finally show ?thesis
    by (simp only: int_idx_incr_def INT_IDX_MASK_def and_pow2_minus_1_nat unat_of_nat_less)
qed

lemma takeWhile_eq_append:
  "list_all P xs \<Longrightarrow> list_all (\<lambda>x. \<not> P x) ys \<Longrightarrow> takeWhile P (xs @ ys) = xs \<and> dropWhile P (xs @ ys) = ys"
  by (cases ys) (auto simp: list_all_iff takeWhile_append2 dropWhile_append2)

text \<open>A well-formed ring is the pending interrupts followed by empty slots.\<close>

lemma int_wf_ring:
  assumes "int_wf lg s"
  obtains free where "int_ring s = int_elems s @ free" "list_all (\<lambda>e. \<not> int_pending e) free"
    "list_all int_pending (int_elems s)" "length (int_elems s) + length free = 2 ^ lg"
proof -
  let ?free = "dropWhile int_pending (int_ring s)"
  have 1: "int_ring s = int_elems s @ ?free"
    by (simp add: int_elems_def)
  moreover from 1 have "length (int_elems s) + length ?free = 2 ^ lg"
    using assms by (metis int_wf_def length_append length_int_ring)
  moreover have "list_all int_pending (int_elems s)"
    by (auto simp: int_elems_def list_all_iff dest: set_takeWhileD)
  ultimately show ?thesis
    using that assms by (simp add: int_wf_def)
qed

lemma int_ringI:
  assumes "int_ring s = xs @ free" "list_all int_pending xs" "list_all (\<lambda>e. \<not> int_pending e) free"
  shows "int_elems s = xs" "dropWhile int_pending (int_ring s) = free"
  using takeWhile_eq_append [OF assms(2,3)] assms(1) by (simp_all add: int_elems_def)

section \<open>Adding and dispatching\<close>

lemma int_wf_write_slot:
  assumes wf: "int_wf lg s" and room: "length (int_elems s) < 2 ^ lg"
  shows "ie_id (int_queue s ! unat (int_write_idx s)) = ELUA_INT_EMPTY_SLOT"
proof -
  from wf obtain free where free: "int_ring s = int_elems s @ free" "list_all (\<lambda>e. \<not> int_pending e) free"
      "length (int_elems s) + length free = 2 ^ lg"
    by (rule int_wf_ring)
  with room have "\<not> int_pending (int_ring s ! length (int_elems s))"
    by (cases free) (auto simp: nth_append)
  then show ?thesis
    using wf room by (simp add: int_ring_def nth_rotate int_wf_def int_pending_def)
qed

lemma int_wf_full_slot:
  assumes wf: "int_wf lg s" and full: "length (int_elems s) = 2 ^ lg"
  shows "ie_id (int_queue s ! unat (int_write_idx s)) \<noteq> ELUA_INT_EMPTY_SLOT"
proof -
  from wf obtain free where "int_ring s = int_elems s @ free" "list_all int_pending (int_elems s)"
      "length (int_elems s) + length free = 2 ^ lg"
    by (rule int_wf_ring)
  with full have "int_pending (int_ring s ! 0)"
    by (cases "int_elems s") auto
  then show ?thesis
    using wf full by (simp add: int_ring_def nth_rotate int_wf_def int_pending_def)
qed

lemma elua_int_add_ok:
  assumes wf: "int_wf lg s" and room: "length (int_elems s) < 2 ^ lg"
    and id: "ELUA_INT_FIRST_ID \<le> i" "i \<le> lst" and run: "int_lua_running s" and en: "elua_int_is_enabled s i"
  shows "\<exists>s'. elua_int_add lg lst i n s = (PLATFORM_OK, s') \<and> int_wf lg s' \<and>
      int_elems s' = int_elems s @ [\<lparr>ie_id = i, ie_resnum = n\<rparr>] \<and>
      int_lua_running s' = int_lua_running s \<and> int_flags s' = int_flags s"
proof -
  let ?e = "\<lparr>ie_id = i, ie_resnum = n\<rparr>"
  let ?k = "length (int_elems s)"
  let ?s' = "s\<lparr>int_queue := (int_queue s)[unat (int_write_idx s) := ?e],
      int_write_idx := int_idx_incr lg (int_write_idx s), int_hook_set := True\<rparr>"
  have res: "elua_int_add lg lst i n s = (PLATFORM_OK, ?s')"
    using id run en int_wf_write_slot [OF wf room] by (simp add: elua_int_add_def not_less)
  from wf obtain free where free: "int_ring s = int_elems s @ free" "list_all (\<lambda>e. \<not> int_pending e) free"
      "list_all int_pending (int_elems s)" "?k + length free = 2 ^ lg"
    by (rule int_wf_ring)
  with room obtain f free' where f: "free = f # free'"
    by (cases free) auto
  have "int_ring ?s' = (int_ring s)[?k := ?e]"
    using rotate_update [of ?k "int_queue s" "unat (int_read_idx s)" ?e] wf room
    by (simp add: int_ring_def int_wf_def)
  then have ring: "int_ring ?s' = (int_elems s @ [?e]) @ free'"
    using free f by simp
  have "ie_id ?e \<noteq> ELUA_INT_EMPTY_SLOT"
    using id(1) by (auto simp: ELUA_INT_FIRST_ID_def ELUA_INT_EMPTY_SLOT_def)
  then have pend: "list_all int_pending (int_elems s @ [?e])" "list_all (\<lambda>e. \<not> int_pending e) free'"
    using free f by (auto simp: int_pending_def)
  note el = int_ringI [OF ring pend]
  have "int_wf lg ?s'"
    using wf el pend
    by (simp add: int_wf_def unat_int_idx_incr mod_simps add.assoc)
  with res el show ?thesis by auto
qed

lemma elua_int_pop_ok:
  assumes wf: "int_wf lg s" and el: "int_elems s = e # es"
  shows "\<exists>s'. elua_int_pop lg s = (e, s') \<and> int_wf lg (s'\<lparr>int_hook_set := (es \<noteq> [])\<rparr>) \<and>
      int_elems s' = es \<and> int_lua_running s' = int_lua_running s \<and> int_flags s' = int_flags s"
proof -
  from wf obtain free where free: "int_ring s = int_elems s @ free" "list_all (\<lambda>e. \<not> int_pending e) free"
      "list_all int_pending (int_elems s)"
    by (rule int_wf_ring)
  have N: "length (int_queue s) = 2 ^ lg" "unat (int_read_idx s) < 2 ^ lg"
    using wf by (auto simp: int_wf_def)
  have "int_ring s ! 0 = e"
    using free el by simp
  then have e: "int_queue s ! unat (int_read_idx s) = e"
    using N by (simp add: int_ring_def nth_rotate)
  let ?e0 = "e\<lparr>ie_id := ELUA_INT_EMPTY_SLOT\<rparr>"
  let ?s' = "s\<lparr>int_queue := (int_queue s)[unat (int_read_idx s) := ?e0],
      int_read_idx := int_idx_incr lg (int_read_idx s)\<rparr>"
  have res: "elua_int_pop lg s = (e, ?s')"
    by (simp add: elua_int_pop_def e)
  have r': "unat (int_idx_incr lg (int_read_idx s)) = (unat (int_read_idx s) + 1) mod 2 ^ lg"
    using wf by (simp add: int_wf_def unat_int_idx_incr)
  have "int_ring ?s' = rotate1 (rotate (unat (int_read_idx s)) ((int_queue s)[unat (int_read_idx s) := ?e0]))"
    using rotate_conv_mod [of "Suc (unat (int_read_idx s))" "(int_queue s)[unat (int_read_idx s) := ?e0]"] N
    by (simp add: int_ring_def r')
  also have "rotate (unat (int_read_idx s)) ((int_queue s)[unat (int_read_idx s) := ?e0]) = (int_ring s)[0 := ?e0]"
    using rotate_update [of 0 "int_queue s" "unat (int_read_idx s)" ?e0] N by (simp add: int_ring_def)
  finally have ring: "int_ring ?s' = es @ (free @ [?e0])"
    using free el by simp
  have pend: "list_all int_pending es" "list_all (\<lambda>e. \<not> int_pending e) (free @ [?e0])"
    using free el by (auto simp: int_pending_def)
  note el' = int_ringI [OF ring pend]
  have same: "int_ring (?s'\<lparr>int_hook_set := h\<rparr>) = int_ring ?s'" "int_elems (?s'\<lparr>int_hook_set := h\<rparr>) = int_elems ?s'" for h
    by (simp_all add: int_ring_def int_elems_def)
  have "int_wf lg (?s'\<lparr>int_hook_set := (es \<noteq> [])\<rparr>)"
    using wf el el' pend N unfolding int_wf_def same
    by (simp add: r' mod_simps)
  with res el' show ?thesis by auto
qed

text \<open>The emptiness test that ends the hook sees exactly whether interrupts are left.\<close>

lemma int_read_slot_empty:
  assumes "int_wf lg (s\<lparr>int_hook_set := h\<rparr>)"
  shows "ie_id (int_queue s ! unat (int_read_idx s)) = ELUA_INT_EMPTY_SLOT \<longleftrightarrow> int_elems s = []"
proof -
  have "0 < length (int_ring s)" "length (int_queue s) = 2 ^ lg" "unat (int_read_idx s) < 2 ^ lg"
    using assms by (auto simp: int_wf_def)
  moreover from this have "int_ring s ! 0 = int_queue s ! unat (int_read_idx s)"
    by (simp add: int_ring_def nth_rotate)
  ultimately show ?thesis
    unfolding int_elems_def by (cases "int_ring s") (auto simp: int_pending_def)
qed

lemma elua_int_hook_ok:
  assumes wf: "int_wf lg s" and el: "int_elems s = e # es"
  shows "\<exists>s'. elua_int_hook lg (\<lambda>_ _. None) ((), s) = (e, (), s') \<and> int_wf lg s' \<and> int_elems s' = es \<and>
      int_lua_running s' = int_lua_running s \<and> int_flags s' = int_flags s"
proof -
  from elua_int_pop_ok [OF wf el] obtain s1 where s1: "elua_int_pop lg s = (e, s1)"
      "int_wf lg (s1\<lparr>int_hook_set := (es \<noteq> [])\<rparr>)" "int_elems s1 = es"
      "int_lua_running s1 = int_lua_running s" "int_flags s1 = int_flags s"
    by blast
  have hook: "int_hook_set s1"
    using wf el s1(1) by (auto simp: elua_int_pop_def Let_def int_wf_def)
  have elems: "int_elems (s1\<lparr>int_hook_set := h\<rparr>) = es" for h
    using s1(3) by (simp add: int_elems_def int_ring_def)
  show ?thesis
  proof (cases "es = []")
    case True
    with s1 elems int_read_slot_empty [OF s1(2)] show ?thesis
      by (simp add: elua_int_hook_def)
  next
    case False
    then have "s1\<lparr>int_hook_set := (es \<noteq> [])\<rparr> = s1"
      using hook by simp
    with False s1 int_read_slot_empty [OF s1(2)] show ?thesis
      by (simp add: elua_int_hook_def)
  qed
qed

section \<open>Interface: the queue contract\<close>

definition int_put :: "nat \<Rightarrow> u8 \<Rightarrow> elua_int_element \<Rightarrow> 'h elua_int_state \<Rightarrow> 'h elua_int_state option" where
  "int_put lg lst e s =
     (let (st, s') = elua_int_add lg lst (ie_id e) (ie_resnum e) s
      in if st = PLATFORM_OK then Some s' else None)"

text \<open>The VM runs the hook while it is installed; here without Lua handlers.\<close>

definition int_get :: "nat \<Rightarrow> 'h elua_int_state \<Rightarrow> (elua_int_element \<times> 'h elua_int_state) option" where
  "int_get lg s = (if int_hook_set s then (case elua_int_hook lg (\<lambda>_ _. None) ((), s) of (e, _, s') \<Rightarrow> Some (e, s')) else None)"

definition int_accepts :: "u8 \<Rightarrow> 'h elua_int_state \<Rightarrow> elua_int_element \<Rightarrow> bool" where
  "int_accepts lst s e \<longleftrightarrow> ELUA_INT_FIRST_ID \<le> ie_id e \<and> ie_id e \<le> lst \<and> int_lua_running s \<and>
     elua_int_is_enabled s (ie_id e)"

lemma int_accepts_cong:
  "int_lua_running s' = int_lua_running s \<Longrightarrow> int_flags s' = int_flags s \<Longrightarrow> int_accepts lst s' = int_accepts lst s"
  by (rule ext) (simp add: int_accepts_def elua_int_is_enabled_def)

interpretation intq: fifo_queue "int_put lg lst" "int_get lg" "int_wf lg" int_elems "\<lambda>_. 2 ^ lg" "int_accepts lst"
  for lg lst
proof
  fix s :: "'h elua_int_state" and e :: elua_int_element
  assume a: "int_wf lg s" "int_accepts lst s e" "length (int_elems s) < 2 ^ lg"
  obtain i n where e: "e = \<lparr>ie_id = i, ie_resnum = n\<rparr>"
    by (cases e) auto
  with a elua_int_add_ok [of lg s i lst n] obtain s' where
    "elua_int_add lg lst i n s = (PLATFORM_OK, s')" "int_wf lg s'" "int_elems s' = int_elems s @ [e]"
    "int_lua_running s' = int_lua_running s" "int_flags s' = int_flags s"
    by (auto simp: int_accepts_def)
  with e show "\<exists>s'. int_put lg lst e s = Some s' \<and> int_wf lg s' \<and> int_elems s' = int_elems s @ [e] \<and>
      2 ^ lg = (2 ^ lg :: nat) \<and> int_accepts lst s' = int_accepts lst s"
    by (auto simp: int_put_def intro: int_accepts_cong)
next
  fix s :: "'h elua_int_state" and e es
  assume a: "int_wf lg s" "int_elems s = e # es"
  then have "int_hook_set s"
    by (simp add: int_wf_def)
  with elua_int_hook_ok [OF a] show "\<exists>s'. int_get lg s = Some (e, s') \<and> int_wf lg s' \<and> int_elems s' = es \<and>
      2 ^ lg = (2 ^ lg :: nat) \<and> int_accepts lst s' = int_accepts lst s"
    by (auto simp: int_get_def intro: int_accepts_cong)
next
  fix s :: "'h elua_int_state"
  assume "int_wf lg s" "int_elems s = []"
  then show "int_get lg s = None"
    by (simp add: int_get_def int_wf_def)
qed

section \<open>Enable flags\<close>

lemma int_flags_index:
  "unat (drop_bit 5 i) = unat (i::u8) div 32" "unat (i AND 0x1F) = unat i mod 32"
  "(unat i div 32 = unat j div 32 \<and> unat i mod 32 = unat j mod 32) = (i = j)"
proof -
  show "unat (drop_bit 5 i) = unat i div 32"
    by (simp add: unat_drop_bit_eq drop_bit_eq_div [where 'a = nat])
  show "unat (i AND 0x1F) = unat i mod 32"
    using and_pow2_minus_1_nat [of "unat i" 5] by (simp add: unsigned_and_eq)
  show "(unat i div 32 = unat j div 32 \<and> unat i mod 32 = unat j mod 32) = (i = j)"
    by (metis div_mult_mod_eq word_unat_eq_iff)
qed

lemma elua_int_is_enabled_bit:
  "elua_int_is_enabled s i \<longleftrightarrow>
     unat i < 128 \<and> bit (int_flags s ! (unat i div 32)) (unat i mod 32)"
  unfolding elua_int_is_enabled_def LUA_INT_MAX_SOURCES_def int_flags_index(1,2)
  by (simp only: bit_iff_and_push_bit_not_eq_0 if_bool_eq_conj) auto

lemma bit_pow2_u32: "bit (2 ^ k :: u32) m \<longleftrightarrow> k = m \<and> m < 32"
  by (auto simp: bit_exp_iff)

lemma length_int_flags_clear [simp]: "length (int_flags_clear n fl) = length fl"
  by (induction n) auto

lemma nth_int_flags_clear: "k < n \<Longrightarrow> k < length fl \<Longrightarrow> int_flags_clear n fl ! k = 0"
  by (induction n) (auto simp: nth_list_update less_Suc_eq)

definition int_demo :: "unit elua_int_state" where
  "int_demo = \<lparr>int_read_idx = 1, int_write_idx = 1,
     int_queue = [\<lparr>ie_id = 0, ie_resnum = 4\<rparr>, \<lparr>ie_id = 0, ie_resnum = 0\<rparr>],
     int_flags = [0x30, 0, 0, 0], int_lua_running = True, int_hook_set = False, int_c_handler_list = []\<rparr>"

lemma int_demo_facts:
  "int_wf 1 int_demo" "int_elems int_demo = []"
  "int_accepts 9 int_demo \<lparr>ie_id = 4, ie_resnum = 7\<rparr>" "int_accepts 9 int_demo \<lparr>ie_id = 5, ie_resnum = 8\<rparr>"
  by (simp_all add: int_demo_def int_wf_def int_elems_def int_ring_def int_pending_def rotate_def
      int_accepts_def elua_int_is_enabled_bit ELUA_INT_EMPTY_SLOT_def ELUA_INT_FIRST_ID_def)

text \<open>\<open>elua_int_add\<close> refuses an interrupt exactly when its id is out of range, no Lua state
  exists, the source is disabled or the queue is full; a refusal changes nothing, and otherwise
  exactly this interrupt is appended.\<close>

theorem elua_int_add_exact:
  assumes wf: "int_wf lg s"
  shows "(fst (elua_int_add lg lst i n s) = PLATFORM_ERR \<longleftrightarrow>
       i < ELUA_INT_FIRST_ID \<or> i > lst \<or> \<not> int_lua_running s \<or> \<not> elua_int_is_enabled s i \<or>
       length (int_elems s) = 2 ^ lg) \<and>
     (fst (elua_int_add lg lst i n s) = PLATFORM_ERR \<longrightarrow> snd (elua_int_add lg lst i n s) = s) \<and>
     (fst (elua_int_add lg lst i n s) \<noteq> PLATFORM_ERR \<longrightarrow>
       int_wf lg (snd (elua_int_add lg lst i n s)) \<and>
       int_elems (snd (elua_int_add lg lst i n s)) = int_elems s @ [\<lparr>ie_id = i, ie_resnum = n\<rparr>])"
proof (cases "length (int_elems s) = 2 ^ lg")
  case True
  with int_wf_full_slot [OF wf] show ?thesis
    by (auto simp: elua_int_add_def)
next
  case False
  then have room: "length (int_elems s) < 2 ^ lg"
    using length_int_elems [OF wf] by simp
  show ?thesis
  proof (cases "ELUA_INT_FIRST_ID \<le> i \<and> i \<le> lst \<and> int_lua_running s \<and> elua_int_is_enabled s i")
    case True
    then show ?thesis
      using elua_int_add_ok [OF wf room, of i lst n] False by (fastforce simp: not_less)
  next
    case False
    then have "elua_int_add lg lst i n s = (PLATFORM_ERR, s)"
      by (auto simp: elua_int_add_def not_less)
    with False show ?thesis by (auto simp: not_less)
  qed
qed

theorem elua_int_add_exact_witness:
  "fst (elua_int_add 1 9 6 0 int_demo) = PLATFORM_ERR \<and> snd (elua_int_add 1 9 6 0 int_demo) = int_demo \<and>
   int_elems (snd (elua_int_add 1 9 4 3 int_demo)) = [\<lparr>ie_id = 4, ie_resnum = 3\<rparr>]"
proof -
  have off: "\<not> elua_int_is_enabled int_demo 6"
    by (simp add: elua_int_is_enabled_bit int_demo_def)
  have on: "elua_int_is_enabled int_demo 4" "int_lua_running int_demo"
    using int_demo_facts(3) by (auto simp: int_accepts_def)
  show ?thesis
    using elua_int_add_exact [OF int_demo_facts(1), of 9 6 0] elua_int_add_exact [OF int_demo_facts(1), of 9 4 3]
      off on int_demo_facts(2)
    by (auto simp: ELUA_INT_FIRST_ID_def)
qed

text \<open>The enable flags are a set of the sources 0 to 127: enabling or disabling a source changes
  that source only, sources from 128 on are never enabled, \<open>elua_int_disable_all\<close> disables all.\<close>

theorem elua_int_flags_set:
  assumes len: "length (int_flags s) = 4"
  shows "(elua_int_is_enabled (elua_int_enable i s) j \<longleftrightarrow>
        elua_int_is_enabled s j \<or> i = j \<and> unat j < LUA_INT_MAX_SOURCES) \<and>
     (elua_int_is_enabled (elua_int_disable i s) j \<longleftrightarrow> elua_int_is_enabled s j \<and> i \<noteq> j) \<and>
     \<not> elua_int_is_enabled (elua_int_disable_all s) j \<and>
     (elua_int_is_enabled s j \<longrightarrow> unat j < LUA_INT_MAX_SOURCES)"
proof -
  have k: "unat i < 128 \<Longrightarrow> unat i div 32 < 4" for i :: u8
    by simp
  have off: "int_flags_clear 4 (int_flags s) ! (unat j div 32) = 0" if "unat j < 128"
    using that len by (intro nth_int_flags_clear) auto
  show ?thesis
    using len k [of i] int_flags_index(3) [of i j] off
    by (auto simp: elua_int_is_enabled_bit elua_int_enable_def elua_int_disable_def elua_int_disable_all_def
        int_flags_index(1,2) LUA_INT_MAX_SOURCES_def Let_def nth_list_update bit_or_iff bit_and_iff bit_not_iff
        bit_pow2_u32)
qed

theorem elua_int_flags_set_witness:
  "elua_int_is_enabled (elua_int_enable 33 int_demo) 33 \<and> elua_int_is_enabled (elua_int_disable 33 int_demo) 5 \<and>
   \<not> elua_int_is_enabled (elua_int_enable 200 int_demo) 200"
proof -
  have "length (int_flags int_demo) = 4" "elua_int_is_enabled int_demo 5"
    using int_demo_facts(4) by (auto simp: int_demo_def int_accepts_def)
  then show ?thesis
    using elua_int_flags_set [of int_demo 33 33] elua_int_flags_set [of int_demo 33 5]
      elua_int_flags_set [of int_demo 200 200]
    by (auto simp: LUA_INT_MAX_SOURCES_def)
qed

section \<open>Programs with interrupts\<close>

text \<open>What the platform and the program do with interrupts: raise, enable and disable them. Only raising has a result.\<close>

datatype int_call = Raise u8 u16 | Enable u8 | Disable u8 | Disable_all

fun int_do :: "nat \<Rightarrow> u8 \<Rightarrow> int_call \<Rightarrow> 'h elua_int_state \<Rightarrow> int \<times> 'h elua_int_state" where
  "int_do lg lst (Raise i n) s = elua_int_add lg lst i n s"
| "int_do lg lst (Enable i) s = (PLATFORM_OK, elua_int_enable i s)"
| "int_do lg lst (Disable i) s = (PLATFORM_OK, elua_int_disable i s)"
| "int_do lg lst Disable_all s = (PLATFORM_OK, elua_int_disable_all s)"

fun int_dos :: "nat \<Rightarrow> u8 \<Rightarrow> int_call list \<Rightarrow> 'h elua_int_state \<Rightarrow> 'h elua_int_state" where
  "int_dos lg lst [] s = s"
| "int_dos lg lst (c # cs) s = int_dos lg lst cs (snd (int_do lg lst c s))"

text \<open>A program: for each interrupt the calls that its handler makes, if it has one. The state of the Lua program is the list of the handlers that were called, with
  their arguments.\<close>

type_synonym int_prog = "u8 \<Rightarrow> (u16 \<Rightarrow> int_call list) option"

definition prog_table :: "nat \<Rightarrow> u8 \<Rightarrow> int_prog \<Rightarrow> (u8 \<times> u16) list \<Rightarrow> u8 \<Rightarrow>
    (u16 \<Rightarrow> (u8 \<times> u16) list \<times> 'h elua_int_state \<Rightarrow> (u8 \<times> u16) list \<times> 'h elua_int_state) option" where
  "prog_table lg lst prog w i = map_option (\<lambda>f n (l, s). (l @ [(i, n)], int_dos lg lst (f n) s)) (prog i)"

text \<open>Events: a call, or the VM reaching its hook, which does nothing when none is installed. The results are those of the calls.\<close>

datatype int_ev = Call int_call | Vm

fun int_event :: "nat \<Rightarrow> u8 \<Rightarrow> int_prog \<Rightarrow> int_ev \<Rightarrow> (u8 \<times> u16) list \<times> 'h elua_int_state \<Rightarrow> int list \<times> (u8 \<times> u16) list \<times> 'h elua_int_state" where
  "int_event lg lst prog (Call c) (w, s) = (let (st, s1) = int_do lg lst c s in ([st], w, s1))"
| "int_event lg lst prog Vm (w, s) = ([], if int_hook_set s then snd (elua_int_hook lg (prog_table lg lst prog) (w, s)) else (w, s))"

fun int_events :: "nat \<Rightarrow> u8 \<Rightarrow> int_prog \<Rightarrow> int_ev list \<Rightarrow> (u8 \<times> u16) list \<times> 'h elua_int_state \<Rightarrow> int list \<times> (u8 \<times> u16) list \<times> 'h elua_int_state" where
  "int_events lg lst prog [] ws = ([], ws)"
| "int_events lg lst prog (e # es) ws =
     (let (st, ws1) = int_event lg lst prog e ws; (sts, ws2) = int_events lg lst prog es ws1 in (st @ sts, ws2))"

text \<open>The specification: the pending interrupts are a list of at most \<open>n\<close>, the enabled ones a set, given by its characteristic function. \<open>run\<close> is whether a
  Lua state exists.\<close>

record int_abs =
  ab_pending :: "elua_int_element list"
  ab_enabled :: "u8 \<Rightarrow> bool"

fun abs_do :: "nat \<Rightarrow> u8 \<Rightarrow> bool \<Rightarrow> int_call \<Rightarrow> int_abs \<Rightarrow> int \<times> int_abs" where
  "abs_do n lst run (Raise i r) a =
     (if 1 \<le> i \<and> i \<le> lst \<and> run \<and> ab_enabled a i \<and> length (ab_pending a) < n
      then (PLATFORM_OK, a\<lparr>ab_pending := ab_pending a @ [\<lparr>ie_id = i, ie_resnum = r\<rparr>]\<rparr>) else (PLATFORM_ERR, a))"
| "abs_do n lst run (Enable i) a = (PLATFORM_OK, if unat i < 128 then a\<lparr>ab_enabled := (ab_enabled a)(i := True)\<rparr> else a)"
| "abs_do n lst run (Disable i) a = (PLATFORM_OK, a\<lparr>ab_enabled := (ab_enabled a)(i := False)\<rparr>)"
| "abs_do n lst run Disable_all a = (PLATFORM_OK, a\<lparr>ab_enabled := (\<lambda>_. False)\<rparr>)"

fun abs_dos :: "nat \<Rightarrow> u8 \<Rightarrow> bool \<Rightarrow> int_call list \<Rightarrow> int_abs \<Rightarrow> int_abs" where
  "abs_dos n lst run [] a = a"
| "abs_dos n lst run (c # cs) a = abs_dos n lst run cs (snd (abs_do n lst run c a))"

fun abs_event :: "nat \<Rightarrow> u8 \<Rightarrow> bool \<Rightarrow> int_prog \<Rightarrow> int_ev \<Rightarrow> (u8 \<times> u16) list \<times> int_abs \<Rightarrow> int list \<times> (u8 \<times> u16) list \<times> int_abs" where
  "abs_event n lst run prog (Call c) (w, a) = (let (st, a1) = abs_do n lst run c a in ([st], w, a1))"
| "abs_event n lst run prog Vm (w, a) =
     ([], case ab_pending a of [] \<Rightarrow> (w, a)
          | e # es \<Rightarrow>
              let a1 = a\<lparr>ab_pending := es\<rparr>
              in if ab_enabled a (ie_id e)
                 then (case prog (ie_id e) of None \<Rightarrow> (w, a1)
                       | Some f \<Rightarrow> (w @ [(ie_id e, ie_resnum e)], abs_dos n lst run (f (ie_resnum e)) a1))
                 else (w, a1))"

fun abs_events :: "nat \<Rightarrow> u8 \<Rightarrow> bool \<Rightarrow> int_prog \<Rightarrow> int_ev list \<Rightarrow> (u8 \<times> u16) list \<times> int_abs \<Rightarrow> int list \<times> (u8 \<times> u16) list \<times> int_abs" where
  "abs_events n lst run prog [] wa = ([], wa)"
| "abs_events n lst run prog (e # es) wa =
     (let (st, wa1) = abs_event n lst run prog e wa; (sts, wa2) = abs_events n lst run prog es wa1 in (st @ sts, wa2))"

definition int_view :: "'h elua_int_state \<Rightarrow> int_abs" where
  "int_view s = \<lparr>ab_pending = int_elems s, ab_enabled = elua_int_is_enabled s\<rparr>"

text \<open>A handler runs while the hook is installed, whether or not interrupts are left: the queue is then well-formed but for the hook.\<close>

definition int_wf_but :: "nat \<Rightarrow> 'h elua_int_state \<Rightarrow> bool" where
  "int_wf_but lg s \<longleftrightarrow> int_wf lg (s\<lparr>int_hook_set := (int_elems s \<noteq> [])\<rparr>)"

lemma int_elems_hook [simp]: "int_elems (s\<lparr>int_hook_set := h\<rparr>) = int_elems s" "int_ring (s\<lparr>int_hook_set := h\<rparr>) = int_ring s"
  by (simp_all add: int_elems_def int_ring_def)

lemma int_wf_iff: "int_wf lg s \<longleftrightarrow> int_wf_but lg s \<and> (int_hook_set s \<longleftrightarrow> int_elems s \<noteq> [])"
  by (auto simp: int_wf_but_def int_wf_def)

lemma int_wf_but_hook [simp]: "int_wf_but lg (s\<lparr>int_hook_set := h\<rparr>) = int_wf_but lg s"
  by (simp add: int_wf_but_def)

lemma int_view_hook [simp]: "int_view (s\<lparr>int_hook_set := h\<rparr>) = int_view s"
  by (simp add: int_view_def elua_int_is_enabled_def fun_eq_iff)

lemma elua_int_add_hook:
  "elua_int_add lg lst i n (s\<lparr>int_hook_set := h\<rparr>) =
     (fst (elua_int_add lg lst i n s), (snd (elua_int_add lg lst i n s))\<lparr>int_hook_set := (fst (elua_int_add lg lst i n s) = PLATFORM_OK \<or> h)\<rparr>)"
  by (simp add: elua_int_add_def elua_int_is_enabled_def PLATFORM_OK_def PLATFORM_ERR_def)

lemma int_flags_keep:
  "int_elems (s\<lparr>int_flags := fl\<rparr>) = int_elems s" "int_ring (s\<lparr>int_flags := fl\<rparr>) = int_ring s"
  by (simp_all add: int_elems_def int_ring_def)

lemma int_wf_but_flags: "int_wf_but lg s \<Longrightarrow> length fl = 4 \<Longrightarrow> int_wf_but lg (s\<lparr>int_flags := fl\<rparr>)"
  by (simp add: int_wf_but_def int_wf_def int_flags_keep)

lemma int_wf_but_lengths: "int_wf_but lg s \<Longrightarrow> length (int_flags s) = 4"
  by (simp add: int_wf_but_def int_wf_def)

lemma int_add_refines:
  assumes "int_wf_but lg s"
  shows "int_wf_but lg (snd (elua_int_add lg lst i n s)) \<and> int_lua_running (snd (elua_int_add lg lst i n s)) = int_lua_running s \<and>
    int_hook_set (snd (elua_int_add lg lst i n s)) = (fst (elua_int_add lg lst i n s) = PLATFORM_OK \<or> int_hook_set s) \<and>
    (fst (elua_int_add lg lst i n s), int_view (snd (elua_int_add lg lst i n s))) = abs_do (2 ^ lg) lst (int_lua_running s) (Raise i n) (int_view s)"
proof -
  let ?s0 = "s\<lparr>int_hook_set := (int_elems s \<noteq> [])\<rparr>" and ?r = "elua_int_add lg lst i n s"
  have wf: "int_wf lg ?s0" using assms by (simp add: int_wf_but_def)
  have en: "elua_int_is_enabled ?s0 = elua_int_is_enabled s" by (simp add: elua_int_is_enabled_def fun_eq_iff)
  have fl: "int_flags (snd ?r) = int_flags s" "int_lua_running (snd ?r) = int_lua_running s"
    "int_hook_set (snd ?r) = (fst ?r = PLATFORM_OK \<or> int_hook_set s)"
    by (simp_all add: elua_int_add_def PLATFORM_OK_def PLATFORM_ERR_def)
  have en': "elua_int_is_enabled (snd ?r) = elua_int_is_enabled s" using fl(1) by (simp add: elua_int_is_enabled_def fun_eq_iff)
  note x = elua_int_add_exact [OF wf, of lst i n, unfolded elua_int_add_hook en fst_conv snd_conv int_elems_hook]
  have err: "snd ?r = s" if "fst ?r = PLATFORM_ERR" using that by (auto simp: elua_int_add_def PLATFORM_OK_def PLATFORM_ERR_def)
  have ok: "fst ?r = PLATFORM_OK" if "fst ?r \<noteq> PLATFORM_ERR" using that by (simp add: elua_int_add_def split: if_split_asm)
  show ?thesis
  proof (cases "fst ?r = PLATFORM_ERR")
    case True
    with err x length_int_elems [OF wf] assms fl show ?thesis by (auto simp: int_view_def ELUA_INT_FIRST_ID_def PLATFORM_OK_def PLATFORM_ERR_def not_less not_le)
  next
    case False
    with x ok have "int_wf_but lg (snd ?r)" unfolding int_wf_iff [of lg "(snd ?r)\<lparr>int_hook_set := _\<rparr>"] by simp
    with False x ok fl length_int_elems [OF wf] show ?thesis
      by (auto simp: int_view_def en' ELUA_INT_FIRST_ID_def not_less order.order_iff_strict)
  qed
qed

lemma int_do_refines:
  assumes "int_wf_but lg s"
  shows "int_wf_but lg (snd (int_do lg lst c s)) \<and> int_lua_running (snd (int_do lg lst c s)) = int_lua_running s \<and>
    (int_hook_set s \<longrightarrow> int_hook_set (snd (int_do lg lst c s))) \<and> (int_wf lg s \<longrightarrow> int_wf lg (snd (int_do lg lst c s))) \<and>
    (fst (int_do lg lst c s), int_view (snd (int_do lg lst c s))) = abs_do (2 ^ lg) lst (int_lua_running s) c (int_view s)"
proof (cases c)
  case (Raise i n)
  let ?r = "elua_int_add lg lst i n s"
  note a = int_add_refines [OF assms, of lst i n]
  have "int_hook_set (snd ?r) = (int_elems (snd ?r) \<noteq> [])" if "int_wf lg s"
  proof -
    have "ab_pending (int_view (snd ?r)) = (if fst ?r = PLATFORM_OK then int_elems s @ [\<lparr>ie_id = i, ie_resnum = n\<rparr>] else int_elems s)"
      using a by (auto simp: int_view_def PLATFORM_OK_def PLATFORM_ERR_def split: if_splits)
    with a that show ?thesis by (simp add: int_view_def int_wf_iff)
  qed
  with a Raise show ?thesis by (auto simp: int_wf_iff)
next
  case (Enable i)
  have "length (int_flags (elua_int_enable i s)) = 4" "elua_int_enable i s = s\<lparr>int_flags := int_flags (elua_int_enable i s)\<rparr>"
    using int_wf_but_lengths [OF assms] by (simp_all add: elua_int_enable_def Let_def)
  moreover from this assms have "int_wf_but lg (elua_int_enable i s)" by (metis int_wf_but_flags)
  moreover have "elua_int_is_enabled (elua_int_enable i s) = (if unat i < 128 then (elua_int_is_enabled s)(i := True) else elua_int_is_enabled s)"
    using elua_int_flags_set [OF int_wf_but_lengths [OF assms], of i] by (auto simp: fun_eq_iff LUA_INT_MAX_SOURCES_def)
  ultimately show ?thesis using Enable assms by (simp add: int_view_def int_wf_iff int_flags_keep elua_int_enable_def Let_def)
next
  case (Disable i)
  have "length (int_flags (elua_int_disable i s)) = 4" "elua_int_disable i s = s\<lparr>int_flags := int_flags (elua_int_disable i s)\<rparr>"
    using int_wf_but_lengths [OF assms] by (simp_all add: elua_int_disable_def Let_def)
  moreover from this assms have "int_wf_but lg (elua_int_disable i s)" by (metis int_wf_but_flags)
  moreover have "elua_int_is_enabled (elua_int_disable i s) = (elua_int_is_enabled s)(i := False)"
    using elua_int_flags_set [OF int_wf_but_lengths [OF assms], of i] by (auto simp: fun_eq_iff)
  ultimately show ?thesis using Disable assms by (simp add: int_view_def int_wf_iff int_flags_keep elua_int_disable_def Let_def)
next
  case Disable_all
  have "length (int_flags (elua_int_disable_all s)) = 4" "elua_int_disable_all s = s\<lparr>int_flags := int_flags (elua_int_disable_all s)\<rparr>"
    using int_wf_but_lengths [OF assms] by (simp_all add: elua_int_disable_all_def)
  moreover from this assms have "int_wf_but lg (elua_int_disable_all s)" by (metis int_wf_but_flags)
  moreover have "elua_int_is_enabled (elua_int_disable_all s) = (\<lambda>_. False)"
    using elua_int_flags_set [OF int_wf_but_lengths [OF assms]] by (auto simp: fun_eq_iff)
  ultimately show ?thesis using Disable_all assms by (simp add: int_view_def int_wf_iff int_flags_keep elua_int_disable_all_def)
qed

lemma int_dos_refine:
  "int_wf_but lg s \<Longrightarrow> int_hook_set s \<Longrightarrow>
   int_wf_but lg (int_dos lg lst cs s) \<and> int_hook_set (int_dos lg lst cs s) \<and> int_lua_running (int_dos lg lst cs s) = int_lua_running s \<and>
   int_view (int_dos lg lst cs s) = abs_dos (2 ^ lg) lst (int_lua_running s) cs (int_view s)"
proof (induction cs arbitrary: s)
  case (Cons c cs)
  from int_do_refines [OF Cons.prems(1), of lst c] Cons.prems(2) Cons.IH [of "snd (int_do lg lst c s)"] show ?case
    by (simp add: prod_eq_iff)
qed simp

lemma int_hook_end:
  assumes "int_wf_but lg s" "int_hook_set s"
  shows "int_wf lg (if ie_id (int_queue s ! unat (int_read_idx s)) = ELUA_INT_EMPTY_SLOT then s\<lparr>int_hook_set := False\<rparr> else s)"
  using assms int_read_slot_empty [where h = "int_elems s \<noteq> []" and s = s and lg = lg] by (simp add: int_wf_iff)

lemma int_vm_refines:
  assumes wf: "int_wf lg s" and r: "int_event lg lst prog Vm (w, s) = (sts, w', s')"
  shows "int_wf lg s' \<and> int_lua_running s' = int_lua_running s \<and> (sts, w', int_view s') = abs_event (2 ^ lg) lst (int_lua_running s) prog Vm (w, int_view s)"
proof (cases "int_elems s")
  case Nil
  with wf r show ?thesis by (auto simp: int_wf_iff int_view_def)
next
  case (Cons e es)
  obtain s1 where s1: "elua_int_pop lg s = (e, s1)" "int_wf lg (s1\<lparr>int_hook_set := (es \<noteq> [])\<rparr>)" "int_elems s1 = es"
    "int_lua_running s1 = int_lua_running s" "int_flags s1 = int_flags s" using elua_int_pop_ok [OF wf Cons] by blast
  have h: "int_hook_set s" "int_hook_set s1" using wf Cons s1(1) by (auto simp: elua_int_pop_def Let_def int_wf_iff)
  have b1: "int_wf_but lg s1" using s1(2,3) by (simp add: int_wf_but_def)
  have en: "elua_int_is_enabled s1 = elua_int_is_enabled s" using s1(5) by (simp add: elua_int_is_enabled_def fun_eq_iff)
  have v1: "int_view s1 = (int_view s)\<lparr>ab_pending := es\<rparr>" using s1(3) en by (simp add: int_view_def)
  define s2 where "s2 = (if elua_int_is_enabled s (ie_id e) then (case prog (ie_id e) of None \<Rightarrow> s1 | Some f \<Rightarrow> int_dos lg lst (f (ie_resnum e)) s1) else s1)"
  have s2: "int_wf_but lg s2" "int_hook_set s2" "int_lua_running s2 = int_lua_running s"
    using int_dos_refine [OF b1 h(2), of lst] b1 h s1(4) by (auto simp: s2_def split: option.split)
  have v2: "int_view s2 = snd (snd (abs_event (2 ^ lg) lst (int_lua_running s) prog Vm (w, int_view s)))"
    using int_dos_refine [OF b1 h(2), of lst] v1 Cons s1(4) by (auto simp: s2_def int_view_def split: option.split)
  have "s' = (if ie_id (int_queue s2 ! unat (int_read_idx s2)) = ELUA_INT_EMPTY_SLOT then s2\<lparr>int_hook_set := False\<rparr> else s2)"
    using r h(1) s1(1) by (auto simp: elua_int_hook_def en s2_def prog_table_def split: option.splits if_splits)
  moreover have "sts = []" "w' = fst (snd (abs_event (2 ^ lg) lst (int_lua_running s) prog Vm (w, int_view s)))"
    using r h(1) s1(1) Cons by (auto simp: elua_int_hook_def en prog_table_def int_view_def Let_def split: option.splits if_splits)
  ultimately show ?thesis using int_hook_end [OF s2(1,2)] s2(3) v2 by (auto simp: prod_eq_iff)
qed

lemma int_event_refines:
  assumes "int_wf lg s" "int_event lg lst prog e (w, s) = (sts, w', s')"
  shows "int_wf lg s' \<and> int_lua_running s' = int_lua_running s \<and> (sts, w', int_view s') = abs_event (2 ^ lg) lst (int_lua_running s) prog e (w, int_view s)"
proof (cases e)
  case (Call c)
  have "int_wf_but lg s" using assms(1) by (simp add: int_wf_iff)
  from int_do_refines [OF this, of lst c] assms Call show ?thesis by (auto simp: Let_def case_prod_beta prod_eq_iff)
next
  case Vm
  with assms show ?thesis using int_vm_refines by blast
qed

lemma int_events_refine:
  "int_wf lg s \<Longrightarrow> int_events lg lst prog es (w, s) = (sts, w', s') \<Longrightarrow>
   int_wf lg s' \<and> (sts, w', int_view s') = abs_events (2 ^ lg) lst (int_lua_running s) prog es (w, int_view s)"
proof (induction es arbitrary: s w sts)
  case (Cons e es)
  obtain st w1 s1 where e: "int_event lg lst prog e (w, s) = (st, w1, s1)" by (metis prod_cases3)
  obtain sts1 where es: "int_events lg lst prog es (w1, s1) = (sts1, w', s')" "sts = st @ sts1"
    using Cons.prems(2) e by (auto split: prod.splits)
  from int_event_refines [OF Cons.prems(1) e] Cons.IH [OF _ es(1)] es(2) show ?case by (auto simp: prod_eq_iff Let_def case_prod_beta)
qed auto

section \<open>Properties\<close>

text \<open>C3. Any sequence of interrupts being raised, enabled and disabled and of the VM reaching its hook behaves as specified on a list of pending
  interrupts, whatever the handlers do with interrupts themselves. Raising is refused, and changes nothing, exactly when the id is out of range, no Lua
  state exists, the interrupt is disabled or \<open>2 ^ PLATFORM_INT_QUEUE_LOG_SIZE\<close> are pending. At the hook the oldest interrupt is removed; its handler is called, with its
  resource, exactly if the interrupt is enabled at that time and has a handler. The hook is installed exactly while interrupts are pending.\<close>

theorem elua_int_program:
  assumes "int_wf lg s" and "int_events lg lst prog es (w, s) = (sts, w', s')"
  shows "int_wf lg s' \<and> (int_hook_set s' \<longleftrightarrow> int_elems s' \<noteq> []) \<and>
    (sts, w', int_view s') = abs_events (2 ^ lg) lst (int_lua_running s) prog es (w, int_view s)"
  using int_events_refine [OF assms] by (simp add: int_wf_iff)

theorem elua_int_program_witness:
  "\<exists>s'. int_events 1 9 (\<lambda>i. if i = 4 then Some (\<lambda>n. [Disable 5, Raise 4 (n + 1)]) else if i = 5 then Some (\<lambda>n. []) else None)
      [Call (Raise 4 7), Call (Raise 5 8), Call (Raise 4 9), Call (Raise 6 0), Vm, Vm, Vm, Vm, Vm] ([], int_demo)
    = ([PLATFORM_OK, PLATFORM_OK, PLATFORM_ERR, PLATFORM_ERR], [(4, 7), (4, 8), (4, 9), (4, 10)], s') \<and> map ie_resnum (int_elems s') = [11]"
proof -
  let ?prog = "\<lambda>i :: u8. if i = 4 then Some (\<lambda>n :: u16. [Disable 5, Raise 4 (n + 1)]) else if i = 5 then Some (\<lambda>n. []) else None"
  let ?es = "[Call (Raise 4 7), Call (Raise 5 8), Call (Raise 4 9), Call (Raise 6 0), Vm, Vm, Vm, Vm, Vm]"
  obtain sts w' s' where r: "int_events 1 9 ?prog ?es ([], int_demo) = (sts, w', s')" by (rule prod_cases3)
  have en: "elua_int_is_enabled int_demo 4" "elua_int_is_enabled int_demo 5" "\<not> elua_int_is_enabled int_demo 6"
    by (simp_all add: elua_int_is_enabled_bit int_demo_def)
  have v: "int_view int_demo = \<lparr>ab_pending = [], ab_enabled = elua_int_is_enabled int_demo\<rparr>" "int_lua_running int_demo"
    using int_demo_facts(2) by (simp_all add: int_view_def int_demo_def)
  have "(sts, w', int_view s') = abs_events (2 ^ 1) 9 (int_lua_running int_demo) ?prog ?es ([], int_view int_demo)"
    using elua_int_program [OF int_demo_facts(1) r] by blast
  then have "sts = [PLATFORM_OK, PLATFORM_OK, PLATFORM_ERR, PLATFORM_ERR]" "w' = [(4, 7), (4, 8), (4, 9), (4, 10)]"
    "ab_pending (int_view s') = [\<lparr>ie_id = 4, ie_resnum = 11\<rparr>]"
    using en v by simp_all
  with r show ?thesis by (simp add: int_view_def)
qed

text \<open>From an empty queue, a sequence of accepted interrupts and hook runs behaves as on a
  list that holds at most \<open>2 ^ PLATFORM_INT_QUEUE_LOG_SIZE\<close> interrupts: they are handled once and in
  the order they were raised, and the VM's hook is installed exactly while interrupts are pending.\<close>

theorem elua_int_fifo_run:
  assumes "int_wf lg s" and "int_elems s = []"
    and "\<forall>e \<in> qop_elems ops. int_accepts lst s e"
    and "lrun (2 ^ lg) ops [] = Some (es, q)"
  shows "\<exists>s'. qrun (int_put lg lst) (int_get lg) ops s = Some (es, s') \<and> int_wf lg s' \<and>
      int_elems s' = q \<and> (int_hook_set s' \<longleftrightarrow> q \<noteq> []) \<and>
      es @ q = concat (map (case_qop (\<lambda>e. [e]) []) ops)"
  using intq.run_refines_list [of lg s ops lst es q] lrun_conserves [OF assms(4)] assms
  by (auto simp: int_wf_def)

theorem elua_int_fifo_run_witness:
  "\<exists>s'. qrun (int_put 1 9) (int_get 1)
        [Put \<lparr>ie_id = 4, ie_resnum = 7\<rparr>, Put \<lparr>ie_id = 5, ie_resnum = 8\<rparr>, Get] int_demo
      = Some ([\<lparr>ie_id = 4, ie_resnum = 7\<rparr>], s') \<and> int_elems s' = [\<lparr>ie_id = 5, ie_resnum = 8\<rparr>] \<and> int_hook_set s'"
  using elua_int_fifo_run [of 1 int_demo
      "[Put \<lparr>ie_id = 4, ie_resnum = 7\<rparr>, Put \<lparr>ie_id = 5, ie_resnum = 8\<rparr>, Get]" 9
      "[\<lparr>ie_id = 4, ie_resnum = 7\<rparr>]" "[\<lparr>ie_id = 5, ie_resnum = 8\<rparr>]"] int_demo_facts
  by auto

end
