(* ===== verification/Eluarpc.thy ===== *)
theory Eluarpc
  imports Prelude
begin

text \<open>
  The lightweight RPC layer (\<open>src/src/eluarpc.c\<close>, \<open>src/inc/eluarpc.h\<close>, \<open>src/inc/rtype.h\<close>):
  packets of tagged little-endian fields written to and read from raw memory, driven by format
  strings. The writers are state transformers on a memory and a pointer, the readers on a pointer
  and the error flag. The theory gives the packet language of a format string, shows that the
  writer produces it, and that the reader accepts exactly that language.
\<close>

section \<open>Constants\<close>

definition TYPE_INT_8 :: u8 where "TYPE_INT_8 = 0x01"
definition TYPE_INT_16 :: u8 where "TYPE_INT_16 = 0x02"
definition TYPE_INT_32 :: u8 where "TYPE_INT_32 = 0x03"
definition TYPE_PTR :: u8 where "TYPE_PTR = 0x04"
definition TYPE_START :: u8 where "TYPE_START = 0x05"
definition TYPE_END :: u8 where "TYPE_END = 0x06"
definition TYPE_OP_ID :: u8 where "TYPE_OP_ID = 0x07"
definition TYPE_SMALL_PTR :: u8 where "TYPE_SMALL_PTR = 0x08"
definition TYPE_PKT_SIZE :: u8 where "TYPE_PKT_SIZE = 0xA5"

definition PACKET_SIG :: u32 where "PACKET_SIG = 0x18AFC284"
definition ELUARPC_OK :: u8 where "ELUARPC_OK = 0"
definition ELUARPC_ERR :: u8 where "ELUARPC_ERR = 1"
definition ELUARPC_OP_RES_MOD :: u8 where "ELUARPC_OP_RES_MOD = 0x80"
definition ELUARPC_START_OFFSET :: nat where "ELUARPC_START_OFFSET = 4"
definition ELUARPC_START_SIZE :: nat where "ELUARPC_START_SIZE = 6"
definition ELUARPC_END_SIZE :: nat where "ELUARPC_END_SIZE = 6"
definition ELUARPC_RESPONSE_SIZE :: nat where "ELUARPC_RESPONSE_SIZE = 1"
definition ELUARPC_PTR_HEADER_SIZE :: nat where "ELUARPC_PTR_HEADER_SIZE = 6"
definition ELUARPC_SMALL_PTR_HEADER_SIZE :: nat where "ELUARPC_SMALL_PTR_HEADER_SIZE = 4"
definition ELUARPC_U32_SIZE :: nat where "ELUARPC_U32_SIZE = 5"
definition ELUARPC_OP_ID_SIZE :: nat where "ELUARPC_OP_ID_SIZE = 2"

definition ELUARPC_READ_BUF_OFFSET :: nat where
  "ELUARPC_READ_BUF_OFFSET = ELUARPC_START_OFFSET + ELUARPC_START_SIZE + ELUARPC_RESPONSE_SIZE +
     ELUARPC_PTR_HEADER_SIZE"

definition ELUARPC_WRITE_REQUEST_EXTRA :: nat where
  "ELUARPC_WRITE_REQUEST_EXTRA = ELUARPC_START_OFFSET + ELUARPC_START_SIZE + ELUARPC_OP_ID_SIZE +
     ELUARPC_U32_SIZE + ELUARPC_PTR_HEADER_SIZE + ELUARPC_END_SIZE"

lemmas rpc_type_codes = TYPE_INT_8_def TYPE_INT_16_def TYPE_INT_32_def TYPE_PTR_def TYPE_START_def
  TYPE_END_def TYPE_OP_ID_def TYPE_SMALL_PTR_def TYPE_PKT_SIZE_def

lemmas rpc_sizes = ELUARPC_START_OFFSET_def ELUARPC_START_SIZE_def ELUARPC_END_SIZE_def
  ELUARPC_RESPONSE_SIZE_def ELUARPC_PTR_HEADER_SIZE_def ELUARPC_SMALL_PTR_HEADER_SIZE_def
  ELUARPC_U32_SIZE_def ELUARPC_OP_ID_SIZE_def ELUARPC_READ_BUF_OFFSET_def
  ELUARPC_WRITE_REQUEST_EXTRA_def

lemma rpc_status_distinct [simp]: "ELUARPC_ERR \<noteq> ELUARPC_OK" "ELUARPC_OK \<noteq> ELUARPC_ERR"
  by (simp_all add: ELUARPC_OK_def ELUARPC_ERR_def)

section \<open>Writers\<close>

text \<open>A write position: the memory and the pointer \<open>p\<close>. \<open>put\<close> is a run of \<open>*p ++ = b\<close>.\<close>

type_synonym wpos = "mem \<times> nat"

definition put :: "u8 list \<Rightarrow> wpos \<Rightarrow> wpos" where
  "put bs s = (wr_bytes (fst s) (snd s) bs, snd s + length bs)"

definition eluarpc_write_u8 :: "u8 \<Rightarrow> wpos \<Rightarrow> wpos" where
  "eluarpc_write_u8 fdata = put [fdata] \<circ> put [TYPE_INT_8]"

definition eluarpc_write_op_id :: "u8 \<Rightarrow> wpos \<Rightarrow> wpos" where
  "eluarpc_write_op_id fdata = put [fdata] \<circ> put [TYPE_OP_ID]"

definition eluarpc_write_u16 :: "u16 \<Rightarrow> wpos \<Rightarrow> wpos" where
  "eluarpc_write_u16 fdata = put (le16 fdata) \<circ> put [TYPE_INT_16]"

definition eluarpc_write_u32 :: "u32 \<Rightarrow> wpos \<Rightarrow> wpos" where
  "eluarpc_write_u32 fdata = put (le32 fdata) \<circ> put [TYPE_INT_32]"

text \<open>\<open>memcpy( p, src, n )\<close> when \<open>src\<close> is not NULL, then \<open>p + n\<close>; with a NULL source the bytes already
  at \<open>p\<close> are left in place. A source shorter than \<open>n\<close> is a fault.\<close>

definition write_block :: "u8 list option \<Rightarrow> nat \<Rightarrow> wpos \<Rightarrow> wpos option" where
  "write_block src n s = (case src of
       None \<Rightarrow> Some (fst s, snd s + n)
     | Some bs \<Rightarrow> if n \<le> length bs then Some (put (take n bs) s) else None)"

definition eluarpc_write_ptr :: "u8 list option \<Rightarrow> u32 \<Rightarrow> wpos \<Rightarrow> wpos option" where
  "eluarpc_write_ptr src srclen s =
     write_block src (unat srclen) (eluarpc_write_u32 srclen (put [TYPE_PTR] s))"

definition eluarpc_write_small_ptr :: "u8 list option \<Rightarrow> u16 \<Rightarrow> wpos \<Rightarrow> wpos option" where
  "eluarpc_write_small_ptr src srclen s =
     write_block src (unat srclen) (eluarpc_write_u16 srclen (put [TYPE_SMALL_PTR] s))"

definition eluarpc_start_packet :: "wpos \<Rightarrow> wpos" where
  "eluarpc_start_packet s =
     eluarpc_write_u32 PACKET_SIG (put [TYPE_START] (fst s, snd s + ELUARPC_START_OFFSET))"

text \<open>\<open>packet_ptr\<close> is the global \<open>eluarpc_packet_ptr\<close>, set when the packet was started.\<close>

definition eluarpc_end_packet :: "nat \<Rightarrow> wpos \<Rightarrow> wpos" where
  "eluarpc_end_packet packet_ptr s =
     (let s1 = eluarpc_write_u32 (NOT PACKET_SIG) (put [TYPE_END] s);
          len = word_of_nat (snd s1 - packet_ptr)
      in eluarpc_write_u16 len (put [TYPE_PKT_SIZE] (fst s1, packet_ptr)))"

text \<open>The variable arguments of a write: an integer, or a pointer with its length.\<close>

datatype warg = WInt u32 | WPtr "u8 list option" u32

definition gen_write_step :: "char \<Rightarrow> warg list \<Rightarrow> wpos \<Rightarrow> (warg list \<times> wpos) option" where
  "gen_write_step c args s =
     (if c = CHR ''p'' then
        (case args of WPtr ptr ptrlen # args' \<Rightarrow>
           do { s' \<leftarrow> eluarpc_write_ptr ptr ptrlen s; Some (args', s') }
         | _ \<Rightarrow> None)
      else if c = CHR ''P'' then
        (case args of WPtr ptr ptrlen # args' \<Rightarrow>
           do { s' \<leftarrow> eluarpc_write_small_ptr ptr (ucast ptrlen) s; Some (args', s') }
         | _ \<Rightarrow> None)
      else if c \<in> set ''orchilL'' then
        (case args of WInt v # args' \<Rightarrow>
           Some (args',
             if c = CHR ''o'' then eluarpc_write_op_id (ucast v) s
             else if c = CHR ''r'' then put [ELUARPC_OP_RES_MOD OR ucast v] s
             else if c = CHR ''c'' then eluarpc_write_u8 (ucast v) s
             else if c = CHR ''h'' then eluarpc_write_u16 (ucast v) s
             else eluarpc_write_u32 v s)
         | _ \<Rightarrow> None)
      else Some (args, s))"

fun gen_write_body :: "string \<Rightarrow> warg list \<Rightarrow> wpos \<Rightarrow> wpos option" where
  "gen_write_body [] args s = Some s"
| "gen_write_body (c # fmt) args s =
     do {
       (args', s') \<leftarrow> gen_write_step c args s;
       if snd s' < addr_limit then gen_write_body fmt args' s' else None
     }"

definition eluarpc_gen_write :: "mem \<Rightarrow> nat \<Rightarrow> string \<Rightarrow> warg list \<Rightarrow> mem option" where
  "eluarpc_gen_write m p fmt args =
     do {
       s \<leftarrow> gen_write_body fmt args (eluarpc_start_packet (m, p));
       Some (fst (eluarpc_end_packet p s))
     }"

section \<open>Readers\<close>

text \<open>A read position: the pointer and the global \<open>eluarpc_err_flag\<close>.\<close>

type_synonym rpos = "nat \<times> u8"

definition eluarpc_read_expect :: "u8 \<Rightarrow> mem \<Rightarrow> rpos \<Rightarrow> rpos" where
  "eluarpc_read_expect fdata m s =
     (Suc (fst s), if m (fst s) \<noteq> fdata then ELUARPC_ERR else snd s)"

definition eluarpc_read_u8 :: "mem \<Rightarrow> rpos \<Rightarrow> u8 \<times> rpos" where
  "eluarpc_read_u8 m s0 =
     (let (p, e) = eluarpc_read_expect TYPE_INT_8 m s0 in (m p, (Suc p, e)))"

definition eluarpc_read_op_id :: "mem \<Rightarrow> rpos \<Rightarrow> u8 \<times> rpos" where
  "eluarpc_read_op_id m s0 =
     (let (p, e) = eluarpc_read_expect TYPE_OP_ID m s0 in (m p, (Suc p, e)))"

definition eluarpc_expect_op_id :: "u8 \<Rightarrow> mem \<Rightarrow> rpos \<Rightarrow> rpos" where
  "eluarpc_expect_op_id ident m s0 =
     (let (p, e) = eluarpc_read_expect TYPE_OP_ID m s0;
          temp = m p
      in (Suc p, if temp \<noteq> ident then ELUARPC_ERR else e))"

definition eluarpc_read_u16 :: "mem \<Rightarrow> rpos \<Rightarrow> u16 \<times> rpos" where
  "eluarpc_read_u16 m s0 =
     (let (p, e) = eluarpc_read_expect TYPE_INT_16 m s0
      in (of_le16 (m p) (m (p + 1)), (p + 2, e)))"

definition eluarpc_read_u32 :: "mem \<Rightarrow> rpos \<Rightarrow> u32 \<times> rpos" where
  "eluarpc_read_u32 m s0 =
     (let (p, e) = eluarpc_read_expect TYPE_INT_32 m s0
      in (of_le32 (m p) (m (p + 1)) (m (p + 2)) (m (p + 3)), (p + 4, e)))"

text \<open>The pointer readers are only called with a NULL destination: they skip the block.\<close>

definition eluarpc_read_ptr :: "mem \<Rightarrow> rpos \<Rightarrow> u32 \<times> rpos" where
  "eluarpc_read_ptr m s0 =
     (let (srclen, (p, e)) = eluarpc_read_u32 m (eluarpc_read_expect TYPE_PTR m s0)
      in (srclen, (p + unat srclen, e)))"

definition eluarpc_read_small_ptr :: "mem \<Rightarrow> rpos \<Rightarrow> u16 \<times> rpos" where
  "eluarpc_read_small_ptr m s0 =
     (let (srclen, (p, e)) = eluarpc_read_u16 m (eluarpc_read_expect TYPE_SMALL_PTR m s0)
      in (srclen, (p + unat srclen, e)))"

definition eluarpc_match_packet_start :: "mem \<Rightarrow> rpos \<Rightarrow> rpos" where
  "eluarpc_match_packet_start m s0 =
     (let (fdata, (p, e)) = eluarpc_read_u32 m
            (eluarpc_read_expect TYPE_START m (fst s0 + ELUARPC_START_OFFSET, snd s0))
      in (p, if fdata \<noteq> PACKET_SIG then ELUARPC_ERR else e))"

definition eluarpc_match_packet_end :: "mem \<Rightarrow> rpos \<Rightarrow> rpos" where
  "eluarpc_match_packet_end m s0 =
     (let (fdata, (p, e)) = eluarpc_read_u32 m (eluarpc_read_expect TYPE_END m s0)
      in (p, if fdata \<noteq> NOT PACKET_SIG then ELUARPC_ERR else e))"

definition eluarpc_get_request_id :: "mem \<Rightarrow> nat \<Rightarrow> u8 \<times> u8" where
  "eluarpc_get_request_id m p =
     (let (pid, (_, e)) = eluarpc_read_op_id m (eluarpc_match_packet_start m (p, ELUARPC_OK))
      in (e, pid))"

definition eluarpc_replace_flag :: "u32 \<Rightarrow> u32 \<Rightarrow> u32 \<Rightarrow> u32" where
  "eluarpc_replace_flag val origflag newflag = (if val AND origflag \<noteq> 0 then newflag else 0)"

definition eluarpc_get_packet_size :: "mem \<Rightarrow> nat \<Rightarrow> u8 \<times> u16" where
  "eluarpc_get_packet_size m p =
     (let (psize, (_, e)) = eluarpc_read_u16 m (eluarpc_read_expect TYPE_PKT_SIZE m (p, ELUARPC_OK))
      in (e, psize))"

text \<open>What a read stores through its pointer arguments. A pointer argument receives the address
  of the block, or NULL when the block is empty.\<close>

datatype rval = V8 u8 | V16 u16 | V32 u32 | VPtr "nat option" u32 | VSPtr "nat option" u16

text \<open>\<open>ids\<close> are the values passed for \<open>o\<close> and \<open>r\<close>.\<close>

definition gen_read_step :: "char \<Rightarrow> u8 list \<Rightarrow> mem \<Rightarrow> rpos \<Rightarrow> (u8 list \<times> rval list \<times> rpos) option" where
  "gen_read_step c ids m s =
     (if c = CHR ''o'' then
        (case ids of [] \<Rightarrow> None | i # ids' \<Rightarrow> Some (ids', [], eluarpc_expect_op_id i m s))
      else if c = CHR ''r'' then
        (case ids of [] \<Rightarrow> None
         | i # ids' \<Rightarrow> Some (ids', [], eluarpc_read_expect (ELUARPC_OP_RES_MOD OR i) m s))
      else if c = CHR ''c'' then (let (v, t) = eluarpc_read_u8 m s in Some (ids, [V8 v], t))
      else if c = CHR ''h'' then (let (v, t) = eluarpc_read_u16 m s in Some (ids, [V16 v], t))
      else if c \<in> set ''lLi'' then (let (v, t) = eluarpc_read_u32 m s in Some (ids, [V32 v], t))
      else if c = CHR ''p'' then
        (let (n, t) = eluarpc_read_ptr m s
         in Some (ids, [VPtr (if fst t = fst s + ELUARPC_PTR_HEADER_SIZE then None
                              else Some (fst s + ELUARPC_PTR_HEADER_SIZE)) n], t))
      else if c = CHR ''P'' then
        (let (n, t) = eluarpc_read_small_ptr m s
         in Some (ids, [VSPtr (if fst t = fst s + ELUARPC_SMALL_PTR_HEADER_SIZE then None
                               else Some (fst s + ELUARPC_SMALL_PTR_HEADER_SIZE)) n], t))
      else Some (ids, [], s))"

fun gen_read_body :: "string \<Rightarrow> u8 list \<Rightarrow> mem \<Rightarrow> rpos \<Rightarrow> (rval list \<times> rpos) option" where
  "gen_read_body [] ids m s = Some ([], s)"
| "gen_read_body (c # fmt) ids m s =
     do {
       (ids', vs, s') \<leftarrow> gen_read_step c ids m s;
       if fst s' < addr_limit then do {
         (vs', s'') \<leftarrow> gen_read_body fmt ids' m s';
         Some (vs @ vs', s'')
       } else None
     }"

definition eluarpc_gen_read :: "mem \<Rightarrow> nat \<Rightarrow> string \<Rightarrow> u8 list \<Rightarrow> (u8 \<times> rval list) option" where
  "eluarpc_gen_read m p fmt ids =
     do {
       (vs, s) \<leftarrow> gen_read_body fmt ids m (eluarpc_match_packet_start m (p, ELUARPC_OK));
       Some (snd (eluarpc_match_packet_end m s), vs)
     }"

section \<open>Field codecs\<close>

text \<open>The contract between the writer and the reader of one kind of field: the reader consumes
  exactly the bytes the writer produces and keeps the error flag, and a reader that does not raise
  the flag has seen those bytes.\<close>

locale field_codec =
  fixes enc :: "'a \<Rightarrow> u8 list"
    and dec :: "mem \<Rightarrow> rpos \<Rightarrow> 'a \<times> rpos"
  assumes dec_enc: "rd_bytes m p (length (enc x)) = enc x \<Longrightarrow> dec m (p, e) = (x, (p + length (enc x), e))"
    and dec_sound: "dec m (p, e) = (x, (q, ELUARPC_OK)) \<Longrightarrow>
      e = ELUARPC_OK \<and> q = p + length (enc x) \<and> rd_bytes m p (length (enc x)) = enc x"
begin

lemma dec_ok_iff:
  "dec m (p, ELUARPC_OK) = (x, (q, ELUARPC_OK)) \<longleftrightarrow>
   q = p + length (enc x) \<and> rd_bytes m p (length (enc x)) = enc x"
  using dec_enc [of m p x ELUARPC_OK] dec_sound [of m p ELUARPC_OK x q] by auto

lemma dec_after_wr: "dec (wr_bytes m p (enc x)) (p, e) = (x, (p + length (enc x), e))"
  by (rule dec_enc) (simp add: mem_simps)

lemma dec_sticky: "e \<noteq> ELUARPC_OK \<Longrightarrow> snd (snd (dec m (p, e))) \<noteq> ELUARPC_OK"
  using dec_sound [of m p e] by (metis prod.collapse)

end

lemmas rpc_reader_defs = eluarpc_read_expect_def eluarpc_read_u8_def eluarpc_read_op_id_def
  eluarpc_read_u16_def eluarpc_read_u32_def

lemma rd_tag16_iff [codec_simps]:
  "rd_bytes m p 3 = t # le16 x \<longleftrightarrow> m p = t \<and> of_le16 (m (Suc p)) (m (Suc (Suc p))) = x"
proof -
  have "rd_bytes m p 3 = [m p, m (Suc p), m (Suc (Suc p))]"
    by (simp add: rd_bytes_Suc eval_nat_numeral)
  then show ?thesis
    by (simp add: le16_eq_iff)
qed

lemma rd_tag32_iff [codec_simps]:
  "rd_bytes m p 5 = t # le32 x \<longleftrightarrow>
   m p = t \<and> of_le32 (m (Suc p)) (m (Suc (Suc p))) (m (Suc (Suc (Suc p)))) (m (4 + p)) = x"
proof -
  have "rd_bytes m p 5 = [m p, m (Suc p), m (Suc (Suc p)), m (Suc (Suc (Suc p))), m (4 + p)]"
    by (simp add: rd_bytes_Suc eval_nat_numeral)
  then show ?thesis
    by (simp add: le32_eq_iff)
qed

interpretation u8c: field_codec "\<lambda>x. [TYPE_INT_8, x]" eluarpc_read_u8
  by unfold_locales (auto simp: rpc_reader_defs rd_bytes_Suc split: if_splits)

interpretation opc: field_codec "\<lambda>x. [TYPE_OP_ID, x]" eluarpc_read_op_id
  by unfold_locales (auto simp: rpc_reader_defs rd_bytes_Suc split: if_splits)

interpretation u16c: field_codec "\<lambda>x. TYPE_INT_16 # le16 x" eluarpc_read_u16
  by unfold_locales (auto simp: rpc_reader_defs codec_simps split: if_splits)

interpretation u32c: field_codec "\<lambda>x. TYPE_INT_32 # le32 x" eluarpc_read_u32
  by unfold_locales (auto simp: rpc_reader_defs codec_simps split: if_splits)

section \<open>The packet language\<close>

datatype item = IOp u8 | IRes u8 | I8 u8 | I16 u16 | I32 u32 | IPtr "u8 list" | ISmall "u8 list"

fun item_bytes :: "item \<Rightarrow> u8 list" where
  "item_bytes (IOp i) = [TYPE_OP_ID, i]"
| "item_bytes (IRes i) = [ELUARPC_OP_RES_MOD OR i]"
| "item_bytes (I8 v) = [TYPE_INT_8, v]"
| "item_bytes (I16 v) = TYPE_INT_16 # le16 v"
| "item_bytes (I32 v) = TYPE_INT_32 # le32 v"
| "item_bytes (IPtr bs) = TYPE_PTR # TYPE_INT_32 # le32 (word_of_nat (length bs)) @ bs"
| "item_bytes (ISmall bs) = TYPE_SMALL_PTR # TYPE_INT_16 # le16 (word_of_nat (length bs)) @ bs"

definition items_bytes :: "item list \<Rightarrow> u8 list" where
  "items_bytes its = concat (map item_bytes its)"

definition packet_payload :: "item list \<Rightarrow> u8 list" where
  "packet_payload its = (TYPE_START # TYPE_INT_32 # le32 PACKET_SIG) @ items_bytes its @
     (TYPE_END # TYPE_INT_32 # le32 (NOT PACKET_SIG))"

definition packet_bytes :: "item list \<Rightarrow> u8 list" where
  "packet_bytes its =
     (TYPE_PKT_SIZE # TYPE_INT_16 # le16 (word_of_nat (4 + length (packet_payload its)))) @
     packet_payload its"

text \<open>Which items a specifier stands for, the identifiers the reader must be given, and what it
  stores for an item found at address \<open>p\<close>.\<close>

fun fmt_item :: "char \<Rightarrow> item \<Rightarrow> bool" where
  "fmt_item c (IOp i) \<longleftrightarrow> c = CHR ''o''"
| "fmt_item c (IRes i) \<longleftrightarrow> c = CHR ''r''"
| "fmt_item c (I8 v) \<longleftrightarrow> c = CHR ''c''"
| "fmt_item c (I16 v) \<longleftrightarrow> c = CHR ''h''"
| "fmt_item c (I32 v) \<longleftrightarrow> c \<in> set ''lLi''"
| "fmt_item c (IPtr bs) \<longleftrightarrow> c = CHR ''p'' \<and> length bs < 2 ^ 32"
| "fmt_item c (ISmall bs) \<longleftrightarrow> c = CHR ''P'' \<and> length bs < 2 ^ 16"

fun item_ids :: "item \<Rightarrow> u8 list" where
  "item_ids (IOp i) = [i]"
| "item_ids (IRes i) = [i]"
| "item_ids _ = []"

fun item_out :: "nat \<Rightarrow> item \<Rightarrow> rval list" where
  "item_out p (I8 v) = [V8 v]"
| "item_out p (I16 v) = [V16 v]"
| "item_out p (I32 v) = [V32 v]"
| "item_out p (IPtr bs) = [VPtr (if bs = [] then None else Some (p + 6)) (word_of_nat (length bs))]"
| "item_out p (ISmall bs) = [VSPtr (if bs = [] then None else Some (p + 4)) (word_of_nat (length bs))]"
| "item_out p _ = []"

fun items_out :: "nat \<Rightarrow> item list \<Rightarrow> rval list" where
  "items_out p [] = []"
| "items_out p (it # its) = item_out p it @ items_out (p + length (item_bytes it)) its"

lemma items_bytes_simps [simp]:
  "items_bytes [] = []" "items_bytes (it # its) = item_bytes it @ items_bytes its"
  "items_bytes (its @ its') = items_bytes its @ items_bytes its'"
  by (simp_all add: items_bytes_def)

text \<open>The items a format string and its arguments denote when the field area starts at \<open>p\<close>; a NULL
  pointer stands for the bytes found in place.\<close>

definition arg_block :: "mem \<Rightarrow> nat \<Rightarrow> u8 list option \<Rightarrow> nat \<Rightarrow> u8 list option" where
  "arg_block m p src n = (case src of
       None \<Rightarrow> Some (rd_bytes m p n)
     | Some bs \<Rightarrow> if n \<le> length bs then Some (take n bs) else None)"

fun arg_item :: "mem \<Rightarrow> nat \<Rightarrow> char \<Rightarrow> warg \<Rightarrow> item option" where
  "arg_item m p c (WInt v) =
     (if c = CHR ''o'' then Some (IOp (ucast v))
      else if c = CHR ''r'' then Some (IRes (ucast v))
      else if c = CHR ''c'' then Some (I8 (ucast v))
      else if c = CHR ''h'' then Some (I16 (ucast v))
      else if c \<in> set ''lLi'' then Some (I32 v) else None)"
| "arg_item m p c (WPtr src n) =
     (if c = CHR ''p'' then map_option IPtr (arg_block m (p + 6) src (unat n))
      else if c = CHR ''P'' then map_option ISmall (arg_block m (p + 4) src (unat (ucast n :: u16)))
      else None)"

fun arg_items :: "mem \<Rightarrow> nat \<Rightarrow> string \<Rightarrow> warg list \<Rightarrow> item list option" where
  "arg_items m p [] [] = Some []"
| "arg_items m p (c # fmt) (a # args) =
     do {
       it \<leftarrow> arg_item m p c a;
       its \<leftarrow> arg_items m (p + length (item_bytes it)) fmt args;
       Some (it # its)
     }"
| "arg_items m p _ _ = None"

section \<open>The writer produces the language\<close>

lemma put_put: "put ys (put xs s) = put (xs @ ys) s"
  by (simp add: put_def wr_bytes_append)

lemmas writer_defs = eluarpc_write_u8_def eluarpc_write_op_id_def eluarpc_write_u16_def
  eluarpc_write_u32_def put_put

lemma write_block_put:
  assumes "arg_block m (p + length hdr) src n = Some bs"
  shows "write_block src n (put hdr (m, p)) = Some (put (hdr @ bs) (m, p)) \<and> length bs = n"
proof (cases src)
  case None
  with assms have bs: "bs = rd_bytes m (p + length hdr) n"
    by (simp add: arg_block_def)
  have "wr_bytes (wr_bytes m p hdr) (p + length hdr) bs = wr_bytes m p hdr"
    unfolding bs by (rule wr_bytes_self) (simp add: mem_simps)
  with None show ?thesis
    by (simp add: write_block_def put_def wr_bytes_append bs)
next
  case (Some src')
  with assms show ?thesis
    by (auto simp: arg_block_def write_block_def put_put split: if_splits)
qed

lemma eluarpc_write_ptr_put:
  assumes "arg_block m (p + 6) src (unat n) = Some bs"
  shows "eluarpc_write_ptr src n (m, p) = Some (put (item_bytes (IPtr bs)) (m, p))"
  using write_block_put [of m p "TYPE_PTR # TYPE_INT_32 # le32 n" src "unat n" bs] assms
  by (auto simp: eluarpc_write_ptr_def writer_defs)

lemma eluarpc_write_small_ptr_put:
  assumes "arg_block m (p + 4) src (unat n) = Some bs"
  shows "eluarpc_write_small_ptr src n (m, p) = Some (put (item_bytes (ISmall bs)) (m, p))"
  using write_block_put [of m p "TYPE_SMALL_PTR # TYPE_INT_16 # le16 n" src "unat n" bs] assms
  by (auto simp: eluarpc_write_small_ptr_def writer_defs)

lemma gen_write_step_item:
  assumes "arg_item m p c a = Some it"
  shows "gen_write_step c (a # args) (m, p) = Some (args, put (item_bytes it) (m, p))"
proof (cases a)
  case (WInt v)
  with assms show ?thesis
    by (simp add: gen_write_step_def writer_defs split: if_split_asm) (safe; simp)+
next
  case (WPtr src n)
  with assms show ?thesis
    by (auto simp: gen_write_step_def eluarpc_write_ptr_put eluarpc_write_small_ptr_put split: if_splits
        simp del: item_bytes.simps)
qed

lemma arg_item_frame:
  "p + length bs \<le> q \<Longrightarrow> arg_item (wr_bytes m p bs) q c a = arg_item m q c a"
  by (cases a) (auto simp: arg_block_def mem_simps split: option.splits)

lemma arg_items_frame:
  "p + length bs \<le> q \<Longrightarrow> arg_items (wr_bytes m p bs) q fmt args = arg_items m q fmt args"
proof (induction fmt arbitrary: q args)
  case Nil
  then show ?case by (cases args) auto
next
  case (Cons c fmt)
  then show ?case
    by (cases args) (auto simp: arg_item_frame split: bind_splits)
qed

lemma gen_write_body_items:
  "arg_items m p fmt args = Some its \<Longrightarrow> p + length (items_bytes its) < addr_limit \<Longrightarrow>
   gen_write_body fmt args (m, p) = Some (put (items_bytes its) (m, p))"
proof (induction fmt arbitrary: m p args its)
  case Nil
  then show ?case by (cases args) (auto simp: put_def)
next
  case (Cons c fmt)
  from Cons.prems obtain a args' it its' where it: "args = a # args'" "arg_item m p c a = Some it" "its = it # its'"
    and its': "arg_items m (p + length (item_bytes it)) fmt args' = Some its'"
    by (cases args) (auto split: bind_splits)
  then show ?case
    using Cons.IH [of "wr_bytes m p (item_bytes it)" "p + length (item_bytes it)" args' its'] Cons.prems(2)
    by (simp add: gen_write_step_item arg_items_frame put_def wr_bytes_append add.assoc)
qed

lemma gen_write_packet:
  assumes "arg_items m (p + 10) fmt args = Some its" and "p + length (packet_bytes its) \<le> addr_limit"
  shows "eluarpc_gen_write m p fmt args = Some (wr_bytes m p (packet_bytes its))"
proof -
  let ?start = "TYPE_START # TYPE_INT_32 # le32 PACKET_SIG"
  let ?fin = "TYPE_END # TYPE_INT_32 # le32 (NOT PACKET_SIG)"
  let ?hdr = "TYPE_PKT_SIZE # TYPE_INT_16 # le16 (word_of_nat (4 + length (packet_payload its)))"
  have start: "eluarpc_start_packet (m, p) = put ?start (m, p + 4)"
    by (simp add: eluarpc_start_packet_def writer_defs rpc_sizes)
  have "gen_write_body fmt args (put ?start (m, p + 4)) = Some (put (?start @ items_bytes its) (m, p + 4))"
  proof -
    have "put ?start (m, p + 4) = (wr_bytes m (p + 4) ?start, p + 10)"
      by (simp add: put_def)
    then show ?thesis
      using gen_write_body_items [of "wr_bytes m (p + 4) ?start" "p + 10" fmt args its] assms
      by (simp only: put_put [symmetric]) (simp add: arg_items_frame packet_bytes_def packet_payload_def)
  qed
  moreover have "fst (eluarpc_end_packet p (put (?start @ items_bytes its) (m, p + 4)))
      = wr_bytes (wr_bytes m (p + 4) (packet_payload its)) p ?hdr"
    by (simp add: eluarpc_end_packet_def writer_defs Let_def)
       (simp add: put_def packet_payload_def add_ac)
  moreover have "wr_bytes (wr_bytes m (p + 4) (packet_payload its)) p ?hdr = wr_bytes m p (packet_bytes its)"
  proof -
    have "wr_bytes (wr_bytes m (a + length xs) ys) a xs = wr_bytes m a (xs @ ys)" for a xs and ys :: "u8 list"
      by (auto simp: wr_bytes_def nth_append intro!: ext)
    from this [of p ?hdr] show ?thesis
      by (simp add: packet_bytes_def)
  qed
  ultimately show ?thesis
    by (simp add: eluarpc_gen_write_def start)
qed

section \<open>The reader accepts exactly the language\<close>

lemma eluarpc_read_expect_ok [simp]:
  "eluarpc_read_expect b m (p, e) = (q, ELUARPC_OK) \<longleftrightarrow> m p = b \<and> e = ELUARPC_OK \<and> q = Suc p"
  by (auto simp: eluarpc_read_expect_def split: if_splits)

text \<open>A length-prefixed block: the tag, its length field and the bytes that follow.\<close>

lemma eluarpc_read_ptr_ok:
  "eluarpc_read_ptr m (p, e) = (n, (q, ELUARPC_OK)) \<longleftrightarrow>
   e = ELUARPC_OK \<and> q = p + 6 + unat n \<and> m p = TYPE_PTR \<and> rd_bytes m (Suc p) 5 = TYPE_INT_32 # le32 n"
  by (auto simp: eluarpc_read_ptr_def rpc_reader_defs codec_simps split: if_splits)

lemma eluarpc_read_small_ptr_ok:
  "eluarpc_read_small_ptr m (p, e) = (n, (q, ELUARPC_OK)) \<longleftrightarrow>
   e = ELUARPC_OK \<and> q = p + 4 + unat n \<and> m p = TYPE_SMALL_PTR \<and> rd_bytes m (Suc p) 3 = TYPE_INT_16 # le16 n"
  by (auto simp: eluarpc_read_small_ptr_def rpc_reader_defs codec_simps split: if_splits)

lemma rd_ptr_item:
  "rd_bytes m p (length (item_bytes (IPtr bs))) = item_bytes (IPtr bs) \<longleftrightarrow>
   m p = TYPE_PTR \<and> rd_bytes m (Suc p) 5 = TYPE_INT_32 # le32 (word_of_nat (length bs)) \<and>
   rd_bytes m (p + 6) (length bs) = bs"
  using rd_bytes_append_iff [of m p "TYPE_PTR # TYPE_INT_32 # le32 (word_of_nat (length bs))" bs]
    rd_bytes_Cons_iff [of m p TYPE_PTR "TYPE_INT_32 # le32 (word_of_nat (length bs))"]
  by (simp add: add_ac)

lemma rd_small_ptr_item:
  "rd_bytes m p (length (item_bytes (ISmall bs))) = item_bytes (ISmall bs) \<longleftrightarrow>
   m p = TYPE_SMALL_PTR \<and> rd_bytes m (Suc p) 3 = TYPE_INT_16 # le16 (word_of_nat (length bs)) \<and>
   rd_bytes m (p + 4) (length bs) = bs"
  using rd_bytes_append_iff [of m p "TYPE_SMALL_PTR # TYPE_INT_16 # le16 (word_of_nat (length bs))" bs]
    rd_bytes_Cons_iff [of m p TYPE_SMALL_PTR "TYPE_INT_16 # le16 (word_of_nat (length bs))"]
  by (simp add: eval_nat_numeral)

lemma gen_read_step_item:
  assumes "fmt_item c it" and "rd_bytes m p (length (item_bytes it)) = item_bytes it"
  shows "gen_read_step c (item_ids it @ ids) m (p, ELUARPC_OK) =
      Some (ids, item_out p it, (p + length (item_bytes it), ELUARPC_OK))"
proof (cases it)
  case (IOp i)
  with assms show ?thesis
    by (simp add: gen_read_step_def eluarpc_expect_op_id_def eluarpc_read_expect_def rd_bytes_Suc)
next
  case (IPtr bs)
  with assms have "eluarpc_read_ptr m (p, ELUARPC_OK) =
      (word_of_nat (length bs), (p + length (item_bytes it), ELUARPC_OK))"
    unfolding eluarpc_read_ptr_ok
    by (simp add: unat_of_nat_less rd_ptr_item del: item_bytes.simps) simp
  with assms IPtr show ?thesis
    by (auto simp: gen_read_step_def rpc_sizes)
next
  case (ISmall bs)
  with assms have "eluarpc_read_small_ptr m (p, ELUARPC_OK) =
      (word_of_nat (length bs), (p + length (item_bytes it), ELUARPC_OK))"
    unfolding eluarpc_read_small_ptr_ok
    by (simp add: unat_of_nat_less rd_small_ptr_item del: item_bytes.simps) simp
  with assms ISmall show ?thesis
    by (auto simp: gen_read_step_def rpc_sizes)
next
  case (I32 v)
  with assms show ?thesis
    using u32c.dec_enc [of m p v ELUARPC_OK] by (auto simp: gen_read_step_def)
qed (use assms in \<open>auto simp: gen_read_step_def rd_bytes_Suc codec_simps rpc_reader_defs\<close>)

lemma gen_read_step_sound_ptr:
  assumes "gen_read_step (CHR ''p'') ids m (p, e) = Some (ids', vs, (q, ELUARPC_OK))"
  shows "\<exists>bs. e = ELUARPC_OK \<and> fmt_item (CHR ''p'') (IPtr bs) \<and> ids = ids' \<and> vs = item_out p (IPtr bs) \<and>
      q = p + length (item_bytes (IPtr bs)) \<and>
      rd_bytes m p (length (item_bytes (IPtr bs))) = item_bytes (IPtr bs)"
proof -
  from assms obtain n where n: "eluarpc_read_ptr m (p, e) = (n, (q, ELUARPC_OK))" "ids' = ids"
      "vs = [VPtr (if q = p + 6 then None else Some (p + 6)) n]"
    by (auto simp: gen_read_step_def rpc_sizes split: prod.splits)
  let ?bs = "rd_bytes m (p + 6) (unat n)"
  have "fmt_item (CHR ''p'') (IPtr ?bs)"
    using unsigned_less [of n, where ?'a = nat] by simp
  moreover have "vs = item_out p (IPtr ?bs)" "q = p + length (item_bytes (IPtr ?bs))"
    using n by (auto simp: eluarpc_read_ptr_ok rd_bytes_def)
  moreover have "rd_bytes m p (length (item_bytes (IPtr ?bs))) = item_bytes (IPtr ?bs)"
    using n by (simp only: eluarpc_read_ptr_ok rd_ptr_item) simp
  moreover have "e = ELUARPC_OK"
    using n by (simp add: eluarpc_read_ptr_ok)
  ultimately show ?thesis
    using n(2) by (intro exI [of _ ?bs]) (simp only: simp_thms)
qed

lemma gen_read_step_sound_small_ptr:
  assumes "gen_read_step (CHR ''P'') ids m (p, e) = Some (ids', vs, (q, ELUARPC_OK))"
  shows "\<exists>bs. e = ELUARPC_OK \<and> fmt_item (CHR ''P'') (ISmall bs) \<and> ids = ids' \<and> vs = item_out p (ISmall bs) \<and>
      q = p + length (item_bytes (ISmall bs)) \<and>
      rd_bytes m p (length (item_bytes (ISmall bs))) = item_bytes (ISmall bs)"
proof -
  from assms obtain n where n: "eluarpc_read_small_ptr m (p, e) = (n, (q, ELUARPC_OK))" "ids' = ids"
      "vs = [VSPtr (if q = p + 4 then None else Some (p + 4)) n]"
    by (auto simp: gen_read_step_def rpc_sizes split: prod.splits)
  let ?bs = "rd_bytes m (p + 4) (unat n)"
  have "fmt_item (CHR ''P'') (ISmall ?bs)"
    using unsigned_less [of n, where ?'a = nat] by simp
  moreover have "vs = item_out p (ISmall ?bs)" "q = p + length (item_bytes (ISmall ?bs))"
    using n by (auto simp: eluarpc_read_small_ptr_ok rd_bytes_def)
  moreover have "rd_bytes m p (length (item_bytes (ISmall ?bs))) = item_bytes (ISmall ?bs)"
    using n by (simp only: eluarpc_read_small_ptr_ok rd_small_ptr_item) simp
  moreover have "e = ELUARPC_OK"
    using n by (simp add: eluarpc_read_small_ptr_ok)
  ultimately show ?thesis
    using n(2) by (intro exI [of _ ?bs]) (simp only: simp_thms)
qed

lemma gen_read_step_sound_int:
  assumes "gen_read_step c ids m (p, e) = Some (ids', vs, (q, ELUARPC_OK))" and "c \<in> set ''orchlLi''"
  shows "e = ELUARPC_OK \<and> (\<exists>it. fmt_item c it \<and> ids = item_ids it @ ids' \<and> vs = item_out p it \<and>
      q = p + length (item_bytes it) \<and> rd_bytes m p (length (item_bytes it)) = item_bytes it)"
proof -
  consider (o) i where "c = CHR ''o''" "ids = i # ids'" | (r) i where "c = CHR ''r''" "ids = i # ids'"
    | (c) "c = CHR ''c''" | (h) "c = CHR ''h''" | (l) "c \<in> set ''lLi''"
    using assms by (auto simp: gen_read_step_def split: list.splits)
  then show ?thesis
  proof cases
    case o
    with assms(1) show ?thesis
      by (intro conjI exI [of _ "IOp i"])
        (auto simp: gen_read_step_def eluarpc_expect_op_id_def eluarpc_read_expect_def rd_bytes_Suc split: if_splits)
  next
    case r
    with assms(1) show ?thesis
      by (intro conjI exI [of _ "IRes i"])
        (auto simp: gen_read_step_def eluarpc_read_expect_def rd_bytes_Suc split: if_splits)
  next
    case c
    with assms(1) obtain v where "eluarpc_read_u8 m (p, e) = (v, (q, ELUARPC_OK))" "ids = ids'" "vs = [V8 v]"
      by (auto simp: gen_read_step_def split: prod.splits)
    with c u8c.dec_sound [of m p e v q] show ?thesis
      by (intro conjI exI [of _ "I8 v"]) auto
  next
    case h
    with assms(1) obtain v where "eluarpc_read_u16 m (p, e) = (v, (q, ELUARPC_OK))" "ids = ids'" "vs = [V16 v]"
      by (auto simp: gen_read_step_def split: prod.splits)
    with h u16c.dec_sound [of m p e v q] show ?thesis
      by (intro conjI exI [of _ "I16 v"]) auto
  next
    case l
    with assms(1) obtain v where "eluarpc_read_u32 m (p, e) = (v, (q, ELUARPC_OK))" "ids = ids'" "vs = [V32 v]"
      by (auto simp: gen_read_step_def split: prod.splits)
    with l u32c.dec_sound [of m p e v q] show ?thesis
      by (intro conjI exI [of _ "I32 v"]) auto
  qed
qed

lemma gen_read_step_sound:
  assumes "gen_read_step c ids m (p, e) = Some (ids', vs, (q, ELUARPC_OK))" and "c \<in> set ''orchlLipP''"
  shows "e = ELUARPC_OK \<and> (\<exists>it. fmt_item c it \<and> ids = item_ids it @ ids' \<and> vs = item_out p it \<and>
      q = p + length (item_bytes it) \<and> rd_bytes m p (length (item_bytes it)) = item_bytes it)"
proof -
  from assms(2) consider "c \<in> set ''orchlLi''" | "c = CHR ''p''" | "c = CHR ''P''"
    by (simp, elim disjE) simp_all
  then show ?thesis
  proof cases
    case 1
    with gen_read_step_sound_int assms(1) show ?thesis by blast
  next
    case 2
    with gen_read_step_sound_ptr [of ids m p e ids' vs q] assms(1) show ?thesis
      by (metis append_Nil item_ids.simps(6))
  next
    case 3
    with gen_read_step_sound_small_ptr [of ids m p e ids' vs q] assms(1) show ?thesis
      by (metis append_Nil item_ids.simps(7))
  qed
qed

lemma gen_read_body_items:
  "list_all2 fmt_item fmt its \<Longrightarrow> p + length (items_bytes its) < addr_limit \<Longrightarrow>
   rd_bytes m p (length (items_bytes its)) = items_bytes its \<Longrightarrow>
   gen_read_body fmt (concat (map item_ids its) @ ids) m (p, ELUARPC_OK) =
     Some (items_out p its, (p + length (items_bytes its), ELUARPC_OK))"
proof (induction fmt its arbitrary: p rule: list_all2_induct)
  case (Cons c fmt it its)
  from Cons.prems have "rd_bytes m p (length (item_bytes it)) = item_bytes it"
    and "rd_bytes m (p + length (item_bytes it)) (length (items_bytes its)) = items_bytes its"
    using rd_bytes_append_iff [of m p "item_bytes it" "items_bytes its"] by auto
  with Cons show ?case
    by (simp add: gen_read_step_item add.assoc)
qed simp

lemma gen_read_body_sound:
  "gen_read_body fmt ids m (p, e) = Some (vs, (q, ELUARPC_OK)) \<Longrightarrow> set fmt \<subseteq> set ''orchlLipP'' \<Longrightarrow>
   p < addr_limit \<Longrightarrow> q < addr_limit \<and>
   e = ELUARPC_OK \<and> (\<exists>its ids'. list_all2 fmt_item fmt its \<and> ids = concat (map item_ids its) @ ids' \<and>
     vs = items_out p its \<and> q = p + length (items_bytes its) \<and>
     rd_bytes m p (length (items_bytes its)) = items_bytes its)"
proof (induction fmt arbitrary: ids p e vs)
  case (Cons c fmt)
  from Cons.prems(1) obtain ids1 v1 p1 e1 v2 where
    step: "gen_read_step c ids m (p, e) = Some (ids1, v1, (p1, e1))"
    and rest: "gen_read_body fmt ids1 m (p1, e1) = Some (v2, (q, ELUARPC_OK))" and vs: "vs = v1 @ v2" and p1: "p1 < addr_limit"
    by (auto split: bind_splits if_splits)
  from Cons.IH [OF rest] Cons.prems(2) p1 obtain its ids' where "e1 = ELUARPC_OK" "q < addr_limit"
    and its: "list_all2 fmt_item fmt its" "ids1 = concat (map item_ids its) @ ids'" "v2 = items_out p1 its"
      "q = p1 + length (items_bytes its)" "rd_bytes m p1 (length (items_bytes its)) = items_bytes its"
    by auto
  with gen_read_step_sound [of c ids m p e ids1 v1 p1] step Cons.prems(2) obtain it where
    it: "e = ELUARPC_OK" "fmt_item c it" "ids = item_ids it @ ids1" "v1 = item_out p it"
      "p1 = p + length (item_bytes it)" "rd_bytes m p (length (item_bytes it)) = item_bytes it"
    by auto
  then show ?case
    using \<open>q < addr_limit\<close> its vs rd_bytes_append_iff [of m p "item_bytes it" "items_bytes its"]
    by (intro conjI exI [of _ "it # its"] exI [of _ ids']) (auto simp: add.assoc)
qed auto

section \<open>Packets\<close>

lemma eluarpc_match_packet_start_ok:
  "eluarpc_match_packet_start m (p, e) = (q, ELUARPC_OK) \<longleftrightarrow>
   e = ELUARPC_OK \<and> q = p + 10 \<and> rd_bytes m (p + 4) 6 = TYPE_START # TYPE_INT_32 # le32 PACKET_SIG"
  using rd_bytes_Cons_iff [of m "p + 4" TYPE_START "TYPE_INT_32 # le32 PACKET_SIG"]
  by (auto simp: eluarpc_match_packet_start_def rpc_reader_defs codec_simps rpc_sizes split: if_splits)

lemma eluarpc_match_packet_end_ok:
  "snd (eluarpc_match_packet_end m (p, e)) = ELUARPC_OK \<longleftrightarrow>
   e = ELUARPC_OK \<and> rd_bytes m p 6 = TYPE_END # TYPE_INT_32 # le32 (NOT PACKET_SIG)"
  using rd_bytes_Cons_iff [of m p TYPE_END "TYPE_INT_32 # le32 (NOT PACKET_SIG)"]
  by (auto simp: eluarpc_match_packet_end_def rpc_reader_defs codec_simps rpc_sizes split: if_splits)

lemma rd_packet_payload:
  "rd_bytes m (p + 4) (length (packet_payload its)) = packet_payload its \<longleftrightarrow>
   rd_bytes m (p + 4) 6 = TYPE_START # TYPE_INT_32 # le32 PACKET_SIG \<and>
   rd_bytes m (p + 10) (length (items_bytes its)) = items_bytes its \<and>
   rd_bytes m (p + 10 + length (items_bytes its)) 6 = TYPE_END # TYPE_INT_32 # le32 (NOT PACKET_SIG)"
  unfolding packet_payload_def rd_bytes_append_iff by (simp add: add_ac)

lemma length_packet_payload: "length (packet_payload its) = 12 + length (items_bytes its)"
  by (simp add: packet_payload_def)

lemma length_packet_bytes: "length (packet_bytes its) = 16 + length (items_bytes its)"
  by (simp add: packet_bytes_def length_packet_payload)

lemma gen_read_payload:
  assumes "list_all2 fmt_item fmt its" and "ids = concat (map item_ids its) @ ids'"
    and "rd_bytes m (p + 4) (length (packet_payload its)) = packet_payload its"
    and "p + 10 + length (items_bytes its) < addr_limit"
  shows "eluarpc_gen_read m p fmt ids = Some (ELUARPC_OK, items_out (p + 10) its)"
proof -
  have *: "eluarpc_match_packet_start m (p, ELUARPC_OK) = (p + 10, ELUARPC_OK)"
    using assms(3) by (simp add: rd_packet_payload eluarpc_match_packet_start_ok)
  moreover have "snd (eluarpc_match_packet_end m (p + 10 + length (items_bytes its), ELUARPC_OK)) = ELUARPC_OK"
    using assms(3) by (simp add: rd_packet_payload eluarpc_match_packet_end_ok)
  ultimately show ?thesis
    using gen_read_body_items [OF assms(1,4), of m ids'] assms(2,3)
    by (simp add: eluarpc_gen_read_def rd_packet_payload)
qed

lemma arg_items_fmt: "arg_items m p fmt args = Some its \<Longrightarrow> list_all2 fmt_item fmt its"
proof (induction fmt arbitrary: p args its)
  case (Cons c fmt)
  have "arg_item m p c a = Some it \<Longrightarrow> fmt_item c it" for a it
  proof (cases a)
    case (WPtr src n)
    then show "arg_item m p c a = Some it \<Longrightarrow> fmt_item c it"
      using unsigned_less [of n, where ?'a = nat] unsigned_less [of "ucast n :: u16", where ?'a = nat]
      by (auto simp: arg_block_def split: if_splits option.splits)
  qed (simp split: if_split_asm; safe; simp)
  with Cons show ?case
    by (cases args) (auto split: bind_splits)
qed (metis arg_items.simps(1,4) list.exhaust list_all2_Nil option.discI option.inject)

lemma get_packet_size_packet:
  assumes "rd_bytes m p (length (packet_bytes its)) = packet_bytes its"
  shows "eluarpc_get_packet_size m p = (ELUARPC_OK, word_of_nat (length (packet_bytes its)))"
proof -
  let ?n = "word_of_nat (4 + length (packet_payload its)) :: u16"
  have "rd_bytes m p (length (TYPE_PKT_SIZE # TYPE_INT_16 # le16 ?n)) = TYPE_PKT_SIZE # TYPE_INT_16 # le16 ?n"
    using assms unfolding packet_bytes_def rd_bytes_append_iff by simp
  with rd_bytes_Cons_iff [of m p TYPE_PKT_SIZE "TYPE_INT_16 # le16 ?n"]
  have "m p = TYPE_PKT_SIZE" "rd_bytes m (Suc p) 3 = TYPE_INT_16 # le16 ?n"
    by simp_all
  then show ?thesis
    using u16c.dec_enc [of m "Suc p" ?n ELUARPC_OK]
    by (simp add: eluarpc_get_packet_size_def eluarpc_read_expect_def length_packet_bytes length_packet_payload)
qed

lemma get_request_id_packet:
  assumes "rd_bytes m (p + 4) (length (packet_payload (IOp i # its))) = packet_payload (IOp i # its)"
  shows "eluarpc_get_request_id m p = (ELUARPC_OK, i)"
proof -
  from assms have *: "eluarpc_match_packet_start m (p, ELUARPC_OK) = (p + 10, ELUARPC_OK)"
    and "rd_bytes m (p + 10) (length ([TYPE_OP_ID, i] @ items_bytes its)) = [TYPE_OP_ID, i] @ items_bytes its"
    unfolding rd_packet_payload eluarpc_match_packet_start_ok by simp_all
  then have "rd_bytes m (p + 10) (length [TYPE_OP_ID, i]) = [TYPE_OP_ID, i]"
    unfolding rd_bytes_append_iff by blast
  with * show ?thesis
    using opc.dec_enc [of m "p + 10" i ELUARPC_OK] by (simp add: eluarpc_get_request_id_def)
qed

lemma rd_packet_bytes_payload:
  "rd_bytes m p (length (packet_bytes its)) = packet_bytes its \<Longrightarrow>
   rd_bytes m (p + 4) (length (packet_payload its)) = packet_payload its"
  unfolding packet_bytes_def rd_bytes_append_iff by simp

section \<open>Properties\<close>

text \<open>C4. Whatever format string and arguments a packet is written with, if it fits below the end of the
  address space, the call returns, nothing
  outside the packet is touched, and reading it back with the same format and identifiers succeeds
  and yields the same values: integers by value, blocks by the address and length of their bytes in
  the packet. The size header holds the packet length modulo 65536.\<close>

theorem eluarpc_roundtrip:
  assumes "arg_items m (p + 10) fmt args = Some its" and "p + length (packet_bytes its) \<le> addr_limit"
  shows "\<exists>m'. eluarpc_gen_write m p fmt args = Some m' \<and>
      rd_bytes m' p (length (packet_bytes its)) = packet_bytes its \<and>
      (\<forall>x. x < p \<or> p + length (packet_bytes its) \<le> x \<longrightarrow> m' x = m x) \<and>
      eluarpc_gen_read m' p fmt (concat (map item_ids its)) = Some (ELUARPC_OK, items_out (p + 10) its) \<and>
      eluarpc_get_packet_size m' p = (ELUARPC_OK, word_of_nat (length (packet_bytes its)))"
proof -
  let ?m' = "wr_bytes m p (packet_bytes its)"
  have rd: "rd_bytes ?m' p (length (packet_bytes its)) = packet_bytes its"
    by (simp add: mem_simps)
  have "eluarpc_gen_read ?m' p fmt (concat (map item_ids its)) = Some (ELUARPC_OK, items_out (p + 10) its)"
    by (rule gen_read_payload [OF arg_items_fmt [OF assms(1)] _ rd_packet_bytes_payload [OF rd]])
      (use assms(2) in \<open>simp_all add: length_packet_bytes\<close>)
  then show ?thesis
    using gen_write_packet [OF assms] rd get_packet_size_packet [OF rd]
    by (intro exI [of _ ?m']) (simp add: mem_simps)
qed

definition rpc_demo_args :: "warg list" where
  "rpc_demo_args = [WInt 0x11, WPtr (Some [65, 66, 0]) 3, WInt 4, WInt 0x12345678]"

definition rpc_demo_items :: "item list" where
  "rpc_demo_items = [IOp 0x11, IPtr [65, 66, 0], I32 4, I32 0x12345678]"

theorem eluarpc_roundtrip_witness:
  "\<exists>m'. eluarpc_gen_write (\<lambda>_. 0) 100 ''opil'' rpc_demo_args = Some m' \<and>
      eluarpc_gen_read m' 100 ''opil'' [0x11] = Some (ELUARPC_OK, [VPtr (Some 118) 3, V32 4, V32 0x12345678]) \<and>
      rd_bytes m' 118 3 = [65, 66, 0] \<and> eluarpc_get_packet_size m' 100 = (ELUARPC_OK, 37)"
proof -
  have its: "arg_items (\<lambda>_. 0) (100 + 10) ''opil'' rpc_demo_args = Some rpc_demo_items"
    by (simp add: rpc_demo_args_def rpc_demo_items_def arg_block_def)
  have len: "length (packet_bytes rpc_demo_items) = 37"
    by (simp add: length_packet_bytes rpc_demo_items_def)
  have "slice 18 3 (packet_bytes rpc_demo_items) = [65, 66, 0]"
    by (simp add: packet_bytes_def packet_payload_def rpc_demo_items_def slice_def le16_def le32_def)
  with eluarpc_roundtrip [OF its] rd_bytes_sub [of _ 100 37 "packet_bytes rpc_demo_items" 18 3]
  show ?thesis
    unfolding len by (auto simp: rpc_demo_items_def addr_limit_def)
qed

text \<open>C5. The reader accepts exactly the packets of its format: it returns OK if and only if the
  memory holds the start signature, fields of the kinds the format names carrying the expected
  operation or response identifiers, and the end signature; any other memory gives an error. The
  values it then returns are those of the fields.\<close>

theorem eluarpc_gen_read_exact:
  assumes "set fmt \<subseteq> set ''orchlLipP''" and "p + 10 < addr_limit"
  shows "eluarpc_gen_read m p fmt ids = Some (ELUARPC_OK, vs) \<longleftrightarrow>
    (\<exists>its ids'. list_all2 fmt_item fmt its \<and> ids = concat (map item_ids its) @ ids' \<and>
       vs = items_out (p + 10) its \<and> p + 10 + length (items_bytes its) < addr_limit \<and>
       rd_bytes m (p + 4) (length (packet_payload its)) = packet_payload its)"
    (is "?l \<longleftrightarrow> ?r")
proof
  assume ?l
  then obtain q0 e0 q e where st: "eluarpc_match_packet_start m (p, ELUARPC_OK) = (q0, e0)"
    and body: "gen_read_body fmt ids m (q0, e0) = Some (vs, (q, e))"
    and fin: "snd (eluarpc_match_packet_end m (q, e)) = ELUARPC_OK"
    by (cases "eluarpc_match_packet_start m (p, ELUARPC_OK)")
      (auto simp: eluarpc_gen_read_def split: bind_splits)
  from fin body have "gen_read_body fmt ids m (q0, e0) = Some (vs, (q, ELUARPC_OK))"
    by (simp add: eluarpc_match_packet_end_ok)
  moreover have "q0 < addr_limit"
    using assms(2) st by (simp add: eluarpc_match_packet_start_def rpc_reader_defs rpc_sizes)
  ultimately obtain its ids' where e0: "e0 = ELUARPC_OK" "q < addr_limit"
    and its: "list_all2 fmt_item fmt its" "ids = concat (map item_ids its) @ ids'" "vs = items_out q0 its"
      "q = q0 + length (items_bytes its)" "rd_bytes m q0 (length (items_bytes its)) = items_bytes its"
    using gen_read_body_sound [OF _ assms(1)] by blast
  with st fin have "rd_bytes m (p + 4) (length (packet_payload its)) = packet_payload its" "q0 = p + 10"
    by (auto simp: rd_packet_payload eluarpc_match_packet_start_ok eluarpc_match_packet_end_ok)
  with its e0 show ?r by blast
next
  assume ?r
  then show ?l
    using gen_read_payload by blast
qed

theorem eluarpc_gen_read_exact_witness:
  "eluarpc_gen_read (wr_bytes (\<lambda>_. 0) 4 (packet_payload [IRes 0x11, I32 7])) 0 ''ri'' [0x11] = Some (ELUARPC_OK, [V32 7]) \<and>
   (\<forall>vs. eluarpc_gen_read (\<lambda>_. 0) 0 ''ri'' [0x11] \<noteq> Some (ELUARPC_OK, vs))"
proof
  have "rd_bytes (wr_bytes (\<lambda>_. 0) (0 + 4) (packet_payload [IRes 0x11, I32 7])) (0 + 4)
      (length (packet_payload [IRes 0x11, I32 7])) = packet_payload [IRes 0x11, I32 7]"
    by (rule rd_wr_bytes_same) simp
  then show "eluarpc_gen_read (wr_bytes (\<lambda>_. 0) 4 (packet_payload [IRes 0x11, I32 7])) 0 ''ri'' [0x11] =
      Some (ELUARPC_OK, [V32 7])"
    by (subst eluarpc_gen_read_exact, simp, simp add: addr_limit_def, intro exI [of _ "[IRes 0x11, I32 7]"] exI [of _ "[]"])
      (simp add: addr_limit_def)
  have "rd_bytes (\<lambda>_. 0) (0 + 4) 6 \<noteq> TYPE_START # TYPE_INT_32 # le32 PACKET_SIG"
    by (simp add: rd_bytes_def upt_rec TYPE_START_def)
  then show "\<forall>vs. eluarpc_gen_read (\<lambda>_. 0) 0 ''ri'' [0x11] \<noteq> Some (ELUARPC_OK, vs)"
    by (simp add: eluarpc_gen_read_exact addr_limit_def rd_packet_payload [where p = 0, simplified])
qed

end
