(* ===== verification/Remotefs.thy ===== *)
theory Remotefs
  imports Eluarpc
begin

text \<open>
  The message formats of the remote file system (\<open>src/src/remotefs/remotefs.c\<close>): for each of the
  eight operations a writer and a reader for the request and for the response. A reader returns the
  error flag and what it stores through its pointers, as \<open>eluarpc_gen_read\<close> does. The theory gives
  the field list of every message and shows that a written message is read back with the same
  fields. It also holds the flag constants and their translation (\<open>elua_os_io.c\<close>,
  \<open>os_io_posix.c\<close>).
\<close>

section \<open>Operations\<close>

definition RFS_OP_OPEN :: u8 where "RFS_OP_OPEN = 0x01"
definition RFS_OP_FIRST :: u8 where "RFS_OP_FIRST = RFS_OP_OPEN"
definition RFS_OP_WRITE :: u8 where "RFS_OP_WRITE = 0x02"
definition RFS_OP_READ :: u8 where "RFS_OP_READ = 0x03"
definition RFS_OP_CLOSE :: u8 where "RFS_OP_CLOSE = 0x04"
definition RFS_OP_LSEEK :: u8 where "RFS_OP_LSEEK = 0x05"
definition RFS_OP_OPENDIR :: u8 where "RFS_OP_OPENDIR = 0x06"
definition RFS_OP_READDIR :: u8 where "RFS_OP_READDIR = 0x07"
definition RFS_OP_CLOSEDIR :: u8 where "RFS_OP_CLOSEDIR = 0x08"
definition RFS_OP_LAST :: u8 where "RFS_OP_LAST = RFS_OP_CLOSEDIR"

lemmas rfs_ops = RFS_OP_OPEN_def RFS_OP_FIRST_def RFS_OP_WRITE_def RFS_OP_READ_def RFS_OP_CLOSE_def
  RFS_OP_LSEEK_def RFS_OP_OPENDIR_def RFS_OP_READDIR_def RFS_OP_CLOSEDIR_def RFS_OP_LAST_def

definition RFS_MAX_FNAME_SIZE :: nat where "RFS_MAX_FNAME_SIZE = 31"

text \<open>A C string is passed as the address of its characters and a terminating zero; \<open>s\<close> is the list
  of its characters.\<close>

definition wstr :: "u8 list \<Rightarrow> warg" where
  "wstr s = WPtr (Some (s @ [0])) (word_of_nat (length s + 1))"

abbreviation wop :: "u8 \<Rightarrow> warg" where
  "wop i \<equiv> WInt (ucast i)"

definition remotefs_open_write_response :: "mem \<Rightarrow> nat \<Rightarrow> u32 \<Rightarrow> mem option" where
  "remotefs_open_write_response m p result = eluarpc_gen_write m p ''ri'' [wop RFS_OP_OPEN, WInt result]"

definition remotefs_open_read_response :: "mem \<Rightarrow> nat \<Rightarrow> (u8 \<times> rval list) option" where
  "remotefs_open_read_response m p = eluarpc_gen_read m p ''ri'' [RFS_OP_OPEN]"

definition remotefs_open_write_request :: "mem \<Rightarrow> nat \<Rightarrow> u8 list \<Rightarrow> u32 \<Rightarrow> u32 \<Rightarrow> mem option" where
  "remotefs_open_write_request m p pathname flags mode =
     eluarpc_gen_write m p ''opii'' [wop RFS_OP_OPEN, wstr pathname, WInt flags, WInt mode]"

definition remotefs_open_read_request :: "mem \<Rightarrow> nat \<Rightarrow> (u8 \<times> rval list) option" where
  "remotefs_open_read_request m p = eluarpc_gen_read m p ''opii'' [RFS_OP_OPEN]"

definition remotefs_write_write_response :: "mem \<Rightarrow> nat \<Rightarrow> u32 \<Rightarrow> mem option" where
  "remotefs_write_write_response m p result = eluarpc_gen_write m p ''rl'' [wop RFS_OP_WRITE, WInt result]"

definition remotefs_write_read_response :: "mem \<Rightarrow> nat \<Rightarrow> (u8 \<times> rval list) option" where
  "remotefs_write_read_response m p = eluarpc_gen_read m p ''rl'' [RFS_OP_WRITE]"

definition remotefs_write_write_request :: "mem \<Rightarrow> nat \<Rightarrow> u32 \<Rightarrow> u8 list \<Rightarrow> u32 \<Rightarrow> mem option" where
  "remotefs_write_write_request m p fd buf cnt =
     eluarpc_gen_write m p ''oip'' [wop RFS_OP_WRITE, WInt fd, WPtr (Some buf) cnt]"

definition remotefs_write_read_request :: "mem \<Rightarrow> nat \<Rightarrow> (u8 \<times> rval list) option" where
  "remotefs_write_read_request m p = eluarpc_gen_read m p ''oip'' [RFS_OP_WRITE]"

text \<open>The data of a read response is already in the packet: the pointer is NULL.\<close>

definition remotefs_read_write_response :: "mem \<Rightarrow> nat \<Rightarrow> u32 \<Rightarrow> mem option" where
  "remotefs_read_write_response m p readbytes =
     eluarpc_gen_write m p ''rp'' [wop RFS_OP_READ, WPtr None readbytes]"

definition remotefs_read_read_response :: "mem \<Rightarrow> nat \<Rightarrow> (u8 \<times> rval list) option" where
  "remotefs_read_read_response m p = eluarpc_gen_read m p ''rp'' [RFS_OP_READ]"

definition remotefs_read_write_request :: "mem \<Rightarrow> nat \<Rightarrow> u32 \<Rightarrow> u32 \<Rightarrow> mem option" where
  "remotefs_read_write_request m p fd cnt =
     eluarpc_gen_write m p ''oil'' [wop RFS_OP_READ, WInt fd, WInt cnt]"

definition remotefs_read_read_request :: "mem \<Rightarrow> nat \<Rightarrow> (u8 \<times> rval list) option" where
  "remotefs_read_read_request m p = eluarpc_gen_read m p ''oil'' [RFS_OP_READ]"

definition remotefs_close_write_response :: "mem \<Rightarrow> nat \<Rightarrow> u32 \<Rightarrow> mem option" where
  "remotefs_close_write_response m p result = eluarpc_gen_write m p ''ri'' [wop RFS_OP_CLOSE, WInt result]"

definition remotefs_close_read_response :: "mem \<Rightarrow> nat \<Rightarrow> (u8 \<times> rval list) option" where
  "remotefs_close_read_response m p = eluarpc_gen_read m p ''ri'' [RFS_OP_CLOSE]"

definition remotefs_close_write_request :: "mem \<Rightarrow> nat \<Rightarrow> u32 \<Rightarrow> mem option" where
  "remotefs_close_write_request m p fd = eluarpc_gen_write m p ''oi'' [wop RFS_OP_CLOSE, WInt fd]"

definition remotefs_close_read_request :: "mem \<Rightarrow> nat \<Rightarrow> (u8 \<times> rval list) option" where
  "remotefs_close_read_request m p = eluarpc_gen_read m p ''oi'' [RFS_OP_CLOSE]"

definition remotefs_lseek_write_response :: "mem \<Rightarrow> nat \<Rightarrow> u32 \<Rightarrow> mem option" where
  "remotefs_lseek_write_response m p result = eluarpc_gen_write m p ''rL'' [wop RFS_OP_LSEEK, WInt result]"

definition remotefs_lseek_read_response :: "mem \<Rightarrow> nat \<Rightarrow> (u8 \<times> rval list) option" where
  "remotefs_lseek_read_response m p = eluarpc_gen_read m p ''rL'' [RFS_OP_LSEEK]"

definition remotefs_lseek_write_request :: "mem \<Rightarrow> nat \<Rightarrow> u32 \<Rightarrow> u32 \<Rightarrow> u32 \<Rightarrow> mem option" where
  "remotefs_lseek_write_request m p fd offset whence =
     eluarpc_gen_write m p ''oiLi'' [wop RFS_OP_LSEEK, WInt fd, WInt offset, WInt whence]"

definition remotefs_lseek_read_request :: "mem \<Rightarrow> nat \<Rightarrow> (u8 \<times> rval list) option" where
  "remotefs_lseek_read_request m p = eluarpc_gen_read m p ''oiLi'' [RFS_OP_LSEEK]"

definition remotefs_opendir_write_response :: "mem \<Rightarrow> nat \<Rightarrow> u32 \<Rightarrow> mem option" where
  "remotefs_opendir_write_response m p d = eluarpc_gen_write m p ''rl'' [wop RFS_OP_OPENDIR, WInt d]"

definition remotefs_opendir_read_response :: "mem \<Rightarrow> nat \<Rightarrow> (u8 \<times> rval list) option" where
  "remotefs_opendir_read_response m p = eluarpc_gen_read m p ''rl'' [RFS_OP_OPENDIR]"

definition remotefs_opendir_write_request :: "mem \<Rightarrow> nat \<Rightarrow> u8 list \<Rightarrow> mem option" where
  "remotefs_opendir_write_request m p name = eluarpc_gen_write m p ''op'' [wop RFS_OP_OPENDIR, wstr name]"

definition remotefs_opendir_read_request :: "mem \<Rightarrow> nat \<Rightarrow> (u8 \<times> rval list) option" where
  "remotefs_opendir_read_request m p = eluarpc_gen_read m p ''op'' [RFS_OP_OPENDIR]"

definition remotefs_readdir_write_response :: "mem \<Rightarrow> nat \<Rightarrow> u8 list option \<Rightarrow> u32 \<Rightarrow> u32 \<Rightarrow> mem option" where
  "remotefs_readdir_write_response m p name fsize ftime =
     eluarpc_gen_write m p ''rpll''
       [wop RFS_OP_READDIR, (case name of None \<Rightarrow> WPtr None 0 | Some s \<Rightarrow> wstr s), WInt fsize, WInt ftime]"

definition remotefs_readdir_read_response :: "mem \<Rightarrow> nat \<Rightarrow> (u8 \<times> rval list) option" where
  "remotefs_readdir_read_response m p = eluarpc_gen_read m p ''rpll'' [RFS_OP_READDIR]"

definition remotefs_readdir_write_request :: "mem \<Rightarrow> nat \<Rightarrow> u32 \<Rightarrow> mem option" where
  "remotefs_readdir_write_request m p d = eluarpc_gen_write m p ''ol'' [wop RFS_OP_READDIR, WInt d]"

definition remotefs_readdir_read_request :: "mem \<Rightarrow> nat \<Rightarrow> (u8 \<times> rval list) option" where
  "remotefs_readdir_read_request m p = eluarpc_gen_read m p ''ol'' [RFS_OP_READDIR]"

definition remotefs_closedir_write_response :: "mem \<Rightarrow> nat \<Rightarrow> u32 \<Rightarrow> mem option" where
  "remotefs_closedir_write_response m p d = eluarpc_gen_write m p ''ri'' [wop RFS_OP_CLOSEDIR, WInt d]"

definition remotefs_closedir_read_response :: "mem \<Rightarrow> nat \<Rightarrow> (u8 \<times> rval list) option" where
  "remotefs_closedir_read_response m p = eluarpc_gen_read m p ''ri'' [RFS_OP_CLOSEDIR]"

definition remotefs_closedir_write_request :: "mem \<Rightarrow> nat \<Rightarrow> u32 \<Rightarrow> mem option" where
  "remotefs_closedir_write_request m p d = eluarpc_gen_write m p ''ol'' [wop RFS_OP_CLOSEDIR, WInt d]"

definition remotefs_closedir_read_request :: "mem \<Rightarrow> nat \<Rightarrow> (u8 \<times> rval list) option" where
  "remotefs_closedir_read_request m p = eluarpc_gen_read m p ''ol'' [RFS_OP_CLOSEDIR]"

lemmas rfs_write_defs = remotefs_open_write_response_def remotefs_open_write_request_def
  remotefs_write_write_response_def remotefs_write_write_request_def
  remotefs_read_write_response_def remotefs_read_write_request_def
  remotefs_close_write_response_def remotefs_close_write_request_def
  remotefs_lseek_write_response_def remotefs_lseek_write_request_def
  remotefs_opendir_write_response_def remotefs_opendir_write_request_def
  remotefs_readdir_write_response_def remotefs_readdir_write_request_def
  remotefs_closedir_write_response_def remotefs_closedir_write_request_def

lemmas rfs_read_defs = remotefs_open_read_response_def remotefs_open_read_request_def
  remotefs_write_read_response_def remotefs_write_read_request_def
  remotefs_read_read_response_def remotefs_read_read_request_def
  remotefs_close_read_response_def remotefs_close_read_request_def
  remotefs_lseek_read_response_def remotefs_lseek_read_request_def
  remotefs_opendir_read_response_def remotefs_opendir_read_request_def
  remotefs_readdir_read_response_def remotefs_readdir_read_request_def
  remotefs_closedir_read_response_def remotefs_closedir_read_request_def

section \<open>Flags and seek modes\<close>

definition RFS_OPEN_FLAG_APPEND :: u32 where "RFS_OPEN_FLAG_APPEND = 0x01"
definition RFS_OPEN_FLAG_CREAT :: u32 where "RFS_OPEN_FLAG_CREAT = 0x02"
definition RFS_OPEN_FLAG_EXCL :: u32 where "RFS_OPEN_FLAG_EXCL = 0x04"
definition RFS_OPEN_FLAG_TRUNC :: u32 where "RFS_OPEN_FLAG_TRUNC = 0x08"
definition RFS_OPEN_FLAG_SYNC :: u32 where "RFS_OPEN_FLAG_SYNC = 0x10"
definition RFS_OPEN_FLAG_RDONLY :: u32 where "RFS_OPEN_FLAG_RDONLY = 0x20"
definition RFS_OPEN_FLAG_WRONLY :: u32 where "RFS_OPEN_FLAG_WRONLY = 0x40"
definition RFS_OPEN_FLAG_RDWR :: u32 where "RFS_OPEN_FLAG_RDWR = 0x80"
definition RFS_LSEEK_SET :: u32 where "RFS_LSEEK_SET = 0x01"
definition RFS_LSEEK_CUR :: u32 where "RFS_LSEEK_CUR = 0x02"
definition RFS_LSEEK_END :: u32 where "RFS_LSEEK_END = 0x03"

lemmas rfs_flags = RFS_OPEN_FLAG_APPEND_def RFS_OPEN_FLAG_CREAT_def RFS_OPEN_FLAG_EXCL_def
  RFS_OPEN_FLAG_TRUNC_def RFS_OPEN_FLAG_SYNC_def RFS_OPEN_FLAG_RDONLY_def RFS_OPEN_FLAG_WRONLY_def
  RFS_OPEN_FLAG_RDWR_def

lemmas rfs_whence = RFS_LSEEK_SET_def RFS_LSEEK_CUR_def RFS_LSEEK_END_def

text \<open>On the device, \<open>elua_os_io.c\<close>; the same function text is in \<open>os_io_posix.c\<close>.\<close>

definition os_open_sys_flags_to_rfs_flags :: "os_consts \<Rightarrow> u32 \<Rightarrow> u32" where
  "os_open_sys_flags_to_rfs_flags k sysflags =
     eluarpc_replace_flag sysflags (O_APPEND k) RFS_OPEN_FLAG_APPEND
     OR eluarpc_replace_flag sysflags (O_CREAT k) RFS_OPEN_FLAG_CREAT
     OR eluarpc_replace_flag sysflags (O_EXCL k) RFS_OPEN_FLAG_EXCL
     OR eluarpc_replace_flag sysflags (O_TRUNC k) RFS_OPEN_FLAG_TRUNC
     OR eluarpc_replace_flag sysflags (O_SYNC k) RFS_OPEN_FLAG_SYNC
     OR eluarpc_replace_flag sysflags (O_RDONLY k) RFS_OPEN_FLAG_RDONLY
     OR eluarpc_replace_flag sysflags (O_WRONLY k) RFS_OPEN_FLAG_WRONLY
     OR eluarpc_replace_flag sysflags (O_RDWR k) RFS_OPEN_FLAG_RDWR"

definition os_lseek_sys_whence_to_rfs_whence :: "os_consts \<Rightarrow> u32 \<Rightarrow> u32" where
  "os_lseek_sys_whence_to_rfs_whence k syswhence =
     (if syswhence = SEEK_SET k then RFS_LSEEK_SET
      else if syswhence = SEEK_CUR k then RFS_LSEEK_CUR
      else if syswhence = SEEK_END k then RFS_LSEEK_END
      else 0)"

text \<open>The translation in \<open>os_open\<close> on the server.\<close>

definition os_open_realflags :: "os_consts \<Rightarrow> u32 \<Rightarrow> u32" where
  "os_open_realflags k flags =
     eluarpc_replace_flag flags RFS_OPEN_FLAG_APPEND (O_APPEND k)
     OR eluarpc_replace_flag flags RFS_OPEN_FLAG_CREAT (O_CREAT k)
     OR eluarpc_replace_flag flags RFS_OPEN_FLAG_EXCL (O_EXCL k)
     OR eluarpc_replace_flag flags RFS_OPEN_FLAG_TRUNC (O_TRUNC k)
     OR eluarpc_replace_flag flags RFS_OPEN_FLAG_SYNC (O_SYNC k)
     OR eluarpc_replace_flag flags RFS_OPEN_FLAG_RDONLY (O_RDONLY k)
     OR eluarpc_replace_flag flags RFS_OPEN_FLAG_WRONLY (O_WRONLY k)
     OR eluarpc_replace_flag flags RFS_OPEN_FLAG_RDWR (O_RDWR k)"

section \<open>Messages\<close>

text \<open>The memory at \<open>p\<close> holds the packet with these fields, within the address space.\<close>

definition has_packet :: "mem \<Rightarrow> nat \<Rightarrow> item list \<Rightarrow> bool" where
  "has_packet m p its \<longleftrightarrow> p + length (packet_bytes its) \<le> addr_limit \<and>
     rd_bytes m p (length (packet_bytes its)) = packet_bytes its"

lemma has_packet_wr:
  "p + length (packet_bytes its) \<le> addr_limit \<Longrightarrow> has_packet (wr_bytes m p (packet_bytes its)) p its"
  by (simp add: has_packet_def mem_simps)

lemma gen_read_has_packet:
  assumes "has_packet m p its" and "list_all2 fmt_item fmt its" and "ids = concat (map item_ids its)"
  shows "eluarpc_gen_read m p fmt ids = Some (ELUARPC_OK, items_out (p + 10) its)"
  using assms gen_read_payload [of fmt its ids "[]" m p] rd_packet_bytes_payload [of m p its]
  by (simp add: has_packet_def length_packet_bytes)

lemma get_packet_size_has_packet:
  "has_packet m p its \<Longrightarrow> eluarpc_get_packet_size m p = (ELUARPC_OK, word_of_nat (length (packet_bytes its)))"
  by (simp add: has_packet_def get_packet_size_packet)

lemma get_request_id_has_packet:
  "has_packet m p (IOp i # its) \<Longrightarrow> eluarpc_get_request_id m p = (ELUARPC_OK, i)"
  using get_request_id_packet [of m p i its] rd_packet_bytes_payload [of m p "IOp i # its"]
  by (simp add: has_packet_def)

lemma has_packet_block:
  assumes "has_packet m p (its @ IPtr bs # its')"
  shows "rd_bytes m (p + 16 + length (items_bytes its)) (length bs) = bs"
proof -
  from assms have "rd_bytes m (p + 10) (length (items_bytes (its @ IPtr bs # its'))) = items_bytes (its @ IPtr bs # its')"
    using rd_packet_bytes_payload [of m p] by (simp only: has_packet_def rd_packet_payload)
  then have "rd_bytes m (p + 10 + length (items_bytes its)) (length (item_bytes (IPtr bs))) = item_bytes (IPtr bs)"
    unfolding items_bytes_simps rd_bytes_append_iff by blast
  then show ?thesis
    unfolding rd_ptr_item by (simp add: add_ac)
qed

text \<open>The fields of every request and response.\<close>

definition open_req :: "u8 list \<Rightarrow> u32 \<Rightarrow> u32 \<Rightarrow> item list" where
  "open_req path flags mode = [IOp RFS_OP_OPEN, IPtr (path @ [0]), I32 flags, I32 mode]"

definition write_req :: "u32 \<Rightarrow> u8 list \<Rightarrow> item list" where
  "write_req fd data = [IOp RFS_OP_WRITE, I32 fd, IPtr data]"

definition read_req :: "u32 \<Rightarrow> u32 \<Rightarrow> item list" where
  "read_req fd cnt = [IOp RFS_OP_READ, I32 fd, I32 cnt]"

definition close_req :: "u32 \<Rightarrow> item list" where
  "close_req fd = [IOp RFS_OP_CLOSE, I32 fd]"

definition lseek_req :: "u32 \<Rightarrow> u32 \<Rightarrow> u32 \<Rightarrow> item list" where
  "lseek_req fd offset whence = [IOp RFS_OP_LSEEK, I32 fd, I32 offset, I32 whence]"

definition opendir_req :: "u8 list \<Rightarrow> item list" where
  "opendir_req name = [IOp RFS_OP_OPENDIR, IPtr (name @ [0])]"

definition readdir_req :: "u32 \<Rightarrow> item list" where
  "readdir_req d = [IOp RFS_OP_READDIR, I32 d]"

definition closedir_req :: "u32 \<Rightarrow> item list" where
  "closedir_req d = [IOp RFS_OP_CLOSEDIR, I32 d]"

definition int_resp :: "u8 \<Rightarrow> u32 \<Rightarrow> item list" where
  "int_resp opid result = [IRes opid, I32 result]"

definition read_resp :: "u8 list \<Rightarrow> item list" where
  "read_resp data = [IRes RFS_OP_READ, IPtr data]"

definition readdir_resp :: "u8 list option \<Rightarrow> u32 \<Rightarrow> u32 \<Rightarrow> item list" where
  "readdir_resp name fsize ftime =
     [IRes RFS_OP_READDIR, IPtr (case name of None \<Rightarrow> [] | Some s \<Rightarrow> s @ [0]), I32 fsize, I32 ftime]"

lemmas rfs_msgs = open_req_def write_req_def read_req_def close_req_def lseek_req_def opendir_req_def
  readdir_req_def closedir_req_def int_resp_def read_resp_def readdir_resp_def

lemma ucast_u8_u32 [simp]: "ucast (ucast (b :: u8) :: u32) = b"
  by (rule bit_word_eqI) (simp add: bit_simps)

lemma arg_items_wstr [simp]:
  "length s + 1 < 2 ^ 32 \<Longrightarrow> arg_item m p (CHR ''p'') (wstr s) = Some (IPtr (s @ [0]))"
  using unat_of_nat_less [where 'a = 32, of "length s + 1"] by (simp add: wstr_def arg_block_def)

lemma rfs_write_requests:
  "length path + 1 < 2 ^ 32 \<Longrightarrow> p + length (packet_bytes (open_req path flags mode)) \<le> addr_limit \<Longrightarrow>
   remotefs_open_write_request m p path flags mode = Some (wr_bytes m p (packet_bytes (open_req path flags mode)))"
  "length data = unat cnt \<Longrightarrow> p + length (packet_bytes (write_req fd data)) \<le> addr_limit \<Longrightarrow>
   remotefs_write_write_request m p fd data cnt = Some (wr_bytes m p (packet_bytes (write_req fd data)))"
  "p + length (packet_bytes (read_req fd cnt)) \<le> addr_limit \<Longrightarrow>
   remotefs_read_write_request m p fd cnt = Some (wr_bytes m p (packet_bytes (read_req fd cnt)))"
  "p + length (packet_bytes (close_req fd)) \<le> addr_limit \<Longrightarrow>
   remotefs_close_write_request m p fd = Some (wr_bytes m p (packet_bytes (close_req fd)))"
  "p + length (packet_bytes (lseek_req fd offset whence)) \<le> addr_limit \<Longrightarrow>
   remotefs_lseek_write_request m p fd offset whence = Some (wr_bytes m p (packet_bytes (lseek_req fd offset whence)))"
  "length path + 1 < 2 ^ 32 \<Longrightarrow> p + length (packet_bytes (opendir_req path)) \<le> addr_limit \<Longrightarrow>
   remotefs_opendir_write_request m p path = Some (wr_bytes m p (packet_bytes (opendir_req path)))"
  "p + length (packet_bytes (readdir_req d)) \<le> addr_limit \<Longrightarrow>
   remotefs_readdir_write_request m p d = Some (wr_bytes m p (packet_bytes (readdir_req d)))"
  "p + length (packet_bytes (closedir_req d)) \<le> addr_limit \<Longrightarrow>
   remotefs_closedir_write_request m p d = Some (wr_bytes m p (packet_bytes (closedir_req d)))"
  unfolding rfs_write_defs rfs_msgs by (rule gen_write_packet; simp add: arg_block_def)+

lemma rfs_write_responses:
  "p + length (packet_bytes (int_resp RFS_OP_OPEN r)) \<le> addr_limit \<Longrightarrow>
   remotefs_open_write_response m p r = Some (wr_bytes m p (packet_bytes (int_resp RFS_OP_OPEN r)))"
  "p + length (packet_bytes (int_resp RFS_OP_WRITE r)) \<le> addr_limit \<Longrightarrow>
   remotefs_write_write_response m p r = Some (wr_bytes m p (packet_bytes (int_resp RFS_OP_WRITE r)))"
  "p + length (packet_bytes (read_resp (rd_bytes m (p + 17) (unat r)))) \<le> addr_limit \<Longrightarrow>
   remotefs_read_write_response m p r = Some (wr_bytes m p (packet_bytes (read_resp (rd_bytes m (p + 17) (unat r)))))"
  "p + length (packet_bytes (int_resp RFS_OP_CLOSE r)) \<le> addr_limit \<Longrightarrow>
   remotefs_close_write_response m p r = Some (wr_bytes m p (packet_bytes (int_resp RFS_OP_CLOSE r)))"
  "p + length (packet_bytes (int_resp RFS_OP_LSEEK r)) \<le> addr_limit \<Longrightarrow>
   remotefs_lseek_write_response m p r = Some (wr_bytes m p (packet_bytes (int_resp RFS_OP_LSEEK r)))"
  "p + length (packet_bytes (int_resp RFS_OP_OPENDIR r)) \<le> addr_limit \<Longrightarrow>
   remotefs_opendir_write_response m p r = Some (wr_bytes m p (packet_bytes (int_resp RFS_OP_OPENDIR r)))"
  "p + length (packet_bytes (int_resp RFS_OP_CLOSEDIR r)) \<le> addr_limit \<Longrightarrow>
   remotefs_closedir_write_response m p r = Some (wr_bytes m p (packet_bytes (int_resp RFS_OP_CLOSEDIR r)))"
  unfolding rfs_write_defs rfs_msgs by (rule gen_write_packet; simp add: arg_block_def add.commute)+

lemma rfs_write_readdir_response:
  "(case name of None \<Rightarrow> True | Some s \<Rightarrow> length s + 1 < 2 ^ 32) \<Longrightarrow>
   p + length (packet_bytes (readdir_resp name fsize ftime)) \<le> addr_limit \<Longrightarrow>
   remotefs_readdir_write_response m p name fsize ftime =
     Some (wr_bytes m p (packet_bytes (readdir_resp name fsize ftime)))"
  unfolding rfs_write_defs rfs_msgs
  by (rule gen_write_packet; cases name; simp add: arg_block_def)

text \<open>The address of a block in a message: behind its tag and length.\<close>

definition blk :: "nat \<Rightarrow> u8 list \<Rightarrow> nat option" where
  "blk a bs = (if bs = [] then None else Some a)"

lemma rfs_read_requests:
  "has_packet m p (open_req path flags mode) \<Longrightarrow> length path + 1 < 2 ^ 32 \<Longrightarrow>
   remotefs_open_read_request m p = Some (ELUARPC_OK, [VPtr (Some (p + 18)) (word_of_nat (length path + 1)), V32 flags, V32 mode])"
  "has_packet m p (write_req fd data) \<Longrightarrow> length data < 2 ^ 32 \<Longrightarrow>
   remotefs_write_read_request m p = Some (ELUARPC_OK, [V32 fd, VPtr (blk (p + 23) data) (word_of_nat (length data))])"
  "has_packet m p (read_req fd cnt) \<Longrightarrow> remotefs_read_read_request m p = Some (ELUARPC_OK, [V32 fd, V32 cnt])"
  "has_packet m p (close_req fd) \<Longrightarrow> remotefs_close_read_request m p = Some (ELUARPC_OK, [V32 fd])"
  "has_packet m p (lseek_req fd offset whence) \<Longrightarrow>
   remotefs_lseek_read_request m p = Some (ELUARPC_OK, [V32 fd, V32 offset, V32 whence])"
  "has_packet m p (opendir_req path) \<Longrightarrow> length path + 1 < 2 ^ 32 \<Longrightarrow>
   remotefs_opendir_read_request m p = Some (ELUARPC_OK, [VPtr (Some (p + 18)) (word_of_nat (length path + 1))])"
  "has_packet m p (readdir_req d) \<Longrightarrow> remotefs_readdir_read_request m p = Some (ELUARPC_OK, [V32 d])"
  "has_packet m p (closedir_req d) \<Longrightarrow> remotefs_closedir_read_request m p = Some (ELUARPC_OK, [V32 d])"
  unfolding rfs_read_defs rfs_msgs
  by (subst gen_read_has_packet, assumption; simp add: blk_def)+

lemma rfs_read_responses:
  "has_packet m p (int_resp RFS_OP_OPEN r) \<Longrightarrow> remotefs_open_read_response m p = Some (ELUARPC_OK, [V32 r])"
  "has_packet m p (int_resp RFS_OP_WRITE r) \<Longrightarrow> remotefs_write_read_response m p = Some (ELUARPC_OK, [V32 r])"
  "has_packet m p (read_resp data) \<Longrightarrow> length data < 2 ^ 32 \<Longrightarrow>
   remotefs_read_read_response m p = Some (ELUARPC_OK, [VPtr (blk (p + 17) data) (word_of_nat (length data))])"
  "has_packet m p (int_resp RFS_OP_CLOSE r) \<Longrightarrow> remotefs_close_read_response m p = Some (ELUARPC_OK, [V32 r])"
  "has_packet m p (int_resp RFS_OP_LSEEK r) \<Longrightarrow> remotefs_lseek_read_response m p = Some (ELUARPC_OK, [V32 r])"
  "has_packet m p (int_resp RFS_OP_OPENDIR r) \<Longrightarrow> remotefs_opendir_read_response m p = Some (ELUARPC_OK, [V32 r])"
  "has_packet m p (int_resp RFS_OP_CLOSEDIR r) \<Longrightarrow> remotefs_closedir_read_response m p = Some (ELUARPC_OK, [V32 r])"
  unfolding rfs_read_defs rfs_msgs
  by (subst gen_read_has_packet, assumption; simp add: blk_def)+

lemma rfs_read_readdir_response:
  "has_packet m p (readdir_resp name fsize ftime) \<Longrightarrow>
   (case name of None \<Rightarrow> True | Some s \<Rightarrow> length s + 1 < 2 ^ 32) \<Longrightarrow>
   remotefs_readdir_read_response m p =
     Some (ELUARPC_OK, [VPtr (if name = None then None else Some (p + 17))
        (case name of None \<Rightarrow> 0 | Some s \<Rightarrow> word_of_nat (length s + 1)), V32 fsize, V32 ftime])"
  unfolding rfs_read_defs rfs_msgs
  by (subst gen_read_has_packet, assumption; cases name; simp)

section \<open>Flag translation\<close>

lemma replace_flag_bit: "eluarpc_replace_flag v (2 ^ k) new = (if bit v k then new else 0)"
  by (simp add: eluarpc_replace_flag_def bit_iff_and_push_bit_not_eq_0 push_bit_eq_mult)

text \<open>The open flags survive the trip from the device's C library through the RFS encoding to
  the server's C library: whatever values the two sides give the constants, the server opens the
  file with exactly the server's constant for each of the device's constants that is set.\<close>

theorem rfs_flags_translation:
  "os_open_realflags srv (os_open_sys_flags_to_rfs_flags dev flags) =
     (if flags AND O_APPEND dev \<noteq> 0 then O_APPEND srv else 0)
     OR (if flags AND O_CREAT dev \<noteq> 0 then O_CREAT srv else 0)
     OR (if flags AND O_EXCL dev \<noteq> 0 then O_EXCL srv else 0)
     OR (if flags AND O_TRUNC dev \<noteq> 0 then O_TRUNC srv else 0)
     OR (if flags AND O_SYNC dev \<noteq> 0 then O_SYNC srv else 0)
     OR (if flags AND O_RDONLY dev \<noteq> 0 then O_RDONLY srv else 0)
     OR (if flags AND O_WRONLY dev \<noteq> 0 then O_WRONLY srv else 0)
     OR (if flags AND O_RDWR dev \<noteq> 0 then O_RDWR srv else 0)"
proof -
  have rep: "eluarpc_replace_flag v 0x01 n = (if bit v 0 then n else 0)"
    "eluarpc_replace_flag v 0x02 n = (if bit v 1 then n else 0)"
    "eluarpc_replace_flag v 0x04 n = (if bit v 2 then n else 0)"
    "eluarpc_replace_flag v 0x08 n = (if bit v 3 then n else 0)"
    "eluarpc_replace_flag v 0x10 n = (if bit v 4 then n else 0)"
    "eluarpc_replace_flag v 0x20 n = (if bit v 5 then n else 0)"
    "eluarpc_replace_flag v 0x40 n = (if bit v 6 then n else 0)"
    "eluarpc_replace_flag v 0x80 n = (if bit v 7 then n else 0)" for v n
    using replace_flag_bit [of v 0 n] replace_flag_bit [of v 1 n] replace_flag_bit [of v 2 n]
      replace_flag_bit [of v 3 n] replace_flag_bit [of v 4 n] replace_flag_bit [of v 5 n]
      replace_flag_bit [of v 6 n] replace_flag_bit [of v 7 n]
    by simp_all
  have bits: "bit (os_open_sys_flags_to_rfs_flags dev flags) 0 \<longleftrightarrow> flags AND O_APPEND dev \<noteq> 0"
    "bit (os_open_sys_flags_to_rfs_flags dev flags) 1 \<longleftrightarrow> flags AND O_CREAT dev \<noteq> 0"
    "bit (os_open_sys_flags_to_rfs_flags dev flags) 2 \<longleftrightarrow> flags AND O_EXCL dev \<noteq> 0"
    "bit (os_open_sys_flags_to_rfs_flags dev flags) 3 \<longleftrightarrow> flags AND O_TRUNC dev \<noteq> 0"
    "bit (os_open_sys_flags_to_rfs_flags dev flags) 4 \<longleftrightarrow> flags AND O_SYNC dev \<noteq> 0"
    "bit (os_open_sys_flags_to_rfs_flags dev flags) 5 \<longleftrightarrow> flags AND O_RDONLY dev \<noteq> 0"
    "bit (os_open_sys_flags_to_rfs_flags dev flags) 6 \<longleftrightarrow> flags AND O_WRONLY dev \<noteq> 0"
    "bit (os_open_sys_flags_to_rfs_flags dev flags) 7 \<longleftrightarrow> flags AND O_RDWR dev \<noteq> 0"
    by (simp_all add: os_open_sys_flags_to_rfs_flags_def eluarpc_replace_flag_def rfs_flags bit_simps)
  show ?thesis
    unfolding os_open_realflags_def rfs_flags rep bits ..
qed

end
