(* ===== verification/Rfs_Server.thy ===== *)
theory Rfs_Server
  imports Remotefs
begin

text \<open>
  The remote file system server (\<open>src/rfs_server_src/server.c\<close>) over the POSIX calls
  (\<open>os_io_posix.c\<close>), and the byte-wise memory transport that the multiplexer feeds it through
  (\<open>rfs_transports.c\<close>). The POSIX calls themselves are a parameter: functions on a state \<open>'w\<close> of the
  host's file system. The theory gives an abstract server on decoded requests and shows that the
  packet-level server implements it.
\<close>

section \<open>The operating system interface\<close>

record 'w posix =
  px_consts :: os_consts
  px_open :: "u8 list \<Rightarrow> u32 \<Rightarrow> u32 \<Rightarrow> 'w \<Rightarrow> u32 \<times> 'w"
  px_write :: "u32 \<Rightarrow> u8 list \<Rightarrow> 'w \<Rightarrow> u32 \<times> 'w"
  px_read :: "u32 \<Rightarrow> u32 \<Rightarrow> 'w \<Rightarrow> (u32 \<times> u8 list) \<times> 'w"
  px_close :: "u32 \<Rightarrow> 'w \<Rightarrow> u32 \<times> 'w"
  px_lseek :: "u32 \<Rightarrow> u32 \<Rightarrow> u32 \<Rightarrow> 'w \<Rightarrow> u32 \<times> 'w"
  px_opendir :: "u8 list \<Rightarrow> 'w \<Rightarrow> u32 \<times> 'w"
  px_readdir :: "u32 \<Rightarrow> 'w \<Rightarrow> (u8 \<times> u8 list) option \<times> 'w"
  px_closedir :: "u32 \<Rightarrow> 'w \<Rightarrow> u32 \<times> 'w"

text \<open>\<open>S_IRUSR | S_IWUSR | S_IRGRP | S_IROTH\<close> and \<open>DT_REG\<close>, as POSIX and \<open>dirent.h\<close> number them.\<close>

definition MODE_0644 :: u32 where "MODE_0644 = 0x1A4"
definition DT_REG :: u8 where "DT_REG = 8"

definition os_open :: "'w posix \<Rightarrow> u8 list \<Rightarrow> u32 \<Rightarrow> u32 \<Rightarrow> 'w \<Rightarrow> u32 \<times> 'w" where
  "os_open px pathname flags mode w = px_open px pathname (os_open_realflags (px_consts px) flags) MODE_0644 w"

definition os_write :: "'w posix \<Rightarrow> u32 \<Rightarrow> u8 list \<Rightarrow> 'w \<Rightarrow> u32 \<times> 'w" where
  "os_write px fd data w = px_write px fd data w"

definition os_read :: "'w posix \<Rightarrow> u32 \<Rightarrow> u32 \<Rightarrow> 'w \<Rightarrow> (u32 \<times> u8 list) \<times> 'w" where
  "os_read px fd cnt w = px_read px fd cnt w"

definition os_close :: "'w posix \<Rightarrow> u32 \<Rightarrow> 'w \<Rightarrow> u32 \<times> 'w" where
  "os_close px fd w = px_close px fd w"

definition os_lseek :: "'w posix \<Rightarrow> u32 \<Rightarrow> u32 \<Rightarrow> u32 \<Rightarrow> 'w \<Rightarrow> u32 \<times> 'w" where
  "os_lseek px fd offset whence w =
     (if whence = RFS_LSEEK_SET then px_lseek px fd offset (SEEK_SET (px_consts px)) w
      else if whence = RFS_LSEEK_CUR then px_lseek px fd offset (SEEK_CUR (px_consts px)) w
      else if whence = RFS_LSEEK_END then px_lseek px fd offset (SEEK_END (px_consts px)) w
      else (-1, w))"

text \<open>The condition \<open>name || ...\<close> of \<open>os_opendir\<close> holds for every string.\<close>

definition os_opendir :: "'w posix \<Rightarrow> u8 list \<Rightarrow> 'w \<Rightarrow> u32 \<times> 'w" where
  "os_opendir px name w = px_opendir px name w"

text \<open>The loop over the directory entries: entries that are not regular files are skipped.\<close>

partial_function (option) os_readdir :: "'w posix \<Rightarrow> u32 \<Rightarrow> 'w \<Rightarrow> (u8 list option \<times> 'w) option" where
  "os_readdir px d w =
     (case px_readdir px d w of
        (None, w') \<Rightarrow> Some (None, w')
      | (Some (d_type, d_name), w') \<Rightarrow>
          if d_type AND DT_REG \<noteq> 0 then Some (Some (take RFS_MAX_FNAME_SIZE d_name), w')
          else os_readdir px d w')"

definition os_closedir :: "'w posix \<Rightarrow> u32 \<Rightarrow> 'w \<Rightarrow> u32 \<times> 'w" where
  "os_closedir px d w = px_closedir px d w"

section \<open>The request handlers\<close>

definition SERVER_OK :: int where "SERVER_OK = 0"
definition SERVER_ERR :: int where "SERVER_ERR = 1"
definition PLATFORM_MAX_FNAME_LEN :: nat where "PLATFORM_MAX_FNAME_LEN = 2048"
definition PLATFORM_PATH_SEPARATOR :: u8 where "PLATFORM_PATH_SEPARATOR = 0x2F"

text \<open>The C string at an address; it has to end inside the address space.\<close>

function cstr :: "mem \<Rightarrow> nat \<Rightarrow> u8 list option" where
  "cstr m a =
     (if addr_limit \<le> a then None
      else if m a = 0 then Some []
      else do { s \<leftarrow> cstr m (Suc a); Some (m a # s) })"
  by auto
termination by (relation "measure (\<lambda>(m, a). addr_limit - a)") auto

text \<open>\<open>strncat( server_fullname, src, n )\<close>: the bound limits the source, not the destination of
  \<open>PLATFORM_MAX_FNAME_LEN + 1\<close> bytes; writing past it is a fault.\<close>

definition fullname_strncat :: "u8 list \<Rightarrow> u8 list \<Rightarrow> nat \<Rightarrow> u8 list option" where
  "fullname_strncat dst src n =
     (let r = dst @ take n src in if length r \<le> PLATFORM_MAX_FNAME_LEN then Some r else None)"

definition server_fullname :: "u8 list \<Rightarrow> u8 list option \<Rightarrow> u8 list option" where
  "server_fullname basedir filename =
     (let full = take PLATFORM_MAX_FNAME_LEN basedir in
      case filename of None \<Rightarrow> Some full
      | Some name \<Rightarrow>
          if length name > 0 then
            if full = [] then None
            else do {
              full' \<leftarrow> (if last full \<noteq> PLATFORM_PATH_SEPARATOR
                then fullname_strncat full [PLATFORM_PATH_SEPARATOR] PLATFORM_MAX_FNAME_LEN else Some full);
              fullname_strncat full' name PLATFORM_MAX_FNAME_LEN
            }
          else Some full)"

definition cstr_arg :: "mem \<Rightarrow> nat option \<Rightarrow> u8 list option option" where
  "cstr_arg m a = (case a of None \<Rightarrow> Some None | Some x \<Rightarrow> map_option Some (cstr m x))"

type_synonym 'w handled = "(int \<times> mem \<times> 'w) option"

definition server_open :: "'w posix \<Rightarrow> u8 list \<Rightarrow> mem \<Rightarrow> nat \<Rightarrow> 'w \<Rightarrow> 'w handled" where
  "server_open px basedir m p w =
     do {
       (err, vs) \<leftarrow> remotefs_open_read_request m p;
       if err = ELUARPC_ERR then Some (SERVER_ERR, m, w)
       else case vs of
         [VPtr filename _, V32 flags, V32 mode] \<Rightarrow> do {
           name \<leftarrow> cstr_arg m filename;
           full \<leftarrow> server_fullname basedir name;
           let (fd, w') = os_open px full flags mode w;
           m' \<leftarrow> remotefs_open_write_response m p fd;
           Some (SERVER_OK, m', w')
         }
       | _ \<Rightarrow> None
     }"

definition server_write :: "'w posix \<Rightarrow> mem \<Rightarrow> nat \<Rightarrow> 'w \<Rightarrow> 'w handled" where
  "server_write px m p w =
     do {
       (err, vs) \<leftarrow> remotefs_write_read_request m p;
       if err = ELUARPC_ERR then Some (SERVER_ERR, m, w)
       else case vs of
         [V32 fd, VPtr buf cnt] \<Rightarrow> do {
           let (res, w') = os_write px fd (case buf of None \<Rightarrow> [] | Some a \<Rightarrow> rd_bytes m a (unat cnt)) w;
           m' \<leftarrow> remotefs_write_write_response m p res;
           Some (SERVER_OK, m', w')
         }
       | _ \<Rightarrow> None
     }"

definition server_read :: "'w posix \<Rightarrow> mem \<Rightarrow> nat \<Rightarrow> 'w \<Rightarrow> 'w handled" where
  "server_read px m p w =
     do {
       (err, vs) \<leftarrow> remotefs_read_read_request m p;
       if err = ELUARPC_ERR then Some (SERVER_ERR, m, w)
       else case vs of
         [V32 fd, V32 cnt] \<Rightarrow> do {
           let ((res, data), w') = os_read px fd cnt w;
           m' \<leftarrow> remotefs_read_write_response (wr_bytes m (p + ELUARPC_READ_BUF_OFFSET) data) p res;
           Some (SERVER_OK, m', w')
         }
       | _ \<Rightarrow> None
     }"

definition server_close :: "'w posix \<Rightarrow> mem \<Rightarrow> nat \<Rightarrow> 'w \<Rightarrow> 'w handled" where
  "server_close px m p w =
     do {
       (err, vs) \<leftarrow> remotefs_close_read_request m p;
       if err = ELUARPC_ERR then Some (SERVER_ERR, m, w)
       else case vs of
         [V32 fd] \<Rightarrow> do {
           let (res, w') = os_close px fd w;
           m' \<leftarrow> remotefs_close_write_response m p res;
           Some (SERVER_OK, m', w')
         }
       | _ \<Rightarrow> None
     }"

definition server_lseek :: "'w posix \<Rightarrow> mem \<Rightarrow> nat \<Rightarrow> 'w \<Rightarrow> 'w handled" where
  "server_lseek px m p w =
     do {
       (err, vs) \<leftarrow> remotefs_lseek_read_request m p;
       if err = ELUARPC_ERR then Some (SERVER_ERR, m, w)
       else case vs of
         [V32 fd, V32 offset, V32 whence] \<Rightarrow> do {
           let (res, w') = os_lseek px fd offset whence w;
           m' \<leftarrow> remotefs_lseek_write_response m p res;
           Some (SERVER_OK, m', w')
         }
       | _ \<Rightarrow> None
     }"

definition server_opendir :: "'w posix \<Rightarrow> u8 list \<Rightarrow> mem \<Rightarrow> nat \<Rightarrow> 'w \<Rightarrow> 'w handled" where
  "server_opendir px basedir m p w =
     do {
       (err, vs) \<leftarrow> remotefs_opendir_read_request m p;
       if err = ELUARPC_ERR then Some (SERVER_ERR, m, w)
       else case vs of
         [VPtr filename _] \<Rightarrow> do {
           name \<leftarrow> cstr_arg m filename;
           full \<leftarrow> server_fullname basedir name;
           let (d, w') = os_opendir px full w;
           m' \<leftarrow> remotefs_opendir_write_response m p d;
           Some (SERVER_OK, m', w')
         }
       | _ \<Rightarrow> None
     }"

text \<open>The part of \<open>server_readdir\<close> that computes the file's size: a descriptor of 0 counts as a
  failure, any other result of \<open>os_open\<close> (also -1) as success.\<close>

definition readdir_size :: "'w posix \<Rightarrow> u8 list \<Rightarrow> u8 list \<Rightarrow> 'w \<Rightarrow> ((u8 list option \<times> u32) \<times> 'w) option" where
  "readdir_size px basedir name w =
     do {
       full \<leftarrow> server_fullname basedir (Some name);
       let (fd, w1) = os_open px full RFS_OPEN_FLAG_RDONLY 0 w;
       if fd \<noteq> 0 then
         let (fsize, w2) = os_lseek px fd 0 RFS_LSEEK_END w1; (_, w3) = os_close px fd w2
         in Some ((Some name, fsize), w3)
       else Some ((None, 0), w1)
     }"

definition server_readdir :: "'w posix \<Rightarrow> u8 list \<Rightarrow> mem \<Rightarrow> nat \<Rightarrow> 'w \<Rightarrow> 'w handled" where
  "server_readdir px basedir m p w =
     do {
       (err, vs) \<leftarrow> remotefs_readdir_read_request m p;
       if err = ELUARPC_ERR then Some (SERVER_ERR, m, w)
       else case vs of
         [V32 d] \<Rightarrow> do {
           (name, w1) \<leftarrow> os_readdir px d w;
           ((name', fsize), w2) \<leftarrow> (case name of None \<Rightarrow> Some ((None, 0), w1)
             | Some s \<Rightarrow> readdir_size px basedir s w1);
           m' \<leftarrow> remotefs_readdir_write_response m p name' fsize 0;
           Some (SERVER_OK, m', w2)
         }
       | _ \<Rightarrow> None
     }"

text \<open>The handler reports the descriptor \<open>d\<close> back, not the result of \<open>os_closedir\<close>.\<close>

definition server_closedir :: "'w posix \<Rightarrow> mem \<Rightarrow> nat \<Rightarrow> 'w \<Rightarrow> 'w handled" where
  "server_closedir px m p w =
     do {
       (err, vs) \<leftarrow> remotefs_closedir_read_request m p;
       if err = ELUARPC_ERR then Some (SERVER_ERR, m, w)
       else case vs of
         [V32 d] \<Rightarrow> do {
           let (res, w') = os_closedir px d w;
           m' \<leftarrow> remotefs_closedir_write_response m p d;
           Some (SERVER_OK, m', w')
         }
       | _ \<Rightarrow> None
     }"

definition server_execute_request :: "'w posix \<Rightarrow> u8 list \<Rightarrow> mem \<Rightarrow> nat \<Rightarrow> 'w \<Rightarrow> 'w handled" where
  "server_execute_request px basedir m p w =
     (let (err, req) = eluarpc_get_request_id m p in
      if err = ELUARPC_ERR then Some (SERVER_ERR, m, w)
      else if RFS_OP_FIRST \<le> req \<and> req \<le> RFS_OP_LAST then
        ([server_open px basedir, server_write px, server_read px, server_close px, server_lseek px,
         server_opendir px basedir, server_readdir px basedir, server_closedir px]
          ! unat (req - RFS_OP_FIRST)) m p w
      else Some (SERVER_ERR, m, w))"

section \<open>The abstract server\<close>

datatype rfs_req =
    ROpen "u8 list" u32 u32
  | RWrite u32 "u8 list"
  | RRead u32 u32
  | RClose u32
  | RLseek u32 u32 u32
  | ROpendir "u8 list"
  | RReaddir u32
  | RClosedir u32

fun req_items :: "rfs_req \<Rightarrow> item list" where
  "req_items (ROpen path flags mode) = open_req path flags mode"
| "req_items (RWrite fd data) = write_req fd data"
| "req_items (RRead fd cnt) = read_req fd cnt"
| "req_items (RClose fd) = close_req fd"
| "req_items (RLseek fd offset whence) = lseek_req fd offset whence"
| "req_items (ROpendir name) = opendir_req name"
| "req_items (RReaddir d) = readdir_req d"
| "req_items (RClosedir d) = closedir_req d"

definition str_ok :: "u8 list \<Rightarrow> bool" where
  "str_ok s \<longleftrightarrow> 0 \<notin> set s \<and> length s + 1 < 2 ^ 32"

fun req_ok :: "rfs_req \<Rightarrow> bool" where
  "req_ok (ROpen path flags mode) \<longleftrightarrow> str_ok path"
| "req_ok (RWrite fd data) \<longleftrightarrow> length data < 2 ^ 32"
| "req_ok (ROpendir name) \<longleftrightarrow> str_ok name"
| "req_ok _ \<longleftrightarrow> True"

text \<open>What a request does to the host and which fields the response has. \<open>None\<close>: the path does not
  fit, the directory stream never ends, or a read fails (its result is not the number of bytes
  delivered).\<close>

fun serve :: "'w posix \<Rightarrow> u8 list \<Rightarrow> rfs_req \<Rightarrow> 'w \<Rightarrow> (item list \<times> 'w) option" where
  "serve px base (ROpen path flags mode) w =
     do { full \<leftarrow> server_fullname base (Some path);
          let (fd, w') = os_open px full flags mode w;
          Some (int_resp RFS_OP_OPEN fd, w') }"
| "serve px base (RWrite fd data) w =
     (let (res, w') = os_write px fd data w in Some (int_resp RFS_OP_WRITE res, w'))"
| "serve px base (RRead fd cnt) w =
     (let ((res, data), w') = os_read px fd cnt w
      in if length data = unat res then Some (read_resp data, w') else None)"
| "serve px base (RClose fd) w =
     (let (res, w') = os_close px fd w in Some (int_resp RFS_OP_CLOSE res, w'))"
| "serve px base (RLseek fd offset whence) w =
     (let (res, w') = os_lseek px fd offset whence w in Some (int_resp RFS_OP_LSEEK res, w'))"
| "serve px base (ROpendir name) w =
     do { full \<leftarrow> server_fullname base (Some name);
          let (d, w') = os_opendir px full w;
          Some (int_resp RFS_OP_OPENDIR d, w') }"
| "serve px base (RReaddir d) w =
     do { (name, w1) \<leftarrow> os_readdir px d w;
          ((name', fsize), w2) \<leftarrow> (case name of None \<Rightarrow> Some ((None, 0), w1)
            | Some s \<Rightarrow> readdir_size px base s w1);
          Some (readdir_resp name' fsize 0, w2) }"
| "serve px base (RClosedir d) w =
     (let (res, w') = os_closedir px d w in Some (int_resp RFS_OP_CLOSEDIR d, w'))"

section \<open>The packet server implements it\<close>

declare cstr.simps [simp del]

lemma cstr_rd_bytes:
  "rd_bytes m a (length (s @ [0])) = s @ [0] \<Longrightarrow> 0 \<notin> set s \<Longrightarrow> a + length s < addr_limit \<Longrightarrow>
   cstr m a = Some s"
proof (induction s arbitrary: a)
  case Nil
  then show ?case by (simp add: cstr.simps [of m a] rd_bytes_Suc)
next
  case (Cons c s)
  from Cons.prems(1) have "m a = c" "rd_bytes m (Suc a) (length (s @ [0])) = s @ [0]"
    using rd_bytes_Cons_iff [of m a c "s @ [0]"] by simp_all
  with Cons show ?case by (simp add: cstr.simps [of m a])
qed

lemma cstr_in_packet:
  assumes "has_packet m p (its @ IPtr (s @ [0]) # its')" and "0 \<notin> set s"
  shows "cstr m (p + 16 + length (items_bytes its)) = Some s"
proof (rule cstr_rd_bytes)
  show "rd_bytes m (p + 16 + length (items_bytes its)) (length (s @ [0])) = s @ [0]"
    by (rule has_packet_block [OF assms(1)])
  show "p + 16 + length (items_bytes its) + length s < addr_limit"
    using assms(1) by (simp add: has_packet_def length_packet_bytes)
qed (rule assms(2))

lemma cstr_arg_open:
  assumes "has_packet m p (IOp i # IPtr (s @ [0]) # its')" and "0 \<notin> set s"
  shows "cstr_arg m (Some (p + 18)) = Some (Some s)"
  using cstr_in_packet [of m p "[IOp i]" s its'] assms by (simp add: cstr_arg_def add_ac)

lemma write_req_data:
  assumes "has_packet m p (write_req fd data)" and "length data < 2 ^ 32"
  shows "(case blk (p + 23) data of None \<Rightarrow> []
      | Some a \<Rightarrow> rd_bytes m a (unat (word_of_nat (length data) :: u32))) = data"
proof -
  have "unat (word_of_nat (length data) :: u32) = length data"
    using assms(2) by (intro unat_of_nat_less) simp
  moreover have "rd_bytes m (p + 23) (length data) = data"
    using has_packet_block [of m p "[IOp RFS_OP_WRITE, I32 fd]" data "[]"] assms(1)
    by (simp add: write_req_def add.commute)
  ultimately show ?thesis
    by (simp add: blk_def)
qed

lemma server_fullname_short: "server_fullname base name = Some full \<Longrightarrow> length full \<le> PLATFORM_MAX_FNAME_LEN"
  by (auto simp: server_fullname_def fullname_strncat_def Let_def split: option.splits if_splits bind_splits)

lemma os_readdir_short:
  "os_readdir px d w = Some y \<Longrightarrow> \<forall>s. fst y = Some s \<longrightarrow> length s \<le> RFS_MAX_FNAME_SIZE"
  by (erule os_readdir.raw_induct [rotated 1]) (fastforce split: prod.splits option.splits if_splits)

lemma readdir_size_short:
  "readdir_size px base s w = Some ((name, fsize), w') \<Longrightarrow> name = None \<or> name = Some s"
  by (auto simp: readdir_size_def split: bind_splits prod.splits if_splits)

lemma server_dispatch:
  assumes "eluarpc_get_request_id m p = (ELUARPC_OK, i)"
  shows "i = RFS_OP_OPEN \<Longrightarrow> server_execute_request px base m p w = server_open px base m p w"
    "i = RFS_OP_WRITE \<Longrightarrow> server_execute_request px base m p w = server_write px m p w"
    "i = RFS_OP_READ \<Longrightarrow> server_execute_request px base m p w = server_read px m p w"
    "i = RFS_OP_CLOSE \<Longrightarrow> server_execute_request px base m p w = server_close px m p w"
    "i = RFS_OP_LSEEK \<Longrightarrow> server_execute_request px base m p w = server_lseek px m p w"
    "i = RFS_OP_OPENDIR \<Longrightarrow> server_execute_request px base m p w = server_opendir px base m p w"
    "i = RFS_OP_READDIR \<Longrightarrow> server_execute_request px base m p w = server_readdir px base m p w"
    "i = RFS_OP_CLOSEDIR \<Longrightarrow> server_execute_request px base m p w = server_closedir px m p w"
    "i = 0 \<or> 8 < i \<Longrightarrow> server_execute_request px base m p w = Some (SERVER_ERR, m, w)"
  using assms by (auto simp: server_execute_request_def rfs_ops word_le_def word_less_def)

lemma server_serves_readdir:
  assumes "has_packet m p (readdir_req d)" and "serve px base (RReaddir d) w = Some (resp, w')"
    and "p + length (packet_bytes resp) \<le> addr_limit"
  shows "\<exists>m'. server_execute_request px base m p w = Some (SERVER_OK, m', w') \<and> has_packet m' p resp"
proof -
  have id: "eluarpc_get_request_id m p = (ELUARPC_OK, RFS_OP_READDIR)"
    using assms(1) by (auto simp: readdir_req_def intro: get_request_id_has_packet)
  from assms(2) obtain name w1 name' fsize where rd: "os_readdir px d w = Some (name, w1)"
    and sz: "(case name of None \<Rightarrow> Some ((None, 0), w1) | Some s \<Rightarrow> readdir_size px base s w1) = Some ((name', fsize), w')"
    and resp: "resp = readdir_resp name' fsize 0"
    by (auto split: bind_splits)
  from sz have "name' = None \<or> name' = name"
    by (auto dest: readdir_size_short split: option.splits)
  then have "case name' of None \<Rightarrow> True | Some s \<Rightarrow> length s + 1 < 2 ^ 32"
    using os_readdir_short [OF rd] by (auto simp: RFS_MAX_FNAME_SIZE_def split: option.splits)
  with assms(1,3) id rd sz resp show ?thesis
    by (simp add: server_dispatch server_readdir_def rfs_read_requests rfs_write_readdir_response has_packet_wr)
qed

lemma server_serves_read:
  assumes "has_packet m p (read_req fd cnt)" and "serve px base (RRead fd cnt) w = Some (resp, w')"
    and "p + length (packet_bytes resp) \<le> addr_limit"
  shows "\<exists>m'. server_execute_request px base m p w = Some (SERVER_OK, m', w') \<and> has_packet m' p resp"
proof -
  have id: "eluarpc_get_request_id m p = (ELUARPC_OK, RFS_OP_READ)"
    using assms(1) by (auto simp: read_req_def intro: get_request_id_has_packet)
  from assms(2) obtain res data where rd: "os_read px fd cnt w = ((res, data), w')" "length data = unat res"
    and resp: "resp = read_resp data"
    by (auto split: prod.splits if_splits)
  let ?m1 = "wr_bytes m (p + 17) data"
  have "rd_bytes ?m1 (p + 17) (unat res) = data"
    using rd by (simp add: mem_simps)
  with assms(1,3) id rd resp show ?thesis
    using rfs_write_responses(3) [of p ?m1 res]
    by (simp add: server_dispatch server_read_def rfs_read_requests rpc_sizes has_packet_wr)
qed

lemma server_serves:
  assumes "has_packet m p (req_items r)" and "req_ok r" and "serve px base r w = Some (resp, w')"
    and "p + length (packet_bytes resp) \<le> addr_limit"
  shows "\<exists>m'. server_execute_request px base m p w = Some (SERVER_OK, m', w') \<and> has_packet m' p resp"
proof (cases r)
  case (ROpen path flags mode)
  with assms(1) have id: "eluarpc_get_request_id m p = (ELUARPC_OK, RFS_OP_OPEN)"
    by (auto simp: open_req_def intro: get_request_id_has_packet)
  with ROpen assms show ?thesis
    using cstr_arg_open [of m p RFS_OP_OPEN path "[I32 flags, I32 mode]"]
    by (auto simp: server_dispatch server_open_def rfs_read_requests str_ok_def rfs_write_responses
        has_packet_wr open_req_def [symmetric] split: bind_splits prod.splits)
next
  case (RClose fd)
  with assms(1) have id: "eluarpc_get_request_id m p = (ELUARPC_OK, RFS_OP_CLOSE)"
    by (auto simp: close_req_def intro: get_request_id_has_packet)
  with RClose assms show ?thesis
    by (auto simp: server_dispatch server_close_def rfs_read_requests rfs_write_responses
        has_packet_wr split: bind_splits prod.splits)
next
  case (RWrite fd data)
  with assms(1) have id: "eluarpc_get_request_id m p = (ELUARPC_OK, RFS_OP_WRITE)"
    by (auto simp: write_req_def intro: get_request_id_has_packet)
  with RWrite assms show ?thesis
    by (auto simp: server_dispatch server_write_def rfs_read_requests rfs_write_responses
        has_packet_wr write_req_data split: bind_splits prod.splits)
next
  case (RLseek fd offset whence)
  with assms(1) have id: "eluarpc_get_request_id m p = (ELUARPC_OK, RFS_OP_LSEEK)"
    by (auto simp: lseek_req_def intro: get_request_id_has_packet)
  with RLseek assms show ?thesis
    by (auto simp: server_dispatch server_lseek_def rfs_read_requests rfs_write_responses
        has_packet_wr split: bind_splits prod.splits)
next
  case (RClosedir d)
  with assms(1) have id: "eluarpc_get_request_id m p = (ELUARPC_OK, RFS_OP_CLOSEDIR)"
    by (auto simp: closedir_req_def intro: get_request_id_has_packet)
  with RClosedir assms show ?thesis
    by (auto simp: server_dispatch server_closedir_def rfs_read_requests rfs_write_responses
        has_packet_wr split: bind_splits prod.splits)
next
  case (ROpendir path)
  with assms(1) have id: "eluarpc_get_request_id m p = (ELUARPC_OK, RFS_OP_OPENDIR)"
    by (auto simp: opendir_req_def intro: get_request_id_has_packet)
  with ROpendir assms show ?thesis
    using cstr_arg_open [of m p RFS_OP_OPENDIR path "[]"]
    by (auto simp: server_dispatch server_opendir_def rfs_read_requests str_ok_def rfs_write_responses
        has_packet_wr opendir_req_def [symmetric] split: bind_splits prod.splits)
qed (use assms server_serves_read server_serves_readdir in auto)

section \<open>The memory transport\<close>

definition MAX_PACKET_SIZE :: nat where "MAX_PACKET_SIZE = 4096"

definition RFS_BUFFER_LEN :: nat where
  "RFS_BUFFER_LEN = MAX_PACKET_SIZE + ELUARPC_WRITE_REQUEST_EXTRA"

datatype mem_state = MEM_STATE_READ_LENGTH | MEM_STATE_READ_REQUEST | MEM_STATE_REQUEST_DONE

text \<open>\<open>rfs_buffer\<close> is the address of the buffer in \<open>srv_mem\<close>.\<close>

record 'w rfs_srv =
  srv_mem :: mem
  rfs_buffer :: nat
  server_basedir :: "u8 list"
  mem_read_len :: nat
  mem_expected_len :: int
  mem_read_state :: mem_state
  mem_response_flag :: bool
  srv_world :: 'w

definition rfs_mem_start_request :: "'w rfs_srv \<Rightarrow> 'w rfs_srv" where
  "rfs_mem_start_request s =
     s\<lparr>mem_read_state := MEM_STATE_READ_LENGTH, mem_read_len := 0, mem_expected_len := 0,
       mem_response_flag := False\<rparr>"

definition buffer_store :: "nat \<Rightarrow> u8 \<Rightarrow> 'w rfs_srv \<Rightarrow> 'w rfs_srv option" where
  "buffer_store i c s =
     (if i < RFS_BUFFER_LEN then Some (s\<lparr>srv_mem := wr_bytes (srv_mem s) (rfs_buffer s + i) [c]\<rparr>) else None)"

definition rfs_mem_read_request_packet :: "int \<Rightarrow> 'w rfs_srv \<Rightarrow> (int \<times> 'w rfs_srv) option" where
  "rfs_mem_read_request_packet c s =
     (if c = -1 then Some (0, rfs_mem_start_request s)
      else case mem_read_state s of
        MEM_STATE_READ_LENGTH \<Rightarrow> do {
          s1 \<leftarrow> buffer_store (mem_read_len s) (word_of_int c) s;
          let s2 = s1\<lparr>mem_read_len := mem_read_len s + 1\<rparr>;
          if mem_read_len s2 = ELUARPC_START_OFFSET then
            let s3 = s2\<lparr>mem_read_len := 0\<rparr>;
                (err, temp16) = eluarpc_get_packet_size (srv_mem s3) (rfs_buffer s3)
            in if err = ELUARPC_ERR then Some (0, s3\<lparr>mem_read_state := MEM_STATE_REQUEST_DONE\<rparr>)
               else Some (1, s3\<lparr>mem_read_state := MEM_STATE_READ_REQUEST,
                                mem_expected_len := uint temp16 - int ELUARPC_START_OFFSET\<rparr>)
          else Some (1, s2)
        }
      | MEM_STATE_READ_REQUEST \<Rightarrow> do {
          s1 \<leftarrow> buffer_store (ELUARPC_START_OFFSET + mem_read_len s) (word_of_int c) s;
          let s2 = s1\<lparr>mem_read_len := mem_read_len s + 1\<rparr>;
          Some (1, if int (mem_read_len s2) = mem_expected_len s2
                   then s2\<lparr>mem_read_state := MEM_STATE_REQUEST_DONE, mem_response_flag := True\<rparr> else s2)
        }
      | MEM_STATE_REQUEST_DONE \<Rightarrow> Some (1, s))"

definition rfs_mem_has_response :: "'w rfs_srv \<Rightarrow> bool" where
  "rfs_mem_has_response s = mem_response_flag s"

text \<open>The result is \<open>*plen\<close> and the bytes at \<open>*pdata\<close>.\<close>

definition rfs_mem_write_response :: "'w posix \<Rightarrow> 'w rfs_srv \<Rightarrow> ((u16 \<times> u8 list) \<times> 'w rfs_srv) option" where
  "rfs_mem_write_response px s =
     do {
       (_, m', w') \<leftarrow> server_execute_request px (server_basedir s) (srv_mem s) (rfs_buffer s) (srv_world s);
       let s' = s\<lparr>srv_mem := m', srv_world := w'\<rparr>;
       let (err, plen) = eluarpc_get_packet_size m' (rfs_buffer s);
       if err \<noteq> ELUARPC_ERR then Some ((plen, rd_bytes m' (rfs_buffer s) (unat plen)), s')
       else Some ((0, []), s')
     }"

text \<open>What the multiplexer does with a byte addressed to the RFS service
  (\<open>src/mux_src/main.c\<close>): the bytes returned are queued for the device.\<close>

definition rfsmux_byte :: "'w posix \<Rightarrow> u8 \<Rightarrow> 'w rfs_srv \<Rightarrow> (u8 list \<times> 'w rfs_srv) option" where
  "rfsmux_byte px c s =
     do {
       (_, s1) \<leftarrow> rfs_mem_read_request_packet (uint c) s;
       if rfs_mem_has_response s1 then do {
         ((rfs_size, rfs_ptr), s2) \<leftarrow> rfs_mem_write_response px s1;
         Some (rfs_ptr, rfs_mem_start_request s2)
       } else Some ([], s1)
     }"

fun rfsmux_bytes :: "'w posix \<Rightarrow> u8 list \<Rightarrow> 'w rfs_srv \<Rightarrow> (u8 list \<times> 'w rfs_srv) option" where
  "rfsmux_bytes px [] s = Some ([], s)"
| "rfsmux_bytes px (c # cs) s =
     do { (out, s') \<leftarrow> rfsmux_byte px c s; (outs, s'') \<leftarrow> rfsmux_bytes px cs s'; Some (out @ outs, s'') }"

subsection \<open>Assembling a packet\<close>

text \<open>The state after the first \<open>n\<close> bytes of the packet \<open>bs\<close>.\<close>

definition after :: "u8 list \<Rightarrow> nat \<Rightarrow> 'w rfs_srv \<Rightarrow> 'w rfs_srv" where
  "after bs n s =
     s\<lparr>srv_mem := wr_bytes (srv_mem s) (rfs_buffer s) (take n bs),
       mem_read_len := (if n < 4 then n else n - 4),
       mem_expected_len := (if n < 4 then 0 else int (length bs) - 4),
       mem_read_state := (if n < 4 then MEM_STATE_READ_LENGTH else MEM_STATE_READ_REQUEST),
       mem_response_flag := False\<rparr>"

lemma wr_bytes_snoc:
  "n < length bs \<Longrightarrow> wr_bytes (wr_bytes m a (take n bs)) (a + n) [bs ! n] = wr_bytes m a (take (Suc n) bs)"
  by (simp add: take_Suc_conv_app_nth wr_bytes_append)

lemma get_packet_size_hdr:
  "rd_bytes m p 4 = TYPE_PKT_SIZE # TYPE_INT_16 # le16 n \<Longrightarrow> eluarpc_get_packet_size m p = (ELUARPC_OK, n)"
  using rd_bytes_Cons_iff [of m p TYPE_PKT_SIZE "TYPE_INT_16 # le16 n"] u16c.dec_enc [of m "Suc p" n ELUARPC_OK]
  by (simp add: eluarpc_get_packet_size_def eluarpc_read_expect_def)

lemma take_4_packet: "take 4 (packet_bytes its) = TYPE_PKT_SIZE # TYPE_INT_16 # le16 (word_of_nat (length (packet_bytes its)))"
  by (simp add: packet_bytes_def length_packet_payload le16_def)

lemma uint_of_nat_u16: "n < 2 ^ 16 \<Longrightarrow> uint (word_of_nat n :: u16) = int n"
  by (simp add: uint_nat unat_of_nat_less)

lemma read_request_step:
  assumes bs: "bs = packet_bytes its" and n: "Suc n < length bs" and len: "length bs \<le> RFS_BUFFER_LEN"
  shows "rfs_mem_read_request_packet (uint (bs ! n)) (after bs n s) = Some (1, after bs (Suc n) s)"
proof -
  have w: "word_of_int (uint (bs ! n)) = bs ! n" "uint (bs ! n) \<noteq> -1"
    using uint_ge_0 [of "bs ! n"] by (simp, linarith)
  have L: "length bs < 2 ^ 16"
    using len by (simp add: RFS_BUFFER_LEN_def MAX_PACKET_SIZE_def rpc_sizes)
  consider "n < 3" | "n = 3" | "4 \<le> n" by linarith
  then show ?thesis
  proof cases
    case 1
    with n w len show ?thesis
      by (simp add: rfs_mem_read_request_packet_def after_def buffer_store_def rpc_sizes wr_bytes_snoc)
  next
    case 2
    have "rd_bytes (wr_bytes m p (take 4 bs)) p 4 = TYPE_PKT_SIZE # TYPE_INT_16 # le16 (word_of_nat (length bs))" for m p
      by (simp add: mem_simps bs take_4_packet)
    from get_packet_size_hdr [OF this] have "eluarpc_get_packet_size (wr_bytes m p (take 4 bs)) p = (ELUARPC_OK, word_of_nat (length bs))" for m p .
    with 2 n w len uint_of_nat_u16 [OF L] show ?thesis
      using wr_bytes_snoc [of 3 bs]
      by (simp add: rfs_mem_read_request_packet_def after_def buffer_store_def rpc_sizes numeral_3_eq_3 eval_nat_numeral)
  next
    case 3
    with n w len show ?thesis
      by (simp add: rfs_mem_read_request_packet_def after_def buffer_store_def rpc_sizes wr_bytes_snoc)
  qed
qed

lemma read_request_last:
  assumes "bs = packet_bytes its" and "length bs \<le> RFS_BUFFER_LEN"
  shows "rfs_mem_read_request_packet (uint (last bs)) (after bs (length bs - 1) s) =
    Some (1, (after bs (length bs) s)\<lparr>mem_read_state := MEM_STATE_REQUEST_DONE, mem_response_flag := True\<rparr>)"
proof -
  have L: "16 \<le> length bs"
    using assms by (simp add: length_packet_bytes)
  then have "wr_bytes (wr_bytes m a (take (length bs - 1) bs)) (a + (length bs - 1)) [last bs] = wr_bytes m a bs" for m a
    using wr_bytes_snoc [of "length bs - 1" bs m a] by (cases bs rule: rev_cases) auto
  moreover have "word_of_int (uint (last bs)) = last bs" "uint (last bs) \<noteq> -1"
    using uint_ge_0 [of "last bs"] by (simp, linarith)
  ultimately show ?thesis
    using L assms(2)
    by (simp add: rfs_mem_read_request_packet_def after_def buffer_store_def rpc_sizes of_nat_diff)
qed

lemma rfsmux_bytes_append:
  "rfsmux_bytes px (xs @ ys) s =
     do { (o1, s1) \<leftarrow> rfsmux_bytes px xs s; (o2, s2) \<leftarrow> rfsmux_bytes px ys s1; Some (o1 @ o2, s2) }"
proof (induction xs arbitrary: s)
  case Nil
  then show ?case by (auto split: bind_splits)
next
  case (Cons x xs)
  then show ?case by (auto split: bind_splits)
qed

lemma rfsmux_bytes_prefix:
  assumes "bs = packet_bytes its" and "length bs \<le> RFS_BUFFER_LEN"
  shows "n < length bs \<Longrightarrow> rfsmux_bytes px (take n bs) (after bs 0 s) = Some ([], after bs n s)"
proof (induction n)
  case (Suc n)
  have "rfsmux_byte px (bs ! n) (after bs n s) = Some ([], after bs (Suc n) s)"
    using read_request_step [OF assms(1) Suc.prems assms(2), of s]
    by (simp add: rfsmux_byte_def rfs_mem_has_response_def after_def)
  with Suc show ?case
    by (simp add: take_Suc_conv_app_nth rfsmux_bytes_append)
qed simp

definition fresh :: "'w rfs_srv \<Rightarrow> bool" where
  "fresh s \<longleftrightarrow> mem_read_state s = MEM_STATE_READ_LENGTH \<and> mem_read_len s = 0 \<and> mem_expected_len s = 0 \<and>
     \<not> mem_response_flag s \<and> rfs_buffer s + RFS_BUFFER_LEN \<le> addr_limit"

lemma fresh_start: "fresh s \<Longrightarrow> after bs 0 s = s"
  by (simp add: fresh_def after_def)

lemma rfsmux_request:
  assumes f: "fresh s" and ok: "req_ok r" and serve: "serve px (server_basedir s) r (srv_world s) = Some (resp, w')"
    and len: "length (packet_bytes (req_items r)) \<le> RFS_BUFFER_LEN" "length (packet_bytes resp) \<le> RFS_BUFFER_LEN"
  shows "\<exists>s'. rfsmux_bytes px (packet_bytes (req_items r)) s = Some (packet_bytes resp, s') \<and> fresh s' \<and>
      srv_world s' = w' \<and> server_basedir s' = server_basedir s"
proof -
  let ?bs = "packet_bytes (req_items r)"
  let ?s1 = "(after ?bs (length ?bs) s)\<lparr>mem_read_state := MEM_STATE_REQUEST_DONE, mem_response_flag := True\<rparr>"
  have "0 < length ?bs" by (simp add: length_packet_bytes)
  then have split: "?bs = take (length ?bs - 1) ?bs @ [last ?bs]"
    by (metis append_butlast_last_id butlast_conv_take length_greater_0_conv)
  have "has_packet (srv_mem ?s1) (rfs_buffer ?s1) (req_items r)"
    using f len(1) by (simp add: after_def fresh_def has_packet_wr)
  from server_serves [OF this ok, of px "server_basedir s" "srv_world s" resp w'] serve f len(2)
  obtain m' where m': "server_execute_request px (server_basedir s) (srv_mem ?s1) (rfs_buffer ?s1) (srv_world s) = Some (SERVER_OK, m', w')"
    "has_packet m' (rfs_buffer s) resp"
    by (auto simp: after_def fresh_def)
  have l16: "length (packet_bytes resp) < 2 ^ 16"
    using len(2) by (simp add: RFS_BUFFER_LEN_def MAX_PACKET_SIZE_def rpc_sizes)
  have "rfs_mem_write_response px ?s1 =
      Some ((word_of_nat (length (packet_bytes resp)), packet_bytes resp), ?s1\<lparr>srv_mem := m', srv_world := w'\<rparr>)"
    using m' get_packet_size_has_packet [OF m'(2)] l16
    by (simp add: rfs_mem_write_response_def after_def unat_of_nat_less has_packet_def)
  then have "rfsmux_byte px (last ?bs) (after ?bs (length ?bs - 1) s) =
      Some (packet_bytes resp, rfs_mem_start_request (?s1\<lparr>srv_mem := m', srv_world := w'\<rparr>))"
    using read_request_last [OF refl len(1), of s] by (simp add: rfsmux_byte_def rfs_mem_has_response_def)
  then have "rfsmux_bytes px (take (length ?bs - 1) ?bs @ [last ?bs]) s =
      Some (packet_bytes resp, rfs_mem_start_request (?s1\<lparr>srv_mem := m', srv_world := w'\<rparr>))"
    using rfsmux_bytes_prefix [OF refl len(1), of "length ?bs - 1" px s] \<open>0 < length ?bs\<close> fresh_start [OF f]
    unfolding rfsmux_bytes_append by simp
  then show ?thesis
    unfolding split [symmetric] using f by (auto simp: rfs_mem_start_request_def after_def fresh_def)
qed

section \<open>Properties\<close>

text \<open>C6. The packet server implements the abstract server: given a request packet of any of the
  eight operations in its buffer, it performs exactly the operating system calls the operation
  stands for and leaves the response packet with their results in the buffer.\<close>

theorem server_implements_serve:
  assumes "has_packet m p (req_items r)" and "req_ok r" and "serve px base r w = Some (resp, w')"
    and "p + length (packet_bytes resp) \<le> addr_limit"
  shows "\<exists>m'. server_execute_request px base m p w = Some (SERVER_OK, m', w') \<and> has_packet m' p resp"
  using assms by (rule server_serves)

text \<open>C7. The byte-wise transport used by the multiplexer: feeding the bytes of a request to an
  idle server produces no output until the last byte, then exactly the bytes of the response of the
  abstract server, and leaves the server idle again with the host's state updated.\<close>

theorem rfsmux_serves_request:
  assumes "fresh s" and "req_ok r" and "serve px (server_basedir s) r (srv_world s) = Some (resp, w')"
    and "length (packet_bytes (req_items r)) \<le> RFS_BUFFER_LEN" and "length (packet_bytes resp) \<le> RFS_BUFFER_LEN"
  shows "\<exists>s'. rfsmux_bytes px (packet_bytes (req_items r)) s = Some (packet_bytes resp, s') \<and> fresh s' \<and>
      srv_world s' = w' \<and>
      (\<forall>n < length (packet_bytes (req_items r)). \<exists>s1. rfsmux_bytes px (take n (packet_bytes (req_items r))) s = Some ([], s1))"
  using rfsmux_request [OF assms] rfsmux_bytes_prefix [OF refl assms(4), of _ px s] fresh_start [OF assms(1)]
  by (metis (no_types, lifting))

text \<open>C8. A corrupted length header disables the memory transport for good: it waits in its
  final state without a response, and every later byte, also of a correct request, is dropped.\<close>

theorem rfsmux_bad_header_sticks:
  assumes "fresh s" and "b0 \<noteq> TYPE_PKT_SIZE \<or> b1 \<noteq> TYPE_INT_16"
  shows "\<exists>s'. rfsmux_bytes px [b0, b1, b2, b3] s = Some ([], s') \<and> (\<forall>cs. rfsmux_bytes px cs s' = Some ([], s'))"
proof -
  let ?m = "wr_bytes (srv_mem s) (rfs_buffer s) [b0, b1, b2, b3]"
  let ?s' = "s\<lparr>srv_mem := ?m, mem_read_state := MEM_STATE_REQUEST_DONE\<rparr>"
  have "fst (eluarpc_get_packet_size ?m (rfs_buffer s)) = ELUARPC_ERR"
    using assms(2) by (auto simp: eluarpc_get_packet_size_def rpc_reader_defs wr_bytes_def)
  moreover have "wr_bytes (wr_bytes (wr_bytes (wr_bytes m a [b0]) (Suc a) [b1]) (Suc (Suc a)) [b2]) (Suc (Suc (Suc a))) [b3]
      = wr_bytes m a [b0, b1, b2, b3]" for m a
    using wr_bytes_append [of m a "[b0]" "[b1, b2, b3]"] wr_bytes_append [of "wr_bytes m a [b0]" "Suc a" "[b1]" "[b2, b3]"]
      wr_bytes_append [of "wr_bytes (wr_bytes m a [b0]) (Suc a) [b1]" "Suc (Suc a)" "[b2]" "[b3]"] by simp
  moreover have "word_of_int (uint b) = b" "uint b \<noteq> -1" for b :: u8
    using uint_ge_0 [of b] by (simp, linarith)
  ultimately have "rfsmux_bytes px [b0, b1, b2, b3] s = Some ([], ?s')"
    using assms(1)
    by (cases "eluarpc_get_packet_size ?m (rfs_buffer s)")
      (simp add: fresh_def rfsmux_byte_def rfs_mem_read_request_packet_def buffer_store_def
        RFS_BUFFER_LEN_def MAX_PACKET_SIZE_def rpc_sizes rfs_mem_has_response_def)
  moreover have "rfsmux_bytes px cs ?s' = Some ([], ?s')" for cs
    using assms(1) \<open>\<And>b :: u8. uint b \<noteq> -1\<close>
    by (induction cs) (simp_all add: fresh_def rfsmux_byte_def rfs_mem_read_request_packet_def rfs_mem_has_response_def)
  ultimately show ?thesis by blast
qed

text \<open>A failing read (\<open>os_read\<close> returns -1) is sent as a block of \<open>0xFFFFFFFF\<close> bytes: building the
  response moves the packet pointer past the end of the address space.\<close>

theorem server_read_error_faults:
  assumes "has_packet m p (req_items (RRead fd cnt))" and "os_read px fd cnt w = ((-1, data), w')"
  shows "server_execute_request px base m p w = None"
proof -
  have id: "eluarpc_get_request_id m p = (ELUARPC_OK, RFS_OP_READ)"
    using assms(1) by (auto simp: read_req_def intro: get_request_id_has_packet)
  have "unat (-1 :: u32) = 4294967295"
    by (simp add: unsigned_minus_1_eq_mask mask_eq_exp_minus_1)
  then have "remotefs_read_write_response m1 p (-1) = None" for m1
    by (simp add: remotefs_read_write_response_def eluarpc_gen_write_def gen_write_step_def
        eluarpc_write_ptr_def write_block_def eluarpc_start_packet_def writer_defs put_def rpc_sizes addr_limit_def)
  with assms id show ?thesis
    by (simp add: server_dispatch server_read_def rfs_read_requests)
qed

section \<open>A concrete host\<close>

text \<open>A host with one file \<open>a\<close> of three bytes under \<open>/d\<close>; its state is the read position.\<close>

definition demo_consts :: os_consts where
  "demo_consts = \<lparr>O_APPEND = 0x400, O_CREAT = 0x40, O_EXCL = 0x80, O_TRUNC = 0x200, O_SYNC = 0x1000,
     O_RDONLY = 0, O_WRONLY = 1, O_RDWR = 2, SEEK_SET = 0, SEEK_CUR = 1, SEEK_END = 2\<rparr>"

definition demo_posix :: "nat posix" where
  "demo_posix = \<lparr>px_consts = demo_consts,
     px_open = (\<lambda>path fl md w. (if path = [0x2F, 0x64, 0x2F, 0x61] then 3 else -1, w)),
     px_write = (\<lambda>fd data w. (word_of_nat (length data), w + length data)),
     px_read = (\<lambda>fd cnt w. if fd = 3
        then let data = take (unat cnt) (drop w [10, 20, 30]) in ((word_of_nat (length data), data), w + length data)
        else ((-1, []), w)),
     px_close = (\<lambda>fd w. (0, w)),
     px_lseek = (\<lambda>fd off wh w. (off, unat off)),
     px_opendir = (\<lambda>name w. (1, w)),
     px_readdir = (\<lambda>d w. (None, w)),
     px_closedir = (\<lambda>d w. (0, w))\<rparr>"

definition demo_mem :: mem where
  "demo_mem = wr_bytes (\<lambda>_. 0) 100 (packet_bytes (req_items (RRead 3 2)))"

definition demo_srv :: "nat rfs_srv" where
  "demo_srv = \<lparr>srv_mem = (\<lambda>_. 0), rfs_buffer = 100, server_basedir = [0x2F, 0x64], mem_read_len = 0,
     mem_expected_len = 0, mem_read_state = MEM_STATE_READ_LENGTH, mem_response_flag = False, srv_world = 0\<rparr>"

lemma demo_packet: "has_packet demo_mem 100 (req_items (RRead 3 2))"
  unfolding demo_mem_def by (rule has_packet_wr) (simp add: length_packet_bytes read_req_def addr_limit_def)

lemma demo_serve: "serve demo_posix base (RRead 3 2) 0 = Some (read_resp [10, 20], 2)"
  by (simp add: demo_posix_def os_read_def)

lemma demo_open: "serve demo_posix [0x2F, 0x64] (ROpen [0x61] 0 0) w = Some (int_resp RFS_OP_OPEN 3, w)"
  by (simp add: demo_posix_def os_open_def server_fullname_def fullname_strncat_def
      PLATFORM_MAX_FNAME_LEN_def PLATFORM_PATH_SEPARATOR_def)

lemma demo_fresh: "fresh demo_srv"
  by (simp add: fresh_def demo_srv_def RFS_BUFFER_LEN_def MAX_PACKET_SIZE_def rpc_sizes addr_limit_def)

theorem server_implements_serve_witness:
  "\<exists>m'. server_execute_request demo_posix [0x2F, 0x64] demo_mem 100 0 = Some (SERVER_OK, m', 2) \<and>
      has_packet m' 100 (read_resp [10, 20])"
  using server_implements_serve [OF demo_packet _ demo_serve, of "[0x2F, 0x64]"]
  by (simp add: length_packet_bytes read_resp_def addr_limit_def)

theorem rfsmux_serves_request_witness:
  "\<exists>s'. rfsmux_bytes demo_posix (packet_bytes (req_items (ROpen [0x61] 0 0))) demo_srv =
      Some (packet_bytes (int_resp RFS_OP_OPEN 3), s') \<and> fresh s'"
proof -
  have "serve demo_posix (server_basedir demo_srv) (ROpen [0x61] 0 0) (srv_world demo_srv) = Some (int_resp RFS_OP_OPEN 3, 0)"
    using demo_open by (simp add: demo_srv_def)
  from rfsmux_serves_request [OF demo_fresh _ this] show ?thesis
    by (auto simp: str_ok_def length_packet_bytes open_req_def int_resp_def RFS_BUFFER_LEN_def MAX_PACKET_SIZE_def rpc_sizes)
qed

theorem rfsmux_bad_header_sticks_witness:
  "\<exists>s'. rfsmux_bytes demo_posix [0, 0, 0, 0] demo_srv = Some ([], s') \<and>
      rfsmux_bytes demo_posix (packet_bytes (req_items (ROpen [0x61] 0 0))) s' = Some ([], s')"
  using rfsmux_bad_header_sticks [OF demo_fresh, of 0 0 demo_posix 0 0]
  by (force simp: TYPE_PKT_SIZE_def)

theorem server_read_error_faults_witness:
  "server_execute_request demo_posix [0x2F, 0x64]
     (wr_bytes (\<lambda>_. 0) 100 (packet_bytes (req_items (RRead 9 2)))) 100 0 = None"
proof (rule server_read_error_faults)
  show "has_packet (wr_bytes (\<lambda>_. 0) 100 (packet_bytes (req_items (RRead 9 2)))) 100 (req_items (RRead 9 2))"
    by (rule has_packet_wr) (simp add: length_packet_bytes read_req_def addr_limit_def)
  show "os_read demo_posix 9 2 0 = ((-1, []), 0)"
    by (simp add: demo_posix_def os_read_def)
qed

end
