(* ===== verification/Rfs_Client.thy ===== *)
theory Rfs_Client
  imports Rfs_Server
begin

text \<open>
  The remote file system client on the device (\<open>src/src/remotefs/client.c\<close>), the device driver
  that splits long transfers (\<open>elua_rfs.c\<close>) and its serial transport. The interface between client
  and transport is the locale \<open>rfs_transport\<close>; it is interpreted on the device's send and receive
  loops over a serial line whose far end is the multiplexer's RFS branch of \<open>Rfs_Server\<close>, so that
  the theorems speak about a call on the device and its effect on the host.
\<close>

section \<open>Client\<close>

definition CLIENT_OK :: int where "CLIENT_OK = 0"
definition CLIENT_ERR :: int where "CLIENT_ERR = 1"

lemma client_codes [simp]: "CLIENT_OK \<noteq> CLIENT_ERR" "CLIENT_ERR \<noteq> CLIENT_OK"
  by (simp_all add: CLIENT_OK_def CLIENT_ERR_def)

text \<open>The static variables of \<open>client.c\<close>, the memory, and the state \<open>'l\<close> of the link. \<open>rfsc_recv size
  timeout\<close> yields the bytes it stored; their number is its result.\<close>

record 'l rfsc =
  rfsc_mem :: mem
  rfsc_buffer :: nat
  rfsc_send :: "u8 list \<Rightarrow> 'l \<Rightarrow> (u32 \<times> 'l) option"
  rfsc_recv :: "u32 \<Rightarrow> u64 \<Rightarrow> 'l \<Rightarrow> (u8 list \<times> 'l) option"
  rfsc_timeout :: u64
  rfsc_link :: 'l

definition rfsc_setup :: "nat \<Rightarrow> (u8 list \<Rightarrow> 'l \<Rightarrow> (u32 \<times> 'l) option) \<Rightarrow>
    (u32 \<Rightarrow> u64 \<Rightarrow> 'l \<Rightarrow> (u8 list \<times> 'l) option) \<Rightarrow> u64 \<Rightarrow> 'l rfsc \<Rightarrow> 'l rfsc" where
  "rfsc_setup pbuf send recv timeout c =
     c\<lparr>rfsc_buffer := pbuf, rfsc_send := send, rfsc_recv := recv, rfsc_timeout := timeout\<rparr>"

definition rfsc_set_timeout :: "u64 \<Rightarrow> 'l rfsc \<Rightarrow> 'l rfsc" where
  "rfsc_set_timeout timeout c = c\<lparr>rfsc_timeout := timeout\<rparr>"

text \<open>A receive into the buffer at the given offset.\<close>

definition rfsc_recv_at :: "nat \<Rightarrow> u32 \<Rightarrow> u64 \<Rightarrow> 'l rfsc \<Rightarrow> (u32 \<times> 'l rfsc) option" where
  "rfsc_recv_at off n timeout c =
     do {
       (bs, l) \<leftarrow> rfsc_recv c n timeout (rfsc_link c);
       Some (word_of_nat (length bs),
         c\<lparr>rfsc_mem := wr_bytes (rfsc_mem c) (rfsc_buffer c + off) bs, rfsc_link := l\<rparr>)
     }"

partial_function (option) rfsc_drain :: "'l rfsc \<Rightarrow> 'l rfsc option" where
  "rfsc_drain c =
     do {
       (n, c') \<leftarrow> rfsc_recv_at 0 1 0 c;
       if n = 1 then rfsc_drain c' else Some c'
     }"

definition rfsch_send_request_read_response :: "'l rfsc \<Rightarrow> (int \<times> 'l rfsc) option" where
  "rfsch_send_request_read_response c0 =
     do {
       c \<leftarrow> rfsc_drain c0;
       let (err, temp16) = eluarpc_get_packet_size (rfsc_mem c) (rfsc_buffer c);
       if err = ELUARPC_ERR then Some (CLIENT_ERR, c)
       else do {
         (sent, l) \<leftarrow> rfsc_send c (rd_bytes (rfsc_mem c) (rfsc_buffer c) (unat temp16)) (rfsc_link c);
         let c1 = c\<lparr>rfsc_link := l\<rparr>;
         if sent \<noteq> ucast temp16 then Some (CLIENT_ERR, c1)
         else do {
           (readbytes, c2) \<leftarrow> rfsc_recv_at 0 (word_of_nat ELUARPC_START_OFFSET) (rfsc_timeout c1) c1;
           if readbytes \<noteq> word_of_nat ELUARPC_START_OFFSET then Some (CLIENT_ERR, c2)
           else
             let (err, temp16) = eluarpc_get_packet_size (rfsc_mem c2) (rfsc_buffer c2);
                 rest = ucast temp16 - word_of_nat ELUARPC_START_OFFSET
             in if err = ELUARPC_ERR then Some (CLIENT_ERR, c2)
                else do {
                  (readbytes, c3) \<leftarrow> rfsc_recv_at ELUARPC_START_OFFSET rest (rfsc_timeout c2) c2;
                  Some (if readbytes \<noteq> rest then CLIENT_ERR else CLIENT_OK, c3)
                }
         }
       }
     }"

text \<open>The common frame of the operations: write the request into the buffer, exchange it for the
  response, read that. \<open>dflt\<close> is the result on any error.\<close>

definition rfsc_call :: "(mem \<Rightarrow> nat \<Rightarrow> mem option) \<Rightarrow> (mem \<Rightarrow> nat \<Rightarrow> (u8 \<times> rval list) option) \<Rightarrow>
    'l rfsc \<Rightarrow> (rval list option \<times> 'l rfsc) option" where
  "rfsc_call write_request read_response c0 =
     do {
       m \<leftarrow> write_request (rfsc_mem c0) (rfsc_buffer c0);
       (r, c) \<leftarrow> rfsch_send_request_read_response (c0\<lparr>rfsc_mem := m\<rparr>);
       if r = CLIENT_ERR then Some (None, c)
       else do {
         (err, vs) \<leftarrow> read_response (rfsc_mem c) (rfsc_buffer c);
         Some (if err = ELUARPC_ERR then None else Some vs, c)
       }
     }"

text \<open>The result of an operation that returns one integer, or its error value.\<close>

definition int_result :: "u32 \<Rightarrow> rval list option \<Rightarrow> u32 option" where
  "int_result dflt r = (case r of None \<Rightarrow> Some dflt | Some [V32 v] \<Rightarrow> Some v | _ \<Rightarrow> None)"

definition rfsc_open :: "os_consts \<Rightarrow> u8 list \<Rightarrow> u32 \<Rightarrow> u32 \<Rightarrow> 'l rfsc \<Rightarrow> (u32 \<times> 'l rfsc) option" where
  "rfsc_open k pathname flags mode c =
     do {
       (r, c') \<leftarrow> rfsc_call (\<lambda>m p. remotefs_open_write_request m p pathname (os_open_sys_flags_to_rfs_flags k flags) mode)
          remotefs_open_read_response c;
       fd \<leftarrow> int_result (-1) r;
       Some (fd, c')
     }"

definition rfsc_write :: "u32 \<Rightarrow> nat \<Rightarrow> u32 \<Rightarrow> 'l rfsc \<Rightarrow> (u32 \<times> 'l rfsc) option" where
  "rfsc_write fd buf cnt c =
     do {
       (r, c') \<leftarrow> rfsc_call (\<lambda>m p. remotefs_write_write_request m p fd (rd_bytes m buf (unat cnt)) cnt)
          remotefs_write_read_response c;
       res \<leftarrow> int_result (-1) r;
       Some (res, c')
     }"

text \<open>\<open>memcpy( buf, resbuf, count )\<close> copies as many bytes as the server says it sent.\<close>

definition rfsc_read :: "u32 \<Rightarrow> nat \<Rightarrow> u32 \<Rightarrow> 'l rfsc \<Rightarrow> (u32 \<times> 'l rfsc) option" where
  "rfsc_read fd buf cnt c =
     do {
       (r, c') \<leftarrow> rfsc_call (\<lambda>m p. remotefs_read_write_request m p fd cnt) remotefs_read_read_response c;
       case r of None \<Rightarrow> Some (-1, c')
       | Some [VPtr resbuf n] \<Rightarrow>
           Some (n, c'\<lparr>rfsc_mem := wr_bytes (rfsc_mem c') buf
              (case resbuf of None \<Rightarrow> [] | Some a \<Rightarrow> rd_bytes (rfsc_mem c') a (unat n))\<rparr>)
       | _ \<Rightarrow> None
     }"

definition rfsc_lseek :: "os_consts \<Rightarrow> u32 \<Rightarrow> u32 \<Rightarrow> u32 \<Rightarrow> 'l rfsc \<Rightarrow> (u32 \<times> 'l rfsc) option" where
  "rfsc_lseek k fd offset whence c =
     do {
       (r, c') \<leftarrow> rfsc_call (\<lambda>m p. remotefs_lseek_write_request m p fd offset (os_lseek_sys_whence_to_rfs_whence k whence))
          remotefs_lseek_read_response c;
       res \<leftarrow> int_result (-1) r;
       Some (res, c')
     }"

definition rfsc_close :: "u32 \<Rightarrow> 'l rfsc \<Rightarrow> (u32 \<times> 'l rfsc) option" where
  "rfsc_close fd c =
     do {
       (r, c') \<leftarrow> rfsc_call (\<lambda>m p. remotefs_close_write_request m p fd) remotefs_close_read_response c;
       res \<leftarrow> int_result (-1) r;
       Some (res, c')
     }"

definition rfsc_opendir :: "u8 list \<Rightarrow> 'l rfsc \<Rightarrow> (u32 \<times> 'l rfsc) option" where
  "rfsc_opendir name c =
     do {
       (r, c') \<leftarrow> rfsc_call (\<lambda>m p. remotefs_opendir_write_request m p name) remotefs_opendir_read_response c;
       res \<leftarrow> int_result 0 r;
       Some (res, c')
     }"

text \<open>\<open>*pname\<close>, an address in the buffer, and \<open>*psize\<close> and \<open>*ptime\<close>, which an error leaves unset.\<close>

definition rfsc_readdir :: "u32 \<Rightarrow> 'l rfsc \<Rightarrow> ((nat option \<times> (u32 \<times> u32) option) \<times> 'l rfsc) option" where
  "rfsc_readdir d c =
     do {
       (r, c') \<leftarrow> rfsc_call (\<lambda>m p. remotefs_readdir_write_request m p d) remotefs_readdir_read_response c;
       case r of None \<Rightarrow> Some ((None, None), c')
       | Some [VPtr pname _, V32 psize, V32 ptime] \<Rightarrow> Some ((pname, Some (psize, ptime)), c')
       | _ \<Rightarrow> None
     }"

definition rfsc_closedir :: "u32 \<Rightarrow> 'l rfsc \<Rightarrow> (u32 \<times> 'l rfsc) option" where
  "rfsc_closedir d c =
     do {
       (r, c') \<leftarrow> rfsc_call (\<lambda>m p. remotefs_closedir_write_request m p d) remotefs_closedir_read_response c;
       res \<leftarrow> int_result (-1) r;
       Some (res, c')
     }"

section \<open>Device driver\<close>

text \<open>\<open>rb\<close> is the board's \<open>RFS_BUFFER_SIZE\<close>, the logarithm of the size of the buffer.\<close>

definition RFS_REAL_BUFFER_SIZE :: "nat \<Rightarrow> u32" where
  "RFS_REAL_BUFFER_SIZE rb = word_of_nat (2 ^ rb) - word_of_nat ELUARPC_WRITE_REQUEST_EXTRA"

text \<open>The size of the next transfer of the two loops below.\<close>

definition rfs_chunk :: "nat \<Rightarrow> u32 \<Rightarrow> u32" where
  "rfs_chunk rb len = (if len > RFS_REAL_BUFFER_SIZE rb then RFS_REAL_BUFFER_SIZE rb else len)"

partial_function (option) rfs_write_loop :: "nat \<Rightarrow> u32 \<Rightarrow> u32 \<Rightarrow> nat \<Rightarrow> u32 \<Rightarrow> 'l rfsc \<Rightarrow> (u32 \<times> 'l rfsc) option" where
  "rfs_write_loop rb fd tot p len c =
     (if len = 0 then Some (tot, c)
      else
        let towrite = rfs_chunk rb len in
        do {
          (res, c') \<leftarrow> rfsc_write fd p towrite c;
          if res = -1 then Some (tot, c')
          else if res < towrite then Some (tot + res, c')
          else rfs_write_loop rb fd (tot + res) (p + unat towrite) (len - towrite) c'
        })"

definition rfs_write_r :: "nat \<Rightarrow> u32 \<Rightarrow> nat \<Rightarrow> u32 \<Rightarrow> 'l rfsc \<Rightarrow> (u32 \<times> 'l rfsc) option" where
  "rfs_write_r rb fd ptr len c = rfs_write_loop rb fd 0 ptr len c"

partial_function (option) rfs_read_loop :: "nat \<Rightarrow> u32 \<Rightarrow> u32 \<Rightarrow> nat \<Rightarrow> u32 \<Rightarrow> 'l rfsc \<Rightarrow> (u32 \<times> 'l rfsc) option" where
  "rfs_read_loop rb fd tot p len c =
     (if len = 0 then Some (tot, c)
      else
        let toread = rfs_chunk rb len in
        do {
          (res, c') \<leftarrow> rfsc_read fd p toread c;
          if res = -1 then Some (tot, c')
          else if res < toread then Some (tot + res, c')
          else rfs_read_loop rb fd (tot + res) (p + unat toread) (len - toread) c'
        })"

definition rfs_read_r :: "nat \<Rightarrow> u32 \<Rightarrow> nat \<Rightarrow> u32 \<Rightarrow> 'l rfsc \<Rightarrow> (u32 \<times> 'l rfsc) option" where
  "rfs_read_r rb fd ptr len c = rfs_read_loop rb fd 0 ptr len c"

definition rfs_open_r :: "os_consts \<Rightarrow> u8 list \<Rightarrow> u32 \<Rightarrow> u32 \<Rightarrow> 'l rfsc \<Rightarrow> (u32 \<times> 'l rfsc) option" where
  "rfs_open_r k path flags mode c = rfsc_open k path flags mode c"

definition rfs_close_r :: "u32 \<Rightarrow> 'l rfsc \<Rightarrow> (u32 \<times> 'l rfsc) option" where
  "rfs_close_r fd c = rfsc_close fd c"

definition rfs_lseek_r :: "os_consts \<Rightarrow> u32 \<Rightarrow> u32 \<Rightarrow> u32 \<Rightarrow> 'l rfsc \<Rightarrow> (u32 \<times> 'l rfsc) option" where
  "rfs_lseek_r k fd off whence c = rfsc_lseek k fd off whence c"

definition rfs_opendir_r :: "u8 list \<Rightarrow> 'l rfsc \<Rightarrow> (u32 \<times> 'l rfsc) option" where
  "rfs_opendir_r name c = rfsc_opendir name c"

text \<open>The entry (name, size and time), or NULL.\<close>

definition rfs_readdir_r :: "u32 \<Rightarrow> 'l rfsc \<Rightarrow> ((nat \<times> (u32 \<times> u32) option) option \<times> 'l rfsc) option" where
  "rfs_readdir_r d c =
     do {
       ((fname, attr), c') \<leftarrow> rfsc_readdir d c;
       Some (case fname of None \<Rightarrow> None | Some a \<Rightarrow> Some (a, attr), c')
     }"

definition rfs_closedir_r :: "u32 \<Rightarrow> 'l rfsc \<Rightarrow> (u32 \<times> 'l rfsc) option" where
  "rfs_closedir_r d c = rfsc_closedir d c"

text \<open>The serial transport over \<open>platform_uart_send\<close> and \<open>platform_uart_recv\<close>, which are
  parameters; the latter yields \<open>None\<close> for -1.\<close>

fun rfs_send :: "(u8 \<Rightarrow> 'l \<Rightarrow> 'l option) \<Rightarrow> u8 list \<Rightarrow> 'l \<Rightarrow> (u32 \<times> 'l) option" where
  "rfs_send uart_send [] l = Some (0, l)"
| "rfs_send uart_send (b # bs) l =
     do { l' \<leftarrow> uart_send b l; (n, l'') \<leftarrow> rfs_send uart_send bs l'; Some (n + 1, l'') }"

fun rfs_recv_loop :: "(u64 \<Rightarrow> 'l \<Rightarrow> (u8 option \<times> 'l) option) \<Rightarrow> nat \<Rightarrow> u64 \<Rightarrow> 'l \<Rightarrow> (u8 list \<times> 'l) option" where
  "rfs_recv_loop uart_recv 0 timeout l = Some ([], l)"
| "rfs_recv_loop uart_recv (Suc n) timeout l =
     do {
       (data, l') \<leftarrow> uart_recv timeout l;
       case data of None \<Rightarrow> Some ([], l')
       | Some b \<Rightarrow> do { (bs, l'') \<leftarrow> rfs_recv_loop uart_recv n timeout l'; Some (b # bs, l'') }
     }"

definition rfs_recv :: "(u64 \<Rightarrow> 'l \<Rightarrow> (u8 option \<times> 'l) option) \<Rightarrow> u32 \<Rightarrow> u64 \<Rightarrow> 'l \<Rightarrow> (u8 list \<times> 'l) option" where
  "rfs_recv uart_recv n timeout l = rfs_recv_loop uart_recv (unat n) timeout l"

section \<open>The contract of a transport\<close>

text \<open>What the client needs of the functions it is set up with: on a good link, a packet that is
  sent is answered with the bytes of its reply, which are then received in order. \<open>pending\<close> are the
  bytes waiting to be received, \<open>world\<close> the state of the far end, \<open>replies\<close> its behaviour.\<close>

locale rfs_transport =
  fixes send :: "u8 list \<Rightarrow> 'l \<Rightarrow> (u32 \<times> 'l) option"
    and recv :: "u32 \<Rightarrow> u64 \<Rightarrow> 'l \<Rightarrow> (u8 list \<times> 'l) option"
    and good :: "'l \<Rightarrow> bool"
    and pending :: "'l \<Rightarrow> u8 list"
    and world :: "'l \<Rightarrow> 'w"
    and replies :: "u8 list \<Rightarrow> 'w \<Rightarrow> u8 list \<Rightarrow> 'w \<Rightarrow> bool"
  assumes send_ok: "good l \<Longrightarrow> replies pk (world l) out w' \<Longrightarrow>
      \<exists>l'. send pk l = Some (word_of_nat (length pk), l') \<and> good l' \<and> pending l' = pending l @ out \<and> world l' = w'"
    and recv_ok: "good l \<Longrightarrow> \<exists>l'. recv n t l = Some (take (unat n) (pending l), l') \<and> good l' \<and>
      pending l' = drop (unat n) (pending l) \<and> world l' = world l"
begin

definition ready :: "'l rfsc \<Rightarrow> bool" where
  "ready c \<longleftrightarrow> rfsc_send c = send \<and> rfsc_recv c = recv \<and> good (rfsc_link c)"

lemma recv_at_ok:
  assumes "ready c"
  shows "\<exists>c'. rfsc_recv_at off n t c = Some (word_of_nat (min (unat n) (length (pending (rfsc_link c)))), c') \<and>
      ready c' \<and> pending (rfsc_link c') = drop (unat n) (pending (rfsc_link c)) \<and>
      world (rfsc_link c') = world (rfsc_link c) \<and> rfsc_buffer c' = rfsc_buffer c \<and>
      rfsc_timeout c' = rfsc_timeout c \<and>
      rfsc_mem c' = wr_bytes (rfsc_mem c) (rfsc_buffer c + off) (take (unat n) (pending (rfsc_link c)))"
  using assms recv_ok [of "rfsc_link c" n t] by (auto simp: ready_def rfsc_recv_at_def min.commute)

text \<open>The drain loop ends, and its last byte is left at the start of the buffer.\<close>

lemma drain_ok:
  assumes "ready c"
  shows "\<exists>c'. rfsc_drain c = Some c' \<and> ready c' \<and> pending (rfsc_link c') = [] \<and>
      world (rfsc_link c') = world (rfsc_link c) \<and> rfsc_buffer c' = rfsc_buffer c \<and>
      rfsc_timeout c' = rfsc_timeout c \<and>
      rfsc_mem c' = (if pending (rfsc_link c) = [] then rfsc_mem c
         else wr_bytes (rfsc_mem c) (rfsc_buffer c) [last (pending (rfsc_link c))])"
  using assms
proof (induction "length (pending (rfsc_link c))" arbitrary: c)
  case 0
  then obtain c' where "rfsc_recv_at 0 1 0 c = Some (0, c')" "ready c'" "pending (rfsc_link c') = []"
    "world (rfsc_link c') = world (rfsc_link c)" "rfsc_buffer c' = rfsc_buffer c" "rfsc_timeout c' = rfsc_timeout c"
    "rfsc_mem c' = rfsc_mem c"
    using recv_at_ok [of c 0 1 0] by auto
  with 0 show ?case by (simp add: rfsc_drain.simps [of c])
next
  case (Suc n)
  then obtain b bs where p: "pending (rfsc_link c) = b # bs" "length bs = n"
    by (cases "pending (rfsc_link c)") auto
  with recv_at_ok [OF Suc.prems, of 0 1 0] obtain c1 where c1: "rfsc_recv_at 0 1 0 c = Some (1, c1)" "ready c1"
    "pending (rfsc_link c1) = bs" "world (rfsc_link c1) = world (rfsc_link c)" "rfsc_buffer c1 = rfsc_buffer c"
    "rfsc_timeout c1 = rfsc_timeout c" "rfsc_mem c1 = wr_bytes (rfsc_mem c) (rfsc_buffer c) [b]"
    by auto
  have "wr_bytes (wr_bytes m a [x]) a [y] = wr_bytes m a [y]" for m a and x y :: u8
    by (auto simp: wr_bytes_def)
  with Suc.hyps(1) [of c1] c1 p show ?case
    by (auto simp: rfsc_drain.simps [of c])
qed

text \<open>One exchange with nothing left over from before.\<close>

lemma exchange_ok:
  assumes r: "ready c" and empty: "pending (rfsc_link c) = []"
    and pkt: "has_packet (rfsc_mem c) (rfsc_buffer c) its" and len: "length (packet_bytes its) < 2 ^ 16"
    and rep: "replies (packet_bytes its) (world (rfsc_link c)) (packet_bytes resp) w'"
    and len': "length (packet_bytes resp) < 2 ^ 16" "rfsc_buffer c + length (packet_bytes resp) \<le> addr_limit"
  shows "\<exists>c'. rfsch_send_request_read_response c = Some (CLIENT_OK, c') \<and> ready c' \<and>
      pending (rfsc_link c') = [] \<and> world (rfsc_link c') = w' \<and> rfsc_buffer c' = rfsc_buffer c \<and>
      has_packet (rfsc_mem c') (rfsc_buffer c) resp \<and>
      (\<forall>x. x < rfsc_buffer c \<or> rfsc_buffer c + length (packet_bytes resp) \<le> x \<longrightarrow> rfsc_mem c' x = rfsc_mem c x)"
proof -
  let ?b = "rfsc_buffer c" and ?R = "packet_bytes resp"
  have R16: "16 \<le> length ?R" by (simp add: length_packet_bytes)
  from drain_ok [OF r] empty obtain c1 where c1: "rfsc_drain c = Some c1" "ready c1"
    "pending (rfsc_link c1) = []" "world (rfsc_link c1) = world (rfsc_link c)" "rfsc_buffer c1 = ?b"
    "rfsc_timeout c1 = rfsc_timeout c" "rfsc_mem c1 = rfsc_mem c"
    by auto
  have size1: "eluarpc_get_packet_size (rfsc_mem c1) ?b = (ELUARPC_OK, word_of_nat (length (packet_bytes its)))"
    using get_packet_size_has_packet [OF pkt] c1(7) by simp
  have data1: "rd_bytes (rfsc_mem c1) ?b (unat (word_of_nat (length (packet_bytes its)) :: u16)) = packet_bytes its"
    using pkt len c1(7) by (simp add: has_packet_def unat_of_nat_less)
  from send_ok [of "rfsc_link c1" "packet_bytes its" ?R w'] c1(2,4) rep obtain l where
    l: "rfsc_send c1 (packet_bytes its) (rfsc_link c1) = Some (word_of_nat (length (packet_bytes its)), l)"
      "good l" "pending l = ?R" "world l = w'"
    using c1(3) by (auto simp: ready_def)
  have sent: "(word_of_nat (length (packet_bytes its)) :: u32) = ucast (word_of_nat (length (packet_bytes its)) :: u16)"
    using len by (simp add: ucast_of_nat_small)
  let ?c1' = "c1\<lparr>rfsc_link := l\<rparr>"
  have rd1: "ready ?c1'" using c1(2) l(2) by (simp add: ready_def)
  from recv_at_ok [OF rd1, of 0 4 "rfsc_timeout c1"] l R16 c1 obtain c2 where
    c2: "rfsc_recv_at 0 4 (rfsc_timeout c1) ?c1' = Some (4, c2)" "ready c2" "pending (rfsc_link c2) = drop 4 ?R"
      "world (rfsc_link c2) = w'" "rfsc_buffer c2 = ?b" "rfsc_timeout c2 = rfsc_timeout c1"
      "rfsc_mem c2 = wr_bytes (rfsc_mem c) ?b (take 4 ?R)"
    by (auto simp: min_def)
  have size2: "eluarpc_get_packet_size (rfsc_mem c2) ?b = (ELUARPC_OK, word_of_nat (length ?R))"
    by (rule get_packet_size_hdr) (simp add: c2(7) take_4_packet mem_simps)
  let ?rest = "(ucast (word_of_nat (length ?R) :: u16) :: u32) - 4"
  have rest: "unat ?rest = length ?R - 4"
  proof -
    have "ucast (word_of_nat (length ?R) :: u16) = (word_of_nat (length ?R) :: u32)"
      using len'(1) by (intro ucast_of_nat_small) simp
    moreover have "unat (word_of_nat (length ?R) :: u32) = length ?R"
      using len'(1) by (intro unat_of_nat_less) simp
    ultimately show ?thesis
      using R16 by (simp add: unat_sub word_le_nat_alt)
  qed
  from recv_at_ok [OF c2(2), of 4 ?rest "rfsc_timeout c2"] c2 rest R16 obtain c3 where
    c3: "rfsc_recv_at 4 ?rest (rfsc_timeout c2) c2 = Some (word_of_nat (length ?R - 4), c3)" "ready c3"
      "pending (rfsc_link c3) = []" "world (rfsc_link c3) = w'" "rfsc_buffer c3 = ?b"
      "rfsc_mem c3 = wr_bytes (rfsc_mem c2) (?b + 4) (drop 4 ?R)"
    by auto
  have rest': "word_of_nat (length ?R - 4) = ?rest"
    by (simp flip: rest)
  have mem: "rfsc_mem c3 = wr_bytes (rfsc_mem c) ?b ?R"
    using c3(6) c2(7) R16 wr_bytes_append [of "rfsc_mem c" ?b "take 4 ?R" "drop 4 ?R"] by simp
  have "rfsch_send_request_read_response c = Some (CLIENT_OK, c3)"
    using c1 size1 data1 l sent c2 size2 c3 rest'
    by (simp add: rfsch_send_request_read_response_def rpc_sizes)
  then show ?thesis
    using c3(2-5) mem len'(2) by (intro exI [of _ c3]) (simp add: has_packet_wr mem_simps)
qed

definition quiet :: "nat \<Rightarrow> 'l rfsc \<Rightarrow> bool" where
  "quiet L c \<longleftrightarrow> ready c \<and> pending (rfsc_link c) = [] \<and> L < 2 ^ 16 \<and> rfsc_buffer c + L \<le> addr_limit"

text \<open>A call that is answered, from a quiet link, with both packets within \<open>L\<close> bytes: it returns the
  fields of the answer, and only the \<open>L\<close> bytes of the buffer change in memory.\<close>

lemma call_ok:
  assumes q: "quiet L c"
    and wr: "wrq (rfsc_mem c) (rfsc_buffer c) = Some (wr_bytes (rfsc_mem c) (rfsc_buffer c) (packet_bytes its))"
    and rd: "\<And>m. has_packet m (rfsc_buffer c) resp \<Longrightarrow> rdr m (rfsc_buffer c) = Some (ELUARPC_OK, vs)"
    and rep: "replies (packet_bytes its) (world (rfsc_link c)) (packet_bytes resp) w'"
    and len: "length (packet_bytes its) \<le> L" "length (packet_bytes resp) \<le> L"
  shows "\<exists>c'. rfsc_call wrq rdr c = Some (Some vs, c') \<and> quiet L c' \<and> world (rfsc_link c') = w' \<and>
      rfsc_buffer c' = rfsc_buffer c \<and> has_packet (rfsc_mem c') (rfsc_buffer c) resp \<and>
      (\<forall>x. x < rfsc_buffer c \<or> rfsc_buffer c + L \<le> x \<longrightarrow> rfsc_mem c' x = rfsc_mem c x)"
proof -
  let ?c = "c\<lparr>rfsc_mem := wr_bytes (rfsc_mem c) (rfsc_buffer c) (packet_bytes its)\<rparr>"
  have L: "L < 2 ^ 16" "rfsc_buffer c + L \<le> addr_limit" "ready ?c" "pending (rfsc_link ?c) = []"
    using q by (auto simp: quiet_def ready_def)
  have "has_packet (rfsc_mem ?c) (rfsc_buffer ?c) its"
    using L len by (simp add: has_packet_wr)
  from exchange_ok [OF L(3,4) this _ _, of resp w'] rep len L obtain c' where
    c': "rfsch_send_request_read_response ?c = Some (CLIENT_OK, c')" "ready c'" "pending (rfsc_link c') = []"
      "world (rfsc_link c') = w'" "rfsc_buffer c' = rfsc_buffer c" "has_packet (rfsc_mem c') (rfsc_buffer c) resp"
    and out: "\<And>x. x < rfsc_buffer c \<or> rfsc_buffer c + length (packet_bytes resp) \<le> x \<Longrightarrow> rfsc_mem c' x = rfsc_mem ?c x"
    by auto
  have "rfsc_mem c' x = rfsc_mem c x" if "x < rfsc_buffer c \<or> rfsc_buffer c + L \<le> x" for x
    using that out [of x] len by (auto simp: mem_simps)
  with c' wr rd [OF c'(6)] L show ?thesis
    by (auto simp: rfsc_call_def quiet_def)
qed

text \<open>The client operations, each against the answer of the far end.\<close>

lemma open_ok:
  assumes "quiet L c" and "length path + 1 < 2 ^ 32"
    and "replies (packet_bytes (open_req path (os_open_sys_flags_to_rfs_flags k flags) mode)) (world (rfsc_link c))
           (packet_bytes (int_resp RFS_OP_OPEN fd)) w'"
    and "length (packet_bytes (open_req path (os_open_sys_flags_to_rfs_flags k flags) mode)) \<le> L" "27 \<le> L"
  shows "\<exists>c'. rfsc_open k path flags mode c = Some (fd, c') \<and> quiet L c' \<and> world (rfsc_link c') = w'"
proof -
  let ?rq = "open_req path (os_open_sys_flags_to_rfs_flags k flags) mode"
  have "rfsc_buffer c + length (packet_bytes ?rq) \<le> addr_limit"
    using assms(1,4) by (simp add: quiet_def)
  from call_ok [where wrq = "\<lambda>m p. remotefs_open_write_request m p path (os_open_sys_flags_to_rfs_flags k flags) mode"
      and rdr = remotefs_open_read_response,
      OF assms(1) rfs_write_requests(1) [OF assms(2) this] rfs_read_responses(1) [where r = fd] assms(3,4)]
  show ?thesis
    using assms(5) by (auto simp: rfsc_open_def int_result_def length_packet_bytes int_resp_def)
qed

lemma write_ok:
  assumes "quiet L c"
    and "replies (packet_bytes (write_req fd (rd_bytes (rfsc_mem c) buf (unat n)))) (world (rfsc_link c))
           (packet_bytes (int_resp RFS_OP_WRITE res)) w'"
    and "unat n + 29 \<le> L"
  shows "\<exists>c'. rfsc_write fd buf n c = Some (res, c') \<and> quiet L c' \<and> world (rfsc_link c') = w' \<and>
     rfsc_buffer c' = rfsc_buffer c \<and>
     (\<forall>x. x < rfsc_buffer c \<or> rfsc_buffer c + L \<le> x \<longrightarrow> rfsc_mem c' x = rfsc_mem c x)"
proof -
  let ?rq = "write_req fd (rd_bytes (rfsc_mem c) buf (unat n))"
  have len: "length (packet_bytes ?rq) \<le> L"
    using assms(3) by (simp add: length_packet_bytes write_req_def)
  then have "rfsc_buffer c + length (packet_bytes ?rq) \<le> addr_limit"
    using assms(1) by (simp add: quiet_def)
  then have "remotefs_write_write_request (rfsc_mem c) (rfsc_buffer c) fd (rd_bytes (rfsc_mem c) buf (unat n)) n =
      Some (wr_bytes (rfsc_mem c) (rfsc_buffer c) (packet_bytes ?rq))"
    by (intro rfs_write_requests(2)) simp_all
  from call_ok [where wrq = "\<lambda>m p. remotefs_write_write_request m p fd (rd_bytes m buf (unat n)) n"
      and rdr = remotefs_write_read_response, OF assms(1) this rfs_read_responses(2) [where r = res] assms(2) len]
  show ?thesis
    using assms(3) by (auto simp: rfsc_write_def int_result_def length_packet_bytes int_resp_def)
qed

lemma read_ok:
  assumes "quiet L c"
    and "replies (packet_bytes (read_req fd n)) (world (rfsc_link c)) (packet_bytes (read_resp data)) w'"
    and "length data + 29 \<le> L" and "28 \<le> L"
  shows "\<exists>c'. rfsc_read fd buf n c = Some (word_of_nat (length data), c') \<and> quiet L c' \<and> world (rfsc_link c') = w' \<and>
     rfsc_buffer c' = rfsc_buffer c \<and> rd_bytes (rfsc_mem c') buf (length data) = data \<and>
     (\<forall>x. (x < rfsc_buffer c \<or> rfsc_buffer c + L \<le> x) \<and> (x < buf \<or> buf + length data \<le> x) \<longrightarrow>
        rfsc_mem c' x = rfsc_mem c x)"
proof -
  have L: "rfsc_buffer c + L \<le> addr_limit" "L < 2 ^ 16"
    using assms(1) by (simp_all add: quiet_def)
  then have d: "length data < 2 ^ 32"
    using assms(3) by simp
  have lens: "length (packet_bytes (read_req fd n)) \<le> L" "length (packet_bytes (read_resp data)) \<le> L"
    using assms(3,4) by (simp_all add: length_packet_bytes read_req_def read_resp_def)
  then have "rfsc_buffer c + length (packet_bytes (read_req fd n)) \<le> addr_limit"
    using L by simp
  from call_ok [where wrq = "\<lambda>m p. remotefs_read_write_request m p fd n" and rdr = remotefs_read_read_response,
      OF assms(1) rfs_write_requests(3) [OF this] rfs_read_responses(3) [OF _ d] assms(2) lens]
  obtain c' where c': "rfsc_call (\<lambda>m p. remotefs_read_write_request m p fd n) remotefs_read_read_response c =
      Some (Some [VPtr (blk (rfsc_buffer c + 17) data) (word_of_nat (length data))], c')"
    "quiet L c'" "world (rfsc_link c') = w'" "rfsc_buffer c' = rfsc_buffer c"
    "has_packet (rfsc_mem c') (rfsc_buffer c) (read_resp data)"
    "\<forall>x. x < rfsc_buffer c \<or> rfsc_buffer c + L \<le> x \<longrightarrow> rfsc_mem c' x = rfsc_mem c x"
    by auto
  have "rd_bytes (rfsc_mem c') (rfsc_buffer c + 17) (length data) = data"
    using has_packet_block [of "rfsc_mem c'" "rfsc_buffer c" "[IRes RFS_OP_READ]" data "[]"] c'(5)
    by (simp add: read_resp_def add.commute)
  moreover have "unat (word_of_nat (length data) :: u32) = length data"
    using d by (intro unat_of_nat_less) simp
  ultimately have "(case blk (rfsc_buffer c + 17) data of None \<Rightarrow> []
      | Some a \<Rightarrow> rd_bytes (rfsc_mem c') a (unat (word_of_nat (length data) :: u32))) = data"
    by (simp add: blk_def)
  with c' show ?thesis
    by (auto simp: rfsc_read_def quiet_def ready_def mem_simps)
qed

text \<open>A byte left over from an earlier exchange is drained into the start of the buffer, over the
  request that was just written there.\<close>

lemma exchange_stale:
  assumes "ready c" and "pending (rfsc_link c) \<noteq> []" and "last (pending (rfsc_link c)) \<noteq> TYPE_PKT_SIZE"
  shows "\<exists>c'. rfsch_send_request_read_response c = Some (CLIENT_ERR, c') \<and> ready c' \<and>
      pending (rfsc_link c') = [] \<and> world (rfsc_link c') = world (rfsc_link c)"
proof -
  from drain_ok [OF assms(1)] assms(2) obtain c1 where c1: "rfsc_drain c = Some c1" "ready c1"
    "pending (rfsc_link c1) = []" "world (rfsc_link c1) = world (rfsc_link c)" "rfsc_buffer c1 = rfsc_buffer c"
    "rfsc_mem c1 = wr_bytes (rfsc_mem c) (rfsc_buffer c) [last (pending (rfsc_link c))]"
    by auto
  have "fst (eluarpc_get_packet_size (rfsc_mem c1) (rfsc_buffer c1)) = ELUARPC_ERR"
    using assms(3) c1(5,6) by (auto simp: eluarpc_get_packet_size_def rpc_reader_defs wr_bytes_def)
  with c1 show ?thesis
    by (cases "eluarpc_get_packet_size (rfsc_mem c1) (rfsc_buffer c1)")
      (auto simp: rfsch_send_request_read_response_def)
qed

end

section \<open>A serial line to the multiplexer\<close>

text \<open>A line that loses nothing, with the RFS branch of the multiplexer at its other end: \<open>hl_rx\<close> are
  the bytes on their way to the device.\<close>

record 'w line =
  hl_rx :: "u8 list"
  hl_srv :: "'w rfs_srv"

definition line_send :: "'w posix \<Rightarrow> u8 \<Rightarrow> 'w line \<Rightarrow> 'w line option" where
  "line_send px b l =
     do { (out, s') \<leftarrow> rfsmux_byte px b (hl_srv l); Some (l\<lparr>hl_rx := hl_rx l @ out, hl_srv := s'\<rparr>) }"

definition line_recv :: "u64 \<Rightarrow> 'w line \<Rightarrow> (u8 option \<times> 'w line) option" where
  "line_recv timeout l = (case hl_rx l of [] \<Rightarrow> Some (None, l) | b # bs \<Rightarrow> Some (Some b, l\<lparr>hl_rx := bs\<rparr>))"

definition rfs_replies :: "'w posix \<Rightarrow> u8 list \<Rightarrow> u8 list \<times> 'w \<Rightarrow> u8 list \<Rightarrow> u8 list \<times> 'w \<Rightarrow> bool" where
  "rfs_replies px pk st out st' \<longleftrightarrow>
     (\<exists>r resp. pk = packet_bytes (req_items r) \<and> req_ok r \<and> serve px (fst st) r (snd st) = Some (resp, snd st') \<and>
        fst st' = fst st \<and> out = packet_bytes resp \<and> length pk \<le> RFS_BUFFER_LEN \<and> length out \<le> RFS_BUFFER_LEN)"

lemma rfs_send_line:
  "rfs_send (line_send px) bs l =
     do { (out, s') \<leftarrow> rfsmux_bytes px bs (hl_srv l);
          Some (word_of_nat (length bs), l\<lparr>hl_rx := hl_rx l @ out, hl_srv := s'\<rparr>) }"
proof (induction bs arbitrary: l)
  case (Cons b bs)
  then show ?case
    by (auto simp: line_send_def add.commute split: bind_splits)
qed simp

lemma rfs_recv_line:
  "rfs_recv_loop line_recv n t l = Some (take n (hl_rx l), l\<lparr>hl_rx := drop n (hl_rx l)\<rparr>)"
  by (induction n arbitrary: l) (auto simp: line_recv_def split: list.splits)

interpretation rfsl: rfs_transport "rfs_send (line_send px)" "rfs_recv line_recv" "\<lambda>l. fresh (hl_srv l)" hl_rx
  "\<lambda>l. (server_basedir (hl_srv l), srv_world (hl_srv l))" "rfs_replies px" for px
proof unfold_locales
  fix l :: "'a line" and pk out w'
  assume "fresh (hl_srv l)" "rfs_replies px pk (server_basedir (hl_srv l), srv_world (hl_srv l)) out w'"
  then show "\<exists>l'. rfs_send (line_send px) pk l = Some (word_of_nat (length pk), l') \<and> fresh (hl_srv l') \<and>
      hl_rx l' = hl_rx l @ out \<and> (server_basedir (hl_srv l'), srv_world (hl_srv l')) = w'"
    unfolding rfs_replies_def rfs_send_line
    using rfsmux_request [of "hl_srv l"] by (cases w') fastforce
next
  fix l :: "'a line" and n t
  assume "fresh (hl_srv l)"
  then show "\<exists>l'. rfs_recv line_recv n t l = Some (take (unat n) (hl_rx l), l') \<and> fresh (hl_srv l') \<and>
      hl_rx l' = drop (unat n) (hl_rx l) \<and>
      (server_basedir (hl_srv l'), srv_world (hl_srv l')) = (server_basedir (hl_srv l), srv_world (hl_srv l))"
    by (simp add: rfs_recv_def rfs_recv_line)
qed

text \<open>A client of a board with \<open>RFS_BUFFER_SIZE = rb\<close>, connected to the line, with the server idle.\<close>

definition rfs_online :: "'w posix \<Rightarrow> nat \<Rightarrow> 'w line rfsc \<Rightarrow> bool" where
  "rfs_online px rb c \<longleftrightarrow> rfsc_send c = rfs_send (line_send px) \<and> rfsc_recv c = rfs_recv line_recv \<and>
     fresh (hl_srv (rfsc_link c)) \<and> 5 \<le> rb \<and> 2 ^ rb \<le> RFS_BUFFER_LEN \<and> rfsc_buffer c + 2 ^ rb \<le> addr_limit"

abbreviation host_world :: "'w line rfsc \<Rightarrow> 'w" where
  "host_world c \<equiv> srv_world (hl_srv (rfsc_link c))"

abbreviation host_basedir :: "'w line rfsc \<Rightarrow> u8 list" where
  "host_basedir c \<equiv> server_basedir (hl_srv (rfsc_link c))"

abbreviation line_empty :: "'w line rfsc \<Rightarrow> bool" where
  "line_empty c \<equiv> hl_rx (rfsc_link c) = []"

lemma rfs_online_quiet:
  "rfs_online px rb c \<and> line_empty c \<longleftrightarrow> rfsl.quiet px (2 ^ rb) c \<and> 5 \<le> rb \<and> 2 ^ rb \<le> RFS_BUFFER_LEN"
  by (auto simp: rfs_online_def rfsl.quiet_def rfsl.ready_def RFS_BUFFER_LEN_def MAX_PACKET_SIZE_def rpc_sizes)

lemma pow_ge_32: "5 \<le> rb \<Longrightarrow> 32 \<le> (2::nat) ^ rb"
  using power_increasing [of 5 rb "2::nat"] by simp

section \<open>Transfers in chunks\<close>

function chunks :: "nat \<Rightarrow> 'a list \<Rightarrow> 'a list list" where
  "chunks k xs = (if k = 0 \<or> xs = [] then [] else take k xs # chunks k (drop k xs))"
  by auto
termination by (relation "measure (\<lambda>(k, xs). length xs)") auto

declare chunks.simps [simp del]

lemma concat_chunks: "0 < k \<Longrightarrow> concat (chunks k xs) = xs"
  by (induction k xs rule: chunks.induct) (simp add: chunks.simps)

definition real_size :: "nat \<Rightarrow> nat" where
  "real_size rb = 2 ^ rb - 29"

lemma unat_RFS_REAL_BUFFER_SIZE:
  assumes "5 \<le> rb" and "2 ^ rb \<le> RFS_BUFFER_LEN"
  shows "unat (RFS_REAL_BUFFER_SIZE rb) = real_size rb"
proof -
  have "unat (word_of_nat (2 ^ rb) :: u32) = 2 ^ rb"
    using assms(2) by (intro unat_of_nat_less) (simp add: RFS_BUFFER_LEN_def MAX_PACKET_SIZE_def rpc_sizes)
  then show ?thesis
    using pow_ge_32 [OF assms(1)]
    by (simp add: RFS_REAL_BUFFER_SIZE_def rpc_sizes real_size_def unat_sub word_le_nat_alt)
qed

lemma real_size_bounds:
  assumes "5 \<le> rb" and "2 ^ rb \<le> RFS_BUFFER_LEN"
  shows "0 < real_size rb" and "real_size rb + 29 = 2 ^ rb" and "real_size rb \<le> 4096"
  using assms pow_ge_32 [OF assms(1)]
  by (simp_all add: real_size_def RFS_BUFFER_LEN_def MAX_PACKET_SIZE_def rpc_sizes)

lemma small_not_minus_1: "unat (w :: u32) \<le> 4096 \<Longrightarrow> w \<noteq> -1"
  by (auto simp: unsigned_minus_1_eq_mask mask_eq_exp_minus_1)

lemma unat_rfs_chunk:
  assumes "5 \<le> rb" and "2 ^ rb \<le> RFS_BUFFER_LEN"
  shows "unat (rfs_chunk rb len) = min (real_size rb) (unat len)"
  using unat_RFS_REAL_BUFFER_SIZE [OF assms] by (auto simp: rfs_chunk_def word_less_nat_alt)

lemma rfs_chunk_facts:
  assumes "5 \<le> rb" and "2 ^ rb \<le> RFS_BUFFER_LEN"
  shows "unat (len - rfs_chunk rb len) = unat len - real_size rb" "rfs_chunk rb len \<noteq> -1"
    "len \<noteq> 0 \<Longrightarrow> unat (len - rfs_chunk rb len) < unat len"
proof -
  note c = unat_rfs_chunk [OF assms, of len] and sz = real_size_bounds [OF assms]
  have "rfs_chunk rb len \<le> len" by (simp add: word_le_nat_alt c)
  then show sub: "unat (len - rfs_chunk rb len) = unat len - real_size rb"
    by (simp add: unat_sub c)
  show "rfs_chunk rb len \<noteq> -1"
    by (rule small_not_minus_1) (use c sz(3) in simp)
  show "len \<noteq> 0 \<Longrightarrow> unat (len - rfs_chunk rb len) < unat len"
    unfolding sub using sz(1) by (simp add: unat_gt_0)
qed

text \<open>The calls on the line, through the interpretation.\<close>

lemma line_write:
  assumes on: "rfs_online px rb c" "line_empty c" and n: "unat n \<le> real_size rb"
    and os: "os_write px fd (rd_bytes (rfsc_mem c) buf (unat n)) (host_world c) = (res, w')"
  shows "\<exists>c'. rfsc_write fd buf n c = Some (res, c') \<and> rfs_online px rb c' \<and> line_empty c' \<and>
      host_world c' = w' \<and> host_basedir c' = host_basedir c \<and> rfsc_buffer c' = rfsc_buffer c \<and>
      (\<forall>x. x < rfsc_buffer c \<or> rfsc_buffer c + 2 ^ rb \<le> x \<longrightarrow> rfsc_mem c' x = rfsc_mem c x)"
proof -
  from on have q: "rfsl.quiet px (2 ^ rb) c" "5 \<le> rb" "2 ^ rb \<le> RFS_BUFFER_LEN"
    using rfs_online_quiet by blast+
  note sz = real_size_bounds [OF q(2,3)]
  have "rfs_replies px (packet_bytes (write_req fd (rd_bytes (rfsc_mem c) buf (unat n)))) (host_basedir c, host_world c)
      (packet_bytes (int_resp RFS_OP_WRITE res)) (host_basedir c, w')"
    unfolding rfs_replies_def
    using os n q sz unsigned_less [of n, where ?'a = nat]
    by (intro exI [of _ "RWrite fd (rd_bytes (rfsc_mem c) buf (unat n))"] exI [of _ "int_resp RFS_OP_WRITE res"])
      (simp add: length_packet_bytes write_req_def int_resp_def)
  moreover have "unat n + 29 \<le> 2 ^ rb"
    using n sz by simp
  ultimately obtain c' where c': "rfsc_write fd buf n c = Some (res, c')" "rfsl.quiet px (2 ^ rb) c'"
    "(host_basedir c', host_world c') = (host_basedir c, w')" "rfsc_buffer c' = rfsc_buffer c"
    "\<forall>x. x < rfsc_buffer c \<or> rfsc_buffer c + 2 ^ rb \<le> x \<longrightarrow> rfsc_mem c' x = rfsc_mem c x"
    using rfsl.write_ok [OF q(1), of fd buf n res "(host_basedir c, w')"] by blast
  moreover have "rfs_online px rb c'" "line_empty c'"
    using rfs_online_quiet [of px rb c'] c'(2) q(2,3) by blast+
  ultimately show ?thesis by auto
qed

lemma line_read:
  assumes on: "rfs_online px rb c" "line_empty c" and n: "length data \<le> real_size rb"
    and os: "os_read px fd n (host_world c) = ((word_of_nat (length data), data), w')"
  shows "\<exists>c'. rfsc_read fd buf n c = Some (word_of_nat (length data), c') \<and> rfs_online px rb c' \<and> line_empty c' \<and>
      host_world c' = w' \<and> host_basedir c' = host_basedir c \<and> rfsc_buffer c' = rfsc_buffer c \<and>
      rd_bytes (rfsc_mem c') buf (length data) = data \<and>
      (\<forall>x. (x < rfsc_buffer c \<or> rfsc_buffer c + 2 ^ rb \<le> x) \<and> (x < buf \<or> buf + length data \<le> x) \<longrightarrow>
         rfsc_mem c' x = rfsc_mem c x)"
proof -
  from on have q: "rfsl.quiet px (2 ^ rb) c" "5 \<le> rb" "2 ^ rb \<le> RFS_BUFFER_LEN"
    using rfs_online_quiet by blast+
  note sz = real_size_bounds [OF q(2,3)] pow_ge_32 [OF q(2)]
  have "unat (word_of_nat (length data) :: u32) = length data"
    using n sz(3) by (intro unat_of_nat_less) simp
  then have "rfs_replies px (packet_bytes (read_req fd n)) (host_basedir c, host_world c)
      (packet_bytes (read_resp data)) (host_basedir c, w')"
    unfolding rfs_replies_def
    using os n q sz
    by (intro exI [of _ "RRead fd n"] exI [of _ "read_resp data"])
      (simp add: length_packet_bytes read_req_def read_resp_def)
  moreover have "length data + 29 \<le> 2 ^ rb" "28 \<le> (2::nat) ^ rb"
    using n sz by simp_all
  ultimately obtain c' where c': "rfsc_read fd buf n c = Some (word_of_nat (length data), c')" "rfsl.quiet px (2 ^ rb) c'"
    "(host_basedir c', host_world c') = (host_basedir c, w')" "rfsc_buffer c' = rfsc_buffer c"
    "rd_bytes (rfsc_mem c') buf (length data) = data"
    "\<forall>x. (x < rfsc_buffer c \<or> rfsc_buffer c + 2 ^ rb \<le> x) \<and> (x < buf \<or> buf + length data \<le> x) \<longrightarrow>
       rfsc_mem c' x = rfsc_mem c x"
    using rfsl.read_ok [OF q(1), of fd n data "(host_basedir c, w')" buf] by blast
  moreover have "rfs_online px rb c'" "line_empty c'"
    using rfs_online_quiet [of px rb c'] c'(2) q(2,3) by blast+
  ultimately show ?thesis by auto
qed

definition apart :: "nat \<Rightarrow> nat \<Rightarrow> nat \<Rightarrow> nat \<Rightarrow> bool" where
  "apart a n b k \<longleftrightarrow> a + n \<le> b \<or> b + k \<le> a"

lemma rd_bytes_split:
  "rd_bytes m a (min k n) = take k (rd_bytes m a n)" "rd_bytes m (a + min k n) (n - k) = drop k (rd_bytes m a n)"
  by (cases "k \<le> n"; auto intro!: nth_equalityI simp: add.assoc)+

lemma rfs_write_loop_ok:
  assumes full: "\<And>data w. length data \<le> real_size rb \<Longrightarrow> fst (os_write px fd data w) = word_of_nat (length data)"
  shows "rfs_online px rb c \<Longrightarrow> line_empty c \<Longrightarrow> apart p (unat len) (rfsc_buffer c) (2 ^ rb) \<Longrightarrow>
    \<exists>c'. rfs_write_loop rb fd tot p len c = Some (tot + len, c') \<and> rfs_online px rb c' \<and> line_empty c' \<and>
      host_world c' = fold (\<lambda>ch w. snd (os_write px fd ch w))
        (chunks (real_size rb) (rd_bytes (rfsc_mem c) p (unat len))) (host_world c)"
proof (induction "unat len" arbitrary: tot p len c rule: less_induct)
  case less
  have rb: "5 \<le> rb" "2 ^ rb \<le> RFS_BUFFER_LEN"
    using less.prems(1) by (simp_all add: rfs_online_def)
  let ?K = "real_size rb" and ?n = "rfs_chunk rb len" and ?d = "rd_bytes (rfsc_mem c) p (unat len)"
  note n = unat_rfs_chunk [OF rb, of len] and nf = rfs_chunk_facts [OF rb, of len]
  show ?case
  proof (cases "len = 0")
    case True
    with less.prems show ?thesis
      by (simp add: rfs_write_loop.simps [of rb fd tot p] chunks.simps)
  next
    case False
    have ln: "length (take ?K ?d) = unat ?n" unfolding n by simp
    have "fst (os_write px fd (take ?K ?d) (host_world c)) = ?n"
    proof -
      have "length (take ?K ?d) \<le> ?K" by simp
      from full [OF this, of "host_world c"] show ?thesis unfolding ln by simp
    qed
    then obtain w1 where w1: "os_write px fd (rd_bytes (rfsc_mem c) p (unat ?n)) (host_world c) = (?n, w1)"
      unfolding n rd_bytes_split by (cases "os_write px fd (take ?K ?d) (host_world c)") simp
    from line_write [OF less.prems(1,2) _ w1] obtain c1 where
      c1: "rfsc_write fd p ?n c = Some (?n, c1)" "rfs_online px rb c1" "line_empty c1" "host_world c1 = w1"
        "rfsc_buffer c1 = rfsc_buffer c"
        "\<forall>x. x < rfsc_buffer c \<or> rfsc_buffer c + 2 ^ rb \<le> x \<longrightarrow> rfsc_mem c1 x = rfsc_mem c x"
      using n by auto
    have "rd_bytes (rfsc_mem c1) (p + unat ?n) (unat len - ?K) = rd_bytes (rfsc_mem c) (p + unat ?n) (unat len - ?K)"
      by (rule rd_bytes_eqI) (use less.prems(3) c1(6) n in \<open>auto simp: apart_def\<close>)
    moreover have "apart (p + unat ?n) (unat (len - ?n)) (rfsc_buffer c1) (2 ^ rb)"
      using less.prems(3) c1(5) n nf(1) by (auto simp: apart_def)
    ultimately obtain c' where "rfs_write_loop rb fd (tot + ?n) (p + unat ?n) (len - ?n) c1 = Some (tot + ?n + (len - ?n), c')"
      "rfs_online px rb c'" "line_empty c'"
      "host_world c' = fold (\<lambda>ch w. snd (os_write px fd ch w)) (chunks ?K (drop ?K ?d)) w1"
      using less.hyps [OF nf(3) [OF False], of c1 "p + unat ?n" "tot + ?n"] c1(2-4) by (auto simp: nf(1) n rd_bytes_split)
    moreover have "chunks ?K ?d = take ?K ?d # chunks ?K (drop ?K ?d)"
      using False real_size_bounds(1) [OF rb] by (subst chunks.simps) (auto simp: rd_bytes_def unat_eq_0)
    ultimately show ?thesis
      using False c1(1) w1 nf(2) by (simp add: rfs_write_loop.simps [of rb fd tot p len] n rd_bytes_split)
  qed
qed

text \<open>A readable file of the host behind the descriptor \<open>fd\<close>: its contents and the read position as
  a function of the host's state.\<close>

definition file_law :: "'w posix \<Rightarrow> u32 \<Rightarrow> u8 list \<Rightarrow> ('w \<Rightarrow> nat) \<Rightarrow> bool" where
  "file_law px fd content pos \<longleftrightarrow>
     (\<forall>k w. \<exists>w'. os_read px fd k w =
          ((word_of_nat (length (take (unat k) (drop (pos w) content))), take (unat k) (drop (pos w) content)), w') \<and>
        pos w' = pos w + length (take (unat k) (drop (pos w) content)))"

lemma rfs_read_loop_ok:
  assumes law: "file_law px fd content pos"
  shows "rfs_online px rb c \<Longrightarrow> line_empty c \<Longrightarrow> apart p (unat len) (rfsc_buffer c) (2 ^ rb) \<Longrightarrow>
    d = take (unat len) (drop (pos (host_world c)) content) \<Longrightarrow>
    \<exists>c'. rfs_read_loop rb fd tot p len c = Some (tot + word_of_nat (length d), c') \<and> rfs_online px rb c' \<and>
      line_empty c' \<and> pos (host_world c') = pos (host_world c) + length d \<and> rd_bytes (rfsc_mem c') p (length d) = d \<and>
      (\<forall>x. apart x 1 (rfsc_buffer c) (2 ^ rb) \<and> apart x 1 p (unat len) \<longrightarrow> rfsc_mem c' x = rfsc_mem c x)"
proof (induction "unat len" arbitrary: tot p len c d rule: less_induct)
  case less
  have rb: "5 \<le> rb" "2 ^ rb \<le> RFS_BUFFER_LEN"
    using less.prems(1) by (simp_all add: rfs_online_def)
  let ?K = "real_size rb" and ?n = "rfs_chunk rb len" and ?f = "drop (pos (host_world c)) content"
  note n = unat_rfs_chunk [OF rb, of len] and nf = rfs_chunk_facts [OF rb, of len]
  show ?case
  proof (cases "len = 0")
    case True
    with less.prems show ?thesis
      by (simp add: rfs_read_loop.simps [of rb fd tot p])
  next
    case False
    let ?d1 = "take (unat ?n) ?f"
    obtain w1 where w1: "os_read px fd ?n (host_world c) = ((word_of_nat (length ?d1), ?d1), w1)"
      "pos w1 = pos (host_world c) + length ?d1"
      using law unfolding file_law_def by blast
    have l1: "length ?d1 \<le> unat ?n" "length ?d1 \<le> ?K" by (auto simp: n min_def)
    from line_read [OF less.prems(1,2) l1(2) w1(1), of p] obtain c1 where
      c1: "rfsc_read fd p ?n c = Some (word_of_nat (length ?d1), c1)" "rfs_online px rb c1" "line_empty c1"
        "host_world c1 = w1" "rfsc_buffer c1 = rfsc_buffer c" "rd_bytes (rfsc_mem c1) p (length ?d1) = ?d1"
      and mem: "\<And>x. apart x 1 (rfsc_buffer c) (2 ^ rb) \<Longrightarrow> apart x 1 p (length ?d1) \<Longrightarrow> rfsc_mem c1 x = rfsc_mem c x"
      by (auto simp: apart_def Suc_le_eq)
    have u1: "unat (word_of_nat (length ?d1) :: u32) = length ?d1"
      using l1(2) real_size_bounds(3) [OF rb] by (intro unat_of_nat_less) simp
    have ne: "(word_of_nat (length ?d1) :: u32) \<noteq> -1"
      by (rule small_not_minus_1) (use u1 l1(2) real_size_bounds(3) [OF rb] in simp)
    show ?thesis
    proof (cases "length ?d1 < unat ?n")
      case True
      then have "length ?f \<le> unat ?n" "unat ?n \<le> unat len"
        unfolding n by (auto simp: min_def split: if_splits)
      then have "d = ?d1"
        using less.prems(4) by (simp only: take_all order_trans [of "length ?f" "unat ?n" "unat len"])
      moreover have "rfs_read_loop rb fd tot p len c = Some (tot + word_of_nat (length ?d1), c1)"
        using False True c1(1) ne u1 by (simp add: rfs_read_loop.simps [of rb fd tot p len c] word_less_nat_alt Let_def del: length_take)
      moreover have "rfsc_mem c1 x = rfsc_mem c x"
        if "apart x 1 (rfsc_buffer c) (2 ^ rb)" "apart x 1 p (unat len)" for x
        using that mem [of x] l1(1) \<open>unat ?n \<le> unat len\<close> by (auto simp: apart_def)
      ultimately show ?thesis
        using c1(2-6) w1(2) by (intro exI [of _ c1]) simp
    next
      case short: False
      let ?d2 = "take (unat (len - ?n)) (drop (pos (host_world c1)) content)"
      have ln: "length ?d1 = unat ?n" using short l1 by simp
      then have wn: "word_of_nat (length ?d1) = ?n" by simp
      have nl: "unat ?n + unat (len - ?n) = unat len"
        using nf(1) n by simp
      have d: "d = ?d1 @ ?d2"
        using less.prems(4) w1(2) c1(4) ln nl take_add [of "unat ?n" "unat (len - ?n)" ?f] by (simp add: add.commute)
      have "apart (p + unat ?n) (unat (len - ?n)) (rfsc_buffer c1) (2 ^ rb)"
        using less.prems(3) c1(5) nl by (auto simp: apart_def)
      from less.hyps [OF nf(3) [OF False] c1(2,3) this refl, of "tot + ?n"] obtain c' where
        c': "rfs_read_loop rb fd (tot + ?n) (p + unat ?n) (len - ?n) c1 = Some (tot + ?n + word_of_nat (length ?d2), c')"
          "rfs_online px rb c'" "line_empty c'" "pos (host_world c') = pos w1 + length ?d2"
          "rd_bytes (rfsc_mem c') (p + unat ?n) (length ?d2) = ?d2"
        and mem': "\<And>x. apart x 1 (rfsc_buffer c) (2 ^ rb) \<Longrightarrow> apart x 1 (p + unat ?n) (unat (len - ?n)) \<Longrightarrow>
          rfsc_mem c' x = rfsc_mem c1 x"
        using c1(4,5) by auto
      have "rd_bytes (rfsc_mem c') p (unat ?n) = ?d1"
        unfolding c1(6) [symmetric, unfolded ln]
        by (rule rd_bytes_eqI) (use mem' less.prems(3) nl in \<open>auto simp: apart_def\<close>)
      then have "rd_bytes (rfsc_mem c') p (length d) = d"
        using c'(5) rd_bytes_append_iff [of "rfsc_mem c'" p ?d1 ?d2] unfolding d ln by simp
      moreover have "rfsc_mem c' x = rfsc_mem c x"
        if "apart x 1 (rfsc_buffer c) (2 ^ rb)" "apart x 1 p (unat len)" for x
        using that mem [of x] mem' [of x] nl ln by (auto simp: apart_def)
      moreover have "rfs_read_loop rb fd tot p len c = Some (tot + word_of_nat (length d), c')"
        using False c1(1) c'(1) ne short unfolding d length_append of_nat_add wn
        by (simp add: rfs_read_loop.simps [of rb fd tot p len c] wn Let_def add.assoc)
      ultimately show ?thesis
        using c'(2-4) w1(2) d by auto
    qed
  qed
qed

section \<open>Properties\<close>

text \<open>C9. Opening a file through the remote file system, end to end: a call of the driver's open on
  the device returns exactly what the host's \<open>open\<close> returns for the shared directory joined with the
  path and the translated flags, and the host's state changes exactly by that call. The link is idle
  again afterwards.\<close>

theorem rfs_open_end_to_end:
  assumes "rfs_online px rb c" and "line_empty c" and "str_ok path" and "length path + 35 \<le> 2 ^ rb"
    and "server_fullname (host_basedir c) (Some path) = Some full"
    and "px_open px full (os_open_realflags (px_consts px) (os_open_sys_flags_to_rfs_flags k flags)) MODE_0644
           (host_world c) = (fd, w')"
  shows "\<exists>c'. rfs_open_r k path flags mode c = Some (fd, c') \<and> rfs_online px rb c' \<and> line_empty c' \<and>
      host_world c' = w'"
proof -
  let ?rq = "open_req path (os_open_sys_flags_to_rfs_flags k flags) mode"
  from assms(1,2) have q: "rfsl.quiet px (2 ^ rb) c" "5 \<le> rb" "2 ^ rb \<le> RFS_BUFFER_LEN"
    using rfs_online_quiet by blast+
  have len: "length (packet_bytes ?rq) \<le> 2 ^ rb" "27 \<le> (2::nat) ^ rb"
    using assms(4) pow_ge_32 [OF q(2)] by (simp_all add: length_packet_bytes open_req_def)
  have "rfs_replies px (packet_bytes ?rq) (host_basedir c, host_world c)
      (packet_bytes (int_resp RFS_OP_OPEN fd)) (host_basedir c, w')"
    unfolding rfs_replies_def
    using assms(3,5,6) q(3) len
    by (intro exI [of _ "ROpen path (os_open_sys_flags_to_rfs_flags k flags) mode"] exI [of _ "int_resp RFS_OP_OPEN fd"])
      (simp add: os_open_def length_packet_bytes int_resp_def)
  from rfsl.open_ok [OF q(1) _ this len] assms(3) obtain c' where
    "rfsc_open k path flags mode c = Some (fd, c')" "rfsl.quiet px (2 ^ rb) c'"
    "(host_basedir c', host_world c') = (host_basedir c, w')"
    by (auto simp: str_ok_def)
  then show ?thesis
    using rfs_online_quiet [of px rb c'] q(2,3) by (auto simp: rfs_open_r_def)
qed

text \<open>C10. Writing a block of any length through the remote file system: if the host accepts whole
  writes, the driver returns the full length, the host has seen the consecutive pieces of the block
  in order, each of at most the usable buffer size, and together they are the block.\<close>

theorem rfs_write_end_to_end:
  assumes "rfs_online px rb c" and "line_empty c" and "apart ptr (unat len) (rfsc_buffer c) (2 ^ rb)"
    and "\<And>data w. length data \<le> real_size rb \<Longrightarrow> fst (os_write px fd data w) = word_of_nat (length data)"
  shows "\<exists>c'. rfs_write_r rb fd ptr len c = Some (len, c') \<and> rfs_online px rb c' \<and> line_empty c' \<and>
      host_world c' = fold (\<lambda>ch w. snd (os_write px fd ch w))
        (chunks (real_size rb) (rd_bytes (rfsc_mem c) ptr (unat len))) (host_world c) \<and>
      concat (chunks (real_size rb) (rd_bytes (rfsc_mem c) ptr (unat len))) = rd_bytes (rfsc_mem c) ptr (unat len)"
  using rfs_write_loop_ok [OF assms(4,1,2,3), of 0] real_size_bounds(1) [of rb] assms(1)
  by (simp add: rfs_write_r_def concat_chunks rfs_online_def)

text \<open>C11. Reading through the remote file system is independent of the buffer size: for a file of
  the host, the driver returns the number of bytes up to the requested length or the end of the
  file, whichever comes first, the caller's block holds exactly those bytes of the file, and the
  file position has moved past them.\<close>

theorem rfs_read_end_to_end:
  assumes "rfs_online px rb c" and "line_empty c" and "apart ptr (unat len) (rfsc_buffer c) (2 ^ rb)"
    and "file_law px fd content pos" and "d = take (unat len) (drop (pos (host_world c)) content)"
  shows "\<exists>c'. rfs_read_r rb fd ptr len c = Some (word_of_nat (length d), c') \<and> rfs_online px rb c' \<and>
      rd_bytes (rfsc_mem c') ptr (length d) = d \<and> pos (host_world c') = pos (host_world c) + length d"
  using rfs_read_loop_ok [OF assms(4,1,2,3,5), of 0] by (auto simp: rfs_read_r_def)

text \<open>The client empties the receive queue after it has written the request into the same
  buffer: if any byte was left over on the line and the last one is not the packet tag, the request
  is overwritten, the open fails with -1 and the host never sees it, although the line works.\<close>

theorem rfs_stale_byte_loses_request:
  assumes "rfs_online px rb c" and "\<not> line_empty c" and "last (hl_rx (rfsc_link c)) \<noteq> TYPE_PKT_SIZE"
    and "str_ok path" and "length path + 35 \<le> 2 ^ rb"
  shows "\<exists>c'. rfsc_open k path flags mode c = Some (-1, c') \<and> line_empty c' \<and> host_world c' = host_world c"
proof -
  let ?rq = "open_req path (os_open_sys_flags_to_rfs_flags k flags) mode"
  let ?m = "wr_bytes (rfsc_mem c) (rfsc_buffer c) (packet_bytes ?rq)"
  have "length (packet_bytes ?rq) \<le> 2 ^ rb"
    using assms(5) by (simp add: length_packet_bytes open_req_def)
  then have "remotefs_open_write_request (rfsc_mem c) (rfsc_buffer c) path (os_open_sys_flags_to_rfs_flags k flags) mode = Some ?m"
    using assms(1,4) by (intro rfs_write_requests(1)) (auto simp: rfs_online_def str_ok_def)
  moreover have "rfsl.ready px (c\<lparr>rfsc_mem := ?m\<rparr>)"
    using assms(1) by (simp add: rfsl.ready_def rfs_online_def)
  then obtain c' where "rfsch_send_request_read_response (c\<lparr>rfsc_mem := ?m\<rparr>) = Some (CLIENT_ERR, c')"
    "line_empty c'" "host_world c' = host_world c"
    using rfsl.exchange_stale [of px "c\<lparr>rfsc_mem := ?m\<rparr>"] assms(2,3) by auto
  ultimately show ?thesis
    by (simp add: rfsc_open_def rfsc_call_def int_result_def)
qed

definition demo_client :: "u8 list \<Rightarrow> nat line rfsc" where
  "demo_client rx = \<lparr>rfsc_mem = (\<lambda>x. word_of_nat x), rfsc_buffer = 1000, rfsc_send = rfs_send (line_send demo_posix),
     rfsc_recv = rfs_recv line_recv, rfsc_timeout = 0, rfsc_link = \<lparr>hl_rx = rx, hl_srv = demo_srv\<rparr>\<rparr>"

lemma demo_online: "rfs_online demo_posix 6 (demo_client rx)"
  using demo_fresh
  by (simp add: rfs_online_def demo_client_def RFS_BUFFER_LEN_def MAX_PACKET_SIZE_def rpc_sizes addr_limit_def)

theorem rfs_open_end_to_end_witness:
  "\<exists>c'. rfs_open_r demo_consts [0x61] 0 0 (demo_client []) = Some (3, c') \<and> line_empty c'"
proof -
  have "server_fullname (host_basedir (demo_client [])) (Some [0x61]) = Some [0x2F, 0x64, 0x2F, 0x61]"
    by (simp add: demo_client_def demo_srv_def server_fullname_def fullname_strncat_def
        PLATFORM_MAX_FNAME_LEN_def PLATFORM_PATH_SEPARATOR_def)
  from rfs_open_end_to_end [OF demo_online _ _ _ this, of demo_consts 0 3 0 0] show ?thesis
    by (auto simp: demo_client_def demo_srv_def demo_posix_def str_ok_def)
qed

theorem rfs_write_end_to_end_witness:
  "\<exists>c'. rfs_write_r 6 3 0 50 (demo_client []) = Some (50, c') \<and> line_empty c'"
  using rfs_write_end_to_end [OF demo_online [of "[]"], of 0 50 3]
  by (auto simp: demo_client_def apart_def demo_posix_def os_write_def)

theorem rfs_read_end_to_end_witness:
  "\<exists>c'. rfs_read_r 6 3 0 50 (demo_client []) = Some (3, c') \<and> rd_bytes (rfsc_mem c') 0 3 = [10, 20, 30]"
proof -
  have "file_law demo_posix 3 [10, 20, 30] (\<lambda>w. w)"
    by (simp add: file_law_def demo_posix_def os_read_def Let_def)
  from rfs_read_end_to_end [OF demo_online [of "[]"] _ _ this, of 0 50 "[10, 20, 30]"] show ?thesis
    by (auto simp: demo_client_def demo_srv_def apart_def numeral_3_eq_3)
qed

theorem rfs_stale_byte_loses_request_witness:
  "\<exists>c'. rfsc_open demo_consts [0x61] 0 0 (demo_client [7]) = Some (-1, c') \<and> line_empty c'"
  using rfs_stale_byte_loses_request [OF demo_online [of "[7]"], of "[0x61]" demo_consts 0 0]
  by (auto simp: demo_client_def TYPE_PKT_SIZE_def str_ok_def)

end
