(* ===== verification/Sermux.thy ===== *)
theory Sermux
  imports Buf Rfs_Server
begin

text \<open>
  The serial multiplexer: several virtual UARTs over one serial line. The device side is in
  \<open>src/src/common_uart.c\<close> (sending on a virtual UART, the receive interrupt handler), the host side
  is the service loop of \<open>src/mux_src/main.c\<close>. A byte that switches the service, an escape
  character and a request to resend are told from data by their values; data with such a value is
  escaped. The theory shows that both directions deliver every byte to the service it was sent on,
  in order, and that the resend request recovers a lost service number.
\<close>

section \<open>Constants\<close>

definition SERMUX_ESCAPE_CHAR :: u8 where "SERMUX_ESCAPE_CHAR = 0xC0"
definition SERMUX_FORCE_SID_CHAR :: u8 where "SERMUX_FORCE_SID_CHAR = 0xFF"
definition SERMUX_ESCAPE_XOR_MASK :: u8 where "SERMUX_ESCAPE_XOR_MASK = 0x20"
definition SERMUX_ESC_MASK :: u16 where "SERMUX_ESC_MASK = 0x100"

lemmas sermux_consts = SERMUX_ESCAPE_CHAR_def SERMUX_FORCE_SID_CHAR_def SERMUX_ESCAPE_XOR_MASK_def
  SERMUX_ESC_MASK_def SERMUX_SERVICE_ID_FIRST_def SERMUX_SERVICE_ID_LAST_def

definition is_sid :: "u8 \<Rightarrow> bool" where
  "is_sid c \<longleftrightarrow> SERMUX_SERVICE_ID_FIRST \<le> unat c \<and> unat c \<le> SERMUX_SERVICE_ID_LAST"

text \<open>The condition under which both senders escape a data byte.\<close>

definition needs_escape :: "u8 \<Rightarrow> bool" where
  "needs_escape c \<longleftrightarrow> c = SERMUX_ESCAPE_CHAR \<or> c = SERMUX_FORCE_SID_CHAR \<or> is_sid c"

section \<open>Device\<close>

text \<open>The variables of \<open>common_uart.c\<close>; \<open>None\<close> is -1.\<close>

record sermux_dev =
  uart_service_id_in :: "u8 option"
  uart_service_id_out :: "u8 option"
  uart_got_esc :: bool
  uart_last_sent :: "u16 option"

definition is_vuart :: "platform_conf \<Rightarrow> nat \<Rightarrow> bool" where
  "is_vuart cf ident \<longleftrightarrow> BUILD_SERMUX cf \<and> SERMUX_SERVICE_ID_FIRST \<le> ident \<and>
     ident < SERMUX_SERVICE_ID_FIRST + SERMUX_NUM_VUART cf"

definition platform_uart_exists :: "platform_conf \<Rightarrow> nat \<Rightarrow> bool" where
  "platform_uart_exists cf ident = (if is_vuart cf ident then True else if ident < NUM_UART cf then True else False)"

text \<open>A send yields the calls of \<open>platform_s_uart_send( id, byte )\<close> it makes.\<close>

definition platform_uart_send :: "platform_conf \<Rightarrow> nat \<Rightarrow> u8 \<Rightarrow> sermux_dev \<Rightarrow> (nat \<times> u8) list \<times> sermux_dev" where
  "platform_uart_send cf ident data d =
     (let (out, d') =
        (if is_vuart cf ident then
           let pre = (if uart_service_id_out d \<noteq> Some (word_of_nat ident) then [word_of_nat ident] else []);
               (body, lst) =
                 (if needs_escape data
                  then ([SERMUX_ESCAPE_CHAR, data XOR SERMUX_ESCAPE_XOR_MASK],
                        SERMUX_ESC_MASK OR ucast (data XOR SERMUX_ESCAPE_XOR_MASK))
                  else ([data], ucast data))
           in (map (Pair (SERMUX_PHYS_ID cf)) (pre @ body),
               d\<lparr>uart_last_sent := Some lst, uart_service_id_out := Some (word_of_nat ident)\<rparr>)
         else ([], d))
      in (out @ (if ident < NUM_UART cf then [(ident, data)] else []), d'))"

text \<open>The receive handler: the sends it makes, the new state and the buffers. \<open>None\<close> is a fault of
  \<open>buf_write\<close>.\<close>

definition cmn_rx_handler :: "platform_conf \<Rightarrow> nat \<Rightarrow> u8 \<Rightarrow> sermux_dev \<Rightarrow> buf_table \<Rightarrow>
    ((nat \<times> u8) list \<times> sermux_dev \<times> buf_table) option" where
  "cmn_rx_handler cf usart_id data d B =
     (if BUILD_SERMUX cf \<and> usart_id = SERMUX_PHYS_ID cf then
        if data \<noteq> SERMUX_ESCAPE_CHAR then
          if SERMUX_SERVICE_ID_FIRST \<le> unat data \<and> unat data < SERMUX_SERVICE_ID_FIRST + SERMUX_NUM_VUART cf
          then Some ([], d\<lparr>uart_service_id_in := Some data\<rparr>, B)
          else if data = SERMUX_FORCE_SID_CHAR \<and> uart_last_sent d \<noteq> None then
            let lst = the (uart_last_sent d);
                sid = (case uart_service_id_out d of None \<Rightarrow> 0xFF | Some i \<Rightarrow> i)
            in Some (map (Pair (SERMUX_PHYS_ID cf))
                 ([sid] @ (if lst AND SERMUX_ESC_MASK \<noteq> 0 then [SERMUX_ESCAPE_CHAR] else []) @ [ucast (lst AND 0xFF)]),
                 d\<lparr>uart_last_sent := None\<rparr>, B)
          else
            let data' = (if uart_got_esc d then data XOR SERMUX_ESCAPE_XOR_MASK else data);
                d' = d\<lparr>uart_got_esc := False\<rparr>
            in (case uart_service_id_in d' of
                  None \<Rightarrow> Some ([(SERMUX_PHYS_ID cf, SERMUX_FORCE_SID_CHAR)], d', B)
                | Some i \<Rightarrow> do { (_, B') \<leftarrow> buf_write cf B BUF_ID_UART (unat i) [data']; Some ([], d', B') })
        else Some ([], d\<lparr>uart_got_esc := True\<rparr>, B)
      else do { (_, B') \<leftarrow> buf_write cf B BUF_ID_UART usart_id [data]; Some ([], d, B') })"

text \<open>The interrupt handler: it passes on what the UART driver has, then calls the handler that was
  installed before. \<open>rx\<close> are the bytes \<open>platform_s_uart_recv\<close> returns until it returns -1.\<close>

fun rx_handler_loop :: "platform_conf \<Rightarrow> nat \<Rightarrow> u8 list \<Rightarrow> sermux_dev \<Rightarrow> buf_table \<Rightarrow>
    ((nat \<times> u8) list \<times> sermux_dev \<times> buf_table) option" where
  "rx_handler_loop cf resnum [] d B = Some ([], d, B)"
| "rx_handler_loop cf resnum (c # rx) d B =
     do {
       (o1, d1, B1) \<leftarrow> cmn_rx_handler cf resnum c d B;
       (o2, d2, B2) \<leftarrow> rx_handler_loop cf resnum rx d1 B1;
       Some (o1 @ o2, d2, B2)
     }"

definition cmn_uart_rx_inthandler :: "platform_conf \<Rightarrow> nat \<Rightarrow> u8 list \<Rightarrow> sermux_dev \<Rightarrow> buf_table \<Rightarrow>
    ((nat \<times> u8) list \<times> sermux_dev \<times> buf_table) option" where
  "cmn_uart_rx_inthandler cf resnum rx d B =
     do {
       en \<leftarrow> (if resnum = SERMUX_PHYS_ID cf then Some True else buf_is_enabled cf B BUF_ID_UART resnum);
       if en then rx_handler_loop cf resnum rx d B else Some ([], d, B)
     }"

section \<open>Host\<close>

datatype mux_err = No_Prev_Sent | Bad_Escape | Mux_Fault

datatype mux_out = To_Transport u8 | To_Service nat u8

record 'w mux =
  service_id_in :: "u8 option"
  service_id_out :: "u8 option"
  prev_sent :: "u16 option"
  got_esc :: bool
  rfs_service_id :: "u8 option"
  service_offset :: nat
  vport_num :: nat
  rfs_queue :: "u8 list"
  mux_rfs :: "'w rfs_srv"

text \<open>A decoded data byte for the current service: the RFS server of \<open>rfsmux\<close> mode, or a port.\<close>

definition mux_deliver :: "'w posix \<Rightarrow> u8 \<Rightarrow> u8 \<Rightarrow> 'w mux \<Rightarrow> mux_err + (mux_out list \<times> 'w mux)" where
  "mux_deliver px sid c s =
     (if Some sid = rfs_service_id s then
        (case rfsmux_byte px c (mux_rfs s) of
           None \<Rightarrow> Inl Mux_Fault
         | Some (out, r) \<Rightarrow> Inr ([], s\<lparr>mux_rfs := r, rfs_queue := (if out = [] then rfs_queue s else out)\<rparr>))
      else
        let idx = int (unat sid) - int SERMUX_SERVICE_ID_FIRST - int (service_offset s) in
        if 0 \<le> idx \<and> idx < int (vport_num s) then Inr ([To_Service (nat idx) c], s) else Inl Mux_Fault)"

definition mux_transport_byte :: "'w posix \<Rightarrow> u8 \<Rightarrow> 'w mux \<Rightarrow> mux_err + (mux_out list \<times> 'w mux)" where
  "mux_transport_byte px c s =
     (if c \<noteq> SERMUX_ESCAPE_CHAR then
        if is_sid c then Inr ([], s\<lparr>service_id_in := Some c\<rparr>)
        else if c = SERMUX_FORCE_SID_CHAR then
          (case prev_sent s of
             None \<Rightarrow> Inl No_Prev_Sent
           | Some ps \<Rightarrow>
               let sid = (case service_id_out s of None \<Rightarrow> 0xFF | Some i \<Rightarrow> i)
               in Inr (map To_Transport
                    ([sid] @ (if ps AND SERMUX_ESC_MASK \<noteq> 0 then [SERMUX_ESCAPE_CHAR] else []) @ [ucast (ps AND 0xFF)]),
                    s\<lparr>prev_sent := None\<rparr>))
        else
          let c' = (if got_esc s then c XOR SERMUX_ESCAPE_XOR_MASK else c) in
          if got_esc s \<and> \<not> needs_escape c' then Inl Bad_Escape
          else
            let s' = s\<lparr>got_esc := False\<rparr> in
            (case service_id_in s' of
               None \<Rightarrow> Inr ([To_Transport SERMUX_FORCE_SID_CHAR], s')
             | Some sid \<Rightarrow> mux_deliver px sid c' s')
      else Inr ([], s\<lparr>got_esc := True\<rparr>))"

text \<open>A byte that goes to the device: from a port, or from the RFS response (\<open>sid\<close> is \<open>temp\<close> in the
  code).\<close>

definition mux_send_byte :: "u8 \<Rightarrow> u8 \<Rightarrow> 'w mux \<Rightarrow> mux_out list \<times> 'w mux" where
  "mux_send_byte sid c s =
     (let pre = (if Some sid \<noteq> service_id_out s then [sid] else []);
          (body, ps) =
            (if needs_escape c
             then ([SERMUX_ESCAPE_CHAR, c XOR SERMUX_ESCAPE_XOR_MASK], SERMUX_ESC_MASK OR ucast (c XOR SERMUX_ESCAPE_XOR_MASK))
             else ([c], ucast c))
      in (map To_Transport (pre @ body), s\<lparr>prev_sent := Some ps, service_id_out := Some sid\<rparr>))"

datatype mux_event = From_Transport u8 | From_Service nat u8

text \<open>One turn of the main loop; the event is what \<open>ser_select_byte\<close> returns, and is not looked at
  while a response of the RFS server is being sent.\<close>

definition mux_step :: "'w posix \<Rightarrow> mux_event \<Rightarrow> 'w mux \<Rightarrow> mux_err + (mux_out list \<times> 'w mux)" where
  "mux_step px ev s =
     (case rfs_queue s of
        c # q \<Rightarrow> Inr (mux_send_byte (word_of_nat SERMUX_SERVICE_ID_FIRST) c (s\<lparr>rfs_queue := q\<rparr>))
      | [] \<Rightarrow>
          (case ev of
             From_Transport c \<Rightarrow> mux_transport_byte px c s
           | From_Service i c \<Rightarrow>
               Inr (mux_send_byte (word_of_nat (SERMUX_SERVICE_ID_FIRST + i + service_offset s)) c s)))"

section \<open>Escaping\<close>

lemma is_sid_cases:
  assumes "is_sid c"
  shows "c \<in> {0xD0, 0xD1, 0xD2, 0xD3, 0xD4, 0xD5, 0xD6, 0xD7}"
proof -
  have "unat c \<in> {0xD0, 0xD1, 0xD2, 0xD3, 0xD4, 0xD5, 0xD6, 0xD7}"
    using assms unfolding is_sid_def sermux_consts by (simp, presburger)
  then show ?thesis
    by (simp add: word_unat_eq_iff)
qed

lemma needs_escape_xor:
  assumes "needs_escape c"
  shows "\<not> needs_escape (c XOR SERMUX_ESCAPE_XOR_MASK)"
proof -
  have "c \<in> {0xC0, 0xFF, 0xD0, 0xD1, 0xD2, 0xD3, 0xD4, 0xD5, 0xD6, 0xD7}"
    using assms is_sid_cases [of c] by (auto simp: needs_escape_def sermux_consts)
  then have "c XOR 0x20 \<in> {0xE0, 0xDF, 0xF0, 0xF1, 0xF2, 0xF3, 0xF4, 0xF5, 0xF6, 0xF7}"
    by auto
  then show ?thesis
    by (auto simp: needs_escape_def is_sid_def sermux_consts)
qed

lemma xor_xor_mask [simp]: "(c XOR m) XOR m = (c :: 'a::len word)"
  by (simp add: xor.assoc)

lemma not_needs_escape:
  "\<not> needs_escape c \<Longrightarrow> c \<noteq> SERMUX_ESCAPE_CHAR \<and> c \<noteq> SERMUX_FORCE_SID_CHAR \<and> \<not> is_sid c"
  by (simp add: needs_escape_def)

lemma sid_not_special: "is_sid c \<Longrightarrow> c \<noteq> SERMUX_ESCAPE_CHAR \<and> c \<noteq> SERMUX_FORCE_SID_CHAR"
  by (auto simp: is_sid_def sermux_consts)

lemma sid_word:
  assumes "SERMUX_SERVICE_ID_FIRST \<le> i" "i \<le> SERMUX_SERVICE_ID_LAST"
  shows "is_sid (word_of_nat i)" "unat (word_of_nat i :: u8) = i"
proof -
  show "unat (word_of_nat i :: u8) = i"
    using assms by (intro unat_of_nat_less) (simp add: sermux_consts)
  with assms show "is_sid (word_of_nat i)" by (simp add: is_sid_def)
qed

text \<open>What a sender puts on the line for one data byte, and what it remembers of it.\<close>

definition enc :: "u8 \<Rightarrow> u8 list" where
  "enc c = (if needs_escape c then [SERMUX_ESCAPE_CHAR, c XOR SERMUX_ESCAPE_XOR_MASK] else [c])"

definition enc_last :: "u8 \<Rightarrow> u16" where
  "enc_last c = (if needs_escape c then SERMUX_ESC_MASK OR ucast (c XOR SERMUX_ESCAPE_XOR_MASK) else ucast c)"

definition resend_bytes :: "u16 \<Rightarrow> u8 list" where
  "resend_bytes lst = (if lst AND SERMUX_ESC_MASK \<noteq> 0 then [SERMUX_ESCAPE_CHAR] else []) @ [ucast (lst AND 0xFF)]"

text \<open>A sender resends exactly the bytes it sent last.\<close>

lemma resend_enc: "resend_bytes (enc_last c) = enc c"
proof -
  have 8: "a AND 0x100 \<noteq> 0 \<longleftrightarrow> bit a 8" for a :: u16
    using bit_iff_and_push_bit_not_eq_0 [of a 8] by simp
  have "(ucast (b :: u8) :: u16) AND 0x100 = 0" "(0x100 OR (ucast b :: u16)) AND 0x100 \<noteq> 0" for b
    using 8 [of "ucast b"] 8 [of "0x100 OR ucast b"] by (simp_all add: bit_simps u8_bit_high)
  moreover have uu: "ucast (ucast (b :: u8) :: u16) = b" for b
    by (rule bit_word_eqI) (simp add: bit_simps)
  moreover have "(ucast (0x100 :: u16) :: u8) = 0"
    by simp
  then have "ucast ((0x100 OR (ucast b :: u16))) = b" for b :: u8
    by (simp only: unsigned_or_eq uu or.left_neutral)
  ultimately show ?thesis
    by (simp add: resend_bytes_def enc_last_def enc_def ucast_and_255 sermux_consts)
qed

section \<open>From the device to the host\<close>

fun mux_transport_bytes :: "'w posix \<Rightarrow> u8 list \<Rightarrow> 'w mux \<Rightarrow> mux_err + (mux_out list \<times> 'w mux)" where
  "mux_transport_bytes px [] s = Inr ([], s)"
| "mux_transport_bytes px (c # cs) s =
     (case mux_transport_byte px c s of Inl e \<Rightarrow> Inl e
      | Inr (out, s') \<Rightarrow>
          (case mux_transport_bytes px cs s' of Inl e \<Rightarrow> Inl e | Inr (out', s'') \<Rightarrow> Inr (out @ out', s'')))"

text \<open>The same for a sequence of data bytes, each with its service.\<close>

fun mux_deliver_all :: "'w posix \<Rightarrow> (u8 \<times> u8) list \<Rightarrow> 'w mux \<Rightarrow> mux_err + (mux_out list \<times> 'w mux)" where
  "mux_deliver_all px [] s = Inr ([], s)"
| "mux_deliver_all px ((sid, c) # ms) s =
     (case mux_deliver px sid c s of Inl e \<Rightarrow> Inl e
      | Inr (out, s') \<Rightarrow>
          (case mux_deliver_all px ms s' of Inl e \<Rightarrow> Inl e | Inr (out', s'') \<Rightarrow> Inr (out @ out', s'')))"

fun uart_sends :: "platform_conf \<Rightarrow> (nat \<times> u8) list \<Rightarrow> sermux_dev \<Rightarrow> (nat \<times> u8) list \<times> sermux_dev" where
  "uart_sends cf [] d = ([], d)"
| "uart_sends cf ((i, c) # ms) d =
     (let (out, d') = platform_uart_send cf i c d; (out', d'') = uart_sends cf ms d' in (out @ out', d''))"

lemma mux_transport_bytes_append:
  "mux_transport_bytes px (xs @ ys) s =
     (case mux_transport_bytes px xs s of Inl e \<Rightarrow> Inl e
      | Inr (out, s') \<Rightarrow>
          (case mux_transport_bytes px ys s' of Inl e \<Rightarrow> Inl e | Inr (out', s'') \<Rightarrow> Inr (out @ out', s'')))"
  by (induction xs arbitrary: s) (auto split: sum.splits)

lemma platform_uart_send_vuart:
  assumes "is_vuart cf i" and "NUM_UART cf \<le> SERMUX_SERVICE_ID_FIRST"
  shows "platform_uart_send cf i c d =
    (map (Pair (SERMUX_PHYS_ID cf)) ((if uart_service_id_out d \<noteq> Some (word_of_nat i) then [word_of_nat i] else []) @ enc c),
     d\<lparr>uart_last_sent := Some (enc_last c), uart_service_id_out := Some (word_of_nat i)\<rparr>)"
  using assms by (simp add: platform_uart_send_def is_vuart_def enc_def enc_last_def)

lemma mux_transport_sid:
  "is_sid c \<Longrightarrow> mux_transport_byte px c s = Inr ([], s\<lparr>service_id_in := Some c\<rparr>)"
  using sid_not_special [of c] by (simp add: mux_transport_byte_def)

text \<open>The host decodes an encoded data byte, escaped or not.\<close>

lemma mux_transport_enc:
  assumes "\<not> got_esc s" and "service_id_in s = Some sid"
  shows "mux_transport_bytes px (enc c) s = mux_deliver px sid c s"
proof -
  have e: "s\<lparr>got_esc := False\<rparr> = s"
    using assms(1) by simp
  show ?thesis
  proof (cases "needs_escape c")
    case True
    then show ?thesis
      using assms not_needs_escape [OF needs_escape_xor [OF True]]
      by (simp add: enc_def mux_transport_byte_def Let_def e split: sum.splits prod.splits)
  next
    case False
    then show ?thesis
      using assms not_needs_escape [OF False]
      by (simp add: enc_def mux_transport_byte_def Let_def e split: sum.splits prod.splits)
  qed
qed

lemma mux_transport_enc_lost:
  assumes "\<not> got_esc s" and "service_id_in s = None"
  shows "mux_transport_bytes px (enc c) s = Inr ([To_Transport SERMUX_FORCE_SID_CHAR], s)"
proof -
  have e: "s\<lparr>got_esc := False\<rparr> = s"
    using assms(1) by simp
  show ?thesis
    using assms not_needs_escape [of c] not_needs_escape [OF needs_escape_xor, of c]
    by (cases "needs_escape c") (simp_all add: enc_def mux_transport_byte_def Let_def e)
qed

lemma mux_deliver_frame:
  "mux_deliver px sid c (s\<lparr>service_id_in := x\<rparr>) =
     map_sum id (map_prod id (service_id_in_update (\<lambda>_. x))) (mux_deliver px sid c s)"
  by (auto simp: mux_deliver_def Let_def split: option.splits)

lemma mux_deliver_keeps:
  "mux_deliver px sid c s = Inr (out, s') \<Longrightarrow> got_esc s' = got_esc s \<and> service_id_in s' = service_id_in s"
  by (auto simp: mux_deliver_def Let_def split: option.splits if_splits)

lemma mux_deliver_all_frame:
  "mux_deliver_all px ms (s\<lparr>service_id_in := x\<rparr>) =
     map_sum id (map_prod id (service_id_in_update (\<lambda>_. x))) (mux_deliver_all px ms s)"
proof (induction ms arbitrary: s)
  case (Cons m ms)
  then show ?case
    by (cases m) (auto simp: mux_deliver_frame split: sum.splits)
qed auto

definition in_sync :: "sermux_dev \<Rightarrow> 'w mux \<Rightarrow> bool" where
  "in_sync d s \<longleftrightarrow> \<not> got_esc s \<and> (uart_service_id_out d = None \<or> uart_service_id_out d = service_id_in s)"

definition vuart_msgs :: "platform_conf \<Rightarrow> (nat \<times> u8) list \<Rightarrow> bool" where
  "vuart_msgs cf ms \<longleftrightarrow> NUM_UART cf \<le> SERMUX_SERVICE_ID_FIRST \<and>
     SERMUX_SERVICE_ID_FIRST + SERMUX_NUM_VUART cf \<le> SERMUX_SERVICE_ID_LAST + 1 \<and> (\<forall>(i, c) \<in> set ms. is_vuart cf i)"

lemma uart_send_decoded:
  assumes "vuart_msgs cf [(i, c)]" and "in_sync d s" and "platform_uart_send cf i c d = (out, d')"
  shows "mux_transport_bytes px (map snd out) s = mux_deliver px (word_of_nat i) c (s\<lparr>service_id_in := Some (word_of_nat i)\<rparr>)"
    and "uart_service_id_out d' = Some (word_of_nat i)"
proof -
  have v: "is_vuart cf i" "NUM_UART cf \<le> SERMUX_SERVICE_ID_FIRST" and sid: "is_sid (word_of_nat i)"
    using assms(1) sid_word(1) [of i] by (auto simp: vuart_msgs_def is_vuart_def)
  have out: "map snd out = (if uart_service_id_out d \<noteq> Some (word_of_nat i) then [word_of_nat i] else []) @ enc c"
    and d': "uart_service_id_out d' = Some (word_of_nat i)"
    using platform_uart_send_vuart [OF v, of c d] assms(3) by (auto simp: comp_def)
  show "uart_service_id_out d' = Some (word_of_nat i)" by (rule d')
  have "s\<lparr>service_id_in := service_id_in s\<rparr> = s" by simp
  then show "mux_transport_bytes px (map snd out) s = mux_deliver px (word_of_nat i) c (s\<lparr>service_id_in := Some (word_of_nat i)\<rparr>)"
    using assms(2) mux_transport_sid [OF sid, of px s] mux_transport_enc [of s "word_of_nat i" px c]
      mux_transport_enc [of "s\<lparr>service_id_in := Some (word_of_nat i)\<rparr>" "word_of_nat i" px c]
    unfolding out by (auto simp: in_sync_def split: sum.splits)
qed

definition msg_sid :: "nat \<times> u8 \<Rightarrow> u8 \<times> u8" where
  "msg_sid m = (word_of_nat (fst m), snd m)"

lemma msg_sid_pair [simp]: "msg_sid (i, c) = (word_of_nat i, c)"
  by (simp add: msg_sid_def)

lemma uart_sends_decoded:
  assumes "vuart_msgs cf ms" and "in_sync d s" and "uart_sends cf ms d = (out, d')"
    and "mux_deliver_all px (map msg_sid ms) s = Inr (res, s')"
  shows "mux_transport_bytes px (map snd out) s =
    Inr (res, if ms = [] then s' else s'\<lparr>service_id_in := uart_service_id_out d'\<rparr>) \<and> (ms \<noteq> [] \<longrightarrow> uart_service_id_out d' \<noteq> None)"
  using assms
proof (induction ms arbitrary: d s out res s')
  case Nil
  then show ?case by simp
next
  case (Cons m ms)
  obtain i c where m: "m = (i, c)" by fastforce
  obtain o1 d1 o2 where o1: "platform_uart_send cf i c d = (o1, d1)" and o2: "uart_sends cf ms d1 = (o2, d')"
    and out: "out = o1 @ o2"
    using Cons.prems(3) m by (auto split: prod.splits)
  obtain r1 s1 r2 where r1: "mux_deliver px (word_of_nat i) c s = Inr (r1, s1)"
    and r2: "mux_deliver_all px (map msg_sid ms) s1 = Inr (r2, s')" and res: "res = r1 @ r2"
    using Cons.prems(4) m by (auto split: sum.splits)
  let ?s1 = "s1\<lparr>service_id_in := Some (word_of_nat i)\<rparr>"
  have v: "vuart_msgs cf [(i, c)]" "vuart_msgs cf ms"
    using Cons.prems(1) m by (auto simp: vuart_msgs_def)
  note send = uart_send_decoded(1) [OF v(1) Cons.prems(2) o1, of px] uart_send_decoded(2) [OF v(1) Cons.prems(2) o1]
  have step: "mux_transport_bytes px (map snd o1) s = Inr (r1, ?s1)"
    using send(1) r1 by (simp add: mux_deliver_frame)
  have "in_sync d1 ?s1"
    using mux_deliver_keeps [OF r1] send(2) Cons.prems(2) by (simp add: in_sync_def)
  moreover have "mux_deliver_all px (map msg_sid ms) ?s1 = Inr (r2, s'\<lparr>service_id_in := Some (word_of_nat i)\<rparr>)"
    using r2 by (simp add: mux_deliver_all_frame)
  ultimately show ?case
    using Cons.IH [OF v(2) _ o2] step send(2) o2 m out res
    by (auto simp: mux_transport_bytes_append split: if_splits)
qed

section \<open>From the host to the device\<close>

definition mux_bytes :: "mux_out list \<Rightarrow> u8 list" where
  "mux_bytes os = concat (map (\<lambda>x. case x of To_Transport c \<Rightarrow> [c] | To_Service i c \<Rightarrow> []) os)"

fun mux_sends :: "(u8 \<times> u8) list \<Rightarrow> 'w mux \<Rightarrow> mux_out list \<times> 'w mux" where
  "mux_sends [] s = ([], s)"
| "mux_sends ((sid, c) # ms) s =
     (let (out, s') = mux_send_byte sid c s; (out', s'') = mux_sends ms s' in (out @ out', s''))"

text \<open>The data bytes stored one by one in the buffers of their services, with the status of each write.\<close>

fun buf_writes :: "platform_conf \<Rightarrow> (u8 \<times> u8) list \<Rightarrow> buf_table \<Rightarrow> (int list \<times> buf_table) option" where
  "buf_writes cf [] B = Some ([], B)"
| "buf_writes cf ((sid, c) # ms) B =
     do { (st, B') \<leftarrow> buf_write cf B BUF_ID_UART (unat sid) [c]; (sts, B'') \<leftarrow> buf_writes cf ms B'; Some (st # sts, B'') }"

text \<open>The number of a service's buffer among the UART buffers, and the bytes that a sequence of messages has for a service.\<close>

definition sid_buf :: "platform_conf \<Rightarrow> u8 \<Rightarrow> nat" where
  "sid_buf cf sid = bufh_check_resnum cf BUF_ID_UART (unat sid)"

definition sid_bytes :: "u8 \<Rightarrow> (u8 \<times> u8) list \<Rightarrow> u8 list" where
  "sid_bytes sid ms = map snd (filter (\<lambda>m. fst m = sid) ms)"

text \<open>A service whose buffer is enabled for single bytes and has room for the bytes sent to it.\<close>

definition sid_room :: "platform_conf \<Rightarrow> (u8 \<times> u8) list \<Rightarrow> buf_table \<Rightarrow> u8 \<Rightarrow> bool" where
  "sid_room cf ms B sid \<longleftrightarrow> (case buf_getptr B BUF_ID_UART (sid_buf cf sid) of None \<Rightarrow> False
     | Some p \<Rightarrow> buf_wf p \<and> BUF_REALDSIZE p = 1 \<and> unat (bd_count p) + length (sid_bytes sid ms) \<le> BUF_REALSIZE p)"

definition sid_elems :: "platform_conf \<Rightarrow> buf_table \<Rightarrow> u8 \<Rightarrow> u8 list list" where
  "sid_elems cf B sid = (case buf_getptr B BUF_ID_UART (sid_buf cf sid) of None \<Rightarrow> [] | Some p \<Rightarrow> buf_elems p)"

lemma mux_bytes_map [simp]: "mux_bytes (map To_Transport bs) = bs"
  by (induction bs) (simp_all add: mux_bytes_def)

lemma mux_bytes_Cons [simp]: "mux_bytes (To_Transport c # xs) = c # mux_bytes xs"
  by (simp add: mux_bytes_def)

lemma mux_bytes_append [simp]: "mux_bytes (xs @ ys) = mux_bytes xs @ mux_bytes ys"
  by (simp add: mux_bytes_def)

lemma mux_send_byte_eq:
  "mux_send_byte sid c s =
     (map To_Transport ((if Some sid \<noteq> service_id_out s then [sid] else []) @ enc c),
      s\<lparr>prev_sent := Some (enc_last c), service_id_out := Some sid\<rparr>)"
  by (simp add: mux_send_byte_def enc_def enc_last_def)

lemma rx_handler_loop_append:
  "rx_handler_loop cf r (xs @ ys) d B =
     do {
       (o1, d1, B1) \<leftarrow> rx_handler_loop cf r xs d B;
       (o2, d2, B2) \<leftarrow> rx_handler_loop cf r ys d1 B1;
       Some (o1 @ o2, d2, B2)
     }"
  by (induction xs arbitrary: d B) (auto split: bind_splits)

lemma rx_sid:
  assumes "BUILD_SERMUX cf" and "SERMUX_SERVICE_ID_FIRST \<le> unat c" "unat c < SERMUX_SERVICE_ID_FIRST + SERMUX_NUM_VUART cf"
    "SERMUX_SERVICE_ID_FIRST + SERMUX_NUM_VUART cf \<le> SERMUX_SERVICE_ID_LAST + 1"
  shows "cmn_rx_handler cf (SERMUX_PHYS_ID cf) c d B = Some ([], d\<lparr>uart_service_id_in := Some c\<rparr>, B)"
proof -
  have "is_sid c" using assms by (simp add: is_sid_def)
  with sid_not_special [of c] assms show ?thesis
    by (simp add: cmn_rx_handler_def)
qed

lemma rx_enc:
  assumes "BUILD_SERMUX cf" and "SERMUX_SERVICE_ID_FIRST + SERMUX_NUM_VUART cf \<le> SERMUX_SERVICE_ID_LAST + 1"
    and "\<not> uart_got_esc d" and "uart_service_id_in d = Some sid"
  shows "rx_handler_loop cf (SERMUX_PHYS_ID cf) (enc c) d B =
    map_option (\<lambda>(_, B'). ([], d, B')) (buf_write cf B BUF_ID_UART (unat sid) [c])"
proof -
  have e: "d\<lparr>uart_got_esc := False\<rparr> = d" using assms(3) by simp
  have r: "SERMUX_SERVICE_ID_FIRST \<le> unat b \<and> unat b < SERMUX_SERVICE_ID_FIRST + SERMUX_NUM_VUART cf \<Longrightarrow> is_sid b" for b
    using assms(2) by (simp add: is_sid_def)
  show ?thesis
  proof (cases "needs_escape c")
    case True
    then show ?thesis
      using assms(1,3,4) not_needs_escape [OF needs_escape_xor [OF True]] r [of "c XOR SERMUX_ESCAPE_XOR_MASK"]
      by (auto simp: enc_def cmn_rx_handler_def Let_def e split: bind_splits)
  next
    case False
    then show ?thesis
      using assms(1,3,4) not_needs_escape [OF False] r [of c]
      by (auto simp: enc_def cmn_rx_handler_def Let_def e split: bind_splits)
  qed
qed

definition vuart_sid :: "platform_conf \<Rightarrow> u8 \<Rightarrow> bool" where
  "vuart_sid cf sid \<longleftrightarrow> BUILD_SERMUX cf \<and> SERMUX_SERVICE_ID_FIRST \<le> unat sid \<and>
     unat sid < SERMUX_SERVICE_ID_FIRST + SERMUX_NUM_VUART cf \<and>
     SERMUX_SERVICE_ID_FIRST + SERMUX_NUM_VUART cf \<le> SERMUX_SERVICE_ID_LAST + 1"

definition host_sync :: "'w mux \<Rightarrow> sermux_dev \<Rightarrow> bool" where
  "host_sync s d \<longleftrightarrow> \<not> uart_got_esc d \<and> (service_id_out s = None \<or> service_id_out s = uart_service_id_in d)"

lemma mux_send_received:
  assumes "vuart_sid cf sid" and "host_sync s d" and "mux_send_byte sid c s = (out, s')"
    and "buf_write cf B BUF_ID_UART (unat sid) [c] = Some (r, B')"
  shows "\<exists>d'. rx_handler_loop cf (SERMUX_PHYS_ID cf) (mux_bytes out) d B = Some ([], d', B') \<and> host_sync s' d'"
proof -
  let ?d = "d\<lparr>uart_service_id_in := Some sid\<rparr>"
  have out: "mux_bytes out = (if Some sid \<noteq> service_id_out s then [sid] else []) @ enc c"
    and s': "service_id_out s' = Some sid"
    using assms(3) by (auto simp: mux_send_byte_eq)
  have "rx_handler_loop cf (SERMUX_PHYS_ID cf) (enc c) ?d B = Some ([], ?d, B')"
    using rx_enc [of cf ?d sid c B] assms by (simp add: vuart_sid_def host_sync_def)
  moreover have "d = ?d" if "Some sid = service_id_out s"
    using that assms(2) by (cases d) (auto simp: host_sync_def)
  ultimately have "rx_handler_loop cf (SERMUX_PHYS_ID cf) (mux_bytes out) d B = Some ([], ?d, B')"
    unfolding out using rx_sid [of cf sid d B] assms(1) by (auto simp: vuart_sid_def)
  then show ?thesis
    using s' assms(2) by (auto simp: host_sync_def)
qed

lemma mux_sends_received:
  assumes "\<forall>(sid, c) \<in> set ms. vuart_sid cf sid" and "host_sync s d" and "mux_sends ms s = (out, s')"
    and "buf_writes cf ms B = Some (sts, B')"
  shows "\<exists>d'. rx_handler_loop cf (SERMUX_PHYS_ID cf) (mux_bytes out) d B = Some ([], d', B') \<and> host_sync s' d'"
  using assms
proof (induction ms arbitrary: s d B out sts)
  case Nil
  then show ?case by (simp add: mux_bytes_def)
next
  case (Cons m ms)
  obtain sid c where m: "m = (sid, c)" by fastforce
  obtain o1 s1 o2 where o1: "mux_send_byte sid c s = (o1, s1)" and o2: "mux_sends ms s1 = (o2, s')" and out: "out = o1 @ o2"
    using Cons.prems(3) m by (auto split: prod.splits)
  obtain r B1 sts1 where B1: "buf_write cf B BUF_ID_UART (unat sid) [c] = Some (r, B1)" and B2: "buf_writes cf ms B1 = Some (sts1, B')"
    using Cons.prems(4) m by (auto split: bind_splits)
  obtain d1 where d1: "rx_handler_loop cf (SERMUX_PHYS_ID cf) (mux_bytes o1) d B = Some ([], d1, B1)" "host_sync s1 d1"
    using mux_send_received [OF _ Cons.prems(2) o1 B1] Cons.prems(1) m by auto
  with Cons.IH [OF _ d1(2) o2 B2] Cons.prems(1) out show ?case
    by (auto simp: rx_handler_loop_append)
qed

text \<open>Bytes for services with room are all accepted and stored; no other buffer changes.\<close>

lemma sid_buf_inj:
  assumes "vuart_sid cf a" "vuart_sid cf b"
  shows "sid_buf cf a = sid_buf cf b \<longleftrightarrow> a = b"
proof -
  have "SERMUX_SERVICE_ID_FIRST \<le> unat a" "SERMUX_SERVICE_ID_FIRST \<le> unat b" "BUILD_SERMUX cf"
    using assms by (simp_all add: vuart_sid_def)
  then have "sid_buf cf a = sid_buf cf b \<longleftrightarrow> unat a = unat b"
    by (simp add: sid_buf_def bufh_check_resnum_def) linarith
  then show ?thesis by (simp add: word_unat_eq_iff)
qed

lemma buf_write_sid:
  assumes "vuart_sid cf sid" "sid_room cf ((sid, c) # ms) B sid"
  shows "\<exists>B'. buf_write cf B BUF_ID_UART (unat sid) [c] = Some (PLATFORM_OK, B') \<and> sid_room cf ms B' sid \<and>
    sid_elems cf B' sid = sid_elems cf B sid @ [[c]] \<and>
    (\<forall>resid rn. (resid, rn) \<noteq> (BUF_ID_UART, sid_buf cf sid) \<longrightarrow> buf_getptr B' resid rn = buf_getptr B resid rn)"
proof -
  obtain p where p: "buf_getptr B BUF_ID_UART (sid_buf cf sid) = Some p" "buf_wf p" "BUF_REALDSIZE p = 1"
    "unat (bd_count p) + Suc (length (sid_bytes sid ms)) \<le> BUF_REALSIZE p"
    using assms(2) by (auto simp: sid_room_def sid_bytes_def split: option.splits)
  obtain p' where p': "buf_write_desc [c] p = Some (PLATFORM_OK, p')" "buf_wf p'" "buf_elems p' = buf_elems p @ [[c]]"
    "BUF_REALSIZE p' = BUF_REALSIZE p" "BUF_REALDSIZE p' = 1"
    using buf_write_desc_room [OF p(2), of "[c]"] p by auto
  have "unat (bd_count p') = Suc (unat (bd_count p))"
    using length_buf_elems [OF p(2)] length_buf_elems [OF p'(2)] p'(3) by simp
  then show ?thesis
    using with_buf_Some [where f = "buf_write_desc [c]", OF p(1) [unfolded sid_buf_def] p'(1)] p p'
    by (auto simp: buf_write_def buf_getptr_putptr [OF p(1)] sid_room_def sid_elems_def simp flip: sid_buf_def)
qed

lemma sid_keep:
  assumes "buf_getptr B' BUF_ID_UART (sid_buf cf sid) = buf_getptr B BUF_ID_UART (sid_buf cf sid)"
  shows "sid_room cf ms B' sid = sid_room cf ms B sid" "sid_elems cf B' sid = sid_elems cf B sid"
  using assms by (simp_all add: sid_room_def sid_elems_def)

lemma sid_bytes_Cons: "sid_bytes sid ((i, c) # ms) = (if i = sid then [c] else []) @ sid_bytes sid ms"
  by (simp add: sid_bytes_def)

lemma sid_room_other: "i \<noteq> sid \<Longrightarrow> sid_room cf ((i, c) # ms) B sid = sid_room cf ms B sid"
  by (cases "buf_getptr B BUF_ID_UART (sid_buf cf sid)") (simp_all add: sid_room_def sid_bytes_Cons)

lemma buf_writes_stored:
  assumes "\<forall>(sid, c) \<in> set ms. vuart_sid cf sid \<and> sid_room cf ms B sid"
  shows "\<exists>B'. buf_writes cf ms B = Some (replicate (length ms) PLATFORM_OK, B') \<and>
    (\<forall>sid. vuart_sid cf sid \<longrightarrow> sid_elems cf B' sid = sid_elems cf B sid @ map (\<lambda>c. [c]) (sid_bytes sid ms)) \<and>
    (\<forall>resid rn. (\<forall>(sid, c) \<in> set ms. (resid, rn) \<noteq> (BUF_ID_UART, sid_buf cf sid)) \<longrightarrow> buf_getptr B' resid rn = buf_getptr B resid rn)"
  using assms
proof (induction ms arbitrary: B)
  case Nil
  then show ?case by (simp add: sid_bytes_def)
next
  case (Cons m ms)
  obtain i c where m: "m = (i, c)" by fastforce
  have i: "vuart_sid cf i" "sid_room cf ((i, c) # ms) B i" using Cons.prems m by auto
  from buf_write_sid [OF this] obtain B1 where B1: "buf_write cf B BUF_ID_UART (unat i) [c] = Some (PLATFORM_OK, B1)" "sid_room cf ms B1 i"
    "sid_elems cf B1 i = sid_elems cf B i @ [[c]]"
    and keep: "\<And>resid rn. (resid, rn) \<noteq> (BUF_ID_UART, sid_buf cf i) \<Longrightarrow> buf_getptr B1 resid rn = buf_getptr B resid rn" by blast
  have other: "sid_room cf ms B1 sid = sid_room cf ms B sid" "sid_elems cf B1 sid = sid_elems cf B sid"
    if "vuart_sid cf sid" "sid \<noteq> i" for sid
    using sid_keep [OF keep [of BUF_ID_UART "sid_buf cf sid"]] sid_buf_inj [OF that(1) i(1)] that(2) by auto
  have "\<forall>(sid, c) \<in> set ms. vuart_sid cf sid \<and> sid_room cf ms B1 sid"
  proof (clarify)
    fix sid d
    assume "(sid, d) \<in> set ms"
    then have v: "vuart_sid cf sid" "sid_room cf ((i, c) # ms) B sid" using Cons.prems m by auto
    then show "vuart_sid cf sid \<and> sid_room cf ms B1 sid" using B1(2) other [OF v(1)] by (cases "sid = i") (auto simp: sid_room_other)
  qed
  from Cons.IH [OF this] obtain B2 where B2: "buf_writes cf ms B1 = Some (replicate (length ms) PLATFORM_OK, B2)"
    "\<And>sid. vuart_sid cf sid \<Longrightarrow> sid_elems cf B2 sid = sid_elems cf B1 sid @ map (\<lambda>c. [c]) (sid_bytes sid ms)"
    "\<And>resid rn. (\<forall>(sid, c) \<in> set ms. (resid, rn) \<noteq> (BUF_ID_UART, sid_buf cf sid)) \<Longrightarrow> buf_getptr B2 resid rn = buf_getptr B1 resid rn"
    by blast
  have "sid_elems cf B2 sid = sid_elems cf B sid @ map (\<lambda>c. [c]) (sid_bytes sid (m # ms))" if "vuart_sid cf sid" for sid
    using B2(2) [OF that] B1(3) other [OF that] m by (cases "sid = i") (auto simp: sid_bytes_Cons)
  moreover have "buf_getptr B2 resid rn = buf_getptr B resid rn" if "\<forall>(sid, c) \<in> set (m # ms). (resid, rn) \<noteq> (BUF_ID_UART, sid_buf cf sid)" for resid rn
    using B2(3) [of resid rn] keep [of resid rn] that m by auto
  ultimately show ?case using B1(1) B2(1) m by auto
qed

section \<open>Properties\<close>

text \<open>C12. Device to host: whatever the device sends on its virtual UARTs, in any interleaving, the
  multiplexer decodes without a protocol error and hands every data byte to the service it was sent
  on, in order; the two sides agree on the service afterwards. (With delivery to the RFS server in
  \<open>rfsmux\<close> mode this is what the RFS server sees.)\<close>

theorem sermux_device_to_host:
  assumes "vuart_msgs cf ms" and "in_sync d s" and "uart_sends cf ms d = (out, d')"
    and "mux_deliver_all px (map msg_sid ms) s = Inr (res, s')" and "ms \<noteq> []"
  shows "mux_transport_bytes px (map snd out) s = Inr (res, s'\<lparr>service_id_in := uart_service_id_out d'\<rparr>) \<and>
    uart_service_id_out d' \<noteq> None"
  using uart_sends_decoded [OF assms(1-4)] assms(5) by simp

definition demo_mux :: "nat mux" where
  "demo_mux = \<lparr>service_id_in = None, service_id_out = None, prev_sent = None, got_esc = False,
     rfs_service_id = None, service_offset = 0, vport_num = 2, rfs_queue = [], mux_rfs = demo_srv\<rparr>"

definition demo_dev :: sermux_dev where
  "demo_dev = \<lparr>uart_service_id_in = None, uart_service_id_out = None, uart_got_esc = False, uart_last_sent = None\<rparr>"

theorem sermux_device_to_host_witness:
  "\<exists>out d' s'. uart_sends buf_demo_conf [(0xD0, 7), (0xD1, 0xD1), (0xD1, 0xC0)] demo_dev = (out, d') \<and>
     mux_transport_bytes demo_posix (map snd out) demo_mux =
       Inr ([To_Service 0 7, To_Service 1 0xD1, To_Service 1 0xC0], s')"
proof -
  let ?ms = "[(0xD0, 7), (0xD1, 0xD1), (0xD1, 0xC0)] :: (nat \<times> u8) list"
  obtain out d' where o: "uart_sends buf_demo_conf ?ms demo_dev = (out, d')" by fastforce
  have 1: "vuart_msgs buf_demo_conf ?ms"
    by (simp add: vuart_msgs_def is_vuart_def buf_demo_conf_def sermux_consts)
  have 2: "in_sync demo_dev demo_mux"
    by (simp add: in_sync_def demo_dev_def demo_mux_def)
  have 3: "mux_deliver_all demo_posix (map msg_sid ?ms) demo_mux =
      Inr ([To_Service 0 7, To_Service 1 0xD1, To_Service 1 0xC0], demo_mux)"
    by (simp add: mux_deliver_def demo_mux_def sermux_consts)
  show ?thesis
    using sermux_device_to_host [OF 1 2 o 3] o by auto
qed

text \<open>C13. Host to device: the bytes that the multiplexer sends for its services, in any interleaving, end up in the buffers of
  their virtual UARTs, provided these buffers are enabled for single bytes and have room for them: the device's receive handler sends
  nothing back, the buffer of every virtual UART then holds what it held followed by the bytes sent for its service, in order and with
  none lost, no buffer of another resource changes, and the two sides agree on the service afterwards.\<close>

theorem sermux_host_to_device:
  assumes "\<forall>(sid, c) \<in> set ms. vuart_sid cf sid \<and> sid_room cf ms B sid" and "host_sync s d" and "mux_sends ms s = (out, s')"
  shows "\<exists>d' B'. cmn_uart_rx_inthandler cf (SERMUX_PHYS_ID cf) (mux_bytes out) d B = Some ([], d', B') \<and> host_sync s' d' \<and>
    (\<forall>sid. vuart_sid cf sid \<longrightarrow> sid_elems cf B' sid = sid_elems cf B sid @ map (\<lambda>c. [c]) (sid_bytes sid ms)) \<and>
    (\<forall>resid rn. (\<forall>(sid, c) \<in> set ms. (resid, rn) \<noteq> (BUF_ID_UART, sid_buf cf sid)) \<longrightarrow> buf_getptr B' resid rn = buf_getptr B resid rn)"
proof -
  obtain B' where B': "buf_writes cf ms B = Some (replicate (length ms) PLATFORM_OK, B')"
    "\<forall>sid. vuart_sid cf sid \<longrightarrow> sid_elems cf B' sid = sid_elems cf B sid @ map (\<lambda>c. [c]) (sid_bytes sid ms)"
    "\<forall>resid rn. (\<forall>(sid, c) \<in> set ms. (resid, rn) \<noteq> (BUF_ID_UART, sid_buf cf sid)) \<longrightarrow> buf_getptr B' resid rn = buf_getptr B resid rn"
    using buf_writes_stored [OF assms(1)] by blast
  have "\<forall>(sid, c) \<in> set ms. vuart_sid cf sid" using assms(1) by auto
  from mux_sends_received [OF this assms(2,3) B'(1)] B'(2,3) show ?thesis
    by (auto simp: cmn_uart_rx_inthandler_def)
qed

theorem sermux_host_to_device_witness:
  "\<exists>out s' d' B'. mux_sends [(0xD1, 0xFF), (0xD0, 0xD1), (0xD1, 5)] demo_mux = (out, s') \<and>
     cmn_uart_rx_inthandler buf_demo_conf 0 (mux_bytes out) demo_dev buf_demo_table = Some ([], d', B') \<and>
     sid_elems buf_demo_conf B' 0xD0 = [[7], [0xD1]] \<and> sid_elems buf_demo_conf B' 0xD1 = [[7], [0xFF], [5]] \<and>
     buf_getptr B' BUF_ID_UART 0 = Some buf_demo_full"
proof -
  let ?ms = "[(0xD1, 0xFF), (0xD0, 0xD1), (0xD1, 5)] :: (u8 \<times> u8) list"
  obtain out s' where o: "mux_sends ?ms demo_mux = (out, s')" by fastforce
  have v: "vuart_sid buf_demo_conf 0xD0" "vuart_sid buf_demo_conf 0xD1"
    by (simp_all add: vuart_sid_def buf_demo_conf_def sermux_consts)
  have id: "sid_buf buf_demo_conf 0xD0 = 1" "sid_buf buf_demo_conf 0xD1 = 2"
    by (simp_all add: sid_buf_def bufh_check_resnum_def buf_demo_conf_def SERMUX_SERVICE_ID_FIRST_def)
  have g: "buf_getptr buf_demo_table BUF_ID_UART 0 = Some buf_demo_full" "buf_getptr buf_demo_table BUF_ID_UART 1 = Some buf_demo1"
    "buf_getptr buf_demo_table BUF_ID_UART 2 = Some buf_demo1"
    by (simp_all add: buf_getptr_def buf_demo_table_def)
  have n: "unat (bd_count buf_demo1) = 1" "BUF_REALSIZE buf_demo1 = 4" by (simp_all add: buf_demo1_def buf_macros)
  have 1: "\<forall>(sid, c) \<in> set ?ms. vuart_sid buf_demo_conf sid \<and> sid_room buf_demo_conf ?ms buf_demo_table sid"
    using v id g n buf_demo1_facts by (simp add: sid_room_def sid_bytes_def)
  have 2: "host_sync demo_mux demo_dev"
    by (simp add: host_sync_def demo_dev_def demo_mux_def)
  have e: "sid_elems buf_demo_conf buf_demo_table 0xD0 = [[7]]" "sid_elems buf_demo_conf buf_demo_table 0xD1 = [[7]]"
    using id g buf_demo1_facts by (simp_all add: sid_elems_def)
  have p: "SERMUX_PHYS_ID buf_demo_conf = 0" by (simp add: buf_demo_conf_def)
  from sermux_host_to_device [OF 1 2 o, unfolded p] obtain d' B' where
    "cmn_uart_rx_inthandler buf_demo_conf 0 (mux_bytes out) demo_dev buf_demo_table = Some ([], d', B')"
    and E: "\<And>sid. vuart_sid buf_demo_conf sid \<Longrightarrow>
      sid_elems buf_demo_conf B' sid = sid_elems buf_demo_conf buf_demo_table sid @ map (\<lambda>c. [c]) (sid_bytes sid ?ms)"
    and "buf_getptr B' BUF_ID_UART 0 = Some buf_demo_full"
    using id g by fastforce
  with o E [OF v(1)] E [OF v(2)] e show ?thesis by (auto simp: sid_bytes_def)
qed

text \<open>C14. A host that does not know the current service loses nothing: it answers a data byte with a
  resend request, the device answers with its service and the byte, and the byte is delivered.\<close>

theorem sermux_resend_recovers:
  assumes "vuart_msgs cf [(i, c)]" and "BUILD_SERMUX cf" and "uart_service_id_out d = Some (word_of_nat i)"
    and "service_id_in s = None" and "\<not> got_esc s" and "platform_uart_send cf i c d = (out, d1)"
  shows "\<exists>out2 d2. mux_transport_bytes px (map snd out) s = Inr ([To_Transport SERMUX_FORCE_SID_CHAR], s) \<and>
      cmn_rx_handler cf (SERMUX_PHYS_ID cf) SERMUX_FORCE_SID_CHAR d1 B = Some (out2, d2, B) \<and>
      mux_transport_bytes px (map snd out2) s =
        mux_deliver px (word_of_nat i) c (s\<lparr>service_id_in := Some (word_of_nat i)\<rparr>)"
proof -
  have v: "is_vuart cf i" "NUM_UART cf \<le> SERMUX_SERVICE_ID_FIRST" and sid: "is_sid (word_of_nat i)"
    and rng: "SERMUX_SERVICE_ID_FIRST + SERMUX_NUM_VUART cf \<le> SERMUX_SERVICE_ID_LAST + 1"
    using assms(1) sid_word(1) [of i] by (auto simp: vuart_msgs_def is_vuart_def)
  have out: "map snd out = enc c" and d1: "d1 = d\<lparr>uart_last_sent := Some (enc_last c)\<rparr>"
    using platform_uart_send_vuart [OF v, of c d] assms(3,6) by (auto simp: comp_def)
  let ?out2 = "map (Pair (SERMUX_PHYS_ID cf)) (word_of_nat i # enc c)"
  have "cmn_rx_handler cf (SERMUX_PHYS_ID cf) SERMUX_FORCE_SID_CHAR d1 B = Some (?out2, d1\<lparr>uart_last_sent := None\<rparr>, B)"
  proof -
    have "SERMUX_FORCE_SID_CHAR \<noteq> SERMUX_ESCAPE_CHAR"
      "\<not> unat SERMUX_FORCE_SID_CHAR < SERMUX_SERVICE_ID_FIRST + SERMUX_NUM_VUART cf"
      using rng by (simp_all add: sermux_consts)
    then show ?thesis
      using assms(2,3) d1 resend_enc [of c, unfolded resend_bytes_def]
      by (simp add: cmn_rx_handler_def Let_def flip: map_append split del: if_split)
  qed
  moreover have "mux_transport_bytes px (map snd ?out2) s =
      mux_deliver px (word_of_nat i) c (s\<lparr>service_id_in := Some (word_of_nat i)\<rparr>)"
    using mux_transport_sid [OF sid, of px s] assms(5)
      mux_transport_enc [of "s\<lparr>service_id_in := Some (word_of_nat i)\<rparr>" "word_of_nat i" px c]
    by (auto simp: comp_def split: sum.splits)
  ultimately show ?thesis
    using mux_transport_enc_lost [OF assms(5,4), of px c] out by auto
qed

theorem sermux_resend_recovers_witness:
  "\<exists>out d1 out2 d2. platform_uart_send buf_demo_conf 0xD1 0xC0 (demo_dev\<lparr>uart_service_id_out := Some 0xD1\<rparr>) = (out, d1) \<and>
      cmn_rx_handler buf_demo_conf 0 SERMUX_FORCE_SID_CHAR d1 buf_demo_table = Some (out2, d2, buf_demo_table) \<and>
      mux_transport_bytes demo_posix (map snd out2) demo_mux = Inr ([To_Service 1 0xC0], demo_mux\<lparr>service_id_in := Some 0xD1\<rparr>)"
proof -
  let ?d = "demo_dev\<lparr>uart_service_id_out := Some 0xD1\<rparr>"
  obtain out d1 where o: "platform_uart_send buf_demo_conf 0xD1 0xC0 ?d = (out, d1)" by fastforce
  have "vuart_msgs buf_demo_conf [(0xD1, 0xC0)]" "BUILD_SERMUX buf_demo_conf" "SERMUX_PHYS_ID buf_demo_conf = 0"
    "uart_service_id_out ?d = Some (word_of_nat 0xD1)" "service_id_in demo_mux = None" "\<not> got_esc demo_mux"
    by (simp_all add: vuart_msgs_def is_vuart_def buf_demo_conf_def sermux_consts demo_mux_def)
  with sermux_resend_recovers [OF _ _ _ _ _ o, of demo_mux demo_posix buf_demo_table] o show ?thesis
    by (auto simp: mux_deliver_def demo_mux_def sermux_consts)
qed

end
