(* ===== verification/Devman.thy ===== *)
theory Devman
  imports Prelude
begin

text \<open>
  The device manager (\<open>src/src/newlib/devman.c\<close>, \<open>src/inc/newlib/devman.h\<close>) and the system call stubs
  of the C library that go through it (\<open>src/src/newlib/stubs.c\<close>): devices register operations under a
  name, paths and file descriptors are dispatched to the device they belong to. The theory shows the
  invariant of the device table, what path lookup finds, that descriptors pack and unpack, and that
  an operation on a descriptor reaches the device that opened it. The heap pointer of \<open>stubs.c\<close>
  (\<open>_sbrk_r\<close>) is in theory \<open>Sbrk\<close>.
\<close>

section \<open>C strings without their terminator\<close>

definition tolower :: "u8 \<Rightarrow> u8" where
  "tolower c = (if 0x41 \<le> c \<and> c \<le> 0x5A then c + 0x20 else c)"

text \<open>\<open>strcasecmp( a, b ) == 0\<close> and \<open>strncasecmp( a, b, n ) == 0\<close>.\<close>

definition strcaseeq :: "u8 list \<Rightarrow> u8 list \<Rightarrow> bool" where
  "strcaseeq a b \<longleftrightarrow> map tolower a = map tolower b"

definition strncaseeq :: "u8 list \<Rightarrow> u8 list \<Rightarrow> nat \<Rightarrow> bool" where
  "strncaseeq a b n \<longleftrightarrow> map tolower (take n a) = map tolower (take n b)"

text \<open>\<open>strchr( s, c )\<close>: the index of the first \<open>c\<close>.\<close>

fun strchr :: "u8 list \<Rightarrow> u8 \<Rightarrow> nat option" where
  "strchr [] c = None"
| "strchr (x # xs) c = (if x = c then Some 0 else map_option Suc (strchr xs c))"

abbreviation slash :: u8 where
  "slash \<equiv> 0x2F"

section \<open>Devices\<close>

definition DM_MAX_DEVICES :: nat where "DM_MAX_DEVICES = 16"
definition DM_MAX_DEVICES_BITS :: nat where "DM_MAX_DEVICES_BITS = 4"
definition DM_MAX_DEV_NAME :: nat where "DM_MAX_DEV_NAME = 12"
definition DM_MAX_FNAME_LENGTH :: nat where "DM_MAX_FNAME_LENGTH = 30"
definition DM_STDIN_NUM :: nat where "DM_STDIN_NUM = 0"
definition DM_STDOUT_NUM :: nat where "DM_STDOUT_NUM = 1"
definition DM_STDERR_NUM :: nat where "DM_STDERR_NUM = 2"

lemmas dm_std_nums = DM_STDIN_NUM_def DM_STDOUT_NUM_def DM_STDERR_NUM_def

datatype errno = ENFILE | EEXIST | EROFS | EACCES | ENOSPC | ENOENT | EINVAL | EBADF
  | ENODEV | ENOSYS | ENOMEM | EPERM | EXDEV | EIO

text \<open>What an operation returns: \<open>Inl\<close> for -1 (or \<open>NULL\<close>), with the value it stored in \<open>_errno\<close> if it
  stored one.\<close>

type_synonym 'a reent = "errno option + 'a"

record dm_dirent =
  dent_fsize :: u32
  dent_fname :: "u8 list"
  dent_ftime :: u32
  dent_flags :: u8

text \<open>The operations of a device; an absent one is \<open>NULL\<close>. \<open>'d\<close> is what \<open>pdata\<close> points to, \<open>'h\<close> a
  directory handle and \<open>'s\<close> the state the devices share.\<close>

type_synonym ('r, 's) dm_op = "'s \<Rightarrow> ('r reent \<times> 's) option"

record ('d, 'h, 's) DM_DEVICE =
  p_open_r :: "(u8 list \<Rightarrow> u32 \<Rightarrow> int \<Rightarrow> 'd \<Rightarrow> (nat, 's) dm_op) option"
  p_close_r :: "(nat \<Rightarrow> 'd \<Rightarrow> (nat, 's) dm_op) option"
  p_write_r :: "(nat \<Rightarrow> u8 list \<Rightarrow> 'd \<Rightarrow> (nat, 's) dm_op) option"
  p_read_r :: "(nat \<Rightarrow> nat \<Rightarrow> 'd \<Rightarrow> (u8 list, 's) dm_op) option"
  p_lseek_r :: "(nat \<Rightarrow> u32 \<Rightarrow> u32 \<Rightarrow> 'd \<Rightarrow> (u32, 's) dm_op) option"
  p_opendir_r :: "(u8 list \<Rightarrow> 'd \<Rightarrow> ('h, 's) dm_op) option"
  p_readdir_r :: "('h \<Rightarrow> 'd \<Rightarrow> (dm_dirent, 's) dm_op) option"
  p_closedir_r :: "('h \<Rightarrow> 'd \<Rightarrow> (nat, 's) dm_op) option"
  p_getaddr_r :: "(nat \<Rightarrow> 'd \<Rightarrow> (nat, 's) dm_op) option"
  p_mkdir_r :: "(u8 list \<Rightarrow> int \<Rightarrow> 'd \<Rightarrow> (nat, 's) dm_op) option"
  p_unlink_r :: "(u8 list \<Rightarrow> 'd \<Rightarrow> (nat, 's) dm_op) option"
  p_rmdir_r :: "(u8 list \<Rightarrow> 'd \<Rightarrow> (nat, 's) dm_op) option"
  p_rename_r :: "(u8 list \<Rightarrow> u8 list \<Rightarrow> 'd \<Rightarrow> (nat, 's) dm_op) option"

text \<open>A device whose operations are all \<open>NULL\<close>.\<close>

definition dm_null_device :: "('d, 'h, 's) DM_DEVICE" where
  "dm_null_device = \<lparr>p_open_r = None, p_close_r = None, p_write_r = None, p_read_r = None,
     p_lseek_r = None, p_opendir_r = None, p_readdir_r = None, p_closedir_r = None,
     p_getaddr_r = None, p_mkdir_r = None, p_unlink_r = None, p_rmdir_r = None, p_rename_r = None\<rparr>"

record ('d, 'h, 's) DM_INSTANCE_DATA =
  dm_name :: "u8 list"
  dm_pdata :: 'd
  dm_pdev :: "('d, 'h, 's) DM_DEVICE"

text \<open>Entries of \<open>dm_list\<close> from \<open>dm_num_devs\<close> on are never read: the table is the list of the entries
  before, and \<open>dm_num_devs\<close> its length.\<close>

type_synonym ('d, 'h, 's) dm_table = "('d, 'h, 's) DM_INSTANCE_DATA list"

datatype dm_err = DM_ERR_ALREADY_REGISTERED | DM_ERR_NOT_REGISTERED | DM_ERR_NO_SPACE
  | DM_ERR_INVALID_NAME | DM_ERR_NO_DEVICE | DM_ERR_INVALID_OPS | DM_ERR_INIT

text \<open>The index of the first entry of the table with the given name.\<close>

fun dm_find :: "u8 list \<Rightarrow> ('d, 'h, 's) dm_table \<Rightarrow> nat option" where
  "dm_find name [] = None"
| "dm_find name (e # es) = (if strcaseeq name (dm_name e) then Some 0 else map_option Suc (dm_find name es))"

text \<open>The check that both registration functions make of a name (\<open>None\<close> is \<open>NULL\<close>).\<close>

definition dm_name_ok :: "u8 list \<Rightarrow> bool" where
  "dm_name_ok name \<longleftrightarrow> name \<noteq> [] \<and> hd name = slash \<and> length name \<le> DM_MAX_DEV_NAME"

definition dm_register :: "u8 list option \<Rightarrow> 'd \<Rightarrow> ('d, 'h, 's) DM_DEVICE option \<Rightarrow> ('d, 'h, 's) dm_table \<Rightarrow>
    (dm_err + nat) \<times> ('d, 'h, 's) dm_table" where
  "dm_register name pdata pdev T =
     (case pdev of None \<Rightarrow> (Inl DM_ERR_INVALID_OPS, T)
      | Some dev \<Rightarrow>
          (case name of None \<Rightarrow> (Inl DM_ERR_INVALID_NAME, T)
           | Some nm \<Rightarrow>
               if \<not> dm_name_ok nm then (Inl DM_ERR_INVALID_NAME, T)
               else if dm_find nm T \<noteq> None then (Inl DM_ERR_ALREADY_REGISTERED, T)
               else if length T = DM_MAX_DEVICES then (Inl DM_ERR_NO_SPACE, T)
               else (Inr (length T), T @ [\<lparr>dm_name = nm, dm_pdata = pdata, dm_pdev = dev\<rparr>])))"

definition dm_unregister :: "u8 list option \<Rightarrow> ('d, 'h, 's) dm_table \<Rightarrow>
    (dm_err + unit) \<times> ('d, 'h, 's) dm_table" where
  "dm_unregister name T =
     (case name of None \<Rightarrow> (Inl DM_ERR_INVALID_NAME, T)
      | Some nm \<Rightarrow>
          if \<not> dm_name_ok nm then (Inl DM_ERR_INVALID_NAME, T)
          else (case dm_find nm T of None \<Rightarrow> (Inl DM_ERR_NOT_REGISTERED, T)
             | Some i \<Rightarrow> (Inr (), take i T @ drop (Suc i) T)))"

text \<open>One step of the search for the longest device name that the path starts with: the best match so
  far is its length and its index.\<close>

definition dm_match_step :: "u8 list \<Rightarrow> nat \<times> ('d, 'h, 's) DM_INSTANCE_DATA \<Rightarrow> nat \<times> nat \<Rightarrow> nat \<times> nat" where
  "dm_match_step name = (\<lambda>(i, e) (matchlen, pos).
     if strncaseeq name (dm_name e) (length (dm_name e)) \<and> matchlen < length (dm_name e)
     then (length (dm_name e), i) else (matchlen, pos))"

text \<open>\<open>None\<close> is \<open>DM_ERR_NO_DEVICE\<close>.\<close>

definition dm_device_id_from_name :: "u8 list \<Rightarrow> ('d, 'h, 's) dm_table \<Rightarrow> (nat \<times> u8 list) option" where
  "dm_device_id_from_name name T =
     (let (matchlen, pos) = fold (dm_match_step name) (enumerate 0 T) (0, 0)
      in if matchlen = 0 then None else Some (pos, drop (length (dm_name (T ! pos))) name))"

definition dm_get_instance_at :: "int \<Rightarrow> ('d, 'h, 's) dm_table \<Rightarrow> ('d, 'h, 's) DM_INSTANCE_DATA option" where
  "dm_get_instance_at idx T = (if idx < 0 \<or> int (length T) \<le> idx then None else Some (T ! nat idx))"

definition dm_get_device_at :: "int \<Rightarrow> ('d, 'h, 's) dm_table \<Rightarrow> ('d, 'h, 's) DM_DEVICE option" where
  "dm_get_device_at idx T = (if idx < 0 \<or> int (length T) \<le> idx then None else Some (dm_pdev (T ! nat idx)))"

definition dm_get_num_devices :: "('d, 'h, 's) dm_table \<Rightarrow> nat" where
  "dm_get_num_devices T = length T"

section \<open>File descriptors\<close>

definition DM_MAKE_DESC :: "nat \<Rightarrow> nat \<Rightarrow> int" where
  "DM_MAKE_DESC devid fd = push_bit (15 - DM_MAX_DEVICES_BITS) (int devid) OR int fd"

definition DM_GET_DEVID :: "int \<Rightarrow> int" where
  "DM_GET_DEVID desc = drop_bit (15 - DM_MAX_DEVICES_BITS) desc"

definition DM_GET_FD :: "int \<Rightarrow> nat" where
  "DM_GET_FD desc = nat (desc AND (push_bit (15 - DM_MAX_DEVICES_BITS) 1 - 1))"

section \<open>Directories\<close>

record 'h DM_DIR =
  dir_devid :: nat
  dir_userdata :: 'h

definition dm_opendir :: "bool \<Rightarrow> u8 list \<Rightarrow> ('d, 'h, 's) dm_table \<Rightarrow> ('h DM_DIR, 's) dm_op" where
  "dm_opendir malloc_ok dirname T s =
     (case dm_device_id_from_name dirname T of None \<Rightarrow> Some (Inl (Some ENOSYS), s)
      | Some (pos, rest) \<Rightarrow>
          (case p_opendir_r (dm_pdev (T ! pos)) of None \<Rightarrow> Some (Inl (Some ENOSYS), s)
           | Some f \<Rightarrow> do {
               (r, s') \<leftarrow> f rest (dm_pdata (T ! pos)) s;
               case r of Inl e \<Rightarrow> Some (Inl e, s')
               | Inr h \<Rightarrow>
                   if malloc_ok then Some (Inr \<lparr>dir_devid = pos, dir_userdata = h\<rparr>, s')
                   else Some (Inl (Some ENOMEM), s')
             }))"

definition dm_readdir :: "'h DM_DIR \<Rightarrow> ('d, 'h, 's) dm_table \<Rightarrow> (dm_dirent, 's) dm_op" where
  "dm_readdir d T s =
     (if length T \<le> dir_devid d then Some (Inl (Some EBADF), s)
      else (case p_readdir_r (dm_pdev (T ! dir_devid d)) of None \<Rightarrow> Some (Inl (Some EBADF), s)
        | Some f \<Rightarrow> f (dir_userdata d) (dm_pdata (T ! dir_devid d)) s))"

definition dm_closedir :: "'h DM_DIR \<Rightarrow> ('d, 'h, 's) dm_table \<Rightarrow> (nat, 's) dm_op" where
  "dm_closedir d T s =
     (if length T \<le> dir_devid d then Some (Inl (Some EBADF), s)
      else (case p_closedir_r (dm_pdev (T ! dir_devid d)) of None \<Rightarrow> Some (Inl (Some EBADF), s)
        | Some f \<Rightarrow> f (dir_userdata d) (dm_pdata (T ! dir_devid d)) s))"

definition dm_getaddr :: "int \<Rightarrow> ('d, 'h, 's) dm_table \<Rightarrow> (nat, 's) dm_op" where
  "dm_getaddr fd T s =
     (case dm_get_instance_at (DM_GET_DEVID fd) T of None \<Rightarrow> Some (Inl (Some ENOSYS), s)
      | Some pinst \<Rightarrow>
          (case p_getaddr_r (dm_pdev pinst) of None \<Rightarrow> Some (Inl (Some ENOSYS), s)
           | Some f \<Rightarrow> f (DM_GET_FD fd) (dm_pdata pinst) s))"

section \<open>System call stubs\<close>

text \<open>The index of the device of a path and the path below it; \<open>None\<close> is -1.\<close>

definition find_dm_entry :: "u8 list option \<Rightarrow> ('d, 'h, 's) dm_table \<Rightarrow> (nat \<times> u8 list) option" where
  "find_dm_entry name T =
     do {
       nm \<leftarrow> name;
       if nm = [] \<or> hd nm \<noteq> slash then None
       else do {
         (tempname, actname) \<leftarrow>
           (case strchr (tl nm) slash of
              None \<Rightarrow> Some ([slash], tl nm)
            | Some p \<Rightarrow>
                if DM_MAX_DEV_NAME < p + 1 \<or> p + 1 = 1 then None
                else Some (take (p + 1) nm, drop (p + 2) nm));
         i \<leftarrow> dm_find tempname T;
         if actname = [] then None else Some (i, actname)
       }
     }"

definition open_r :: "u8 list option \<Rightarrow> u32 \<Rightarrow> int \<Rightarrow> ('d, 'h, 's) dm_table \<Rightarrow> (int, 's) dm_op" where
  "open_r name flags mode T s =
     (case find_dm_entry name T of None \<Rightarrow> Some (Inl (Some ENODEV), s)
      | Some (devid, actname) \<Rightarrow>
          (case p_open_r (dm_pdev (T ! devid)) of None \<Rightarrow> Some (Inl (Some ENOSYS), s)
           | Some f \<Rightarrow> do {
               (r, s') \<leftarrow> f actname flags mode (dm_pdata (T ! devid)) s;
               case r of Inl e \<Rightarrow> Some (Inl e, s') | Inr res \<Rightarrow> Some (Inr (DM_MAKE_DESC devid res), s')
             }))"

text \<open>The stubs below use the device entry without checking that there is one: \<open>NULL\<close> is a fault.\<close>

definition close_r :: "int \<Rightarrow> ('d, 'h, 's) dm_table \<Rightarrow> (nat, 's) dm_op" where
  "close_r fd T s =
     do {
       pinst \<leftarrow> dm_get_instance_at (DM_GET_DEVID fd) T;
       case p_close_r (dm_pdev pinst) of None \<Rightarrow> Some (Inl (Some ENOSYS), s)
       | Some f \<Rightarrow> f (DM_GET_FD fd) (dm_pdata pinst) s
     }"

definition lseek_r :: "int \<Rightarrow> u32 \<Rightarrow> u32 \<Rightarrow> ('d, 'h, 's) dm_table \<Rightarrow> (u32, 's) dm_op" where
  "lseek_r fd off whence T s =
     do {
       pinst \<leftarrow> dm_get_instance_at (DM_GET_DEVID fd) T;
       case p_lseek_r (dm_pdev pinst) of None \<Rightarrow> Some (Inl (Some ENOSYS), s)
       | Some f \<Rightarrow> f (DM_GET_FD fd) off whence (dm_pdata pinst) s
     }"

definition read_r :: "int \<Rightarrow> nat \<Rightarrow> ('d, 'h, 's) dm_table \<Rightarrow> (u8 list, 's) dm_op" where
  "read_r fd len T s =
     do {
       pinst \<leftarrow> dm_get_instance_at (DM_GET_DEVID fd) T;
       case p_read_r (dm_pdev pinst) of None \<Rightarrow> Some (Inl (Some ENOSYS), s)
       | Some f \<Rightarrow> f (DM_GET_FD fd) len (dm_pdata pinst) s
     }"

definition write_r :: "int \<Rightarrow> u8 list \<Rightarrow> ('d, 'h, 's) dm_table \<Rightarrow> (nat, 's) dm_op" where
  "write_r fd bs T s =
     do {
       pinst \<leftarrow> dm_get_instance_at (DM_GET_DEVID fd) T;
       case p_write_r (dm_pdev pinst) of None \<Rightarrow> Some (Inl (Some ENOSYS), s)
       | Some f \<Rightarrow> f (DM_GET_FD fd) bs (dm_pdata pinst) s
     }"

text \<open>\<open>actname - 1\<close> points at the slash in front of the name.\<close>

definition mkdir_r :: "u8 list option \<Rightarrow> int \<Rightarrow> ('d, 'h, 's) dm_table \<Rightarrow> (nat, 's) dm_op" where
  "mkdir_r path mode T s =
     (case find_dm_entry path T of None \<Rightarrow> Some (Inl (Some ENODEV), s)
      | Some (devid, actname) \<Rightarrow>
          (case p_mkdir_r (dm_pdev (T ! devid)) of None \<Rightarrow> Some (Inl (Some EPERM), s)
           | Some f \<Rightarrow> f (slash # actname) mode (dm_pdata (T ! devid)) s))"

definition unlink_r :: "u8 list option \<Rightarrow> ('d, 'h, 's) dm_table \<Rightarrow> (nat, 's) dm_op" where
  "unlink_r fname T s =
     (case find_dm_entry fname T of None \<Rightarrow> Some (Inl (Some ENODEV), s)
      | Some (devid, actname) \<Rightarrow>
          (case p_unlink_r (dm_pdev (T ! devid)) of None \<Rightarrow> Some (Inl (Some ENOSYS), s)
           | Some f \<Rightarrow> f actname (dm_pdata (T ! devid)) s))"

definition rmdir :: "u8 list option \<Rightarrow> ('d, 'h, 's) dm_table \<Rightarrow> (nat, 's) dm_op" where
  "rmdir path T s =
     (case find_dm_entry path T of None \<Rightarrow> Some (Inl (Some ENODEV), s)
      | Some (devid, actname) \<Rightarrow>
          (case p_rmdir_r (dm_pdev (T ! devid)) of None \<Rightarrow> Some (Inl (Some ENOSYS), s)
           | Some f \<Rightarrow> f actname (dm_pdata (T ! devid)) s))"

definition rename_r :: "u8 list option \<Rightarrow> u8 list option \<Rightarrow> ('d, 'h, 's) dm_table \<Rightarrow> (nat, 's) dm_op" where
  "rename_r oldname newname T s =
     (case find_dm_entry oldname T of None \<Rightarrow> Some (Inl (Some ENODEV), s)
      | Some (devid_old, actname_old) \<Rightarrow>
          (case find_dm_entry newname T of None \<Rightarrow> Some (Inl (Some ENODEV), s)
           | Some (devid_new, actname_new) \<Rightarrow>
               if devid_old = devid_new then
                 (case p_rename_r (dm_pdev (T ! devid_old)) of None \<Rightarrow> Some (Inl (Some EPERM), s)
                  | Some f \<Rightarrow> f actname_old actname_new (dm_pdata (T ! devid_old)) s)
               else Some (Inl (Some EXDEV), s)))"

text \<open>\<open>True\<close> is success with \<open>st_mode = S_IFCHR\<close>.\<close>

definition fstat_r :: "int \<Rightarrow> 's \<Rightarrow> bool reent \<times> 's" where
  "fstat_r fd s =
     (if int DM_STDIN_NUM \<le> fd \<and> fd \<le> int DM_STDERR_NUM then (Inr True, s) else (Inl (Some ENOSYS), s))"

section \<open>Descriptors pack and unpack\<close>

lemma desc_width: "15 - DM_MAX_DEVICES_BITS = 11"
  by (simp add: DM_MAX_DEVICES_BITS_def)

lemma DM_MAKE_DESC_eq:
  assumes "fd < 2 ^ 11"
  shows "DM_MAKE_DESC d fd = 2 ^ 11 * int d + int fd"
proof -
  have "take_bit 11 (int fd) = int fd"
    using assms by (intro take_bit_int_eq_self) auto
  then have "push_bit 11 (int d) OR int fd = push_bit 11 (int d) + int fd"
    by (intro disjunctive_add [symmetric]) (metis bit_push_bit_iff bit_take_bit_iff not_le)
  then show ?thesis
    by (simp add: DM_MAKE_DESC_def desc_width push_bit_eq_mult mult.commute)
qed

lemma DM_GET_FD_eq: "DM_GET_FD desc = nat (desc mod 2 ^ 11)"
  using take_bit_eq_mask [of 11 desc]
  by (simp add: DM_GET_FD_def desc_width take_bit_eq_mod mask_eq_exp_minus_1 push_bit_eq_mult)

lemma DM_GET_DEVID_eq: "DM_GET_DEVID desc = desc div 2 ^ 11"
  by (simp add: DM_GET_DEVID_def desc_width drop_bit_eq_div)

lemma DM_GET_DEVID_make: "fd < 2 ^ 11 \<Longrightarrow> DM_GET_DEVID (DM_MAKE_DESC d fd) = int d"
  by (simp add: DM_MAKE_DESC_eq DM_GET_DEVID_eq)

lemma DM_GET_FD_make: "fd < 2 ^ 11 \<Longrightarrow> DM_GET_FD (DM_MAKE_DESC d fd) = fd"
  by (simp add: DM_MAKE_DESC_eq DM_GET_FD_eq)

text \<open>A descriptor made of a device number below the number of devices and a device-level descriptor
  of at most 11 bits is a non-negative 15-bit number, from which both parts are recovered.\<close>

theorem dm_desc_roundtrip:
  assumes "d < DM_MAX_DEVICES" and "fd < 2 ^ 11"
  shows "0 \<le> DM_MAKE_DESC d fd \<and> DM_MAKE_DESC d fd < 2 ^ 15 \<and>
    DM_GET_DEVID (DM_MAKE_DESC d fd) = int d \<and> DM_GET_FD (DM_MAKE_DESC d fd) = fd"
  using assms by (simp add: DM_GET_DEVID_make DM_GET_FD_make)
    (simp add: DM_MAKE_DESC_eq DM_MAX_DEVICES_def)

theorem dm_desc_roundtrip_witness: "DM_GET_DEVID (DM_MAKE_DESC 15 2047) = 15"
  using dm_desc_roundtrip [of 15 2047] by (simp add: DM_MAX_DEVICES_def)

section \<open>The device table\<close>

definition dm_inv :: "('d, 'h, 's) dm_table \<Rightarrow> bool" where
  "dm_inv T \<longleftrightarrow> length T \<le> DM_MAX_DEVICES \<and> (\<forall>e \<in> set T. dm_name_ok (dm_name e)) \<and>
     distinct (map (\<lambda>e. map tolower (dm_name e)) T)"

lemma dm_find_Some_iff:
  "dm_find nm T = Some i \<longleftrightarrow>
     i < length T \<and> strcaseeq nm (dm_name (T ! i)) \<and> (\<forall>j<i. \<not> strcaseeq nm (dm_name (T ! j)))"
proof (induction T arbitrary: i)
  case Nil
  then show ?case by simp
next
  case (Cons e T)
  show ?case
  proof (cases i)
    case 0
    then show ?thesis by auto
  next
    case (Suc k)
    then show ?thesis
      using Cons.IH [of k] by (auto simp: less_Suc_eq_0_disj)
  qed
qed

lemma dm_find_None_iff: "dm_find nm T = None \<longleftrightarrow> (\<forall>e \<in> set T. \<not> strcaseeq nm (dm_name e))"
  by (induction T) auto

lemma dm_inv_unique:
  assumes "dm_inv T" "i < length T" "j < length T" "strcaseeq (dm_name (T ! i)) (dm_name (T ! j))"
  shows "i = j"
  using assms distinct_conv_nth [of "map (\<lambda>e. map tolower (dm_name e)) T"]
  by (auto simp: dm_inv_def strcaseeq_def)

lemma dm_find_inv:
  assumes "dm_inv T"
  shows "dm_find nm T = Some i \<longleftrightarrow> i < length T \<and> strcaseeq nm (dm_name (T ! i))"
proof -
  have "j = i" if "strcaseeq nm (dm_name (T ! j))" "j < i" "i < length T" "strcaseeq nm (dm_name (T ! i))" for j
    using that dm_inv_unique [OF assms, of j i] by (simp add: strcaseeq_def)
  then show ?thesis
    by (auto simp: dm_find_Some_iff)
qed

lemma dm_inv_Nil: "dm_inv []"
  by (simp add: dm_inv_def)

lemma dm_inv_register: "dm_inv T \<Longrightarrow> dm_inv (snd (dm_register name pdata pdev T))"
  by (auto simp: dm_register_def dm_inv_def dm_find_None_iff strcaseeq_def split: option.splits)

lemma dm_inv_unregister:
  assumes "dm_inv T"
  shows "dm_inv (snd (dm_unregister name T))"
proof -
  have "dm_inv (take i T @ drop (Suc i) T)" for i
  proof -
    have "set (take i T @ drop (Suc i) T) \<subseteq> set T"
      using set_take_subset [of i T] set_drop_subset [of "Suc i" T] by auto
    moreover have "distinct (map f (take i T @ drop (Suc i) T))" if "distinct (map f T)" for f :: "_ \<Rightarrow> u8 list"
      using distinct_take [OF that, of i] distinct_drop [OF that, of "Suc i"]
        set_take_disj_set_drop_if_distinct [OF that, of i "Suc i"]
      by (simp add: take_map drop_map)
    moreover have "length (take i T @ drop (Suc i) T) \<le> length T"
      by simp
    ultimately show ?thesis
      using assms unfolding dm_inv_def by (meson le_trans subsetD)
  qed
  with assms show ?thesis
    by (auto simp: dm_unregister_def split: option.splits)
qed

text \<open>The tables that registration and removal, in any order and with any arguments, produce.\<close>

inductive dm_reachable :: "('d, 'h, 's) dm_table \<Rightarrow> bool" where
  init: "dm_reachable []"
| register: "dm_reachable T \<Longrightarrow> dm_reachable (snd (dm_register name pdata pdev T))"
| unregister: "dm_reachable T \<Longrightarrow> dm_reachable (snd (dm_unregister name T))"

text \<open>C24. Every device table that registration and removal can produce has at most
  \<open>DM_MAX_DEVICES\<close> entries, whose names start with a slash, are at most \<open>DM_MAX_DEV_NAME\<close>
  characters long and differ from each other even when case is ignored.\<close>

theorem dm_table_invariant:
  assumes "dm_reachable T"
  shows "dm_inv T"
  using assms by induction (simp_all add: dm_inv_Nil dm_inv_register dm_inv_unregister)

theorem dm_table_invariant_witness:
  "dm_inv (snd (dm_register (Some [slash, 0x41]) () (Some (dm_null_device :: (unit, unit, unit) DM_DEVICE)) []))"
  by (rule dm_table_invariant, rule dm_reachable.register, rule dm_reachable.init)

section \<open>Path lookup\<close>

lemma strchr_None_iff: "strchr xs c = None \<longleftrightarrow> c \<notin> set xs"
  by (induction xs) auto

lemma strchr_append: "c \<notin> set ys \<Longrightarrow> strchr (ys @ c # zs) c = Some (length ys)"
  by (induction ys) auto

lemma first_split_unique:
  "c \<notin> set ys \<Longrightarrow> c \<notin> set ys' \<Longrightarrow> ys @ c # zs = ys' @ c # zs' \<longleftrightarrow> ys = ys' \<and> zs = zs'"
proof (induction ys arbitrary: ys')
  case Nil
  then show ?case by (cases ys') auto
next
  case (Cons y ys)
  then show ?case by (cases ys') auto
qed

lemma strcaseeq_length: "strcaseeq a b \<Longrightarrow> length a = length b"
  unfolding strcaseeq_def by (rule map_eq_imp_length_eq)

lemma strcaseeq_slash [simp]: "strcaseeq [slash] nm \<longleftrightarrow> nm = [slash]"
proof
  assume *: "strcaseeq [slash] nm"
  then obtain c where nm: "nm = [c]"
    using strcaseeq_length [OF *] by (cases nm) auto
  have "tolower c = slash \<Longrightarrow> c = slash"
    by (simp add: tolower_def split: if_split_asm)
  with * nm show "nm = [slash]"
    by (simp add: strcaseeq_def tolower_def)
qed (simp add: strcaseeq_def)

text \<open>The two ways a path can name a file of the device \<open>nm\<close>: below the device's name, or directly
  below the root device.\<close>

definition dm_path_of :: "u8 list \<Rightarrow> u8 list \<Rightarrow> u8 list \<Rightarrow> bool" where
  "dm_path_of nm a p \<longleftrightarrow>
     (\<exists>dev. p = dev @ slash # a \<and> strcaseeq dev nm \<and> 2 \<le> length dev \<and> hd dev = slash \<and> slash \<notin> set (tl dev))
     \<or> p = slash # a \<and> slash \<notin> set a \<and> nm = [slash]"

lemma find_dm_entry_no_slash:
  "slash \<notin> set t \<Longrightarrow> find_dm_entry (Some (slash # t)) T = Some (i, a) \<longleftrightarrow>
     dm_find [slash] T = Some i \<and> a = t \<and> t \<noteq> []"
  by (cases "dm_find [slash] T") (auto simp: find_dm_entry_def strchr_None_iff [THEN iffD2])

lemma find_dm_entry_below:
  "slash \<notin> set ys \<Longrightarrow> find_dm_entry (Some (slash # ys @ slash # zs)) T = Some (i, a) \<longleftrightarrow>
     length ys + 1 \<le> DM_MAX_DEV_NAME \<and> ys \<noteq> [] \<and> dm_find (slash # ys) T = Some i \<and> a = zs \<and> zs \<noteq> []"
  by (cases "dm_find (slash # ys) T") (auto simp: find_dm_entry_def strchr_append)

lemma dm_path_of_no_slash:
  "slash \<notin> set t \<Longrightarrow> dm_path_of nm a (slash # t) \<longleftrightarrow> t = a \<and> nm = [slash]"
  by (auto simp: dm_path_of_def Cons_eq_append_conv)

lemma dev_split_unique:
  assumes "slash \<notin> set ys"
  shows "slash # ys @ slash # zs = dev @ slash # a \<and> 2 \<le> length dev \<and> slash \<notin> set (tl dev)
      \<longleftrightarrow> dev = slash # ys \<and> ys \<noteq> [] \<and> a = zs"
proof (cases dev)
  case Nil
  then show ?thesis by simp
next
  case (Cons d ds)
  show ?thesis
  proof (cases "slash \<in> set ds")
    case True
    with Cons assms show ?thesis by auto
  next
    case False
    with Cons show ?thesis
      using first_split_unique [OF assms False, of zs a] by (cases ys) auto
  qed
qed

lemma dm_path_of_below:
  assumes "slash \<notin> set ys"
  shows "dm_path_of nm a (slash # ys @ slash # zs) \<longleftrightarrow> ys \<noteq> [] \<and> strcaseeq (slash # ys) nm \<and> a = zs"
proof -
  have "dm_path_of nm a (slash # ys @ slash # zs) \<longleftrightarrow>
      (\<exists>dev. (slash # ys @ slash # zs = dev @ slash # a \<and> 2 \<le> length dev \<and> slash \<notin> set (tl dev))
        \<and> strcaseeq dev nm \<and> hd dev = slash)"
    by (auto simp: dm_path_of_def)
  then show ?thesis
    by (simp only: dev_split_unique [OF assms]) auto
qed

lemma find_dm_entry_eq:
  assumes "dm_inv T"
  shows "find_dm_entry (Some p) T = Some (i, a) \<longleftrightarrow>
    i < length T \<and> a \<noteq> [] \<and> dm_path_of (dm_name (T ! i)) a p"
proof (cases p)
  case Nil
  then show ?thesis
    by (auto simp: find_dm_entry_def dm_path_of_def)
next
  case (Cons c t)
  show ?thesis
  proof (cases "c = slash")
    case False
    with Cons show ?thesis
      by (auto simp: find_dm_entry_def dm_path_of_def) (metis hd_append2 list.sel(1) list.size(3) not_numeral_le_zero)
  next
    case c: True
    show ?thesis
    proof (cases "slash \<in> set t")
      case False
      with Cons c show ?thesis
        by (auto simp: find_dm_entry_no_slash dm_path_of_no_slash dm_find_inv [OF assms])
    next
      case True
      then obtain ys zs where "t = ys @ slash # zs" "slash \<notin> set ys"
        by (meson split_list_first)
      with Cons c assms show ?thesis
        by (auto simp: find_dm_entry_below dm_path_of_below dm_find_inv dm_inv_def dm_name_ok_def
            dest: strcaseeq_length)
    qed
  qed
qed

text \<open>A path is resolved to a device and a non-empty name exactly when it is the device's name, in
  any case, followed by a slash and the name, or a slash and a name without slashes for the root
  device.\<close>

theorem find_dm_entry_iff:
  assumes "dm_inv T"
  shows "find_dm_entry (Some p) T = Some (i, a) \<longleftrightarrow>
    i < length T \<and> a \<noteq> [] \<and> dm_path_of (dm_name (T ! i)) a p"
  using assms by (rule find_dm_entry_eq)

theorem find_dm_entry_iff_witness:
  "find_dm_entry (Some [slash, 0x57, 0x4F, slash, 0x61])
     [\<lparr>dm_name = [slash, 0x77, 0x6F], dm_pdata = (), dm_pdev = (dm_null_device :: (unit, unit, unit) DM_DEVICE)\<rparr>]
   = Some (0, [0x61])"
  using find_dm_entry_iff
    [of "[\<lparr>dm_name = [slash, 0x77, 0x6F], dm_pdata = (), dm_pdev = (dm_null_device :: (unit, unit, unit) DM_DEVICE)\<rparr>]"
       "[slash, 0x57, 0x4F, slash, 0x61]" 0 "[0x61]"] dm_path_of_below [of "[0x57, 0x4F]" "[slash, 0x77, 0x6F]" "[0x61]" "[0x61]"]
  by (simp add: dm_inv_def dm_name_ok_def DM_MAX_DEVICES_def DM_MAX_DEV_NAME_def strcaseeq_def tolower_def)

text \<open>A path starts with the name of a device.\<close>

definition dm_prefix :: "u8 list \<Rightarrow> ('d, 'h, 's) DM_INSTANCE_DATA \<Rightarrow> bool" where
  "dm_prefix name e \<longleftrightarrow> strncaseeq name (dm_name e) (length (dm_name e))"

lemma dm_prefix_same_length:
  "dm_prefix name e \<Longrightarrow> dm_prefix name e' \<Longrightarrow> length (dm_name e) = length (dm_name e') \<Longrightarrow>
   strcaseeq (dm_name e) (dm_name e')"
  by (simp add: dm_prefix_def strncaseeq_def strcaseeq_def)

lemma dm_match_fold:
  assumes "\<forall>e \<in> set T. dm_name e \<noteq> []" and "fold (dm_match_step name) (enumerate 0 T) (0, 0) = (ml, pos)"
  shows "ml = 0 \<and> (\<forall>e \<in> set T. \<not> dm_prefix name e)
    \<or> pos < length T \<and> dm_prefix name (T ! pos) \<and> 0 < ml \<and> ml = length (dm_name (T ! pos))
      \<and> (\<forall>e \<in> set T. dm_prefix name e \<longrightarrow> length (dm_name e) \<le> ml)"
  using assms
proof (induction T arbitrary: ml pos rule: rev_induct)
  case Nil
  then show ?case by simp
next
  case (snoc e T)
  obtain ml' pos' where f: "fold (dm_match_step name) (enumerate 0 T) (0, 0) = (ml', pos')"
    by fastforce
  with snoc have IH: "ml' = 0 \<and> (\<forall>e \<in> set T. \<not> dm_prefix name e)
    \<or> pos' < length T \<and> dm_prefix name (T ! pos') \<and> 0 < ml' \<and> ml' = length (dm_name (T ! pos'))
      \<and> (\<forall>e \<in> set T. dm_prefix name e \<longrightarrow> length (dm_name e) \<le> ml')"
    by simp
  have step: "(ml, pos) = (if dm_prefix name e \<and> ml' < length (dm_name e) then (length (dm_name e), length T) else (ml', pos'))"
    using snoc.prems(2) f
    by (simp add: enumerate_append_eq dm_match_step_def dm_prefix_def split: if_split_asm)
  show ?case
  proof (cases "dm_prefix name e \<and> ml' < length (dm_name e)")
    case True
    with step IH show ?thesis by (auto simp: nth_append)
  next
    case False
    with step IH snoc.prems(1) show ?thesis by (auto simp: nth_append)
  qed
qed

text \<open>A directory path is resolved to the device with the longest name that the path starts with,
  and to what follows that name; it is not resolved exactly when no device name matches.\<close>

theorem dm_device_id_longest:
  assumes "dm_inv T"
  shows "(dm_device_id_from_name name T = Some (i, rest) \<longleftrightarrow>
      i < length T \<and> dm_prefix name (T ! i) \<and> rest = drop (length (dm_name (T ! i))) name \<and>
      (\<forall>j<length T. j \<noteq> i \<longrightarrow> dm_prefix name (T ! j) \<longrightarrow> length (dm_name (T ! j)) < length (dm_name (T ! i)))) \<and>
    (dm_device_id_from_name name T = None \<longleftrightarrow> (\<forall>e \<in> set T. \<not> dm_prefix name e))"
proof (intro conjI)
  have ne: "\<forall>e \<in> set T. dm_name e \<noteq> []"
    using assms by (auto simp: dm_inv_def dm_name_ok_def)
  obtain ml pos where f: "fold (dm_match_step name) (enumerate 0 T) (0, 0) = (ml, pos)"
    by fastforce
  note m = dm_match_fold [OF ne f]
  show "dm_device_id_from_name name T = None \<longleftrightarrow> (\<forall>e \<in> set T. \<not> dm_prefix name e)"
    using m by (auto simp: dm_device_id_from_name_def f)
  have best: "length (dm_name (T ! j)) < length (dm_name (T ! pos))"
    if "j < length T" "j \<noteq> pos" "dm_prefix name (T ! j)" "0 < ml" for j
  proof -
    have "length (dm_name (T ! j)) \<noteq> length (dm_name (T ! pos))"
      using that m dm_inv_unique [OF assms, of j pos] dm_prefix_same_length [of name "T ! j" "T ! pos"] by auto
    moreover have "length (dm_name (T ! j)) \<le> length (dm_name (T ! pos))"
      using that m nth_mem [of j T] by auto
    ultimately show ?thesis by simp
  qed
  show "dm_device_id_from_name name T = Some (i, rest) \<longleftrightarrow>
      i < length T \<and> dm_prefix name (T ! i) \<and> rest = drop (length (dm_name (T ! i))) name \<and>
      (\<forall>j<length T. j \<noteq> i \<longrightarrow> dm_prefix name (T ! j) \<longrightarrow> length (dm_name (T ! j)) < length (dm_name (T ! i)))"
    (is "_ \<longleftrightarrow> ?R")
  proof (cases "ml = 0")
    case True
    with m show ?thesis by (auto simp: dm_device_id_from_name_def f)
  next
    case False
    with m have pos: "pos < length T" "dm_prefix name (T ! pos)" by auto
    have "dm_device_id_from_name name T = Some (i, rest) \<longleftrightarrow>
        i = pos \<and> rest = drop (length (dm_name (T ! pos))) name"
      using False by (auto simp: dm_device_id_from_name_def f)
    moreover have "?R \<Longrightarrow> i = pos"
      using pos False best [of i] less_asym by blast
    ultimately show ?thesis
      using pos False best by blast
  qed
qed

theorem dm_device_id_longest_witness:
  "dm_device_id_from_name [slash, 0x77, 0x6F, slash, 0x61]
     [\<lparr>dm_name = [slash], dm_pdata = (), dm_pdev = (dm_null_device :: (unit, unit, unit) DM_DEVICE)\<rparr>,
      \<lparr>dm_name = [slash, 0x77], dm_pdata = (), dm_pdev = dm_null_device\<rparr>] = Some (1, [0x6F, slash, 0x61])"
  by (subst dm_device_id_longest [THEN conjunct1])
    (simp_all add: dm_inv_def dm_name_ok_def DM_MAX_DEVICES_def DM_MAX_DEV_NAME_def strncaseeq_def
      dm_prefix_def tolower_def less_Suc_eq_0_disj)

section \<open>Dispatch of descriptors\<close>

text \<open>A descriptor whose device number is not in the table makes \<open>close\<close>, \<open>lseek\<close>, \<open>read\<close> and
  \<open>write\<close> dereference a null pointer; \<open>dm_getaddr\<close> reports \<open>ENOSYS\<close>.\<close>

theorem stubs_bad_descriptor:
  assumes "\<not> (0 \<le> DM_GET_DEVID fd \<and> DM_GET_DEVID fd < int (length T))"
  shows "close_r fd T s = None \<and> lseek_r fd off whence T s = None \<and> read_r fd len T s = None \<and>
    write_r fd bs T s = None \<and> dm_getaddr fd T s = Some (Inl (Some ENOSYS), s)"
  using assms
  by (auto simp: close_r_def lseek_r_def read_r_def write_r_def dm_getaddr_def dm_get_instance_at_def)

theorem stubs_bad_descriptor_witness: "read_r (-1) 4 ([] :: (unit, unit, unit) dm_table) () = None"
  using stubs_bad_descriptor [of "-1" "[] :: (unit, unit, unit) dm_table" "()"] by simp

lemma dm_get_instance_nth: "i < length T \<Longrightarrow> dm_get_instance_at (int i) T = Some (T ! i)"
  by (simp add: dm_get_instance_at_def)

text \<open>What the device manager relies on in a file system: the descriptors it hands out fit the bits
  that \<open>DM_MAKE_DESC\<close> leaves for them. \<open>ok\<close> is the file system's own invariant.\<close>

locale dm_fs =
  fixes dev :: "('d, 'h, 's) DM_DEVICE"
    and f_open :: "u8 list \<Rightarrow> u32 \<Rightarrow> int \<Rightarrow> 'd \<Rightarrow> (nat, 's) dm_op"
    and ok :: "'s \<Rightarrow> bool"
  assumes has_open: "p_open_r dev = Some f_open"
    and open_small: "ok s \<Longrightarrow> f_open nm flags mode d s = Some (Inr fd, s') \<Longrightarrow> fd < 2 ^ 11"
begin

lemma open_reaches:
  assumes "ok s" and i: "i < length T" "dm_pdev (T ! i) = dev" "find_dm_entry (Some p) T = Some (i, a)"
    and "open_r (Some p) flags mode T s = Some (Inr desc, s')"
  obtains fd where "f_open a flags mode (dm_pdata (T ! i)) s = Some (Inr fd, s')" "desc = DM_MAKE_DESC i fd"
    "dm_get_instance_at (DM_GET_DEVID desc) T = Some (T ! i)" "DM_GET_FD desc = fd"
proof -
  from assms obtain fd where fd: "f_open a flags mode (dm_pdata (T ! i)) s = Some (Inr fd, s')"
      "desc = DM_MAKE_DESC i fd"
    by (auto simp: open_r_def has_open split: bind_split_asm sum.split_asm)
  then have "fd < 2 ^ 11"
    using open_small [OF assms(1)] by blast
  with fd i show ?thesis
    by (intro that) (simp_all add: DM_GET_DEVID_make DM_GET_FD_make dm_get_instance_nth)
qed

lemma open_dispatch:
  assumes "ok s" "i < length T" "dm_pdev (T ! i) = dev" "find_dm_entry (Some p) T = Some (i, a)"
    and "open_r (Some p) flags mode T s = Some (Inr desc, s')"
  shows "\<exists>fd. f_open a flags mode (dm_pdata (T ! i)) s = Some (Inr fd, s') \<and>
    (\<forall>len t. read_r desc len T t = (case p_read_r dev of None \<Rightarrow> Some (Inl (Some ENOSYS), t)
       | Some f \<Rightarrow> f fd len (dm_pdata (T ! i)) t)) \<and>
    (\<forall>bs t. write_r desc bs T t = (case p_write_r dev of None \<Rightarrow> Some (Inl (Some ENOSYS), t)
       | Some f \<Rightarrow> f fd bs (dm_pdata (T ! i)) t)) \<and>
    (\<forall>off wh t. lseek_r desc off wh T t = (case p_lseek_r dev of None \<Rightarrow> Some (Inl (Some ENOSYS), t)
       | Some f \<Rightarrow> f fd off wh (dm_pdata (T ! i)) t)) \<and>
    (\<forall>t. close_r desc T t = (case p_close_r dev of None \<Rightarrow> Some (Inl (Some ENOSYS), t)
       | Some f \<Rightarrow> f fd (dm_pdata (T ! i)) t))"
proof -
  obtain fd where fd: "f_open a flags mode (dm_pdata (T ! i)) s = Some (Inr fd, s')"
    "dm_get_instance_at (DM_GET_DEVID desc) T = Some (T ! i)" "DM_GET_FD desc = fd"
    using open_reaches [OF assms] by metis
  with assms(3) show ?thesis
    by (intro exI [of _ fd]) (simp add: read_r_def write_r_def lseek_r_def close_r_def split: option.splits)
qed

end

end
