(* ===== verification/Flash.thy ===== *)
theory Flash
  imports Prelude
begin

text \<open>
  The internal flash functions of \<open>src/src/common.c\<close>: the map of flash sectors and the write function
  that turns a write at any address into writes of whole write units, with the LM3S boards' driver
  \<open>FlashProgram\<close> (\<open>driverlib/flash.c\<close>), both for controllers with and without a write buffer. What the write function
  relies on in the board's driver (\<open>platform_s_flash_write\<close>) is the interface \<open>flash_driver\<close>, with two instances:
  \<open>flash_once\<close> is what the documentation of \<open>FlashProgram\<close> promises, that an erased word takes the value programmed
  and that anything can happen to a word that is programmed again; \<open>nor_flash\<close> is the stronger property, on which
  the write-once file system rests, that programming a word again clears the bits that are clear in the data. The theory shows
  that the write function stores exactly the bytes it was given, and that the sector map covers the flash.
\<close>

section \<open>Sectors\<close>

text \<open>Either all sectors have the size \<open>INTERNAL_FLASH_SECTOR_SIZE\<close> or their sizes are listed by
  \<open>INTERNAL_FLASH_SECTOR_ARRAY\<close>.\<close>

datatype flash_layout = FLASH_SECTOR_SIZE u32 | FLASH_SECTOR_ARRAY "u32 list"

record flash_conf =
  FLASH_START_ADDRESS :: u32
  FLASH_SIZE :: u32
  flash_layout :: flash_layout

text \<open>The loop over the sector array: the sum of the sizes passed and their number.\<close>

fun flash_scan :: "u32 \<Rightarrow> u32 \<Rightarrow> nat \<Rightarrow> u32 list \<Rightarrow> u32 \<times> nat" where
  "flash_scan address tot i [] = (tot, i)"
| "flash_scan address tot i (s # ss) =
     (if tot \<le> address then flash_scan address (tot + s) (Suc i) ss else (tot, i))"

text \<open>The sector number, the first and the last address of the sector.\<close>

definition flashh_find_sector :: "flash_conf \<Rightarrow> u32 \<Rightarrow> u32 \<times> u32 \<times> u32" where
  "flashh_find_sector k addr =
     (let address = addr - FLASH_START_ADDRESS k
      in case flash_layout k of
           FLASH_SECTOR_SIZE ssize \<Rightarrow>
             (let sect_id = address div ssize
              in (sect_id, sect_id * ssize + FLASH_START_ADDRESS k,
                  (sect_id + 1) * ssize + FLASH_START_ADDRESS k - 1))
         | FLASH_SECTOR_ARRAY sizes \<Rightarrow>
             (let (tot, i) = flash_scan address 0 0 sizes
              in (word_of_nat i - 1, (tot - sizes ! (i - 1)) + FLASH_START_ADDRESS k,
                  tot + FLASH_START_ADDRESS k - 1)))"

definition platform_flash_get_sector_of_address :: "flash_conf \<Rightarrow> u32 \<Rightarrow> u32" where
  "platform_flash_get_sector_of_address k addr = fst (flashh_find_sector k addr)"

definition platform_flash_get_num_sectors :: "flash_conf \<Rightarrow> u32" where
  "platform_flash_get_num_sectors k =
     (case flash_layout k of FLASH_SECTOR_SIZE ssize \<Rightarrow> FLASH_SIZE k div ssize
      | FLASH_SECTOR_ARRAY sizes \<Rightarrow> word_of_nat (length sizes))"

text \<open>The first address after the sectors that the image of the given size occupies, and its sector.\<close>

definition platform_flash_get_first_free_block_address :: "flash_conf \<Rightarrow> u32 \<Rightarrow> u32 \<times> u32" where
  "platform_flash_get_first_free_block_address k flash_used_size =
     (let (sect, _, temp) = flashh_find_sector k (flash_used_size + FLASH_START_ADDRESS k - 1)
      in (temp + 1, sect + 1))"

section \<open>Writing\<close>

text \<open>The first, unaligned part: the unit that contains the address is read, patched and written.
  Result: the memory, the bytes still to write and the address they go to.\<close>

definition flash_write_head :: "u32 \<Rightarrow> (u8 list \<Rightarrow> u32 \<Rightarrow> mem \<Rightarrow> mem) \<Rightarrow> u8 list \<Rightarrow> u32 \<Rightarrow> mem \<Rightarrow>
    mem \<times> u8 list \<times> u32" where
  "flash_write_head blksize sw from toaddr m =
     (let rest = unat (toaddr AND (blksize - 1));
          temp = toaddr AND NOT (blksize - 1);
          tmpdata = rd_bytes m (unat temp) (unat blksize);
          n = min (length from) (unat blksize - rest)
      in (sw (blit rest (take n from) tmpdata) temp m, drop n from, temp + blksize))"

text \<open>The aligned part: whole units, then the beginning of a last unit.\<close>

definition flash_write_body :: "u32 \<Rightarrow> (u8 list \<Rightarrow> u32 \<Rightarrow> mem \<Rightarrow> mem) \<Rightarrow> u8 list \<Rightarrow> u32 \<Rightarrow> mem \<Rightarrow> mem" where
  "flash_write_body blksize sw from toaddr m =
     (let len = word_of_nat (length from);
          rest = unat (len AND (blksize - 1));
          temp = len AND NOT (blksize - 1);
          m1 = (if temp \<noteq> 0 then sw (take (unat temp) from) toaddr m else m);
          toaddr1 = (if temp \<noteq> 0 then toaddr + temp else toaddr);
          from1 = drop (unat temp) from
      in if rest \<noteq> 0
         then sw (blit 0 (take rest from1) (rd_bytes m1 (unat toaddr1) (unat blksize))) toaddr1 m1
         else m1)"

text \<open>\<open>unit\<close> is \<open>INTERNAL_FLASH_WRITE_UNIT_SIZE\<close>, if defined.\<close>

definition platform_flash_write :: "u32 option \<Rightarrow> (u8 list \<Rightarrow> u32 \<Rightarrow> mem \<Rightarrow> mem) \<Rightarrow> u8 list \<Rightarrow> u32 \<Rightarrow> mem \<Rightarrow>
    u32 \<times> mem" where
  "platform_flash_write unit sw from toaddr m =
     (word_of_nat (length from),
      case unit of None \<Rightarrow> sw from toaddr m
      | Some blksize \<Rightarrow>
          if toaddr AND (blksize - 1) \<noteq> 0 then
            let (m1, from1, toaddr1) = flash_write_head blksize sw from toaddr m
            in if from1 = [] then m1 else flash_write_body blksize sw from1 toaddr1 m1
          else flash_write_body blksize sw from toaddr m)"

text \<open>The driver of the LM3S boards (\<open>FlashProgram\<close> in \<open>driverlib/flash.c\<close>) on a controller without write
  buffer: one word after the other. \<open>prog\<close> is the flash controller's write operation; its documentation
  asks for whole words.\<close>

fun FlashProgram :: "(u32 \<Rightarrow> u32 \<Rightarrow> mem \<Rightarrow> mem) \<Rightarrow> u8 list \<Rightarrow> u32 \<Rightarrow> mem \<Rightarrow> mem" where
  "FlashProgram prog (b0 # b1 # b2 # b3 # bs) ulAddress m =
     FlashProgram prog bs (ulAddress + 4) (prog ulAddress (of_le32 b0 b1 b2 b3) m)"
| "FlashProgram prog _ ulAddress m = m"

text \<open>The same driver on a controller with a write buffer of 32 words: the words of a block of 128 bytes are collected, then the
  controller programs the words that were written to the buffer, which empties it. The buffer is the list of the offsets and words written
  (\<open>FLASH_FWBVAL\<close> is 0 when there is none).\<close>

fun flash_fill :: "u8 list \<Rightarrow> u32 \<Rightarrow> (u32 \<times> u32) list \<Rightarrow> (u32 \<times> u32) list \<times> u8 list \<times> u32" where
  "flash_fill (b0 # b1 # b2 # b3 # bs) ulAddress fwb =
     (if ulAddress AND 0x7C \<noteq> 0 \<or> fwb = []
      then flash_fill bs (ulAddress + 4) (fwb @ [(ulAddress AND 0x7C, of_le32 b0 b1 b2 b3)])
      else (fwb, b0 # b1 # b2 # b3 # bs, ulAddress))"
| "flash_fill bs ulAddress fwb = (fwb, bs, ulAddress)"

lemma flash_fill_shorter: "flash_fill bs a fwb = (fwb', bs', a') \<Longrightarrow> length bs' \<le> length bs"
  by (induction bs a fwb rule: flash_fill.induct) (auto split: if_splits)

function FlashProgram_fwb :: "(u32 \<Rightarrow> (u32 \<times> u32) list \<Rightarrow> mem \<Rightarrow> mem) \<Rightarrow> u8 list \<Rightarrow> u32 \<Rightarrow> mem \<Rightarrow> mem" where
  "FlashProgram_fwb progbuf bs ulAddress m =
     (if length bs < 4 then m
      else let (fwb, bs', ulAddress') = flash_fill bs ulAddress []
           in FlashProgram_fwb progbuf bs' ulAddress' (progbuf (ulAddress AND NOT 0x7F) fwb m))"
  by pat_completeness auto
termination
proof (relation "measure (\<lambda>(progbuf, bs, a, m). length bs)", simp, clarify)
  fix progbuf :: "u32 \<Rightarrow> (u32 \<times> u32) list \<Rightarrow> mem \<Rightarrow> mem" and bs :: "u8 list" and a :: u32 and m :: mem and fwb bs' a'
  assume "\<not> length bs < 4" "(fwb, bs', a') = flash_fill bs a []"
  moreover from this obtain b0 b1 b2 b3 r where "bs = b0 # b1 # b2 # b3 # r"
    by (auto simp: not_less numeral_eq_Suc Suc_le_length_iff)
  ultimately show "((progbuf, bs', a', progbuf (a AND NOT 0x7F) fwb m), (progbuf, bs, a, m)) \<in> measure (\<lambda>(progbuf, bs, a, m). length bs)"
    using flash_fill_shorter [of r "a + 4" "[(a AND 0x7C, of_le32 b0 b1 b2 b3)]" fwb bs' a'] by auto
qed

declare FlashProgram_fwb.simps [simp del]

section \<open>Programming flash memory\<close>

text \<open>Programming clears bits; only erasing sets them.\<close>

definition nor_write :: "mem \<Rightarrow> nat \<Rightarrow> u8 list \<Rightarrow> mem" where
  "nor_write m a bs = (\<lambda>x. if a \<le> x \<and> x < a + length bs then m x AND bs ! (x - a) else m x)"

definition erased :: "mem \<Rightarrow> nat \<Rightarrow> nat \<Rightarrow> bool" where
  "erased m a n \<longleftrightarrow> (\<forall>i<n. m (a + i) = 0xFF)"

lemma u8_and_FF [simp]: "(0xFF :: u8) AND b = b"
proof -
  have e: "(0xFF :: u8) = - 1" by simp
  show ?thesis by (simp only: e and.left_neutral)
qed

lemma nor_write_erased: "erased m a (length bs) \<Longrightarrow> nor_write m a bs = wr_bytes m a bs"
proof (rule ext)
  fix x
  assume e: "erased m a (length bs)"
  show "nor_write m a bs x = wr_bytes m a bs x"
  proof (cases "a \<le> x \<and> x < a + length bs")
    case True
    then have "m x = 0xFF"
      using e [unfolded erased_def, rule_format, of "x - a"] by auto
    with True show ?thesis
      by (simp add: nor_write_def wr_bytes_def)
  qed (auto simp: nor_write_def wr_bytes_def)
qed

lemma nor_write_Nil [simp]: "nor_write m a [] = m"
  by (rule ext) (auto simp: nor_write_def)

lemma nor_write_append: "nor_write m a (xs @ ys) = nor_write (nor_write m a xs) (a + length xs) ys"
  by (auto simp: nor_write_def nth_append intro!: ext)

lemma nor_write_patch:
  assumes "r + length xs \<le> n"
  shows "nor_write m a (blit r xs (rd_bytes m a n)) = nor_write m (a + r) xs"
proof (rule ext)
  fix x
  show "nor_write m a (blit r xs (rd_bytes m a n)) x = nor_write m (a + r) xs x"
  proof (cases "a \<le> x \<and> x < a + n")
    case True
    then obtain i where "x = a + i" "i < n"
      by (metis le_iff_add nat_add_left_cancel_less)
    with assms show ?thesis
      by (auto simp: nor_write_def nth_blit)
  next
    case False
    with assms show ?thesis
      by (auto simp: nor_write_def)
  qed
qed

lemma nor_write_id: "length bs \<le> n \<Longrightarrow> a + n \<le> b \<Longrightarrow> rd_bytes (nor_write m a bs) b k = rd_bytes m b k"
  by (intro rd_bytes_eqI) (auto simp: nor_write_def)

section \<open>Alignment\<close>

lemma word_mask_split:
  fixes w :: u32
  assumes "k < 32"
  shows "unat (w AND (2 ^ k - 1)) = unat w mod 2 ^ k" and "unat (w AND NOT (2 ^ k - 1)) = unat w div 2 ^ k * 2 ^ k"
proof -
  have m: "(2 :: u32) ^ k - 1 = mask k"
    by (simp add: mask_eq_exp_minus_1)
  show 1: "unat (w AND (2 ^ k - 1)) = unat w mod 2 ^ k"
    unfolding m by (simp only: take_bit_eq_mask [symmetric] unsigned_take_bit_eq) (simp add: take_bit_eq_mod)
  have "w AND NOT (mask k) = push_bit k (drop_bit k w)"
    by (rule bit_word_eqI) (auto simp: bit_simps)
  moreover have "take_bit 32 (unat w) = unat w"
    using unsigned_less [of w, where ?'a = nat] by (simp add: take_bit_nat_eq_self)
  ultimately have "unat (w AND NOT (mask k)) = take_bit 32 (unat w div 2 ^ k * 2 ^ k)"
    by (simp only: unsigned_push_bit_eq unsigned_drop_bit_eq)
      (simp add: push_bit_eq_mult drop_bit_eq_div)
  also have "\<dots> = unat w div 2 ^ k * 2 ^ k"
    using le_less_trans [OF div_times_less_eq_dividend unsigned_less [of w, where ?'a = nat]]
    by (intro take_bit_nat_eq_self) simp
  finally show "unat (w AND NOT (2 ^ k - 1)) = unat w div 2 ^ k * 2 ^ k"
    by (simp add: m)
qed

section \<open>The write function programs what it is given\<close>

text \<open>What the code relies on in the board's flash driver: blocks of whole write units at unit
  boundaries are programmed, provided their bytes are in a state \<open>P\<close> in which that is allowed.\<close>

definition units_hold :: "nat \<Rightarrow> (u8 \<Rightarrow> bool) \<Rightarrow> mem \<Rightarrow> nat \<Rightarrow> nat \<Rightarrow> bool" where
  "units_hold k P m a n \<longleftrightarrow> (\<forall>x. a div 2 ^ k \<le> x div 2 ^ k \<and> x div 2 ^ k \<le> (a + n - 1) div 2 ^ k \<longrightarrow> P (m x))"

locale flash_driver =
  fixes sw :: "u8 list \<Rightarrow> u32 \<Rightarrow> mem \<Rightarrow> mem" and k :: nat and P :: "u8 \<Rightarrow> bool"
  assumes unit_width: "k < 16"
    and sw_programs: "2 ^ k dvd unat a \<Longrightarrow> 2 ^ k dvd length bs \<Longrightarrow> unat a + length bs < 2 ^ 32 \<Longrightarrow>
      (\<And>i. i < length bs \<Longrightarrow> P (m (unat a + i))) \<Longrightarrow> sw bs a m = nor_write m (unat a) bs"
begin

lemma unit_unat: "unat ((2 :: u32) ^ k) = 2 ^ k"
proof -
  have "(2 :: nat) ^ k < 2 ^ 32"
    using unit_width by (intro power_strict_increasing) auto
  then show ?thesis
    using unat_of_nat_less [of "2 ^ k", where ?'a = 32] by simp
qed

lemma unit_in_range:
  fixes a i n :: nat
  assumes "a mod 2 ^ k \<noteq> 0" "i < 2 ^ k"
  shows "a div 2 ^ k \<le> (a div 2 ^ k * 2 ^ k + i) div 2 ^ k \<and> (a div 2 ^ k * 2 ^ k + i) div 2 ^ k \<le> (a + n - 1) div 2 ^ k"
proof -
  have "(a div 2 ^ k * 2 ^ k + i) div 2 ^ k = a div 2 ^ k" using assms(2) by simp
  moreover have "a div 2 ^ k * 2 ^ k \<le> a + n - 1"
    using assms(1) div_mult_mod_eq [of a "2 ^ k"] by linarith
  then have "a div 2 ^ k * 2 ^ k div 2 ^ k \<le> (a + n - 1) div 2 ^ k" by (rule div_le_mono)
  ultimately show ?thesis by simp
qed

lemma head_programs:
  assumes "unat a + length bs + 2 ^ k < 2 ^ 32" "units_hold k P m (unat a) (length bs)" "unat a mod 2 ^ k \<noteq> 0"
  defines "n \<equiv> min (length bs) (2 ^ k - unat a mod 2 ^ k)"
  obtains a' where "flash_write_head (2 ^ k) sw bs a m = (nor_write m (unat a) (take n bs), drop n bs, a')"
    and "n < length bs \<Longrightarrow> unat a' = unat a + n \<and> 2 ^ k dvd unat a'"
proof -
  have k: "k < 32" using unit_width by simp
  let ?q = "unat a div 2 ^ k * 2 ^ k" and ?r = "unat a mod 2 ^ k"
  have a: "?q + ?r = unat a" by (rule div_mult_mod_eq)
  have r: "?r < 2 ^ k" by simp
  let ?bs = "blit ?r (take n bs) (rd_bytes m ?q (2 ^ k))"
  have "n \<le> 2 ^ k - ?r"
    unfolding n_def by (rule min.cobounded2)
  with r have n: "length (take n bs) = n" "?r + n \<le> 2 ^ k"
    by (simp add: n_def, linarith)
  then have len: "length ?bs = 2 ^ k"
    by simp
  have "?q + 2 ^ k < 2 ^ 32"
    using assms(1) a by linarith
  moreover have "P (m (?q + i))" if "i < 2 ^ k" for i
    using assms(2) unit_in_range [OF assms(3) that, of "length bs"] by (simp add: units_hold_def)
  ultimately have "sw ?bs (a AND NOT (2 ^ k - 1)) m = nor_write m ?q ?bs"
    using sw_programs [of "a AND NOT (2 ^ k - 1)" ?bs m] len by (simp add: word_mask_split [OF k])
  also have "\<dots> = nor_write m (unat a) (take n bs)"
    using nor_write_patch [of ?r "take n bs" "2 ^ k" m ?q] n a by simp
  finally have 1: "sw ?bs (a AND NOT (2 ^ k - 1)) m = nor_write m (unat a) (take n bs)" .
  let ?a = "(a AND NOT (2 ^ k - 1)) + 2 ^ k"
  have a': "unat ?a = ?q + 2 ^ k"
    using \<open>?q + 2 ^ k < 2 ^ 32\<close> unat_add_lem [of "a AND NOT (2 ^ k - 1)" "2 ^ k"]
    by (simp add: word_mask_split [OF k] unit_unat)
  show ?thesis
  proof (rule that [of ?a])
    show "flash_write_head (2 ^ k) sw bs a m = (nor_write m (unat a) (take n bs), drop n bs, ?a)"
      using 1 by (simp add: flash_write_head_def Let_def word_mask_split [OF k] unit_unat n_def)
    assume "n < length bs"
    then have "n = 2 ^ k - ?r"
      by (simp add: n_def)
    then have "?q + 2 ^ k = unat a + n"
      using a r by linarith
    moreover have "2 ^ k dvd unat ?a"
      unfolding a' by (simp only: dvd_add dvd_triv_right dvd_refl)
    ultimately show "unat ?a = unat a + n \<and> 2 ^ k dvd unat ?a"
      by (simp only: a' simp_thms)
  qed
qed

lemma units_in_range:
  fixes a i l :: nat
  assumes "2 ^ k dvd a" "i < l div 2 ^ k * 2 ^ k \<or> (l mod 2 ^ k \<noteq> 0 \<and> i < l div 2 ^ k * 2 ^ k + 2 ^ k)"
  shows "a div 2 ^ k \<le> (a + i) div 2 ^ k \<and> (a + i) div 2 ^ k \<le> (a + l - 1) div 2 ^ k"
proof -
  obtain c where c: "a = 2 ^ k * c" using assms(1) by (elim dvdE)
  have l: "l div 2 ^ k * 2 ^ k + l mod 2 ^ k = l" by (rule div_mult_mod_eq)
  have "i div 2 ^ k \<le> (l - 1) div 2 ^ k" "l \<noteq> 0"
  proof -
    show "l \<noteq> 0" using assms(2) by (cases l) auto
    show "i div 2 ^ k \<le> (l - 1) div 2 ^ k"
    proof (cases "i < l div 2 ^ k * 2 ^ k")
      case True
      then have "i \<le> l - 1" using l by linarith
      then show ?thesis by (rule div_le_mono)
    next
      case False
      then have "l mod 2 ^ k \<noteq> 0" "i < Suc (l div 2 ^ k) * 2 ^ k" using assms(2) by auto
      then have "i div 2 ^ k \<le> l div 2 ^ k" using less_mult_imp_div_less by (metis less_Suc_eq_le)
      moreover have "l div 2 ^ k * 2 ^ k \<le> l - 1" using l \<open>l mod 2 ^ k \<noteq> 0\<close> by linarith
      then have "l div 2 ^ k * 2 ^ k div 2 ^ k \<le> (l - 1) div 2 ^ k" by (rule div_le_mono)
      ultimately show ?thesis by simp
    qed
  qed
  moreover from this have "a + l - 1 = 2 ^ k * c + (l - 1)" using c by simp
  then have "(a + l - 1) div 2 ^ k = c + (l - 1) div 2 ^ k" by (simp only: div_mult_self2 power_not_zero) simp
  ultimately show ?thesis using c by (simp only:) simp
qed

lemma body_programs:
  assumes "2 ^ k dvd unat a" and "unat a + length bs + 2 ^ k < 2 ^ 32" and "units_hold k P m (unat a) (length bs)"
  shows "flash_write_body (2 ^ k) sw bs a m = nor_write m (unat a) bs"
proof -
  have k: "k < 32" using unit_width by simp
  let ?l = "length bs"
  let ?q = "?l div 2 ^ k * 2 ^ k" and ?r = "?l mod 2 ^ k"
  let ?len = "word_of_nat ?l :: u32"
  have l: "?q + ?r = ?l" by (rule div_mult_mod_eq)
  have un: "unat ?len = ?l"
    using assms(2) by (intro unat_of_nat_less) simp
  have q: "unat (?len AND NOT (2 ^ k - 1)) = ?q" and r: "unat (?len AND (2 ^ k - 1)) = ?r"
    by (simp_all add: word_mask_split [OF k] un)
  have q0: "?len AND NOT (2 ^ k - 1) = 0 \<longleftrightarrow> ?q = 0"
    unfolding q [symmetric] by (simp only: unat_eq_0)
  let ?m1 = "nor_write m (unat a) (take ?q bs)"
  have P: "P (m (unat a + i))" if "i < ?q \<or> (?r \<noteq> 0 \<and> i < ?q + 2 ^ k)" for i
    using assms(3) units_in_range [OF assms(1) that] by (simp add: units_hold_def)
  have m1: "(if ?q \<noteq> 0 then sw (take ?q bs) a m else m) = ?m1"
    using sw_programs [of a "take ?q bs" m] assms(1,2) l P by auto
  define a1 where "a1 = a + (?len AND NOT (2 ^ k - 1))"
  have a1: "unat a1 = unat a + ?q"
    using unat_add_lem [of a "?len AND NOT (2 ^ k - 1)"] assms(2) l q by (simp add: a1_def)
  have a1_if: "(if ?q \<noteq> 0 then a + (?len AND NOT (2 ^ k - 1)) else a) = a1"
    using q0 by (auto simp: a1_def)
  let ?bs = "blit 0 (drop ?q bs) (rd_bytes ?m1 (unat a1) (2 ^ k))"
  have rest: "take ?r (drop ?q bs) = drop ?q bs" "length (drop ?q bs) = ?r" "?r < 2 ^ k"
    using l by auto
  then have "length ?bs = 2 ^ k"
    by simp
  moreover have "P (?m1 (unat a1 + i))" if "i < 2 ^ k" "?r \<noteq> 0" for i
    using P [of "?q + i"] that by (simp add: a1 nor_write_def ac_simps)
  ultimately have "sw ?bs a1 ?m1 = nor_write ?m1 (unat a1) ?bs" if "?r \<noteq> 0"
    using assms(1,2) l a1 that by (intro sw_programs) auto
  moreover have "nor_write ?m1 (unat a1) ?bs = nor_write ?m1 (unat a1) (drop ?q bs)"
    using nor_write_patch [of 0 "drop ?q bs" "2 ^ k" ?m1 "unat a1"] rest by simp
  moreover have "nor_write ?m1 (unat a1) (drop ?q bs) = nor_write m (unat a) bs"
    using nor_write_append [of m "unat a" "take ?q bs" "drop ?q bs"] l a1 by (simp add: min_absorb2)
  ultimately have tail: "sw ?bs a1 ?m1 = nor_write m (unat a) bs" if "?r \<noteq> 0"
    using that by simp
  have "?r = 0 \<Longrightarrow> ?m1 = nor_write m (unat a) bs"
    using l by simp
  then show ?thesis
    unfolding flash_write_body_def Let_def using tail by (simp only: q r q0 m1 a1_if unit_unat rest(1) split: if_split) blast
qed

lemma units_hold_rest:
  assumes "units_hold k P m a n" "c \<le> n" "0 < n" "a div 2 ^ k * 2 ^ k + 2 ^ k \<le> a + c" "length bs \<le> c"
    "c \<le> 2 ^ k - a mod 2 ^ k"
  shows "units_hold k P (nor_write m a bs) (a + c) (n - c)"
  unfolding units_hold_def
proof (intro allI impI)
  fix x
  assume x: "(a + c) div 2 ^ k \<le> x div 2 ^ k \<and> x div 2 ^ k \<le> (a + c + (n - c) - 1) div 2 ^ k"
  have u: "a div 2 ^ k * 2 ^ k + 2 ^ k = a + c"
    using assms(4,6) div_mult_mod_eq [of a "2 ^ k"] mod_less_divisor [of "2 ^ k" a, OF zero_less_power [OF zero_less_numeral]]
    by linarith
  have "a + c \<le> x"
  proof -
    have "2 ^ k dvd a + c" unfolding u [symmetric] by simp
    then have "a + c = (a + c) div 2 ^ k * 2 ^ k" by simp
    moreover have "(a + c) div 2 ^ k * 2 ^ k \<le> x div 2 ^ k * 2 ^ k" using x by (intro mult_le_mono1) simp
    moreover have "x div 2 ^ k * 2 ^ k \<le> x" by simp
    ultimately show ?thesis by linarith
  qed
  moreover have "a div 2 ^ k \<le> (a + c) div 2 ^ k" by (simp add: div_le_mono)
  with x have "P (m x)" using assms(1-3) unfolding units_hold_def by (auto intro: le_trans)
  ultimately show "P (nor_write m a bs x)" using assms(5) by (simp add: nor_write_def)
qed

lemma write_programs:
  assumes "unat a + length bs + 2 ^ k < 2 ^ 32" "units_hold k P m (unat a) (length bs)"
  shows "platform_flash_write (Some (2 ^ k)) sw bs a m = (word_of_nat (length bs), nor_write m (unat a) bs)"
proof -
  have k32: "k < 32" using unit_width by simp
  have al: "a AND (2 ^ k - 1) = 0 \<longleftrightarrow> unat a mod 2 ^ k = 0"
    using word_mask_split(1) [OF k32, of a] by (metis unat_eq_0)
  show ?thesis
  proof (cases "unat a mod 2 ^ k = 0")
    case True
    then show ?thesis
      using al body_programs [OF _ assms] by (simp add: platform_flash_write_def mod_0_imp_dvd)
  next
    case False
    define n where "n = min (length bs) (2 ^ k - unat a mod 2 ^ k)"
    obtain a' where h: "flash_write_head (2 ^ k) sw bs a m = (nor_write m (unat a) (take n bs), drop n bs, a')"
      and a': "n < length bs \<Longrightarrow> unat a' = unat a + n \<and> 2 ^ k dvd unat a'"
      using head_programs [OF assms False] unfolding n_def by blast
    show ?thesis
    proof (cases "n < length bs")
      case True
      then have n: "n = 2 ^ k - unat a mod 2 ^ k" by (simp add: n_def)
      have q: "unat a div 2 ^ k * 2 ^ k + 2 ^ k \<le> unat a + n"
        using n div_mult_mod_eq [of "unat a" "2 ^ k"] by linarith
      have "units_hold k P (nor_write m (unat a) (take n bs)) (unat a') (length (drop n bs))"
        using units_hold_rest [OF assms(2) _ _ q, of "take n bs"] True n a' [OF True] by (cases bs) auto
      then have "flash_write_body (2 ^ k) sw (drop n bs) a' (nor_write m (unat a) (take n bs))
          = nor_write (nor_write m (unat a) (take n bs)) (unat a') (drop n bs)"
        using a' [OF True] True assms(1) by (intro body_programs) auto
      also have "\<dots> = nor_write m (unat a) bs"
        using a' [OF True] True nor_write_append [of m "unat a" "take n bs" "drop n bs"] by (simp add: min_absorb2)
      finally show ?thesis
        using True False al by (simp add: platform_flash_write_def h)
    next
      case n: False
      then have "drop n bs = []" "take n bs = bs" by simp_all
      with False al show ?thesis
        by (simp add: platform_flash_write_def h)
    qed
  qed
qed

end

text \<open>A driver that may be used on any unit, and that clears bits.\<close>

locale nor_flash =
  fixes sw :: "u8 list \<Rightarrow> u32 \<Rightarrow> mem \<Rightarrow> mem" and k :: nat
  assumes nor_width: "k < 16"
    and sw_clears: "2 ^ k dvd unat a \<Longrightarrow> 2 ^ k dvd length bs \<Longrightarrow> unat a + length bs < 2 ^ 32 \<Longrightarrow>
      sw bs a m = nor_write m (unat a) bs"

sublocale nor_flash \<subseteq> any: flash_driver sw k "\<lambda>b. True"
  by unfold_locales (simp_all add: nor_width sw_clears)

context nor_flash
begin

lemma write_clears:
  assumes "unat a + length bs + 2 ^ k < 2 ^ 32"
  shows "platform_flash_write (Some (2 ^ k)) sw bs a m = (word_of_nat (length bs), nor_write m (unat a) bs)"
  using any.write_programs [OF assms] by (simp add: units_hold_def)

end

text \<open>A driver as \<open>FlashProgram\<close> is documented: erased units take the data, and nothing is said about other units.\<close>

locale flash_once =
  fixes sw :: "u8 list \<Rightarrow> u32 \<Rightarrow> mem \<Rightarrow> mem" and k :: nat
  assumes once_width: "k < 16"
    and sw_stores: "2 ^ k dvd unat a \<Longrightarrow> 2 ^ k dvd length bs \<Longrightarrow> unat a + length bs < 2 ^ 32 \<Longrightarrow>
      erased m (unat a) (length bs) \<Longrightarrow> sw bs a m = wr_bytes m (unat a) bs"

sublocale flash_once \<subseteq> fresh: flash_driver sw k "\<lambda>b. b = 0xFF"
proof
  fix a :: u32 and bs :: "u8 list" and m :: mem
  assume "2 ^ k dvd unat a" "2 ^ k dvd length bs" "unat a + length bs < 2 ^ 32" "\<And>i. i < length bs \<Longrightarrow> m (unat a + i) = 0xFF"
  moreover from this have "erased m (unat a) (length bs)" by (simp add: erased_def)
  ultimately show "sw bs a m = nor_write m (unat a) bs" by (simp add: sw_stores nor_write_erased)
qed (rule once_width)

context flash_once
begin

lemma write_stores:
  assumes "unat a + length bs + 2 ^ k < 2 ^ 32" "units_hold k (\<lambda>b. b = 0xFF) m (unat a) (length bs)"
  shows "platform_flash_write (Some (2 ^ k)) sw bs a m = (word_of_nat (length bs), wr_bytes m (unat a) bs)"
proof -
  have "m (unat a + i) = 0xFF" if "i < length bs" for i
    using assms(2) that unfolding units_hold_def by (auto simp: div_le_mono)
  then have "erased m (unat a) (length bs)" by (simp add: erased_def)
  with fresh.write_programs [OF assms] show ?thesis by (simp add: nor_write_erased)
qed

end

text \<open>The LM3S driver over a controller that programs a word by clearing bits.\<close>

definition nor_word :: "u32 \<Rightarrow> u32 \<Rightarrow> mem \<Rightarrow> mem" where
  "nor_word a w m = nor_write m (unat a) (le32 w)"

lemma FlashProgram_nor:
  "4 dvd length bs \<Longrightarrow> unat a + length bs < 2 ^ 32 \<Longrightarrow> FlashProgram nor_word bs a m = nor_write m (unat a) bs"
proof (induction nor_word bs a m rule: FlashProgram.induct)
  case (1 b0 b1 b2 b3 bs a m)
  have a4: "unat (a + 4) = unat a + 4"
    using 1(3) unat_add_lem [of a 4] by simp
  have "4 dvd length bs"
    using 1(2) by (simp, presburger)
  with 1 a4 have "FlashProgram nor_word bs (a + 4) (nor_word a (of_le32 b0 b1 b2 b3) m)
      = nor_write (nor_word a (of_le32 b0 b1 b2 b3) m) (unat (a + 4)) bs"
    by (intro 1(1)) auto
  then show ?case
    using nor_write_append [of m "unat a" "[b0, b1, b2, b3]" bs] by (simp add: nor_word_def codec_simps a4 eval_nat_numeral)
qed (auto dest: dvd_imp_le)

interpretation lm3s: nor_flash "FlashProgram nor_word" 2
  by unfold_locales (simp_all add: FlashProgram_nor)

text \<open>The LM3S driver over a controller as documented: a word that is not erased gets an unpredictable value \<open>junk\<close>.\<close>

definition once_word :: "(u32 \<Rightarrow> u32 \<Rightarrow> mem \<Rightarrow> u32) \<Rightarrow> u32 \<Rightarrow> u32 \<Rightarrow> mem \<Rightarrow> mem" where
  "once_word junk a w m = wr_bytes m (unat a) (le32 (if rd_bytes m (unat a) 4 = [0xFF, 0xFF, 0xFF, 0xFF] then w else junk a w m))"

lemma FlashProgram_once:
  assumes "4 dvd length bs" "unat a + length bs < 2 ^ 32" "erased m (unat a) (length bs)"
  shows "FlashProgram (once_word junk) bs a m = wr_bytes m (unat a) bs"
  using assms
proof (induction "once_word junk" bs a m rule: FlashProgram.induct)
  case (1 b0 b1 b2 b3 bs a m)
  have a4: "unat (a + 4) = unat a + 4"
    using 1(3) unat_add_lem [of a 4] by simp
  have e: "m (unat a + i) = 0xFF" if "i < 4 + length bs" for i
    using 1(4) that by (simp add: erased_def)
  let ?m1 = "once_word junk a (of_le32 b0 b1 b2 b3) m"
  have m1: "?m1 = wr_bytes m (unat a) [b0, b1, b2, b3]"
    using e [of 0] e [of 1] e [of 2] e [of 3] by (simp add: once_word_def rd_bytes_def upt_rec codec_simps eval_nat_numeral)
  have "4 dvd length bs"
    using 1(2) by (simp, presburger)
  moreover have "erased ?m1 (unat (a + 4)) (length bs)"
    using e by (auto simp: erased_def m1 a4 wr_bytes_def add.assoc)
  ultimately have "FlashProgram (once_word junk) bs (a + 4) ?m1 = wr_bytes ?m1 (unat (a + 4)) bs"
    using 1(3) a4 by (intro 1(1)) auto
  then show ?case
    using wr_bytes_append [of m "unat a" "[b0, b1, b2, b3]" bs] by (simp add: m1 a4 eval_nat_numeral)
qed (auto dest: dvd_imp_le)

interpretation lm3s_once: flash_once "FlashProgram (once_word junk)" 2 for junk
  by unfold_locales (simp_all add: FlashProgram_once)

text \<open>With a write buffer, the same words are programmed in the same order: the controller programs the words of the buffer into the
  block at their offsets.\<close>

definition prog_words :: "(u32 \<Rightarrow> u32 \<Rightarrow> mem \<Rightarrow> mem) \<Rightarrow> u32 \<Rightarrow> (u32 \<times> u32) list \<Rightarrow> mem \<Rightarrow> mem" where
  "prog_words prog blk fwb m = fold (\<lambda>(off, w). prog (blk + off) w) fwb m"

lemma block_offset:
  fixes a :: u32
  assumes "4 dvd unat a"
  shows "unat (a AND 0x7C) = unat a mod 128" and "unat (a AND NOT 0x7F) = unat a div 128 * 128"
proof -
  have "unat (a AND NOT 3) = unat a"
    using word_mask_split(2) [of 2 a] assms by simp
  then have "a AND NOT 3 = a" by (simp only: word_unat_eq_iff)
  moreover have "a AND 0x7C = (a AND NOT 3) AND 0x7F"
    by (simp add: and.assoc)
  ultimately have "a AND 0x7C = a AND 0x7F" by simp
  then show "unat (a AND 0x7C) = unat a mod 128" and "unat (a AND NOT 0x7F) = unat a div 128 * 128"
    using word_mask_split [of 7 a] by simp_all
qed

lemma block_split: "4 dvd unat (a :: u32) \<Longrightarrow> (a AND NOT 0x7F) + (a AND 0x7C) = a"
proof -
  assume a: "4 dvd unat a"
  have "unat a div 128 * 128 + unat a mod 128 = unat a" by (rule div_mult_mod_eq)
  moreover have "unat a < 2 ^ LENGTH(32)" by (rule unsigned_less)
  ultimately have "unat ((a AND NOT 0x7F) + (a AND 0x7C)) = unat a"
    using unat_add_lem [of "a AND NOT 0x7F" "a AND 0x7C"] by (simp only: block_offset [OF a])
  then show ?thesis by (simp only: word_unat_eq_iff)
qed

lemma block_next:
  fixes a :: u32
  assumes "4 dvd unat a" "unat a + 4 < 2 ^ 32"
  shows "(a + 4) AND NOT 0x7F = a AND NOT 0x7F \<or> (a + 4) AND 0x7C = 0"
proof -
  have u: "unat (a + 4) = unat a + 4" using assms(2) unat_add_lem [of a 4] by simp
  obtain c where c: "unat a = 4 * c" using assms(1) by (elim dvdE)
  have "(unat a + 4) div 128 = Suc c div 32" "unat a div 128 = c div 32" "(unat a + 4) mod 128 = 4 * (Suc c mod 32)"
    using div_mult_mult1 [of 4 "Suc c" 32] div_mult_mult1 [of 4 c 32] mult_mod_right [of 4 "Suc c" 32] by (simp_all add: c add.commute)
  then have "(unat a + 4) div 128 = unat a div 128 \<or> (unat a + 4) mod 128 = 0"
    by (simp add: div_Suc)
  then have "unat ((a + 4) AND NOT 0x7F) = unat (a AND NOT 0x7F) \<or> unat ((a + 4) AND 0x7C) = 0"
    using block_offset [OF assms(1)] block_offset [of "a + 4"] assms(1) by (simp only: u) auto
  then show ?thesis by (simp only: word_unat_eq_iff unat_0)
qed

lemma flash_fill_programs:
  assumes "flash_fill bs a fwb = (fwb', bs', a')" "4 dvd unat a" "unat a + length bs < 2 ^ 32"
    "blk = a AND NOT 0x7F \<or> fwb \<noteq> [] \<and> a AND 0x7C = 0"
  shows "FlashProgram prog bs' a' (prog_words prog blk fwb' m) = FlashProgram prog bs a (prog_words prog blk fwb m) \<and>
    4 dvd unat a' \<and> unat a' + length bs' = unat a + length bs"
  using assms
proof (induction bs a fwb rule: flash_fill.induct)
  case (1 b0 b1 b2 b3 bs a fwb)
  show ?case
  proof (cases "a AND 0x7C \<noteq> 0 \<or> fwb = []")
    case True
    have u: "unat (a + 4) = unat a + 4" using 1(4) unat_add_lem [of a 4] by simp
    have blk: "blk = a AND NOT 0x7F" using True 1(5) by auto
    then have w: "blk + (a AND 0x7C) = a" using block_split [OF 1(3)] by simp
    have "FlashProgram prog bs' a' (prog_words prog blk fwb' m) =
        FlashProgram prog bs (a + 4) (prog_words prog blk (fwb @ [(a AND 0x7C, of_le32 b0 b1 b2 b3)]) m) \<and>
        4 dvd unat a' \<and> unat a' + length bs' = unat (a + 4) + length bs"
      using True 1(2-4) u block_next [OF 1(3)] blk by (intro 1(1)) auto
    then show ?thesis using w u by (simp add: prog_words_def)
  next
    case False
    with 1 show ?thesis by auto
  qed
qed auto

lemma FlashProgram_fwb_eq:
  assumes "4 dvd unat a" "unat a + length bs < 2 ^ 32"
  shows "FlashProgram_fwb (prog_words prog) bs a m = FlashProgram prog bs a m"
  using assms
proof (induction "prog_words prog" bs a m rule: FlashProgram_fwb.induct)
  case (1 bs a m)
  obtain fwb bs' a' where f: "flash_fill bs a [] = (fwb, bs', a')" by (rule prod_cases3)
  note s = flash_fill_programs [OF f 1(2,3), of "a AND NOT 0x7F" prog m]
  show ?case
  proof (cases "length bs < 4")
    case True
    then show ?thesis by (cases "(prog, bs, a, m)" rule: FlashProgram.cases) (auto simp: FlashProgram_fwb.simps)
  next
    case False
    then show ?thesis
      using 1(1) [OF False f [symmetric] refl] s 1(3) f by (subst FlashProgram_fwb.simps) (simp add: prog_words_def)
  qed
qed

interpretation lm3s_fwb: flash_once "FlashProgram_fwb (prog_words (once_word junk))" 2 for junk
  by unfold_locales (simp_all add: FlashProgram_fwb_eq FlashProgram_once)

text \<open>C20. On a flash that has to be used as the LM3S driver's documentation says, where only an erased word can be
  programmed and a word that is programmed again gets an unpredictable value, the write function stores exactly the bytes it
  is given, at any address and for any length, and changes no others, provided the write units that have a byte of the range are erased
  (all bytes 0xFF): each unit is programmed once only, although the first and the last are read and
  patched. The driver is \<open>FlashProgram\<close>, on a controller with or without a write buffer.\<close>

theorem platform_flash_write_stores:
  assumes "units_hold 2 (\<lambda>b. b = 0xFF) m (unat a) (length bs)" and "unat a + length bs + 4 < 2 ^ 32"
    and "drv = (if buffered then FlashProgram_fwb (prog_words (once_word junk)) else FlashProgram (once_word junk))"
  shows "platform_flash_write (Some 4) drv bs a m = (word_of_nat (length bs), wr_bytes m (unat a) bs)"
proof (cases buffered)
  case True
  from lm3s_fwb.write_stores [of a bs m junk] assms(1,2) True assms(3) show ?thesis by simp
next
  case False
  from lm3s_once.write_stores [of a bs m junk] assms(1,2) False assms(3) show ?thesis by simp
qed

theorem platform_flash_write_stores_witness:
  "\<exists>m. platform_flash_write (Some 4) (FlashProgram_fwb (prog_words (once_word (\<lambda>a w m. 0)))) [1, 2, 3, 4, 5, 6] 0x107F
       (\<lambda>x. if x < 0x1078 then 0 else 0xFF) = (6, m) \<and> m 0x107E = 0xFF \<and> m 0x107F = 1 \<and> m 0x1080 = 2 \<and> m 0x1084 = 6 \<and> m 0x1085 = 0xFF"
proof -
  let ?m = "\<lambda>x. if x < 0x1078 then 0 else 0xFF :: u8"
  have "units_hold 2 (\<lambda>b. b = 0xFF) ?m (unat (0x107F :: u32)) (length [1, 2, 3, 4, 5, 6 :: u8])"
    by (auto simp: units_hold_def)
  from platform_flash_write_stores [OF this _ refl, of True "\<lambda>a w m. 0"] show ?thesis
    by (simp add: wr_bytes_def)
qed

section \<open>The sector map covers the flash\<close>

text \<open>The sectors make up the flash, which ends before the end of the address space.\<close>

definition flash_conf_ok :: "flash_conf \<Rightarrow> bool" where
  "flash_conf_ok k \<longleftrightarrow> unat (FLASH_START_ADDRESS k) + unat (FLASH_SIZE k) < 2 ^ 32 \<and>
     (case flash_layout k of
        FLASH_SECTOR_SIZE ssize \<Rightarrow> ssize \<noteq> 0 \<and> unat ssize dvd unat (FLASH_SIZE k)
      | FLASH_SECTOR_ARRAY sizes \<Rightarrow> sum_list (map unat sizes) = unat (FLASH_SIZE k) \<and> length sizes < 2 ^ 32)"

definition in_flash :: "flash_conf \<Rightarrow> u32 \<Rightarrow> bool" where
  "in_flash k addr \<longleftrightarrow> unat (FLASH_START_ADDRESS k) \<le> unat addr \<and>
     unat addr < unat (FLASH_START_ADDRESS k) + unat (FLASH_SIZE k)"

lemma unat_add_le: "unat (x :: u32) + unat y < 2 ^ 32 \<Longrightarrow> unat (x + y) = unat x + unat y"
  using unat_add_lem [of x y] by simp

lemma flash_scan_finds:
  assumes "flash_scan address tot i sizes = (tot', i')" "unat tot \<le> unat address"
    "unat address < unat tot + sum_list (map unat sizes)" "unat tot + sum_list (map unat sizes) < 2 ^ 32"
  shows "i < i' \<and> i' - i \<le> length sizes \<and> unat address < unat tot' \<and>
    unat tot' \<le> unat tot + sum_list (map unat sizes) \<and>
    unat (sizes ! (i' - i - 1)) \<le> unat tot' \<and> unat tot' - unat (sizes ! (i' - i - 1)) \<le> unat address"
  using assms
proof (induction sizes arbitrary: tot i)
  case Nil
  then show ?case by simp
next
  case (Cons s ss)
  have t: "unat (tot + s) = unat tot + unat s"
    using Cons.prems(4) by (intro unat_add_le) simp
  have scan: "flash_scan address (tot + s) (Suc i) ss = (tot', i')"
    using Cons.prems(1,2) by (simp add: word_le_nat_alt)
  show ?case
  proof (cases "unat tot + unat s \<le> unat address")
    case True
    then have "Suc i < i' \<and> i' - Suc i \<le> length ss \<and> unat address < unat tot' \<and>
        unat tot' \<le> unat (tot + s) + sum_list (map unat ss) \<and>
        unat (ss ! (i' - Suc i - 1)) \<le> unat tot' \<and> unat tot' - unat (ss ! (i' - Suc i - 1)) \<le> unat address"
      using Cons.prems scan by (intro Cons.IH) (simp_all add: t)
    moreover from this have "i' - i - 1 = Suc (i' - Suc i - 1)" by linarith
    ultimately show ?thesis
      by (auto simp: t)
  next
    case False
    then have "(tot', i') = (tot + s, Suc i)"
      using scan by (cases ss) (simp_all add: word_le_nat_alt t)
    with False Cons.prems show ?thesis
      by (simp add: t)
  qed
qed

lemma sector_bounds:
  assumes "flash_conf_ok k" "in_flash k addr"
    and "unat f \<le> unat addr - unat (FLASH_START_ADDRESS k)" "unat addr - unat (FLASH_START_ADDRESS k) < unat t"
    and "unat t \<le> unat (FLASH_SIZE k)"
  shows "f + FLASH_START_ADDRESS k \<le> addr" and "addr \<le> t + FLASH_START_ADDRESS k - 1"
proof -
  let ?st = "FLASH_START_ADDRESS k"
  note le = assms(2-) [unfolded in_flash_def]
  have f: "unat (f + ?st) = unat f + unat ?st" and t: "unat (t + ?st) = unat t + unat ?st"
    using assms(1) le by (auto intro!: unat_add_le simp: flash_conf_ok_def)
  have "unat (t + ?st - 1) = unat (t + ?st) - 1"
    using t le by (subst unat_sub) (auto simp: word_le_nat_alt)
  with f t le show "f + ?st \<le> addr" and "addr \<le> t + ?st - 1"
    by (auto simp: word_le_nat_alt)
qed

lemma find_sector_uniform:
  assumes "flash_conf_ok k" "in_flash k addr" "flash_layout k = FLASH_SECTOR_SIZE ss"
  defines "q \<equiv> (addr - FLASH_START_ADDRESS k) div ss"
  shows "unat (q * ss) \<le> unat addr - unat (FLASH_START_ADDRESS k)"
    and "unat addr - unat (FLASH_START_ADDRESS k) < unat ((q + 1) * ss)"
    and "unat ((q + 1) * ss) \<le> unat (FLASH_SIZE k)" and "q < FLASH_SIZE k div ss"
    and "unat q = (unat addr - unat (FLASH_START_ADDRESS k)) div unat ss" and "unat (q + 1) = unat q + 1"
    and "unat ((q + 1) * ss) = unat (q + 1) * unat ss"
proof -
  define off where "off = unat addr - unat (FLASH_START_ADDRESS k)"
  have off: "unat (addr - FLASH_START_ADDRESS k) = off" "off < unat (FLASH_SIZE k)"
    using assms(2) by (auto simp: off_def in_flash_def unat_sub word_le_nat_alt)
  obtain c where c: "unat (FLASH_SIZE k) = unat ss * c" and ss: "0 < unat ss"
    using assms(1,3) by (auto simp: flash_conf_ok_def unat_gt_0 elim: dvdE)
  have q: "unat q = off div unat ss"
    by (simp add: q_def unat_div off)
  have "off div unat ss < c"
    using off(2) c by (simp add: less_mult_imp_div_less mult.commute)
  then have bound: "(off div unat ss + 1) * unat ss \<le> unat (FLASH_SIZE k)"
    using mult_le_mono1 [of "off div unat ss + 1" c "unat ss"] by (simp add: c mult.commute)
  have lt: "unat (FLASH_SIZE k) < 2 ^ 32"
    using unsigned_less [of "FLASH_SIZE k", where ?'a = nat] by simp
  have cle: "c \<le> unat (FLASH_SIZE k)"
    using ss by (simp add: c)
  have q1: "unat (q + 1) = off div unat ss + 1"
    using unat_add_le [of q 1] \<open>off div unat ss < c\<close> lt cle by (simp add: q)
  have m1: "unat ((q + 1) * ss) = (off div unat ss + 1) * unat ss"
    using unat_mult_lem [of "q + 1" ss] bound lt q1 by simp
  have m0: "unat (q * ss) = off div unat ss * unat ss"
    using unat_mult_lem [of q ss] bound lt q by simp
  show "unat (q * ss) \<le> unat addr - unat (FLASH_START_ADDRESS k)"
    by (simp add: m0 flip: off_def)
  show "unat addr - unat (FLASH_START_ADDRESS k) < unat ((q + 1) * ss)"
    using dividend_less_div_times [OF ss, of off] by (simp add: m1 flip: off_def)
  show "unat ((q + 1) * ss) \<le> unat (FLASH_SIZE k)"
    using bound m1 by simp
  show "q < FLASH_SIZE k div ss"
    using \<open>off div unat ss < c\<close> ss by (simp add: word_less_nat_alt unat_div q c)
  show "unat q = (unat addr - unat (FLASH_START_ADDRESS k)) div unat ss" "unat (q + 1) = unat q + 1"
    "unat ((q + 1) * ss) = unat (q + 1) * unat ss"
    by (simp_all add: q q1 m1 flip: off_def)
qed

lemma find_sector_array:
  assumes "flash_conf_ok k" "in_flash k addr" "flash_layout k = FLASH_SECTOR_ARRAY sizes"
    and scan: "flash_scan (addr - FLASH_START_ADDRESS k) 0 0 sizes = (tot, i)"
  shows "unat (tot - sizes ! (i - 1)) \<le> unat addr - unat (FLASH_START_ADDRESS k)"
    and "unat addr - unat (FLASH_START_ADDRESS k) < unat tot" and "unat tot \<le> unat (FLASH_SIZE k)"
    and "word_of_nat i - 1 < (word_of_nat (length sizes) :: u32)"
proof -
  have off: "unat (addr - FLASH_START_ADDRESS k) = unat addr - unat (FLASH_START_ADDRESS k)"
    using assms(2) by (auto simp: in_flash_def unat_sub word_le_nat_alt)
  have sum: "sum_list (map unat sizes) = unat (FLASH_SIZE k)" "length sizes < 2 ^ 32"
    using assms(1,3) by (auto simp: flash_conf_ok_def)
  have "0 < i \<and> i \<le> length sizes \<and> unat (addr - FLASH_START_ADDRESS k) < unat tot \<and> unat tot \<le> unat (FLASH_SIZE k) \<and>
      unat (sizes ! (i - 1)) \<le> unat tot \<and> unat tot - unat (sizes ! (i - 1)) \<le> unat (addr - FLASH_START_ADDRESS k)"
    using flash_scan_finds [OF scan] assms(1,2) sum off by (auto simp: flash_conf_ok_def in_flash_def)
  moreover from this sum have "unat (word_of_nat i - 1 :: u32) = i - 1"
    by (subst unat_sub) (auto simp: word_le_nat_alt unat_of_nat_less)
  ultimately show "unat (tot - sizes ! (i - 1)) \<le> unat addr - unat (FLASH_START_ADDRESS k)"
    and "unat addr - unat (FLASH_START_ADDRESS k) < unat tot" and "unat tot \<le> unat (FLASH_SIZE k)"
    and "word_of_nat i - 1 < (word_of_nat (length sizes) :: u32)"
    using sum by (auto simp: off unat_sub word_le_nat_alt word_less_nat_alt unat_of_nat_less)
qed

text \<open>The sector found for an address of the flash is a sector of the flash and contains the
  address.\<close>

theorem flash_sector_contains:
  assumes "flash_conf_ok k" and "in_flash k addr" and "flashh_find_sector k addr = (sect, first, last_addr)"
  shows "first \<le> addr \<and> addr \<le> last_addr \<and> sect < platform_flash_get_num_sectors k"
proof (cases "flash_layout k")
  case (FLASH_SECTOR_SIZE ss)
  with assms(3) find_sector_uniform(1-4) [OF assms(1,2) FLASH_SECTOR_SIZE] show ?thesis
    by (auto simp: flashh_find_sector_def Let_def platform_flash_get_num_sectors_def
        intro!: sector_bounds [OF assms(1,2)])
next
  case (FLASH_SECTOR_ARRAY sizes)
  obtain tot i where scan: "flash_scan (addr - FLASH_START_ADDRESS k) 0 0 sizes = (tot, i)"
    by fastforce
  from assms(3) FLASH_SECTOR_ARRAY find_sector_array [OF assms(1,2) FLASH_SECTOR_ARRAY scan] show ?thesis
    by (auto simp: flashh_find_sector_def Let_def platform_flash_get_num_sectors_def scan
        intro!: sector_bounds [OF assms(1,2)])
qed

theorem flash_sector_contains_witness:
  "fst (flashh_find_sector \<lparr>FLASH_START_ADDRESS = 0x8000000, FLASH_SIZE = 0x80000, flash_layout = FLASH_SECTOR_SIZE 2048\<rparr> 0x8000801)
     < platform_flash_get_num_sectors \<lparr>FLASH_START_ADDRESS = 0x8000000, FLASH_SIZE = 0x80000, flash_layout = FLASH_SECTOR_SIZE 2048\<rparr>"
  using flash_sector_contains
    [of "\<lparr>FLASH_START_ADDRESS = 0x8000000, FLASH_SIZE = 0x80000, flash_layout = FLASH_SECTOR_SIZE 2048\<rparr>" "0x8000801"]
  by (simp add: flash_conf_ok_def in_flash_def flashh_find_sector_def)

end
