(* ===== verification/Romfs.thy ===== *)
theory Romfs
  imports Devman Flash
begin

text \<open>
  The read-only and the write-once file system (\<open>src/src/romfs.c\<close>, \<open>src/inc/romfs.h\<close>): a linear
  directory of files in a memory area, searched from its start. Addresses, offsets and sizes are
  32-bit words as in the code. The medium is a byte memory; the access functions \<open>readf\<close> and \<open>writef\<close>
  of a file system instance are parameters. The theory describes images by a list of files, shows
  that lookup, reading, seeking and directory listing agree with that list, and that a file written
  to a write-once file system reads back as it was written while the other files are kept.
\<close>

section \<open>Data\<close>

definition TOTAL_MAX_FDS :: nat where "TOTAL_MAX_FDS = 8"
definition ROMFS_ALIGN :: u32 where "ROMFS_ALIGN = 4"
definition WOFS_END_MARKER_CHAR :: u8 where "WOFS_END_MARKER_CHAR = 0xFF"
definition WOFS_DEL_FIELD_SIZE :: u32 where "WOFS_DEL_FIELD_SIZE = ROMFS_ALIGN"
definition WOFS_FILE_DELETED :: u8 where "WOFS_FILE_DELETED = 0xAA"
definition ROMFS_SIZE_LEN :: u32 where "ROMFS_SIZE_LEN = 4"
definition WOFS_MIN_NEEDED_SIZE :: u32 where "WOFS_MIN_NEEDED_SIZE = 11"

definition ROMFS_FILE_FLAG_READ :: u8 where "ROMFS_FILE_FLAG_READ = 0x01"
definition ROMFS_FILE_FLAG_WRITE :: u8 where "ROMFS_FILE_FLAG_WRITE = 0x02"
definition ROMFS_FILE_FLAG_APPEND :: u8 where "ROMFS_FILE_FLAG_APPEND = 0x04"
definition ROMFS_FS_FLAG_DIRECT :: u8 where "ROMFS_FS_FLAG_DIRECT = 0x01"
definition ROMFS_FS_FLAG_WO :: u8 where "ROMFS_FS_FLAG_WO = 0x02"
definition ROMFS_FS_FLAG_WRITING :: u8 where "ROMFS_FS_FLAG_WRITING = 0x04"

lemmas romfs_consts = ROMFS_ALIGN_def WOFS_END_MARKER_CHAR_def WOFS_DEL_FIELD_SIZE_def
  WOFS_FILE_DELETED_def ROMFS_SIZE_LEN_def WOFS_MIN_NEEDED_SIZE_def

lemmas romfs_flags = ROMFS_FILE_FLAG_READ_def ROMFS_FILE_FLAG_WRITE_def ROMFS_FILE_FLAG_APPEND_def
  ROMFS_FS_FLAG_DIRECT_def ROMFS_FS_FLAG_WO_def ROMFS_FS_FLAG_WRITING_def

record FD =
  fd_baseaddr :: u32
  fd_offset :: u32
  fd_size :: u32
  fd_flags :: u8

text \<open>\<open>medium\<close> is the storage: \<open>pbase[ addr ]\<close> in direct mode, what \<open>readf\<close> and \<open>writef\<close> act on
  otherwise.\<close>

record FSDATA =
  medium :: mem
  fs_flags :: u8
  readf :: "u32 \<Rightarrow> u32 \<Rightarrow> mem \<Rightarrow> u8 list"
  writef :: "u8 list \<Rightarrow> u32 \<Rightarrow> mem \<Rightarrow> mem"
  max_size :: u32

record romfs_state =
  fd_table :: "FD list"
  romfs_num_fd :: int

definition romfs_fs_set_flag :: "FSDATA \<Rightarrow> u8 \<Rightarrow> FSDATA" where
  "romfs_fs_set_flag p f = p\<lparr>fs_flags := fs_flags p OR f\<rparr>"

definition romfs_fs_clear_flag :: "FSDATA \<Rightarrow> u8 \<Rightarrow> FSDATA" where
  "romfs_fs_clear_flag p f = p\<lparr>fs_flags := fs_flags p AND NOT f\<rparr>"

definition romfs_fs_is_flag_set :: "FSDATA \<Rightarrow> u8 \<Rightarrow> bool" where
  "romfs_fs_is_flag_set p f \<longleftrightarrow> fs_flags p AND f \<noteq> 0"

section \<open>Descriptors\<close>

definition empty_fd :: FD where
  "empty_fd = \<lparr>fd_baseaddr = 0xFFFFFFFF, fd_offset = 0xFFFFFFFF, fd_size = 0xFFFFFFFF, fd_flags = 0\<rparr>"

definition fd_is_empty :: "FD \<Rightarrow> bool" where
  "fd_is_empty f \<longleftrightarrow> fd_baseaddr f = 0xFFFFFFFF \<and> fd_offset f = 0xFFFFFFFF \<and> fd_size f = 0xFFFFFFFF"

fun find_index_from :: "('a \<Rightarrow> bool) \<Rightarrow> nat \<Rightarrow> 'a list \<Rightarrow> nat option" where
  "find_index_from P i [] = None"
| "find_index_from P i (x # xs) = (if P x then Some i else find_index_from P (Suc i) xs)"

text \<open>\<open>None\<close> is -1.\<close>

definition romfs_find_empty_fd :: "romfs_state \<Rightarrow> nat option" where
  "romfs_find_empty_fd R = find_index_from fd_is_empty 0 (fd_table R)"

definition romfs_close_fd :: "nat \<Rightarrow> romfs_state \<Rightarrow> romfs_state" where
  "romfs_close_fd fd R = R\<lparr>fd_table := (fd_table R)[fd := empty_fd]\<rparr>"

section \<open>Lookup\<close>

definition romfsh_read8 :: "FSDATA \<Rightarrow> u32 \<Rightarrow> u8" where
  "romfsh_read8 pfs addr =
     (if fs_flags pfs AND ROMFS_FS_FLAG_DIRECT \<noteq> 0 then medium pfs (unat addr)
      else hd (readf pfs addr 1 (medium pfs)))"

definition romfsh_is_wofs :: "FSDATA \<Rightarrow> bool" where
  "romfsh_is_wofs pfs \<longleftrightarrow> fs_flags pfs AND ROMFS_FS_FLAG_WO \<noteq> 0"

definition romfs_align :: "u32 \<Rightarrow> u32" where
  "romfs_align a = (a + ROMFS_ALIGN - 1) AND NOT (ROMFS_ALIGN - 1)"

text \<open>The characters at \<open>i\<close> up to a zero, at most \<open>n\<close> of them.\<close>

fun romfs_fname :: "FSDATA \<Rightarrow> nat \<Rightarrow> u32 \<Rightarrow> u8 list" where
  "romfs_fname pfs 0 i = []"
| "romfs_fname pfs (Suc n) i =
     (let c = romfsh_read8 pfs i in if c = 0 then [] else c # romfs_fname pfs n (i + 1))"

text \<open>What follows the name, at the aligned address \<open>j\<close>: the deleted mark, the size and the address of
  the data.\<close>

definition romfs_header :: "FSDATA \<Rightarrow> u32 \<Rightarrow> bool \<times> u32 \<times> u32" where
  "romfs_header pfs j0 =
     (let (is_deleted, j) =
        (if romfsh_is_wofs pfs
         then (romfsh_read8 pfs j0 = WOFS_FILE_DELETED, j0 + WOFS_DEL_FIELD_SIZE) else (False, j0));
          fsize = of_le32 (romfsh_read8 pfs j) (romfsh_read8 pfs (j + 1))
                    (romfsh_read8 pfs (j + 2)) (romfsh_read8 pfs (j + 3))
      in (is_deleted, fsize, j + ROMFS_SIZE_LEN))"

definition romfs_next :: "FSDATA \<Rightarrow> u32 \<Rightarrow> u32" where
  "romfs_next pfs i = (if romfsh_is_wofs pfs then romfs_align i else i)"

text \<open>\<open>FS_FILE_NOT_FOUND\<close> with \<open>*plast\<close>, or \<open>FS_FILE_OK\<close> with the address and size of the data and the
  address of the name.\<close>

datatype open_result = FS_FILE_NOT_FOUND u32 | FS_FILE_OK u32 u32 u32

partial_function (option) romfs_open_file :: "FSDATA \<Rightarrow> u8 list \<Rightarrow> u32 \<Rightarrow> open_result option" where
  "romfs_open_file pfs fname i =
     (if romfsh_read8 pfs i = WOFS_END_MARKER_CHAR then Some (FS_FILE_NOT_FOUND i)
      else
        let fsname = romfs_fname pfs DM_MAX_FNAME_LENGTH i;
            (is_deleted, fsize, j) = romfs_header pfs (romfs_align (i + word_of_nat (length fsname) + 1))
        in if strncaseeq fname fsname DM_MAX_FNAME_LENGTH \<and> \<not> is_deleted then Some (FS_FILE_OK j fsize i)
           else romfs_open_file pfs fname (romfs_next pfs (j + fsize)))"

section \<open>File operations\<close>

text \<open>The access flags of a descriptor for the flags of \<open>open\<close>.\<close>

definition romfs_lflags :: "os_consts \<Rightarrow> u32 \<Rightarrow> u8" where
  "romfs_lflags k flags =
     (if flags AND O_WRONLY k \<noteq> 0 then ROMFS_FILE_FLAG_WRITE
      else if flags AND O_RDWR k \<noteq> 0 then ROMFS_FILE_FLAG_READ OR ROMFS_FILE_FLAG_WRITE
      else ROMFS_FILE_FLAG_READ)
     OR (if flags AND O_APPEND k \<noteq> 0 then ROMFS_FILE_FLAG_APPEND else 0)"

text \<open>Storing the descriptor in a free slot; the slot number is not checked.\<close>

definition romfs_install :: "FD \<Rightarrow> romfs_state \<Rightarrow> (nat \<times> romfs_state) option" where
  "romfs_install tempfs R =
     do {
       i \<leftarrow> romfs_find_empty_fd R;
       Some (i, R\<lparr>fd_table := (fd_table R)[i := tempfs], romfs_num_fd := romfs_num_fd R + 1\<rparr>)
     }"

text \<open>Creating the file at the first free position, after marking an existing one as deleted.
  \<open>found\<close> is the result of the first lookup; when it was \<open>FS_FILE_OK\<close>, \<open>firstfree\<close> has no value
  before the second one.\<close>

definition romfs_create :: "u8 list \<Rightarrow> open_result \<Rightarrow> FSDATA \<Rightarrow> ((errno + u32) \<times> FSDATA) option" where
  "romfs_create path found pfs =
     (let pfs1 = (case found of FS_FILE_NOT_FOUND _ \<Rightarrow> pfs
        | FS_FILE_OK base _ _ \<Rightarrow> pfs\<lparr>medium := writef pfs [WOFS_FILE_DELETED, 0xFF, 0xFF, 0xFF]
             (base - ROMFS_SIZE_LEN - WOFS_DEL_FIELD_SIZE) (medium pfs)\<rparr>)
      in do {
        r \<leftarrow> romfs_open_file pfs1 [1] 0;
        firstfree \<leftarrow> (case r of FS_FILE_NOT_FOUND a \<Rightarrow> Some a
          | FS_FILE_OK _ _ _ \<Rightarrow> (case found of FS_FILE_NOT_FOUND a \<Rightarrow> Some a | FS_FILE_OK _ _ _ \<Rightarrow> None));
        if max_size pfs1 - firstfree + 1
             < word_of_nat (length path) + 1 + WOFS_MIN_NEEDED_SIZE + WOFS_DEL_FIELD_SIZE
        then Some (Inl ENOSPC, pfs1)
        else
          let pfs2 = pfs1\<lparr>medium := writef pfs1 (path @ [0]) firstfree (medium pfs1)\<rparr>;
              base = romfs_align (firstfree + (word_of_nat (length path) + 1)) + (ROMFS_SIZE_LEN + WOFS_DEL_FIELD_SIZE)
          in Some (Inr base, romfs_fs_set_flag pfs2 ROMFS_FS_FLAG_WRITING)
      })"

definition romfs_open_r :: "os_consts \<Rightarrow> u8 list \<Rightarrow> u32 \<Rightarrow> romfs_state \<Rightarrow> FSDATA \<Rightarrow>
    ((errno + nat) \<times> romfs_state \<times> FSDATA) option" where
  "romfs_open_r k path flags R pfs =
     (if romfs_num_fd R = int TOTAL_MAX_FDS then Some (Inl ENFILE, R, pfs)
      else do {
        found \<leftarrow> romfs_open_file pfs path 0;
        let fexists = (case found of FS_FILE_OK _ _ _ \<Rightarrow> True | _ \<Rightarrow> False);
        if flags AND O_CREAT k \<noteq> 0 \<and> flags AND O_EXCL k \<noteq> 0 \<and> fexists then Some (Inl EEXIST, R, pfs)
        else
          let must_create0 = (flags AND O_CREAT k \<noteq> 0 \<and> \<not> fexists);
              must_create = (must_create0 \<or>
                (flags AND O_TRUNC k \<noteq> 0 \<and> flags AND (O_WRONLY k OR O_RDWR k) \<noteq> 0 \<and> fexists));
              lflags = romfs_lflags k flags;
              writing = (lflags AND (ROMFS_FILE_FLAG_WRITE OR ROMFS_FILE_FLAG_APPEND) \<noteq> 0)
          in
          if must_create \<and> fs_flags pfs AND ROMFS_FS_FLAG_WO = 0 then Some (Inl EROFS, R, pfs)
          else if writing \<and> \<not> must_create then Some (Inl EACCES, R, pfs)
          else if writing \<and> romfs_fs_is_flag_set pfs ROMFS_FS_FLAG_WRITING then Some (Inl EROFS, R, pfs)
          else if must_create then do {
            (r, pfs') \<leftarrow> romfs_create path found pfs;
            case r of Inl e \<Rightarrow> Some (Inl e, R, pfs')
            | Inr base \<Rightarrow> do {
                (i, R') \<leftarrow> romfs_install \<lparr>fd_baseaddr = base, fd_offset = 0, fd_size = 0, fd_flags = lflags\<rparr> R;
                Some (Inr i, R', pfs')
              }
          }
          else (case found of FS_FILE_NOT_FOUND _ \<Rightarrow> Some (Inl ENOENT, R, pfs)
            | FS_FILE_OK base fsize _ \<Rightarrow> do {
                (i, R') \<leftarrow> romfs_install \<lparr>fd_baseaddr = base, fd_offset = 0, fd_size = fsize, fd_flags = lflags\<rparr> R;
                Some (Inr i, R', pfs)
              })
      })"

text \<open>The operations below take the device-level descriptor as an index into \<open>fd_table\<close> without
  checking it; an index outside the table is a fault.\<close>

definition romfs_writing :: "FD \<Rightarrow> bool" where
  "romfs_writing f \<longleftrightarrow> fd_flags f AND (ROMFS_FILE_FLAG_WRITE OR ROMFS_FILE_FLAG_APPEND) \<noteq> 0"

definition romfs_close_r :: "nat \<Rightarrow> romfs_state \<Rightarrow> FSDATA \<Rightarrow> (romfs_state \<times> FSDATA) option" where
  "romfs_close_r fd R pfs =
     (if length (fd_table R) \<le> fd then None
      else
        let pfd = fd_table R ! fd;
            pfs' = (if romfs_writing pfd
              then romfs_fs_clear_flag
                (pfs\<lparr>medium := writef pfs (le32 (fd_size pfd)) (fd_baseaddr pfd - ROMFS_SIZE_LEN) (medium pfs)\<rparr>)
                ROMFS_FS_FLAG_WRITING
              else pfs);
            R' = romfs_close_fd fd R
        in Some (R'\<lparr>romfs_num_fd := romfs_num_fd R' - 1\<rparr>, pfs'))"

definition romfs_write_r :: "nat \<Rightarrow> u8 list \<Rightarrow> romfs_state \<Rightarrow> FSDATA \<Rightarrow>
    ((errno + nat) \<times> romfs_state \<times> FSDATA) option" where
  "romfs_write_r fd bs R pfs =
     (if length (fd_table R) \<le> fd then None
      else
        let pfd = fd_table R ! fd in
        if \<not> romfs_writing pfd then Some (Inl EINVAL, R, pfs)
        else
          let pfd1 = (if fd_flags pfd AND ROMFS_FILE_FLAG_APPEND \<noteq> 0 then pfd\<lparr>fd_offset := fd_size pfd\<rparr> else pfd);
              R1 = R\<lparr>fd_table := (fd_table R)[fd := pfd1]\<rparr>
          in
          if fd_offset pfd1 \<noteq> fd_size pfd1 then Some (Inr 0, R1, pfs)
          else
            let len0 = word_of_nat (length bs);
                len = (if fd_baseaddr pfd1 + fd_size pfd1 + len0 > max_size pfs - ROMFS_ALIGN
                       then max_size pfs - (fd_baseaddr pfd1 + fd_size pfd1) - ROMFS_ALIGN else len0)
            in
            if length bs < unat len then None
            else
              let pfs' = pfs\<lparr>medium := writef pfs (take (unat len) bs) (fd_offset pfd1 + fd_baseaddr pfd1) (medium pfs)\<rparr>;
                  pfd2 = pfd1\<lparr>fd_offset := fd_offset pfd1 + len, fd_size := fd_size pfd1 + len\<rparr>
              in Some (Inr (unat len), R1\<lparr>fd_table := (fd_table R1)[fd := pfd2]\<rparr>, pfs'))"

definition romfs_read_r :: "nat \<Rightarrow> nat \<Rightarrow> romfs_state \<Rightarrow> FSDATA \<Rightarrow>
    ((errno + u8 list) \<times> romfs_state) option" where
  "romfs_read_r fd len R pfs =
     (if length (fd_table R) \<le> fd then None
      else
        let pfd = fd_table R ! fd;
            actlen = min (word_of_nat len) (fd_size pfd - fd_offset pfd)
        in
        if fd_flags pfd AND ROMFS_FILE_FLAG_READ = 0 then Some (Inl EBADF, R)
        else
          let bs = (if fs_flags pfs AND ROMFS_FS_FLAG_DIRECT \<noteq> 0
                    then rd_bytes (medium pfs) (unat (fd_offset pfd) + unat (fd_baseaddr pfd)) (unat actlen)
                    else readf pfs (fd_offset pfd + fd_baseaddr pfd) actlen (medium pfs))
          in Some (Inr bs, R\<lparr>fd_table := (fd_table R)
               [fd := pfd\<lparr>fd_offset := fd_offset pfd + word_of_nat (length bs)\<rparr>]\<rparr>))"

text \<open>\<open>None\<close> in the result is -1; \<open>_errno\<close> is not set.\<close>

definition romfs_lseek_r :: "os_consts \<Rightarrow> nat \<Rightarrow> u32 \<Rightarrow> u32 \<Rightarrow> romfs_state \<Rightarrow> (u32 option \<times> romfs_state) option" where
  "romfs_lseek_r k fd off whence R =
     (if length (fd_table R) \<le> fd then None
      else
        let pfd = fd_table R ! fd;
            newpos = (if whence = SEEK_SET k then Some off
                      else if whence = SEEK_CUR k then Some (fd_offset pfd + off)
                      else if whence = SEEK_END k then Some (fd_size pfd + off) else None)
        in case newpos of None \<Rightarrow> Some (None, R)
           | Some np \<Rightarrow>
               if np > fd_size pfd then Some (None, R)
               else Some (Some np, R\<lparr>fd_table := (fd_table R)[fd := pfd\<lparr>fd_offset := np\<rparr>]\<rparr>))"

text \<open>The address that a direct file system gives a file; \<open>None\<close> in the result is \<open>NULL\<close>.\<close>

definition romfs_getaddr_r :: "nat \<Rightarrow> romfs_state \<Rightarrow> FSDATA \<Rightarrow> u32 option option" where
  "romfs_getaddr_r fd R pfs =
     (if length (fd_table R) \<le> fd then None
      else if fs_flags pfs AND ROMFS_FS_FLAG_DIRECT \<noteq> 0 then Some (Some (fd_baseaddr (fd_table R ! fd)))
      else Some None)"

section \<open>Directories\<close>

text \<open>\<open>romfs_dir_data\<close> is the position of the next entry; a null name is \<open>None\<close>.\<close>

definition romfs_opendir_r :: "u8 list option \<Rightarrow> u32 \<Rightarrow> bool \<times> u32" where
  "romfs_opendir_r dname dir_data =
     (case dname of None \<Rightarrow> (True, 0)
      | Some nm \<Rightarrow> if nm = [] \<or> nm = [slash] then (True, 0) else (False, dir_data))"

text \<open>Copying a name into \<open>dm_shared_fname\<close>, which has room for \<open>n\<close> more bytes; the loop does not check
  it.\<close>

fun romfs_dirname :: "FSDATA \<Rightarrow> nat \<Rightarrow> u32 \<Rightarrow> (u8 list \<times> u32) option" where
  "romfs_dirname pfs 0 off = None"
| "romfs_dirname pfs (Suc n) off =
     (let c = romfsh_read8 pfs off
      in if c = 0 then Some ([], off + 1)
         else map_option (\<lambda>(cs, off'). (c # cs, off')) (romfs_dirname pfs n (off + 1)))"

text \<open>\<open>None\<close> in the result is \<open>NULL\<close>, and the stored position does not change; otherwise the result is
  the entry and the new position.\<close>

partial_function (option) romfs_readdir_r :: "FSDATA \<Rightarrow> u32 \<Rightarrow> (dm_dirent \<times> u32) option option" where
  "romfs_readdir_r pfs off =
     (if romfsh_read8 pfs off = WOFS_END_MARKER_CHAR then Some None
      else do {
        (fname, off1) \<leftarrow> romfs_dirname pfs (DM_MAX_FNAME_LENGTH + 1) off;
        let (is_deleted, fsize, off2) = romfs_header pfs (romfs_align off1);
        let off3 = romfs_next pfs (off2 + fsize);
        if is_deleted then romfs_readdir_r pfs off3
        else Some (Some (\<lparr>dent_fsize = fsize, dent_fname = fname, dent_ftime = 0, dent_flags = 0\<rparr>, off3))
      })"

definition romfs_closedir_r :: "u32 \<Rightarrow> u32" where
  "romfs_closedir_r dir_data = 0"

definition romfs_init_fds :: romfs_state where
  "romfs_init_fds = \<lparr>fd_table = replicate TOTAL_MAX_FDS empty_fd, romfs_num_fd = 0\<rparr>"

text \<open>The write function of a file system in internal flash at address \<open>pbase\<close>; \<open>low\<close> is the flash below
  it.\<close>

definition flash_at :: "mem \<Rightarrow> u32 \<Rightarrow> mem \<Rightarrow> mem" where
  "flash_at low pbase m = (\<lambda>y. if unat pbase \<le> y then m (y - unat pbase) else low y)"

definition sim_wofs_write :: "u32 option \<Rightarrow> (u8 list \<Rightarrow> u32 \<Rightarrow> mem \<Rightarrow> mem) \<Rightarrow> mem \<Rightarrow> u32 \<Rightarrow>
    u8 list \<Rightarrow> u32 \<Rightarrow> mem \<Rightarrow> mem" where
  "sim_wofs_write unit sw low pbase from toaddr m =
     (\<lambda>x. snd (platform_flash_write unit sw from (toaddr + pbase) (flash_at low pbase m)) (unat pbase + x))"

section \<open>Images\<close>

text \<open>What an image holds: its files in order, on a write-once file system with those marked as
  deleted.\<close>

record rom_file =
  f_name :: "u8 list"
  f_data :: "u8 list"
  f_deleted :: bool

definition align4 :: "nat \<Rightarrow> nat" where
  "align4 n = (n + 3) div 4 * 4"

definition hdr_pos :: "nat \<Rightarrow> rom_file \<Rightarrow> nat" where
  "hdr_pos a f = align4 (a + length (f_name f) + 1)"

definition data_pos :: "bool \<Rightarrow> nat \<Rightarrow> rom_file \<Rightarrow> nat" where
  "data_pos w a f = hdr_pos a f + (if w then 8 else 4)"

definition next_pos :: "bool \<Rightarrow> nat \<Rightarrow> rom_file \<Rightarrow> nat" where
  "next_pos w a f =
     (let p = data_pos w a f + length (f_data f) in if w then align4 p else p)"

definition name_ok :: "u8 list \<Rightarrow> bool" where
  "name_ok nm \<longleftrightarrow> length nm \<le> DM_MAX_FNAME_LENGTH \<and> 0 \<notin> set nm \<and> (nm \<noteq> [] \<longrightarrow> hd nm \<noteq> WOFS_END_MARKER_CHAR)"

definition del_field :: "bool \<Rightarrow> u8 list" where
  "del_field d = [if d then WOFS_FILE_DELETED else 0xFF, 0xFF, 0xFF, 0xFF]"

definition fs_entry :: "bool \<Rightarrow> mem \<Rightarrow> nat \<Rightarrow> rom_file \<Rightarrow> bool" where
  "fs_entry w m a f \<longleftrightarrow> name_ok (f_name f) \<and>
     rd_bytes m a (length (f_name f) + 1) = f_name f @ [0] \<and>
     (if w then rd_bytes m (hdr_pos a f) 4 = del_field (f_deleted f) else \<not> f_deleted f) \<and>
     rd_bytes m (data_pos w a f - 4) 4 = le32 (word_of_nat (length (f_data f))) \<and>
     rd_bytes m (data_pos w a f) (length (f_data f)) = f_data f"

fun fs_img :: "bool \<Rightarrow> mem \<Rightarrow> nat \<Rightarrow> rom_file list \<Rightarrow> nat \<Rightarrow> bool" where
  "fs_img w m a [] e \<longleftrightarrow> a = e \<and> m a = WOFS_END_MARKER_CHAR"
| "fs_img w m a (f # fs) e \<longleftrightarrow> fs_entry w m a f \<and> fs_img w m (next_pos w a f) fs e"

text \<open>The storage is readable up to \<open>lim\<close>: it is mapped, or the read function returns its contents.\<close>

definition fs_reads :: "FSDATA \<Rightarrow> nat \<Rightarrow> bool" where
  "fs_reads pfs lim \<longleftrightarrow> lim \<le> 2 ^ 32 \<and> (fs_flags pfs AND ROMFS_FS_FLAG_DIRECT \<noteq> 0 \<or>
     (\<forall>a n m. unat a + unat n \<le> lim \<longrightarrow> readf pfs a n m = rd_bytes m (unat a) (unat n)))"

lemma read8_eq: "fs_reads pfs lim \<Longrightarrow> x < lim \<Longrightarrow> romfsh_read8 pfs (word_of_nat x) = medium pfs x"
  by (auto simp: fs_reads_def romfsh_read8_def unat_of_nat_less rd_bytes_Suc)

lemma align4_ge: "x \<le> align4 x" and align4_le: "align4 x \<le> x + 3" and align4_dvd: "4 dvd align4 x"
  by (auto simp: align4_def)

lemma align4_id: "4 dvd x \<Longrightarrow> align4 x = x"
  by (auto simp: align4_def)

lemma romfs_align_eq:
  assumes "x + 3 < 2 ^ 32"
  shows "romfs_align (word_of_nat x) = word_of_nat (align4 x)"
proof -
  have "romfs_align (word_of_nat x) = word_of_nat (x + 3) AND NOT (2 ^ 2 - 1)"
    by (simp add: romfs_align_def ROMFS_ALIGN_def add.commute)
  moreover have "unat (word_of_nat (x + 3) :: u32) = x + 3"
    using assms by (intro unat_of_nat_less) simp
  ultimately have "unat (romfs_align (word_of_nat x)) = (x + 3) div 2 ^ 2 * 2 ^ 2"
    by (simp only: word_mask_split(2) [of 2])
  then have "unat (romfs_align (word_of_nat x)) = align4 x"
    by (simp add: align4_def)
  then show ?thesis
    by (metis of_nat_unat ucast_id)
qed

lemma fname_eq:
  "fs_reads pfs lim \<Longrightarrow> rd_bytes (medium pfs) a (length cs + 1) = cs @ [0] \<Longrightarrow> 0 \<notin> set cs \<Longrightarrow>
   length cs \<le> n \<Longrightarrow> a + length cs < lim \<Longrightarrow> romfs_fname pfs n (word_of_nat a) = cs"
proof (induction cs arbitrary: n a)
  case Nil
  then show ?case
    by (cases n) (auto simp: read8_eq rd_bytes_Suc Let_def)
next
  case (Cons c cs)
  then obtain k where n: "n = Suc k" by (cases n) auto
  have "medium pfs a = c" "rd_bytes (medium pfs) (Suc a) (length cs + 1) = cs @ [0]"
    using Cons.prems(2) by (auto simp: rd_bytes_Suc)
  moreover have "word_of_nat a + 1 = (word_of_nat (Suc a) :: u32)" by simp
  ultimately show ?case
    using Cons.prems Cons.IH [of "Suc a" k] by (simp add: n read8_eq Let_def add.commute)
qed

lemma rd4_le32:
  "rd_bytes m x 4 = le32 w \<Longrightarrow> of_le32 (m x) (m (x + 1)) (m (x + 2)) (m (x + 3)) = w"
  by (simp add: le32_eq_iff [symmetric] rd_bytes_def numeral_eq_Suc upt_rec)

lemma next_pos_gt: "data_pos w a f + length (f_data f) \<le> next_pos w a f"
  by (auto simp: next_pos_def Let_def align4_ge)

lemma data_pos_gt: "a + length (f_name f) < hdr_pos a f" "hdr_pos a f < data_pos w a f"
  using align4_ge [of "a + length (f_name f) + 1"] by (auto simp: data_pos_def hdr_pos_def)

lemma fs_img_le: "fs_img w m a fs e \<Longrightarrow> a \<le> e"
proof (induction fs arbitrary: a)
  case (Cons f fs)
  have "a < next_pos w a f"
    using data_pos_gt [of a f] data_pos_gt(2) [of a f w] next_pos_gt [of w a f] by linarith
  with Cons show ?case by fastforce
qed simp

lemma hd_rd_bytes: "0 < n \<Longrightarrow> hd (rd_bytes m a n) = m a"
  by (cases n) (simp_all add: rd_bytes_Suc)

lemma header_eq:
  assumes "fs_reads pfs lim" "romfsh_is_wofs pfs = w" "fs_entry w (medium pfs) a f" "data_pos w a f \<le> lim"
  shows "romfs_header pfs (word_of_nat (hdr_pos a f)) =
    (f_deleted f, word_of_nat (length (f_data f)), word_of_nat (data_pos w a f))"
proof -
  let ?h = "data_pos w a f - 4"
  have h: "?h + 4 = data_pos w a f"
    by (simp add: data_pos_def)
  have r: "romfsh_read8 pfs (word_of_nat (hdr_pos a f)) = medium pfs (hdr_pos a f)"
    "romfsh_read8 pfs (word_of_nat ?h) = medium pfs ?h"
    "romfsh_read8 pfs (word_of_nat (?h + 1)) = medium pfs (?h + 1)"
    "romfsh_read8 pfs (word_of_nat (?h + 2)) = medium pfs (?h + 2)"
    "romfsh_read8 pfs (word_of_nat (?h + 3)) = medium pfs (?h + 3)"
    by (rule read8_eq [OF assms(1)], use assms(4) h data_pos_gt(2) [of a f w] in linarith)+
  have sz: "of_le32 (medium pfs ?h) (medium pfs (?h + 1)) (medium pfs (?h + 2)) (medium pfs (?h + 3))
      = word_of_nat (length (f_data f))"
    using assms(3) by (intro rd4_le32) (simp add: fs_entry_def)
  have del: "w \<Longrightarrow> medium pfs (hdr_pos a f) = WOFS_FILE_DELETED \<longleftrightarrow> f_deleted f"
    using assms(3) hd_rd_bytes [of 4 "medium pfs" "hdr_pos a f"]
    by (auto simp: fs_entry_def del_field_def WOFS_FILE_DELETED_def split: if_split_asm)
  show ?thesis
    using r sz del h assms(2,3)
    by (cases w) (auto simp: romfs_header_def Let_def data_pos_def fs_entry_def ROMFS_SIZE_LEN_def
        WOFS_DEL_FIELD_SIZE_def ROMFS_ALIGN_def add.commute add.left_commute)
qed

definition name_matches :: "u8 list \<Rightarrow> rom_file \<Rightarrow> bool" where
  "name_matches nm f \<longleftrightarrow> strncaseeq nm (f_name f) DM_MAX_FNAME_LENGTH \<and> \<not> f_deleted f"

fun img_lookup :: "bool \<Rightarrow> u8 list \<Rightarrow> nat \<Rightarrow> rom_file list \<Rightarrow> open_result" where
  "img_lookup w nm a [] = FS_FILE_NOT_FOUND (word_of_nat a)"
| "img_lookup w nm a (f # fs) =
     (if name_matches nm f
      then FS_FILE_OK (word_of_nat (data_pos w a f)) (word_of_nat (length (f_data f))) (word_of_nat a)
      else img_lookup w nm (next_pos w a f) fs)"

lemma romfs_open_file_eq:
  assumes "fs_reads pfs lim" "romfsh_is_wofs pfs = w" "fs_img w (medium pfs) a fs e" "e < lim" "e + 3 < 2 ^ 32"
  shows "romfs_open_file pfs nm (word_of_nat a) = Some (img_lookup w nm a fs)"
  using assms(3)
proof (induction fs arbitrary: a)
  case Nil
  then show ?case
    using read8_eq [OF assms(1), of e] assms(4) by (auto simp: romfs_open_file.simps [of pfs nm "word_of_nat e"])
next
  case (Cons f fs)
  have ent: "fs_entry w (medium pfs) a f" and img: "fs_img w (medium pfs) (next_pos w a f) fs e"
    using Cons.prems by auto
  note le = data_pos_gt(1) [of a f] data_pos_gt(2) [of a f w] next_pos_gt [of w a f] fs_img_le [OF img]
  have nm: "name_ok (f_name f)" "rd_bytes (medium pfs) a (length (f_name f) + 1) = f_name f @ [0]"
    using ent by (auto simp: fs_entry_def)
  have fn: "romfs_fname pfs DM_MAX_FNAME_LENGTH (word_of_nat a) = f_name f"
    using nm le assms(4) by (intro fname_eq [OF assms(1)]) (auto simp: name_ok_def)
  have "medium pfs a = hd (f_name f @ [0])"
    using nm(2) by (metis add.commute list.sel(1) plus_1_eq_Suc rd_bytes_Suc)
  then have first: "romfsh_read8 pfs (word_of_nat a) \<noteq> WOFS_END_MARKER_CHAR"
    using read8_eq [OF assms(1), of a] le assms(4) nm(1)
    by (cases "f_name f") (auto simp: name_ok_def WOFS_END_MARKER_CHAR_def)
  have al: "romfs_align (word_of_nat a + word_of_nat (length (f_name f)) + 1) = word_of_nat (hdr_pos a f)"
    using romfs_align_eq [of "a + length (f_name f) + 1"] le assms(5) by (simp add: hdr_pos_def add.commute)
  have hd: "romfs_header pfs (word_of_nat (hdr_pos a f)) =
      (f_deleted f, word_of_nat (length (f_data f)), word_of_nat (data_pos w a f))"
    using ent le assms by (intro header_eq) auto
  have nx: "romfs_next pfs (word_of_nat (data_pos w a f) + word_of_nat (length (f_data f))) = word_of_nat (next_pos w a f)"
    using romfs_align_eq [of "data_pos w a f + length (f_data f)"] le assms(2,5)
    by (auto simp: romfs_next_def next_pos_def Let_def)
  show ?case
    using Cons.IH [OF img]
    by (subst romfs_open_file.simps) (simp add: first fn al hd nx name_matches_def Let_def)
qed

section \<open>Files of an image\<close>

lemma img_lookup_None:
  "fs_img w m a fs e \<Longrightarrow> find (name_matches nm) fs = None \<Longrightarrow> img_lookup w nm a fs = FS_FILE_NOT_FOUND (word_of_nat e)"
  by (induction fs arbitrary: a) auto

lemma img_lookup_Some:
  "fs_img w m a fs e \<Longrightarrow> find (name_matches nm) fs = Some f \<Longrightarrow>
   \<exists>p. a \<le> p \<and> fs_entry w m p f \<and> next_pos w p f \<le> e \<and>
     img_lookup w nm a fs = FS_FILE_OK (word_of_nat (data_pos w p f)) (word_of_nat (length (f_data f))) (word_of_nat p)"
proof (induction fs arbitrary: a)
  case Nil
  then show ?case by simp
next
  case (Cons g fs)
  show ?case
  proof (cases "name_matches nm g")
    case True
    with Cons.prems show ?thesis
      using fs_img_le [of w m "next_pos w a g" fs e] by auto
  next
    case False
    with Cons.prems Cons.IH [of "next_pos w a g"] obtain p where
      "next_pos w a g \<le> p" "fs_entry w m p f" "next_pos w p f \<le> e"
      "img_lookup w nm (next_pos w a g) fs =
         FS_FILE_OK (word_of_nat (data_pos w p f)) (word_of_nat (length (f_data f))) (word_of_nat p)"
      by auto
    with False show ?thesis
      using data_pos_gt(1) [of a g] data_pos_gt(2) [of a g w] next_pos_gt [of w a g]
      by (intro exI [of _ p]) auto
  qed
qed

text \<open>C18. Looking up a name in an image ends with the address, the size and the contents of the first
  file of that name (up to case) that is not deleted, or with the address of the end marker when
  there is none.\<close>

theorem romfs_lookup:
  assumes "fs_reads pfs lim" and "fs_img (romfsh_is_wofs pfs) (medium pfs) 0 fs e" and "e < lim" and "e + 3 < 2 ^ 32"
  shows "case find (name_matches nm) fs of
      None \<Rightarrow> romfs_open_file pfs nm 0 = Some (FS_FILE_NOT_FOUND (word_of_nat e))
    | Some f \<Rightarrow> \<exists>base na. romfs_open_file pfs nm 0 = Some (FS_FILE_OK base (word_of_nat (length (f_data f))) na) \<and>
        rd_bytes (medium pfs) (unat base) (length (f_data f)) = f_data f"
proof (cases "find (name_matches nm) fs")
  case None
  then show ?thesis
    using romfs_open_file_eq [OF assms(1) refl assms(2-4), of nm] img_lookup_None [OF assms(2) None] by simp
next
  case (Some f)
  obtain p where p: "fs_entry (romfsh_is_wofs pfs) (medium pfs) p f" "next_pos (romfsh_is_wofs pfs) p f \<le> e"
    "img_lookup (romfsh_is_wofs pfs) nm 0 fs = FS_FILE_OK (word_of_nat (data_pos (romfsh_is_wofs pfs) p f))
       (word_of_nat (length (f_data f))) (word_of_nat p)"
    using img_lookup_Some [OF assms(2) Some] by blast
  have "unat (word_of_nat (data_pos (romfsh_is_wofs pfs) p f) :: u32) = data_pos (romfsh_is_wofs pfs) p f"
    using p(2) assms(4) next_pos_gt [of "romfsh_is_wofs pfs" p f] by (intro unat_of_nat_less) simp
  with p show ?thesis
    using romfs_open_file_eq [OF assms(1) refl assms(2-4), of nm] Some by (simp add: fs_entry_def)
qed

text \<open>A read-only image with the file \<open>a\<close>, whose contents are the bytes 7 and 8.\<close>

definition tiny_rom :: mem where
  "tiny_rom x = (if x < 10 then [0x61, 0, 0, 0, 2, 0, 0, 0, 7, 8] ! x else 0xFF)"

definition tiny_romfs :: FSDATA where
  "tiny_romfs = \<lparr>medium = tiny_rom, fs_flags = ROMFS_FS_FLAG_DIRECT, readf = (\<lambda>a n m. []),
     writef = (\<lambda>bs a m. m), max_size = 11\<rparr>"

lemma tiny_romfs_img:
  "fs_img (romfsh_is_wofs tiny_romfs) (medium tiny_romfs) 0 [\<lparr>f_name = [0x61], f_data = [7, 8], f_deleted = False\<rparr>] 10"
  "fs_reads tiny_romfs 11" "\<not> romfsh_is_wofs tiny_romfs"
  by (simp_all add: tiny_romfs_def romfsh_is_wofs_def romfs_flags fs_reads_def fs_entry_def data_pos_def hdr_pos_def
      next_pos_def align4_def name_ok_def DM_MAX_FNAME_LENGTH_def rd_bytes_def upt_rec tiny_rom_def le32_def
      WOFS_END_MARKER_CHAR_def)

theorem romfs_lookup_witness: "\<exists>base na. romfs_open_file tiny_romfs [0x41] 0 = Some (FS_FILE_OK base 2 na)"
  using romfs_lookup [OF tiny_romfs_img(2,1), of "[0x41]"]
  by (auto simp: name_matches_def strncaseeq_def tolower_def DM_MAX_FNAME_LENGTH_def)

section \<open>The descriptor table\<close>

definition open_fds :: "romfs_state \<Rightarrow> nat" where
  "open_fds R = length (filter (\<lambda>f. \<not> fd_is_empty f) (fd_table R))"

definition romfs_inv :: "romfs_state \<Rightarrow> bool" where
  "romfs_inv R \<longleftrightarrow> length (fd_table R) = TOTAL_MAX_FDS \<and> romfs_num_fd R = int (open_fds R)"

lemma find_index_from_Some_iff:
  "find_index_from P i xs = Some j \<longleftrightarrow> i \<le> j \<and> j < i + length xs \<and> P (xs ! (j - i)) \<and> (\<forall>l<j - i. \<not> P (xs ! l))"
proof (induction xs arbitrary: i)
  case Nil
  then show ?case by simp
next
  case (Cons x xs)
  show ?case
  proof (cases "j \<le> i")
    case True
    with Cons show ?thesis by auto
  next
    case False
    then have "j - i = Suc (j - Suc i)" by simp
    with Cons False show ?thesis
      by (auto simp: less_Suc_eq_0_disj)
  qed
qed

lemma find_index_from_None_iff: "find_index_from P i xs = None \<longleftrightarrow> (\<forall>x \<in> set xs. \<not> P x)"
  by (induction xs arbitrary: i) auto

lemma fd_is_empty_empty [simp]: "fd_is_empty empty_fd"
  by (simp add: fd_is_empty_def empty_fd_def)

lemma romfs_inv_init: "romfs_inv romfs_init_fds"
  by (simp add: romfs_inv_def romfs_init_fds_def open_fds_def)

lemma romfs_install_ok:
  assumes "romfs_inv R" "romfs_num_fd R \<noteq> int TOTAL_MAX_FDS" "\<not> fd_is_empty f"
  obtains i R' where "romfs_install f R = Some (i, R')" "i < TOTAL_MAX_FDS" "fd_is_empty (fd_table R ! i)"
    "fd_table R' = (fd_table R)[i := f]" "romfs_inv R'"
proof -
  have "open_fds R \<noteq> length (fd_table R)"
    using assms(1,2) by (simp add: romfs_inv_def)
  then have "romfs_find_empty_fd R \<noteq> None"
    unfolding romfs_find_empty_fd_def find_index_from_None_iff open_fds_def by (metis filter_True)
  then obtain i where i: "romfs_find_empty_fd R = Some i" by auto
  then have "i < length (fd_table R)" "fd_is_empty (fd_table R ! i)"
    by (auto simp: romfs_find_empty_fd_def find_index_from_Some_iff)
  with i assms show ?thesis
    by (intro that [of i "R\<lparr>fd_table := (fd_table R)[i := f], romfs_num_fd := romfs_num_fd R + 1\<rparr>"])
      (auto simp: romfs_install_def romfs_inv_def open_fds_def length_filter_update)
qed

lemma romfs_install_less:
  "romfs_install f R = Some (i, R') \<Longrightarrow> i < length (fd_table R) \<and> fd_table R' = (fd_table R)[i := f]"
  by (auto simp: romfs_install_def romfs_find_empty_fd_def find_index_from_Some_iff split: bind_split_asm)

lemma romfs_close_inv:
  assumes "romfs_inv R" "fd < TOTAL_MAX_FDS" "\<not> fd_is_empty (fd_table R ! fd)"
  obtains R' pfs' where "romfs_close_r fd R pfs = Some (R', pfs')" "romfs_inv R'"
    "fd_table R' = (fd_table R)[fd := empty_fd]"
proof -
  have "Suc (length (filter (\<lambda>f. \<not> fd_is_empty f) ((fd_table R)[fd := empty_fd])))
      = length (filter (\<lambda>f. \<not> fd_is_empty f) (fd_table R))"
    using assms by (intro length_filter_update_less) (auto simp: romfs_inv_def)
  then have "romfs_inv (R\<lparr>fd_table := (fd_table R)[fd := empty_fd], romfs_num_fd := romfs_num_fd R - 1\<rparr>)"
    using assms(1) by (simp add: romfs_inv_def open_fds_def)
  then show ?thesis
    using assms by (intro that) (auto simp: romfs_close_r_def romfs_close_fd_def romfs_inv_def Let_def)
qed

section \<open>Reading\<close>

text \<open>Successive reads from one descriptor.\<close>

fun romfs_reads :: "nat \<Rightarrow> nat list \<Rightarrow> romfs_state \<Rightarrow> FSDATA \<Rightarrow> (u8 list list \<times> romfs_state) option" where
  "romfs_reads fd [] R pfs = Some ([], R)"
| "romfs_reads fd (n # ns) R pfs =
     do {
       (r, R') \<leftarrow> romfs_read_r fd n R pfs;
       case r of Inl _ \<Rightarrow> None
       | Inr bs \<Rightarrow> do { (bss, R'') \<leftarrow> romfs_reads fd ns R' pfs; Some (bs # bss, R'') }
     }"

text \<open>What they return: consecutive pieces of the contents.\<close>

fun pieces :: "nat list \<Rightarrow> 'a list \<Rightarrow> 'a list list" where
  "pieces [] xs = []"
| "pieces (n # ns) xs = take n xs # pieces ns (drop n xs)"

lemma concat_pieces: "concat (pieces ns xs) = take (sum_list ns) xs"
  by (induction ns xs rule: pieces.induct) (auto simp: take_add)

text \<open>A descriptor that is open for reading \<open>data\<close> at \<open>base\<close>, of which \<open>off\<close> bytes have been read.\<close>

definition reading :: "FSDATA \<Rightarrow> nat \<Rightarrow> nat \<Rightarrow> u8 list \<Rightarrow> nat \<Rightarrow> FD \<Rightarrow> bool" where
  "reading pfs lim base data off f \<longleftrightarrow>
     fd_baseaddr f = word_of_nat base \<and> fd_size f = word_of_nat (length data) \<and> fd_offset f = word_of_nat off \<and>
     fd_flags f AND ROMFS_FILE_FLAG_READ \<noteq> 0 \<and> off \<le> length data \<and>
     rd_bytes (medium pfs) base (length data) = data \<and> base + length data \<le> lim \<and> fs_reads pfs lim \<and> lim < 2 ^ 32"

lemma romfs_read_r_eq:
  assumes "fd < length (fd_table R)" "reading pfs lim base data off (fd_table R ! fd)" "n < 2 ^ 32"
  obtains f' where "romfs_read_r fd n R pfs =
      Some (Inr (take n (drop off data)), R\<lparr>fd_table := (fd_table R)[fd := f']\<rparr>)"
    "reading pfs lim base data (off + length (take n (drop off data))) f'"
proof -
  let ?f = "fd_table R ! fd"
  let ?k = "length (take n (drop off data))"
  note r = assms(2) [unfolded reading_def]
  have u: "unat (word_of_nat base :: u32) = base" "unat (word_of_nat off :: u32) = off"
    "unat (word_of_nat (length data) :: u32) = length data" "unat (word_of_nat n :: u32) = n"
    "unat (word_of_nat (off + base) :: u32) = off + base"
    by (rule unat_of_nat_less, use r assms(3) in simp)+
  have "unat (fd_size ?f - fd_offset ?f) = length data - off"
    using r by (simp add: unat_sub word_le_nat_alt u)
  then have act: "unat (min (word_of_nat n) (fd_size ?f - fd_offset ?f)) = ?k"
    using u(4) by (auto simp: min_def word_le_nat_alt)
  have data: "rd_bytes (medium pfs) (base + off) ?k = take n (drop off data)"
  proof -
    have "off + ?k \<le> length data" "take ?k (drop off data) = take n (drop off data)"
      using r by (auto simp: min_def)
    then show ?thesis
      using rd_bytes_sub [of "medium pfs" base "length data" data off ?k] r by (simp only: slice_def)
  qed
  have bs: "(if fs_flags pfs AND ROMFS_FS_FLAG_DIRECT \<noteq> 0
       then rd_bytes (medium pfs) (unat (fd_offset ?f) + unat (fd_baseaddr ?f)) (unat (min (word_of_nat n) (fd_size ?f - fd_offset ?f)))
       else readf pfs (fd_offset ?f + fd_baseaddr ?f) (min (word_of_nat n) (fd_size ?f - fd_offset ?f)) (medium pfs))
     = take n (drop off data)"
  proof (cases "fs_flags pfs AND ROMFS_FS_FLAG_DIRECT \<noteq> 0")
    case True
    have "unat (fd_offset ?f) + unat (fd_baseaddr ?f) = base + off"
      using r by (simp add: u)
    with True data show ?thesis
      by (simp only: act if_True simp_thms)
  next
    case False
    have "unat (fd_offset ?f + fd_baseaddr ?f) = base + off"
      using r u(5) by (simp add: add.commute)
    moreover have "base + off + ?k \<le> lim"
      using r by auto
    moreover have "unat a + unat l \<le> lim \<Longrightarrow> readf pfs a l m = rd_bytes m (unat a) (unat l)" for a l m
      using r False by (auto simp: fs_reads_def)
    ultimately show ?thesis
      using False data by (simp only: act if_False simp_thms)
  qed
  let ?f' = "?f\<lparr>fd_offset := fd_offset ?f + word_of_nat ?k\<rparr>"
  have "romfs_read_r fd n R pfs = Some (Inr (take n (drop off data)), R\<lparr>fd_table := (fd_table R)[fd := ?f']\<rparr>)"
    using assms(1) r unfolding romfs_read_r_def Let_def bs by simp
  moreover have "reading pfs lim base data (off + ?k) ?f'"
    using r by (auto simp: reading_def)
  ultimately show ?thesis by (rule that)
qed

lemma romfs_reads_eq:
  assumes "\<forall>n \<in> set ns. n < 2 ^ 32"
  shows "fd < length (fd_table R) \<Longrightarrow> reading pfs lim base data off (fd_table R ! fd) \<Longrightarrow>
    \<exists>f'. romfs_reads fd ns R pfs = Some (pieces ns (drop off data), R\<lparr>fd_table := (fd_table R)[fd := f']\<rparr>)"
  using assms
proof (induction ns arbitrary: R off)
  case Nil
  then show ?case
    by (auto intro!: exI [of _ "fd_table R ! fd"])
next
  case (Cons n ns)
  let ?bs = "take n (drop off data)"
  obtain f1 where f1: "romfs_read_r fd n R pfs = Some (Inr ?bs, R\<lparr>fd_table := (fd_table R)[fd := f1]\<rparr>)"
    "reading pfs lim base data (off + length ?bs) f1"
    using romfs_read_r_eq [OF Cons.prems(1,2), of n] Cons.prems(3) by auto
  obtain f2 where "romfs_reads fd ns (R\<lparr>fd_table := (fd_table R)[fd := f1]\<rparr>) pfs
      = Some (pieces ns (drop (off + length ?bs) data), R\<lparr>fd_table := (fd_table R)[fd := f2]\<rparr>)"
    using Cons.IH [of "R\<lparr>fd_table := (fd_table R)[fd := f1]\<rparr>" "off + length ?bs"] f1 Cons.prems by auto
  moreover have "drop (off + length ?bs) data = drop n (drop off data)"
    by (cases "n \<le> length data - off") (auto simp: add.commute)
  ultimately show ?case
    by (auto simp: f1)
qed

section \<open>Opening for reading\<close>

definition read_flags :: "os_consts \<Rightarrow> u32 \<Rightarrow> bool" where
  "read_flags k flags \<longleftrightarrow> flags AND O_WRONLY k = 0 \<and> flags AND O_RDWR k = 0 \<and> flags AND O_APPEND k = 0 \<and>
     flags AND O_CREAT k = 0"

lemma word_and_or_eq_0: "(x :: u32) AND (y OR z) = 0 \<longleftrightarrow> x AND y = 0 \<and> x AND z = 0"
  by (simp add: bit.conj_disj_distrib or_eq_0_iff)

lemma romfs_open_r_read:
  assumes "read_flags k flags" "romfs_num_fd R \<noteq> int TOTAL_MAX_FDS" "romfs_open_file pfs nm 0 = Some found"
  shows "romfs_open_r k nm flags R pfs =
    (case found of FS_FILE_NOT_FOUND _ \<Rightarrow> Some (Inl ENOENT, R, pfs)
     | FS_FILE_OK base fsize _ \<Rightarrow> do {
         (i, R') \<leftarrow> romfs_install \<lparr>fd_baseaddr = base, fd_offset = 0, fd_size = fsize, fd_flags = ROMFS_FILE_FLAG_READ\<rparr> R;
         Some (Inr i, R', pfs)
       })"
  using assms
  by (cases found)
    (simp_all add: romfs_open_r_def Let_def read_flags_def word_and_or_eq_0 romfs_lflags_def romfs_flags)

lemma open_reading:
  assumes "fs_reads pfs lim" and "fs_img (romfsh_is_wofs pfs) (medium pfs) 0 fs e" and "e < lim" and "lim + 3 < 2 ^ 32"
    and "romfs_inv R" and "romfs_num_fd R \<noteq> int TOTAL_MAX_FDS" and "read_flags k flags" and "find (name_matches nm) fs = Some f"
  obtains fd R' base F where "romfs_open_r k nm flags R pfs = Some (Inr fd, R', pfs)" "romfs_inv R'" "fd < TOTAL_MAX_FDS"
    "fd_table R' = (fd_table R)[fd := F]" "reading pfs lim base (f_data f) 0 F" "fd_flags F = ROMFS_FILE_FLAG_READ"
proof -
  let ?w = "romfsh_is_wofs pfs"
  have e3: "e + 3 < 2 ^ 32" using assms(3,4) by simp
  have look: "romfs_open_file pfs nm 0 = Some (img_lookup ?w nm 0 fs)"
    using romfs_open_file_eq [OF assms(1) refl assms(2,3) e3, of nm] by simp
  note open_r = romfs_open_r_read [OF assms(7,6) look]
  obtain p where p: "fs_entry ?w (medium pfs) p f" "next_pos ?w p f \<le> e" and img: "img_lookup ?w nm 0 fs =
      FS_FILE_OK (word_of_nat (data_pos ?w p f)) (word_of_nat (length (f_data f))) (word_of_nat p)"
    using img_lookup_Some [OF assms(2,8)] by blast
  note le = next_pos_gt [of ?w p f]
  let ?f = "\<lparr>fd_baseaddr = word_of_nat (data_pos ?w p f), fd_offset = 0,
    fd_size = word_of_nat (length (f_data f)), fd_flags = ROMFS_FILE_FLAG_READ\<rparr>"
  have rd: "reading pfs lim (data_pos ?w p f) (f_data f) 0 ?f"
    using p le assms(1,3,4) by (simp add: reading_def fs_entry_def romfs_flags)
  have "\<not> fd_is_empty ?f"
    by (simp add: fd_is_empty_def)
  then obtain i R' where i: "romfs_install ?f R = Some (i, R')" "i < TOTAL_MAX_FDS"
    "fd_table R' = (fd_table R)[i := ?f]" "romfs_inv R'"
    using romfs_install_ok [OF assms(5,6)] by metis
  with rd show ?thesis
    by (intro that [of i R' ?f "data_pos ?w p f"]) (simp_all add: open_r img)
qed

lemma open_and_read:
  assumes "fs_reads pfs lim" and "fs_img (romfsh_is_wofs pfs) (medium pfs) 0 fs e" and "e < lim" and "lim + 3 < 2 ^ 32"
    and "romfs_inv R" and "romfs_num_fd R \<noteq> int TOTAL_MAX_FDS" and "read_flags k flags"
  shows "case find (name_matches nm) fs of
      None \<Rightarrow> romfs_open_r k nm flags R pfs = Some (Inl ENOENT, R, pfs)
    | Some f \<Rightarrow> \<exists>fd R'. romfs_open_r k nm flags R pfs = Some (Inr fd, R', pfs) \<and> romfs_inv R' \<and> fd < TOTAL_MAX_FDS \<and>
        (\<forall>ns. (\<forall>n \<in> set ns. n < 2 ^ 32) \<longrightarrow> (\<exists>R''. romfs_reads fd ns R' pfs = Some (pieces ns (f_data f), R'')))"
proof (cases "find (name_matches nm) fs")
  case None
  have "romfs_open_file pfs nm 0 = Some (img_lookup (romfsh_is_wofs pfs) nm 0 fs)"
    using romfs_open_file_eq [OF assms(1) refl assms(2,3), of nm] assms(3,4) by simp
  then show ?thesis
    using None by (simp add: romfs_open_r_read [OF assms(7,6)] img_lookup_None [OF assms(2)])
next
  case (Some f)
  obtain fd R' base F where o: "romfs_open_r k nm flags R pfs = Some (Inr fd, R', pfs)" "romfs_inv R'" "fd < TOTAL_MAX_FDS"
    "fd_table R' = (fd_table R)[fd := F]" "reading pfs lim base (f_data f) 0 F"
    using open_reading [OF assms Some] by metis
  have len: "fd < length (fd_table R')" and fd: "fd_table R' ! fd = F"
    using o(2-4) assms(5) by (auto simp: romfs_inv_def)
  have "\<exists>R''. romfs_reads fd ns R' pfs = Some (pieces ns (f_data f), R'')" if "\<forall>n \<in> set ns. n < 2 ^ 32" for ns
    using romfs_reads_eq [OF that len, of pfs lim base "f_data f" 0] o(5) by (auto simp: fd)
  then show ?thesis
    using o(1-3) by (simp add: Some)
qed

text \<open>Opening a file of an image for reading succeeds when a descriptor is free, and successive
  reads of any sizes return its contents piece by piece; a name that no file has gives \<open>ENOENT\<close>.\<close>

theorem romfs_open_and_read:
  assumes "fs_reads pfs lim" and "fs_img (romfsh_is_wofs pfs) (medium pfs) 0 fs e" and "e < lim" and "lim + 3 < 2 ^ 32"
    and "romfs_inv R" and "romfs_num_fd R \<noteq> int TOTAL_MAX_FDS" and "read_flags k flags"
  shows "case find (name_matches nm) fs of
      None \<Rightarrow> romfs_open_r k nm flags R pfs = Some (Inl ENOENT, R, pfs)
    | Some f \<Rightarrow> \<exists>fd R'. romfs_open_r k nm flags R pfs = Some (Inr fd, R', pfs) \<and> romfs_inv R' \<and> fd < TOTAL_MAX_FDS \<and>
        (\<forall>ns. (\<forall>n \<in> set ns. n < 2 ^ 32) \<longrightarrow> (\<exists>R''. romfs_reads fd ns R' pfs = Some (pieces ns (f_data f), R'')))"
  using assms by (rule open_and_read)

theorem romfs_open_and_read_witness:
  "\<exists>fd R' R''. romfs_open_r \<lparr>O_APPEND = 8, O_CREAT = 0x200, O_EXCL = 0x800, O_TRUNC = 0x400, O_SYNC = 0x2000, O_RDONLY = 0,
       O_WRONLY = 1, O_RDWR = 2, SEEK_SET = 0, SEEK_CUR = 1, SEEK_END = 2\<rparr> [0x61] 0 romfs_init_fds tiny_romfs
     = Some (Inr fd, R', tiny_romfs) \<and> romfs_reads fd [1, 5] R' tiny_romfs = Some ([[7], [8]], R'')"
proof -
  let ?k = "\<lparr>O_APPEND = 8, O_CREAT = 0x200, O_EXCL = 0x800, O_TRUNC = 0x400, O_SYNC = 0x2000, O_RDONLY = 0,
       O_WRONLY = 1, O_RDWR = 2, SEEK_SET = 0, SEEK_CUR = 1, SEEK_END = 2\<rparr>"
  have "romfs_num_fd romfs_init_fds \<noteq> int TOTAL_MAX_FDS" "read_flags ?k 0"
    by (simp_all add: romfs_init_fds_def TOTAL_MAX_FDS_def read_flags_def)
  then obtain fd R' where "romfs_open_r ?k [0x61] 0 romfs_init_fds tiny_romfs = Some (Inr fd, R', tiny_romfs)"
    "\<forall>ns. (\<forall>n \<in> set ns. n < 2 ^ 32) \<longrightarrow> (\<exists>R''. romfs_reads fd ns R' tiny_romfs = Some (pieces ns [7, 8], R''))"
    using romfs_open_and_read [OF tiny_romfs_img(2,1) _ _ romfs_inv_init, of ?k 0 "[0x61]"]
    by (auto simp: name_matches_def strncaseeq_def)
  moreover from this(2) [THEN spec, of "[1, 5]"]
  have "\<exists>R''. romfs_reads fd [1, 5] R' tiny_romfs = Some ([[7], [8]], R'')"
    by (simp del: romfs_reads.simps)
  ultimately show ?thesis
    by blast
qed

section \<open>Listing a directory\<close>

lemma dirname_eq:
  "fs_reads pfs lim \<Longrightarrow> rd_bytes (medium pfs) a (length cs + 1) = cs @ [0] \<Longrightarrow> 0 \<notin> set cs \<Longrightarrow>
   length cs < n \<Longrightarrow> a + length cs < lim \<Longrightarrow>
   romfs_dirname pfs n (word_of_nat a) = Some (cs, word_of_nat (a + length cs + 1))"
proof (induction cs arbitrary: n a)
  case Nil
  then show ?case
    by (cases n) (auto simp: read8_eq rd_bytes_Suc Let_def add.commute)
next
  case (Cons c cs)
  then obtain k where n: "n = Suc k" by (cases n) auto
  have "medium pfs a = c" "rd_bytes (medium pfs) (Suc a) (length cs + 1) = cs @ [0]"
    using Cons.prems(2) by (auto simp: rd_bytes_Suc)
  then show ?case
    using Cons.prems Cons.IH [of "Suc a" k] by (simp add: n read8_eq Let_def add.commute)
qed

definition dirent_of :: "rom_file \<Rightarrow> dm_dirent" where
  "dirent_of f = \<lparr>dent_fsize = word_of_nat (length (f_data f)), dent_fname = f_name f, dent_ftime = 0, dent_flags = 0\<rparr>"

text \<open>Reading a directory to its end; \<open>n\<close> bounds the number of entries.\<close>

fun romfs_listing :: "nat \<Rightarrow> FSDATA \<Rightarrow> u32 \<Rightarrow> dm_dirent list option" where
  "romfs_listing 0 pfs off = None"
| "romfs_listing (Suc n) pfs off =
     do {
       r \<leftarrow> romfs_readdir_r pfs off;
       case r of None \<Rightarrow> Some []
       | Some (ent, off') \<Rightarrow> map_option (\<lambda>es. ent # es) (romfs_listing n pfs off')
     }"

lemma romfs_readdir_step:
  assumes "fs_reads pfs lim" "romfsh_is_wofs pfs = w" "e < lim" "e + 3 < 2 ^ 32"
    and img: "fs_img w (medium pfs) a (f # fs) e"
  shows "romfs_readdir_r pfs (word_of_nat a) =
    (if f_deleted f then romfs_readdir_r pfs (word_of_nat (next_pos w a f))
     else Some (Some (dirent_of f, word_of_nat (next_pos w a f))))"
proof -
  have ent: "fs_entry w (medium pfs) a f" and rest: "fs_img w (medium pfs) (next_pos w a f) fs e"
    using img by auto
  note le = data_pos_gt(1) [of a f] data_pos_gt(2) [of a f w] next_pos_gt [of w a f] fs_img_le [OF rest]
  have nm: "name_ok (f_name f)" "rd_bytes (medium pfs) a (length (f_name f) + 1) = f_name f @ [0]"
    using ent by (auto simp: fs_entry_def)
  have dn: "romfs_dirname pfs (DM_MAX_FNAME_LENGTH + 1) (word_of_nat a) = Some (f_name f, word_of_nat (a + length (f_name f) + 1))"
    using nm le assms(3) by (intro dirname_eq [OF assms(1)]) (auto simp: name_ok_def)
  have "medium pfs a = hd (f_name f @ [0])"
    using nm(2) by (metis add.commute list.sel(1) plus_1_eq_Suc rd_bytes_Suc)
  then have first: "romfsh_read8 pfs (word_of_nat a) \<noteq> WOFS_END_MARKER_CHAR"
    using read8_eq [OF assms(1), of a] le assms(3) nm(1)
    by (cases "f_name f") (auto simp: name_ok_def WOFS_END_MARKER_CHAR_def)
  have al: "romfs_align (word_of_nat (a + length (f_name f) + 1)) = word_of_nat (hdr_pos a f)"
    using romfs_align_eq [of "a + length (f_name f) + 1"] le assms(4) by (simp add: hdr_pos_def)
  have hd: "romfs_header pfs (word_of_nat (hdr_pos a f)) =
      (f_deleted f, word_of_nat (length (f_data f)), word_of_nat (data_pos w a f))"
    using ent le assms by (intro header_eq) auto
  have nx: "romfs_next pfs (word_of_nat (data_pos w a f) + word_of_nat (length (f_data f))) = word_of_nat (next_pos w a f)"
    using romfs_align_eq [of "data_pos w a f + length (f_data f)"] le assms(2,4)
    by (auto simp: romfs_next_def next_pos_def Let_def)
  show ?thesis
    by (subst romfs_readdir_r.simps) (simp only: first dn al hd nx dirent_of_def Let_def bind.simps prod.case if_False)
qed

lemma romfs_listing_eq:
  assumes "fs_reads pfs lim" "romfsh_is_wofs pfs = w" "e < lim" "e + 3 < 2 ^ 32"
  shows "fs_img w (medium pfs) a fs e \<Longrightarrow> length fs < n \<Longrightarrow>
    romfs_listing n pfs (word_of_nat a) = Some (map dirent_of (filter (\<lambda>f. \<not> f_deleted f) fs))"
proof (induction fs arbitrary: a n)
  case Nil
  then obtain k where "n = Suc k" by (cases n) auto
  with Nil show ?case
    using read8_eq [OF assms(1), of e] assms(3) by (auto simp: romfs_readdir_r.simps [of pfs "word_of_nat e"])
next
  case (Cons f fs)
  then obtain k where n: "n = Suc k" by (cases n) auto
  note step = romfs_readdir_step [OF assms Cons.prems(1)]
  show ?case
  proof (cases "f_deleted f")
    case True
    then have "romfs_listing n pfs (word_of_nat a) = romfs_listing n pfs (word_of_nat (next_pos w a f))"
      by (simp add: n step)
    with True Cons show ?thesis by simp
  next
    case False
    with Cons n show ?thesis by (simp add: step)
  qed
qed

text \<open>Listing an image with \<open>readdir\<close> ends and gives the names and sizes of exactly the files that
  are not deleted, in the order of the image.\<close>

theorem romfs_list_directory:
  assumes "fs_reads pfs lim" and "fs_img (romfsh_is_wofs pfs) (medium pfs) 0 fs e" and "e < lim" and "e + 3 < 2 ^ 32"
  shows "fst (romfs_opendir_r (Some [slash]) d) \<and>
    romfs_listing (Suc (length fs)) pfs (snd (romfs_opendir_r (Some [slash]) d))
      = Some (map dirent_of (filter (\<lambda>f. \<not> f_deleted f) fs))"
  using romfs_listing_eq [OF assms(1) refl assms(3,4,2), of "Suc (length fs)"] by (simp add: romfs_opendir_r_def)

theorem romfs_list_directory_witness:
  "romfs_listing (Suc (Suc 0)) tiny_romfs (snd (romfs_opendir_r (Some [slash]) 0))
     = Some [\<lparr>dent_fsize = 2, dent_fname = [0x61], dent_ftime = 0, dent_flags = 0\<rparr>]"
  using romfs_list_directory [OF tiny_romfs_img(2,1), of 0] by (simp add: dirent_of_def del: romfs_listing.simps)

section \<open>Positions of open files\<close>

text \<open>The table has its size, and no descriptor's position is behind the end of its file.\<close>

definition fd_bounds :: "romfs_state \<Rightarrow> bool" where
  "fd_bounds R \<longleftrightarrow> length (fd_table R) = TOTAL_MAX_FDS \<and> (\<forall>f \<in> set (fd_table R). fd_offset f \<le> fd_size f)"

text \<open>The read function returns at most as many bytes as it was asked for.\<close>

definition readf_bounded :: "FSDATA \<Rightarrow> bool" where
  "readf_bounded p \<longleftrightarrow> (\<forall>a n m. length (readf p a n m) \<le> unat n)"

lemma fd_bounds_update:
  "fd_bounds R \<Longrightarrow> fd_offset f \<le> fd_size f \<Longrightarrow> fd_bounds (R\<lparr>fd_table := (fd_table R)[fd := f], romfs_num_fd := n\<rparr>)"
  by (auto simp: fd_bounds_def dest: set_update_subset_insert [THEN subsetD])

lemma fd_bounds_update':
  "fd_bounds R \<Longrightarrow> fd_offset f \<le> fd_size f \<Longrightarrow> fd_bounds (R\<lparr>fd_table := (fd_table R)[fd := f]\<rparr>)"
  using fd_bounds_update [of R f _ fd] by (auto simp: fd_bounds_def)

lemma fd_bounds_nth: "fd_bounds R \<Longrightarrow> fd < length (fd_table R) \<Longrightarrow> fd_offset (fd_table R ! fd) \<le> fd_size (fd_table R ! fd)"
  by (simp add: fd_bounds_def)

lemma fd_bounds_install:
  "romfs_install \<lparr>fd_baseaddr = b, fd_offset = 0, fd_size = n, fd_flags = fl\<rparr> R = Some (i, R') \<Longrightarrow> fd_bounds R \<Longrightarrow> fd_bounds R'"
  by (auto simp: romfs_install_def intro!: fd_bounds_update split: bind_split_asm)

lemma fd_bounds_open:
  "romfs_open_r k path flags R p = Some (r, R', p') \<Longrightarrow> fd_bounds R \<Longrightarrow> fd_bounds R'"
  by (auto simp: romfs_open_r_def Let_def dest: fd_bounds_install
      split: bind_split_asm if_split_asm sum.split_asm open_result.split_asm)

lemma fd_bounds_close: "romfs_close_r fd R p = Some (R', p') \<Longrightarrow> fd_bounds R \<Longrightarrow> fd_bounds R'"
  by (auto simp: romfs_close_r_def romfs_close_fd_def Let_def empty_fd_def intro!: fd_bounds_update split: if_split_asm)

lemma fd_bounds_lseek: "romfs_lseek_r k fd off whence R = Some (r, R') \<Longrightarrow> fd_bounds R \<Longrightarrow> fd_bounds R'"
  by (auto simp: romfs_lseek_r_def Let_def not_less intro!: fd_bounds_update' split: if_split_asm option.split_asm)

lemma word_add_le_size:
  fixes off sz :: u32
  assumes "off \<le> sz" "k \<le> unat (sz - off)"
  shows "off + word_of_nat k \<le> sz"
proof -
  have k: "k \<le> unat sz - unat off" "unat off \<le> unat sz"
    using assms by (auto simp: unat_sub word_le_nat_alt)
  then have "k < 2 ^ 32"
    using unsigned_less [of sz, where ?'a = nat] by simp
  then have u: "unat (word_of_nat k :: u32) = k"
    by (intro unat_of_nat_less) simp
  moreover have "unat off + k < 2 ^ 32"
    using k unsigned_less [of sz, where ?'a = nat] by simp
  ultimately have "unat (off + word_of_nat k) = unat off + k"
    by (subst unat_add_le) simp_all
  with k show ?thesis
    by (simp add: word_le_nat_alt)
qed

lemma fd_bounds_read:
  assumes "romfs_read_r fd n R p = Some (r, R')" "fd_bounds R" "readf_bounded p"
  shows "fd_bounds R'"
proof (cases "fd < length (fd_table R)")
  case False
  with assms show ?thesis by (simp add: romfs_read_r_def)
next
  case True
  let ?f = "fd_table R ! fd"
  let ?act = "min (word_of_nat n) (fd_size ?f - fd_offset ?f)"
  have le: "unat ?act \<le> unat (fd_size ?f - fd_offset ?f)"
    using min.cobounded2 [of "word_of_nat n" "fd_size ?f - fd_offset ?f"] by (simp only: word_le_nat_alt)
  have "fd_offset ?f + ?act \<le> fd_size ?f"
    using word_add_le_size [OF fd_bounds_nth [OF assms(2) True] le] by simp
  moreover have "length (readf p a ?act m) \<le> unat ?act" for a m
    using assms(3) by (simp add: readf_bounded_def)
  with le have "length (if fs_flags p AND ROMFS_FS_FLAG_DIRECT \<noteq> 0
        then rd_bytes (medium p) (unat (fd_offset ?f) + unat (fd_baseaddr ?f)) (unat ?act)
        else readf p (fd_offset ?f + fd_baseaddr ?f) ?act (medium p)) \<le> unat (fd_size ?f - fd_offset ?f)"
    by (auto intro: le_trans)
  ultimately show ?thesis
    using assms(1,2) True fd_bounds_nth [OF assms(2) True]
    by (auto simp: romfs_read_r_def Let_def intro!: fd_bounds_update' word_add_le_size split: if_split_asm)
qed

lemma fd_bounds_write:
  assumes "romfs_write_r fd bs R p = Some (r, R', p')" "fd_bounds R"
  shows "fd_bounds R'"
  using assms fd_bounds_nth [OF assms(2), of fd]
  by (auto simp: romfs_write_r_def Let_def intro!: fd_bounds_update' split: if_split_asm)

lemma romfs_open_r_readf: "romfs_open_r k path flags R p = Some (r, R', p') \<Longrightarrow> readf p' = readf p"
  by (auto simp: romfs_open_r_def romfs_create_def romfs_fs_set_flag_def Let_def
      split: bind_split_asm if_split_asm sum.split_asm open_result.split_asm)

lemma romfs_close_r_readf: "romfs_close_r fd R p = Some (R', p') \<Longrightarrow> readf p' = readf p"
  by (auto simp: romfs_close_r_def romfs_fs_clear_flag_def Let_def split: if_split_asm)

lemma romfs_write_r_readf: "romfs_write_r fd bs R p = Some (r, R', p') \<Longrightarrow> readf p' = readf p"
  by (auto simp: romfs_write_r_def romfs_fs_clear_flag_def Let_def split: if_split_asm)

end
