(* ===== verification/Wofs.thy ===== *)
theory Wofs
  imports Romfs
begin

text \<open>
  Writing to the write-once file system (the writing half of \<open>src/src/romfs.c\<close>): a new file is placed
  at the end marker of the image, its data follow, and its size is stored when it is closed; a file
  that is replaced is marked as deleted. The storage is flash memory: the interface \<open>wofs_storage\<close>
  asks only that bytes written to an erased range are stored there. The theory shows that writing and
  closing a file extends the image by that file and keeps the others, that the file reads back as it
  was written, and what happens when space runs out.
\<close>

section \<open>Storage\<close>

text \<open>What the file system relies on when it writes: bytes written to an erased range are stored.\<close>

locale wofs_storage =
  fixes wf :: "u8 list \<Rightarrow> u32 \<Rightarrow> mem \<Rightarrow> mem" and lim :: nat
  assumes write_erased: "unat a + length bs \<le> lim \<Longrightarrow> erased m (unat a) (length bs) \<Longrightarrow>
    wf bs a m = wr_bytes m (unat a) bs"
begin

lemma write_at: "a < 2 ^ 32 \<Longrightarrow> a + length bs \<le> lim \<Longrightarrow> erased m a (length bs) \<Longrightarrow>
    wf bs (word_of_nat a) m = wr_bytes m a bs"
  using write_erased [of "word_of_nat a" bs m] by (simp add: unat_of_nat_less)

end

lemma flash_at_nth: "flash_at low pbase m (unat pbase + x) = m x"
  by (simp add: flash_at_def)

lemma sim_wofs_write_stores:
  assumes "nor_flash sw k" "unat pbase + lim + 2 ^ k < 2 ^ 32"
  shows "wofs_storage (sim_wofs_write (Some (2 ^ k)) sw low pbase) lim"
proof
  fix a :: u32 and bs :: "u8 list" and m
  assume a: "unat a + length bs \<le> lim" and e: "erased m (unat a) (length bs)"
  have sum: "unat (a + pbase) = unat a + unat pbase"
    using a assms(2) by (intro unat_add_le) simp
  have "nor_write (flash_at low pbase m) (unat a + unat pbase) bs = wr_bytes (flash_at low pbase m) (unat a + unat pbase) bs"
    using e by (intro nor_write_erased) (simp add: erased_def flash_at_def add.commute add.left_commute)
  then have "snd (platform_flash_write (Some (2 ^ k)) sw bs (a + pbase) (flash_at low pbase m))
      = wr_bytes (flash_at low pbase m) (unat a + unat pbase) bs"
    using nor_flash.write_clears [OF assms(1), of "a + pbase" bs "flash_at low pbase m"] a assms(2) by (simp add: sum)
  then show "sim_wofs_write (Some (2 ^ k)) sw low pbase bs a m = wr_bytes m (unat a) bs"
    by (auto simp: sim_wofs_write_def wr_bytes_def flash_at_def intro!: ext)
qed

text \<open>The file system in the flash of an LM3S board, behind an image of 128 kilobytes.\<close>

interpretation lm3s_wofs: wofs_storage "sim_wofs_write (Some 4) (FlashProgram nor_word) low 0x20000" "0x20000" for low
  using sim_wofs_write_stores [OF lm3s.nor_flash_axioms, of "0x20000" "0x20000" low] by simp

section \<open>Images and writes\<close>

lemma erased_iff: "erased m a n \<longleftrightarrow> rd_bytes m a n = replicate n 0xFF"
  by (auto simp: erased_def list_eq_iff_nth_eq)

lemma fs_entry_cong:
  assumes "fs_entry w m a f" "\<And>x. a \<le> x \<Longrightarrow> x < data_pos w a f + length (f_data f) \<Longrightarrow> m' x = m x"
  shows "fs_entry w m' a f"
proof -
  note le = data_pos_gt(1) [of a f] data_pos_gt(2) [of a f w]
  have d: "data_pos w a f - 4 + 4 = data_pos w a f" "hdr_pos a f \<le> data_pos w a f - 4"
    "w \<Longrightarrow> hdr_pos a f + 4 \<le> data_pos w a f"
    by (auto simp: data_pos_def)
  have "rd_bytes m' a (length (f_name f) + 1) = rd_bytes m a (length (f_name f) + 1)"
    using le by (intro rd_bytes_eqI assms(2)) auto
  moreover have "w \<Longrightarrow> rd_bytes m' (hdr_pos a f) 4 = rd_bytes m (hdr_pos a f) 4"
    using le d by (intro rd_bytes_eqI assms(2)) auto
  moreover have "rd_bytes m' (data_pos w a f - 4) 4 = rd_bytes m (data_pos w a f - 4) 4"
    using le d by (intro rd_bytes_eqI assms(2)) auto
  moreover have "rd_bytes m' (data_pos w a f) (length (f_data f)) = rd_bytes m (data_pos w a f) (length (f_data f))"
    using le by (intro rd_bytes_eqI assms(2)) auto
  ultimately show ?thesis
    using assms(1) unfolding fs_entry_def by (auto split: if_split_asm)
qed

lemma entry_end: "a < next_pos w a f"
  using data_pos_gt(1) [of a f] data_pos_gt(2) [of a f w] next_pos_gt [of w a f] by linarith

lemma fs_img_cong:
  "fs_img w m a fs e \<Longrightarrow> (\<And>x. a \<le> x \<Longrightarrow> x \<le> e \<Longrightarrow> m' x = m x) \<Longrightarrow> fs_img w m' a fs e"
proof (induction fs arbitrary: a)
  case Nil
  then show ?case by auto
next
  case (Cons f fs)
  have le: "a < next_pos w a f" "data_pos w a f + length (f_data f) \<le> next_pos w a f" "next_pos w a f \<le> e"
    using Cons.prems(1) entry_end [of a w f] next_pos_gt [of w a f] fs_img_le by auto
  have eq: "m' x = m x" if "a \<le> x" "x \<le> e" for x
    using Cons.prems(2) that by blast
  have img: "fs_entry w m a f" "fs_img w m (next_pos w a f) fs e"
    using Cons.prems(1) by auto
  have "fs_entry w m' a f"
    by (rule fs_entry_cong [OF img(1)], rule eq) (use le in linarith)+
  moreover have "fs_img w m' (next_pos w a f) fs e"
    by (rule Cons.IH [OF img(2)], rule eq) (use le in linarith)+
  ultimately show ?case by simp
qed

lemma fs_img_append:
  "fs_img w m a fs e \<Longrightarrow> (\<And>x. a \<le> x \<Longrightarrow> x < e \<Longrightarrow> m' x = m x) \<Longrightarrow> fs_entry w m' e f \<Longrightarrow>
   m' (next_pos w e f) = WOFS_END_MARKER_CHAR \<Longrightarrow> fs_img w m' a (fs @ [f]) (next_pos w e f)"
proof (induction fs arbitrary: a)
  case Nil
  then show ?case by auto
next
  case (Cons g fs)
  have le: "a < next_pos w a g" "data_pos w a g + length (f_data g) \<le> next_pos w a g" "next_pos w a g \<le> e"
    using Cons.prems(1) entry_end [of a w g] next_pos_gt [of w a g] fs_img_le by auto
  have eq: "m' x = m x" if "a \<le> x" "x < e" for x
    using Cons.prems(2) that by blast
  have img: "fs_entry w m a g" "fs_img w m (next_pos w a g) fs e"
    using Cons.prems(1) by auto
  have "fs_entry w m' a g"
    by (rule fs_entry_cong [OF img(1)], rule eq) (use le in linarith)+
  moreover have "fs_img w m' (next_pos w a g) (fs @ [f]) (next_pos w e f)"
    by (rule Cons.IH [OF img(2) _ Cons.prems(3,4)], rule eq) (use le in linarith)+
  ultimately show ?case by simp
qed

lemma fs_img_aligned: "fs_img True m a fs e \<Longrightarrow> 4 dvd a \<Longrightarrow> 4 dvd e"
  by (induction fs arbitrary: a) (auto simp: next_pos_def Let_def align4_dvd)

text \<open>Marking the first live file of a name as deleted.\<close>

fun mark_deleted :: "u8 list \<Rightarrow> rom_file list \<Rightarrow> rom_file list" where
  "mark_deleted nm [] = []"
| "mark_deleted nm (f # fs) = (if name_matches nm f then f\<lparr>f_deleted := True\<rparr> # fs else f # mark_deleted nm fs)"

lemma mark_deleted_id: "find (name_matches nm) fs = None \<Longrightarrow> mark_deleted nm fs = fs"
  by (induction fs) (auto split: if_split_asm)

lemma deleted_entry:
  assumes "fs_entry True m a f" "\<not> f_deleted f"
  shows "erased m (hdr_pos a f) 4"
    and "fs_entry True (wr_bytes m (hdr_pos a f) (del_field True)) a (f\<lparr>f_deleted := True\<rparr>)"
proof -
  let ?g = "f\<lparr>f_deleted := True\<rparr>" and ?m = "wr_bytes m (hdr_pos a f) (del_field True)"
  have g: "hdr_pos a ?g = hdr_pos a f" "data_pos True a ?g = data_pos True a f"
    by (simp_all add: hdr_pos_def data_pos_def)
  have "rd_bytes m (hdr_pos a f) 4 = del_field False"
    using assms by (simp add: fs_entry_def)
  then show "erased m (hdr_pos a f) 4"
    by (simp add: erased_iff del_field_def numeral_eq_Suc)
  have len: "length (del_field True) = 4"
    by (simp add: del_field_def)
  note le = data_pos_gt(1) [of a f]
  have "data_pos True a f = hdr_pos a f + 8"
    by (simp add: data_pos_def)
  then show "fs_entry True ?m a ?g"
    using assms le len unfolding fs_entry_def g by (simp add: mem_simps)
qed

lemma img_mark:
  "fs_img True m a fs e \<Longrightarrow> find (name_matches nm) fs = Some f \<Longrightarrow>
   \<exists>p sz na. img_lookup True nm a fs = FS_FILE_OK (word_of_nat (hdr_pos p f + 8)) sz na \<and> a \<le> p \<and>
     hdr_pos p f + 8 \<le> e \<and> erased m (hdr_pos p f) 4 \<and>
     fs_img True (wr_bytes m (hdr_pos p f) (del_field True)) a (mark_deleted nm fs) e"
proof (induction fs arbitrary: a)
  case Nil
  then show ?case by simp
next
  case (Cons g fs)
  have img: "fs_entry True m a g" "fs_img True m (next_pos True a g) fs e"
    using Cons.prems(1) by auto
  note le = next_pos_gt [of True a g] fs_img_le [OF img(2)] data_pos_gt(1) [of a g]
  have dp: "data_pos True a g = hdr_pos a g + 8"
    by (simp add: data_pos_def)
  have len: "length (del_field True) = 4"
    by (simp add: del_field_def)
  show ?case
  proof (cases "name_matches nm g")
    case True
    then have f: "f = g" "\<not> f_deleted g"
      using Cons.prems(2) by (auto simp: name_matches_def)
    let ?m = "wr_bytes m (hdr_pos a g) (del_field True)"
    have "fs_img True ?m (next_pos True a g) fs e"
      using img(2) by (rule fs_img_cong) (use le dp len in \<open>simp add: mem_simps\<close>)
    moreover have "next_pos True a (g\<lparr>f_deleted := True\<rparr>) = next_pos True a g"
      by (simp add: next_pos_def data_pos_def hdr_pos_def)
    ultimately show ?thesis
      using True f deleted_entry [OF img(1)] le dp by (intro exI [of _ a]) (simp add: data_pos_def)
  next
    case False
    with Cons.IH [OF img(2)] Cons.prems(2) obtain p sz na where
      p: "img_lookup True nm (next_pos True a g) fs = FS_FILE_OK (word_of_nat (hdr_pos p f + 8)) sz na"
        "next_pos True a g \<le> p" "hdr_pos p f + 8 \<le> e" "erased m (hdr_pos p f) 4"
        "fs_img True (wr_bytes m (hdr_pos p f) (del_field True)) (next_pos True a g) (mark_deleted nm fs) e"
      by auto
    have "fs_entry True (wr_bytes m (hdr_pos p f) (del_field True)) a g"
      using img(1) by (rule fs_entry_cong) (use le p(2) data_pos_gt(1) [of p f] in \<open>simp add: mem_simps\<close>)
    with p False le dp show ?thesis
      by (intro exI [of _ p] exI [of _ sz] exI [of _ na]) auto
  qed
qed

section \<open>The state of a write-once file system\<close>

definition live_names :: "rom_file list \<Rightarrow> u8 list list" where
  "live_names fs = map (\<lambda>f. map tolower (f_name f)) (filter (\<lambda>f. \<not> f_deleted f) fs)"

text \<open>The image ends before the last word of the storage, the rest is erased, and no two live files
  have the same name. The name that the code uses to find the end is not in use.\<close>

definition wofs_ok :: "FSDATA \<Rightarrow> rom_file list \<Rightarrow> nat \<Rightarrow> bool" where
  "wofs_ok pfs fs e \<longleftrightarrow> romfsh_is_wofs pfs \<and> fs_reads pfs (unat (max_size pfs)) \<and>
     wofs_storage (writef pfs) (unat (max_size pfs)) \<and> fs_img True (medium pfs) 0 fs e \<and>
     erased (medium pfs) e (unat (max_size pfs) - e) \<and> e + 4 \<le> unat (max_size pfs) \<and>
     4 dvd unat (max_size pfs) \<and> unat (max_size pfs) < 2 ^ 31 \<and>
     distinct (live_names fs) \<and> find (name_matches [1]) fs = None"

lemma name_matches_iff:
  "length nm \<le> DM_MAX_FNAME_LENGTH \<Longrightarrow> length (f_name f) \<le> DM_MAX_FNAME_LENGTH \<Longrightarrow>
   name_matches nm f \<longleftrightarrow> map tolower nm = map tolower (f_name f) \<and> \<not> f_deleted f"
  by (simp add: name_matches_def strncaseeq_def)

lemma fs_img_names: "fs_img w m a fs e \<Longrightarrow> f \<in> set fs \<Longrightarrow> name_ok (f_name f)"
  by (induction fs arbitrary: a) (auto simp: fs_entry_def)

lemma live_names_mark:
  "set (live_names (mark_deleted nm fs)) \<subseteq> set (live_names fs)"
  "distinct (live_names fs) \<Longrightarrow> distinct (live_names (mark_deleted nm fs))"
  by (induction fs) (auto simp: live_names_def)

lemma find_mark_None: "find (name_matches nm) fs = None \<Longrightarrow> find (name_matches nm) (mark_deleted nm' fs) = None"
  by (induction fs) (auto simp: name_matches_def split: if_split_asm)

lemma names_after_mark:
  assumes "name_ok nm" "distinct (live_names fs)" "\<And>f. f \<in> set fs \<Longrightarrow> name_ok (f_name f)"
  shows "map tolower nm \<notin> set (live_names (mark_deleted nm fs))"
  using assms(2,3)
proof (induction fs)
  case Nil
  then show ?case by (simp add: live_names_def)
next
  case (Cons f fs)
  have len: "length nm \<le> DM_MAX_FNAME_LENGTH" "length (f_name f) \<le> DM_MAX_FNAME_LENGTH"
    using assms(1) Cons.prems(2) [of f] by (auto simp: name_ok_def)
  have live: "live_names (g # gs) = (if f_deleted g then live_names gs else map tolower (f_name g) # live_names gs)" for g gs
    by (simp add: live_names_def)
  show ?case
  proof (cases "name_matches nm f")
    case True
    then have "map tolower nm = map tolower (f_name f)" "\<not> f_deleted f"
      using name_matches_iff [OF len] by auto
    with True Cons.prems(1) show ?thesis
      by (simp add: live)
  next
    case False
    have "map tolower nm \<notin> set (live_names (mark_deleted nm fs))"
      using Cons.prems by (intro Cons.IH) (auto simp: live split: if_split_asm)
    with False show ?thesis
      using name_matches_iff [OF len] by (auto simp: live)
  qed
qed

lemma find_live:
  assumes "length nm \<le> DM_MAX_FNAME_LENGTH" "\<And>f. f \<in> set fs \<Longrightarrow> name_ok (f_name f)"
  shows "find (name_matches nm) fs = None \<longleftrightarrow> map tolower nm \<notin> set (live_names fs)"
proof -
  have "name_matches nm f \<longleftrightarrow> map tolower nm = map tolower (f_name f) \<and> \<not> f_deleted f" if "f \<in> set fs" for f
    using assms that by (intro name_matches_iff) (auto simp: name_ok_def)
  then show ?thesis
    by (auto simp: find_None_iff live_names_def)
qed

section \<open>Creating a file\<close>

lemma erased_sub: "erased m a n \<Longrightarrow> a \<le> b \<Longrightarrow> b + k \<le> a + n \<Longrightarrow> erased m b k"
  by (auto simp: erased_def) (metis add.assoc add_less_cancel_left le_Suc_ex less_le_trans nat_add_left_cancel_less)

lemma erased_wr_other: "erased m a n \<Longrightarrow> b + length bs \<le> a \<or> a + n \<le> b \<Longrightarrow> erased (wr_bytes m b bs) a n"
  by (auto simp: erased_def mem_simps)

text \<open>The storage after the old version of the file, if there is one, has been marked as deleted.\<close>

lemma wofs_delete:
  assumes "wofs_ok pfs fs e"
  obtains m1 where
    "(case img_lookup True path 0 fs of FS_FILE_NOT_FOUND _ \<Rightarrow> pfs
      | FS_FILE_OK base _ _ \<Rightarrow> pfs\<lparr>medium := writef pfs [WOFS_FILE_DELETED, 0xFF, 0xFF, 0xFF]
          (base - ROMFS_SIZE_LEN - WOFS_DEL_FIELD_SIZE) (medium pfs)\<rparr>) = pfs\<lparr>medium := m1\<rparr>"
    "wofs_ok (pfs\<lparr>medium := m1\<rparr>) (mark_deleted path fs) e"
proof (cases "find (name_matches path) fs")
  case None
  have "img_lookup True path 0 fs = FS_FILE_NOT_FOUND (word_of_nat e)"
    using img_lookup_None [OF _ None] assms by (auto simp: wofs_ok_def)
  with assms None show ?thesis
    by (intro that [of "medium pfs"]) (simp_all add: mark_deleted_id)
next
  case (Some f)
  note ok = assms [unfolded wofs_ok_def]
  let ?d = "[WOFS_FILE_DELETED, 0xFF, 0xFF, 0xFF]"
  have d: "del_field True = ?d" "length ?d = 4"
    by (simp_all add: del_field_def)
  obtain p sz na where p: "img_lookup True path 0 fs = FS_FILE_OK (word_of_nat (hdr_pos p f + 8)) sz na"
      "hdr_pos p f + 8 \<le> e" "erased (medium pfs) (hdr_pos p f) 4"
      "fs_img True (wr_bytes (medium pfs) (hdr_pos p f) ?d) 0 (mark_deleted path fs) e"
    using img_mark [of "medium pfs" 0 fs e path f] ok Some d by auto
  have addr: "word_of_nat (hdr_pos p f) + 8 - ROMFS_SIZE_LEN - WOFS_DEL_FIELD_SIZE = (word_of_nat (hdr_pos p f) :: u32)"
    by (simp add: romfs_consts)
  have wr: "writef pfs ?d (word_of_nat (hdr_pos p f)) (medium pfs) = wr_bytes (medium pfs) (hdr_pos p f) ?d"
  proof (rule wofs_storage.write_at [where lim = "unat (max_size pfs)"])
    show "erased (medium pfs) (hdr_pos p f) (length ?d)"
      using p(3) by (simp only: d(2))
  qed (use ok p(2) in auto)
  let ?m = "wr_bytes (medium pfs) (hdr_pos p f) ?d"
  have "erased ?m e (unat (max_size pfs) - e)"
    using ok p(2) d by (intro erased_wr_other) auto
  then have "wofs_ok (pfs\<lparr>medium := ?m\<rparr>) (mark_deleted path fs) e"
    using ok p(4) by (auto simp: wofs_ok_def romfsh_is_wofs_def fs_reads_def live_names_mark(2) find_mark_None)
  with p(1) show ?thesis
    by (intro that [of ?m]) (simp_all add: addr wr)
qed

text \<open>Where the data of a new file start when the image ends at \<open>e\<close>.\<close>

definition new_base :: "nat \<Rightarrow> u8 list \<Rightarrow> nat" where
  "new_base e path = align4 (e + length path + 1) + 8"

lemma new_base_bounds: "e + length path + 9 \<le> new_base e path" "new_base e path \<le> e + length path + 12"
  using align4_ge [of "e + length path + 1"] align4_le [of "e + length path + 1"] by (auto simp: new_base_def)

definition wofs_fits :: "FSDATA \<Rightarrow> nat \<Rightarrow> u8 list \<Rightarrow> bool" where
  "wofs_fits pfs e path \<longleftrightarrow> e + length path + 15 \<le> unat (max_size pfs)"

lemma space_check:
  assumes "e \<le> unat mx" "unat mx < 2 ^ 31" "length path \<le> DM_MAX_FNAME_LENGTH"
  shows "mx - word_of_nat e + 1 < word_of_nat (length path) + 1 + WOFS_MIN_NEEDED_SIZE + WOFS_DEL_FIELD_SIZE
    \<longleftrightarrow> \<not> e + length path + 15 \<le> unat (mx :: u32)"
proof -
  have e: "unat (word_of_nat e :: u32) = e"
    using assms by (intro unat_of_nat_less) simp
  have "unat (mx - word_of_nat e) = unat mx - e"
    using assms e by (simp add: unat_sub word_le_nat_alt)
  then have l: "unat (mx - word_of_nat e + 1) = unat mx - e + 1"
    using assms(2) by (subst unat_add_le) simp_all
  have "word_of_nat (length path) + 1 + WOFS_MIN_NEEDED_SIZE + WOFS_DEL_FIELD_SIZE = (word_of_nat (length path + 16) :: u32)"
    by (simp add: romfs_consts)
  moreover have "unat (word_of_nat (length path + 16) :: u32) = length path + 16"
    using assms(3) by (intro unat_of_nat_less) (simp add: DM_MAX_FNAME_LENGTH_def)
  ultimately show ?thesis
    using assms(1) by (simp only: word_less_nat_alt l) linarith
qed

lemma romfs_create_eq:
  assumes ok: "wofs_ok pfs fs e" and path: "name_ok path"
  obtains m1 where "wofs_ok (pfs\<lparr>medium := m1\<rparr>) (mark_deleted path fs) e"
    "romfs_create path (img_lookup True path 0 fs) pfs =
      (if wofs_fits pfs e path
       then Some (Inr (word_of_nat (new_base e path)),
         romfs_fs_set_flag (pfs\<lparr>medium := wr_bytes m1 e (path @ [0])\<rparr>) ROMFS_FS_FLAG_WRITING)
       else Some (Inl ENOSPC, pfs\<lparr>medium := m1\<rparr>))"
proof -
  obtain m1 where m1: "(case img_lookup True path 0 fs of FS_FILE_NOT_FOUND _ \<Rightarrow> pfs
      | FS_FILE_OK base _ _ \<Rightarrow> pfs\<lparr>medium := writef pfs [WOFS_FILE_DELETED, 0xFF, 0xFF, 0xFF]
          (base - ROMFS_SIZE_LEN - WOFS_DEL_FIELD_SIZE) (medium pfs)\<rparr>) = pfs\<lparr>medium := m1\<rparr>"
    and ok1: "wofs_ok (pfs\<lparr>medium := m1\<rparr>) (mark_deleted path fs) e"
    by (rule wofs_delete [OF ok])
  note o1 = ok1 [unfolded wofs_ok_def]
  have "romfs_open_file (pfs\<lparr>medium := m1\<rparr>) [1] (word_of_nat 0) = Some (img_lookup True [1] 0 (mark_deleted path fs))"
    using o1 by (intro romfs_open_file_eq [where lim = "unat (max_size pfs)" and e = e]) auto
  then have look: "romfs_open_file (pfs\<lparr>medium := m1\<rparr>) [1] 0 = Some (FS_FILE_NOT_FOUND (word_of_nat e))"
    using o1 img_lookup_None [of True m1 0 "mark_deleted path fs" e "[1]"] by simp
  have len: "length path \<le> DM_MAX_FNAME_LENGTH"
    using path by (simp add: name_ok_def)
  have sp: "max_size pfs - word_of_nat e + 1 < word_of_nat (length path) + 1 + WOFS_MIN_NEEDED_SIZE + WOFS_DEL_FIELD_SIZE
      \<longleftrightarrow> \<not> wofs_fits pfs e path"
    using o1 len unfolding wofs_fits_def by (intro space_check) auto
  have "romfs_create path (img_lookup True path 0 fs) pfs =
      (if wofs_fits pfs e path
       then Some (Inr (romfs_align (word_of_nat e + (word_of_nat (length path) + 1)) + (ROMFS_SIZE_LEN + WOFS_DEL_FIELD_SIZE)),
         romfs_fs_set_flag (pfs\<lparr>medium := writef pfs (path @ [0]) (word_of_nat e) m1\<rparr>) ROMFS_FS_FLAG_WRITING)
       else Some (Inl ENOSPC, pfs\<lparr>medium := m1\<rparr>))"
    unfolding romfs_create_def m1 by (simp add: look sp Let_def)
  moreover have "writef pfs (path @ [0]) (word_of_nat e) m1 = wr_bytes m1 e (path @ [0])" if "wofs_fits pfs e path"
    using that o1 by (intro wofs_storage.write_at) (auto simp: wofs_fits_def erased_def)
  moreover have "romfs_align (word_of_nat e + (word_of_nat (length path) + 1)) + (ROMFS_SIZE_LEN + WOFS_DEL_FIELD_SIZE)
      = word_of_nat (new_base e path)"
    using romfs_align_eq [of "e + length path + 1"] o1 len
    by (simp add: new_base_def romfs_consts add.commute add.left_commute DM_MAX_FNAME_LENGTH_def)
  ultimately show ?thesis
    by (intro that [OF ok1]) simp
qed

section \<open>Writing and closing\<close>

text \<open>A file \<open>path\<close> is being written after the image of \<open>fs\<close>, which \<open>m1\<close> holds; \<open>d\<close> has been written so
  far.\<close>

definition wofs_writing :: "FSDATA \<Rightarrow> FD \<Rightarrow> mem \<Rightarrow> rom_file list \<Rightarrow> nat \<Rightarrow> u8 list \<Rightarrow> u8 list \<Rightarrow> bool" where
  "wofs_writing pfs f m1 fs e path d \<longleftrightarrow>
     wofs_ok (pfs\<lparr>medium := m1\<rparr>) fs e \<and> name_ok path \<and> path \<noteq> [1] \<and> map tolower path \<notin> set (live_names fs) \<and>
     medium pfs = wr_bytes (wr_bytes m1 e (path @ [0])) (new_base e path) d \<and>
     fd_baseaddr f = word_of_nat (new_base e path) \<and> fd_size f = word_of_nat (length d) \<and>
     fd_offset f = word_of_nat (length d) \<and> romfs_writing f \<and>
     new_base e path + length d + 4 \<le> unat (max_size pfs)"

text \<open>The room that is left for data: the last word stays free.\<close>

definition wofs_room :: "FSDATA \<Rightarrow> nat \<Rightarrow> u8 list \<Rightarrow> u8 list \<Rightarrow> nat" where
  "wofs_room pfs e path d = unat (max_size pfs) - 4 - (new_base e path + length d)"

lemma wofs_write_len:
  fixes base d n :: nat and mx :: u32
  assumes "base + d + 4 \<le> unat mx" "unat mx < 2 ^ 31" "n < 2 ^ 31"
  shows "unat (if word_of_nat base + word_of_nat d + word_of_nat n > mx - ROMFS_ALIGN
     then mx - (word_of_nat base + word_of_nat d) - ROMFS_ALIGN else word_of_nat n) = min n (unat mx - 4 - (base + d))"
proof -
  have u: "unat (word_of_nat (base + d + n) :: u32) = base + d + n" "unat (word_of_nat (base + d) :: u32) = base + d"
    "unat (word_of_nat n :: u32) = n"
    by (rule unat_of_nat_less, use assms in simp)+
  have a: "unat (mx - ROMFS_ALIGN) = unat mx - 4"
    using assms by (simp add: ROMFS_ALIGN_def unat_sub word_le_nat_alt)
  have "unat (mx - word_of_nat (base + d)) = unat mx - (base + d)"
    using assms u(2) by (simp only: unat_sub word_le_nat_alt)
  then have "unat (mx - word_of_nat (base + d) - ROMFS_ALIGN) = unat mx - (base + d) - 4"
    using assms by (subst unat_sub) (simp_all add: ROMFS_ALIGN_def word_le_nat_alt)
  then have b: "unat (mx - (word_of_nat base + word_of_nat d) - ROMFS_ALIGN) = unat mx - (base + d) - 4"
    by simp
  have c: "word_of_nat base + word_of_nat d + word_of_nat n > mx - ROMFS_ALIGN \<longleftrightarrow> unat mx - 4 < base + d + n"
    using u(1) a by (simp add: word_less_nat_alt add.assoc)
  show ?thesis
  proof (cases "unat mx - 4 < base + d + n")
    case True
    then have "min n (unat mx - 4 - (base + d)) = unat mx - (base + d) - 4"
      using assms(1) by linarith
    with True b c show ?thesis
      by (simp only: if_True)
  next
    case False
    then have "min n (unat mx - 4 - (base + d)) = n"
      using assms(1) by linarith
    with False u(3) c show ?thesis
      by (simp only: if_False)
  qed
qed

lemma romfs_write_r_eq:
  assumes fd: "fd < length (fd_table R)" and w: "wofs_writing pfs (fd_table R ! fd) m1 fs e path d"
    and bs: "length bs < 2 ^ 31"
  defines "d' \<equiv> take (wofs_room pfs e path d) bs"
  obtains f' pfs' where
    "romfs_write_r fd bs R pfs = Some (Inr (length d'), R\<lparr>fd_table := (fd_table R)[fd := f']\<rparr>, pfs')"
    "wofs_writing pfs' f' m1 fs e path (d @ d')" "max_size pfs' = max_size pfs" "fs_flags pfs' = fs_flags pfs"
proof -
  let ?f = "fd_table R ! fd" and ?b = "new_base e path"
  note wr = w [unfolded wofs_writing_def]
  note ok = wr [THEN conjunct1, unfolded wofs_ok_def]
  define len where "len = (if fd_baseaddr ?f + fd_size ?f + word_of_nat (length bs) > max_size pfs - ROMFS_ALIGN
      then max_size pfs - (fd_baseaddr ?f + fd_size ?f) - ROMFS_ALIGN else word_of_nat (length bs))"
  have fb: "fd_baseaddr ?f = word_of_nat ?b" and fz: "fd_size ?f = word_of_nat (length d)"
    and mx: "?b + length d + 4 \<le> unat (max_size pfs)" "unat (max_size pfs) < 2 ^ 31"
    using wr ok by auto
  have "unat len = min (length bs) (wofs_room pfs e path d)"
    unfolding len_def fb fz wofs_room_def by (rule wofs_write_len [OF mx bs])
  then have ul: "unat len = length d'"
    by (simp add: d'_def min.commute)
  then have tk: "take (unat len) bs = d'"
    by (auto simp: d'_def min_def)
  then have lw: "len = word_of_nat (length d')"
    using ul by (metis of_nat_unat ucast_id)
  have le: "?b + length d + length d' + 4 \<le> unat (max_size pfs)"
  proof -
    have "length d' \<le> wofs_room pfs e path d"
      by (simp add: d'_def)
    with mx(1) show ?thesis
      unfolding wofs_room_def by linarith
  qed
  have off: "fd_offset ?f + fd_baseaddr ?f = word_of_nat (?b + length d)"
    using wr by simp
  have er: "erased (medium pfs) (?b + length d) (length d')"
  proof -
    have "erased m1 (?b + length d) (length d')"
    proof (rule erased_sub)
      show "erased m1 e (unat (max_size pfs) - e)"
        using ok by simp
    qed (use le new_base_bounds(1) [of e path] in linarith)+
    then show ?thesis
      using wr new_base_bounds(1) [of e path] by (simp add: erased_wr_other)
  qed
  have wf: "writef pfs d' (word_of_nat (?b + length d)) (medium pfs) = wr_bytes (medium pfs) (?b + length d) d'"
    using ok le er by (intro wofs_storage.write_at [where lim = "unat (max_size pfs)"]) auto
  let ?f' = "?f\<lparr>fd_offset := fd_offset ?f + len, fd_size := fd_size ?f + len\<rparr>"
  let ?pfs' = "pfs\<lparr>medium := wr_bytes (medium pfs) (?b + length d) d'\<rparr>"
  have same: "(if fd_flags ?f AND ROMFS_FILE_FLAG_APPEND \<noteq> 0 then ?f\<lparr>fd_offset := fd_size ?f\<rparr> else ?f) = ?f"
    using wr by simp
  have eq: "fd_offset ?f = fd_size ?f" "romfs_writing ?f" "R\<lparr>fd_table := (fd_table R)[fd := ?f]\<rparr> = R"
    using wr by simp_all
  have "length d' \<le> length bs"
    by (simp add: d'_def)
  then have "romfs_write_r fd bs R pfs = Some (Inr (length d'), R\<lparr>fd_table := (fd_table R)[fd := ?f']\<rparr>, ?pfs')"
    unfolding romfs_write_r_def Let_def same eq(3) len_def [symmetric]
    unfolding tk off wf using fd eq(1,2) by (simp add: ul)
  moreover have "wofs_writing ?pfs' ?f' m1 fs e path (d @ d')"
    using wr le by (simp add: wofs_writing_def romfs_writing_def lw wr_bytes_append)
  ultimately show ?thesis
    by (intro that [of ?f' ?pfs']) simp_all
qed

text \<open>Successive writes to one descriptor.\<close>

fun romfs_writes :: "nat \<Rightarrow> u8 list list \<Rightarrow> romfs_state \<Rightarrow> FSDATA \<Rightarrow> (nat list \<times> romfs_state \<times> FSDATA) option" where
  "romfs_writes fd [] R pfs = Some ([], R, pfs)"
| "romfs_writes fd (bs # bss) R pfs =
     do {
       (r, R', pfs') \<leftarrow> romfs_write_r fd bs R pfs;
       case r of Inl _ \<Rightarrow> None
       | Inr n \<Rightarrow> do { (ns, R'', pfs'') \<leftarrow> romfs_writes fd bss R' pfs'; Some (n # ns, R'', pfs'') }
     }"

lemma romfs_writes_eq:
  "fd < length (fd_table R) \<Longrightarrow> wofs_writing pfs (fd_table R ! fd) m1 fs e path d \<Longrightarrow> \<forall>bs \<in> set bss. length bs < 2 ^ 31 \<Longrightarrow>
   \<exists>ns f' pfs'. romfs_writes fd bss R pfs = Some (ns, R\<lparr>fd_table := (fd_table R)[fd := f']\<rparr>, pfs') \<and>
     wofs_writing pfs' f' m1 fs e path (d @ take (wofs_room pfs e path d) (concat bss)) \<and>
     sum_list ns = length (take (wofs_room pfs e path d) (concat bss)) \<and>
     max_size pfs' = max_size pfs \<and> fs_flags pfs' = fs_flags pfs"
proof (induction bss arbitrary: R pfs d)
  case Nil
  then show ?case
    by (auto intro!: exI [of _ "fd_table R ! fd"])
next
  case (Cons bs bss)
  define d' where "d' = take (wofs_room pfs e path d) bs"
  obtain f1 pfs1 where w1: "romfs_write_r fd bs R pfs = Some (Inr (length d'), R\<lparr>fd_table := (fd_table R)[fd := f1]\<rparr>, pfs1)"
      "wofs_writing pfs1 f1 m1 fs e path (d @ d')" "max_size pfs1 = max_size pfs" "fs_flags pfs1 = fs_flags pfs"
    using romfs_write_r_eq [OF Cons.prems(1,2), of bs] Cons.prems(3) unfolding d'_def by auto
  let ?R = "R\<lparr>fd_table := (fd_table R)[fd := f1]\<rparr>"
  obtain ns f2 pfs2 where w2: "romfs_writes fd bss ?R pfs1 = Some (ns, R\<lparr>fd_table := (fd_table R)[fd := f2]\<rparr>, pfs2)"
      "wofs_writing pfs2 f2 m1 fs e path ((d @ d') @ take (wofs_room pfs1 e path (d @ d')) (concat bss))"
      "sum_list ns = length (take (wofs_room pfs1 e path (d @ d')) (concat bss))"
      "max_size pfs2 = max_size pfs" "fs_flags pfs2 = fs_flags pfs"
    using Cons.IH [of ?R pfs1 "d @ d'"] w1 Cons.prems by auto
  have "wofs_room pfs1 e path (d @ d') = wofs_room pfs e path d - length d'"
    using w1(3) by (simp add: wofs_room_def)
  moreover have "take k (concat (bs # bss)) = take k bs @ take (k - length (take k bs)) (concat bss)" for k
    by (cases "k \<le> length bs") simp_all
  ultimately have split: "take (wofs_room pfs e path d) (concat (bs # bss))
      = d' @ take (wofs_room pfs1 e path (d @ d')) (concat bss)"
    by (simp only: d'_def)
  show ?case
    using w1(1) w2 unfolding split
    by (intro exI [of _ "length d' # ns"] exI [of _ f2] exI [of _ pfs2]) simp
qed

lemma align4_le_mult: "x \<le> y \<Longrightarrow> 4 dvd y \<Longrightarrow> align4 x \<le> y"
  by (auto simp: align4_def elim!: dvdE)

text \<open>Closing completes the entry.\<close>

lemma wofs_closed_image:
  assumes w: "wofs_writing pfs f m1 fs e path d"
  defines "file \<equiv> \<lparr>f_name = path, f_data = d, f_deleted = False\<rparr>"
  defines "m' \<equiv> wr_bytes (medium pfs) (new_base e path - 4) (le32 (word_of_nat (length d)))"
  shows "fs_img True m' 0 (fs @ [file]) (next_pos True e file)"
    and "erased m' (next_pos True e file) (unat (max_size pfs) - next_pos True e file)"
    and "next_pos True e file + 4 \<le> unat (max_size pfs)"
proof -
  let ?b = "new_base e path" and ?mx = "unat (max_size pfs)"
  note wr = w [unfolded wofs_writing_def]
  note ok = wr [THEN conjunct1, unfolded wofs_ok_def]
  have h: "hdr_pos e file = ?b - 8" and b: "data_pos True e file = ?b" and nx: "next_pos True e file = align4 (?b + length d)"
    by (simp_all add: file_def hdr_pos_def data_pos_def next_pos_def new_base_def)
  have bb: "e + length path + 9 \<le> ?b" by (rule new_base_bounds)
  have mx: "?b + length d + 4 \<le> ?mx" using wr by simp
  show next4: "next_pos True e file + 4 \<le> ?mx"
  proof -
    have "4 dvd ?mx - 4" using ok by (auto intro: dvd_diff_nat)
    then show ?thesis
      using align4_le_mult [of "?b + length d" "?mx - 4"] mx unfolding nx by linarith
  qed
  have ge: "?b + length d \<le> next_pos True e file"
    unfolding nx by (rule align4_ge)
  have unt: "m' x = m1 x" if "x < e \<or> ?b + length d \<le> x \<or> ?b - 8 \<le> x \<and> x < ?b - 4" for x
    using that bb wr by (auto simp: m'_def wr_bytes_def)
  have er1: "erased m1 e (?mx - e)" using ok by simp
  show er: "erased m' (next_pos True e file) (?mx - next_pos True e file)"
  proof -
    have "erased m1 (next_pos True e file) (?mx - next_pos True e file)"
      by (rule erased_sub [OF er1]) (use ge bb next4 in linarith)+
    then show ?thesis
      using unt ge by (auto simp: erased_def)
  qed
  have ent: "fs_entry True m' e file"
  proof -
    have "rd_bytes m' e (length path + 1) = path @ [0]"
      using wr bb by (simp add: m'_def mem_simps)
    moreover have "rd_bytes m' (?b - 8) 4 = rd_bytes m1 (?b - 8) 4"
      using bb by (intro rd_bytes_eqI unt) auto
    moreover have "erased m1 (?b - 8) 4"
      by (rule erased_sub [OF er1]) (use bb mx in linarith)+
    moreover have "rd_bytes m' (?b - 4) 4 = le32 (word_of_nat (length d))"
      by (simp add: m'_def mem_simps)
    moreover have "rd_bytes m' ?b (length d) = d"
      using wr bb by (simp add: m'_def mem_simps)
    ultimately show ?thesis
      using wr unfolding fs_entry_def h b by (simp add: file_def erased_iff del_field_def numeral_eq_Suc)
  qed
  have img: "fs_img True m1 0 fs e" using ok by simp
  show "fs_img True m' 0 (fs @ [file]) (next_pos True e file)"
  proof (rule fs_img_append [OF img _ ent])
    show "m' (next_pos True e file) = WOFS_END_MARKER_CHAR"
      using er next4 by (auto simp: erased_def WOFS_END_MARKER_CHAR_def dest: spec [of _ 0])
  qed (simp add: unt)
qed

lemma and_clear: "z AND NOT y = z \<Longrightarrow> (x AND NOT y) AND z = (x :: u8) AND z"
  by (metis and.assoc and.commute)

lemma and_set: "y AND z = 0 \<Longrightarrow> (x OR y) AND z = (x :: u8) AND z"
  by (simp add: bit.conj_disj_distrib2)

lemma wofs_ok_flags:
  assumes "fl AND ROMFS_FS_FLAG_DIRECT = fs_flags pfs AND ROMFS_FS_FLAG_DIRECT"
    "fl AND ROMFS_FS_FLAG_WO = fs_flags pfs AND ROMFS_FS_FLAG_WO"
  shows "wofs_ok (pfs\<lparr>fs_flags := fl\<rparr>) fs e \<longleftrightarrow> wofs_ok pfs fs e"
  using assms by (simp add: wofs_ok_def romfsh_is_wofs_def fs_reads_def)

lemma medium_flags_commute: "p\<lparr>fs_flags := x, medium := m\<rparr> = p\<lparr>medium := m, fs_flags := x\<rparr>"
  by (cases p) simp

lemma romfs_install_num: "romfs_install f R = Some (i, R') \<Longrightarrow> romfs_num_fd R' = romfs_num_fd R + 1"
  by (auto simp: romfs_install_def split: bind_split_asm)

lemma wofs_ok_set_writing: "wofs_ok (romfs_fs_set_flag pfs ROMFS_FS_FLAG_WRITING) fs e \<longleftrightarrow> wofs_ok pfs fs e"
  unfolding romfs_fs_set_flag_def by (rule wofs_ok_flags) (rule and_set, simp add: romfs_flags)+

lemma wofs_ok_clear_writing: "wofs_ok (romfs_fs_clear_flag pfs ROMFS_FS_FLAG_WRITING) fs e \<longleftrightarrow> wofs_ok pfs fs e"
  unfolding romfs_fs_clear_flag_def by (rule wofs_ok_flags) (rule and_clear, simp add: romfs_flags)+

lemma tolower_eq_1: "tolower c = 1 \<longleftrightarrow> c = 1"
proof -
  have "tolower 1 = 1"
    by (simp add: tolower_def word_le_nat_alt)
  moreover have "tolower c = 1 \<Longrightarrow> c = 1"
  proof (cases "0x41 \<le> c \<and> c \<le> 0x5A")
    case True
    then have "unat (c + 0x20) = unat c + 0x20"
      using unat_add_lem [of c "0x20"] by (simp add: word_le_nat_alt)
    then have "unat (c + 0x20) \<noteq> unat (1 :: u8)" by simp
    then have "c + 0x20 \<noteq> 1" by metis
    with True show "tolower c = 1 \<Longrightarrow> c = 1" by (simp add: tolower_def)
  qed (simp add: tolower_def)
  ultimately show ?thesis by auto
qed

lemma path_not_end_name: "path \<noteq> [1] \<Longrightarrow> \<not> strncaseeq [1] path DM_MAX_FNAME_LENGTH"
  using tolower_eq_1 [of 1] tolower_eq_1 [of "hd path"]
  by (cases path) (auto simp: strncaseeq_def DM_MAX_FNAME_LENGTH_def)

lemma wofs_close:
  assumes fd: "fd < length (fd_table R)" and w: "wofs_writing pfs (fd_table R ! fd) m1 fs e path d"
  obtains pfs' e' where "romfs_close_r fd R pfs =
      Some (R\<lparr>fd_table := (fd_table R)[fd := empty_fd], romfs_num_fd := romfs_num_fd R - 1\<rparr>, pfs')"
    "wofs_ok pfs' (fs @ [\<lparr>f_name = path, f_data = d, f_deleted = False\<rparr>]) e'"
    "\<not> romfs_fs_is_flag_set pfs' ROMFS_FS_FLAG_WRITING" "max_size pfs' = max_size pfs"
proof -
  let ?f = "fd_table R ! fd" and ?b = "new_base e path" and ?file = "\<lparr>f_name = path, f_data = d, f_deleted = False\<rparr>"
  note wr = w [unfolded wofs_writing_def]
  note ok = wr [THEN conjunct1, unfolded wofs_ok_def]
  have bb: "e + length path + 9 \<le> ?b" by (rule new_base_bounds)
  have addr: "fd_baseaddr ?f - ROMFS_SIZE_LEN = word_of_nat (?b - 4)"
    using wr bb by (simp add: ROMFS_SIZE_LEN_def of_nat_diff)
  have er: "erased (medium pfs) (?b - 4) 4"
  proof -
    have "erased m1 (?b - 4) 4"
    proof (rule erased_sub)
      show "erased m1 e (unat (max_size pfs) - e)" using ok by simp
    qed (use wr bb in linarith)+
    then show ?thesis
      using wr bb by (simp add: erased_wr_other)
  qed
  let ?m = "wr_bytes (medium pfs) (?b - 4) (le32 (word_of_nat (length d)))"
  have wf: "writef pfs (le32 (fd_size ?f)) (word_of_nat (?b - 4)) (medium pfs) = ?m"
    using ok wr er by (subst wofs_storage.write_at [where lim = "unat (max_size pfs)"]) auto
  let ?pfs = "romfs_fs_clear_flag (pfs\<lparr>medium := ?m\<rparr>) ROMFS_FS_FLAG_WRITING"
  have "distinct (live_names (fs @ [?file]))" "find (name_matches [1]) (fs @ [?file]) = None"
    using ok wr path_not_end_name [of path]
    by (auto simp: live_names_def find_None_iff name_matches_def)
  then have "wofs_ok (pfs\<lparr>medium := ?m\<rparr>) (fs @ [?file]) (next_pos True e ?file)"
    using wofs_closed_image [OF w] ok by (simp add: wofs_ok_def romfsh_is_wofs_def fs_reads_def)
  then have "wofs_ok ?pfs (fs @ [?file]) (next_pos True e ?file)"
    by (simp only: wofs_ok_clear_writing)
  moreover have "romfs_close_r fd R pfs =
      Some (R\<lparr>fd_table := (fd_table R)[fd := empty_fd], romfs_num_fd := romfs_num_fd R - 1\<rparr>, ?pfs)"
    unfolding romfs_close_r_def romfs_close_fd_def Let_def addr wf using fd wr by simp
  moreover have "\<not> romfs_fs_is_flag_set ?pfs ROMFS_FS_FLAG_WRITING"
    by (simp add: romfs_fs_is_flag_set_def romfs_fs_clear_flag_def and.assoc)
  ultimately show ?thesis
    by (intro that [of ?pfs]) (simp_all add: romfs_fs_clear_flag_def)
qed

section \<open>Sessions\<close>

text \<open>The flags of \<open>fopen\<close> with mode \<open>w\<close>.\<close>

definition write_flags :: "os_consts \<Rightarrow> u32 \<Rightarrow> bool" where
  "write_flags k flags \<longleftrightarrow> flags AND O_WRONLY k \<noteq> 0 \<and> flags AND O_CREAT k \<noteq> 0 \<and> flags AND O_TRUNC k \<noteq> 0 \<and>
     flags AND O_EXCL k = 0"

lemma lflags_write:
  assumes "write_flags k flags"
  shows "romfs_lflags k flags AND (ROMFS_FILE_FLAG_WRITE OR ROMFS_FILE_FLAG_APPEND) \<noteq> 0"
  using assms by (auto simp: romfs_lflags_def write_flags_def romfs_flags)

lemma romfs_open_r_write:
  assumes "write_flags k flags" "romfs_num_fd R \<noteq> int TOTAL_MAX_FDS" "romfsh_is_wofs pfs"
    "\<not> romfs_fs_is_flag_set pfs ROMFS_FS_FLAG_WRITING" "romfs_open_file pfs path 0 = Some found"
  shows "romfs_open_r k path flags R pfs =
    do {
      (r, pfs') \<leftarrow> romfs_create path found pfs;
      case r of Inl e \<Rightarrow> Some (Inl e, R, pfs')
      | Inr base \<Rightarrow> do {
          (i, R') \<leftarrow> romfs_install
            \<lparr>fd_baseaddr = base, fd_offset = 0, fd_size = 0, fd_flags = romfs_lflags k flags\<rparr> R;
          Some (Inr i, R', pfs')
        }
    }"
proof -
  have "flags AND (O_WRONLY k OR O_RDWR k) \<noteq> 0"
    using assms(1) by (simp add: write_flags_def word_and_or_eq_0)
  with assms lflags_write [OF assms(1)] show ?thesis
    by (cases found) (simp_all add: romfs_open_r_def Let_def write_flags_def romfsh_is_wofs_def)
qed

lemma wofs_open:
  assumes ok: "wofs_ok pfs fs e" and inv: "romfs_inv R" "romfs_num_fd R \<noteq> int TOTAL_MAX_FDS"
    and fl: "write_flags k flags" "\<not> romfs_fs_is_flag_set pfs ROMFS_FS_FLAG_WRITING"
    and path: "name_ok path" "path \<noteq> [1]"
  obtains (nospace) pfs' where "\<not> wofs_fits pfs e path" "romfs_open_r k path flags R pfs = Some (Inl ENOSPC, R, pfs')"
      "wofs_ok pfs' (mark_deleted path fs) e"
    | (opened) fd R' pfs' m1 where "wofs_fits pfs e path" "romfs_open_r k path flags R pfs = Some (Inr fd, R', pfs')"
      "romfs_inv R'" "fd < length (fd_table R')" "\<not> fd_is_empty (fd_table R' ! fd)"
      "wofs_writing pfs' (fd_table R' ! fd) m1 (mark_deleted path fs) e path []" "max_size pfs' = max_size pfs"
      "romfs_num_fd R' = romfs_num_fd R + 1"
proof -
  note o = ok [unfolded wofs_ok_def]
  have "romfs_open_file pfs path (word_of_nat 0) = Some (img_lookup True path 0 fs)"
    using o by (intro romfs_open_file_eq [where lim = "unat (max_size pfs)" and e = e]) auto
  then have op: "romfs_open_r k path flags R pfs =
    do {
      (r, pfs') \<leftarrow> romfs_create path (img_lookup True path 0 fs) pfs;
      case r of Inl e \<Rightarrow> Some (Inl e, R, pfs')
      | Inr base \<Rightarrow> do {
          (i, R') \<leftarrow> romfs_install
            \<lparr>fd_baseaddr = base, fd_offset = 0, fd_size = 0, fd_flags = romfs_lflags k flags\<rparr> R;
          Some (Inr i, R', pfs')
        }
    }"
    using o fl inv by (intro romfs_open_r_write) auto
  obtain m1 where m1: "wofs_ok (pfs\<lparr>medium := m1\<rparr>) (mark_deleted path fs) e"
    "romfs_create path (img_lookup True path 0 fs) pfs =
      (if wofs_fits pfs e path
       then Some (Inr (word_of_nat (new_base e path)),
         romfs_fs_set_flag (pfs\<lparr>medium := wr_bytes m1 e (path @ [0])\<rparr>) ROMFS_FS_FLAG_WRITING)
       else Some (Inl ENOSPC, pfs\<lparr>medium := m1\<rparr>))"
    by (rule romfs_create_eq [OF ok path(1)])
  show ?thesis
  proof (cases "wofs_fits pfs e path")
    case False
    with m1 op show ?thesis
      by (intro nospace [of "pfs\<lparr>medium := m1\<rparr>"]) simp_all
  next
    case True
    let ?f = "\<lparr>fd_baseaddr = word_of_nat (new_base e path), fd_offset = 0, fd_size = 0, fd_flags = romfs_lflags k flags\<rparr>"
    let ?pfs = "romfs_fs_set_flag (pfs\<lparr>medium := wr_bytes m1 e (path @ [0])\<rparr>) ROMFS_FS_FLAG_WRITING"
    have "\<not> fd_is_empty ?f"
      by (simp add: fd_is_empty_def)
    then obtain i R' where i: "romfs_install ?f R = Some (i, R')" "i < TOTAL_MAX_FDS"
      "fd_table R' = (fd_table R)[i := ?f]" "romfs_inv R'"
      using romfs_install_ok [OF inv] by metis
    have fd: "i < length (fd_table R')" "fd_table R' ! i = ?f"
      using i inv(1) by (auto simp: romfs_inv_def)
    have "new_base e path \<le> unat (max_size pfs) - 3" "4 dvd new_base e path" "4 dvd unat (max_size pfs)"
      using True o new_base_bounds(2) [of e path] by (auto simp: wofs_fits_def new_base_def align4_dvd)
    moreover have "4 \<le> unat (max_size pfs)"
      using o by simp
    ultimately have room: "new_base e path + 4 \<le> unat (max_size pfs)"
      by presburger
    have "map tolower path \<notin> set (live_names (mark_deleted path fs))"
      using names_after_mark [OF path(1)] o fs_img_names by blast
    moreover have "wofs_ok (?pfs\<lparr>medium := m1\<rparr>) (mark_deleted path fs) e"
      using wofs_ok_set_writing [of "pfs\<lparr>medium := m1\<rparr>"] m1(1)
      by (simp add: romfs_fs_set_flag_def medium_flags_commute)
    ultimately have "wofs_writing ?pfs (fd_table R' ! i) m1 (mark_deleted path fs) e path []"
      using path room fd(2) lflags_write [OF fl(1)] by (simp add: wofs_writing_def romfs_writing_def romfs_fs_set_flag_def)
    with True m1 op i fd \<open>\<not> fd_is_empty ?f\<close> show ?thesis
      by (intro opened [of i R' ?pfs m1]) (simp_all add: romfs_fs_set_flag_def romfs_install_num)
  qed
qed

text \<open>A whole session: open, write the chunks, close.\<close>

definition wofs_session :: "os_consts \<Rightarrow> u8 list \<Rightarrow> u32 \<Rightarrow> u8 list list \<Rightarrow> romfs_state \<Rightarrow> FSDATA \<Rightarrow>
    (nat list \<times> romfs_state \<times> FSDATA) option" where
  "wofs_session k path flags bss R pfs =
     do {
       (r, R1, pfs1) \<leftarrow> romfs_open_r k path flags R pfs;
       case r of Inl _ \<Rightarrow> None
       | Inr fd \<Rightarrow> do {
           (ns, R2, pfs2) \<leftarrow> romfs_writes fd bss R1 pfs1;
           (R3, pfs3) \<leftarrow> romfs_close_r fd R2 pfs2;
           Some (ns, R3, pfs3)
         }
     }"

text \<open>The part of the data for which there is room.\<close>

definition wofs_stored :: "FSDATA \<Rightarrow> nat \<Rightarrow> u8 list \<Rightarrow> u8 list list \<Rightarrow> u8 list" where
  "wofs_stored pfs e path bss = take (unat (max_size pfs) - 4 - new_base e path) (concat bss)"

definition wofs_can_write :: "FSDATA \<Rightarrow> rom_file list \<Rightarrow> nat \<Rightarrow> romfs_state \<Rightarrow> os_consts \<Rightarrow> u32 \<Rightarrow> u8 list \<Rightarrow> bool" where
  "wofs_can_write pfs fs e R k flags path \<longleftrightarrow> wofs_ok pfs fs e \<and> romfs_inv R \<and> romfs_num_fd R \<noteq> int TOTAL_MAX_FDS \<and>
     write_flags k flags \<and> \<not> romfs_fs_is_flag_set pfs ROMFS_FS_FLAG_WRITING \<and> name_ok path \<and> path \<noteq> [1]"

lemma wofs_session_eq:
  assumes can: "wofs_can_write pfs fs e R k flags path" and fits: "wofs_fits pfs e path"
    and bss: "\<forall>bs \<in> set bss. length bs < 2 ^ 31"
  obtains ns R' pfs' e' where "wofs_session k path flags bss R pfs = Some (ns, R', pfs')"
    "sum_list ns = length (wofs_stored pfs e path bss)" "romfs_inv R'" "romfs_num_fd R' = romfs_num_fd R"
    "wofs_ok pfs' (mark_deleted path fs @ [\<lparr>f_name = path, f_data = wofs_stored pfs e path bss, f_deleted = False\<rparr>]) e'"
    "\<not> romfs_fs_is_flag_set pfs' ROMFS_FS_FLAG_WRITING"
proof -
  note c = can [unfolded wofs_can_write_def]
  obtain fd R1 pfs1 m1 where op: "romfs_open_r k path flags R pfs = Some (Inr fd, R1, pfs1)" "romfs_inv R1"
      "fd < length (fd_table R1)" "\<not> fd_is_empty (fd_table R1 ! fd)"
      "wofs_writing pfs1 (fd_table R1 ! fd) m1 (mark_deleted path fs) e path []" "max_size pfs1 = max_size pfs"
      and num: "romfs_num_fd R1 = romfs_num_fd R + 1"
    using wofs_open [of pfs fs e R k flags path] c fits by metis
  obtain ns f2 pfs2 where w: "romfs_writes fd bss R1 pfs1 = Some (ns, R1\<lparr>fd_table := (fd_table R1)[fd := f2]\<rparr>, pfs2)"
      "wofs_writing pfs2 f2 m1 (mark_deleted path fs) e path (wofs_stored pfs e path bss)"
      "sum_list ns = length (wofs_stored pfs e path bss)"
    using romfs_writes_eq [OF op(3,5) bss] op(6) by (auto simp: wofs_stored_def wofs_room_def)
  let ?R2 = "R1\<lparr>fd_table := (fd_table R1)[fd := f2]\<rparr>"
  let ?R3 = "?R2\<lparr>fd_table := (fd_table ?R2)[fd := empty_fd], romfs_num_fd := romfs_num_fd ?R2 - 1\<rparr>"
  obtain pfs3 e' where cl: "romfs_close_r fd ?R2 pfs2 = Some (?R3, pfs3)"
      "wofs_ok pfs3 (mark_deleted path fs @ [\<lparr>f_name = path, f_data = wofs_stored pfs e path bss, f_deleted = False\<rparr>]) e'"
      "\<not> romfs_fs_is_flag_set pfs3 ROMFS_FS_FLAG_WRITING" "max_size pfs3 = max_size pfs2"
  proof (rule wofs_close)
    show "fd < length (fd_table ?R2)"
      "wofs_writing pfs2 (fd_table ?R2 ! fd) m1 (mark_deleted path fs) e path (wofs_stored pfs e path bss)"
      using op(3) w(2) by simp_all
  qed
  have "romfs_inv ?R3"
    using op(2-4) length_filter_update_less [of fd "fd_table R1" "\<lambda>f. \<not> fd_is_empty f" empty_fd]
    by (simp add: romfs_inv_def open_fds_def)
  with op(1) w(1,3) cl num show ?thesis
    by (intro that [of ns ?R3 pfs3 e']) (simp_all add: wofs_session_def)
qed


text \<open>An erased file system in the flash of an LM3S board.\<close>

definition lm3s_wofs :: FSDATA where
  "lm3s_wofs = \<lparr>medium = (\<lambda>x. 0xFF), fs_flags = ROMFS_FS_FLAG_WO OR ROMFS_FS_FLAG_DIRECT, readf = (\<lambda>a n m. []),
     writef = sim_wofs_write (Some 4) (FlashProgram nor_word) (\<lambda>x. 0) 0x20000, max_size = 0x20000\<rparr>"

definition newlib_consts :: os_consts where
  "newlib_consts = \<lparr>O_APPEND = 8, O_CREAT = 0x200, O_EXCL = 0x800, O_TRUNC = 0x400, O_SYNC = 0x2000, O_RDONLY = 0,
     O_WRONLY = 1, O_RDWR = 2, SEEK_SET = 0, SEEK_CUR = 1, SEEK_END = 2\<rparr>"

lemma lm3s_can_write: "wofs_can_write lm3s_wofs [] 0 romfs_init_fds newlib_consts 0x601 [0x61, 0x2E, 0x62]"
  "wofs_fits lm3s_wofs 0 [0x61, 0x2E, 0x62]"
  using lm3s_wofs.wofs_storage_axioms [of "\<lambda>x. 0"] romfs_inv_init
  by (simp_all add: wofs_can_write_def wofs_ok_def lm3s_wofs_def newlib_consts_def romfsh_is_wofs_def romfs_flags
      fs_reads_def erased_def WOFS_END_MARKER_CHAR_def live_names_def romfs_init_fds_def TOTAL_MAX_FDS_def write_flags_def
      romfs_fs_is_flag_set_def name_ok_def DM_MAX_FNAME_LENGTH_def wofs_fits_def)


lemma find_mark_other:
  assumes "length nm \<le> DM_MAX_FNAME_LENGTH" "length path \<le> DM_MAX_FNAME_LENGTH" "map tolower nm \<noteq> map tolower path"
    and "\<And>f. f \<in> set fs \<Longrightarrow> name_ok (f_name f)"
  shows "find (name_matches nm) (mark_deleted path fs) = find (name_matches nm) fs"
  using assms(4)
proof (induction fs)
  case Nil
  then show ?case by simp
next
  case (Cons f fs)
  have len: "length (f_name f) \<le> DM_MAX_FNAME_LENGTH"
    using Cons.prems [of f] by (simp add: name_ok_def)
  have "name_matches path f \<Longrightarrow> \<not> name_matches nm f"
    using assms(1-3) len by (simp add: name_matches_iff)
  moreover have "\<not> name_matches nm (f\<lparr>f_deleted := True\<rparr>)"
    by (simp add: name_matches_def)
  ultimately show ?case
    using Cons by simp
qed

lemma find_append: "find P (xs @ ys) = (case find P xs of None \<Rightarrow> find P ys | Some x \<Rightarrow> Some x)"
  by (induction xs) auto

text \<open>Writing a file is a map update, up to the case of names.\<close>

lemma find_after_session:
  fixes d :: "u8 list"
  assumes "length nm \<le> DM_MAX_FNAME_LENGTH" "name_ok path" "distinct (live_names fs)"
    and "\<And>f. f \<in> set fs \<Longrightarrow> name_ok (f_name f)"
  defines "new \<equiv> \<lparr>f_name = path, f_data = d, f_deleted = False\<rparr>"
  shows "find (name_matches nm) (mark_deleted path fs @ [new]) =
    (if map tolower nm = map tolower path then Some new else find (name_matches nm) fs)"
proof -
  have pl: "length path \<le> DM_MAX_FNAME_LENGTH"
    using assms(2) by (simp add: name_ok_def)
  have ok: "f \<in> set (mark_deleted path fs) \<Longrightarrow> name_ok (f_name f)" for f
    using assms(4) by (induction fs) (auto split: if_split_asm)
  have new: "name_matches nm new \<longleftrightarrow> map tolower nm = map tolower path"
    using name_matches_iff [OF assms(1), of new] pl by (simp add: new_def)
  show ?thesis
  proof (cases "map tolower nm = map tolower path")
    case True
    have "find (name_matches nm) (mark_deleted path fs) = None"
      using find_live [OF assms(1) ok] names_after_mark [OF assms(2-4)] True by simp
    with True new show ?thesis
      by (simp add: find_append)
  next
    case False
    with new find_mark_other [OF assms(1) pl False assms(4)] show ?thesis
      by (simp add: find_append split: option.split)
  qed
qed



text \<open>When there is no room for another file, opening for writing fails with \<open>ENOSPC\<close>, but the old
  version of the file has already been marked as deleted.\<close>

theorem wofs_no_space_loses_old:
  assumes "wofs_can_write pfs fs e R k flags path" and "\<not> wofs_fits pfs e path"
  shows "\<exists>pfs'. romfs_open_r k path flags R pfs = Some (Inl ENOSPC, R, pfs') \<and> wofs_ok pfs' (mark_deleted path fs) e"
  using wofs_open [of pfs fs e R k flags path] assms unfolding wofs_can_write_def by metis

theorem wofs_no_space_loses_old_witness:
  "\<exists>pfs'. romfs_open_r newlib_consts [0x61] 0x601 romfs_init_fds (lm3s_wofs\<lparr>max_size := 8\<rparr>) = Some (Inl ENOSPC, romfs_init_fds, pfs')"
proof -
  have "wofs_can_write (lm3s_wofs\<lparr>max_size := 8\<rparr>) [] 0 romfs_init_fds newlib_consts 0x601 [0x61]"
    "\<not> wofs_fits (lm3s_wofs\<lparr>max_size := 8\<rparr>) 0 [0x61]"
    using sim_wofs_write_stores [OF lm3s.nor_flash_axioms, of "0x20000" 8 "\<lambda>x. 0"] romfs_inv_init
    by (simp_all add: wofs_can_write_def wofs_ok_def lm3s_wofs_def newlib_consts_def romfsh_is_wofs_def romfs_flags
      fs_reads_def erased_def WOFS_END_MARKER_CHAR_def live_names_def romfs_init_fds_def TOTAL_MAX_FDS_def write_flags_def
      romfs_fs_is_flag_set_def name_ok_def DM_MAX_FNAME_LENGTH_def wofs_fits_def)
  from wofs_no_space_loses_old [OF this] show ?thesis
    by blast
qed

section \<open>Creating without write access\<close>

definition create_read_flags :: "os_consts \<Rightarrow> u32 \<Rightarrow> bool" where
  "create_read_flags k flags \<longleftrightarrow> flags AND O_CREAT k \<noteq> 0 \<and> flags AND O_WRONLY k = 0 \<and> flags AND O_RDWR k = 0 \<and>
     flags AND O_APPEND k = 0"

lemma romfs_open_r_create_read:
  assumes "create_read_flags k flags" "romfs_num_fd R \<noteq> int TOTAL_MAX_FDS" "romfsh_is_wofs pfs"
    "romfs_open_file pfs path 0 = Some (FS_FILE_NOT_FOUND l)"
    "romfs_create path (FS_FILE_NOT_FOUND l) pfs = Some (Inr base, pfs')"
  shows "romfs_open_r k path flags R pfs =
    do {
      (i, R') \<leftarrow> romfs_install \<lparr>fd_baseaddr = base, fd_offset = 0, fd_size = 0, fd_flags = ROMFS_FILE_FLAG_READ\<rparr> R;
      Some (Inr i, R', pfs')
    }"
proof -
  have "romfs_lflags k flags = ROMFS_FILE_FLAG_READ"
    using assms(1) by (simp add: romfs_lflags_def create_read_flags_def)
  moreover have "ROMFS_FILE_FLAG_READ AND (ROMFS_FILE_FLAG_WRITE OR ROMFS_FILE_FLAG_APPEND) = 0"
    by (simp add: romfs_flags)
  ultimately show ?thesis
    using assms by (simp add: romfs_open_r_def Let_def create_read_flags_def romfsh_is_wofs_def)
qed

lemma writing_refused:
  assumes "romfs_fs_is_flag_set pfs ROMFS_FS_FLAG_WRITING" "write_flags k flags"
    "romfs_open_r k path flags R pfs = Some (r, R', pfs')"
  shows "\<exists>e. r = Inl e"
  using assms lflags_write [OF assms(2)]
  by (auto simp: romfs_open_r_def Let_def split: bind_split_asm if_split_asm)

text \<open>Creating a file without asking for write access leaves the file system marked as being written
  even after the file is closed: from then on no file can be opened for writing.\<close>

theorem wofs_create_readonly_blocks:
  assumes ok: "wofs_ok pfs fs e" and inv: "romfs_inv R" "romfs_num_fd R \<noteq> int TOTAL_MAX_FDS"
    and fl: "create_read_flags k flags" and path: "name_ok path" and new: "find (name_matches path) fs = None"
    and fits: "wofs_fits pfs e path"
  shows "\<exists>fd R1 pfs1 R2 pfs2. romfs_open_r k path flags R pfs = Some (Inr fd, R1, pfs1) \<and>
    romfs_close_r fd R1 pfs1 = Some (R2, pfs2) \<and>
    (\<forall>nm wflags r R' pfs'. write_flags k wflags \<longrightarrow> romfs_open_r k nm wflags R2 pfs2 = Some (r, R', pfs') \<longrightarrow> (\<exists>e. r = Inl e))"
proof -
  note o = ok [unfolded wofs_ok_def]
  have look: "img_lookup True path 0 fs = FS_FILE_NOT_FOUND (word_of_nat e)"
    using img_lookup_None [OF _ new] o by blast
  have "romfs_open_file pfs path (word_of_nat 0) = Some (img_lookup True path 0 fs)"
    using o by (intro romfs_open_file_eq [where lim = "unat (max_size pfs)" and e = e]) auto
  then have op: "romfs_open_file pfs path 0 = Some (FS_FILE_NOT_FOUND (word_of_nat e))"
    by (simp add: look)
  obtain m1 where cr: "romfs_create path (FS_FILE_NOT_FOUND (word_of_nat e)) pfs =
      Some (Inr (word_of_nat (new_base e path)),
        romfs_fs_set_flag (pfs\<lparr>medium := wr_bytes m1 e (path @ [0])\<rparr>) ROMFS_FS_FLAG_WRITING)"
    using romfs_create_eq [OF ok path] fits unfolding look by metis
  let ?f = "\<lparr>fd_baseaddr = word_of_nat (new_base e path), fd_offset = 0, fd_size = 0, fd_flags = ROMFS_FILE_FLAG_READ\<rparr>"
  let ?pfs = "romfs_fs_set_flag (pfs\<lparr>medium := wr_bytes m1 e (path @ [0])\<rparr>) ROMFS_FS_FLAG_WRITING"
  have "\<not> fd_is_empty ?f"
    by (simp add: fd_is_empty_def)
  then obtain i R' where i: "romfs_install ?f R = Some (i, R')" "i < TOTAL_MAX_FDS" "fd_table R' = (fd_table R)[i := ?f]"
    using romfs_install_ok [OF inv] by metis
  have "romfs_open_r k path flags R pfs = Some (Inr i, R', ?pfs)"
    using romfs_open_r_create_read [OF fl inv(2) _ op cr] o i by simp
  moreover have "romfs_close_r i R' ?pfs =
      Some (R'\<lparr>fd_table := (fd_table R')[i := empty_fd], romfs_num_fd := romfs_num_fd R' - 1\<rparr>, ?pfs)"
    using i inv(1) by (simp add: romfs_close_r_def romfs_close_fd_def romfs_inv_def romfs_writing_def romfs_flags Let_def)
  moreover have "romfs_fs_is_flag_set ?pfs ROMFS_FS_FLAG_WRITING"
    by (simp add: romfs_fs_is_flag_set_def romfs_fs_set_flag_def bit.conj_disj_distrib2 romfs_flags)
  ultimately show ?thesis
    using writing_refused by blast
qed

theorem wofs_create_readonly_blocks_witness:
  "\<exists>fd R1 pfs1. romfs_open_r newlib_consts [0x61, 0x2E, 0x62] 0x200 romfs_init_fds lm3s_wofs = Some (Inr fd, R1, pfs1)"
proof -
  have "create_read_flags newlib_consts 0x200"
    by (simp add: create_read_flags_def newlib_consts_def)
  then show ?thesis
    using wofs_create_readonly_blocks [of lm3s_wofs "[]" 0 romfs_init_fds newlib_consts "0x200" "[0x61, 0x2E, 0x62]"]
      lm3s_can_write unfolding wofs_can_write_def by fastforce
qed

end
