(* ===== verification/Romfs_Device.thy ===== *)
theory Romfs_Device
  imports Wofs
begin

text \<open>
  The file systems of \<open>src/src/romfs.c\<close> as devices of the device manager: the table of operations
  \<open>romfs_device\<close> that \<open>romfs_init\<close> registers, with the file system instance (\<open>pdata\<close>) as an index into
  the instances of the system. The theory shows that the table satisfies what the device manager
  relies on, and that a file of an image is opened by its full path and read through the descriptor
  that \<open>open\<close> returned.
\<close>

record romfs_sys =
  sys_fds :: romfs_state
  sys_inst :: "nat \<Rightarrow> FSDATA"
  sys_dir :: u32

definition dev_open :: "os_consts \<Rightarrow> u8 list \<Rightarrow> u32 \<Rightarrow> int \<Rightarrow> nat \<Rightarrow> (nat, romfs_sys) dm_op" where
  "dev_open k path flags mode d s =
     do {
       (r, R, p) \<leftarrow> romfs_open_r k path flags (sys_fds s) (sys_inst s d);
       Some (map_sum Some id r, s\<lparr>sys_fds := R, sys_inst := (sys_inst s)(d := p)\<rparr>)
     }"

definition dev_close :: "nat \<Rightarrow> nat \<Rightarrow> (nat, romfs_sys) dm_op" where
  "dev_close fd d s =
     do {
       (R, p) \<leftarrow> romfs_close_r fd (sys_fds s) (sys_inst s d);
       Some (Inr 0, s\<lparr>sys_fds := R, sys_inst := (sys_inst s)(d := p)\<rparr>)
     }"

definition dev_write :: "nat \<Rightarrow> u8 list \<Rightarrow> nat \<Rightarrow> (nat, romfs_sys) dm_op" where
  "dev_write fd bs d s =
     do {
       (r, R, p) \<leftarrow> romfs_write_r fd bs (sys_fds s) (sys_inst s d);
       Some (map_sum Some id r, s\<lparr>sys_fds := R, sys_inst := (sys_inst s)(d := p)\<rparr>)
     }"

definition dev_read :: "nat \<Rightarrow> nat \<Rightarrow> nat \<Rightarrow> (u8 list, romfs_sys) dm_op" where
  "dev_read fd n d s =
     do {
       (r, R) \<leftarrow> romfs_read_r fd n (sys_fds s) (sys_inst s d);
       Some (map_sum Some id r, s\<lparr>sys_fds := R\<rparr>)
     }"

definition dev_lseek :: "os_consts \<Rightarrow> nat \<Rightarrow> u32 \<Rightarrow> u32 \<Rightarrow> nat \<Rightarrow> (u32, romfs_sys) dm_op" where
  "dev_lseek k fd off whence d s =
     do {
       (r, R) \<leftarrow> romfs_lseek_r k fd off whence (sys_fds s);
       Some (case r of None \<Rightarrow> Inl None | Some x \<Rightarrow> Inr x, s\<lparr>sys_fds := R\<rparr>)
     }"

definition dev_opendir :: "u8 list \<Rightarrow> nat \<Rightarrow> (unit, romfs_sys) dm_op" where
  "dev_opendir name d s =
     (let (ok, off) = romfs_opendir_r (Some name) (sys_dir s)
      in Some (if ok then Inr () else Inl None, s\<lparr>sys_dir := off\<rparr>))"

definition dev_readdir :: "unit \<Rightarrow> nat \<Rightarrow> (dm_dirent, romfs_sys) dm_op" where
  "dev_readdir h d s =
     do {
       r \<leftarrow> romfs_readdir_r (sys_inst s d) (sys_dir s);
       Some (case r of None \<Rightarrow> (Inl None, s) | Some (ent, off) \<Rightarrow> (Inr ent, s\<lparr>sys_dir := off\<rparr>))
     }"

definition dev_closedir :: "unit \<Rightarrow> nat \<Rightarrow> (nat, romfs_sys) dm_op" where
  "dev_closedir h d s = Some (Inr 0, s\<lparr>sys_dir := romfs_closedir_r (sys_dir s)\<rparr>)"

definition dev_getaddr :: "nat \<Rightarrow> nat \<Rightarrow> (nat, romfs_sys) dm_op" where
  "dev_getaddr fd d s =
     do {
       r \<leftarrow> romfs_getaddr_r fd (sys_fds s) (sys_inst s d);
       Some (case r of None \<Rightarrow> Inl None | Some a \<Rightarrow> Inr (unat a), s)
     }"

definition romfs_device :: "os_consts \<Rightarrow> (nat, unit, romfs_sys) DM_DEVICE" where
  "romfs_device k = \<lparr>p_open_r = Some (dev_open k), p_close_r = Some dev_close, p_write_r = Some dev_write,
     p_read_r = Some dev_read, p_lseek_r = Some (dev_lseek k), p_opendir_r = Some dev_opendir,
     p_readdir_r = Some dev_readdir, p_closedir_r = Some dev_closedir, p_getaddr_r = Some dev_getaddr,
     p_mkdir_r = None, p_unlink_r = None, p_rmdir_r = None, p_rename_r = None\<rparr>"

lemma romfs_open_r_fd: "romfs_open_r k path flags R p = Some (Inr fd, R', p') \<Longrightarrow> fd < length (fd_table R)"
  by (auto simp: romfs_open_r_def Let_def dest: romfs_install_less
      split: bind_split_asm if_split_asm sum.split_asm open_result.split_asm)

interpretation romdev: dm_fs "romfs_device k" "dev_open k" "\<lambda>s. length (fd_table (sys_fds s)) = TOTAL_MAX_FDS" for k
proof
  show "p_open_r (romfs_device k) = Some (dev_open k)"
    by (simp add: romfs_device_def)
  fix s nm flags mode d fd s'
  assume "length (fd_table (sys_fds s)) = TOTAL_MAX_FDS" "dev_open k nm flags mode d s = Some (Inr fd, s')"
  then obtain R p where "romfs_open_r k nm flags (sys_fds s) (sys_inst s d) = Some (Inr fd, R, p)"
    by (auto simp: dev_open_def split: bind_split_asm sum.split_asm) (metis map_sum.simps(1,2) sum.exhaust sum.inject(2) sum.distinct(1) id_apply)
  then show "fd < 2 ^ 11"
    using \<open>length _ = _\<close> by (auto dest!: romfs_open_r_fd simp: TOTAL_MAX_FDS_def)
qed

text \<open>Instance \<open>d\<close> of the system holds the files \<open>fs\<close>, and a descriptor is free.\<close>

definition sys_holds :: "romfs_sys \<Rightarrow> nat \<Rightarrow> rom_file list \<Rightarrow> bool" where
  "sys_holds s d fs \<longleftrightarrow> romfs_inv (sys_fds s) \<and> romfs_num_fd (sys_fds s) \<noteq> int TOTAL_MAX_FDS \<and>
     (\<exists>e lim. fs_reads (sys_inst s d) lim \<and> e < lim \<and> lim + 3 < 2 ^ 32 \<and>
        fs_img (romfsh_is_wofs (sys_inst s d)) (medium (sys_inst s d)) 0 fs e)"

lemma romfs_reads_one: "romfs_reads fd [n] R p = Some ([bs], R') \<Longrightarrow> romfs_read_r fd n R p = Some (Inr bs, R')"
  by (auto split: bind_split_asm sum.split_asm)

section \<open>All calls of all file systems\<close>

text \<open>Any call on any of the file systems, with whatever descriptor: the descriptor table is shared by all of them, each has its
  own storage and flags.\<close>

inductive sys_step :: "os_consts \<Rightarrow> romfs_sys \<Rightarrow> romfs_sys \<Rightarrow> bool" for k where
  sys_open: "dev_open k path flags mode d s = Some (r, s') \<Longrightarrow> sys_step k s s'"
| sys_close: "dev_close fd d s = Some (r, s') \<Longrightarrow> sys_step k s s'"
| sys_write: "dev_write fd bs d s = Some (r, s') \<Longrightarrow> sys_step k s s'"
| sys_read: "dev_read fd n d s = Some (r', s') \<Longrightarrow> sys_step k s s'"
| sys_lseek: "dev_lseek k fd off whence d s = Some (r'', s') \<Longrightarrow> sys_step k s s'"
| sys_opendir: "dev_opendir name d s = Some (u, s') \<Longrightarrow> sys_step k s s'"
| sys_readdir: "dev_readdir h d s = Some (e, s') \<Longrightarrow> sys_step k s s'"
| sys_closedir: "dev_closedir h d s = Some (r, s') \<Longrightarrow> sys_step k s s'"
| sys_getaddr: "dev_getaddr fd d s = Some (r, s') \<Longrightarrow> sys_step k s s'"

definition sys_ok :: "romfs_sys \<Rightarrow> bool" where
  "sys_ok s \<longleftrightarrow> fd_bounds (sys_fds s) \<and> (\<forall>d. readf_bounded (sys_inst s d))"

lemma sys_step_ok:
  assumes "sys_step k s s'" "sys_ok s"
  shows "sys_ok s'"
  using assms
proof (induction rule: sys_step.induct)
  case (sys_open path flags mode d s r s')
  then show ?case
    by (auto simp: dev_open_def sys_ok_def readf_bounded_def fd_bounds_open dest: romfs_open_r_readf split: bind_split_asm)
next
  case (sys_close fd d s r s')
  then show ?case
    by (auto simp: dev_close_def sys_ok_def readf_bounded_def fd_bounds_close dest: romfs_close_r_readf split: bind_split_asm)
next
  case (sys_write fd bs d s r s')
  then show ?case
    by (auto simp: dev_write_def sys_ok_def readf_bounded_def fd_bounds_write dest: romfs_write_r_readf split: bind_split_asm)
next
  case (sys_read fd n d s r s')
  then show ?case
    by (auto simp: dev_read_def sys_ok_def intro: fd_bounds_read split: bind_split_asm)
next
  case (sys_lseek fd off whence d s r s')
  then show ?case
    by (auto simp: dev_lseek_def sys_ok_def intro: fd_bounds_lseek split: bind_split_asm)
next
  case (sys_readdir h d s e s')
  then show ?case
    by (auto simp: dev_readdir_def sys_ok_def split: bind_split_asm option.split_asm)
qed (auto simp: dev_opendir_def dev_closedir_def dev_getaddr_def sys_ok_def Let_def split: bind_split_asm prod.split_asm)

lemma sys_steps_ok: "(sys_step k)\<^sup>*\<^sup>* s s' \<Longrightarrow> sys_ok s \<Longrightarrow> sys_ok s'"
  by (induction rule: rtranclp_induct) (auto intro: sys_step_ok)

section \<open>Properties\<close>

text \<open>C17. Opening the path of a registered file system's file for reading gives a descriptor, and reading
  from that descriptor returns the beginning of the contents of the file.\<close>

theorem dm_open_and_read_file:
  assumes T: "dm_inv T" "i < length T" "dm_pdev (T ! i) = romfs_device k" "dm_path_of (dm_name (T ! i)) a p" "a \<noteq> []"
    and s: "sys_holds s (dm_pdata (T ! i)) fs" and f: "find (name_matches a) fs = Some f"
    and fl: "read_flags k flags" and n: "n < 2 ^ 32"
  shows "\<exists>desc s1 s2. open_r (Some p) flags mode T s = Some (Inr desc, s1) \<and> 0 \<le> desc \<and> desc < 2 ^ 15 \<and>
    read_r desc n T s1 = Some (Inr (take n (f_data f)), s2)"
proof -
  let ?d = "dm_pdata (T ! i)"
  have ent: "find_dm_entry (Some p) T = Some (i, a)"
    using find_dm_entry_eq [OF T(1)] T by blast
  obtain e lim where img: "fs_reads (sys_inst s ?d) lim" "fs_img (romfsh_is_wofs (sys_inst s ?d)) (medium (sys_inst s ?d)) 0 fs e"
    "e < lim" "lim + 3 < 2 ^ 32" and inv: "romfs_inv (sys_fds s)" "romfs_num_fd (sys_fds s) \<noteq> int TOTAL_MAX_FDS"
    using s by (auto simp: sys_holds_def)
  obtain fd R1 where o: "romfs_open_r k a flags (sys_fds s) (sys_inst s ?d) = Some (Inr fd, R1, sys_inst s ?d)"
    and r: "\<forall>ns. (\<forall>n \<in> set ns. n < 2 ^ 32) \<longrightarrow>
      (\<exists>R2. romfs_reads fd ns R1 (sys_inst s ?d) = Some (pieces ns (f_data f), R2))"
    using open_and_read [OF img inv fl, of a] f by auto
  obtain R2 where "romfs_reads fd [n] R1 (sys_inst s ?d) = Some ([take n (f_data f)], R2)"
    using r [THEN spec, of "[n]"] n by (auto simp del: romfs_reads.simps)
  then have rd: "romfs_read_r fd n R1 (sys_inst s ?d) = Some (Inr (take n (f_data f)), R2)"
    by (rule romfs_reads_one)
  let ?s1 = "s\<lparr>sys_fds := R1, sys_inst := (sys_inst s)(?d := sys_inst s ?d)\<rparr>"
  have fd: "fd < 2 ^ 11"
    using romfs_open_r_fd [OF o] inv(1) by (simp add: romfs_inv_def TOTAL_MAX_FDS_def)
  have dev: "dev_open k a flags mode ?d s = Some (Inr fd, ?s1)"
    by (simp add: dev_open_def o)
  have op: "open_r (Some p) flags mode T s = Some (Inr (DM_MAKE_DESC i fd), ?s1)"
    using dev by (simp add: open_r_def ent T(3) romdev.has_open)
  moreover have "read_r (DM_MAKE_DESC i fd) n T ?s1 = Some (Inr (take n (f_data f)), ?s1\<lparr>sys_fds := R2\<rparr>)"
    using romdev.open_dispatch [OF _ T(2,3) ent op] dev inv(1)
    by (auto simp: romfs_inv_def romfs_device_def dev_read_def rd)
  moreover have "i < 16"
    using T(1,2) by (simp add: dm_inv_def DM_MAX_DEVICES_def)
  then have "0 \<le> DM_MAKE_DESC i fd \<and> DM_MAKE_DESC i fd < 2 ^ 15"
    using fd by (simp add: DM_MAKE_DESC_eq)
  ultimately show ?thesis by blast
qed

definition tiny_sys :: romfs_sys where
  "tiny_sys = \<lparr>sys_fds = romfs_init_fds, sys_inst = (\<lambda>d. tiny_romfs), sys_dir = 0\<rparr>"

definition tiny_table :: "(nat, unit, romfs_sys) dm_table" where
  "tiny_table = [\<lparr>dm_name = [slash, 0x72, 0x6F, 0x6D], dm_pdata = 0, dm_pdev = romfs_device newlib_consts\<rparr>]"

theorem dm_open_and_read_file_witness:
  "\<exists>desc s1 s2. open_r (Some [slash, 0x72, 0x6F, 0x6D, slash, 0x61]) 0 0 tiny_table tiny_sys = Some (Inr desc, s1) \<and>
     read_r desc 1 tiny_table s1 = Some (Inr [7], s2)"
proof -
  have T: "dm_inv tiny_table" "0 < length tiny_table" "dm_pdev (tiny_table ! 0) = romfs_device newlib_consts"
    by (simp_all add: tiny_table_def dm_inv_def dm_name_ok_def DM_MAX_DEVICES_def DM_MAX_DEV_NAME_def)
  have p: "dm_path_of (dm_name (tiny_table ! 0)) [0x61] [slash, 0x72, 0x6F, 0x6D, slash, 0x61]"
    using dm_path_of_below [of "[0x72, 0x6F, 0x6D]" "[slash, 0x72, 0x6F, 0x6D]" "[0x61]" "[0x61]"]
    by (simp add: tiny_table_def strcaseeq_def)
  have "\<exists>e lim. fs_reads tiny_romfs lim \<and> e < lim \<and> lim + 3 < 2 ^ 32 \<and> fs_img (romfsh_is_wofs tiny_romfs)
      (medium tiny_romfs) 0 [\<lparr>f_name = [0x61], f_data = [7, 8], f_deleted = False\<rparr>] e"
    by (rule exI [of _ 10], rule exI [of _ 11]) (simp add: tiny_romfs_img(1,2) del: fs_img.simps)
  then have s: "sys_holds tiny_sys (dm_pdata (tiny_table ! 0)) [\<lparr>f_name = [0x61], f_data = [7, 8], f_deleted = False\<rparr>]"
    using romfs_inv_init unfolding sys_holds_def
    by (simp add: tiny_sys_def romfs_init_fds_def TOTAL_MAX_FDS_def del: fs_img.simps)
  have "read_flags newlib_consts 0"
    by (simp add: read_flags_def)
  from dm_open_and_read_file [OF T p _ s _ this, of "\<lparr>f_name = [0x61], f_data = [7, 8], f_deleted = False\<rparr>" 1 0]
  show ?thesis
    by (auto simp: name_matches_def strncaseeq_def)
qed

text \<open>A ROM file system and an empty write-once file system.\<close>

definition two_sys :: romfs_sys where
  "two_sys = \<lparr>sys_fds = romfs_init_fds, sys_inst = (\<lambda>d. if d = 0 then tiny_romfs else lm3s_wofs), sys_dir = 0\<rparr>"

lemma two_sys_run:
  "\<exists>fd s1 n s2 s3 fd' s4 s5. dev_open newlib_consts [0x61, 0x2E, 0x62] 0x601 0 1 two_sys = Some (Inr fd, s1) \<and>
     dev_write fd [1, 2, 3] 1 s1 = Some (Inr n, s2) \<and> dev_close fd 1 s2 = Some (Inr 0, s3) \<and>
     dev_open newlib_consts [0x61] 0 0 0 s3 = Some (Inr fd', s4) \<and> dev_read fd' 1 0 s4 = Some (Inr [7], s5)"
proof -
  let ?p = "[0x61, 0x2E, 0x62] :: u8 list"
  obtain ns R3 p3 e' where s: "wofs_session newlib_consts ?p 0x601 [[1, 2, 3]] romfs_init_fds lm3s_wofs = Some (ns, R3, p3)" "romfs_inv R3"
    "romfs_num_fd R3 = romfs_num_fd romfs_init_fds"
    by (rule wofs_session_eq [OF lm3s_can_write, of "[[1, 2, 3]]"]) auto
  then obtain fd R1 p1 n R2 p2 where o: "romfs_open_r newlib_consts ?p 0x601 romfs_init_fds lm3s_wofs = Some (Inr fd, R1, p1)"
    and w: "romfs_write_r fd [1, 2, 3] R1 p1 = Some (Inr n, R2, p2)" and c: "romfs_close_r fd R2 p2 = Some (R3, p3)"
    by (auto simp: wofs_session_def split: bind_split_asm sum.split_asm)
  have "case find (name_matches [0x61]) [\<lparr>f_name = [0x61], f_data = [7, 8], f_deleted = False\<rparr>] of
      None \<Rightarrow> romfs_open_r newlib_consts [0x61] 0 R3 tiny_romfs = Some (Inl ENOENT, R3, tiny_romfs)
    | Some f \<Rightarrow> \<exists>fd R'. romfs_open_r newlib_consts [0x61] 0 R3 tiny_romfs = Some (Inr fd, R', tiny_romfs) \<and> romfs_inv R' \<and> fd < TOTAL_MAX_FDS \<and>
        (\<forall>ns. (\<forall>n \<in> set ns. n < 2 ^ 32) \<longrightarrow> (\<exists>R''. romfs_reads fd ns R' tiny_romfs = Some (pieces ns (f_data f), R'')))"
    by (rule open_and_read [OF tiny_romfs_img(2,1)])
      (use s in \<open>auto simp: romfs_init_fds_def TOTAL_MAX_FDS_def read_flags_def\<close>)
  then obtain fd' R4 where o': "romfs_open_r newlib_consts [0x61] 0 R3 tiny_romfs = Some (Inr fd', R4, tiny_romfs)"
    and rd: "\<And>ns. \<forall>n \<in> set ns. n < 2 ^ 32 \<Longrightarrow> \<exists>R5. romfs_reads fd' ns R4 tiny_romfs = Some (pieces ns [7, 8], R5)"
    by (auto simp: name_matches_def strncaseeq_def)
  obtain R5 where r: "romfs_read_r fd' 1 R4 tiny_romfs = Some (Inr [7], R5)"
    using rd [of "[1]"] romfs_reads_one [of fd' 1 R4 tiny_romfs "[7]"] by auto
  show ?thesis
    by (rule exI [of _ fd]) (auto simp: dev_open_def dev_write_def dev_close_def dev_read_def two_sys_def o w c o' r [unfolded One_nat_def])
qed

text \<open>C19. Two or more ROM and write-once file systems share one table of descriptors. From the table that \<open>romfs_init\<close> sets up,
  whatever sequence of calls is performed on any of them (opens, closes, writes, reads, seeks, directory calls, in any order, with any
  arguments, also with descriptors that are closed or belong to another file system), the table keeps its size and no descriptor's position is behind the
  end of its file. The only assumption is that the storage's read functions return no more bytes than asked for.\<close>

theorem romfs_positions_in_bounds:
  assumes "(sys_step k)\<^sup>*\<^sup>* s s'" and "sys_fds s = romfs_init_fds" and "\<forall>d. readf_bounded (sys_inst s d)"
  shows "length (fd_table (sys_fds s')) = TOTAL_MAX_FDS \<and> (\<forall>f \<in> set (fd_table (sys_fds s')). fd_offset f \<le> fd_size f)"
proof -
  have "sys_ok s" using assms(2,3) by (simp add: sys_ok_def fd_bounds_def romfs_init_fds_def empty_fd_def)
  from sys_steps_ok [OF assms(1) this] show ?thesis by (simp add: sys_ok_def fd_bounds_def)
qed

theorem romfs_positions_in_bounds_witness:
  "\<exists>fd s1 n s2 s3 fd' s4 s5. dev_open newlib_consts [0x61, 0x2E, 0x62] 0x601 0 1 two_sys = Some (Inr fd, s1) \<and>
     dev_write fd [1, 2, 3] 1 s1 = Some (Inr n, s2) \<and> dev_close fd 1 s2 = Some (Inr 0, s3) \<and>
     dev_open newlib_consts [0x61] 0 0 0 s3 = Some (Inr fd', s4) \<and> dev_read fd' 1 0 s4 = Some (Inr [7], s5) \<and>
     (\<forall>f \<in> set (fd_table (sys_fds s5)). fd_offset f \<le> fd_size f)"
proof -
  obtain fd s1 n s2 s3 fd' s4 s5 where run: "dev_open newlib_consts [0x61, 0x2E, 0x62] 0x601 0 1 two_sys = Some (Inr fd, s1)"
     "dev_write fd [1, 2, 3] 1 s1 = Some (Inr n, s2)" "dev_close fd 1 s2 = Some (Inr 0, s3)"
     "dev_open newlib_consts [0x61] 0 0 0 s3 = Some (Inr fd', s4)" "dev_read fd' 1 0 s4 = Some (Inr [7], s5)"
    using two_sys_run by blast
  then have "(sys_step newlib_consts)\<^sup>*\<^sup>* two_sys s5"
    by (meson rtranclp.rtrancl_refl rtranclp.rtrancl_into_rtrancl sys_open sys_write sys_close sys_read)
  moreover have "sys_fds two_sys = romfs_init_fds" "\<forall>d. readf_bounded (sys_inst two_sys d)"
    by (simp_all add: two_sys_def readf_bounded_def tiny_romfs_def lm3s_wofs_def)
  ultimately show ?thesis
    using romfs_positions_in_bounds [of newlib_consts two_sys s5] run by blast
qed
end
