(* ===== verification/Timers.thy ===== *)
theory Timers
  imports Elua_Int
begin

text \<open>
  The timer section of the common code (\<open>src/src/common_tmr.c\<close>): virtual timers driven by a periodic
  interrupt, their match interrupts, the dispatch of timer operations, and the system timer. Data of
  type \<open>timer_data_type\<close> are 64 bits wide. The hardware timers of the board are parameters. A busy wait
  for the timer interrupt is modelled by the interrupts it waits for. The theory shows that the
  interrupt handler advances every virtual timer independently, that a periodic match interrupt is
  raised once per period, how many interrupts a delay takes, and what time differences are computed.
\<close>

section \<open>Constants\<close>

definition VTMR_FIRST_ID :: nat where "VTMR_FIRST_ID = 0x200"
definition VTMR_MAX_PERIOD :: u64 where "VTMR_MAX_PERIOD = 2 ^ 32 - 1"
definition PLATFORM_TIMER_SYS_ID :: nat where "PLATFORM_TIMER_SYS_ID = 0x100"
definition PLATFORM_TIMER_SYS_MAX :: u64 where "PLATFORM_TIMER_SYS_MAX = 2 ^ 52 - 2"
definition PLATFORM_TIMER_SYS_FREQ :: u64 where "PLATFORM_TIMER_SYS_FREQ = 1000000"
definition PLATFORM_TIMER_INT_ONESHOT :: int where "PLATFORM_TIMER_INT_ONESHOT = 1"
definition PLATFORM_CPU_ENABLE :: int where "PLATFORM_CPU_ENABLE = 1"

definition VTMR_GET_ID :: "nat \<Rightarrow> nat" where
  "VTMR_GET_ID x = x - VTMR_FIRST_ID"

definition TIMER_IS_VIRTUAL :: "nat \<Rightarrow> nat \<Rightarrow> bool" where
  "TIMER_IS_VIRTUAL n x \<longleftrightarrow> 0 < n \<and> VTMR_FIRST_ID \<le> x \<and> x < n + VTMR_FIRST_ID"

datatype timer_int_result = PLATFORM_TIMER_INT_OK | PLATFORM_TIMER_INT_TOO_SHORT | PLATFORM_TIMER_INT_TOO_LONG
  | PLATFORM_TIMER_INT_INVALID_ID

datatype timer_op = PLATFORM_TIMER_OP_START | PLATFORM_TIMER_OP_READ | PLATFORM_TIMER_OP_SET_CLOCK
  | PLATFORM_TIMER_OP_GET_CLOCK | PLATFORM_TIMER_OP_GET_MAX_DELAY | PLATFORM_TIMER_OP_GET_MIN_DELAY
  | PLATFORM_TIMER_OP_GET_MAX_CNT

section \<open>Virtual timers\<close>

text \<open>\<open>vtmr_reset_idx\<close> is \<open>-1\<close> (no request) or the number of a timer.\<close>

record vtmr_state =
  vtmr_counters :: "u32 list"
  vtmr_reset_idx :: "8 word"
  vtmr_period_limit :: "u32 list"
  vtmr_int_periodic_flag :: "u8 list"
  vtmr_int_enabled :: "u8 list"
  vtmr_int_flag :: "u8 list"

text \<open>The bit of timer \<open>i\<close> in the byte arrays.\<close>

definition vt_msk :: "nat \<Rightarrow> u8" where
  "vt_msk i = push_bit (i AND 7) 1"

definition vt_test :: "nat \<Rightarrow> u8 list \<Rightarrow> bool" where
  "vt_test i bs \<longleftrightarrow> bs ! drop_bit 3 i AND vt_msk i \<noteq> 0"

definition vt_set :: "nat \<Rightarrow> u8 list \<Rightarrow> u8 list" where
  "vt_set i bs = bs[drop_bit 3 i := bs ! drop_bit 3 i OR vt_msk i]"

definition vt_clear :: "nat \<Rightarrow> u8 list \<Rightarrow> u8 list" where
  "vt_clear i bs = bs[drop_bit 3 i := bs ! drop_bit 3 i AND NOT (vt_msk i)]"

text \<open>The body of the loop over the timers. \<open>raise\<close> is \<open>elua_int_add( INT_TMR_MATCH, resnum )\<close> on the
  interrupt queue.\<close>

definition vtmr_tick_one :: "(u16 \<Rightarrow> 'q \<Rightarrow> 'q) \<Rightarrow> nat \<Rightarrow> vtmr_state \<times> 'q \<Rightarrow> vtmr_state \<times> 'q" where
  "vtmr_tick_one raise i = (\<lambda>(s, q).
     let s1 = s\<lparr>vtmr_counters := (vtmr_counters s)[i := vtmr_counters s ! i + 1]\<rparr>
     in if vtmr_counters s1 ! i \<ge> vtmr_period_limit s1 ! i then
          let s2 = s1\<lparr>vtmr_int_flag := vt_set i (vtmr_int_flag s1)\<rparr>;
              q' = (if vt_test i (vtmr_int_enabled s2) then raise (word_of_nat (i + VTMR_FIRST_ID)) q else q)
          in if vt_test i (vtmr_int_periodic_flag s2)
             then (s2\<lparr>vtmr_counters := (vtmr_counters s2)[i := 0]\<rparr>, q')
             else (s2\<lparr>vtmr_int_enabled := vt_clear i (vtmr_int_enabled s2)\<rparr>, q')
        else (s1, q))"

definition cmn_virtual_timer_cb :: "(u16 \<Rightarrow> 'q \<Rightarrow> 'q) \<Rightarrow> nat \<Rightarrow> vtmr_state \<times> 'q \<Rightarrow> (vtmr_state \<times> 'q) option" where
  "cmn_virtual_timer_cb raise n st =
     (let (s, q) = fold (vtmr_tick_one raise) [0..<n] st
      in if vtmr_reset_idx s = -1 then Some (s, q)
         else if sint (vtmr_reset_idx s) < 0 \<or> n \<le> unat (vtmr_reset_idx s) then None
         else Some (s\<lparr>vtmr_counters := (vtmr_counters s)[unat (vtmr_reset_idx s) := 0], vtmr_reset_idx := -1\<rparr>, q))"

text \<open>The reset request is served by the next timer interrupt, which ends the busy wait.\<close>

definition vtmr_reset_timer :: "(u16 \<Rightarrow> 'q \<Rightarrow> 'q) \<Rightarrow> nat \<Rightarrow> nat \<Rightarrow> vtmr_state \<times> 'q \<Rightarrow> (vtmr_state \<times> 'q) option" where
  "vtmr_reset_timer raise n vid = (\<lambda>(s, q).
     cmn_virtual_timer_cb raise n (s\<lparr>vtmr_reset_idx := word_of_nat (VTMR_GET_ID vid)\<rparr>, q))"

definition vtmr_ticks :: "u32 \<Rightarrow> u64 \<Rightarrow> u64" where
  "vtmr_ticks freq us = us * ucast freq div 1000000"

text \<open>The busy wait of \<open>vtmr_delay\<close>: timer interrupts until the counter has reached \<open>final\<close>.\<close>

partial_function (option) vtmr_wait :: "(u16 \<Rightarrow> 'q \<Rightarrow> 'q) \<Rightarrow> nat \<Rightarrow> nat \<Rightarrow> u64 \<Rightarrow> vtmr_state \<times> 'q \<Rightarrow> (vtmr_state \<times> 'q) option" where
  "vtmr_wait raise n i final st =
     (if ucast (vtmr_counters (fst st) ! i) < final
      then do { st' \<leftarrow> cmn_virtual_timer_cb raise n st; vtmr_wait raise n i final st' }
      else Some st)"

definition vtmr_delay :: "(u16 \<Rightarrow> 'q \<Rightarrow> 'q) \<Rightarrow> nat \<Rightarrow> u32 \<Rightarrow> nat \<Rightarrow> u64 \<Rightarrow> vtmr_state \<times> 'q \<Rightarrow> (vtmr_state \<times> 'q) option" where
  "vtmr_delay raise n freq vid delay_us st =
     (if delay_us > VTMR_MAX_PERIOD then Some st
      else do {
        st' \<leftarrow> vtmr_reset_timer raise n vid st;
        vtmr_wait raise n (VTMR_GET_ID vid) (vtmr_ticks freq delay_us) st'
      })"

definition vtmr_set_match_int :: "(u16 \<Rightarrow> 'q \<Rightarrow> 'q) \<Rightarrow> nat \<Rightarrow> u32 \<Rightarrow> nat \<Rightarrow> u64 \<Rightarrow> int \<Rightarrow> vtmr_state \<times> 'q \<Rightarrow>
    (timer_int_result \<times> vtmr_state \<times> 'q) option" where
  "vtmr_set_match_int raise n freq vid period_us ty = (\<lambda>(s, q).
     let i = VTMR_GET_ID vid; final = vtmr_ticks freq period_us
     in if period_us > VTMR_MAX_PERIOD then Some (PLATFORM_TIMER_INT_TOO_LONG, s, q)
        else if period_us = 0 then
          Some (PLATFORM_TIMER_INT_OK,
            s\<lparr>vtmr_int_enabled := vt_clear i (vtmr_int_enabled s), vtmr_int_flag := vt_clear i (vtmr_int_flag s)\<rparr>, q)
        else if final = 0 then Some (PLATFORM_TIMER_INT_TOO_SHORT, s, q)
        else do {
          (s', q') \<leftarrow> vtmr_reset_timer raise n vid
            (s\<lparr>vtmr_period_limit := (vtmr_period_limit s)[i := ucast final],
               vtmr_int_periodic_flag := (if ty = PLATFORM_TIMER_INT_ONESHOT then vt_clear i else vt_set i) (vtmr_int_periodic_flag s),
               vtmr_int_flag := vt_clear i (vtmr_int_flag s)\<rparr>, q);
          Some (PLATFORM_TIMER_INT_OK, s'\<lparr>vtmr_int_enabled := vt_set i (vtmr_int_enabled s')\<rparr>, q')
        })"

definition vtmr_int_get_flag :: "nat \<Rightarrow> bool \<Rightarrow> vtmr_state \<Rightarrow> bool \<times> vtmr_state" where
  "vtmr_int_get_flag resnum clear s =
     (let i = VTMR_GET_ID resnum
      in (vt_test i (vtmr_int_flag s), if clear then s\<lparr>vtmr_int_flag := vt_clear i (vtmr_int_flag s)\<rparr> else s))"

definition vtmr_int_set_status :: "nat \<Rightarrow> int \<Rightarrow> vtmr_state \<Rightarrow> bool \<times> vtmr_state" where
  "vtmr_int_set_status resnum status s =
     (let i = VTMR_GET_ID resnum
      in (vt_test i (vtmr_int_enabled s),
          s\<lparr>vtmr_int_enabled := (if status = PLATFORM_CPU_ENABLE then vt_set i else vt_clear i) (vtmr_int_enabled s)\<rparr>))"

definition vtmr_int_get_status :: "nat \<Rightarrow> vtmr_state \<Rightarrow> bool" where
  "vtmr_int_get_status resnum s \<longleftrightarrow> vt_test (VTMR_GET_ID resnum) (vtmr_int_enabled s)"

section \<open>One bit per timer\<close>

definition vt_bit :: "u8 list \<Rightarrow> nat \<Rightarrow> bool" where
  "vt_bit bs i \<longleftrightarrow> bit (bs ! (i div 8)) (i mod 8)"

lemma vt_index: "drop_bit 3 i = i div 8" "vt_msk i = 2 ^ (i mod 8)"
  using and_pow2_minus_1_nat [of i 3] by (simp_all add: drop_bit_eq_div vt_msk_def)

lemma bit_vt_msk: "bit ((2 :: u8) ^ k) j \<longleftrightarrow> j = k \<and> j < 8"
  by (auto simp: bit_simps)

lemma vt_test_bit: "vt_test i bs \<longleftrightarrow> vt_bit bs i"
proof -
  have "b AND 2 ^ k \<noteq> 0 \<longleftrightarrow> bit b k" if "k < 8" for b :: u8 and k
    using that by (auto simp: bit_eq_iff [of "b AND 2 ^ k"] bit_and_iff bit_vt_msk)
  then show ?thesis
    by (simp add: vt_test_def vt_bit_def vt_index)
qed

lemma div_mod_8_eq: "i div 8 = j div 8 \<Longrightarrow> i mod 8 = j mod 8 \<Longrightarrow> i = (j :: nat)"
  by (metis div_mult_mod_eq)

lemma vt_set_bit: "i div 8 < length bs \<Longrightarrow> vt_bit (vt_set i bs) j \<longleftrightarrow> j = i \<or> vt_bit bs j"
  by (auto simp: vt_bit_def vt_set_def vt_index nth_list_update bit_or_iff bit_vt_msk dest: div_mod_8_eq)

lemma vt_clear_bit: "i div 8 < length bs \<Longrightarrow> vt_bit (vt_clear i bs) j \<longleftrightarrow> j \<noteq> i \<and> vt_bit bs j"
proof -
  assume i: "i div 8 < length bs"
  have "bit (b AND NOT (2 ^ k)) l \<longleftrightarrow> bit b l \<and> l \<noteq> k" if "l < 8" for b :: u8 and k l
    using that by (auto simp: bit_and_iff bit_not_iff bit_vt_msk)
  with i show ?thesis
    by (auto simp: vt_bit_def vt_clear_def vt_index nth_list_update dest: div_mod_8_eq)
qed

lemma length_vt [simp]: "length (vt_set i bs) = length bs" "length (vt_clear i bs) = length bs"
  by (simp_all add: vt_set_def vt_clear_def)

section \<open>What a virtual timer does\<close>

text \<open>A timer on its own: the abstract state of timer \<open>i\<close> and its reaction to a tick.\<close>

record vtimer =
  vt_count :: u32
  vt_limit :: u32
  vt_periodic :: bool
  vt_enabled :: bool
  vt_flag :: bool

definition vtimer_of :: "vtmr_state \<Rightarrow> nat \<Rightarrow> vtimer" where
  "vtimer_of s i = \<lparr>vt_count = vtmr_counters s ! i, vt_limit = vtmr_period_limit s ! i,
     vt_periodic = vt_bit (vtmr_int_periodic_flag s) i, vt_enabled = vt_bit (vtmr_int_enabled s) i,
     vt_flag = vt_bit (vtmr_int_flag s) i\<rparr>"

definition vtimer_fires :: "vtimer \<Rightarrow> bool" where
  "vtimer_fires t \<longleftrightarrow> vt_limit t \<le> vt_count t + 1"

definition vtimer_step :: "vtimer \<Rightarrow> vtimer" where
  "vtimer_step t =
     (if vtimer_fires t
      then t\<lparr>vt_count := (if vt_periodic t then 0 else vt_count t + 1), vt_enabled := vt_enabled t \<and> vt_periodic t, vt_flag := True\<rparr>
      else t\<lparr>vt_count := vt_count t + 1\<rparr>)"

definition vtimer_raises :: "vtimer \<Rightarrow> bool" where
  "vtimer_raises t \<longleftrightarrow> vtimer_fires t \<and> vt_enabled t"

definition vtmr_wf :: "nat \<Rightarrow> vtmr_state \<Rightarrow> bool" where
  "vtmr_wf n s \<longleftrightarrow> length (vtmr_counters s) = n \<and> length (vtmr_period_limit s) = n \<and>
     length (vtmr_int_periodic_flag s) = (n + 7) div 8 \<and> length (vtmr_int_enabled s) = (n + 7) div 8 \<and>
     length (vtmr_int_flag s) = (n + 7) div 8 \<and> n < 128"

lemma vtmr_wf_byte: "vtmr_wf n s \<Longrightarrow> i < n \<Longrightarrow> i div 8 < (n + 7) div 8"
  by simp

lemma vtmr_tick_one_step:
  assumes "vtmr_wf n s" "i < n" "vtmr_tick_one raise i (s, q) = (s', q')"
  shows "vtmr_wf n s'" "vtmr_reset_idx s' = vtmr_reset_idx s"
    "vtimer_of s' j = (if j = i then vtimer_step (vtimer_of s i) else vtimer_of s j)"
    "q' = (if vtimer_raises (vtimer_of s i) then raise (word_of_nat (i + VTMR_FIRST_ID)) q else q)"
proof -
  have len: "i < length (vtmr_counters s)" "i div 8 < length (vtmr_int_periodic_flag s)"
    "i div 8 < length (vtmr_int_enabled s)" "i div 8 < length (vtmr_int_flag s)"
    using assms(1,2) by (auto simp: vtmr_wf_def)
  note defs = vtmr_tick_one_def Let_def vtimer_of_def vtimer_step_def vtimer_fires_def vtimer_raises_def
    vt_test_bit
  show "vtmr_wf n s'" "vtmr_reset_idx s' = vtmr_reset_idx s"
    using assms by (auto simp: vtmr_wf_def defs split: if_split_asm)
  show "vtimer_of s' j = (if j = i then vtimer_step (vtimer_of s i) else vtimer_of s j)"
    using assms(3) len by (auto simp: defs vt_set_bit vt_clear_bit split: if_split_asm)
  show "q' = (if vtimer_raises (vtimer_of s i) then raise (word_of_nat (i + VTMR_FIRST_ID)) q else q)"
    using assms(3) len by (auto simp: defs split: if_split_asm)
qed

text \<open>The interrupts of one tick, in the order they are raised.\<close>

definition vt_raised :: "nat \<Rightarrow> vtmr_state \<Rightarrow> nat list" where
  "vt_raised n s = filter (\<lambda>i. vtimer_raises (vtimer_of s i)) [0..<n]"

lemma vtmr_tick_fold:
  assumes "vtmr_wf n s" "m \<le> n" "fold (vtmr_tick_one raise) [0..<m] (s, q) = (s', q')"
  shows "vtmr_wf n s' \<and> vtmr_reset_idx s' = vtmr_reset_idx s \<and>
    (\<forall>j. vtimer_of s' j = (if j < m then vtimer_step (vtimer_of s j) else vtimer_of s j)) \<and>
    q' = fold (\<lambda>i. raise (word_of_nat (i + VTMR_FIRST_ID))) (filter (\<lambda>i. vtimer_raises (vtimer_of s i)) [0..<m]) q"
  using assms(2,3)
proof (induction m arbitrary: s' q')
  case 0
  with assms(1) show ?case by simp
next
  case (Suc m)
  obtain s1 q1 where f: "fold (vtmr_tick_one raise) [0..<m] (s, q) = (s1, q1)" by fastforce
  with Suc have IH: "vtmr_wf n s1" "vtmr_reset_idx s1 = vtmr_reset_idx s"
    "vtimer_of s1 j = (if j < m then vtimer_step (vtimer_of s j) else vtimer_of s j)"
    "q1 = fold (\<lambda>i. raise (word_of_nat (i + VTMR_FIRST_ID))) (filter (\<lambda>i. vtimer_raises (vtimer_of s i)) [0..<m]) q" for j
    by auto
  have "vtmr_tick_one raise m (s1, q1) = (s', q')"
    using Suc.prems(2) f by simp
  from vtmr_tick_one_step [OF IH(1) _ this] Suc.prems(1)
  show ?case
    using IH by (auto simp: less_Suc_eq)
qed

lemma no_reset_idx: "j < 128 \<Longrightarrow> (- 1 :: u8) \<noteq> word_of_nat j"
proof
  assume j: "j < 128" and "(- 1 :: u8) = word_of_nat j"
  then have "unat (- 1 :: u8) = unat (word_of_nat j :: u8)" by (simp only:)
  also have "\<dots> = j"
    using j by (intro unat_of_nat_less) simp
  finally show False
    using j by (simp add: unsigned_minus_1_eq_mask mask_eq_exp_minus_1)
qed

lemma cmn_virtual_timer_cb_eq:
  assumes "vtmr_wf n s" "vtmr_reset_idx s = -1 \<or> unat (vtmr_reset_idx s) < n"
  obtains s' where "cmn_virtual_timer_cb raise n (s, q) =
      Some (s', fold (\<lambda>i. raise (word_of_nat (i + VTMR_FIRST_ID))) (vt_raised n s) q)"
    "vtmr_wf n s'" "vtmr_reset_idx s' = -1"
    "\<And>j. j < n \<Longrightarrow> vtimer_of s' j = (if vtmr_reset_idx s = word_of_nat j
       then (vtimer_step (vtimer_of s j))\<lparr>vt_count := 0\<rparr> else vtimer_step (vtimer_of s j))"
proof -
  obtain s1 q1 where f: "fold (vtmr_tick_one raise) [0..<n] (s, q) = (s1, q1)" by fastforce
  have s1: "vtmr_wf n s1" "vtmr_reset_idx s1 = vtmr_reset_idx s" "j < n \<Longrightarrow> vtimer_of s1 j = vtimer_step (vtimer_of s j)"
    "q1 = fold (\<lambda>i. raise (word_of_nat (i + VTMR_FIRST_ID))) (vt_raised n s) q" for j
    using vtmr_tick_fold [OF assms(1) le_refl f] by (auto simp: vt_raised_def)
  have n: "n < 128"
    using assms(1) by (simp add: vtmr_wf_def)
  have w: "unat (word_of_nat j :: u8) = j" if "j < n" for j
    using that n by (intro unat_of_nat_less) simp
  have neg: "(- 1 :: u8) \<noteq> word_of_nat j" if "j < n" for j
    using that n by (intro no_reset_idx) simp
  show ?thesis
  proof (cases "vtmr_reset_idx s = -1")
    case True
    show ?thesis
    proof (rule that [of s1])
      show "cmn_virtual_timer_cb raise n (s, q) =
          Some (s1, fold (\<lambda>i. raise (word_of_nat (i + VTMR_FIRST_ID))) (vt_raised n s) q)"
        using True s1 f by (simp add: cmn_virtual_timer_cb_def)
      show "vtimer_of s1 j = (if vtmr_reset_idx s = word_of_nat j
          then (vtimer_step (vtimer_of s j))\<lparr>vt_count := 0\<rparr> else vtimer_step (vtimer_of s j))" if "j < n" for j
        using True s1(3) [OF that] neg [OF that] by (metis)
    qed (use True s1 in auto)
  next
    case False
    define r where "r = unat (vtmr_reset_idx s)"
    have r: "r < n" "vtmr_reset_idx s = word_of_nat r"
      using assms(2) False by (auto simp: r_def)
    have pos: "\<not> sint (vtmr_reset_idx s) < 0"
    proof -
      have "\<not> bit r 7"
        using r(1) n by (simp add: bit_iff_odd)
      then show ?thesis
        using bit_last_iff [of "vtmr_reset_idx s"] by (simp add: r_def bit_unsigned_iff)
    qed
    let ?s = "s1\<lparr>vtmr_counters := (vtmr_counters s1)[r := 0], vtmr_reset_idx := -1\<rparr>"
    show ?thesis
    proof (rule that [of ?s])
      show "cmn_virtual_timer_cb raise n (s, q) =
          Some (?s, fold (\<lambda>i. raise (word_of_nat (i + VTMR_FIRST_ID))) (vt_raised n s) q)"
        using False s1(2,4) f pos r(1) unfolding r_def by (simp add: cmn_virtual_timer_cb_def)
      show "vtmr_wf n ?s"
        using s1(1) by (simp add: vtmr_wf_def)
      show "vtimer_of ?s j = (if vtmr_reset_idx s = word_of_nat j
          then (vtimer_step (vtimer_of s j))\<lparr>vt_count := 0\<rparr> else vtimer_step (vtimer_of s j))" if j: "j < n" for j
      proof -
        have "vtmr_reset_idx s = word_of_nat j \<longleftrightarrow> j = r"
          using w [OF j] w [OF r(1)] r(2) by metis
        moreover have "vtimer_of ?s j = (if j = r then (vtimer_of s1 j)\<lparr>vt_count := 0\<rparr> else vtimer_of s1 j)"
          using j s1(1) by (simp add: vtimer_of_def vtmr_wf_def)
        ultimately show ?thesis
          using s1(3) [OF j] by (cases "j = r") auto
      qed
    qed simp
  qed
qed

text \<open>C36. One timer interrupt advances each virtual timer exactly as if it were alone, resets the one for
  which a reset was requested, and raises the match interrupts of the enabled timers that reached
  their limit, in the order of the timers.\<close>

theorem vtmr_tick_refines:
  assumes "vtmr_wf n s" and "vtmr_reset_idx s = -1 \<or> unat (vtmr_reset_idx s) < n"
  shows "\<exists>s'. cmn_virtual_timer_cb raise n (s, q) =
      Some (s', fold (\<lambda>i. raise (word_of_nat (i + VTMR_FIRST_ID))) (vt_raised n s) q) \<and>
    vtmr_wf n s' \<and> vtmr_reset_idx s' = -1 \<and>
    (\<forall>j<n. vtimer_of s' j = (if vtmr_reset_idx s = word_of_nat j
       then (vtimer_step (vtimer_of s j))\<lparr>vt_count := 0\<rparr> else vtimer_step (vtimer_of s j)))"
  using cmn_virtual_timer_cb_eq [OF assms, of raise q] by metis

text \<open>Two timers: the first is periodic with a period of three ticks, the second is stopped.\<close>

definition vtmr_demo :: vtmr_state where
  "vtmr_demo = \<lparr>vtmr_counters = [0, 7], vtmr_reset_idx = -1, vtmr_period_limit = [3, 0],
     vtmr_int_periodic_flag = [1], vtmr_int_enabled = [1], vtmr_int_flag = [0]\<rparr>"

lemma vtmr_demo_wf: "vtmr_wf 2 vtmr_demo" "vtmr_reset_idx vtmr_demo = -1"
  by (simp_all add: vtmr_demo_def vtmr_wf_def)

theorem vtmr_tick_refines_witness:
  "\<exists>s'. cmn_virtual_timer_cb (\<lambda>r q. q @ [r]) 2 (vtmr_demo, []) = Some (s', []) \<and> vt_count (vtimer_of s' 1) = 8"
proof -
  have upt: "[0..<2] = [0, 1 :: nat]"
    by (simp add: upt_rec)
  have r: "vt_raised 2 vtmr_demo = []"
    by (simp add: vt_raised_def upt vtimer_raises_def vtimer_fires_def vtimer_of_def vtmr_demo_def vt_bit_def word_le_nat_alt)
  have "vt_count (vtimer_step (vtimer_of vtmr_demo 1)) = 8"
    by (simp add: vtimer_step_def vtimer_fires_def vtimer_of_def vtmr_demo_def vt_bit_def)
  moreover have "(- 1 :: u8) \<noteq> word_of_nat 1"
    by (rule no_reset_idx) simp
  ultimately show ?thesis
    using vtmr_tick_refines [OF vtmr_demo_wf(1), of "\<lambda>r q. q @ [r]" "[]"] unfolding r vtmr_demo_wf(2)
    by (auto dest!: spec [of _ 1])
qed

section \<open>Sequences of ticks\<close>

fun vtmr_run :: "(u16 \<Rightarrow> 'q \<Rightarrow> 'q) \<Rightarrow> nat \<Rightarrow> nat \<Rightarrow> vtmr_state \<times> 'q \<Rightarrow> (vtmr_state \<times> 'q) option" where
  "vtmr_run raise n 0 st = Some st"
| "vtmr_run raise n (Suc k) st = do { st' \<leftarrow> cmn_virtual_timer_cb raise n st; vtmr_run raise n k st' }"

lemma vtmr_run_snoc:
  "vtmr_run raise n (Suc k) st = do { st' \<leftarrow> vtmr_run raise n k st; cmn_virtual_timer_cb raise n st' }"
proof (induction k arbitrary: st)
  case 0
  then show ?case by (cases "cmn_virtual_timer_cb raise n st") simp_all
next
  case (Suc k)
  show ?case
    using Suc.IH by (cases "cmn_virtual_timer_cb raise n st") simp_all
qed

text \<open>The log of raised interrupts.\<close>

abbreviation vt_log :: "u16 \<Rightarrow> u16 list \<Rightarrow> u16 list" where
  "vt_log \<equiv> \<lambda>r q. q @ [r]"

lemma fold_vt_log: "fold (\<lambda>i. vt_log (f i)) is q = q @ map f is"
  by (induction "is" arbitrary: q) auto

lemma count_list_filter_map:
  "inj_on f {..<n} \<Longrightarrow> i < n \<Longrightarrow> m \<le> n \<Longrightarrow>
   count_list (map f (filter P [0..<m])) (f i) = (if i < m \<and> P i then 1 else 0)"
  by (induction m) (auto simp: less_Suc_eq dest: inj_onD)

lemma vt_resnum_inj: "n < 128 \<Longrightarrow> inj_on (\<lambda>i. word_of_nat (i + VTMR_FIRST_ID) :: u16) {..<n}"
proof (rule inj_onI)
  fix i j
  assume *: "n < 128" "i \<in> {..<n}" "j \<in> {..<n}" "(word_of_nat (i + VTMR_FIRST_ID) :: u16) = word_of_nat (j + VTMR_FIRST_ID)"
  have "unat (word_of_nat (k + VTMR_FIRST_ID) :: u16) = k + VTMR_FIRST_ID" if "k < n" for k
    using *(1) that by (intro unat_of_nat_less) (simp add: VTMR_FIRST_ID_def)
  then show "i = j"
    using * by (metis add_right_cancel lessThan_iff)
qed

text \<open>A periodic timer on its own.\<close>

lemma vtimer_periodic_step:
  assumes "vt_periodic t" "vt_enabled t" "vt_limit t = L" "L \<noteq> 0" "vt_count t = word_of_nat (k mod unat L)"
  shows "vtimer_raises t \<longleftrightarrow> Suc k mod unat L = 0" "vt_count (vtimer_step t) = word_of_nat (Suc k mod unat L)"
    "vt_periodic (vtimer_step t)" "vt_enabled (vtimer_step t)" "vt_limit (vtimer_step t) = L"
proof -
  have L: "0 < unat L" "unat L < 2 ^ 32"
    using assms(4) unsigned_less [of L, where ?'a = nat] by (auto simp: unat_gt_0)
  have m: "k mod unat L < unat L" using L(1) by simp
  have "unat (word_of_nat (Suc (k mod unat L)) :: u32) = Suc (k mod unat L)"
    using m L(2) by (intro unat_of_nat_less) simp
  then have fires: "vtimer_fires t \<longleftrightarrow> unat L \<le> Suc (k mod unat L)"
    using assms by (simp add: vtimer_fires_def word_le_nat_alt add.commute)
  have suc: "Suc k mod unat L = (if unat L \<le> Suc (k mod unat L) then 0 else Suc (k mod unat L))"
    using m by (auto simp: mod_Suc)
  show "vtimer_raises t \<longleftrightarrow> Suc k mod unat L = 0"
    using fires suc assms by (auto simp: vtimer_raises_def)
  show "vt_count (vtimer_step t) = word_of_nat (Suc k mod unat L)"
    using fires suc assms by (auto simp: vtimer_step_def add.commute)
  show "vt_periodic (vtimer_step t)" "vt_enabled (vtimer_step t)" "vt_limit (vtimer_step t) = L"
    using assms by (auto simp: vtimer_step_def)
qed

lemma div_Suc_count: "0 < (L :: nat) \<Longrightarrow> Suc k div L = k div L + (if Suc k mod L = 0 then 1 else 0)"
  by (simp add: div_Suc)

lemma vtmr_periodic_run:
  assumes wf: "vtmr_wf n s" "vtmr_reset_idx s = -1" and i: "i < n"
    and t: "vt_periodic (vtimer_of s i)" "vt_enabled (vtimer_of s i)" "vt_limit (vtimer_of s i) = L" "L \<noteq> 0" "vt_count (vtimer_of s i) = 0"
  shows "\<exists>s' log. vtmr_run vt_log n k (s, []) = Some (s', log) \<and> vtmr_wf n s' \<and> vtmr_reset_idx s' = -1 \<and>
    vt_periodic (vtimer_of s' i) \<and> vt_enabled (vtimer_of s' i) \<and> vt_limit (vtimer_of s' i) = L \<and>
    vt_count (vtimer_of s' i) = word_of_nat (k mod unat L) \<and>
    count_list log (word_of_nat (i + VTMR_FIRST_ID)) = k div unat L"
proof (induction k)
  case 0
  with wf t show ?case by simp
next
  case (Suc k)
  then obtain s1 log where k: "vtmr_run vt_log n k (s, []) = Some (s1, log)" "vtmr_wf n s1" "vtmr_reset_idx s1 = -1"
    "vt_periodic (vtimer_of s1 i)" "vt_enabled (vtimer_of s1 i)" "vt_limit (vtimer_of s1 i) = L"
    "vt_count (vtimer_of s1 i) = word_of_nat (k mod unat L)"
    "count_list log (word_of_nat (i + VTMR_FIRST_ID)) = k div unat L"
    by blast
  note step = vtimer_periodic_step [OF k(4-6) t(4) k(7)]
  obtain s2 where s2: "cmn_virtual_timer_cb vt_log n (s1, log) =
      Some (s2, log @ map (\<lambda>i. word_of_nat (i + VTMR_FIRST_ID)) (vt_raised n s1))" "vtmr_wf n s2" "vtmr_reset_idx s2 = -1"
    "\<And>j. j < n \<Longrightarrow> vtimer_of s2 j = (if vtmr_reset_idx s1 = word_of_nat j
       then (vtimer_step (vtimer_of s1 j))\<lparr>vt_count := 0\<rparr> else vtimer_step (vtimer_of s1 j))"
    by (rule cmn_virtual_timer_cb_eq [of n s1 vt_log log]) (use k in \<open>auto simp: fold_vt_log\<close>)
  have n: "n < 128" using wf(1) by (simp add: vtmr_wf_def)
  have ne: "vtmr_reset_idx s1 \<noteq> word_of_nat i"
    using no_reset_idx [of i] i n k(3) by simp
  have v: "vtimer_of s2 i = vtimer_step (vtimer_of s1 i)"
    using s2(4) [OF i] ne by simp
  have "count_list (map (\<lambda>i. word_of_nat (i + VTMR_FIRST_ID) :: u16) (vt_raised n s1)) (word_of_nat (i + VTMR_FIRST_ID))
      = (if Suc k mod unat L = 0 then 1 else 0)"
    using count_list_filter_map [OF vt_resnum_inj [OF n] i le_refl, of "\<lambda>i. vtimer_raises (vtimer_of s1 i)"] i step(1)
    by (simp add: vt_raised_def)
  then have "count_list (log @ map (\<lambda>i. word_of_nat (i + VTMR_FIRST_ID)) (vt_raised n s1)) (word_of_nat (i + VTMR_FIRST_ID))
      = Suc k div unat L"
    using k(8) t(4) div_Suc_count [of "unat L" k] by (simp add: unat_gt_0)
  with s2 v step k(1) show ?case
    unfolding vtmr_run_snoc by simp
qed

text \<open>C37. A periodic virtual timer with an enabled match interrupt and a period of \<open>L\<close> ticks raises exactly
  one interrupt in every \<open>L\<close> ticks, whatever the other timers do.\<close>

theorem vtmr_periodic_interrupts:
  assumes "vtmr_wf n s" and "vtmr_reset_idx s = -1" and "i < n" and "vt_periodic (vtimer_of s i)"
    and "vt_enabled (vtimer_of s i)" and "vt_limit (vtimer_of s i) \<noteq> 0" and "vt_count (vtimer_of s i) = 0"
  shows "\<exists>s' log. vtmr_run vt_log n k (s, []) = Some (s', log) \<and>
    count_list log (word_of_nat (i + VTMR_FIRST_ID)) = k div unat (vt_limit (vtimer_of s i))"
  using vtmr_periodic_run [OF assms(1-5) refl assms(6,7)] by metis

theorem vtmr_periodic_interrupts_witness:
  "\<exists>s' log. vtmr_run vt_log 2 7 (vtmr_demo, []) = Some (s', log) \<and> count_list log 0x200 = 2"
proof -
  have t: "vt_periodic (vtimer_of vtmr_demo 0)" "vt_enabled (vtimer_of vtmr_demo 0)" "vt_limit (vtimer_of vtmr_demo 0) = 3"
    "vt_count (vtimer_of vtmr_demo 0) = 0"
    by (simp_all add: vtimer_of_def vtmr_demo_def vt_bit_def)
  show ?thesis
    using vtmr_periodic_interrupts [OF vtmr_demo_wf, of 0 7] t by (simp add: VTMR_FIRST_ID_def del: vtmr_run.simps)
qed

text \<open>The busy wait of a delay.\<close>

lemma unat_ucast_64: "unat (ucast (c :: u32) :: u64) = unat c"
proof -
  have "unat c < 2 ^ 64"
    using unsigned_less [of c, where ?'a = nat] by simp
  then show ?thesis
    by (simp add: unsigned_ucast_eq take_bit_nat_eq_self)
qed

lemma ucast_less_64: "ucast (c :: u32) < (f :: u64) \<longleftrightarrow> unat c < unat f"
  by (simp only: word_less_nat_alt unat_ucast_64)

lemma vtmr_wait_run:
  assumes "vtmr_wf n s" "vtmr_reset_idx s = -1" "i < n" "\<not> vt_periodic (vtimer_of s i)"
    "unat (vtmr_counters s ! i) + k = unat final" "unat final < 2 ^ 32"
  shows "\<exists>st. vtmr_run raise n k (s, q) = Some st \<and> vtmr_wait raise n i final (s, q) = Some st"
  using assms
proof (induction k arbitrary: s q)
  case 0
  have "\<not> ucast (vtmr_counters s ! i) < final"
    using 0(5) by (simp add: ucast_less_64)
  then show ?case
    by (simp add: vtmr_wait.simps [of raise n i final "(s, q)"])
next
  case (Suc k)
  obtain s1 where s1: "cmn_virtual_timer_cb raise n (s, q) =
      Some (s1, fold (\<lambda>i. raise (word_of_nat (i + VTMR_FIRST_ID))) (vt_raised n s) q)" "vtmr_wf n s1" "vtmr_reset_idx s1 = -1"
    "\<And>j. j < n \<Longrightarrow> vtimer_of s1 j = (if vtmr_reset_idx s = word_of_nat j
       then (vtimer_step (vtimer_of s j))\<lparr>vt_count := 0\<rparr> else vtimer_step (vtimer_of s j))"
    using cmn_virtual_timer_cb_eq [OF Suc.prems(1), of raise q] Suc.prems(2) by metis
  have n: "n < 128" using Suc.prems(1) by (simp add: vtmr_wf_def)
  have "vtimer_of s1 i = vtimer_step (vtimer_of s i)"
    using s1(4) [OF Suc.prems(3)] no_reset_idx [of i] Suc.prems(2,3) n by simp
  then have c: "vtmr_counters s1 ! i = vtmr_counters s ! i + 1" and np: "\<not> vt_periodic (vtimer_of s1 i)"
    using Suc.prems(4) by (auto simp: vtimer_of_def vtimer_step_def split: if_split_asm)
  have "unat (vtmr_counters s ! i + 1) = unat (vtmr_counters s ! i) + 1"
    using unat_add_lem [of "vtmr_counters s ! i" 1] Suc.prems(5,6) by simp
  then have "\<exists>st. vtmr_run raise n k (s1, fold (\<lambda>i. raise (word_of_nat (i + VTMR_FIRST_ID))) (vt_raised n s) q) = Some st \<and>
      vtmr_wait raise n i final (s1, fold (\<lambda>i. raise (word_of_nat (i + VTMR_FIRST_ID))) (vt_raised n s) q) = Some st"
    using Suc.prems(3,5,6) s1(2,3) np c by (intro Suc.IH) auto
  moreover have "ucast (vtmr_counters s ! i) < final"
    using Suc.prems(5) by (simp add: ucast_less_64)
  ultimately show ?case
    using s1(1) by (simp add: vtmr_wait.simps [of raise n i final "(s, q)"])
qed

lemma vtmr_reset_eq:
  assumes "vtmr_wf n s" "i < n"
  obtains s' q' where "vtmr_reset_timer raise n (i + VTMR_FIRST_ID) (s, q) = Some (s', q')" "vtmr_wf n s'" "vtmr_reset_idx s' = -1"
    "vtimer_of s' i = (vtimer_step (vtimer_of s i))\<lparr>vt_count := 0\<rparr>"
    "\<And>j. j < n \<Longrightarrow> j \<noteq> i \<Longrightarrow> vtimer_of s' j = vtimer_step (vtimer_of s j)"
    "vtmr_run raise n 1 (s\<lparr>vtmr_reset_idx := word_of_nat i\<rparr>, q) = Some (s', q')"
proof -
  let ?s = "s\<lparr>vtmr_reset_idx := word_of_nat i\<rparr>"
  have n: "n < 128" and wf: "vtmr_wf n ?s"
    using assms(1) by (auto simp: vtmr_wf_def)
  have w: "unat (word_of_nat j :: u8) = j" if "j < n" for j
    using that n by (intro unat_of_nat_less) simp
  have v: "vtimer_of ?s j = vtimer_of s j" for j
    by (simp add: vtimer_of_def)
  have idx: "vtmr_reset_idx ?s = -1 \<or> unat (vtmr_reset_idx ?s) < n"
    using w [OF assms(2)] assms(2) by simp
  obtain s1 where s1: "cmn_virtual_timer_cb raise n (?s, q) =
      Some (s1, fold (\<lambda>i. raise (word_of_nat (i + VTMR_FIRST_ID))) (vt_raised n ?s) q)" "vtmr_wf n s1" "vtmr_reset_idx s1 = -1"
    "\<And>j. j < n \<Longrightarrow> vtimer_of s1 j = (if vtmr_reset_idx ?s = word_of_nat j
       then (vtimer_step (vtimer_of ?s j))\<lparr>vt_count := 0\<rparr> else vtimer_step (vtimer_of ?s j))"
    using cmn_virtual_timer_cb_eq [OF wf idx, of raise q] by metis
  show ?thesis
  proof (rule that [OF _ s1(2,3)])
    show "vtmr_reset_timer raise n (i + VTMR_FIRST_ID) (s, q) =
        Some (s1, fold (\<lambda>i. raise (word_of_nat (i + VTMR_FIRST_ID))) (vt_raised n ?s) q)"
      using s1(1) by (simp add: vtmr_reset_timer_def VTMR_GET_ID_def)
    show "vtmr_run raise n 1 (?s, q) = Some (s1, fold (\<lambda>i. raise (word_of_nat (i + VTMR_FIRST_ID))) (vt_raised n ?s) q)"
      using s1(1) by simp
    show "vtimer_of s1 i = (vtimer_step (vtimer_of s i))\<lparr>vt_count := 0\<rparr>"
      using s1(4) [OF assms(2)] by (simp add: v)
    show "vtimer_of s1 j = vtimer_step (vtimer_of s j)" if "j < n" "j \<noteq> i" for j
      using s1(4) [OF that(1)] w [OF that(1)] w [OF assms(2)] that(2) by (auto simp: v)
  qed
qed

text \<open>A delay on a virtual timer that is not in periodic mode ends: it waits for the interrupt that
  resets the timer and then for exactly as many interrupts as there are timer periods in the delay.\<close>

theorem vtmr_delay_ticks:
  assumes "vtmr_wf n s" and "i < n" and "\<not> vt_periodic (vtimer_of s i)" and "delay_us \<le> VTMR_MAX_PERIOD"
    and "unat (vtmr_ticks freq delay_us) < 2 ^ 32"
  shows "\<exists>st. vtmr_delay raise n freq (i + VTMR_FIRST_ID) delay_us (s, q) = Some st \<and>
    vtmr_run raise n (Suc (unat (vtmr_ticks freq delay_us))) (s\<lparr>vtmr_reset_idx := word_of_nat i\<rparr>, q) = Some st"
proof -
  obtain s1 q1 where r: "vtmr_reset_timer raise n (i + VTMR_FIRST_ID) (s, q) = Some (s1, q1)" "vtmr_wf n s1" "vtmr_reset_idx s1 = -1"
    "vtimer_of s1 i = (vtimer_step (vtimer_of s i))\<lparr>vt_count := 0\<rparr>"
    "vtmr_run raise n 1 (s\<lparr>vtmr_reset_idx := word_of_nat i\<rparr>, q) = Some (s1, q1)"
    using vtmr_reset_eq [OF assms(1,2), of raise q] by metis
  have np: "\<not> vt_periodic (vtimer_of s1 i)" "vtmr_counters s1 ! i = 0"
    using r(4) assms(3) by (auto simp: vtimer_step_def vtimer_of_def split: if_split_asm)
  obtain st where st: "vtmr_run raise n (unat (vtmr_ticks freq delay_us)) (s1, q1) = Some st"
    "vtmr_wait raise n i (vtmr_ticks freq delay_us) (s1, q1) = Some st"
    using vtmr_wait_run [OF r(2,3) assms(2) np(1), where k = "unat (vtmr_ticks freq delay_us)"
        and final = "vtmr_ticks freq delay_us" and raise = raise and q = q1] np(2) assms(5) by auto
  have "cmn_virtual_timer_cb raise n (s\<lparr>vtmr_reset_idx := word_of_nat i\<rparr>, q) = Some (s1, q1)"
    using r(5) by (simp split: bind_split_asm)
  with r(1) st assms(4) show ?thesis
    by (simp add: vtmr_delay_def VTMR_GET_ID_def not_less [symmetric])
qed

theorem vtmr_delay_ticks_witness:
  "\<exists>st. vtmr_delay vt_log 2 4 0x201 1000000 (vtmr_demo, []) = Some st"
proof -
  have "\<not> vt_periodic (vtimer_of vtmr_demo 1)"
    by (simp add: vtimer_of_def vtmr_demo_def vt_bit_def)
  then show ?thesis
    using vtmr_delay_ticks [OF vtmr_demo_wf(1), of 1 1000000 4 vt_log "[]"]
    by (auto simp: VTMR_MAX_PERIOD_def vtmr_ticks_def VTMR_FIRST_ID_def)
qed

section \<open>Timer operations\<close>

text \<open>The board: the number of hardware timers, their operations, the reading of the system timer, and
  whether hardware timers count down. An operation of a hardware timer may change the board's
  state.\<close>

record 'w timer_board =
  NUM_TIMER :: nat
  SYSTIMER_SUPPORT :: bool
  TMR_COUNTS_DOWN :: bool
  VTMR_NUM_TIMERS :: nat
  VTMR_FREQ_HZ :: u32
  platform_s_timer_op :: "nat \<Rightarrow> timer_op \<Rightarrow> u64 \<Rightarrow> 'w \<Rightarrow> u64 \<times> 'w"
  platform_timer_read_sys :: "'w \<Rightarrow> u64 \<times> 'w"

definition platform_timer_sys_available :: "'w timer_board \<Rightarrow> bool" where
  "platform_timer_sys_available b = SYSTIMER_SUPPORT b"

definition platform_timer_exists :: "'w timer_board \<Rightarrow> nat \<Rightarrow> bool" where
  "platform_timer_exists b x \<longleftrightarrow>
     (if 0 < VTMR_NUM_TIMERS b \<and> VTMR_FIRST_ID \<le> x then TIMER_IS_VIRTUAL (VTMR_NUM_TIMERS b) x
      else x < NUM_TIMER b \<or> x = PLATFORM_TIMER_SYS_ID \<and> SYSTIMER_SUPPORT b)"

text \<open>The arithmetic of \<open>platform_timer_get_diff_us\<close>, given the clock and the largest count. \<open>freq\<close> is
  stored in a \<open>u32\<close>; \<open>None\<close> is the division by zero.\<close>

definition diff_us :: "u64 \<Rightarrow> u64 \<Rightarrow> u64 \<Rightarrow> u64 \<Rightarrow> u64 option" where
  "diff_us clock max_cnt start stop =
     (let freq = (ucast clock :: u32);
          tend = (if start > stop then stop + (max_cnt + 1) else stop)
      in if freq = 0 then None
         else Some (min ((tend - start) * 1000000 div ucast freq) PLATFORM_TIMER_SYS_MAX))"

text \<open>The operations of the system timer and of a virtual timer that do not change the state, and the
  clock and the largest count of any timer.\<close>

definition sys_timer_op :: "timer_op \<Rightarrow> u64 \<Rightarrow> u64" where
  "sys_timer_op opn now = (case opn of
       PLATFORM_TIMER_OP_START \<Rightarrow> now | PLATFORM_TIMER_OP_READ \<Rightarrow> now
     | PLATFORM_TIMER_OP_SET_CLOCK \<Rightarrow> PLATFORM_TIMER_SYS_FREQ | PLATFORM_TIMER_OP_GET_CLOCK \<Rightarrow> PLATFORM_TIMER_SYS_FREQ
     | PLATFORM_TIMER_OP_GET_MAX_DELAY \<Rightarrow> PLATFORM_TIMER_SYS_MAX + 1 | PLATFORM_TIMER_OP_GET_MAX_CNT \<Rightarrow> PLATFORM_TIMER_SYS_MAX
     | PLATFORM_TIMER_OP_GET_MIN_DELAY \<Rightarrow> 1)"

text \<open>An operation of \<open>platform_timer_op\<close> that calls back into \<open>platform_timer_get_diff_us\<close> only asks it
  for the clock and the largest count, which do not call back.\<close>

definition timer_const :: "'w timer_board \<Rightarrow> nat \<Rightarrow> timer_op \<Rightarrow> 'w \<Rightarrow> u64 \<times> 'w" where
  "timer_const b x opn w =
     (if x = PLATFORM_TIMER_SYS_ID then (if SYSTIMER_SUPPORT b then sys_timer_op opn 0 else 0, w)
      else if \<not> TIMER_IS_VIRTUAL (VTMR_NUM_TIMERS b) x then platform_s_timer_op b x opn 0 w
      else (case opn of PLATFORM_TIMER_OP_GET_MAX_CNT \<Rightarrow> VTMR_MAX_PERIOD | _ \<Rightarrow> ucast (VTMR_FREQ_HZ b), w))"

definition platform_timer_get_diff_us :: "'w timer_board \<Rightarrow> nat \<Rightarrow> u64 \<Rightarrow> u64 \<Rightarrow> 'w \<Rightarrow> (u64 \<times> 'w) option" where
  "platform_timer_get_diff_us b x start stop w =
     (let (clock, w1) = timer_const b x PLATFORM_TIMER_OP_GET_CLOCK w;
          (max_cnt, w2) = (if start > stop then timer_const b x PLATFORM_TIMER_OP_GET_MAX_CNT w1 else (0, w1))
      in map_option (\<lambda>d. (d, w2)) (diff_us clock max_cnt start stop))"

text \<open>\<open>raise\<close> and the virtual timers as above; the state is that of the virtual timers, the interrupt queue
  and the board.\<close>

definition platform_timer_op :: "(u16 \<Rightarrow> 'q \<Rightarrow> 'q) \<Rightarrow> 'w timer_board \<Rightarrow> nat \<Rightarrow> timer_op \<Rightarrow> u64 \<Rightarrow>
    (vtmr_state \<times> 'q) \<times> 'w \<Rightarrow> (u64 \<times> (vtmr_state \<times> 'q) \<times> 'w) option" where
  "platform_timer_op raise b x opn data = (\<lambda>(st, w).
     if x = PLATFORM_TIMER_SYS_ID then
       (if \<not> SYSTIMER_SUPPORT b then Some (0, st, w)
        else if opn = PLATFORM_TIMER_OP_START \<or> opn = PLATFORM_TIMER_OP_READ
        then (let (now, w') = platform_timer_read_sys b w in Some (sys_timer_op opn now, st, w'))
        else Some (sys_timer_op opn 0, st, w))
     else if \<not> TIMER_IS_VIRTUAL (VTMR_NUM_TIMERS b) x then
       (if opn = PLATFORM_TIMER_OP_GET_MAX_DELAY
        then (let (mx, w1) = timer_const b x PLATFORM_TIMER_OP_GET_MAX_CNT w
              in map_option (\<lambda>(d, w2). (d, st, w2)) (platform_timer_get_diff_us b x 0 mx w1))
        else if opn = PLATFORM_TIMER_OP_GET_MIN_DELAY
        then map_option (\<lambda>(d, w1). (d, st, w1)) (platform_timer_get_diff_us b x 0 1 w)
        else if TMR_COUNTS_DOWN b \<and> (opn = PLATFORM_TIMER_OP_START \<or> opn = PLATFORM_TIMER_OP_READ)
        then (let (mx, w1) = platform_s_timer_op b x PLATFORM_TIMER_OP_GET_MAX_CNT 0 w;
                  (v, w2) = platform_s_timer_op b x opn 0 w1
              in Some (mx - v, st, w2))
        else (let (v, w1) = platform_s_timer_op b x opn data w in Some (v, st, w1)))
     else (case opn of
         PLATFORM_TIMER_OP_START \<Rightarrow> map_option (\<lambda>st'. (0, st', w)) (vtmr_reset_timer raise (VTMR_NUM_TIMERS b) x st)
       | PLATFORM_TIMER_OP_READ \<Rightarrow> Some (ucast (vtmr_counters (fst st) ! VTMR_GET_ID x), st, w)
       | PLATFORM_TIMER_OP_GET_MAX_DELAY \<Rightarrow>
           map_option (\<lambda>(d, w1). (d, st, w1)) (platform_timer_get_diff_us b x 0 0xFFFFFFFF w)
       | PLATFORM_TIMER_OP_GET_MIN_DELAY \<Rightarrow> map_option (\<lambda>(d, w1). (d, st, w1)) (platform_timer_get_diff_us b x 0 1 w)
       | PLATFORM_TIMER_OP_GET_MAX_CNT \<Rightarrow> Some (VTMR_MAX_PERIOD, st, w)
       | _ \<Rightarrow> Some (ucast (VTMR_FREQ_HZ b), st, w)))"

text \<open>The busy wait on the system timer: \<open>ts\<close> are the values that successive readings give. The result is
  the readings that are left; \<open>None\<close> means that the wait has not ended with them.\<close>

fun sys_delay_loop :: "u64 \<Rightarrow> u64 \<Rightarrow> u64 list \<Rightarrow> u64 list option" where
  "sys_delay_loop delay_us tstart [] = None"
| "sys_delay_loop delay_us tstart (t # ts) =
     (let tend = (if t < tstart then t + (PLATFORM_TIMER_SYS_MAX + 1) else t)
      in if tend - tstart \<ge> delay_us then Some ts else sys_delay_loop delay_us tstart ts)"

definition sys_timer_delay :: "bool \<Rightarrow> u64 \<Rightarrow> u64 list \<Rightarrow> u64 list option" where
  "sys_timer_delay support delay_us ts =
     (if \<not> support \<or> delay_us = 0 then Some ts
      else (case ts of [] \<Rightarrow> None | tstart # ts' \<Rightarrow> sys_delay_loop delay_us tstart ts'))"

text \<open>Which wait a delay performs; the last argument is the delay of the board's own timers.\<close>

definition platform_timer_delay :: "(u16 \<Rightarrow> 'q \<Rightarrow> 'q) \<Rightarrow> 'w timer_board \<Rightarrow> (nat \<Rightarrow> u64 \<Rightarrow> 'w \<Rightarrow> 'w) \<Rightarrow> nat \<Rightarrow> u64 \<Rightarrow> u64 list \<Rightarrow>
    (vtmr_state \<times> 'q) \<times> 'w \<Rightarrow> ((vtmr_state \<times> 'q) \<times> 'w) option" where
  "platform_timer_delay raise b s_delay x delay_us ts = (\<lambda>(st, w).
     if TIMER_IS_VIRTUAL (VTMR_NUM_TIMERS b) x
     then map_option (\<lambda>st'. (st', w)) (vtmr_delay raise (VTMR_NUM_TIMERS b) (VTMR_FREQ_HZ b) x delay_us st)
     else if x = PLATFORM_TIMER_SYS_ID then map_option (\<lambda>_. (st, w)) (sys_timer_delay (SYSTIMER_SUPPORT b) delay_us ts)
     else Some (st, s_delay x delay_us w))"

text \<open>Match interrupts. The board's function for its own timers and the entries of \<open>elua_int_table\<close> for
  \<open>INT_TMR_MATCH\<close> are parameters that work on the board's state; \<open>None\<close> is \<open>NULL\<close>.\<close>

definition platform_timer_set_match_int :: "(u16 \<Rightarrow> 'q \<Rightarrow> 'q) \<Rightarrow> 'w timer_board \<Rightarrow>
    (nat \<Rightarrow> u64 \<Rightarrow> int \<Rightarrow> 'w \<Rightarrow> timer_int_result \<times> 'w) \<Rightarrow> nat \<Rightarrow> u64 \<Rightarrow> int \<Rightarrow>
    (vtmr_state \<times> 'q) \<times> 'w \<Rightarrow> (timer_int_result \<times> (vtmr_state \<times> 'q) \<times> 'w) option" where
  "platform_timer_set_match_int raise b s_match x period_us ty = (\<lambda>(st, w).
     if TIMER_IS_VIRTUAL (VTMR_NUM_TIMERS b) x
     then map_option (\<lambda>(r, st'). (r, st', w))
            (vtmr_set_match_int raise (VTMR_NUM_TIMERS b) (VTMR_FREQ_HZ b) x period_us ty st)
     else if x = PLATFORM_TIMER_SYS_ID then Some (PLATFORM_TIMER_INT_INVALID_ID, st, w)
     else (let (r, w') = s_match x period_us ty w in Some (r, st, w')))"

definition PLATFORM_INT_BAD_RESNUM :: int where "PLATFORM_INT_BAD_RESNUM = - 4"
definition PLATFORM_INT_NOT_HANDLED :: int where "PLATFORM_INT_NOT_HANDLED = - 3"

definition cmn_tmr_int_set_status :: "nat \<Rightarrow> (nat \<Rightarrow> int \<Rightarrow> 'w \<Rightarrow> int \<times> 'w) option \<Rightarrow> nat \<Rightarrow> int \<Rightarrow>
    vtmr_state \<times> 'w \<Rightarrow> int \<times> vtmr_state \<times> 'w" where
  "cmn_tmr_int_set_status n ps resnum status = (\<lambda>(s, w).
     if TIMER_IS_VIRTUAL n resnum then (let (r, s') = vtmr_int_set_status resnum status s in (of_bool r, s', w))
     else if resnum = PLATFORM_TIMER_SYS_ID then (PLATFORM_INT_BAD_RESNUM, s, w)
     else (case ps of
         None \<Rightarrow> (PLATFORM_INT_NOT_HANDLED, s, w)
       | Some f \<Rightarrow> let (r, w') = f resnum status w in (r, s, w')))"

definition cmn_tmr_int_get_status :: "nat \<Rightarrow> (nat \<Rightarrow> 'w \<Rightarrow> int \<times> 'w) option \<Rightarrow> nat \<Rightarrow>
    vtmr_state \<times> 'w \<Rightarrow> int \<times> vtmr_state \<times> 'w" where
  "cmn_tmr_int_get_status n pg resnum = (\<lambda>(s, w).
     if TIMER_IS_VIRTUAL n resnum then (of_bool (vtmr_int_get_status resnum s), s, w)
     else if resnum = PLATFORM_TIMER_SYS_ID then (PLATFORM_INT_BAD_RESNUM, s, w)
     else (case pg of
         None \<Rightarrow> (PLATFORM_INT_NOT_HANDLED, s, w)
       | Some f \<Rightarrow> let (r, w') = f resnum w in (r, s, w')))"

definition cmn_tmr_int_get_flag :: "nat \<Rightarrow> (nat \<Rightarrow> bool \<Rightarrow> 'w \<Rightarrow> int \<times> 'w) option \<Rightarrow> nat \<Rightarrow> bool \<Rightarrow>
    vtmr_state \<times> 'w \<Rightarrow> int \<times> vtmr_state \<times> 'w" where
  "cmn_tmr_int_get_flag n pf resnum clear = (\<lambda>(s, w).
     if TIMER_IS_VIRTUAL n resnum then (let (r, s') = vtmr_int_get_flag resnum clear s in (of_bool r, s', w))
     else if resnum = PLATFORM_TIMER_SYS_ID then (PLATFORM_INT_BAD_RESNUM, s, w)
     else (case pf of
         None \<Rightarrow> (PLATFORM_INT_NOT_HANDLED, s, w)
       | Some f \<Rightarrow> let (r, w') = f resnum clear w in (r, s, w')))"

section \<open>Time differences\<close>

lemma wrap_diff:
  fixes a b M :: nat
  assumes "a \<le> M" "b \<le> M"
  shows "(if b < a then b + (M + 1) else b) - a = nat ((int b - int a) mod (int M + 1))"
proof (cases "b < a")
  case True
  have "(int b - int a) mod (int M + 1) = (int b - int a + (int M + 1)) mod (int M + 1)"
    by simp
  also have "\<dots> = int b - int a + (int M + 1)"
    using True assms(1) by (intro mod_pos_pos_trivial) auto
  finally show ?thesis
    using True assms(1) by (simp add: nat_diff_distrib')
next
  case False
  then have "(int b - int a) mod (int M + 1) = int b - int a"
    using assms(2) by (intro mod_pos_pos_trivial) auto
  with False show ?thesis
    by (simp add: nat_diff_distrib')
qed

text \<open>The number of ticks from one count of a timer to a later one, before which it has wrapped around at most once.\<close>

definition elapsed_ticks :: "u64 \<Rightarrow> u64 \<Rightarrow> u64 \<Rightarrow> nat" where
  "elapsed_ticks max_cnt start stop = nat ((int (unat stop) - int (unat start)) mod (int (unat max_cnt) + 1))"

lemma diff_us_eq:
  assumes "unat start \<le> unat max_cnt" "unat stop \<le> unat max_cnt" "unat max_cnt < 2 ^ 63" "elapsed_ticks max_cnt start stop * 1000000 < 2 ^ 64"
    and "0 < unat clock" "unat clock < 2 ^ 32"
  shows "\<exists>d. diff_us clock max_cnt start stop = Some d \<and>
    unat d = min (elapsed_ticks max_cnt start stop * 1000000 div unat clock) (unat PLATFORM_TIMER_SYS_MAX)"
proof -
  let ?M = "unat max_cnt"
  define tend where "tend = (if start > stop then stop + (max_cnt + 1) else stop)"
  have m1: "unat (max_cnt + 1) = ?M + 1"
    using unat_add_lem [of max_cnt 1] assms(3) by simp
  have te: "unat tend = (if unat stop < unat start then unat stop + (?M + 1) else unat stop)"
    using unat_add_lem [of stop "max_cnt + 1"] assms(2,3) m1 by (simp add: tend_def word_less_nat_alt)
  have ge: "unat start \<le> unat tend" using te assms(1) by simp
  have sub: "unat (tend - start) = unat tend - unat start"
    using ge by (simp add: unat_sub word_le_nat_alt)
  have elapsed: "unat tend - unat start = elapsed_ticks max_cnt start stop"
    by (simp only: te wrap_diff [OF assms(1,2)] elapsed_ticks_def)
  have mult: "unat ((tend - start) * 1000000) = elapsed_ticks max_cnt start stop * 1000000"
    using unat_mult_lem [of "tend - start" 1000000] assms(4) by (simp add: sub elapsed)
  have c: "unat (ucast clock :: u32) = unat clock"
    using assms(6) by (simp add: unsigned_ucast_eq take_bit_nat_eq_self)
  have "unat (ucast clock :: u32) \<noteq> 0"
    using assms(5) unfolding c by simp
  then have fr: "unat (ucast (ucast clock :: u32) :: u64) = unat clock" "(ucast clock :: u32) \<noteq> 0"
    using c by (simp_all only: unat_ucast_64 unsigned_0) auto
  have "unat ((tend - start) * 1000000 div ucast (ucast clock :: u32)) = elapsed_ticks max_cnt start stop * 1000000 div unat clock"
    by (simp only: unat_div mult fr)
  then show ?thesis
    using fr(2) by (simp add: diff_us_def Let_def tend_def [symmetric] min_def word_le_nat_alt)
qed

lemma diff_us_forward: "\<not> start > stop \<Longrightarrow> diff_us clock m start stop = diff_us clock m' start stop"
  by (simp add: diff_us_def Let_def)

text \<open>C38. The time difference of two counts of any timer, a virtual one, one of the board or the system timer, is the time between them in
  microseconds, rounded down: \<open>end\<close> may come after the counter wrapped around once. The result is limited to the largest time of the
  system timer, and it is right as long as a million times the number of ticks fits 64 bits (for the system timer that is a time of 213 days); the clock
  of the timer is positive and fits 32 bits.\<close>

theorem diff_us_elapsed:
  assumes "timer_const b x PLATFORM_TIMER_OP_GET_CLOCK w = (clock, w1)" and "timer_const b x PLATFORM_TIMER_OP_GET_MAX_CNT w1 = (max_cnt, w2)"
    and "unat start \<le> unat max_cnt" and "unat stop \<le> unat max_cnt" and "unat max_cnt < 2 ^ 63"
    and "elapsed_ticks max_cnt start stop * 1000000 < 2 ^ 64" and "0 < unat clock" and "unat clock < 2 ^ 32"
  shows "\<exists>d w'. platform_timer_get_diff_us b x start stop w = Some (d, w') \<and>
    unat d = min (elapsed_ticks max_cnt start stop * 1000000 div unat clock) (unat PLATFORM_TIMER_SYS_MAX)"
  using diff_us_eq [OF assms(3-8)] diff_us_forward [where start = start and stop = stop and clock = clock and m = max_cnt and m' = 0]
  by (cases "start > stop") (auto simp: platform_timer_get_diff_us_def assms(1,2))

text \<open>A board with a system timer, and two of its counts around the largest one.\<close>

definition board_demo :: "unit timer_board" where
  "board_demo = \<lparr>NUM_TIMER = 4, SYSTIMER_SUPPORT = True, TMR_COUNTS_DOWN = True, VTMR_NUM_TIMERS = 4, VTMR_FREQ_HZ = 4,
     platform_s_timer_op = (\<lambda>x opn data w. (0, w)), platform_timer_read_sys = (\<lambda>w. (0, w))\<rparr>"

theorem diff_us_elapsed_witness:
  "\<exists>d w'. platform_timer_get_diff_us board_demo PLATFORM_TIMER_SYS_ID (PLATFORM_TIMER_SYS_MAX - 2) 5 () = Some (d, w') \<and> unat d = 8"
proof -
  have "elapsed_ticks PLATFORM_TIMER_SYS_MAX (PLATFORM_TIMER_SYS_MAX - 2) 5 = 8"
    by (simp add: elapsed_ticks_def PLATFORM_TIMER_SYS_MAX_def)
  with diff_us_elapsed [of board_demo PLATFORM_TIMER_SYS_ID "()" PLATFORM_TIMER_SYS_FREQ "()" PLATFORM_TIMER_SYS_MAX "()" "PLATFORM_TIMER_SYS_MAX - 2" 5]
  show ?thesis
    by (simp add: board_demo_def timer_const_def sys_timer_op_def PLATFORM_TIMER_SYS_MAX_def PLATFORM_TIMER_SYS_FREQ_def)
qed

text \<open>A longer time of the system timer is not returned: the product overflows.\<close>

theorem diff_us_overflows:
  "\<exists>d. diff_us PLATFORM_TIMER_SYS_FREQ PLATFORM_TIMER_SYS_MAX 0 (2 ^ 45) = Some d \<and> unat d < 2 ^ 45"
  by (simp add: diff_us_def PLATFORM_TIMER_SYS_FREQ_def PLATFORM_TIMER_SYS_MAX_def)

section \<open>The system timer\<close>

record systimer =
  systimer_ticks_for_us :: u32
  systimer_counter :: u64
  systimer_us_per_interrupt :: u32

definition cmn_systimer_set_base_freq :: "u32 \<Rightarrow> systimer \<Rightarrow> systimer" where
  "cmn_systimer_set_base_freq freq_hz st = st\<lparr>systimer_ticks_for_us := freq_hz div 1000000\<rparr>"

text \<open>\<open>None\<close> is the division by zero.\<close>

definition cmn_systimer_set_interrupt_freq :: "u32 \<Rightarrow> systimer \<Rightarrow> systimer option" where
  "cmn_systimer_set_interrupt_freq freq_hz st =
     (if freq_hz = 0 then None else Some (st\<lparr>systimer_us_per_interrupt := 1000000 div freq_hz\<rparr>))"

definition cmn_systimer_set_interrupt_period_us :: "u32 \<Rightarrow> systimer \<Rightarrow> systimer" where
  "cmn_systimer_set_interrupt_period_us period st = st\<lparr>systimer_us_per_interrupt := period\<rparr>"

definition cmn_systimer_periodic :: "systimer \<Rightarrow> systimer" where
  "cmn_systimer_periodic st = st\<lparr>systimer_counter := systimer_counter st + ucast (systimer_us_per_interrupt st)\<rparr>"

text \<open>The loop of \<open>cmn_systimer_get\<close>: each element of the list is a reading of \<open>cmn_systimer_counter\<close> and
  the reading of the hardware counter that follows it when the loop goes on. The result is the pair of
  hardware and interrupt counter that the loop ends with; \<open>None\<close> means that it has not ended.\<close>

fun systimer_sample :: "u64 \<Rightarrow> u64 \<Rightarrow> (u64 \<times> u64) list \<Rightarrow> (u64 \<times> u64) option" where
  "systimer_sample tempcnt tempsys [] = None"
| "systimer_sample tempcnt tempsys ((crtsys, raw) # rs) =
     (if crtsys = tempsys then Some (tempcnt, crtsys) else systimer_sample raw crtsys rs)"

definition cmn_systimer_get :: "u64 \<Rightarrow> u64 \<Rightarrow> (u64 \<times> u64) list \<Rightarrow> systimer \<Rightarrow> (u64 \<times> systimer) option" where
  "cmn_systimer_get raw0 cnt0 rs st =
     do {
       (tempcnt, crtsys) \<leftarrow> systimer_sample raw0 cnt0 rs;
       if systimer_ticks_for_us st = 0 then None
       else
         let now = crtsys + tempcnt div ucast (systimer_ticks_for_us st)
         in if now > PLATFORM_TIMER_SYS_MAX
            then Some (now mod PLATFORM_TIMER_SYS_MAX, st\<lparr>systimer_counter := 0\<rparr>)
            else Some (now, st)
     }"

text \<open>What the readings show at time \<open>t\<close> (in microseconds) when the hardware counts microseconds and
  raises an interrupt every \<open>P\<close> of them.\<close>

definition hw_raw :: "nat \<Rightarrow> nat \<Rightarrow> u64" where
  "hw_raw P t = word_of_nat (t mod P)"

definition hw_count :: "nat \<Rightarrow> nat \<Rightarrow> u64" where
  "hw_count P t = word_of_nat (t div P * P)"

definition readings :: "nat \<Rightarrow> (nat \<times> nat) list \<Rightarrow> (u64 \<times> u64) list" where
  "readings P ts = map (\<lambda>(tc, tr). (hw_count P tc, hw_raw P tr)) ts"

lemma hw_count_eq:
  assumes "0 < P" "a < 2 ^ 52" "b < 2 ^ 52" "hw_count P a = hw_count P b"
  shows "a div P = b div P"
proof -
  have "unat (hw_count P x) = x div P * P" if "x < 2 ^ 52" for x :: nat
  proof -
    have "x div P * P < 2 ^ 52"
      using div_times_less_eq_dividend [of x P] that by linarith
    then have "x div P * P < 2 ^ LENGTH(64)"
      by (rule less_trans) simp
    then show ?thesis
      unfolding hw_count_def by (rule unat_of_nat_less)
  qed
  then have "unat (hw_count P a) = a div P * P" "unat (hw_count P b) = b div P * P"
    using assms(2,3) by blast+
  then have "a div P * P = b div P * P"
    using assms(4) by metis
  then show ?thesis
    using assms(1) by simp
qed

text \<open>The readings of the loop happen in the order of time.\<close>

fun in_order :: "nat \<Rightarrow> (nat \<times> nat) list \<Rightarrow> bool" where
  "in_order t [] \<longleftrightarrow> True"
| "in_order t ((tc, tr) # ts) \<longleftrightarrow> t \<le> tc \<and> tc \<le> tr \<and> tr < 2 ^ 52 - 1 \<and> in_order tr ts"

lemma systimer_sample_exact:
  "0 < P \<Longrightarrow> in_order u ts \<Longrightarrow> t0 < 2 ^ 52 - 1 \<Longrightarrow> tc0 < 2 ^ 52 - 1 \<Longrightarrow>
   (\<And>tc. u \<le> tc \<Longrightarrow> tc < 2 ^ 52 - 1 \<Longrightarrow> tc div P = tc0 div P \<Longrightarrow> t0 div P = tc0 div P) \<Longrightarrow>
   systimer_sample (hw_raw P t0) (hw_count P tc0) (readings P ts) = Some (cnt, crt) \<Longrightarrow>
   \<exists>t. t \<in> insert t0 (snd ` set ts) \<and> cnt = hw_raw P t \<and> crt = hw_count P t \<and> t < 2 ^ 52 - 1"
proof (induction ts arbitrary: t0 tc0 u)
  case Nil
  then show ?case by (simp add: readings_def)
next
  case (Cons r ts)
  obtain tc tr where r: "r = (tc, tr)" by (cases r)
  have o: "u \<le> tc" "tc \<le> tr" "tr < 2 ^ 52 - 1" "in_order tr ts"
    using Cons.prems(2) by (auto simp: r)
  show ?case
  proof (cases "hw_count P tc = hw_count P tc0")
    case True
    then have "tc div P = tc0 div P"
      using hw_count_eq [OF Cons.prems(1), of tc tc0] Cons.prems(4) o by simp
    then have "t0 div P = tc0 div P"
      using Cons.prems(5) [of tc] o by simp
    then have "hw_count P tc = hw_count P t0"
      using True by (simp add: hw_count_def)
    moreover have "cnt = hw_raw P t0" "crt = hw_count P tc"
      using Cons.prems(6) True by (auto simp: readings_def r)
    ultimately show ?thesis
      using Cons.prems(3) by (intro exI [of _ t0]) simp
  next
    case False
    have mid: "tr div P = tc div P" if "tr \<le> x" "x div P = tc div P" for x
      using that o(2) div_le_mono [of tc tr P] div_le_mono [of tr x P] by simp
    have "systimer_sample (hw_raw P tr) (hw_count P tc) (readings P ts) = Some (cnt, crt)"
      using Cons.prems(6) False by (simp add: readings_def r)
    then have "\<exists>t. t \<in> insert tr (snd ` set ts) \<and> cnt = hw_raw P t \<and> crt = hw_count P t \<and> t < 2 ^ 52 - 1"
      using Cons.IH [OF Cons.prems(1) o(4), of tr tc] o mid by auto
    then show ?thesis
      by (auto simp: r)
  qed
qed

lemma hw_time:
  assumes "t < 2 ^ 52 - 1"
  shows "hw_count P t + hw_raw P t = word_of_nat t" and "\<not> PLATFORM_TIMER_SYS_MAX < word_of_nat t"
proof -
  have "hw_count P t + hw_raw P t = word_of_nat (t div P * P + t mod P)"
    by (simp only: hw_count_def hw_raw_def of_nat_add)
  then show "hw_count P t + hw_raw P t = word_of_nat t"
    by (simp only: div_mult_mod_eq)
  have "unat (word_of_nat t :: u64) = t"
    using assms by (intro unat_of_nat_less) simp
  then show "\<not> PLATFORM_TIMER_SYS_MAX < word_of_nat t"
    using assms by (simp add: word_less_nat_alt PLATFORM_TIMER_SYS_MAX_def)
qed

text \<open>The time that the system timer reports is exactly the time of one of its readings of the hardware
  counter, however often the timer interrupt strikes during the loop, as long as it does not strike
  between the first two readings.\<close>

theorem systimer_get_exact:
  assumes "0 < P" and "systimer_ticks_for_us st = 1" and "t0 \<le> tc0" and "t0 div P = tc0 div P" and "tc0 < 2 ^ 52 - 1"
    and "in_order tc0 ts" and "cmn_systimer_get (hw_raw P t0) (hw_count P tc0) (readings P ts) st = Some (v, st')"
  shows "(\<exists>t \<in> insert t0 (snd ` set ts). v = word_of_nat t) \<and> st' = st"
proof -
  obtain cnt crt where c: "systimer_sample (hw_raw P t0) (hw_count P tc0) (readings P ts) = Some (cnt, crt)"
    and v: "(if crt + cnt > PLATFORM_TIMER_SYS_MAX then Some ((crt + cnt) mod PLATFORM_TIMER_SYS_MAX, st\<lparr>systimer_counter := 0\<rparr>)
       else Some (crt + cnt, st)) = Some (v, st')"
    using assms(2,7) by (auto simp: cmn_systimer_get_def Let_def split: bind_split_asm)
  obtain t where t: "t \<in> insert t0 (snd ` set ts)" "cnt = hw_raw P t" "crt = hw_count P t" "t < 2 ^ 52 - 1"
    using systimer_sample_exact [OF assms(1,6) _ assms(5) _ c] assms(3-5) by auto
  then show ?thesis
    using v by (auto simp: hw_time)
qed

theorem systimer_get_exact_witness:
  "cmn_systimer_get (hw_raw 1000 41) (hw_count 1000 41) (readings 1000 [(41, 42)])
     \<lparr>systimer_ticks_for_us = 1, systimer_counter = 0, systimer_us_per_interrupt = 1000\<rparr>
   = Some (41, \<lparr>systimer_ticks_for_us = 1, systimer_counter = 0, systimer_us_per_interrupt = 1000\<rparr>) \<and>
   (\<exists>t \<in> insert (41 :: nat) (snd ` set [(41 :: nat, 42)]). (41 :: u64) = word_of_nat t)"
proof -
  let ?st = "\<lparr>systimer_ticks_for_us = 1, systimer_counter = 0, systimer_us_per_interrupt = 1000\<rparr>"
  have g: "cmn_systimer_get (hw_raw 1000 41) (hw_count 1000 41) (readings 1000 [(41, 42)]) ?st = Some (41, ?st)"
    by (simp add: cmn_systimer_get_def readings_def hw_raw_def hw_count_def PLATFORM_TIMER_SYS_MAX_def)
  show ?thesis
    using g systimer_get_exact [OF _ _ _ _ _ _ g] by simp
qed

text \<open>When the timer interrupt strikes between the first reading of the hardware counter and the first
  reading of the interrupt counter, the reported time lies almost a whole period ahead of the time of
  every reading.\<close>

theorem systimer_get_race:
  assumes "1 < P" and "systimer_ticks_for_us st = 1" and "P * (k + 2) < 2 ^ 52 - 1"
  shows "cmn_systimer_get (hw_raw P (P * (k + 1) - 1)) (hw_count P (P * (k + 1))) (readings P [(P * (k + 1), P * (k + 1))]) st
    = Some (word_of_nat (P * (k + 1) + (P - 1)), st)"
proof -
  let ?t = "P * (k + 1)"
  have "(?t - 1) mod P = P - 1"
  proof -
    have "?t - 1 = (P - 1) + P * k"
      using assms(1) by simp
    then show ?thesis
      using assms(1) by (simp only: mod_mult_self2) simp
  qed
  moreover have "?t div P * P = ?t"
    using assms(1) by simp
  ultimately have "hw_count P ?t + hw_raw P (?t - 1) = word_of_nat (?t + (P - 1))"
    by (simp only: hw_count_def hw_raw_def of_nat_add)
  moreover have "\<not> PLATFORM_TIMER_SYS_MAX < word_of_nat (?t + (P - 1))"
    using assms(3) by (intro hw_time) (simp add: algebra_simps)
  ultimately show ?thesis
    using assms(2) by (simp add: cmn_systimer_get_def readings_def)
qed

theorem systimer_get_race_witness:
  "cmn_systimer_get (hw_raw 1000 999) (hw_count 1000 1000) (readings 1000 [(1000, 1000)])
     \<lparr>systimer_ticks_for_us = 1, systimer_counter = 1000, systimer_us_per_interrupt = 1000\<rparr>
   = Some (1999, \<lparr>systimer_ticks_for_us = 1, systimer_counter = 1000, systimer_us_per_interrupt = 1000\<rparr>)"
  using systimer_get_race [of 1000 "\<lparr>systimer_ticks_for_us = 1, systimer_counter = 1000, systimer_us_per_interrupt = 1000\<rparr>" 0]
  by simp

end
