(* ===== verification/Genstd.thy ===== *)
theory Genstd
  imports Devman
begin

text \<open>
  The console (\<open>src/src/newlib/genstd.c\<close>): the device behind the standard streams, with line editing,
  echo and the translation of line ends. The functions that send and receive a character are
  parameters. The theory shows which line a read returns and what it leaves on the screen of the
  terminal, and what reaches the terminal when a program writes to its standard output.
\<close>

section \<open>The device\<close>

definition STD_CTRLZ_CODE :: u8 where "STD_CTRLZ_CODE = 26"
definition STD_INTER_CHAR_TIMEOUT :: u64 where "STD_INTER_CHAR_TIMEOUT = 10000"
definition STD_INFINITE_TIMEOUT :: u64 where "STD_INFINITE_TIMEOUT = 2 ^ 52 - 2 + 1"
definition STD_DEV_NAME :: "u8 list" where "STD_DEV_NAME = [0x2F, 0x73, 0x74, 0x64]"

lemmas std_codes = STD_CTRLZ_CODE_def DM_STDIN_NUM_def DM_STDOUT_NUM_def DM_STDERR_NUM_def

text \<open>\<open>'w\<close> is what the send and receive functions work on. The receive function gets a timeout; its
  result is a character or \<open>None\<close> for -1. When it does not return at all, it is undefined.\<close>

record 'w std_state =
  std_send_char_func :: "(nat \<Rightarrow> u8 \<Rightarrow> 'w \<Rightarrow> 'w) option"
  std_get_char_func :: "(u64 \<Rightarrow> 'w \<Rightarrow> (u8 option \<times> 'w) option) option"
  std_prev_char :: "u8 option"
  std_world :: 'w

definition isprint :: "u8 \<Rightarrow> bool" where
  "isprint c \<longleftrightarrow> 0x20 \<le> c \<and> c \<le> 0x7E"

text \<open>A call through the pointers; a call through a null pointer is undefined for receiving and is
  excluded before anything is sent.\<close>

definition std_send :: "nat \<Rightarrow> u8 \<Rightarrow> 'w std_state \<Rightarrow> 'w std_state" where
  "std_send fd c s =
     (case std_send_char_func s of None \<Rightarrow> s | Some f \<Rightarrow> s\<lparr>std_world := f fd c (std_world s)\<rparr>)"

definition std_get :: "u64 \<Rightarrow> 'w std_state \<Rightarrow> (u8 option \<times> 'w std_state) option" where
  "std_get to s =
     do {
       f \<leftarrow> std_get_char_func s;
       (c, w) \<leftarrow> f to (std_world s);
       Some (c, s\<lparr>std_world := w\<rparr>)
     }"

text \<open>The lookahead character of the previous read, or the next character.\<close>

definition std_next :: "'w std_state \<Rightarrow> (u8 option \<times> 'w std_state) option" where
  "std_next s =
     (case std_prev_char s of
        Some c \<Rightarrow> Some (Some c, s\<lparr>std_prev_char := None\<rparr>)
      | None \<Rightarrow> std_get STD_INFINITE_TIMEOUT s)"

definition std_erase :: "'w std_state \<Rightarrow> 'w std_state" where
  "std_erase s = std_send DM_STDOUT_NUM 8 (std_send DM_STDOUT_NUM 0x20 (std_send DM_STDOUT_NUM 8 s))"

text \<open>The end of a line that was ended with \<open>c\<close>: one character more is read, and dropped when it is the
  other half of the pair of carriage return and line feed.\<close>

definition std_newline :: "u8 \<Rightarrow> 'w std_state \<Rightarrow> 'w std_state option" where
  "std_newline c s =
     do {
       (p, s1) \<leftarrow> std_get STD_INTER_CHAR_TIMEOUT s;
       let prev = (case p of None \<Rightarrow> None | Some d \<Rightarrow> if unat d + unat c = 13 + 10 then None else Some d);
       Some (std_send DM_STDOUT_NUM (13 + 10 - c) (s1\<lparr>std_prev_char := prev\<rparr>))
     }"

text \<open>The loop of \<open>std_read\<close>; \<open>acc\<close> is \<open>ptr[0..i]\<close>. It may run for ever: the input may be characters
  that are ignored.\<close>

partial_function (option) std_read_loop :: "nat \<Rightarrow> u8 list \<Rightarrow> 'w std_state \<Rightarrow> (u8 list \<times> 'w std_state) option" where
  "std_read_loop len acc s =
     (if length acc < len then
        do {
          (ch, s1) \<leftarrow> std_next s;
          (case ch of
             None \<Rightarrow> Some (acc, s1)
           | Some c \<Rightarrow>
               if c = 8 \<or> c = 0x7F then
                 (if acc \<noteq> [] then std_read_loop len (butlast acc) (std_erase s1) else std_read_loop len acc s1)
               else if \<not> isprint c \<and> c \<noteq> 10 \<and> c \<noteq> 13 \<and> c \<noteq> STD_CTRLZ_CODE then std_read_loop len acc s1
               else if c = STD_CTRLZ_CODE then Some ([], s1)
               else if c = 13 \<or> c = 10 then
                 map_option (Pair (acc @ [10])) (std_newline c (std_send DM_STDOUT_NUM c s1))
               else std_read_loop len (acc @ [c]) (std_send DM_STDOUT_NUM c s1))
        }
      else Some (acc, s))"

definition std_unset :: "'w std_state \<Rightarrow> bool" where
  "std_unset s \<longleftrightarrow> std_send_char_func s = None \<or> std_get_char_func s = None"

definition std_read :: "nat \<Rightarrow> nat \<Rightarrow> unit \<Rightarrow> (u8 list, 'w std_state) dm_op" where
  "std_read fd len pdata s =
     (if std_unset s then Some (Inl (Some EBADF), s)
      else if fd < DM_STDIN_NUM \<or> DM_STDERR_NUM < fd then Some (Inl (Some EBADF), s)
      else if fd \<noteq> DM_STDIN_NUM then Some (Inl (Some EINVAL), s)
      else map_option (\<lambda>(bs, s'). (Inr bs, s')) (std_read_loop len [] s))"

definition std_write_char :: "nat \<Rightarrow> u8 \<Rightarrow> 'w std_state \<Rightarrow> 'w std_state" where
  "std_write_char fd c s = std_send fd c (if c = 10 then std_send fd 13 s else s)"

definition std_write :: "nat \<Rightarrow> u8 list \<Rightarrow> unit \<Rightarrow> (nat, 'w std_state) dm_op" where
  "std_write fd bs pdata s =
     (if std_unset s then Some (Inl (Some EBADF), s)
      else if fd < DM_STDIN_NUM \<or> DM_STDERR_NUM < fd then Some (Inl (Some EBADF), s)
      else if fd \<noteq> DM_STDOUT_NUM \<and> fd \<noteq> DM_STDERR_NUM then Some (Inl (Some EINVAL), s)
      else Some (Inr (length bs), fold (std_write_char fd) bs s))"

definition std_set_send_func :: "(nat \<Rightarrow> u8 \<Rightarrow> 'w \<Rightarrow> 'w) option \<Rightarrow> 'w std_state \<Rightarrow> 'w std_state" where
  "std_set_send_func pfunc s = s\<lparr>std_send_char_func := pfunc\<rparr>"

definition std_set_get_func :: "(u64 \<Rightarrow> 'w \<Rightarrow> (u8 option \<times> 'w) option) option \<Rightarrow> 'w std_state \<Rightarrow> 'w std_state" where
  "std_set_get_func pfunc s = s\<lparr>std_get_char_func := pfunc\<rparr>"

definition std_device :: "(unit, 'h, 'w std_state) DM_DEVICE" where
  "std_device = dm_null_device\<lparr>p_write_r := Some std_write, p_read_r := Some std_read\<rparr>"

definition std_register :: "(unit, 'h, 'w std_state) dm_table \<Rightarrow> (dm_err + nat) \<times> (unit, 'h, 'w std_state) dm_table" where
  "std_register T = dm_register (Some STD_DEV_NAME) () (Some std_device) T"

section \<open>A terminal\<close>

text \<open>A terminal on the other side: what will be typed (\<open>None\<close> is a pause longer than the timeout between
  characters), and what was sent.\<close>

record tty =
  tty_in :: "u8 option list"
  tty_out :: "(nat \<times> u8) list"

definition tty_send :: "nat \<Rightarrow> u8 \<Rightarrow> tty \<Rightarrow> tty" where
  "tty_send fd c w = w\<lparr>tty_out := tty_out w @ [(fd, c)]\<rparr>"

text \<open>A pause does not end a wait without a timeout.\<close>

definition tty_get :: "u64 \<Rightarrow> tty \<Rightarrow> (u8 option \<times> tty) option" where
  "tty_get to w =
     (if to = STD_INFINITE_TIMEOUT
      then (case dropWhile (\<lambda>c. c = None) (tty_in w) of [] \<Rightarrow> None | c # cs \<Rightarrow> Some (c, w\<lparr>tty_in := cs\<rparr>))
      else (case tty_in w of [] \<Rightarrow> Some (None, w) | c # cs \<Rightarrow> Some (c, w\<lparr>tty_in := cs\<rparr>)))"

definition console :: "u8 option \<Rightarrow> u8 option list \<Rightarrow> (nat \<times> u8) list \<Rightarrow> tty std_state" where
  "console p cs out = \<lparr>std_send_char_func = Some tty_send, std_get_char_func = Some tty_get, std_prev_char = p,
     std_world = \<lparr>tty_in = cs, tty_out = out\<rparr>\<rparr>"

lemma console_simps [simp]:
  "std_send fd c (console p cs out) = console p cs (out @ [(fd, c)])"
  "std_next (console None (Some c # cs) out) = Some (Some c, console None cs out)"
  "std_next (console (Some c) cs out) = Some (Some c, console None cs out)"
  "std_get STD_INTER_CHAR_TIMEOUT (console p (ch # cs) out) = Some (ch, console p cs out)"
  "(console p cs out)\<lparr>std_prev_char := q\<rparr> = console q cs out"
  "\<not> std_unset (console p cs out)"
  by (simp_all add: console_def std_send_def std_next_def std_get_def tty_send_def tty_get_def std_unset_def
      STD_INTER_CHAR_TIMEOUT_def STD_INFINITE_TIMEOUT_def)

text \<open>The screen line of the terminal: backspace moves the cursor to the left, a printable character
  overwrites what is under the cursor.\<close>

definition screen_put :: "u8 \<Rightarrow> u8 list \<times> nat \<Rightarrow> u8 list \<times> nat" where
  "screen_put c = (\<lambda>(l, p).
     if c = 8 then (l, p - 1) else if isprint c then (take p l @ [c] @ drop (Suc p) l, Suc p) else (l, p))"

definition screen :: "(nat \<times> u8) list \<Rightarrow> u8 list \<times> nat" where
  "screen out = fold (\<lambda>(fd, c). screen_put c) out ([], 0)"

lemma screen_snoc [simp]: "screen (out @ [(fd, c)]) = screen_put c (screen out)"
  by (simp add: screen_def)

text \<open>The screen shows the line \<open>l\<close> with the cursor behind it, and blanks after it.\<close>

definition shows_line :: "u8 list \<Rightarrow> (nat \<times> u8) list \<Rightarrow> bool" where
  "shows_line l out \<longleftrightarrow> (\<exists>n. screen out = (l @ replicate n 0x20, length l))"

lemma shows_line_put:
  assumes "shows_line l out" "isprint c"
  shows "shows_line (l @ [c]) (out @ [(fd, c)])"
proof -
  obtain n where n: "screen out = (l @ replicate n 0x20, length l)"
    using assms(1) by (auto simp: shows_line_def)
  have "c \<noteq> 8" using assms(2) by (auto simp: isprint_def)
  then have "screen (out @ [(fd, c)]) = ((l @ [c]) @ replicate (n - 1) 0x20, length (l @ [c]))"
    using n assms(2) by (cases n) (auto simp: screen_put_def)
  then show ?thesis
    by (auto simp: shows_line_def)
qed

lemma shows_line_erase:
  assumes "shows_line (l @ [c]) out"
  shows "shows_line l (out @ [(fd, 8), (fd, 0x20), (fd, 8)])"
proof -
  obtain n where n: "screen out = ((l @ [c]) @ replicate n 0x20, Suc (length l))"
    using assms by (auto simp: shows_line_def)
  have "out @ [(fd, 8), (fd, 0x20), (fd, 8)] = ((out @ [(fd, 8)]) @ [(fd, 0x20)]) @ [(fd, 8)]"
    by simp
  then have "screen (out @ [(fd, 8), (fd, 0x20), (fd, 8)]) = (l @ replicate (Suc n) 0x20, length l)"
    using n by (simp only: screen_snoc) (simp add: screen_put_def isprint_def)
  then show ?thesis
    unfolding shows_line_def by blast
qed

section \<open>Reading a line\<close>

text \<open>What typed characters make of a line, and that the line never fills the buffer of the reader.\<close>

definition edit_step :: "u8 \<Rightarrow> u8 list \<Rightarrow> u8 list" where
  "edit_step c l = (if c = 8 \<or> c = 0x7F then butlast l else if isprint c then l @ [c] else l)"

definition edit :: "u8 list \<Rightarrow> u8 list" where
  "edit ks = fold edit_step ks []"

fun fits :: "nat \<Rightarrow> u8 list \<Rightarrow> u8 list \<Rightarrow> bool" where
  "fits len l [] \<longleftrightarrow> length l < len"
| "fits len l (k # ks) \<longleftrightarrow> length l < len \<and> fits len (edit_step k l) ks"

definition ends_read :: "u8 \<Rightarrow> bool" where
  "ends_read c \<longleftrightarrow> c = 10 \<or> c = 13 \<or> c = STD_CTRLZ_CODE"

lemma not_isprint: "\<not> isprint 8" "\<not> isprint 0x7F" "\<not> isprint 10" "\<not> isprint 13"
  by (simp_all add: isprint_def)

lemma std_erase_console [simp]:
  "std_erase (console p cs out) =
     console p cs (out @ [(DM_STDOUT_NUM, 8), (DM_STDOUT_NUM, 0x20), (DM_STDOUT_NUM, 8)])"
  by (simp add: std_erase_def)

lemma std_read_loop_key:
  assumes "length l < len" "\<not> ends_read k" "shows_line l out"
  shows "\<exists>out'. std_read_loop len l (console None (Some k # cs) out) = std_read_loop len (edit_step k l) (console None cs out') \<and>
    shows_line (edit_step k l) out'"
proof (cases "k = 8 \<or> k = 0x7F")
  case True
  then show ?thesis
    using assms(1,3) shows_line_erase [of "butlast l" "last l" out DM_STDOUT_NUM]
    by (subst std_read_loop.simps) (auto simp: edit_step_def)
next
  case False
  then show ?thesis
    using assms shows_line_put [OF assms(3), of k DM_STDOUT_NUM]
    by (subst std_read_loop.simps) (auto simp: edit_step_def ends_read_def)
qed

lemma std_read_loop_keys:
  "fits len l ks \<Longrightarrow> list_all (\<lambda>k. \<not> ends_read k) ks \<Longrightarrow> shows_line l out \<Longrightarrow>
   \<exists>out'. std_read_loop len l (console None (map Some ks @ cs) out) = std_read_loop len (fold edit_step ks l) (console None cs out') \<and>
     shows_line (fold edit_step ks l) out' \<and> length (fold edit_step ks l) < len"
proof (induction ks arbitrary: l out)
  case Nil
  then show ?case by auto
next
  case (Cons k ks)
  then obtain out1 where "std_read_loop len l (console None (map Some (k # ks) @ cs) out)
      = std_read_loop len (edit_step k l) (console None (map Some ks @ cs) out1)" "shows_line (edit_step k l) out1"
    using std_read_loop_key [of l len k out "map Some ks @ cs"] by auto
  then show ?case
    using Cons.IH [of "edit_step k l" out1] Cons.prems by simp
qed

text \<open>The input that is left: the lookahead character comes first.\<close>

definition pending :: "u8 option \<Rightarrow> u8 option list \<Rightarrow> u8 option list" where
  "pending p cs = (case p of None \<Rightarrow> cs | Some c \<Rightarrow> Some c # cs)"

lemma std_read_loop_pending:
  assumes "length l < len" "pending p cs = Some c # rest"
  shows "std_read_loop len l (console p cs out) = std_read_loop len l (console None (pending p cs) out)"
proof (cases p)
  case None
  then show ?thesis by (simp add: pending_def)
next
  case (Some d)
  then show ?thesis
    using assms(1) std_read_loop.simps [of len l "console (Some d) cs out"]
      std_read_loop.simps [of len l "console None (Some d # cs) out"]
    by (simp add: pending_def)
qed

lemma std_read_loop_newline:
  assumes "length l < len" "nl = 10 \<or> nl = 13"
  shows "\<exists>q cs'. std_read_loop len l (console None (Some nl # nx # rest) out)
      = Some (l @ [10], console q cs' (out @ [(DM_STDOUT_NUM, nl), (DM_STDOUT_NUM, 13 + 10 - nl)])) \<and>
    pending q cs' = (if nx = None \<or> nx = Some (13 + 10 - nl) then rest else nx # rest)"
proof -
  have pair: "unat d + unat nl = 13 + 10 \<longleftrightarrow> d = 13 + 10 - nl" for d
    using assms(2) by (elim disjE) (simp_all add: word_unat_eq_iff [of d])
  define q where "q = (if nx = None \<or> nx = Some (13 + 10 - nl) then None else nx)"
  have prev: "(case nx of None \<Rightarrow> None | Some d \<Rightarrow> if unat d + unat nl = 13 + 10 then None else Some d) = q"
    by (simp only: pair) (auto simp: q_def split: option.split)
  have "std_newline nl (console None (nx # rest) out1) = Some (console q rest (out1 @ [(DM_STDOUT_NUM, 13 + 10 - nl)]))" for out1
    by (simp only: std_newline_def console_simps bind.simps prod.case prev Let_def)
  then have "std_read_loop len l (console None (Some nl # nx # rest) out)
      = Some (l @ [10], console q rest (out @ [(DM_STDOUT_NUM, nl), (DM_STDOUT_NUM, 13 + 10 - nl)]))"
    using assms by (subst std_read_loop.simps) (auto simp: not_isprint STD_CTRLZ_CODE_def)
  moreover have "pending q rest = (if nx = None \<or> nx = Some (13 + 10 - nl) then rest else nx # rest)"
    by (cases nx) (auto simp: q_def pending_def)
  ultimately show ?thesis by blast
qed

lemma fits_Nil: "fits len [] ks \<Longrightarrow> 0 < len"
  by (cases ks) auto

lemma std_first:
  shows "dm_get_instance_at (DM_GET_DEVID 0) (snd (std_register []) @ ds) = Some \<lparr>dm_name = STD_DEV_NAME, dm_pdata = (), dm_pdev = std_device\<rparr>"
    and "dm_get_instance_at (DM_GET_DEVID 1) (snd (std_register []) @ ds) = Some \<lparr>dm_name = STD_DEV_NAME, dm_pdata = (), dm_pdev = std_device\<rparr>"
    and "dm_get_instance_at (DM_GET_DEVID 2) (snd (std_register []) @ ds) = Some \<lparr>dm_name = STD_DEV_NAME, dm_pdata = (), dm_pdev = std_device\<rparr>"
    and "DM_GET_FD 0 = DM_STDIN_NUM" "DM_GET_FD 1 = DM_STDOUT_NUM" "DM_GET_FD 2 = DM_STDERR_NUM"
  by (simp_all add: std_register_def dm_register_def dm_name_ok_def STD_DEV_NAME_def DM_MAX_DEV_NAME_def DM_MAX_DEVICES_def
      dm_get_instance_at_def DM_GET_DEVID_eq DM_GET_FD_eq dm_std_nums)

text \<open>C39. Once the console is the first registered device, a read of descriptor 0 returns the line that
  was typed, with the corrections made and with one line feed at its end, however the terminal ends
  its lines; the terminal shows this line, and the next read goes on behind the line end.\<close>

theorem std_read_line:
  assumes "pending p cs = map Some ks @ Some nl # nx # rest" and "nl = 10 \<or> nl = 13"
    and "list_all (\<lambda>k. \<not> ends_read k) ks" and "fits len [] ks" and "shows_line [] out"
  shows "\<exists>q cs' out'. read_r 0 len (snd (std_register []) @ ds) (console p cs out)
      = Some (Inr (edit ks @ [10]), console q cs' (out' @ [(DM_STDOUT_NUM, nl), (DM_STDOUT_NUM, 13 + 10 - nl)])) \<and>
    shows_line (edit ks) out' \<and>
    pending q cs' = (if nx = None \<or> nx = Some (13 + 10 - nl) then rest else nx # rest)"
proof -
  obtain c cs0 where "pending p cs = Some c # cs0"
    using assms(1) by (cases ks) auto
  then have start: "std_read_loop len [] (console p cs out) = std_read_loop len [] (console None (pending p cs) out)"
    using fits_Nil [OF assms(4)] by (intro std_read_loop_pending) auto
  obtain out' where keys: "std_read_loop len [] (console None (pending p cs) out)
      = std_read_loop len (edit ks) (console None (Some nl # nx # rest) out')" "shows_line (edit ks) out'" "length (edit ks) < len"
    using std_read_loop_keys [OF assms(4,3,5), of "Some nl # nx # rest"] by (auto simp: assms(1) edit_def)
  obtain q cs' where "std_read_loop len (edit ks) (console None (Some nl # nx # rest) out')
      = Some (edit ks @ [10], console q cs' (out' @ [(DM_STDOUT_NUM, nl), (DM_STDOUT_NUM, 13 + 10 - nl)]))"
    "pending q cs' = (if nx = None \<or> nx = Some (13 + 10 - nl) then rest else nx # rest)"
    using std_read_loop_newline [OF keys(3) assms(2), of nx rest out'] by blast
  moreover from this(1) start keys(1) have "read_r 0 len (snd (std_register []) @ ds) (console p cs out)
      = Some (Inr (edit ks @ [10]), console q cs' (out' @ [(DM_STDOUT_NUM, nl), (DM_STDOUT_NUM, 13 + 10 - nl)]))"
    by (simp add: read_r_def std_first std_device_def std_read_def DM_STDIN_NUM_def)
  ultimately show ?thesis
    using keys(2) by blast
qed

theorem std_read_line_witness:
  "\<exists>q cs' out'. read_r 0 80 (snd (std_register []) @ ([] :: (unit, unit, tty std_state) dm_table))
       (console (Some 0x61) [Some 0x62, Some 8, Some 0x63, Some 13, Some 10, Some 0x64] [])
     = Some (Inr [0x61, 0x63, 10], console q cs' out') \<and> pending q cs' = [Some 0x64]"
  using std_read_line [of "Some 0x61" "[Some 0x62, Some 8, Some 0x63, Some 13, Some 10, Some 0x64]"
      "[0x61, 0x62, 8, 0x63]" 13 "Some 10" "[Some 0x64]" 80 "[]" "[]"]
  by (force simp: pending_def ends_read_def STD_CTRLZ_CODE_def edit_def edit_step_def isprint_def shows_line_def screen_def)

section \<open>Writing\<close>

text \<open>What a program writes to descriptor 1 or 2 reaches the terminal completely and in order, with
  a carriage return in front of every line feed.\<close>

theorem std_write_console:
  assumes "fd = 1 \<or> fd = 2"
  shows "write_r (int fd) bs (snd (std_register []) @ ds) (console p cs out)
    = Some (Inr (length bs), console p cs (out @ concat (map (\<lambda>c. if c = 10 then [(fd, 13), (fd, 10)] else [(fd, c)]) bs)))"
proof -
  have "fold (std_write_char f) bs (console p cs out)
      = console p cs (out @ concat (map (\<lambda>c. if c = 10 then [(f, 13), (f, 10)] else [(f, c)]) bs))" for f
    by (induction bs arbitrary: out) (auto simp: std_write_char_def)
  then show ?thesis
    using assms by (auto simp: write_r_def std_first std_device_def std_write_def dm_std_nums)
qed

theorem std_write_console_witness:
  "write_r 1 [0x68, 10] (snd (std_register []) @ ([] :: (unit, unit, tty std_state) dm_table)) (console None [] [])
     = Some (Inr 2, console None [] [(1, 0x68), (1, 13), (1, 10)])"
  using std_write_console [of 1 "[0x68, 10]" "[]" None "[]" "[]"] by simp (simp add: numeral_2_eq_2)

end
