(* ===== verification/Sbrk.thy ===== *)
theory Sbrk
  imports Prelude
begin

text \<open>
  The heap under the C library's allocator: \<open>_sbrk_r\<close> (\<open>src/src/newlib/stubs.c\<close>) hands out the memory
  spaces of the board one after the other; \<open>platform_get_first_free_ram\<close> and
  \<open>platform_get_last_free_ram\<close> (\<open>src/src/common.c\<close>) align their limits. The memory map of the board is
  a parameter. The theory shows that the loop ends, that the blocks that were handed out never overlap
  and lie in the memory of the board, and that a request that fails exhausts the heap for good.
\<close>

section \<open>Memory spaces\<close>

definition MIN_ALIGN :: u32 where "MIN_ALIGN = 8"
definition MIN_ALIGN_SHIFT :: nat where "MIN_ALIGN_SHIFT = 3"

text \<open>\<open>ms\<close> and \<open>me\<close> are \<open>MEM_START_ADDRESS\<close> and \<open>MEM_END_ADDRESS\<close>; the address 0 is \<open>NULL\<close>.\<close>

definition platform_get_first_free_ram :: "u32 list \<Rightarrow> nat \<Rightarrow> u32" where
  "platform_get_first_free_ram ms i =
     (if length ms \<le> i then 0
      else if ms ! i AND (MIN_ALIGN - 1) \<noteq> 0
      then push_bit MIN_ALIGN_SHIFT (drop_bit MIN_ALIGN_SHIFT (ms ! i) + 1) else ms ! i)"

definition platform_get_last_free_ram :: "u32 list \<Rightarrow> nat \<Rightarrow> u32" where
  "platform_get_last_free_ram me i =
     (if length me \<le> i then 0
      else if me ! i AND (MIN_ALIGN - 1) \<noteq> 0
      then push_bit MIN_ALIGN_SHIFT (drop_bit MIN_ALIGN_SHIFT (me ! i) - 1) else me ! i)"

lemma first_free_ram_index: "platform_get_first_free_ram ms i \<noteq> 0 \<Longrightarrow> i < length ms"
  by (auto simp: platform_get_first_free_ram_def split: if_split_asm)

section \<open>The heap pointer\<close>

record heap =
  heap_ptr :: u32
  mem_index :: nat

text \<open>The loop of \<open>_sbrk_r\<close> for an increment that is not negative; \<open>None\<close> is \<open>( void* )-1\<close>. Pointers are 32
  bits wide and their sum wraps.\<close>

function sbrk_loop :: "u32 list \<Rightarrow> u32 list \<Rightarrow> u32 \<Rightarrow> heap \<Rightarrow> u32 option \<times> heap" where
  "sbrk_loop ms me incr h =
     (let hp = (if heap_ptr h = 0 then platform_get_first_free_ram ms (mem_index h) else heap_ptr h)
      in if hp = 0 then (None, h\<lparr>heap_ptr := 0\<rparr>)
         else if hp + incr > platform_get_last_free_ram me (mem_index h)
         then sbrk_loop ms me incr \<lparr>heap_ptr = 0, mem_index = Suc (mem_index h)\<rparr>
         else (Some hp, h\<lparr>heap_ptr := hp + incr\<rparr>))"
  by pat_completeness auto

termination
  by (relation "measure (\<lambda>(ms, me, incr, h). 2 * (length ms - mem_index h) + of_bool (heap_ptr h \<noteq> 0))")
    (auto dest!: first_free_ram_index split: if_split_asm)

declare sbrk_loop.simps [simp del]

definition sbrk_r :: "u32 list \<Rightarrow> u32 list \<Rightarrow> int \<Rightarrow> heap \<Rightarrow> u32 option \<times> heap" where
  "sbrk_r ms me incr h = (if incr < 0 then (None, h) else sbrk_loop ms me (word_of_int incr) h)"

section \<open>Aligned limits\<close>

lemma and_7_nat: "unat (w AND (MIN_ALIGN - 1)) = unat w mod 8" for w :: u32
proof -
  have "unat (w AND 7) = unat w mod 2 ^ 3"
    by (simp only: unsigned_and_eq) (use and_pow2_minus_1_nat [of "unat w" 3] in simp)
  then show ?thesis
    by (simp add: MIN_ALIGN_def)
qed

lemma unat_times_8: "unat x < 2 ^ 29 \<Longrightarrow> unat (push_bit MIN_ALIGN_SHIFT x) = 8 * unat x" for x :: u32
  by (simp add: push_bit_eq_mult MIN_ALIGN_SHIFT_def unat_mult_lem [of x 8, THEN iffD1])

lemma unat_div_8: "unat (drop_bit MIN_ALIGN_SHIFT w) = unat w div 8" for w :: u32
  by (simp add: drop_bit_eq_div unat_div MIN_ALIGN_SHIFT_def)

lemma unat_align_up:
  fixes w :: u32
  assumes "unat w \<le> 2 ^ 31"
  shows "unat (push_bit MIN_ALIGN_SHIFT (drop_bit MIN_ALIGN_SHIFT w + 1)) = 8 * (unat w div 8 + 1)"
proof -
  have "unat w div 8 \<le> 2 ^ 28"
    using div_le_mono [OF assms, of 8] by simp
  then have "unat (drop_bit MIN_ALIGN_SHIFT w + 1) = unat w div 8 + 1"
    using unat_div_8 [of w] by (subst unat_add_lem [THEN iffD1]) simp_all
  then show ?thesis
    using \<open>unat w div 8 \<le> 2 ^ 28\<close> by (subst unat_times_8) simp_all
qed

lemma unat_align_down:
  fixes w :: u32
  assumes "8 \<le> unat w"
  shows "unat (push_bit MIN_ALIGN_SHIFT (drop_bit MIN_ALIGN_SHIFT w - 1)) = 8 * (unat w div 8 - 1)"
proof -
  have "1 \<le> unat w div 8"
    using assms by (simp add: less_eq_div_iff_mult_less_eq)
  then have "(1 :: u32) \<le> drop_bit MIN_ALIGN_SHIFT w"
    using unat_div_8 [of w] by (simp add: word_le_nat_alt)
  then have "unat (drop_bit MIN_ALIGN_SHIFT w - 1) = unat w div 8 - 1"
    using unat_div_8 [of w] by (simp add: unat_sub)
  moreover have "unat w div 8 < 2 ^ 29"
    using unsigned_less [of w, where ?'a = nat] by simp
  ultimately show ?thesis
    by (subst unat_times_8) simp_all
qed

text \<open>A memory map: the spaces do not overlap, none contains \<open>NULL\<close>, and all lie in the lower half of the
  address space.\<close>

definition mem_ok :: "u32 list \<Rightarrow> u32 list \<Rightarrow> bool" where
  "mem_ok ms me \<longleftrightarrow> length ms = length me \<and>
     (\<forall>i<length ms. 0 < unat (ms ! i) \<and> unat (ms ! i) + 8 \<le> 2 ^ 31 \<and> 8 \<le> unat (me ! i) \<and> unat (me ! i) \<le> 2 ^ 31) \<and>
     (\<forall>i<length ms. \<forall>j<length ms. i \<noteq> j \<longrightarrow> unat (me ! i) \<le> unat (ms ! j) \<or> unat (me ! j) \<le> unat (ms ! i))"

lemma first_free_ram_bounds:
  assumes "mem_ok ms me" "i < length ms"
  shows "unat (ms ! i) \<le> unat (platform_get_first_free_ram ms i)" "unat (platform_get_first_free_ram ms i) \<le> unat (ms ! i) + 8"
proof -
  have b: "unat (ms ! i) \<le> 2 ^ 31"
    using assms by (auto simp: mem_ok_def dest!: spec [of _ i])
  show "unat (ms ! i) \<le> unat (platform_get_first_free_ram ms i)" "unat (platform_get_first_free_ram ms i) \<le> unat (ms ! i) + 8"
    using assms(2) unat_align_up [OF b] by (auto simp: platform_get_first_free_ram_def)
qed

lemma last_free_ram_eq:
  assumes "mem_ok ms me" "i < length ms"
  shows "unat (platform_get_last_free_ram me i)
    = (if unat (me ! i) mod 8 = 0 then unat (me ! i) else 8 * (unat (me ! i) div 8) - 8)"
proof -
  have b: "8 \<le> unat (me ! i)" "i < length me"
    using assms by (auto simp: mem_ok_def)
  have "me ! i AND (MIN_ALIGN - 1) = 0 \<longleftrightarrow> unat (me ! i) mod 8 = 0"
    using and_7_nat [of "me ! i"] by (simp add: unat_eq_0 [symmetric])
  then show ?thesis
    using b unat_align_down [OF b(1)] by (auto simp: platform_get_last_free_ram_def diff_mult_distrib2)
qed

lemma last_free_ram_le:
  assumes "mem_ok ms me" "i < length ms"
  shows "unat (platform_get_last_free_ram me i) \<le> unat (me ! i)"
  using last_free_ram_eq [OF assms] by (auto split: if_split_asm)

section \<open>Blocks\<close>

definition heap_ok :: "u32 list \<Rightarrow> u32 list \<Rightarrow> heap \<Rightarrow> bool" where
  "heap_ok ms me h \<longleftrightarrow> heap_ptr h \<noteq> 0 \<longrightarrow> mem_index h < length ms \<and>
     unat (ms ! mem_index h) \<le> unat (heap_ptr h) \<and> unat (heap_ptr h) \<le> unat (me ! mem_index h)"

text \<open>The block that a successful request gets.\<close>

lemma sbrk_loop_Some:
  "mem_ok ms me \<Longrightarrow> unat incr < 2 ^ 31 \<Longrightarrow> heap_ok ms me h \<Longrightarrow> sbrk_loop ms me incr h = (Some p, h') \<Longrightarrow>
    mem_index h \<le> mem_index h' \<and> mem_index h' < length ms \<and> heap_ptr h' \<noteq> 0 \<and>
    unat (ms ! mem_index h') \<le> unat p \<and> unat (heap_ptr h') = unat p + unat incr \<and>
    unat (heap_ptr h') \<le> unat (me ! mem_index h') \<and>
    (mem_index h' = mem_index h \<longrightarrow> heap_ptr h \<noteq> 0 \<longrightarrow> p = heap_ptr h)"
proof (induction ms me incr h rule: sbrk_loop.induct)
  case (1 ms me incr h)
  define hp where "hp = (if heap_ptr h = 0 then platform_get_first_free_ram ms (mem_index h) else heap_ptr h)"
  have loop: "sbrk_loop ms me incr h = (if hp = 0 then (None, h\<lparr>heap_ptr := 0\<rparr>)
      else if hp + incr > platform_get_last_free_ram me (mem_index h)
      then sbrk_loop ms me incr \<lparr>heap_ptr = 0, mem_index = Suc (mem_index h)\<rparr>
      else (Some hp, h\<lparr>heap_ptr := hp + incr\<rparr>))"
    by (subst sbrk_loop.simps) (simp add: hp_def Let_def)
  have hp0: "hp \<noteq> 0"
    using "1.prems"(4) by (auto simp: loop)
  show ?case
  proof (cases "hp + incr > platform_get_last_free_ram me (mem_index h)")
    case True
    have "mem_index \<lparr>heap_ptr = 0, mem_index = Suc (mem_index h)\<rparr> \<le> mem_index h' \<and> mem_index h' < length ms \<and> heap_ptr h' \<noteq> 0 \<and>
      unat (ms ! mem_index h') \<le> unat p \<and> unat (heap_ptr h') = unat p + unat incr \<and> unat (heap_ptr h') \<le> unat (me ! mem_index h')"
      using "1.IH" [OF hp_def hp0 True "1.prems"(1,2)] "1.prems"(4) True hp0 by (simp add: loop heap_ok_def)
    then show ?thesis by auto
  next
    case False
    then have h': "p = hp" "h' = h\<lparr>heap_ptr := hp + incr\<rparr>"
      using "1.prems"(4) hp0 by (auto simp: loop)
    have i: "mem_index h < length ms" "unat (ms ! mem_index h) \<le> unat hp"
      using "1.prems"(1,3) hp0 first_free_ram_bounds(1) first_free_ram_index by (auto simp: hp_def heap_ok_def split: if_split_asm)
    have le: "unat (hp + incr) \<le> unat (me ! mem_index h)"
      using False last_free_ram_le [OF "1.prems"(1) i(1)] by (simp add: word_le_nat_alt not_less)
    have "unat hp \<le> 2 ^ 31"
      using "1.prems"(1,3) i(1) first_free_ram_bounds(2) [OF "1.prems"(1) i(1)]
      by (auto simp: hp_def heap_ok_def mem_ok_def dest!: spec [of _ "mem_index h"] split: if_split_asm)
    then have sum: "unat (hp + incr) = unat hp + unat incr"
      using "1.prems"(2) by (intro unat_add_lem [THEN iffD1]) simp
    then show ?thesis
      using i le hp0 by (auto simp: h' hp_def unat_eq_0 [symmetric])
  qed
qed

lemma sbrk_loop_None:
  "sbrk_loop ms me incr h = (None, h') \<Longrightarrow>
    heap_ptr h' = 0 \<and> platform_get_first_free_ram ms (mem_index h') = 0 \<and> mem_index h \<le> mem_index h' \<and>
    (heap_ptr h \<noteq> 0 \<longrightarrow> mem_index h < mem_index h')"
proof (induction ms me incr h rule: sbrk_loop.induct)
  case (1 ms me incr h)
  then show ?case
    by (subst (asm) (2) sbrk_loop.simps) (force simp: Let_def split: if_split_asm)
qed

text \<open>The blocks handed out so far, with their lengths; requests are the positive values of a
  \<open>ptrdiff_t\<close>.\<close>

inductive heap_reach :: "u32 list \<Rightarrow> u32 list \<Rightarrow> (nat \<times> nat) list \<Rightarrow> heap \<Rightarrow> bool" for ms me where
  heap_init: "heap_reach ms me [] \<lparr>heap_ptr = 0, mem_index = 0\<rparr>"
| heap_alloc: "heap_reach ms me bs h \<Longrightarrow> incr < 2 ^ 31 \<Longrightarrow> sbrk_r ms me incr h = (Some p, h') \<Longrightarrow>
    heap_reach ms me ((unat p, nat incr) # bs) h'"
| heap_fail: "heap_reach ms me bs h \<Longrightarrow> incr < 2 ^ 31 \<Longrightarrow> sbrk_r ms me incr h = (None, h') \<Longrightarrow> heap_reach ms me bs h'"

definition blocks_apart :: "nat \<times> nat \<Rightarrow> nat \<times> nat \<Rightarrow> bool" where
  "blocks_apart b c \<longleftrightarrow> fst b + snd b \<le> fst c \<or> fst c + snd c \<le> fst b"

text \<open>Where a block lies: in a space that is used up, or below the heap pointer.\<close>

definition placed :: "u32 list \<Rightarrow> u32 list \<Rightarrow> heap \<Rightarrow> nat \<times> nat \<Rightarrow> bool" where
  "placed ms me h b \<longleftrightarrow> (\<exists>j<length ms. unat (ms ! j) \<le> fst b \<and> fst b + snd b \<le> unat (me ! j) \<and>
     (j < mem_index h \<or> j = mem_index h \<and> heap_ptr h \<noteq> 0 \<and> fst b + snd b \<le> unat (heap_ptr h)))"

lemma unat_incr: "0 \<le> incr \<Longrightarrow> incr < 2 ^ 31 \<Longrightarrow> unat (word_of_int incr :: u32) = nat incr"
  by (simp add: unat_eq_nat_uint word_of_int_eq_iff uint_word_of_int)

lemma placed_alloc:
  assumes "mem_ok ms me" "heap_ok ms me h" "placed ms me h b" "unat incr < 2 ^ 31" "sbrk_loop ms me incr h = (Some p, h')"
  shows "placed ms me h' b" "blocks_apart (unat p, unat incr) b"
proof -
  note new = sbrk_loop_Some [OF assms(1,4,2,5)]
  obtain j where j: "j < length ms" "unat (ms ! j) \<le> fst b" "fst b + snd b \<le> unat (me ! j)"
    "j < mem_index h \<or> j = mem_index h \<and> heap_ptr h \<noteq> 0 \<and> fst b + snd b \<le> unat (heap_ptr h)"
    using assms(3) by (auto simp: placed_def)
  show "placed ms me h' b"
    unfolding placed_def using j new by (intro exI [of _ j]) (auto simp: le_less)
  show "blocks_apart (unat p, unat incr) b"
  proof (cases "j = mem_index h'")
    case True
    with j(4) new show ?thesis by (auto simp: blocks_apart_def)
  next
    case False
    then have "unat (me ! j) \<le> unat (ms ! mem_index h') \<or> unat (me ! mem_index h') \<le> unat (ms ! j)"
      using assms(1) j(1) new by (simp add: mem_ok_def)
    with j new show ?thesis by (auto simp: blocks_apart_def)
  qed
qed

lemma heap_reach_inv:
  assumes "mem_ok ms me"
  shows "heap_reach ms me bs h \<Longrightarrow> heap_ok ms me h \<and> list_all (placed ms me h) bs \<and> sorted_wrt blocks_apart bs"
proof (induction rule: heap_reach.induct)
  case heap_init
  then show ?case by (simp add: heap_ok_def)
next
  case (heap_alloc bs h incr p h')
  then have loop: "sbrk_loop ms me (word_of_int incr) h = (Some p, h')" "0 \<le> incr"
    by (auto simp: sbrk_r_def split: if_split_asm)
  have u: "unat (word_of_int incr :: u32) = nat incr" "unat (word_of_int incr :: u32) < 2 ^ 31"
    using unat_incr [OF loop(2) heap_alloc(2)] heap_alloc(2) by auto
  have ok: "heap_ok ms me h" using heap_alloc by simp
  note new = sbrk_loop_Some [OF assms u(2) ok loop(1)]
  have "placed ms me h' (unat p, nat incr)"
    unfolding placed_def using new u by (intro exI [of _ "mem_index h'"]) auto
  moreover have "heap_ok ms me h'"
    using new by (auto simp: heap_ok_def)
  ultimately show ?case
    using heap_alloc.IH placed_alloc [OF assms ok _ u(2) loop(1)] u(1) by (auto simp: list_all_iff)
next
  case (heap_fail bs h incr h')
  show ?case
  proof (cases "incr < 0")
    case True
    with heap_fail show ?thesis by (simp add: sbrk_r_def)
  next
    case False
    then have "sbrk_loop ms me (word_of_int incr) h = (None, h')"
      using heap_fail(3) by (simp add: sbrk_r_def)
    note gone = sbrk_loop_None [OF this]
    then have "placed ms me h b \<Longrightarrow> placed ms me h' b" for b
      unfolding placed_def by (metis le_less_trans less_le_trans)
    then show ?thesis
      using heap_fail.IH gone by (auto simp: heap_ok_def list_all_iff)
  qed
qed

text \<open>The blocks that the heap has handed out, in whatever order requests succeeded and failed, are
  pairwise disjoint, and each lies in one of the memory spaces of the board.\<close>

theorem sbrk_blocks_disjoint:
  assumes "mem_ok ms me" and "heap_reach ms me bs h"
  shows "sorted_wrt blocks_apart bs \<and> (\<forall>b \<in> set bs. \<exists>j<length ms. unat (ms ! j) \<le> fst b \<and> fst b + snd b \<le> unat (me ! j))"
  using heap_reach_inv [OF assms] by (auto simp: list_all_iff placed_def)

lemma sbrk_demo_run:
  "heap_reach [0x20000001] [0x20000020] [(0x20000010, 8), (0x20000008, 8)] \<lparr>heap_ptr = 0x20000018, mem_index = 0\<rparr>"
proof -
  have 1: "sbrk_r [0x20000001] [0x20000020] 8 \<lparr>heap_ptr = 0, mem_index = 0\<rparr>
      = (Some 0x20000008, \<lparr>heap_ptr = 0x20000010, mem_index = 0\<rparr>)"
    by (simp add: sbrk_r_def sbrk_loop.simps platform_get_first_free_ram_def platform_get_last_free_ram_def
        MIN_ALIGN_def MIN_ALIGN_SHIFT_def)
  have 2: "sbrk_r [0x20000001] [0x20000020] 8 \<lparr>heap_ptr = 0x20000010, mem_index = 0\<rparr>
      = (Some 0x20000010, \<lparr>heap_ptr = 0x20000018, mem_index = 0\<rparr>)"
    by (simp add: sbrk_r_def sbrk_loop.simps platform_get_last_free_ram_def MIN_ALIGN_def MIN_ALIGN_SHIFT_def)
  show ?thesis
    using heap_alloc [OF heap_alloc [OF heap_init _ 1] _ 2] by simp
qed

theorem sbrk_blocks_disjoint_witness: "blocks_apart (0x20000010, 8) (0x20000008, 8)"
  using sbrk_blocks_disjoint [OF _ sbrk_demo_run] by (simp add: mem_ok_def)

section \<open>Failure\<close>

text \<open>Once a request has failed, every later request fails, even one for which there would have been
  room before the failure.\<close>

theorem sbrk_failure_permanent:
  assumes "0 \<le> incr" and "sbrk_r ms me incr h = (None, h')"
  shows "sbrk_r ms me n h' = (None, h')"
proof -
  have "sbrk_loop ms me (word_of_int incr) h = (None, h')"
    using assms by (simp add: sbrk_r_def)
  from sbrk_loop_None [OF this] show ?thesis
    by (simp add: sbrk_r_def sbrk_loop.simps)
qed

theorem sbrk_failure_permanent_witness:
  "let h = \<lparr>heap_ptr = 0x20000010, mem_index = 0\<rparr>
   in fst (sbrk_r [0x20000001] [0x20000020] 8 h) = Some 0x20000010 \<and>
      fst (sbrk_r [0x20000001] [0x20000020] 8 (snd (sbrk_r [0x20000001] [0x20000020] 64 h))) = None"
proof -
  have big: "sbrk_r [0x20000001] [0x20000020] 64 \<lparr>heap_ptr = 0x20000010, mem_index = 0\<rparr>
      = (None, \<lparr>heap_ptr = 0, mem_index = 1\<rparr>)"
    by (simp add: sbrk_r_def sbrk_loop.simps platform_get_first_free_ram_def platform_get_last_free_ram_def
        MIN_ALIGN_def MIN_ALIGN_SHIFT_def)
  have small: "sbrk_r [0x20000001] [0x20000020] 8 \<lparr>heap_ptr = 0x20000010, mem_index = 0\<rparr>
      = (Some 0x20000010, \<lparr>heap_ptr = 0x20000018, mem_index = 0\<rparr>)"
    by (simp add: sbrk_r_def sbrk_loop.simps platform_get_last_free_ram_def MIN_ALIGN_def MIN_ALIGN_SHIFT_def)
  show ?thesis
    using sbrk_failure_permanent [OF _ big, of 8] big small by (simp add: Let_def)
qed

end
