(* ===== verification/Salloc.thy ===== *)
theory Salloc
  imports Sbrk
begin

text \<open>
  The simple memory allocator (\<open>src/src/salloc.c\<close>): every memory space of the board is a doubly linked
  list of blocks with their links in the memory itself. Addresses and sizes are natural numbers, and
  the wrap-around of 32-bit sizes is written out. The loops that follow the links are only known to
  end when the links are intact, so they are partial functions.
\<close>

section \<open>Words in memory\<close>

definition rd32 :: "mem \<Rightarrow> nat \<Rightarrow> u32" where
  "rd32 m a = of_le32 (m a) (m (a + 1)) (m (a + 2)) (m (a + 3))"

definition wr32 :: "nat \<Rightarrow> u32 \<Rightarrow> mem \<Rightarrow> mem" where
  "wr32 a w m = wr_bytes m a (le32 w)"

section \<open>Blocks\<close>

definition DYN_SIZE_MULT :: nat where "DYN_SIZE_MULT = 8"
definition DYN_SIZE_MULT_SHIFT :: nat where "DYN_SIZE_MULT_SHIFT = 3"
definition DYN_HEADER_SIZE :: nat where "DYN_HEADER_SIZE = 8"
definition DYN_MIN_SPLIT_SIZE :: nat where "DYN_MIN_SPLIT_SIZE = 16"

lemmas dyn_consts = DYN_SIZE_MULT_def DYN_SIZE_MULT_SHIFT_def DYN_HEADER_SIZE_def DYN_MIN_SPLIT_SIZE_def

definition s_act_size :: "nat \<Rightarrow> nat" where
  "s_act_size n =
     (if n AND (DYN_SIZE_MULT - 1) \<noteq> 0
      then push_bit DYN_SIZE_MULT_SHIFT (drop_bit DYN_SIZE_MULT_SHIFT n + 1) mod 2 ^ 32 else n)"

definition s_get_next_block :: "mem \<Rightarrow> nat \<Rightarrow> nat" where
  "s_get_next_block m p = unat (push_bit DYN_SIZE_MULT_SHIFT (rd32 m p AND 0x7FFFFFFF))"

definition s_set_next_block :: "nat \<Rightarrow> nat \<Rightarrow> mem \<Rightarrow> mem" where
  "s_set_next_block p nxt m =
     wr32 p ((rd32 m p AND 0x80000000) OR drop_bit DYN_SIZE_MULT_SHIFT (word_of_nat nxt)) m"

definition s_get_prev_block :: "mem \<Rightarrow> nat \<Rightarrow> nat" where
  "s_get_prev_block m p = unat (push_bit DYN_SIZE_MULT_SHIFT (rd32 m (p + 4) AND 0x7FFFFFFF))"

definition s_set_prev_block :: "nat \<Rightarrow> nat \<Rightarrow> mem \<Rightarrow> mem" where
  "s_set_prev_block p prv m =
     wr32 (p + 4) ((rd32 m (p + 4) AND 0x80000000) OR drop_bit DYN_SIZE_MULT_SHIFT (word_of_nat prv)) m"

definition s_get_block_size :: "mem \<Rightarrow> nat \<Rightarrow> nat" where
  "s_get_block_size m p =
     (let nxt = s_get_next_block m p in if nxt \<noteq> 0 then (nxt + (2 ^ 32 - p)) mod 2 ^ 32 else 0)"

definition s_mark_block_taken :: "nat \<Rightarrow> mem \<Rightarrow> mem" where
  "s_mark_block_taken p m = wr32 p (rd32 m p OR 0x80000000) m"

definition s_mark_block_free :: "nat \<Rightarrow> mem \<Rightarrow> mem" where
  "s_mark_block_free p m = wr32 p (rd32 m p AND 0x7FFFFFFF) m"

definition s_is_block_free :: "mem \<Rightarrow> nat \<Rightarrow> bool" where
  "s_is_block_free m p \<longleftrightarrow> rd32 m p AND 0x80000000 = 0"

definition s_create_new_block :: "nat \<Rightarrow> nat \<Rightarrow> nat \<Rightarrow> mem \<Rightarrow> mem" where
  "s_create_new_block p nxt prv m =
     wr32 (p + 4) (drop_bit DYN_SIZE_MULT_SHIFT (word_of_nat prv)) (wr32 p (drop_bit DYN_SIZE_MULT_SHIFT (word_of_nat nxt)) m)"

text \<open>The two loops of \<open>s_compact_free\<close>.\<close>

partial_function (option) s_walk_prev :: "mem \<Rightarrow> nat \<Rightarrow> nat option" where
  "s_walk_prev m p = (if s_is_block_free m p then s_walk_prev m (s_get_prev_block m p) else Some p)"

partial_function (option) s_walk_next :: "mem \<Rightarrow> nat \<Rightarrow> nat option" where
  "s_walk_next m p = (if s_is_block_free m p then s_walk_next m (s_get_next_block m p) else Some p)"

definition s_compact_free :: "nat \<Rightarrow> mem \<Rightarrow> mem option" where
  "s_compact_free p m =
     do {
       let m1 = s_mark_block_free p m;
       t \<leftarrow> s_walk_prev m1 p;
       let temp1 = s_get_next_block m1 t;
       temp2 \<leftarrow> s_walk_next m1 p;
       Some (if temp1 \<noteq> p \<or> s_get_prev_block m1 temp2 \<noteq> p
             then s_set_prev_block temp2 temp1 (s_set_next_block temp1 temp2 m1) else m1)
     }"

text \<open>The search for the smallest block that is large enough; the candidate is its size and address.\<close>

partial_function (option) s_best_fit :: "mem \<Rightarrow> nat \<Rightarrow> nat \<Rightarrow> nat \<times> nat \<Rightarrow> (nat \<times> nat) option" where
  "s_best_fit m n temp best =
     (if temp = 0 then Some best
      else s_best_fit m n (s_get_next_block m temp)
        (let bsize = s_get_block_size m temp
         in if s_is_block_free m temp \<and> n \<le> bsize \<and> bsize < fst best then (bsize, temp) else best))"

text \<open>The links of a block that is cut off at \<open>temp\<close> from the end of \<open>pblock\<close>.\<close>

definition s_split_block :: "nat \<Rightarrow> nat \<Rightarrow> mem \<Rightarrow> mem option" where
  "s_split_block pblock temp m =
     (let nxt = s_get_next_block m pblock
      in s_compact_free temp
           (s_set_next_block pblock temp
             (s_set_prev_block nxt temp
               (s_set_next_block temp nxt
                 (s_set_prev_block temp pblock m)))))"

definition s_get_free_block :: "nat \<Rightarrow> nat \<Rightarrow> mem \<Rightarrow> (nat \<times> mem) option" where
  "s_get_free_block n pstart m =
     (if n = 0 then Some (0, m)
      else do {
        let need = s_act_size ((n + DYN_HEADER_SIZE) mod 2 ^ 32);
        (minsize, pblock) \<leftarrow> s_best_fit m need (s_get_next_block m pstart) (2 ^ 32 - 1, 0);
        if pblock = 0 then Some (0, m)
        else do {
          let m1 = s_mark_block_taken pblock m;
          m2 \<leftarrow> (if minsize > need \<and> minsize - need \<ge> DYN_MIN_SPLIT_SIZE
                 then s_split_block pblock (pblock + need) m1 else Some m1);
          Some (pblock + DYN_HEADER_SIZE, m2)
        }
      })"

definition s_free_block :: "nat \<Rightarrow> mem \<Rightarrow> mem option" where
  "s_free_block p m = s_compact_free (p - DYN_HEADER_SIZE) m"

definition s_get_actual_block_size :: "mem \<Rightarrow> nat \<Rightarrow> nat" where
  "s_get_actual_block_size m p = (s_get_block_size m (p - DYN_HEADER_SIZE) + (2 ^ 32 - DYN_HEADER_SIZE)) mod 2 ^ 32"

definition s_shrink_block :: "nat \<Rightarrow> nat \<Rightarrow> mem \<Rightarrow> mem option" where
  "s_shrink_block p n m =
     (let pblock = p - DYN_HEADER_SIZE;
          need = s_act_size ((n + DYN_HEADER_SIZE) mod 2 ^ 32);
          bsize = s_get_block_size m pblock
      in if need \<ge> bsize \<or> bsize - need < DYN_MIN_SPLIT_SIZE then Some m
         else s_split_block pblock (pblock + need) m)"

section \<open>The allocator\<close>

record salloc =
  sa_mem :: mem
  s_initialized :: bool

text \<open>One round of the loop of \<open>s_init\<close>, for the memory space from \<open>g1\<close> to \<open>last_ram\<close>.\<close>

definition s_init_space :: "nat \<Rightarrow> nat \<Rightarrow> mem \<Rightarrow> mem" where
  "s_init_space g1 last_ram m =
     (let memspace = (last_ram + (2 ^ 32 - g1)) mod 2 ^ 32;
          crt = g1 + DYN_SIZE_MULT;
          g2 = g1 + memspace - DYN_SIZE_MULT
      in s_mark_block_free crt
           (s_mark_block_taken g2
             (s_mark_block_taken g1
               (s_create_new_block g2 0 crt
                 (s_create_new_block crt g2 g1
                   (s_create_new_block g1 crt 0 m))))))"

function s_init_from :: "u32 list \<Rightarrow> u32 list \<Rightarrow> nat \<Rightarrow> mem \<Rightarrow> mem" where
  "s_init_from ms me i m =
     (let pstart = platform_get_first_free_ram ms i
      in if pstart = 0 then m
         else s_init_from ms me (Suc i) (s_init_space (unat pstart) (unat (platform_get_last_free_ram me i)) m))"
  by pat_completeness auto
termination
  by (relation "measure (\<lambda>(ms, me, i, m). length ms - i)") (auto dest: first_free_ram_index)

definition s_init :: "u32 list \<Rightarrow> u32 list \<Rightarrow> salloc \<Rightarrow> salloc" where
  "s_init ms me s = \<lparr>sa_mem = s_init_from ms me 0 (sa_mem s), s_initialized = True\<rparr>"

definition s_ready :: "u32 list \<Rightarrow> u32 list \<Rightarrow> salloc \<Rightarrow> salloc" where
  "s_ready ms me s = (if s_initialized s then s else s_init ms me s)"

text \<open>The loop of \<open>smalloc\<close> over the memory spaces; the address 0 is \<open>NULL\<close>.\<close>

function s_malloc_from :: "u32 list \<Rightarrow> nat \<Rightarrow> nat \<Rightarrow> mem \<Rightarrow> (nat \<times> mem) option" where
  "s_malloc_from ms n i m =
     (let pstart = platform_get_first_free_ram ms i
      in if pstart = 0 then Some (0, m)
         else (case s_get_free_block n (unat pstart) m of
             None \<Rightarrow> None
           | Some (p, m') \<Rightarrow> if p \<noteq> 0 then Some (p, m') else s_malloc_from ms n (Suc i) m'))"
  by pat_completeness auto
termination
  by (relation "measure (\<lambda>(ms, n, i, m). length ms - i)") (auto dest: first_free_ram_index)

declare s_init_from.simps [simp del] s_malloc_from.simps [simp del]

definition smalloc :: "u32 list \<Rightarrow> u32 list \<Rightarrow> nat \<Rightarrow> salloc \<Rightarrow> (nat \<times> salloc) option" where
  "smalloc ms me n s =
     (let s1 = s_ready ms me s
      in map_option (\<lambda>(p, m). (p, s1\<lparr>sa_mem := m\<rparr>)) (s_malloc_from ms n 0 (sa_mem s1)))"

definition sfree :: "nat \<Rightarrow> salloc \<Rightarrow> salloc option" where
  "sfree p s =
     (if p = 0 \<or> \<not> s_initialized s then Some s
      else map_option (\<lambda>m. s\<lparr>sa_mem := m\<rparr>) (s_free_block p (sa_mem s)))"

definition scalloc :: "u32 list \<Rightarrow> u32 list \<Rightarrow> nat \<Rightarrow> nat \<Rightarrow> salloc \<Rightarrow> (nat \<times> salloc) option" where
  "scalloc ms me nmemb n s =
     do {
       (p, s1) \<leftarrow> smalloc ms me (nmemb * n mod 2 ^ 32) (s_ready ms me s);
       Some (p, if p \<noteq> 0 then s1\<lparr>sa_mem := wr_bytes (sa_mem s1) p (replicate (nmemb * n mod 2 ^ 32) 0)\<rparr> else s1)
     }"

definition srealloc :: "u32 list \<Rightarrow> u32 list \<Rightarrow> nat \<Rightarrow> nat \<Rightarrow> salloc \<Rightarrow> (nat \<times> salloc) option" where
  "srealloc ms me p n s0 =
     (let s = s_ready ms me s0
      in if p = 0 then smalloc ms me n s
         else if n = 0 then map_option (Pair 0) (sfree p s)
         else if s_get_actual_block_size (sa_mem s) p = n then Some (p, s)
         else if n < s_get_actual_block_size (sa_mem s) p
         then map_option (\<lambda>m. (p, s\<lparr>sa_mem := m\<rparr>)) (s_shrink_block p n (sa_mem s))
         else do {
           (newptr, s1) \<leftarrow> smalloc ms me n s;
           if newptr = 0 then Some (0, s1)
           else do {
             s2 \<leftarrow> sfree p (s1\<lparr>sa_mem := wr_bytes (sa_mem s1) newptr
                                 (rd_bytes (sa_mem s1) p (s_get_actual_block_size (sa_mem s1) p))\<rparr>);
             Some (newptr, s2)
           }
         })"

section \<open>Reading back what was written\<close>

lemma rd32_wr32_same [simp]: "rd32 (wr32 a w m) a = w"
proof -
  have "wr32 a w m (a + i) = le32 w ! i" if "i < 4" for i
    using that by (simp add: wr32_def wr_bytes_inside)
  from this [of 0] this [of 1] this [of 2] this [of 3] show ?thesis
    using of_le32_le32 [of w] by (simp add: rd32_def)
qed

lemma wr32_outside: "x < a \<or> a + 4 \<le> x \<Longrightarrow> wr32 a w m x = m x"
  by (simp add: wr32_def wr_bytes_outside)

lemma rd32_wr32_other [simp]: "b + 4 \<le> a \<or> a + 4 \<le> b \<Longrightarrow> rd32 (wr32 a w m) b = rd32 m b"
  by (auto simp: rd32_def wr32_outside)

text \<open>A link field holds the address of an aligned block in its lower 31 bits.\<close>

definition link_addr :: "u32 \<Rightarrow> nat" where
  "link_addr w = unat (push_bit DYN_SIZE_MULT_SHIFT (w AND 0x7FFFFFFF))"

definition link_word :: "nat \<Rightarrow> u32" where
  "link_word a = drop_bit DYN_SIZE_MULT_SHIFT (word_of_nat a)"

lemma bit_7FFFFFFF: "bit (0x7FFFFFFF :: u32) n \<longleftrightarrow> n < 31"
proof -
  have "bit (mask 31 :: u32) n \<longleftrightarrow> n < 31"
    by (auto simp: bit_mask_iff)
  then show ?thesis by (simp add: mask_numeral)
qed

lemma bit_80000000: "bit (0x80000000 :: u32) n \<longleftrightarrow> n = 31"
proof -
  have "bit ((2 :: u32) ^ k) n \<longleftrightarrow> n = k \<and> n < 32" for k
    by (auto simp: bit_simps)
  from this [of 31] show ?thesis by auto
qed

lemma link_roundtrip:
  assumes "a < 2 ^ 32" "8 dvd a"
  shows "link_addr (link_word a) = a" "link_addr (w AND 0x80000000 OR link_word a) = a"
    "link_addr (link_word a OR 0x80000000) = a"
proof -
  have u: "unat (word_of_nat a :: u32) = a"
    using assms(1) by (intro unat_of_nat_less) simp
  have low: "\<not> bit (word_of_nat a :: u32) n" if "n < 3" for n
  proof -
    have "\<not> bit a n"
      using assms(2) that by (auto simp: bit_iff_odd dvd_def elim!: less_SucE simp: numeral_3_eq_3)
    then show ?thesis
      using bit_unsigned_iff [of "word_of_nat a :: u32" n, where ?'a = nat] by (simp add: u)
  qed
  have eq: "push_bit 3 (x AND 0x7FFFFFFF) = word_of_nat a" if x: "\<And>n. n < 29 \<Longrightarrow> bit x n = bit (word_of_nat a :: u32) (n + 3)" for x :: u32
  proof (rule bit_word_eqI)
    fix n :: nat
    assume n: "n < LENGTH(32)"
    show "bit (push_bit 3 (x AND 0x7FFFFFFF)) n = bit (word_of_nat a :: u32) n"
    proof (cases "n < 3")
      case True
      then show ?thesis using low by (simp only: bit_push_bit_iff) simp
    next
      case False
      then show ?thesis
        using x [of "n - 3"] n by (simp only: bit_push_bit_iff bit_and_iff bit_7FFFFFFF) auto
    qed
  qed
  show "link_addr (link_word a) = a" "link_addr (w AND 0x80000000 OR link_word a) = a" "link_addr (link_word a OR 0x80000000) = a"
    unfolding link_addr_def link_word_def DYN_SIZE_MULT_SHIFT_def
    by (subst eq, simp only: bit_and_iff bit_or_iff bit_80000000 bit_drop_bit_eq o_apply, simp add: add.commute, rule u)+
qed

lemma link_addr_or_top [simp]: "link_addr (w OR 0x80000000) = link_addr w" "link_addr (w AND 0x7FFFFFFF) = link_addr w"
proof -
  have "(w OR 0x80000000) AND 0x7FFFFFFF = w AND (0x7FFFFFFF :: u32)"
    by (rule bit_word_eqI) (auto simp: bit_or_iff bit_and_iff bit_80000000 bit_7FFFFFFF simp del: bit_numeral_word_iff)
  then show "link_addr (w OR 0x80000000) = link_addr w" "link_addr (w AND 0x7FFFFFFF) = link_addr w"
    by (simp_all add: link_addr_def and.assoc)
qed

lemma top_bit_facts:
  "(w AND 0x80000000 OR link_word a) AND 0x80000000 = w AND (0x80000000 :: u32)"
  "link_word a AND 0x80000000 = 0" "(w OR 0x80000000) AND (0x80000000 :: u32) = 0x80000000" "(w AND 0x7FFFFFFF) AND (0x80000000 :: u32) = 0"
proof -
  have l: "\<not> bit (link_word a) 31"
    using bit_imp_le_length [of "word_of_nat a :: u32" 34]
    by (auto simp: link_word_def bit_drop_bit_eq DYN_SIZE_MULT_SHIFT_def)
  show "(w AND 0x80000000 OR link_word a) AND 0x80000000 = w AND (0x80000000 :: u32)"
    "link_word a AND 0x80000000 = 0" "(w OR 0x80000000) AND (0x80000000 :: u32) = 0x80000000" "(w AND 0x7FFFFFFF) AND (0x80000000 :: u32) = 0"
    using l by (intro bit_word_eqI, simp only: bit_or_iff bit_and_iff bit_80000000 bit_7FFFFFFF bit_0_eq bot_apply, auto)+
qed

section \<open>Headers\<close>

text \<open>The header of the block at \<open>a\<close>: taken or free, and its neighbours.\<close>

definition node :: "mem \<Rightarrow> nat \<Rightarrow> bool \<Rightarrow> nat \<Rightarrow> nat \<Rightarrow> bool" where
  "node m a t p n \<longleftrightarrow> s_is_block_free m a = (\<not> t) \<and> s_get_prev_block m a = p \<and> s_get_next_block m a = n"

definition addr_ok :: "nat \<Rightarrow> bool" where
  "addr_ok a \<longleftrightarrow> 8 dvd a \<and> a < 2 ^ 32"

lemma addr_ok_0 [simp]: "addr_ok 0"
  by (simp add: addr_ok_def)

definition same_on :: "mem \<Rightarrow> mem \<Rightarrow> nat \<Rightarrow> nat \<Rightarrow> bool" where
  "same_on m m' a b \<longleftrightarrow> (\<forall>x. a \<le> x \<longrightarrow> x < b \<longrightarrow> m' x = m x)"

lemma same_on_refl [simp]: "same_on m m a b"
  by (simp add: same_on_def)

lemma same_on_trans: "same_on m m' a b \<Longrightarrow> same_on m' m'' a b \<Longrightarrow> same_on m m'' a b"
  by (simp add: same_on_def)

lemma same_on_sub: "same_on m m' a b \<Longrightarrow> a \<le> c \<Longrightarrow> d \<le> b \<Longrightarrow> same_on m m' c d"
  by (simp add: same_on_def)

lemma link_ops:
  "s_get_next_block m a = link_addr (rd32 m a)" "s_get_prev_block m a = link_addr (rd32 m (a + 4))"
  by (simp_all add: s_get_next_block_def s_get_prev_block_def link_addr_def)

lemma node_frame: "same_on m m' a (a + 8) \<Longrightarrow> node m' a t p n = node m a t p n"
  by (simp add: node_def same_on_def s_is_block_free_def link_ops rd32_def)

lemmas header_defs = s_set_next_block_def s_set_prev_block_def s_mark_block_taken_def s_mark_block_free_def

lemma header_frame:
  assumes "b \<le> a \<or> a + 8 \<le> c"
  shows "same_on m (s_set_next_block a n m) c b" "same_on m (s_set_prev_block a n m) c b"
    "same_on m (s_mark_block_taken a m) c b" "same_on m (s_mark_block_free a m) c b"
  using assms by (auto simp: same_on_def header_defs wr32_outside)

lemma node_set_next: "node m a t p n \<Longrightarrow> addr_ok n' \<Longrightarrow> node (s_set_next_block a n' m) a t p n'"
  by (simp add: node_def s_set_next_block_def s_is_block_free_def link_ops addr_ok_def link_roundtrip top_bit_facts
      link_word_def [symmetric])

lemma node_set_prev: "node m a t p n \<Longrightarrow> addr_ok p' \<Longrightarrow> node (s_set_prev_block a p' m) a t p' n"
  by (simp add: node_def s_set_prev_block_def s_is_block_free_def link_ops addr_ok_def link_roundtrip
      link_word_def [symmetric])

lemma node_mark_taken: "node m a t p n \<Longrightarrow> node (s_mark_block_taken a m) a True p n"
  by (simp add: node_def s_mark_block_taken_def s_is_block_free_def link_ops top_bit_facts)

lemma node_mark_free: "node m a t p n \<Longrightarrow> node (s_mark_block_free a m) a False p n"
  by (simp add: node_def s_mark_block_free_def s_is_block_free_def link_ops top_bit_facts)

lemma node_exists: "\<exists>t p n. node m a t p n"
  by (auto simp: node_def)

section \<open>Linked lists of blocks\<close>

type_synonym blocks = "(nat \<times> bool) list"

fun fst_addr :: "blocks \<Rightarrow> nat \<Rightarrow> nat" where
  "fst_addr [] n = n"
| "fst_addr ((a, t) # bs) n = a"

definition lst_addr :: "blocks \<Rightarrow> nat \<Rightarrow> nat" where
  "lst_addr bs p = (if bs = [] then p else fst (last bs))"

fun lseg :: "mem \<Rightarrow> nat \<Rightarrow> blocks \<Rightarrow> nat \<Rightarrow> bool" where
  "lseg m p [] n \<longleftrightarrow> True"
| "lseg m p ((a, t) # bs) n \<longleftrightarrow> node m a t p (fst_addr bs n) \<and> lseg m a bs n"

lemma fst_addr_append [simp]: "fst_addr (xs @ ys) n = fst_addr xs (fst_addr ys n)"
  by (cases xs) auto

lemma lst_addr_simps [simp]: "lst_addr [] p = p" "lst_addr (xs @ [(a, t)]) p = a" "lst_addr ((a, t) # bs) p = lst_addr bs a"
  by (simp_all add: lst_addr_def)

lemma lseg_append: "lseg m p (xs @ ys) n \<longleftrightarrow> lseg m p xs (fst_addr ys n) \<and> lseg m (lst_addr xs p) ys n"
  by (induction m p xs n rule: lseg.induct) auto

lemma lseg_frame:
  "(\<And>a t. (a, t) \<in> set bs \<Longrightarrow> same_on m m' a (a + 8)) \<Longrightarrow> lseg m' p bs n = lseg m p bs n"
proof (induction m p bs n rule: lseg.induct)
  case (2 m p a t bs n)
  then show ?case
    using node_frame [of m m' a t p "fst_addr bs n"] by auto
qed simp

text \<open>Blocks in the order of their addresses, with room for their headers.\<close>

definition ordered :: "blocks \<Rightarrow> bool" where
  "ordered bs \<longleftrightarrow> sorted_wrt (\<lambda>b c. fst b + 8 \<le> fst c) bs \<and> (\<forall>b \<in> set bs. addr_ok (fst b) \<and> fst b \<noteq> 0)"

lemma ordered_append:
  "ordered (xs @ ys) \<longleftrightarrow> ordered xs \<and> ordered ys \<and> (\<forall>x \<in> set xs. \<forall>y \<in> set ys. fst x + 8 \<le> fst y)"
  by (auto simp: ordered_def sorted_wrt_append)

lemma ordered_Cons: "ordered (x # xs) \<longleftrightarrow> addr_ok (fst x) \<and> fst x \<noteq> 0 \<and> ordered xs \<and> (\<forall>y \<in> set xs. fst x + 8 \<le> fst y)"
  by (auto simp: ordered_def)

lemma ordered_Nil [simp]: "ordered []"
  by (simp add: ordered_def)

end
