(* ===== verification/Salloc_Heap.thy ===== *)
theory Salloc_Heap
  imports Salloc
begin

text \<open>
  What the operations of the simple allocator do to the lists of blocks in memory: merging free
  neighbours, the best-fit search, splitting; and that the allocator as a whole behaves like a store
  of separate blocks of bytes.
\<close>

section \<open>What an operation changes\<close>

text \<open>Only the headers of the blocks in \<open>A\<close> are changed.\<close>

definition changes_only :: "mem \<Rightarrow> mem \<Rightarrow> nat set \<Rightarrow> bool" where
  "changes_only m m' A \<longleftrightarrow> (\<forall>x. (\<forall>a \<in> A. x < a \<or> a + 8 \<le> x) \<longrightarrow> m' x = m x)"

lemma changes_only_refl [simp]: "changes_only m m A"
  by (simp add: changes_only_def)

lemma changes_only_Un: "changes_only m m' A \<Longrightarrow> changes_only m' m'' B \<Longrightarrow> A \<union> B \<subseteq> C \<Longrightarrow> changes_only m m'' C"
  by (simp add: changes_only_def) (metis UnCI subsetD)

lemma changes_only_mono: "changes_only m m' A \<Longrightarrow> A \<subseteq> B \<Longrightarrow> changes_only m m' B"
  by (auto simp: changes_only_def)

lemma changes_only_same_on:
  "changes_only m m' A \<Longrightarrow> (\<And>a. a \<in> A \<Longrightarrow> d \<le> a \<or> a + 8 \<le> c) \<Longrightarrow> same_on m m' c d"
  unfolding changes_only_def same_on_def by (meson le_trans less_le_trans)

lemma header_changes:
  "changes_only m (s_set_next_block a n m) {a}" "changes_only m (s_set_prev_block a n m) {a}"
  "changes_only m (s_mark_block_taken a m) {a}" "changes_only m (s_mark_block_free a m) {a}"
  by (auto simp: changes_only_def header_defs wr32_outside)

lemma node_changes: "changes_only m m' A \<Longrightarrow> (\<And>c. c \<in> A \<Longrightarrow> a + 8 \<le> c \<or> c + 8 \<le> a) \<Longrightarrow> node m' a t p n = node m a t p n"
  by (intro node_frame changes_only_same_on) auto

lemma lseg_changes:
  "changes_only m m' A \<Longrightarrow> (\<And>b c. b \<in> set bs \<Longrightarrow> c \<in> A \<Longrightarrow> fst b + 8 \<le> c \<or> c + 8 \<le> fst b) \<Longrightarrow> lseg m' p bs n = lseg m p bs n"
  by (intro lseg_frame changes_only_same_on) force+

section \<open>Following the links\<close>

abbreviation all_free :: "blocks \<Rightarrow> bool" where
  "all_free bs \<equiv> list_all (\<lambda>b. \<not> snd b) bs"

lemma s_walk_prev_eq:
  "lseg m p ((l, True) # fs @ [(a, False)]) n \<Longrightarrow> all_free fs \<Longrightarrow> s_walk_prev m a = Some l"
proof (induction fs arbitrary: a n rule: rev_induct)
  case Nil
  then show ?case
    by (subst s_walk_prev.simps) (simp add: node_def s_walk_prev.simps [of m l])
next
  case (snoc b fs)
  obtain c where b: "b = (c, False)"
    using snoc.prems(2) by (cases b) auto
  have "s_walk_prev m c = Some l"
    using snoc.prems by (intro snoc.IH [of c a]) (auto simp: lseg_append b)
  moreover have "s_is_block_free m a" "s_get_prev_block m a = c"
    using snoc.prems(1) by (auto simp: lseg_append b node_def)
  ultimately show ?case
    by (subst s_walk_prev.simps) simp
qed

lemma s_walk_next_eq:
  "lseg m p (fs @ (r, True) # ys) n \<Longrightarrow> all_free fs \<Longrightarrow> s_walk_next m (fst_addr fs r) = Some r"
proof (induction fs arbitrary: p)
  case Nil
  then show ?case
    by (subst s_walk_next.simps) (simp add: node_def)
next
  case (Cons b fs)
  obtain c where b: "b = (c, False)"
    using Cons.prems(2) by (cases b) auto
  have "s_walk_next m (fst_addr fs r) = Some r"
    using Cons.prems by (intro Cons.IH [of c]) (auto simp: b)
  then show ?case
    using Cons.prems(1) by (subst s_walk_next.simps) (auto simp: b node_def)
qed

section \<open>Merging\<close>

lemma ordered_mem: "ordered bs \<Longrightarrow> (a, t) \<in> set bs \<Longrightarrow> addr_ok a \<and> a \<noteq> 0"
  by (auto simp: ordered_def)

text \<open>A change of one header that keeps its links.\<close>

lemma lseg_replace:
  assumes "lseg m p (xs @ (a, t) # ys) n" "ordered (xs @ (a, t) # ys)" "changes_only m m' {a}"
    and "\<And>q k. node m a t q k \<Longrightarrow> node m' a t' q k"
  shows "lseg m' p (xs @ (a, t') # ys) n"
proof -
  have "lseg m' p xs a = lseg m p xs a" "lseg m' a ys n = lseg m a ys n"
    using assms(2) by (auto intro!: lseg_changes [OF assms(3)] simp: ordered_append ordered_Cons)
  with assms(1,4) show ?thesis
    by (simp add: lseg_append)
qed

lemma s_compact_free_eq:
  assumes L: "lseg m 0 (xs @ (l, True) # fs1 @ (a, t) # fs2 @ (r, True) # ys) 0"
    and O: "ordered (xs @ (l, True) # fs1 @ (a, t) # fs2 @ (r, True) # ys)"
    and free: "all_free fs1" "all_free fs2"
  shows "\<exists>m'. s_compact_free a m = Some m' \<and>
    lseg m' 0 (xs @ (l, True) # (fst_addr fs1 a, False) # (r, True) # ys) 0 \<and> changes_only m m' {a, fst_addr fs1 a, r}"
proof -
  define f where "f = fst_addr fs1 a"
  define m1 where "m1 = s_mark_block_free a m"
  have ch1: "changes_only m m1 {a}"
    unfolding m1_def by (rule header_changes)
  have f: "f \<in> insert a (fst ` set fs1)"
    by (cases fs1) (auto simp: f_def)
  have ord: "\<forall>x \<in> set xs. fst x + 8 \<le> l" "l + 8 \<le> f" "f \<le> a" "f = a \<or> f + 8 \<le> a" "a + 8 \<le> r" "f + 8 \<le> r"
     "\<forall>y \<in> set ys. r + 8 \<le> fst y" "addr_ok f" "addr_ok r"
    "\<forall>x \<in> set xs. \<forall>y \<in> set fs1 \<union> set fs2. fst x + 8 \<le> fst y" "\<forall>y \<in> set fs1. l + 8 \<le> fst y \<and> fst y + 8 \<le> a"
    "\<forall>y \<in> set fs2. a + 8 \<le> fst y"
    using O f by (auto simp: ordered_append ordered_Cons dest: ordered_mem)
  have L1: "lseg m1 0 (xs @ (l, True) # fs1 @ (a, False) # fs2 @ (r, True) # ys) 0"
    using lseg_replace [of m 0 "xs @ (l, True) # fs1" a t "fs2 @ (r, True) # ys" 0 m1 False] L O ch1 node_mark_free
    by (auto simp: m1_def)
  then have parts: "lseg m1 0 xs l" "node m1 l True (lst_addr xs 0) f" "lseg m1 l (fs1 @ [(a, False)]) (fst_addr fs2 r)"
      "lseg m1 a (fs2 @ (r, True) # ys) 0" "node m1 r True (lst_addr fs2 a) (fst_addr ys 0)" "lseg m1 r ys 0"
    by (auto simp: lseg_append f_def)
  have "s_walk_prev m1 a = Some l"
    using parts free(1) by (intro s_walk_prev_eq [of m1 "lst_addr xs 0" l fs1 a "fst_addr fs2 r"]) (auto simp: f_def)
  moreover have "s_walk_next m1 a = Some r"
    using s_walk_next_eq [of m1 "lst_addr fs1 l" "(a, False) # fs2" r ys 0] parts(3,4) free(2) by (simp add: lseg_append)
  moreover have "s_get_next_block m1 l = f" "s_get_prev_block m1 r = lst_addr fs2 a"
    using parts by (auto simp: node_def)
  ultimately have comp: "s_compact_free a m =
      Some (if f \<noteq> a \<or> lst_addr fs2 a \<noteq> a then s_set_prev_block r f (s_set_next_block f r m1) else m1)" (is "_ = Some ?m'")
    by (simp add: s_compact_free_def m1_def [symmetric])
  obtain nf where nf: "node m1 f False l nf"
    using parts(3) free(1) by (cases fs1) (auto simp: f_def)
  define m2 where "m2 = s_set_next_block f r m1"
  have ch2: "changes_only m1 m2 {f}" "changes_only m2 (s_set_prev_block r f m2) {r}"
    unfolding m2_def by (rule header_changes)+
  have new: "node ?m' f False l r \<and> node ?m' r True f (fst_addr ys 0) \<and> changes_only m1 ?m' {f, r}"
  proof (cases "f \<noteq> a \<or> lst_addr fs2 a \<noteq> a")
    case True
    have "node m2 f False l r" "node m2 r True (lst_addr fs2 a) (fst_addr ys 0)"
      using node_set_next [OF nf ord(9)] node_changes [OF ch2(1), of r] parts(5) ord(6) by (auto simp: m2_def)
    then have "node (s_set_prev_block r f m2) f False l r" "node (s_set_prev_block r f m2) r True f (fst_addr ys 0)"
      using node_changes [OF ch2(2), of f] node_set_prev ord(6,8) by auto
    moreover have "changes_only m1 (s_set_prev_block r f m2) {f, r}"
      by (rule changes_only_Un [OF ch2]) simp
    ultimately show ?thesis
      using True by (simp add: m2_def)
  next
    case False
    have "fs2 = []"
      using False ord(12) by (cases fs2 rule: rev_cases) (auto simp: lst_addr_def)
    then show ?thesis
      using False parts nf by (auto simp: lseg_append node_def)
  qed
  have "lseg ?m' 0 (xs @ (l, True) # (f, False) # (r, True) # ys) 0"
  proof -
    have "lseg ?m' 0 xs l" "lseg ?m' r ys 0" "node ?m' l True (lst_addr xs 0) f"
      using parts(1,2,6) ord(1,2,6,7) new lseg_changes [of m1 ?m' "{f, r}" xs 0 l] lseg_changes [of m1 ?m' "{f, r}" ys r 0]
        node_changes [of m1 ?m' "{f, r}" l]
      by force+
    then show ?thesis
      using new by (simp add: lseg_append)
  qed
  moreover have "changes_only m ?m' {a, f, r}"
    using new by (intro changes_only_Un [OF ch1]) auto
  ultimately show ?thesis
    using comp by (auto simp: f_def)
qed

section \<open>Splitting\<close>

lemma s_split_links:
  assumes L: "lseg m 0 (xs @ (a, t) # (n, tn) # rest) 0" and O: "ordered (xs @ (a, t) # (n, tn) # rest)"
    and c: "addr_ok c" "a + 8 \<le> c" "c + 8 \<le> n"
  shows "\<exists>tc. lseg (s_set_next_block a c (s_set_prev_block n c (s_set_next_block c n (s_set_prev_block c a m)))) 0
    (xs @ (a, t) # (c, tc) # (n, tn) # rest) 0"
proof -
  define m2 where "m2 = s_set_next_block c n (s_set_prev_block c a m)"
  define m3 where "m3 = s_set_prev_block n c m2"
  define m4 where "m4 = s_set_next_block a c m3"
  have ord: "\<forall>x \<in> set xs. fst x + 8 \<le> a" "\<forall>x \<in> set rest. n + 8 \<le> fst x" "a + 8 \<le> n" "addr_ok a" "addr_ok n"
    using O by (auto simp: ordered_append ordered_Cons)
  have ch2: "changes_only m m2 {c}"
    unfolding m2_def by (rule changes_only_Un [OF header_changes(2) header_changes(1)]) simp
  have ch3: "changes_only m2 m3 {n}" and ch4: "changes_only m3 m4 {a}"
    unfolding m3_def m4_def by (rule header_changes)+
  have ch: "changes_only m m4 {a, c, n}"
    by (rule changes_only_Un [OF ch2 changes_only_Un [OF ch3 ch4 subset_refl]]) auto
  have old: "node m a t (lst_addr xs 0) n" "node m n tn a (fst_addr rest 0)" "lseg m 0 xs a" "lseg m n rest 0"
    using L by (auto simp: lseg_append)
  obtain tc pc nc where "node m c tc pc nc"
    using node_exists [of m c] by blast
  then have "node m2 c tc a n"
    unfolding m2_def using ord by (intro node_set_next node_set_prev)
  then have "node m4 c tc a n"
    using node_changes [OF ch3, of c] node_changes [OF ch4, of c] c(2,3) by auto
  moreover have "node m4 n tn c (fst_addr rest 0)"
  proof -
    have "node m2 n tn a (fst_addr rest 0)"
      using node_changes [OF ch2, of n] old(2) c(3) by auto
    then have "node m3 n tn c (fst_addr rest 0)"
      unfolding m3_def using c(1) by (rule node_set_prev)
    then show ?thesis
      using node_changes [OF ch4, of n] ord(3) by auto
  qed
  moreover have "node m4 a t (lst_addr xs 0) c"
  proof -
    have "node m3 a t (lst_addr xs 0) n"
      using node_changes [OF ch2, of a] node_changes [OF ch3, of a] old(1) c(2) ord(3) by auto
    then show ?thesis
      unfolding m4_def using c(1) by (rule node_set_next)
  qed
  moreover have "lseg m4 0 xs a" "lseg m4 n rest 0"
    using old(3,4) lseg_changes [OF ch, of xs 0 a] lseg_changes [OF ch, of rest n 0] ord c by force+
  ultimately have "lseg m4 0 (xs @ (a, t) # (c, tc) # (n, tn) # rest) 0"
    by (simp add: lseg_append)
  then show ?thesis
    unfolding m4_def m3_def m2_def by blast
qed

lemma s_split_block_eq:
  assumes L: "lseg m 0 (xs @ (a, True) # fs @ (r, True) # ys) 0" and O: "ordered (xs @ (a, True) # fs @ (r, True) # ys)"
    and free: "all_free fs" and c: "addr_ok c" "a + 8 \<le> c" "c + 8 \<le> fst_addr fs r"
  shows "\<exists>m'. s_split_block a c m = Some m' \<and>
    lseg m' 0 (xs @ (a, True) # (c, False) # (r, True) # ys) 0 \<and> changes_only m m' {a, c, fst_addr fs r, r}"
proof -
  define n where "n = fst_addr fs r"
  obtain tn rest where rest: "fs @ (r, True) # ys = (n, tn) # rest"
    by (cases fs) (auto simp: n_def)
  define m4 where "m4 = s_set_next_block a c (s_set_prev_block n c (s_set_next_block c n (s_set_prev_block c a m)))"
  have ch: "changes_only m m4 {a, c, n}"
    unfolding m4_def
    by (rule changes_only_Un [OF changes_only_Un [OF changes_only_Un [OF header_changes(2) header_changes(1) subset_refl]
            header_changes(2) subset_refl] header_changes(1)]) auto
  obtain tc where L4: "lseg m4 0 (xs @ (a, True) # (c, tc) # fs @ (r, True) # ys) 0"
    using s_split_links [of m xs a True n tn rest c] L O c unfolding m4_def n_def [symmetric] rest by auto
  have "s_get_next_block m a = n"
    using L by (auto simp: lseg_append node_def n_def)
  then have split: "s_split_block a c m = s_compact_free c m4"
    by (simp add: s_split_block_def m4_def)
  have O': "ordered (xs @ (a, True) # (n, tn) # rest)"
    using O by (simp add: rest)
  have "c + 8 \<le> fst y" if "y \<in> set rest" for y
    using O' that c(3) by (auto simp: ordered_append ordered_Cons n_def [symmetric])
  moreover have "fst x + 8 \<le> c" if "x \<in> set xs" for x
    using O' that c(2) by (auto simp: ordered_append ordered_Cons)
  moreover have "c \<noteq> 0"
    using c(2) by simp
  ultimately have "ordered (xs @ (a, True) # (c, tc) # (n, tn) # rest)"
    using O' c unfolding n_def [symmetric] ordered_append ordered_Cons by auto
  then have O4: "ordered (xs @ (a, True) # [] @ (c, tc) # fs @ (r, True) # ys)"
    by (simp add: rest)
  obtain m' where m': "s_compact_free c m4 = Some m'" "lseg m' 0 (xs @ (a, True) # (c, False) # (r, True) # ys) 0"
    "changes_only m4 m' {c, r}"
    using s_compact_free_eq [of m4 xs a "[]" c tc fs r ys] L4 O4 free by auto
  moreover have "changes_only m m' {a, c, n, r}"
    by (rule changes_only_Un [OF ch m'(3)]) auto
  ultimately show ?thesis
    by (auto simp: split n_def)
qed

section \<open>The best fit\<close>

text \<open>The candidates of the search: free blocks that are large enough.\<close>

definition fits :: "nat \<Rightarrow> blocks \<Rightarrow> nat \<Rightarrow> nat \<Rightarrow> bool" where
  "fits need bs a n \<longleftrightarrow> (\<exists>xs t ys. bs = xs @ (a, False) # (n, t) # ys) \<and> need \<le> n - a"

lemma fits_Cons:
  "fits need ((a, t) # bs) b n \<longleftrightarrow> fits need bs b n \<or> b = a \<and> \<not> t \<and> bs \<noteq> [] \<and> n = fst_addr bs 0 \<and> need \<le> n - a"
proof
  assume "fits need ((a, t) # bs) b n"
  then obtain xs u ys where *: "(a, t) # bs = xs @ (b, False) # (n, u) # ys" "need \<le> n - b"
    by (auto simp: fits_def)
  then show "fits need bs b n \<or> b = a \<and> \<not> t \<and> bs \<noteq> [] \<and> n = fst_addr bs 0 \<and> need \<le> n - a"
    by (cases xs) (auto simp: fits_def)
next
  assume "fits need bs b n \<or> b = a \<and> \<not> t \<and> bs \<noteq> [] \<and> n = fst_addr bs 0 \<and> need \<le> n - a"
  then show "fits need ((a, t) # bs) b n"
  proof
    assume "fits need bs b n"
    then show ?thesis
      by (auto simp: fits_def) (metis append_Cons)
  next
    assume *: "b = a \<and> \<not> t \<and> bs \<noteq> [] \<and> n = fst_addr bs 0 \<and> need \<le> n - a"
    then obtain u ys where "bs = (n, u) # ys" by (cases bs) auto
    with * show ?thesis
      by (auto simp: fits_def intro!: exI [of _ "[]"])
  qed
qed

lemma s_get_block_size_eq: "node m a t p n \<Longrightarrow> n \<noteq> 0 \<Longrightarrow> a < n \<Longrightarrow> n < 2 ^ 32 \<Longrightarrow> s_get_block_size m a = n - a"
proof -
  assume *: "node m a t p n" "n \<noteq> 0" "a < n" "n < 2 ^ 32"
  then have "n + (2 ^ 32 - a) = (n - a) + 2 ^ 32" by simp
  with * show ?thesis
    by (simp only: s_get_block_size_def node_def Let_def mod_add_self2) simp
qed

lemma s_best_fit_eq:
  assumes "0 < need"
  shows "lseg m p bs 0 \<Longrightarrow> ordered bs \<Longrightarrow>
    \<exists>best'. s_best_fit m need (fst_addr bs 0) best = Some best' \<and>
      (best' = best \<or> (\<exists>a n. fits need bs a n \<and> best' = (n - a, a))) \<and> fst best' \<le> fst best \<and>
      (\<forall>a n. fits need bs a n \<longrightarrow> fst best' \<le> n - a)"
proof (induction bs arbitrary: p best)
  case Nil
  then show ?case
    by (subst s_best_fit.simps) (auto simp: fits_def)
next
  case (Cons b bs)
  obtain a t where b: "b = (a, t)" by (cases b)
  have node: "node m a t p (fst_addr bs 0)" "lseg m a bs 0" and a: "a \<noteq> 0"
    using Cons.prems by (auto simp: b ordered_Cons)
  define best1 where "best1 = (let bsize = s_get_block_size m a
      in if s_is_block_free m a \<and> need \<le> bsize \<and> bsize < fst best then (bsize, a) else best)"
  have step: "s_best_fit m need a best = s_best_fit m need (fst_addr bs 0) best1"
    using node(1) a by (subst s_best_fit.simps) (simp add: b node_def best1_def)
  have size: "s_get_block_size m a = (if bs = [] then 0 else fst_addr bs 0 - a)"
  proof (cases bs)
    case Nil
    with node show ?thesis by (simp add: s_get_block_size_def node_def)
  next
    case (Cons c cs)
    then have "a < fst_addr bs 0" "fst_addr bs 0 < 2 ^ 32" "fst_addr bs 0 \<noteq> 0"
      using Cons.prems(2) by (cases c; auto simp: b ordered_Cons addr_ok_def)+
    with Cons show ?thesis
      using s_get_block_size_eq [OF node(1)] by simp
  qed
  have ord: "ordered bs"
    using Cons.prems(2) by (simp add: ordered_Cons)
  have free: "s_is_block_free m a \<longleftrightarrow> \<not> t"
    using node(1) by (simp add: node_def)
  have best1: "best1 = best \<or> (\<exists>a' n. fits need (b # bs) a' n \<and> best1 = (n - a', a'))" "fst best1 \<le> fst best"
    "\<not> t \<Longrightarrow> bs \<noteq> [] \<Longrightarrow> need \<le> fst_addr bs 0 - a \<Longrightarrow> fst best1 \<le> fst_addr bs 0 - a"
    using assms by (auto simp: best1_def Let_def free size b fits_Cons)
  obtain best' where "s_best_fit m need (fst_addr bs 0) best1 = Some best'"
    "best' = best1 \<or> (\<exists>a n. fits need bs a n \<and> best' = (n - a, a))" "fst best' \<le> fst best1"
    "\<forall>a n. fits need bs a n \<longrightarrow> fst best' \<le> n - a"
    using Cons.IH [OF node(2) ord, of best1] by blast
  then show ?case
    using best1 step by (intro exI [of _ best']) (auto simp: b fits_Cons intro: order_trans)
qed

section \<open>A memory space\<close>

text \<open>A memory space from \<open>g\<close> to \<open>e\<close>: guards at both ends, no two free blocks side by side, and room for at
  least eight bytes in every block.\<close>

definition space :: "mem \<Rightarrow> nat \<Rightarrow> nat \<Rightarrow> blocks \<Rightarrow> bool" where
  "space m g e bs \<longleftrightarrow> lseg m 0 bs 0 \<and> ordered bs \<and> (\<exists>mid. bs = (g, True) # mid \<and> mid \<noteq> [] \<and> fst_addr mid 0 = g + 8 \<and> snd (last mid) \<and>
     fst (last mid) + 8 = e \<and> sorted_wrt (\<lambda>b c. fst b + 16 \<le> fst c) mid) \<and> successively (\<lambda>b c. snd b \<or> snd c) bs \<and> (\<forall>b \<in> set bs. fst b + 8 \<le> e)"

text \<open>The ranges of the taken blocks, without their headers.\<close>

fun taken_set :: "blocks \<Rightarrow> (nat \<times> nat) set" where
  "taken_set ((a, t) # (b, u) # bs) = (if t then {(a + 8, b)} else {}) \<union> taken_set ((b, u) # bs)"
| "taken_set bs = {}"

lemma taken_set_Cons: "bs \<noteq> [] \<Longrightarrow> taken_set ((a, t) # bs) = (if t then {(a + 8, fst_addr bs 0)} else {}) \<union> taken_set bs"
  by (cases bs) auto

lemma taken_set_append:
  "taken_set (xs @ (a, t) # ys) = taken_set (xs @ [(a, t')]) \<union> taken_set ((a, t) # ys)"
proof (induction xs)
  case (Cons x xs)
  then show ?case
    by (cases x) (simp add: taken_set_Cons Un_assoc)
qed simp

lemma taken_set_free: "all_free fs \<Longrightarrow> taken_set (fs @ (r, t) # ys) = taken_set ((r, t) # ys)"
proof (induction fs)
  case (Cons x fs)
  then show ?case
    by (cases x) (simp add: taken_set_Cons)
qed simp

lemma taken_set_mem:
  "(p, q) \<in> taken_set bs \<Longrightarrow> (\<exists>a. p = a + 8 \<and> (a, True) \<in> set bs) \<and> q \<in> fst ` set bs"
proof (induction bs)
  case (Cons b bs)
  then show ?case
    by (cases b; cases bs) (auto split: if_split_asm)
qed simp

text \<open>No header of a block lies in the range of another.\<close>

lemma taken_set_avoids:
  "ordered bs \<Longrightarrow> (p, q) \<in> taken_set bs \<Longrightarrow> (x, t) \<in> set bs \<Longrightarrow> q \<le> x \<or> x + 8 \<le> p"
proof (induction bs)
  case (Cons b bs)
  obtain a u where b: "b = (a, u)" by (cases b)
  show ?case
  proof (cases "bs \<noteq> [] \<and> u \<and> (p, q) = (a + 8, fst_addr bs 0)")
    case True
    then obtain v cs where "bs = (q, v) # cs" by (cases bs) auto
    with Cons.prems True show ?thesis
      by (auto simp: b ordered_Cons)
  next
    case False
    then have pq: "(p, q) \<in> taken_set bs"
      using Cons.prems(2) by (cases bs) (auto simp: b taken_set_Cons split: if_split_asm)
    show ?thesis
    proof (cases "(x, t) \<in> set bs")
      case True
      with Cons pq show ?thesis by (simp add: ordered_Cons)
    next
      case False
      then show ?thesis
        using Cons.prems(1,3) taken_set_mem [OF pq] by (force simp: b ordered_Cons)
    qed
  qed
qed simp

lemma taken_set_same_on:
  assumes "changes_only m m' A" "ordered bs" "(p, q) \<in> taken_set bs" "A \<subseteq> fst ` set bs"
  shows "same_on m m' p q"
  using assms(1)
proof (rule changes_only_same_on)
  fix a
  assume "a \<in> A"
  then obtain t where "(a, t) \<in> set bs" using assms(4) by auto
  then show "q \<le> a \<or> a + 8 \<le> p"
    by (rule taken_set_avoids [OF assms(2,3)])
qed

lemma taken_set_disjoint:
  assumes "ordered bs" "(p, q) \<in> taken_set bs" "(p', q') \<in> taken_set bs" "p \<noteq> p'"
  shows "q \<le> p' \<or> q' \<le> p"
proof -
  obtain a a' where "p = a + 8" "(a, True) \<in> set bs" "p' = a' + 8" "(a', True) \<in> set bs"
    using taken_set_mem [OF assms(2)] taken_set_mem [OF assms(3)] by auto
  then show ?thesis
    using taken_set_avoids [OF assms(1,2), of a' True] taken_set_avoids [OF assms(1,3), of a True] assms(4) by linarith
qed

lemma taken_set_le: "ordered bs \<Longrightarrow> (p, q) \<in> taken_set bs \<Longrightarrow> p \<le> q"
proof (induction bs)
  case (Cons b bs)
  then show ?case
    by (cases b; cases bs) (auto simp: ordered_Cons split: if_split_asm)
qed simp

lemma taken_set_fun:
  assumes "ordered bs" "(p, q) \<in> taken_set bs" "(p, q') \<in> taken_set bs"
  shows "q = q'"
proof -
  have "k \<le> k'" if "(p, k) \<in> taken_set bs" "(p, k') \<in> taken_set bs" for k k'
    using taken_set_avoids [OF assms(1) that(1)] taken_set_mem [OF that(2)] taken_set_le [OF assms(1) that(2)] by fastforce
  with assms(2,3) show ?thesis
    by (simp add: le_antisym)
qed

section \<open>Allocation in a space\<close>

lemma space_lseg: "space m g e bs \<Longrightarrow> lseg m 0 bs 0" "space m g e bs \<Longrightarrow> ordered bs"
  by (auto simp: space_def)

lemma space_free_block:
  assumes "space m g e bs" "bs = xs @ (a, False) # (r, t) # ys"
  obtains xs' where "xs = (g, True) # xs'" "t" "a + 16 \<le> r" "successively (\<lambda>b c. snd b \<or> snd c) xs" "xs \<noteq> []" "snd (last xs)"
proof -
  obtain mid where mid: "bs = (g, True) # mid" "sorted_wrt (\<lambda>b c. fst b + 16 \<le> fst c) mid" "successively (\<lambda>b c. snd b \<or> snd c) bs"
    using assms(1) by (auto simp: space_def)
  obtain xs' where xs: "xs = (g, True) # xs'" "mid = xs' @ (a, False) # (r, t) # ys"
    using mid(1) assms(2) by (cases xs) auto
  show ?thesis
    by (rule that [OF xs(1)])
      (use mid(2,3) assms(2) xs in \<open>auto simp: sorted_wrt_append successively_append_iff successively_Cons split: if_split_asm\<close>)
qed

text \<open>A block of the space becomes taken, and perhaps a free block is split off its end.\<close>

lemma space_take:
  assumes S: "space m g e (xs @ (a, u) # fs @ (r, True) # ys)" and a: "xs \<noteq> []" "all_free fs"
    and sp: "sp = [] \<and> fs = [] \<or> sp = [(c, False)] \<and> addr_ok c \<and> a + 16 \<le> c \<and> c + 16 \<le> r"
    and L: "lseg m' 0 (xs @ (a, True) # sp @ (r, True) # ys) 0"
  shows "space m' g e (xs @ (a, True) # sp @ (r, True) # ys)"
proof -
  obtain mid where mid: "xs @ (a, u) # fs @ (r, True) # ys = (g, True) # mid" "sorted_wrt (\<lambda>b c. fst b + 16 \<le> fst c) mid"
      "snd (last mid)" "successively (\<lambda>b c. snd b \<or> snd c) (xs @ (a, u) # fs @ (r, True) # ys)"
      "ordered (xs @ (a, u) # fs @ (r, True) # ys)" "\<forall>b \<in> set (xs @ (a, u) # fs @ (r, True) # ys). fst b + 8 \<le> e"
      "fst_addr mid 0 = g + 8" "fst (last mid) + 8 = e"
    using S unfolding space_def by blast
  obtain xs' where xs: "xs = (g, True) # xs'" "mid = xs' @ (a, u) # fs @ (r, True) # ys"
    using mid(1) a(1) by (cases xs) auto
  have o: "\<forall>x \<in> set xs. fst x + 8 \<le> a \<and> (\<forall>y \<in> set ys. fst x + 8 \<le> fst y)" "\<forall>x \<in> set xs'. fst x + 16 \<le> a \<and> (\<forall>y \<in> set ys. fst x + 16 \<le> fst y)"
      "\<forall>y \<in> set ys. r + 16 \<le> fst y" "a + 16 \<le> r" "addr_ok a" "addr_ok r" "r + 8 \<le> e" "a \<noteq> 0" "r \<noteq> 0"
      "ordered xs" "ordered ys" "sorted_wrt (\<lambda>b c. fst b + 16 \<le> fst c) xs'" "sorted_wrt (\<lambda>b c. fst b + 16 \<le> fst c) ys"
    using mid(2,5,6) xs by (auto simp: ordered_append ordered_Cons sorted_wrt_append)
  have "ordered (xs @ (a, True) # sp @ (r, True) # ys)"
    using o sp by (fastforce simp: ordered_append ordered_Cons)
  moreover have "sorted_wrt (\<lambda>b c. fst b + 16 \<le> fst c) (xs' @ (a, True) # sp @ (r, True) # ys)"
    using o sp by (fastforce simp: sorted_wrt_append)
  moreover have "successively (\<lambda>b c. snd b \<or> snd c) (xs @ (a, True) # sp @ (r, True) # ys)"
    using mid(4) sp a(1) by (auto simp: successively_append_iff successively_Cons split: if_split_asm)
  moreover have "\<forall>b \<in> set (xs @ (a, True) # sp @ (r, True) # ys). fst b + 8 \<le> e"
    using mid(6) sp o(7) by auto
  moreover have "snd (last (xs' @ (a, True) # sp @ (r, True) # ys))" "fst (last (xs' @ (a, True) # sp @ (r, True) # ys)) + 8 = e"
    using mid(3,8) xs by auto
  moreover have "fst_addr (xs' @ (a, True) # sp @ (r, True) # ys) 0 = g + 8"
    using mid(7) xs by simp
  ultimately show ?thesis
    using L xs by (simp add: space_def)
qed

definition need_of :: "nat \<Rightarrow> nat" where
  "need_of n = s_act_size ((n + DYN_HEADER_SIZE) mod 2 ^ 32)"

lemma need_of:
  assumes "n + 16 \<le> 2 ^ 32"
  shows "n + 8 \<le> need_of n" "8 dvd need_of n" "need_of n < n + 16"
proof -
  define k where "k = n + 8"
  have and7: "k AND 7 = k mod 8"
    using and_pow2_minus_1_nat [of k 3] by simp
  have k: "k mod 2 ^ 32 = k" "k + 8 \<le> 2 ^ 32"
    using assms by (auto simp: k_def)
  have "8 * (k div 8 + 1) \<le> k + 8" by simp
  have "need_of n = (if k mod 8 \<noteq> 0 then 8 * (k div 8 + 1) else k)"
  proof (cases "k mod 8 = 0")
    case True
    then show ?thesis
      using k(1) by (simp add: need_of_def s_act_size_def dyn_consts k_def [symmetric] and7)
  next
    case False
    then have "8 * (k div 8) < k"
      using mult_div_mod_eq [of 8 k] by linarith
    then have "8 * (k div 8 + 1) < 2 ^ 32"
      using k(2) by (simp add: algebra_simps)
    then show ?thesis
      using False k(1) by (simp add: need_of_def s_act_size_def dyn_consts k_def [symmetric] and7 push_bit_eq_mult drop_bit_eq_div)
  qed
  moreover have "k mod 8 \<noteq> 0 \<Longrightarrow> 8 * (k div 8) < k" "k < 8 * (k div 8) + 8"
    using mult_div_mod_eq [of 8 k] mod_less_divisor [of 8 k] by linarith+
  ultimately have "k \<le> need_of n" "8 dvd need_of n" "need_of n < k + 8"
    by (auto simp: mod_eq_0_iff_dvd)
  then show "n + 8 \<le> need_of n" "8 dvd need_of n" "need_of n < n + 16"
    by (auto simp: k_def)
qed

text \<open>What the operations keep: the ranges of the blocks in \<open>T\<close> and the memory outside the space.\<close>

definition keeps :: "mem \<Rightarrow> mem \<Rightarrow> nat \<Rightarrow> nat \<Rightarrow> (nat \<times> nat) set \<Rightarrow> bool" where
  "keeps m m' g e T \<longleftrightarrow> (\<forall>(p, q) \<in> T. same_on m m' p q) \<and> (\<forall>x. x < g \<or> e \<le> x \<longrightarrow> m' x = m x)"

lemma keeps_refl [simp]: "keeps m m g e T"
  by (simp add: keeps_def)

lemma space_bounds: "space m g e bs \<Longrightarrow> (a, t) \<in> set bs \<Longrightarrow> g \<le> a \<and> a + 8 \<le> e"
  by (fastforce simp: space_def ordered_Cons)

lemma keepsI:
  assumes "changes_only m m' A" "space m1 g e bs" "A \<subseteq> fst ` set bs" "T \<subseteq> taken_set bs"
  shows "keeps m m' g e T"
proof -
  have "m' x = m x" if x: "x < g \<or> e \<le> x" for x
  proof -
    have "x < a \<or> a + 8 \<le> x" if "a \<in> A" for a
      using that assms(3) x space_bounds [OF assms(2)] by fastforce
    then show ?thesis
      using assms(1) by (simp add: changes_only_def)
  qed
  then show ?thesis
    using taken_set_same_on [OF assms(1) space_lseg(2) [OF assms(2)] _ assms(3)] assms(4) by (auto simp: keeps_def)
qed

lemma s_get_free_block_eq:
  assumes S: "space m g e bs" and n: "0 < n" "n + 16 \<le> 2 ^ 32"
  shows "s_get_free_block n g m = Some (0, m) \<and> (\<forall>a r. \<not> fits (need_of n) bs a r) \<or>
    (\<exists>m' bs' a b. s_get_free_block n g m = Some (a + 8, m') \<and> space m' g e bs' \<and>
      taken_set bs' = insert (a + 8, b) (taken_set bs) \<and> a + 8 + n \<le> b \<and> (a, False) \<in> set bs \<and> keeps m m' g e (taken_set bs))"
proof -
  define need where "need = need_of n"
  have need: "n + 8 \<le> need" "8 dvd need" "need < n + 16"
    using need_of [OF n(2)] by (auto simp: need_def)
  note L = space_lseg [OF S]
  obtain mid where bs: "bs = (g, True) # mid" "mid \<noteq> []"
    using S by (auto simp: space_def)
  have mid: "lseg m g mid 0" "ordered mid" "s_get_next_block m g = fst_addr mid 0"
    using L by (auto simp: bs ordered_Cons node_def)
  have pos: "0 < need"
    using need(1) by simp
  obtain best where best: "s_best_fit m need (fst_addr mid 0) (2 ^ 32 - 1, 0) = Some best"
      "best = (2 ^ 32 - 1, 0) \<or> (\<exists>a r. fits need mid a r \<and> best = (r - a, a))"
      "\<forall>a r. fits need mid a r \<longrightarrow> fst best \<le> r - a"
    using s_best_fit_eq [OF pos mid(1,2), of "(2 ^ 32 - 1, 0)"] by blast
  have unf: "s_get_free_block n g m = (case best of (minsize, pblock) \<Rightarrow>
      if pblock = 0 then Some (0, m)
      else map_option (Pair (pblock + 8)) (if need < minsize \<and> 16 \<le> minsize - need
        then s_split_block pblock (pblock + need) (s_mark_block_taken pblock m) else Some (s_mark_block_taken pblock m)))"
  proof -
    have "s_get_free_block n g m = do {
        (minsize, pblock) \<leftarrow> s_best_fit m need (s_get_next_block m g) (2 ^ 32 - 1, 0);
        if pblock = 0 then Some (0, m)
        else map_option (Pair (pblock + 8)) (if need < minsize \<and> 16 \<le> minsize - need
          then s_split_block pblock (pblock + need) (s_mark_block_taken pblock m) else Some (s_mark_block_taken pblock m)) }"
      using n(1) by (simp add: s_get_free_block_def need_def need_of_def Let_def dyn_consts map_conv_bind_option comp_def cong: if_cong)
    then show ?thesis
      unfolding mid(3) best(1) by simp
  qed
  have fits: "fits need bs a r \<longleftrightarrow> fits need mid a r" for a r
    by (simp add: bs fits_Cons)
  show ?thesis
  proof (cases "\<exists>a r. fits need bs a r")
    case False
    then have "best = (2 ^ 32 - 1, 0)"
      using best(2) by (simp add: fits)
    then show ?thesis
      using False by (simp add: unf need_def [symmetric])
  next
    case True
    then obtain a0 r0 where "fits need mid a0 r0" by (auto simp: fits)
    moreover have "r0 < 2 ^ 32 - 1" if "fits need mid a0 r0" for a0 r0
      using that mid(2) by (auto simp: fits_def ordered_append ordered_Cons addr_ok_def) presburger
    ultimately have "fst best < 2 ^ 32 - 1"
      using best(3) by (meson diff_le_self le_less_trans le_trans)
    then obtain a r where ar: "fits need mid a r" "best = (r - a, a)"
      using best(2) by auto
    have "fits need bs a r"
      using ar(1) by (simp add: fits)
    then obtain xs t ys where dec: "bs = xs @ (a, False) # (r, t) # ys" "need \<le> r - a"
      by (auto simp: fits_def)
    then obtain xs' where xs: "xs = (g, True) # xs'" "t" "a + 16 \<le> r" "xs \<noteq> []"
      using space_free_block [OF S dec(1)] by metis
    define m1 where "m1 = s_mark_block_taken a m"
    have ch1: "changes_only m m1 {a}"
      unfolding m1_def by (rule header_changes)
    have L1: "lseg m1 0 (xs @ (a, True) # [] @ (r, True) # ys) 0"
      using lseg_replace [of m 0 xs a False "(r, True) # ys" 0 m1 True] L ch1 node_mark_taken xs(2)
      by (auto simp: m1_def dec)
    have a0: "a \<noteq> 0" "addr_ok a" "addr_ok r"
      using L(2) by (auto simp: dec ordered_append ordered_Cons)
    have result: "s_get_free_block n g m =
        (if need < r - a \<and> 16 \<le> r - a - need then map_option (Pair (a + 8)) (s_split_block a (a + need) m1) else Some (a + 8, m1))"
      using ar(2) a0(1) by (simp add: unf m1_def)
    have S': "space m g e (xs @ (a, False) # [] @ (r, True) # ys)"
      using S dec xs(2) by simp
    show ?thesis
    proof (cases "need < r - a \<and> 16 \<le> r - a - need")
      case True
      define c where "c = a + need"
      have c: "addr_ok c" "a + 16 \<le> c" "c + 16 \<le> r"
        using True need(1,2) a0 n(1) by (auto simp: c_def addr_ok_def)
      have O1: "ordered (xs @ (a, True) # [] @ (r, True) # ys)"
        using L(2) dec xs(2) by (simp add: ordered_append ordered_Cons)
      obtain m' where m': "s_split_block a c m1 = Some m'" "lseg m' 0 (xs @ (a, True) # (c, False) # (r, True) # ys) 0"
          "changes_only m1 m' {a, c, r}"
        using s_split_block_eq [OF L1 O1 _ c(1)] c by auto
      have sp: "space m' g e (xs @ (a, True) # [(c, False)] @ (r, True) # ys)"
        using c m'(2) by (intro space_take [OF S' xs(4)]) auto
      have tk: "taken_set (xs @ (a, True) # [(c, False)] @ (r, True) # ys) = insert (a + 8, c) (taken_set bs)"
        using taken_set_append [of xs a True "(c, False) # (r, True) # ys" True] taken_set_append [of xs a False "(r, True) # ys" True] xs(2)
        by (simp add: dec)
      have "keeps m m' g e (taken_set bs)"
        by (rule keepsI [OF changes_only_Un [OF ch1 m'(3) subset_refl] sp]) (use tk in auto)
      then show ?thesis
        using True result m'(1) sp tk need(1)
        by (intro disjI2 exI [of _ m'] exI [of _ "xs @ (a, True) # [(c, False)] @ (r, True) # ys"] exI [of _ a] exI [of _ c])
          (simp add: c_def dec)
    next
      case False
      have sp: "space m1 g e (xs @ (a, True) # [] @ (r, True) # ys)"
        using L1 by (intro space_take [OF S' xs(4)]) auto
      have tk: "taken_set (xs @ (a, True) # [] @ (r, True) # ys) = insert (a + 8, r) (taken_set bs)"
        using taken_set_append [of xs a True "(r, True) # ys" True] taken_set_append [of xs a False "(r, True) # ys" True] xs(2)
        by (simp add: dec)
      have len: "a + 8 + n \<le> r"
        using need(1) dec(2) xs(3) by linarith
      have "keeps m m1 g e (taken_set bs)"
        by (rule keepsI [OF ch1 sp]) (use tk in auto)
      then show ?thesis
        using False result sp tk len
        by - (rule disjI2, rule exI [of _ m1], rule exI [of _ "xs @ (a, True) # [] @ (r, True) # ys"], rule exI [of _ a],
            rule exI [of _ r], auto simp: dec)
    qed
  qed
qed

section \<open>Freeing and shrinking in a space\<close>

text \<open>The surroundings of a block: the nearest taken blocks before and after it.\<close>

lemma taken_set_decomp: "(p, q) \<in> taken_set bs \<Longrightarrow> \<exists>xs a u ys. bs = xs @ (a, True) # (q, u) # ys \<and> p = a + 8"
proof (induction bs)
  case (Cons b bs)
  obtain a t where b: "b = (a, t)" by (cases b)
  show ?case
  proof (cases "(p, q) \<in> taken_set bs")
    case True
    with Cons.IH show ?thesis by (metis append_Cons)
  next
    case False
    with Cons.prems obtain u ys where "bs = (q, u) # ys" "t" "p = a + 8"
      by (cases bs) (auto simp: b split: if_split_asm)
    then show ?thesis
      by (intro exI [of _ "[]"]) (simp add: b)
  qed
qed simp

lemma taken_set_butlast: "(p, q) \<in> taken_set (ps @ [x]) \<Longrightarrow> \<exists>a. p = a + 8 \<and> (a, True) \<in> set ps"
proof -
  assume "(p, q) \<in> taken_set (ps @ [x])"
  then obtain xs a u ys where "ps @ [x] = xs @ (a, True) # (q, u) # ys" "p = a + 8"
    using taken_set_decomp by blast
  then show ?thesis
    by (cases ys rule: rev_cases) (auto simp: append_eq_append_conv2 Cons_eq_append_conv)
qed

lemma space_taken_block:
  assumes S: "space m g e bs" and T: "(a + 8, b) \<in> taken_set bs" "a + 8 < b"
  obtains xs l fs1 fs2 r ys where "bs = xs @ (l, True) # fs1 @ (a, True) # fs2 @ (r, True) # ys"
    "all_free fs1" "all_free fs2" "b = fst_addr fs2 r"
proof -
  obtain pre u post where dec: "bs = pre @ (a, True) # (b, u) # post"
    using taken_set_decomp [OF T(1)] by auto
  obtain mid where mid: "bs = (g, True) # mid" "fst_addr mid 0 = g + 8" "snd (last mid)" "mid \<noteq> []"
    using S by (auto simp: space_def)
  obtain pre' where pre: "pre = (g, True) # pre'"
    using dec mid T(2) by (cases pre) auto
  obtain xs l fs1 where l: "pre = xs @ (l, True) # fs1" "all_free fs1"
    using split_list_last_prop [of pre snd] by (auto simp: pre list_all_iff)
  have "snd (last ((b, u) # post))"
    using mid dec pre by auto
  then have "\<exists>y \<in> set ((b, u) # post). snd y"
    by (metis last_in_set list.discI)
  then obtain fs2 r ys where r: "(b, u) # post = fs2 @ (r, True) # ys" "all_free fs2"
    using split_list_first_prop [of "(b, u) # post" snd] by (auto simp: list_all_iff)
  have "b = fst_addr fs2 r"
    using r(1) by (cases fs2) auto
  then show ?thesis
    using that [of xs l fs1 fs2 r ys] dec l r by simp
qed

lemma space_merge:
  assumes S: "space m g e (xs @ (l, True) # fs1 @ (a, t) # fs2 @ (r, True) # ys)"
    and L: "lseg m' 0 (xs @ (l, True) # (fst_addr fs1 a, False) # (r, True) # ys) 0"
  shows "space m' g e (xs @ (l, True) # (fst_addr fs1 a, False) # (r, True) # ys)"
proof -
  define f where "f = fst_addr fs1 a"
  have f: "f \<in> insert a (fst ` set fs1)"
    by (cases fs1) (auto simp: f_def)
  let ?new = "(l, True) # (f, False) # (r, True) # ys" and ?old = "(l, True) # fs1 @ (a, t) # fs2 @ (r, True) # ys"
  obtain mid where mid: "xs @ ?old = (g, True) # mid" "mid \<noteq> []" "sorted_wrt (\<lambda>b c. fst b + 16 \<le> fst c) mid"
      "snd (last mid)" "successively (\<lambda>b c. snd b \<or> snd c) (xs @ ?old)"
      "ordered (xs @ ?old)" "\<forall>b \<in> set (xs @ ?old). fst b + 8 \<le> e" "fst_addr mid 0 = g + 8" "fst (last mid) + 8 = e"
    using S unfolding space_def by blast
  have o: "\<forall>x \<in> set xs. fst x + 8 \<le> f" "l + 8 \<le> f" "f + 8 \<le> r" "f \<le> a" "\<forall>y \<in> set ys. f + 8 \<le> fst y" "addr_ok f" "f \<noteq> 0"
    using mid(6) f by (auto simp: ordered_append ordered_Cons dest: ordered_mem)
  then have "ordered (xs @ ?new)"
    using mid(6) by (auto simp: ordered_append ordered_Cons)
  moreover have "successively (\<lambda>b c. snd b \<or> snd c) (xs @ ?new)"
    using mid(5) by (auto simp: successively_append_iff successively_Cons split: if_split_asm)
  moreover have "\<forall>b \<in> set (xs @ ?new). fst b + 8 \<le> e"
    using mid(7) o(4) by auto
  moreover have "\<exists>mid'. xs @ ?new = (g, True) # mid' \<and> mid' \<noteq> [] \<and> fst_addr mid' 0 = g + 8 \<and> snd (last mid') \<and>
      fst (last mid') + 8 = e \<and> sorted_wrt (\<lambda>b c. fst b + 16 \<le> fst c) mid'"
  proof (cases xs)
    case Nil
    then have m: "mid = fs1 @ (a, t) # fs2 @ (r, True) # ys" "l = g" "snd (last ((r, True) # ys))" "fst (last ((r, True) # ys)) + 8 = e"
      using mid(1,4,9) by auto
    then have "f + 16 \<le> r" "\<forall>y \<in> set ys. f + 16 \<le> fst y"
      using mid(3) f by (auto simp: sorted_wrt_append)
    then show ?thesis
      using Nil m mid(3,8) by (auto simp: sorted_wrt_append f_def)
  next
    case (Cons x xs')
    then have m: "mid = xs' @ (l, True) # fs1 @ (a, t) # fs2 @ (r, True) # ys" "x = (g, True)" "snd (last ((r, True) # ys))" "fst (last ((r, True) # ys)) + 8 = e"
      using mid(1,4,9) by auto
    then have s16: "f + 16 \<le> r" "\<forall>y \<in> set ys. f + 16 \<le> fst y" "\<forall>z \<in> set xs'. fst z + 16 \<le> f" "l + 16 \<le> f"
      using mid(3) f by (auto simp: sorted_wrt_append)
    moreover have "fst_addr (xs' @ ?new) 0 = g + 8"
      using mid(8) m by simp
    moreover have "sorted_wrt (\<lambda>b c. fst b + 16 \<le> fst c) (xs' @ ?new)"
      using mid(3) s16 unfolding m(1) by (auto simp: sorted_wrt_append)
    ultimately show ?thesis
      using Cons m by auto
  qed
  ultimately show ?thesis
    using L by (simp add: space_def f_def)
qed

lemma s_free_block_eq:
  assumes S: "space m g e bs" and T: "(a + 8, b) \<in> taken_set bs" "a + 8 < b"
  shows "\<exists>m' bs'. s_free_block (a + 8) m = Some m' \<and> space m' g e bs' \<and>
    taken_set bs = insert (a + 8, b) (taken_set bs') \<and> (a + 8, b) \<notin> taken_set bs' \<and> keeps m m' g e (taken_set bs)"
proof -
  obtain xs l fs1 fs2 r ys where dec: "bs = xs @ (l, True) # fs1 @ (a, True) # fs2 @ (r, True) # ys"
    "all_free fs1" "all_free fs2" "b = fst_addr fs2 r"
    using space_taken_block [OF assms] by metis
  define f where "f = fst_addr fs1 a"
  obtain m' where m': "s_compact_free a m = Some m'" "lseg m' 0 (xs @ (l, True) # (f, False) # (r, True) # ys) 0"
      "changes_only m m' {a, f, r}"
    using s_compact_free_eq [of m xs l fs1 a True fs2 r ys] space_lseg [OF S] dec by (auto simp: f_def)
  define bs' where "bs' = xs @ (l, True) # (f, False) # (r, True) # ys"
  have S': "space m' g e bs'"
    using space_merge [of m g e xs l fs1 a True fs2 r ys m'] S dec m'(2) by (simp add: f_def bs'_def)
  have new: "taken_set bs' = taken_set (xs @ [(l, True)]) \<union> {(l + 8, f)} \<union> taken_set ((r, True) # ys)"
    using taken_set_append [of xs l True "(f, False) # (r, True) # ys" True] by (simp add: bs'_def)
  have old: "taken_set bs = taken_set (xs @ [(l, True)]) \<union> {(l + 8, f)} \<union> insert (a + 8, b) (taken_set ((r, True) # ys))"
    using taken_set_append [of xs l True "fs1 @ (a, True) # fs2 @ (r, True) # ys" True] dec
    by (simp add: taken_set_Cons taken_set_free f_def)
  have "(a, True) \<notin> set bs'"
  proof
    assume "(a, True) \<in> set bs'"
    then have "(a, True) \<in> set xs \<or> a = l \<or> a = r \<or> (a, True) \<in> set ys"
      by (auto simp: bs'_def)
    then show False
      using space_lseg(2) [OF S] by (auto simp: dec ordered_append ordered_Cons)
  qed
  then have "(a + 8, b) \<notin> taken_set bs'"
    using taken_set_mem [of "a + 8" b bs'] by auto
  moreover have "{a, f, r} \<subseteq> fst ` set bs"
    by (cases fs1) (auto simp: dec f_def image_iff)
  then have "keeps m m' g e (taken_set bs)"
    using keepsI [OF m'(3) S] by blast
  ultimately show ?thesis
    using m'(1) S' new old by (intro exI [of _ m'] exI [of _ bs']) (auto simp: s_free_block_def dyn_consts)
qed

lemma space_block_size:
  assumes S: "space m g e bs" and T: "(a + 8, b) \<in> taken_set bs" "a + 8 < b"
  shows "s_get_block_size m a = b - a" "s_get_actual_block_size m (a + 8) = b - (a + 8)"
proof -
  obtain xs u ys where dec: "bs = xs @ (a, True) # (b, u) # ys"
    using taken_set_decomp [OF T(1)] by auto
  have "node m a True (lst_addr xs 0) b" "b < 2 ^ 32"
    using space_lseg [OF S] by (auto simp: dec lseg_append ordered_append ordered_Cons addr_ok_def)
  then show *: "s_get_block_size m a = b - a"
    using T(2) by (intro s_get_block_size_eq) auto
  have "b - a + (2 ^ 32 - 8) = (b - (a + 8)) + 2 ^ 32"
    using T(2) by simp
  then show "s_get_actual_block_size m (a + 8) = b - (a + 8)"
    using \<open>b < 2 ^ 32\<close> by (simp only: s_get_actual_block_size_def DYN_HEADER_SIZE_def add_diff_cancel_right' * mod_add_self2) simp
qed

lemma s_shrink_block_eq:
  assumes S: "space m g e bs" and T: "(a + 8, b) \<in> taken_set bs" "a + 8 < b" and n: "0 < n" "n + 16 \<le> 2 ^ 32" "n \<le> b - (a + 8)"
  shows "\<exists>m' bs' c. s_shrink_block (a + 8) n m = Some m' \<and> space m' g e bs' \<and> a + 8 + n \<le> c \<and> c \<le> b \<and>
    taken_set bs' = insert (a + 8, c) (taken_set bs - {(a + 8, b)}) \<and>
    keeps m m' g e (insert (a + 8, c) (taken_set bs - {(a + 8, b)}))"
proof -
  note need = need_of [OF n(2)]
  have sh: "s_shrink_block (a + 8) n m = (if b - a \<le> need_of n \<or> b - a - need_of n < 16 then Some m
      else s_split_block a (a + need_of n) m)"
    using space_block_size(1) [OF S T] by (simp add: s_shrink_block_def need_of_def dyn_consts Let_def)
  show ?thesis
  proof (cases "b - a \<le> need_of n \<or> b - a - need_of n < 16")
    case True
    then show ?thesis
      using sh S T n(3) by (intro exI [of _ m] exI [of _ bs] exI [of _ b]) auto
  next
    case False
    define c where "c = a + need_of n"
    obtain xs l fs1 fs2 r ys where dec: "bs = xs @ (l, True) # fs1 @ (a, True) # fs2 @ (r, True) # ys"
      "all_free fs1" "all_free fs2" "b = fst_addr fs2 r"
      using space_taken_block [OF S T] by metis
    define ps where "ps = xs @ (l, True) # fs1"
    have bs: "bs = ps @ (a, True) # fs2 @ (r, True) # ys" "ps \<noteq> []"
      by (auto simp: dec ps_def)
    note L = space_lseg [OF S]
    have "addr_ok a" "addr_ok r" "b \<le> r" "b = r \<or> (\<exists>u. (b, u) \<in> set fs2)"
      using L(2) dec(4) by (auto simp: bs ordered_append ordered_Cons) (cases fs2; auto simp: ordered_Cons)+
    then have c: "addr_ok c" "a + 16 \<le> c" "c + 16 \<le> b" "b \<le> r"
      using False need n(1) by (auto simp: c_def addr_ok_def)
    obtain m' where m': "s_split_block a c m = Some m'" "lseg m' 0 (ps @ (a, True) # (c, False) # (r, True) # ys) 0"
        "changes_only m m' {a, c, b, r}"
      using s_split_block_eq [of m ps a fs2 r ys c] L dec(3,4) c by (auto simp: bs)
    define bs' where "bs' = ps @ (a, True) # [(c, False)] @ (r, True) # ys"
    have S': "space m' g e bs'"
      unfolding bs'_def
    proof (rule space_take [OF _ bs(2) dec(3)])
      show "space m g e (ps @ (a, True) # fs2 @ (r, True) # ys)"
        using S by (simp only: bs(1))
      show "[(c, False)] = [] \<and> fs2 = [] \<or> [(c, False)] = [(c, False)] \<and> addr_ok c \<and> a + 16 \<le> c \<and> c + 16 \<le> r"
        using c by simp
      show "lseg m' 0 (ps @ (a, True) # [(c, False)] @ (r, True) # ys) 0"
        using m'(2) by simp
    qed
    have tk': "taken_set bs' = insert (a + 8, c) (taken_set (ps @ [(a, True)]) \<union> taken_set ((r, True) # ys))"
      using taken_set_append [of ps a True "(c, False) # (r, True) # ys" True] by (simp add: bs'_def)
    have tk: "taken_set bs = insert (a + 8, b) (taken_set (ps @ [(a, True)]) \<union> taken_set ((r, True) # ys))"
      using taken_set_append [of ps a True "fs2 @ (r, True) # ys" True] dec(3,4) by (simp add: bs taken_set_Cons taken_set_free)
    have "(a, True) \<notin> set ps" "(a, True) \<notin> set ((r, True) # ys)"
      using L(2) by (force simp: bs ordered_append ordered_Cons)+
    then have "(a + 8, b) \<notin> taken_set (ps @ [(a, True)]) \<union> taken_set ((r, True) # ys)"
      using taken_set_butlast [of "a + 8" b ps "(a, True)"] taken_set_mem [of "a + 8" b "(r, True) # ys"] by auto
    then have others: "taken_set bs - {(a + 8, b)} = taken_set (ps @ [(a, True)]) \<union> taken_set ((r, True) # ys)"
      using tk by auto
    have b: "b \<in> fst ` set bs"
      using taken_set_mem [OF T(1)] by simp
    have "same_on m m' p q" if "(p, q) \<in> taken_set bs'" for p q
    proof (rule changes_only_same_on [OF m'(3)])
      fix x
      assume x: "x \<in> {a, c, b, r}"
      show "q \<le> x \<or> x + 8 \<le> p"
      proof (cases "x = b")
        case True
        have "(p, q) = (a + 8, c) \<or> (p, q) \<in> taken_set bs"
          using that tk tk' by auto
        then show ?thesis
          using taken_set_avoids [OF L(2), of p q b] b c(3) True by fastforce
      next
        case False
        then have "x \<in> fst ` set bs'"
          using x by (auto simp: bs'_def)
        then show ?thesis
          using taken_set_avoids [OF space_lseg(2) [OF S'] that] by fastforce
      qed
    qed
    moreover have "m' x = m x" if "x < g \<or> e \<le> x" for x
    proof -
      have "g \<le> y \<and> y + 8 \<le> e" if "y \<in> {a, c, b, r}" for y
        using that b space_bounds [OF S] space_bounds [OF S'] by (auto simp: bs'_def)
      then have "\<forall>y \<in> {a, c, b, r}. x < y \<or> y + 8 \<le> x"
        using that by (meson le_trans less_le_trans)
      then show ?thesis
        using m'(3) by (simp add: changes_only_def)
    qed
    ultimately have "keeps m m' g e (taken_set bs')"
      by (auto simp: keeps_def)
    then show ?thesis
      using sh False m'(1) S' tk' others need(1) c(3)
      by - (rule exI [of _ m'], rule exI [of _ bs'], rule exI [of _ c], auto simp: c_def)
  qed
qed

section \<open>A fresh space\<close>

lemma node_create: "addr_ok n \<Longrightarrow> addr_ok p \<Longrightarrow> node (s_create_new_block a n p m) a False p n"
  by (simp add: node_def s_create_new_block_def s_is_block_free_def link_ops addr_ok_def link_roundtrip top_bit_facts
      link_word_def [symmetric])

lemma create_changes: "changes_only m (s_create_new_block a n p m) {a}"
  by (auto simp: changes_only_def s_create_new_block_def wr32_outside)

lemma s_init_space_eq:
  assumes "addr_ok g" "addr_ok e" "0 < g" "g + 32 \<le> e"
  shows "space (s_init_space g e m) g e [(g, True), (g + 8, False), (e - 8, True)]"
    and "changes_only m (s_init_space g e m) {g, g + 8, e - 8}"
proof -
  define c where "c = g + 8"
  define d where "d = e - 8"
  have o: "g + 8 = c" "0 < c" "c + 16 \<le> d" "addr_ok c" "addr_ok d" "d + 8 = e"
    using assms by (auto simp: c_def d_def addr_ok_def)
  have "e + (2 ^ 32 - g) = (e - g) + 2 ^ 32"
    using assms by (simp add: addr_ok_def)
  moreover have "e - g < 2 ^ 32"
    using assms(2) by (simp only: addr_ok_def) linarith
  ultimately have "(e + (2 ^ 32 - g)) mod 2 ^ 32 = e - g"
    by (simp only: mod_add_self2 mod_less)
  then have g2: "g + (e + (2 ^ 32 - g)) mod 2 ^ 32 - 8 = d"
    using assms(4) by (simp add: d_def)
  define m1 where "m1 = s_create_new_block g c 0 m"
  define m2 where "m2 = s_create_new_block c d g m1"
  define m3 where "m3 = s_create_new_block d 0 c m2"
  define m4 where "m4 = s_mark_block_taken g m3"
  define m5 where "m5 = s_mark_block_taken d m4"
  define m6 where "m6 = s_mark_block_free c m5"
  have m6: "s_init_space g e m = m6"
    using g2 by (simp add: s_init_space_def Let_def dyn_consts m6_def m5_def m4_def m3_def m2_def m1_def c_def)
  have ch: "changes_only m m1 {g}" "changes_only m1 m2 {c}" "changes_only m2 m3 {d}" "changes_only m3 m4 {g}"
      "changes_only m4 m5 {d}" "changes_only m5 m6 {c}"
    unfolding m6_def m5_def m4_def m3_def m2_def m1_def by (rule create_changes header_changes)+
  have "node m1 g False 0 c"
    unfolding m1_def using o by (intro node_create) auto
  then have "node m3 g False 0 c"
    using node_changes [OF ch(2), of g] node_changes [OF ch(3), of g] o by auto
  then have "node m4 g True 0 c"
    unfolding m4_def by (rule node_mark_taken)
  then have g: "node m6 g True 0 c"
    using node_changes [OF ch(5), of g] node_changes [OF ch(6), of g] o by auto
  have "node m2 c False g d"
    unfolding m2_def using o assms(1) by (intro node_create) auto
  then have "node m5 c False g d"
    using node_changes [OF ch(3), of c] node_changes [OF ch(4), of c] node_changes [OF ch(5), of c] o by auto
  then have c: "node m6 c False g d"
    unfolding m6_def by (rule node_mark_free)
  have "node m3 d False c 0"
    unfolding m3_def using o by (intro node_create) auto
  then have "node m4 d False c 0"
    using node_changes [OF ch(4), of d] o by auto
  then have "node m5 d True c 0"
    unfolding m5_def by (rule node_mark_taken)
  then have "node m6 d True c 0"
    using node_changes [OF ch(6), of d] o by auto
  with g c have "lseg m6 0 [(g, True), (c, False), (d, True)] 0"
    by simp
  then show "space (s_init_space g e m) g e [(g, True), (g + 8, False), (e - 8, True)]"
    using o assms by (simp add: space_def m6 ordered_Cons c_def [symmetric] d_def [symmetric])
  show "changes_only m (s_init_space g e m) {g, g + 8, e - 8}"
    unfolding m6 c_def [symmetric] d_def [symmetric]
    by (rule changes_only_Un [OF ch(1) changes_only_Un [OF ch(2) changes_only_Un [OF ch(3) changes_only_Un [OF ch(4)
              changes_only_Un [OF ch(5,6) subset_refl] subset_refl] subset_refl] subset_refl]]) auto
qed

section \<open>The heap\<close>

text \<open>A memory map whose spaces have room for a block between the guards.\<close>

definition spaces_ok :: "u32 list \<Rightarrow> u32 list \<Rightarrow> bool" where
  "spaces_ok ms me \<longleftrightarrow> mem_ok ms me \<and>
     (\<forall>i<length ms. unat (platform_get_first_free_ram ms i) + 32 \<le> unat (platform_get_last_free_ram me i))"

abbreviation ram_from :: "u32 list \<Rightarrow> nat \<Rightarrow> nat" where
  "ram_from ms i \<equiv> unat (platform_get_first_free_ram ms i)"

abbreviation ram_to :: "u32 list \<Rightarrow> nat \<Rightarrow> nat" where
  "ram_to me i \<equiv> unat (platform_get_last_free_ram me i)"

definition sa_ok :: "u32 list \<Rightarrow> u32 list \<Rightarrow> mem \<Rightarrow> blocks list \<Rightarrow> bool" where
  "sa_ok ms me m H \<longleftrightarrow> length H = length ms \<and> (\<forall>i<length ms. space m (ram_from ms i) (ram_to me i) (H ! i))"

definition heap_taken :: "blocks list \<Rightarrow> (nat \<times> nat) set" where
  "heap_taken H = (\<Union>i<length H. taken_set (H ! i))"

lemma space_frame: "space m g e bs \<Longrightarrow> (\<And>x. g \<le> x \<Longrightarrow> x < e \<Longrightarrow> m' x = m x) \<Longrightarrow> space m' g e bs"
proof -
  assume S: "space m g e bs" and eq: "\<And>x. g \<le> x \<Longrightarrow> x < e \<Longrightarrow> m' x = m x"
  have "lseg m' 0 bs 0 = lseg m 0 bs 0"
  proof (rule lseg_frame)
    fix a t
    assume "(a, t) \<in> set bs"
    from space_bounds [OF S this] eq show "same_on m m' a (a + 8)"
      by (simp add: same_on_def)
  qed
  with S show ?thesis by (simp add: space_def)
qed

lemma spaces_disjoint:
  assumes "spaces_ok ms me" "i < length ms" "j < length ms" "i \<noteq> j"
  shows "ram_to me i \<le> ram_from ms j \<or> ram_to me j \<le> ram_from ms i"
proof -
  have ok: "mem_ok ms me" using assms(1) by (simp add: spaces_ok_def)
  have "unat (me ! i) \<le> unat (ms ! j) \<or> unat (me ! j) \<le> unat (ms ! i)"
    using ok assms(2-4) by (simp add: mem_ok_def)
  then show ?thesis
    using last_free_ram_le [OF ok assms(2)] last_free_ram_le [OF ok assms(3)]
      first_free_ram_bounds(1) [OF ok assms(2)] first_free_ram_bounds(1) [OF ok assms(3)] by linarith
qed

lemma spaces_from:
  assumes "spaces_ok ms me" "i < length ms"
  shows "addr_ok (ram_from ms i)" "addr_ok (ram_to me i)" "0 < ram_from ms i" "ram_from ms i + 32 \<le> ram_to me i"
    "platform_get_first_free_ram ms i \<noteq> 0"
proof -
  have ok: "mem_ok ms me" and m: "unat (ms ! i) \<le> 2 ^ 31" "0 < unat (ms ! i)"
    using assms by (auto simp: spaces_ok_def mem_ok_def dest!: spec [of _ i])
  show pos: "0 < ram_from ms i"
    using first_free_ram_bounds(1) [OF ok assms(2)] m(2) by simp
  then show "platform_get_first_free_ram ms i \<noteq> 0"
    by auto
  show "ram_from ms i + 32 \<le> ram_to me i"
    using assms by (simp add: spaces_ok_def)
  have "ms ! i AND (MIN_ALIGN - 1) = 0 \<longleftrightarrow> 8 dvd unat (ms ! i)"
    using and_7_nat [of "ms ! i"] by (simp add: unat_eq_0 [symmetric] mod_eq_0_iff_dvd)
  then show "addr_ok (ram_from ms i)"
    using assms(2) unat_align_up [OF m(1)] unsigned_less [of "platform_get_first_free_ram ms i", where ?'a = nat]
    by (auto simp: addr_ok_def platform_get_first_free_ram_def)
  have "8 dvd ram_to me i"
    unfolding last_free_ram_eq [OF ok assms(2)] by (auto simp: mod_eq_0_iff_dvd dvd_diff_nat)
  then show "addr_ok (ram_to me i)"
    using unsigned_less [of "platform_get_last_free_ram me i", where ?'a = nat] by (simp add: addr_ok_def)
qed

text \<open>A change inside one space.\<close>

lemma sa_ok_update:
  assumes "spaces_ok ms me" "sa_ok ms me m H" "i < length ms" "space m' (ram_from ms i) (ram_to me i) bs'"
    and out: "\<And>x. x < ram_from ms i \<or> ram_to me i \<le> x \<Longrightarrow> m' x = m x"
  shows "sa_ok ms me m' (H[i := bs'])"
  unfolding sa_ok_def
proof (intro conjI allI impI)
  show "length (H[i := bs']) = length ms"
    using assms(2) by (simp add: sa_ok_def)
  fix j
  assume j: "j < length ms"
  show "space m' (ram_from ms j) (ram_to me j) (H[i := bs'] ! j)"
  proof (cases "j = i")
    case True
    with assms(2-4) show ?thesis by (simp add: sa_ok_def)
  next
    case False
    have "space m (ram_from ms j) (ram_to me j) (H ! j)"
      using assms(2) j by (simp add: sa_ok_def)
    then have "space m' (ram_from ms j) (ram_to me j) (H ! j)"
      by (rule space_frame) (use spaces_disjoint [OF assms(1,3) j] False out in force)
    with False show ?thesis by simp
  qed
qed

end
