(* ===== verification/Salloc_Store.thy ===== *)
theory Salloc_Store
  imports Salloc_Heap
begin

text \<open>
  The simple allocator as a store: the interface that a client relies on, as a locale, its
  interpretation by the allocator's operations, and the properties of \<open>smalloc\<close>, \<open>sfree\<close>, \<open>scalloc\<close> and
  \<open>srealloc\<close>.
\<close>

section \<open>Ranges of the heap\<close>

lemma heap_taken_in:
  assumes "sa_ok ms me m H" "(p, q) \<in> heap_taken H"
  obtains i where "i < length ms" "(p, q) \<in> taken_set (H ! i)" "ram_from ms i + 8 \<le> p" "q + 8 \<le> ram_to me i"
    "space m (ram_from ms i) (ram_to me i) (H ! i)"
proof -
  obtain i where i: "i < length ms" "(p, q) \<in> taken_set (H ! i)"
    using assms by (auto simp: heap_taken_def sa_ok_def)
  have S: "space m (ram_from ms i) (ram_to me i) (H ! i)"
    using assms(1) i(1) by (simp add: sa_ok_def)
  then show ?thesis
    using taken_set_mem [OF i(2)] space_bounds [OF S] that [OF i _ _ S] by fastforce
qed

text \<open>A range belongs to one space only.\<close>

lemma heap_taken_space:
  assumes "spaces_ok ms me" "sa_ok ms me m H" "i < length ms" "j < length ms"
    and "(a, t) \<in> set (H ! i)" "(a + 8, q) \<in> taken_set (H ! j)"
  shows "i = j"
proof (rule ccontr)
  assume "i \<noteq> j"
  have S: "space m (ram_from ms i) (ram_to me i) (H ! i)" "space m (ram_from ms j) (ram_to me j) (H ! j)"
    using assms(2-4) by (simp_all add: sa_ok_def)
  have "(a, True) \<in> set (H ! j)"
    using taken_set_mem [OF assms(6)] by auto
  then show False
    using space_bounds [OF S(2)] space_bounds [OF S(1) assms(5)] spaces_disjoint [OF assms(1,3,4) \<open>i \<noteq> j\<close>] by fastforce
qed

lemma heap_taken_fun:
  assumes "spaces_ok ms me" "sa_ok ms me m H" "(p, q) \<in> heap_taken H" "(p, q') \<in> heap_taken H"
  shows "q = q'"
proof -
  obtain i where i: "i < length ms" "(p, q) \<in> taken_set (H ! i)" "space m (ram_from ms i) (ram_to me i) (H ! i)"
    using heap_taken_in [OF assms(2,3)] by metis
  obtain j where j: "j < length ms" "(p, q') \<in> taken_set (H ! j)"
    using heap_taken_in [OF assms(2,4)] by metis
  obtain a where a: "p = a + 8" "(a, True) \<in> set (H ! i)"
    using taken_set_mem [OF i(2)] by auto
  have "i = j"
    using heap_taken_space [OF assms(1,2) i(1) j(1) a(2)] j(2) a(1) by simp
  with i j show ?thesis
    using taken_set_fun [OF space_lseg(2) [OF i(3)]] by blast
qed

lemma heap_taken_disjoint:
  assumes "spaces_ok ms me" "sa_ok ms me m H" "(p, q) \<in> heap_taken H" "(p', q') \<in> heap_taken H" "p \<noteq> p'"
  shows "q \<le> p' \<or> q' \<le> p"
proof -
  obtain i where i: "i < length ms" "(p, q) \<in> taken_set (H ! i)" "ram_from ms i + 8 \<le> p" "q + 8 \<le> ram_to me i"
    "space m (ram_from ms i) (ram_to me i) (H ! i)"
    using heap_taken_in [OF assms(2,3)] by metis
  obtain j where j: "j < length ms" "(p', q') \<in> taken_set (H ! j)" "ram_from ms j + 8 \<le> p'" "q' + 8 \<le> ram_to me j"
    using heap_taken_in [OF assms(2,4)] by metis
  show ?thesis
  proof (cases "i = j")
    case True
    with i j assms(5) show ?thesis
      using taken_set_disjoint [OF space_lseg(2) [OF i(5)]] by blast
  next
    case False
    with i j show ?thesis
      using spaces_disjoint [OF assms(1) i(1) j(1)] by fastforce
  qed
qed

lemma ordered_unique: "ordered bs \<Longrightarrow> (a, t) \<in> set bs \<Longrightarrow> (a, u) \<in> set bs \<Longrightarrow> t = u"
proof (induction bs)
  case (Cons b bs)
  then show ?case
    by (auto simp: ordered_Cons)
qed simp

section \<open>Allocation and release in the heap\<close>

definition heap_keeps :: "mem \<Rightarrow> mem \<Rightarrow> (nat \<times> nat) set \<Rightarrow> bool" where
  "heap_keeps m m' T \<longleftrightarrow> (\<forall>(p, q) \<in> T. same_on m m' p q)"

lemma keeps_heap:
  assumes "spaces_ok ms me" "sa_ok ms me m H" "i < length ms" "keeps m m' (ram_from ms i) (ram_to me i) T"
    and "\<And>p q. (p, q) \<in> U \<Longrightarrow> (p, q) \<in> T \<or> (\<exists>j<length ms. j \<noteq> i \<and> (p, q) \<in> taken_set (H ! j))"
  shows "heap_keeps m m' U"
proof -
  have "same_on m m' p q" if pq: "(p, q) \<in> U" for p q
  proof (cases "(p, q) \<in> T")
    case True
    with assms(4) show ?thesis by (auto simp: keeps_def)
  next
    case False
    then obtain j where j: "j < length ms" "j \<noteq> i" "(p, q) \<in> taken_set (H ! j)"
      using assms(5) [OF pq] by auto
    have "space m (ram_from ms j) (ram_to me j) (H ! j)"
      using assms(2) j(1) by (simp add: sa_ok_def)
    then have "ram_from ms j \<le> p" "q \<le> ram_to me j"
      using space_bounds taken_set_mem [OF j(3)] by fastforce+
    then show ?thesis
      using spaces_disjoint [OF assms(1) j(1) assms(3) j(2)] assms(4) by (auto simp: keeps_def same_on_def)
  qed
  then show ?thesis by (auto simp: heap_keeps_def)
qed

lemma heap_taken_update:
  assumes "length H = length ms" "i < length ms"
  shows "heap_taken (H[i := bs']) = taken_set bs' \<union> (\<Union>j \<in> {..<length ms} - {i}. taken_set (H ! j))"
    and "heap_taken H = taken_set (H ! i) \<union> (\<Union>j \<in> {..<length ms} - {i}. taken_set (H ! j))"
proof -
  have split: "(\<Union>j<length ms. f j) = f i \<union> (\<Union>j \<in> {..<length ms} - {i}. f j)" for f :: "nat \<Rightarrow> (nat \<times> nat) set"
    using assms(2) by auto
  show "heap_taken (H[i := bs']) = taken_set bs' \<union> (\<Union>j \<in> {..<length ms} - {i}. taken_set (H ! j))"
    using assms by (simp add: heap_taken_def split)
  show "heap_taken H = taken_set (H ! i) \<union> (\<Union>j \<in> {..<length ms} - {i}. taken_set (H ! j))"
    using assms(1) by (simp add: heap_taken_def split)
qed

lemma s_malloc_from_eq:
  assumes ok: "spaces_ok ms me" and n: "0 < n" "n + 16 \<le> 2 ^ 32"
  shows "sa_ok ms me m H \<Longrightarrow>
    s_malloc_from ms n i m = Some (0, m) \<and> (\<forall>j a r. i \<le> j \<longrightarrow> j < length ms \<longrightarrow> \<not> fits (need_of n) (H ! j) a r) \<or>
    (\<exists>p b m' H'. s_malloc_from ms n i m = Some (p, m') \<and> p \<noteq> 0 \<and> sa_ok ms me m' H' \<and>
      heap_taken H' = insert (p, b) (heap_taken H) \<and> p + n \<le> b \<and> (\<forall>q. (p, q) \<notin> heap_taken H) \<and>
      heap_keeps m m' (heap_taken H))"
proof (induction "length ms - i" arbitrary: i)
  case 0
  then have "platform_get_first_free_ram ms i = 0"
    using first_free_ram_index by fastforce
  with 0 show ?case
    by (subst (1 2) s_malloc_from.simps) auto
next
  case (Suc k)
  then have i: "i < length ms" by simp
  note sp = spaces_from [OF ok i]
  have S: "space m (ram_from ms i) (ram_to me i) (H ! i)"
    using Suc.prems i by (simp add: sa_ok_def)
  from s_get_free_block_eq [OF S n] show ?case
  proof
    assume *: "s_get_free_block n (ram_from ms i) m = Some (0, m) \<and> (\<forall>a r. \<not> fits (need_of n) (H ! i) a r)"
    then have "s_malloc_from ms n i m = s_malloc_from ms n (Suc i) m"
      using sp(5) by (subst s_malloc_from.simps) simp
    moreover have "(\<forall>j a r. i \<le> j \<longrightarrow> j < length ms \<longrightarrow> \<not> fits (need_of n) (H ! j) a r)
        \<longleftrightarrow> (\<forall>j a r. Suc i \<le> j \<longrightarrow> j < length ms \<longrightarrow> \<not> fits (need_of n) (H ! j) a r)"
      using * by (metis Suc_leI Suc_leD le_neq_implies_less)
    ultimately show ?thesis
      using Suc.hyps(1) [of "Suc i"] Suc.hyps(2) Suc.prems by simp
  next
    assume "\<exists>m' bs' a b. s_get_free_block n (ram_from ms i) m = Some (a + 8, m') \<and> space m' (ram_from ms i) (ram_to me i) bs' \<and>
      taken_set bs' = insert (a + 8, b) (taken_set (H ! i)) \<and> a + 8 + n \<le> b \<and> (a, False) \<in> set (H ! i) \<and>
      keeps m m' (ram_from ms i) (ram_to me i) (taken_set (H ! i))"
    then obtain m' bs' a b where new: "s_get_free_block n (ram_from ms i) m = Some (a + 8, m')"
      "space m' (ram_from ms i) (ram_to me i) bs'" "taken_set bs' = insert (a + 8, b) (taken_set (H ! i))" "a + 8 + n \<le> b"
      "(a, False) \<in> set (H ! i)" "keeps m m' (ram_from ms i) (ram_to me i) (taken_set (H ! i))"
      by blast
    have len: "length H = length ms"
      using Suc.prems by (simp add: sa_ok_def)
    have "s_malloc_from ms n i m = Some (a + 8, m')"
      using sp(5) new(1) by (subst s_malloc_from.simps) simp
    moreover have "sa_ok ms me m' (H[i := bs'])"
      using new(6) by (intro sa_ok_update [OF ok Suc.prems i new(2)]) (auto simp: keeps_def)
    moreover have "heap_taken (H[i := bs']) = insert (a + 8, b) (heap_taken H)"
      using heap_taken_update [OF len i] new(3) by auto
    moreover have "(a + 8, q) \<notin> heap_taken H" for q
    proof
      assume "(a + 8, q) \<in> heap_taken H"
      then obtain j where j: "j < length ms" "(a + 8, q) \<in> taken_set (H ! j)"
        using heap_taken_in [OF Suc.prems] by metis
      then have "(a, True) \<in> set (H ! i)"
        using heap_taken_space [OF ok Suc.prems i j(1) new(5) j(2)] taken_set_mem [OF j(2)] by auto
      then show False
        using ordered_unique [OF space_lseg(2) [OF S] new(5)] by auto
    qed
    moreover have "heap_keeps m m' (heap_taken H)"
      by (rule keeps_heap [OF ok Suc.prems i new(6)]) (auto simp: heap_taken_update(2) [OF len i])
    ultimately show ?thesis
      using new(4) by (intro disjI2 exI [of _ "a + 8"] exI [of _ b] exI [of _ m'] exI [of _ "H[i := bs']"]) simp
  qed
qed

lemma s_free_eq:
  assumes ok: "spaces_ok ms me" "sa_ok ms me m H" and T: "(p, b) \<in> heap_taken H" "p < b"
  shows "\<exists>m' H'. s_free_block p m = Some m' \<and> sa_ok ms me m' H' \<and> heap_taken H' = heap_taken H - {(p, b)} \<and>
    heap_keeps m m' (heap_taken H)"
proof -
  obtain i where i: "i < length ms" "(p, b) \<in> taken_set (H ! i)" "space m (ram_from ms i) (ram_to me i) (H ! i)"
    using heap_taken_in [OF ok(2) T(1)] by metis
  obtain a where a: "p = a + 8" "(a, True) \<in> set (H ! i)"
    using taken_set_mem [OF i(2)] by auto
  obtain m' bs' where new: "s_free_block (a + 8) m = Some m'" "space m' (ram_from ms i) (ram_to me i) bs'"
      "taken_set (H ! i) = insert (a + 8, b) (taken_set bs')" "(a + 8, b) \<notin> taken_set bs'"
      "keeps m m' (ram_from ms i) (ram_to me i) (taken_set (H ! i))"
    using s_free_block_eq [OF i(3), of a b] i(2) T(2) a(1) by auto
  have len: "length H = length ms"
    using ok(2) by (simp add: sa_ok_def)
  have others: "(p, b) \<notin> taken_set (H ! j)" if "j < length ms" "j \<noteq> i" for j
    using heap_taken_space [OF ok i(1) that(1) a(2)] that(2) a(1) by auto
  have "sa_ok ms me m' (H[i := bs'])"
    using new(5) by (intro sa_ok_update [OF ok i(1) new(2)]) (auto simp: keeps_def)
  moreover have "heap_taken (H[i := bs']) = heap_taken H - {(p, b)}"
    using heap_taken_update [OF len i(1)] new(3,4) others a(1) by auto
  moreover have "heap_keeps m m' (heap_taken H)"
    by (rule keeps_heap [OF ok i(1) new(5)]) (auto simp: heap_taken_update(2) [OF len i(1)])
  ultimately show ?thesis
    using new(1) a(1) by auto
qed

lemma s_shrink_eq:
  assumes ok: "spaces_ok ms me" "sa_ok ms me m H" and T: "(p, b) \<in> heap_taken H" "p < b"
    and n: "0 < n" "n + 16 \<le> 2 ^ 32" "n \<le> b - p"
  shows "\<exists>m' H' c. s_shrink_block p n m = Some m' \<and> sa_ok ms me m' H' \<and> p + n \<le> c \<and> c \<le> b \<and>
    heap_taken H' = insert (p, c) (heap_taken H - {(p, b)}) \<and> heap_keeps m m' (heap_taken H')"
proof -
  obtain i where i: "i < length ms" "(p, b) \<in> taken_set (H ! i)" "space m (ram_from ms i) (ram_to me i) (H ! i)"
    using heap_taken_in [OF ok(2) T(1)] by metis
  obtain a where a: "p = a + 8" "(a, True) \<in> set (H ! i)"
    using taken_set_mem [OF i(2)] by auto
  obtain m' bs' c where new: "s_shrink_block (a + 8) n m = Some m'" "space m' (ram_from ms i) (ram_to me i) bs'"
      "a + 8 + n \<le> c" "c \<le> b" "taken_set bs' = insert (a + 8, c) (taken_set (H ! i) - {(a + 8, b)})"
      "keeps m m' (ram_from ms i) (ram_to me i) (insert (a + 8, c) (taken_set (H ! i) - {(a + 8, b)}))"
    using s_shrink_block_eq [OF i(3), of a b n] i(2) T(2) a(1) n by auto
  have len: "length H = length ms"
    using ok(2) by (simp add: sa_ok_def)
  have others: "(p, b) \<notin> taken_set (H ! j)" if "j < length ms" "j \<noteq> i" for j
    using heap_taken_space [OF ok i(1) that(1) a(2)] that(2) a(1) by auto
  have "sa_ok ms me m' (H[i := bs'])"
    using new(6) by (intro sa_ok_update [OF ok i(1) new(2)]) (auto simp: keeps_def)
  moreover have eq: "heap_taken (H[i := bs']) = insert (p, c) (heap_taken H - {(p, b)})"
    using heap_taken_update [OF len i(1)] new(5) others a(1) by auto
  moreover have "heap_keeps m m' (heap_taken (H[i := bs']))"
    unfolding heap_taken_update(1) [OF len i(1)] new(5) by (rule keeps_heap [OF ok i(1) new(6)]) auto
  ultimately show ?thesis
    using new(1,3,4) a(1) by (intro exI [of _ m'] exI [of _ "H[i := bs']"] exI [of _ c]) simp
qed

section \<open>Initialisation\<close>

definition fresh_space :: "u32 list \<Rightarrow> u32 list \<Rightarrow> nat \<Rightarrow> blocks" where
  "fresh_space ms me j = [(ram_from ms j, True), (ram_from ms j + 8, False), (ram_to me j - 8, True)]"

lemma s_init_from_eq:
  assumes ok: "spaces_ok ms me"
  shows "(\<And>j. j < i \<Longrightarrow> space m (ram_from ms j) (ram_to me j) (fresh_space ms me j)) \<Longrightarrow> i \<le> length ms \<Longrightarrow>
    j < length ms \<Longrightarrow> space (s_init_from ms me i m) (ram_from ms j) (ram_to me j) (fresh_space ms me j)"
proof (induction "length ms - i" arbitrary: i m)
  case 0
  then have "platform_get_first_free_ram ms i = 0"
    using first_free_ram_index by fastforce
  with 0 show ?case
    by (subst s_init_from.simps) auto
next
  case (Suc k)
  then have i: "i < length ms" by simp
  note sp = spaces_from [OF ok i]
  define m1 where "m1 = s_init_space (ram_from ms i) (ram_to me i) m"
  have new: "space m1 (ram_from ms i) (ram_to me i) (fresh_space ms me i)"
      "changes_only m m1 {ram_from ms i, ram_from ms i + 8, ram_to me i - 8}"
    unfolding m1_def fresh_space_def using s_init_space_eq [OF sp(1-4)] by auto
  have keep: "m1 x = m x" if "x < ram_from ms i \<or> ram_to me i \<le> x" for x
    using new(2) that sp(4) by (auto simp: changes_only_def)
  have "space m1 (ram_from ms j) (ram_to me j) (fresh_space ms me j)" if "j < Suc i" for j
  proof (cases "j = i")
    case True
    with new(1) show ?thesis by simp
  next
    case False
    then have j: "j < i" "j < length ms" using that i by auto
    show ?thesis
      using Suc.prems(1) [OF j(1)] by (rule space_frame) (use spaces_disjoint [OF ok i j(2)] False keep in force)
  qed
  moreover have "s_init_from ms me i m = s_init_from ms me (Suc i) m1"
    using sp(5) by (subst s_init_from.simps) (simp add: m1_def)
  ultimately show ?case
    using Suc.hyps(1) [of "Suc i" m1] Suc.hyps(2) Suc.prems(3) i by simp
qed

definition fresh_heap :: "u32 list \<Rightarrow> u32 list \<Rightarrow> blocks list" where
  "fresh_heap ms me = map (fresh_space ms me) [0..<length ms]"

lemma s_init_eq:
  assumes "spaces_ok ms me"
  shows "sa_ok ms me (sa_mem (s_init ms me s)) (fresh_heap ms me)"
  using s_init_from_eq [OF assms, of 0 "sa_mem s"] by (simp add: sa_ok_def s_init_def fresh_heap_def)

lemma fresh_heap_taken: "heap_taken (fresh_heap ms me) = (\<lambda>j. (ram_from ms j + 8, ram_from ms j + 8)) ` {..<length ms}"
  by (auto simp: heap_taken_def fresh_heap_def fresh_space_def)

section \<open>The interface of a heap\<close>

text \<open>What a client sees: for every block that it holds, the bytes in it.\<close>

definition view :: "mem \<Rightarrow> (nat \<rightharpoonup> nat) \<Rightarrow> (nat \<rightharpoonup> u8 list)" where
  "view m L = (\<lambda>p. map_option (rd_bytes m p) (L p))"

definition view_keeps :: "mem \<Rightarrow> mem \<Rightarrow> (nat \<rightharpoonup> nat) \<Rightarrow> bool" where
  "view_keeps m m' L \<longleftrightarrow> (\<forall>p n. L p = Some n \<longrightarrow> same_on m m' p (p + n))"

lemma view_keeps_eq: "view_keeps m m' L \<Longrightarrow> view m' L = view m L"
proof (rule ext)
  fix p
  assume "view_keeps m m' L"
  then show "view m' L p = view m L p"
    by (cases "L p") (auto simp: view_def view_keeps_def same_on_def intro!: rd_bytes_eqI)
qed

lemma view_upd: "view m (L(p \<mapsto> n)) = (view m L)(p \<mapsto> rd_bytes m p n)" "view m (L(p := None)) = (view m L)(p := None)"
  by (auto simp: view_def)

locale block_heap =
  fixes alloc :: "nat \<Rightarrow> 's \<Rightarrow> (nat \<times> 's) option"
    and release :: "nat \<Rightarrow> 's \<Rightarrow> 's option"
    and memory :: "'s \<Rightarrow> mem"
    and store :: "mem \<Rightarrow> 's \<Rightarrow> 's"
    and rep :: "'s \<Rightarrow> (nat \<rightharpoonup> nat) \<Rightarrow> bool"
    and max_size :: nat
  assumes memory_store: "memory (store m s) = m"
    and rep_null: "rep s L \<Longrightarrow> L 0 = None"
    and rep_apart: "rep s L \<Longrightarrow> L p = Some n \<Longrightarrow> L q = Some k \<Longrightarrow> p \<noteq> q \<Longrightarrow> p + n \<le> q \<or> q + k \<le> p"
    and alloc_law: "rep s L \<Longrightarrow> 0 < n \<Longrightarrow> n \<le> max_size \<Longrightarrow>
      alloc n s = Some (0, s) \<or>
      (\<exists>p s' k. alloc n s = Some (p, s') \<and> p \<noteq> 0 \<and> L p = None \<and> n \<le> k \<and> rep s' (L(p \<mapsto> k)) \<and> view_keeps (memory s) (memory s') L)"
    and release_law: "rep s L \<Longrightarrow> L p = Some n \<Longrightarrow>
      \<exists>s'. release p s = Some s' \<and> rep s' (L(p := None)) \<and> view_keeps (memory s) (memory s') L"
    and write_law: "rep s L \<Longrightarrow> L p = Some n \<Longrightarrow> (\<And>x. x < p \<or> p + n \<le> x \<Longrightarrow> m x = memory s x) \<Longrightarrow> rep (store m s) L"
begin

lemma alloc_view:
  assumes "rep s L" "0 < n" "n \<le> max_size"
  shows "alloc n s = Some (0, s) \<or> (\<exists>p s' k. alloc n s = Some (p, s') \<and> p \<noteq> 0 \<and> L p = None \<and> n \<le> k \<and>
    rep s' (L(p \<mapsto> k)) \<and> view (memory s') (L(p \<mapsto> k)) = (view (memory s) L)(p \<mapsto> rd_bytes (memory s') p k))"
  using alloc_law [OF assms] by (fastforce simp: view_upd view_keeps_eq)

lemma release_view:
  assumes "rep s L" "L p = Some n"
  shows "\<exists>s'. release p s = Some s' \<and> rep s' (L(p := None)) \<and> view (memory s') (L(p := None)) = (view (memory s) L)(p := None)"
  using release_law [OF assms] by (fastforce simp: view_upd view_keeps_eq)

lemma write_view:
  assumes "rep s L" "L p = Some n" "off + length bs \<le> n"
  shows "rep (store (wr_bytes (memory s) (p + off) bs) s) L"
    and "view (wr_bytes (memory s) (p + off) bs) L = (view (memory s) L)(p \<mapsto> blit off bs (rd_bytes (memory s) p n))"
proof -
  show "rep (store (wr_bytes (memory s) (p + off) bs) s) L"
    using assms by (intro write_law [OF assms(1,2)]) (auto simp: wr_bytes_def)
  have "rd_bytes (wr_bytes (memory s) (p + off) bs) p n = blit off bs (rd_bytes (memory s) p n)"
    using assms(3) by (intro nth_equalityI) (auto simp: nth_blit wr_bytes_def)
  moreover have "rd_bytes (wr_bytes (memory s) (p + off) bs) q k = rd_bytes (memory s) q k" if "L q = Some k" "q \<noteq> p" for q k
    using rep_apart [OF assms(1) that(1) assms(2) that(2)] assms(3) by (intro rd_wr_bytes_other) auto
  ultimately show "view (wr_bytes (memory s) (p + off) bs) L = (view (memory s) L)(p \<mapsto> blit off bs (rd_bytes (memory s) p n))"
    using assms(2) by (intro ext) (auto simp: view_def split: option.split cong: map_option_cong)
qed

text \<open>Moving the contents of a block to a larger block.\<close>

lemma move_view:
  assumes "rep s L" "L p = Some n" "n \<le> k" "L q = Some k" "p \<noteq> q"
  shows "\<exists>s'. release p (store (wr_bytes (memory s) q (rd_bytes (memory s) p n)) s) = Some s' \<and> rep s' (L(p := None)) \<and>
    view (memory s') (L(p := None))
      = (view (memory s) L)(p := None, q \<mapsto> rd_bytes (memory s) p n @ drop n (rd_bytes (memory s) q k))"
proof -
  let ?s1 = "store (wr_bytes (memory s) q (rd_bytes (memory s) p n)) s"
  note w = write_view [OF assms(1,4), of 0 "rd_bytes (memory s) p n"]
  have "rep ?s1 L" "view (memory ?s1) L = (view (memory s) L)(q \<mapsto> blit 0 (rd_bytes (memory s) p n) (rd_bytes (memory s) q k))"
    using w assms(3) by (auto simp: memory_store)
  with release_view [of ?s1 L p n] assms(2,5) show ?thesis
    by (auto simp: blit_def fun_upd_twist)
qed

end

section \<open>The allocator as a heap\<close>

definition sa_rep :: "u32 list \<Rightarrow> u32 list \<Rightarrow> salloc \<Rightarrow> (nat \<rightharpoonup> nat) \<Rightarrow> bool" where
  "sa_rep ms me s L \<longleftrightarrow> spaces_ok ms me \<and> s_initialized s \<and>
     (\<exists>H. sa_ok ms me (sa_mem s) H \<and> (\<forall>p n. L p = Some n \<longleftrightarrow> 0 < n \<and> (p, p + n) \<in> heap_taken H))"

lemma sa_ok_write:
  assumes "spaces_ok ms me" "sa_ok ms me m H" "(p, q) \<in> heap_taken H" "\<And>x. x < p \<or> q \<le> x \<Longrightarrow> m' x = m x"
  shows "sa_ok ms me m' H"
proof -
  obtain i where i: "i < length ms" "(p, q) \<in> taken_set (H ! i)" "ram_from ms i + 8 \<le> p" "q + 8 \<le> ram_to me i"
    "space m (ram_from ms i) (ram_to me i) (H ! i)"
    using heap_taken_in [OF assms(2,3)] by metis
  have "lseg m' 0 (H ! i) 0 = lseg m 0 (H ! i) 0"
  proof (rule lseg_frame)
    fix a t
    assume "(a, t) \<in> set (H ! i)"
    from taken_set_avoids [OF space_lseg(2) [OF i(5)] i(2) this] assms(4) show "same_on m m' a (a + 8)"
      by (auto simp: same_on_def)
  qed
  then have "space m' (ram_from ms i) (ram_to me i) (H ! i)"
    using i(5) by (simp add: space_def)
  from sa_ok_update [OF assms(1,2) i(1) this] assms(4) i(3,4) show ?thesis
    by fastforce
qed

lemma heap_keeps_view: "heap_keeps m m' T \<Longrightarrow> (\<And>p n. L p = Some n \<Longrightarrow> (p, p + n) \<in> T) \<Longrightarrow> view_keeps m m' L"
  by (auto simp: heap_keeps_def view_keeps_def)

interpretation sa: block_heap "smalloc ms me" sfree sa_mem "\<lambda>m s. s\<lparr>sa_mem := m\<rparr>" "sa_rep ms me" "2 ^ 32 - 16" for ms me
proof
  show "sa_mem (s\<lparr>sa_mem := m\<rparr>) = m" for s m
    by simp
  fix s L
  assume R: "sa_rep ms me s L"
  then obtain H where ok: "spaces_ok ms me" "sa_ok ms me (sa_mem s) H" "s_initialized s"
    and L: "L p = Some n \<longleftrightarrow> 0 < n \<and> (p, p + n) \<in> heap_taken H" for p n
    by (auto simp: sa_rep_def)
  have ready: "s_ready ms me s = s"
    using ok(3) by (simp add: s_ready_def)
  show "L 0 = None"
  proof (rule ccontr)
    assume "L 0 \<noteq> None"
    then obtain n where "(0, 0 + n) \<in> heap_taken H" using L by blast
    then show False
      by (rule heap_taken_in [OF ok(2)]) simp
  qed
  show "p + n \<le> q \<or> q + k \<le> p" if "L p = Some n" "L q = Some k" "p \<noteq> q" for p n q k
    using heap_taken_disjoint [OF ok(1,2)] that L by blast
  show "smalloc ms me n s = Some (0, s) \<or>
    (\<exists>p s' k. smalloc ms me n s = Some (p, s') \<and> p \<noteq> 0 \<and> L p = None \<and> n \<le> k \<and> sa_rep ms me s' (L(p \<mapsto> k)) \<and>
      view_keeps (sa_mem s) (sa_mem s') L)" if n: "0 < n" "n \<le> 2 ^ 32 - 16" for n
  proof -
    have "n + 16 \<le> 2 ^ 32" using n(2) by simp
    from s_malloc_from_eq [OF ok(1) n(1) this ok(2), of 0] show ?thesis
    proof
      assume "s_malloc_from ms n 0 (sa_mem s) = Some (0, sa_mem s) \<and>
        (\<forall>j a r. 0 \<le> j \<longrightarrow> j < length ms \<longrightarrow> \<not> fits (need_of n) (H ! j) a r)"
      then show ?thesis by (simp add: smalloc_def ready)
    next
      assume "\<exists>p b m' H'. s_malloc_from ms n 0 (sa_mem s) = Some (p, m') \<and> p \<noteq> 0 \<and> sa_ok ms me m' H' \<and>
        heap_taken H' = insert (p, b) (heap_taken H) \<and> p + n \<le> b \<and> (\<forall>q. (p, q) \<notin> heap_taken H) \<and>
        heap_keeps (sa_mem s) m' (heap_taken H)"
      then obtain p b m' H' where new: "s_malloc_from ms n 0 (sa_mem s) = Some (p, m')" "p \<noteq> 0" "sa_ok ms me m' H'"
        "heap_taken H' = insert (p, b) (heap_taken H)" "p + n \<le> b" "\<forall>q. (p, q) \<notin> heap_taken H"
        "heap_keeps (sa_mem s) m' (heap_taken H)"
        by blast
      have fresh: "L p = None"
        using L new(6) by (metis option.exhaust)
      have "(L(p \<mapsto> b - p)) q = Some k \<longleftrightarrow> 0 < k \<and> (q, q + k) \<in> heap_taken H'" for q k
        using new(4-6) n(1) L [of q k] by (auto simp: fun_upd_apply)
      then have "sa_rep ms me (s\<lparr>sa_mem := m'\<rparr>) (L(p \<mapsto> b - p))"
        using ok new(3) by (auto simp: sa_rep_def simp del: fun_upd_apply)
      moreover have "view_keeps (sa_mem s) m' L"
        using heap_keeps_view [OF new(7), of L] L by blast
      ultimately show ?thesis
        using new(1,2,5) fresh by (intro disjI2 exI [of _ p] exI [of _ "s\<lparr>sa_mem := m'\<rparr>"] exI [of _ "b - p"]) (auto simp: smalloc_def ready)
    qed
  qed
  show "\<exists>s'. sfree p s = Some s' \<and> sa_rep ms me s' (L(p := None)) \<and> view_keeps (sa_mem s) (sa_mem s') L" if p: "L p = Some n" for p n
  proof -
    have T: "(p, p + n) \<in> heap_taken H" "p < p + n"
      using p L by auto
    obtain m' H' where new: "s_free_block p (sa_mem s) = Some m'" "sa_ok ms me m' H'" "heap_taken H' = heap_taken H - {(p, p + n)}"
        "heap_keeps (sa_mem s) m' (heap_taken H)"
      using s_free_eq [OF ok(1,2) T] by blast
    have "(L(p := None)) q = Some k \<longleftrightarrow> 0 < k \<and> (q, q + k) \<in> heap_taken H'" for q k
      using new(3) L [of q k] heap_taken_fun [OF ok(1,2) T(1), of "p + k"] by auto
    then have "sa_rep ms me (s\<lparr>sa_mem := m'\<rparr>) (L(p := None))"
      using ok new(2) by (auto simp: sa_rep_def simp del: fun_upd_apply)
    moreover have "view_keeps (sa_mem s) m' L"
      using heap_keeps_view [OF new(4), of L] L by blast
    moreover have "p \<noteq> 0"
      using p \<open>L 0 = None\<close> by (metis option.distinct(1))
    ultimately show ?thesis
      using new(1) ok(3) by (auto simp: sfree_def)
  qed
  show "sa_rep ms me (s\<lparr>sa_mem := m\<rparr>) L" if p: "L p = Some n" "\<And>x. x < p \<or> p + n \<le> x \<Longrightarrow> m x = sa_mem s x" for p n m
  proof -
    have "(p, p + n) \<in> heap_taken H" using p(1) L by simp
    from sa_ok_write [OF ok(1,2) this] p(2) have "sa_ok ms me m H" by blast
    then show ?thesis
      using ok(1,3) L by (auto simp: sa_rep_def)
  qed
qed

section \<open>Resizing\<close>

lemma sa_actual_size:
  assumes "sa_rep ms me s L" "L p = Some n"
  shows "s_get_actual_block_size (sa_mem s) p = n"
proof -
  obtain H where ok: "sa_ok ms me (sa_mem s) H" "(p, p + n) \<in> heap_taken H" "0 < n"
    using assms by (auto simp: sa_rep_def)
  obtain i where i: "(p, p + n) \<in> taken_set (H ! i)" "space (sa_mem s) (ram_from ms i) (ram_to me i) (H ! i)"
    using heap_taken_in [OF ok(1,2)] by metis
  obtain a where "p = a + 8"
    using taken_set_mem [OF i(1)] by auto
  then show ?thesis
    using space_block_size(2) [OF i(2), of a "p + n"] i(1) ok(3) by simp
qed

lemma sa_shrink:
  assumes R: "sa_rep ms me s L" "L p = Some k" and n: "0 < n" "n \<le> k" "n \<le> 2 ^ 32 - 16"
  shows "\<exists>m' k'. s_shrink_block p n (sa_mem s) = Some m' \<and> n \<le> k' \<and> k' \<le> k \<and> sa_rep ms me (s\<lparr>sa_mem := m'\<rparr>) (L(p \<mapsto> k')) \<and>
    view_keeps (sa_mem s) m' (L(p \<mapsto> k'))"
proof -
  obtain H where ok: "spaces_ok ms me" "sa_ok ms me (sa_mem s) H" "s_initialized s"
    and L: "\<And>p n. L p = Some n \<longleftrightarrow> 0 < n \<and> (p, p + n) \<in> heap_taken H"
    using R(1) by (auto simp: sa_rep_def)
  have T: "(p, p + k) \<in> heap_taken H" "p < p + k"
    using R(2) L by auto
  have n': "n + 16 \<le> 2 ^ 32" "n \<le> p + k - p" using n(2,3) by simp_all
  obtain m' H' c where new: "s_shrink_block p n (sa_mem s) = Some m'" "sa_ok ms me m' H'" "p + n \<le> c" "c \<le> p + k"
      "heap_taken H' = insert (p, c) (heap_taken H - {(p, p + k)})" "heap_keeps (sa_mem s) m' (heap_taken H')"
    using s_shrink_eq [OF ok(1,2) T n(1) n'] by metis
  have upd: "(L(p \<mapsto> c - p)) q = Some j \<longleftrightarrow> 0 < j \<and> (q, q + j) \<in> heap_taken H'" for q j
  proof (cases "q = p")
    case True
    have "(p, p + j) \<notin> heap_taken H - {(p, p + k)}"
    proof
      assume *: "(p, p + j) \<in> heap_taken H - {(p, p + k)}"
      then have "p + k = p + j"
        using heap_taken_fun [OF ok(1,2) T(1)] by (metis DiffD1)
      with * show False by simp
    qed
    then have "(p, p + j) \<in> heap_taken H' \<longleftrightarrow> p + j = c"
      by (auto simp: new(5))
    then show ?thesis
      using True new(3) n(1) by auto
  next
    case False
    then show ?thesis
      using new(5) L [of q j] by simp
  qed
  then have "sa_rep ms me (s\<lparr>sa_mem := m'\<rparr>) (L(p \<mapsto> c - p))"
    using ok new(2) by (auto simp: sa_rep_def simp del: fun_upd_apply)
  moreover have "view_keeps (sa_mem s) m' (L(p \<mapsto> c - p))"
    using heap_keeps_view [OF new(6), of "L(p \<mapsto> c - p)"] upd by blast
  ultimately show ?thesis
    using new(1,3,4) by (intro exI [of _ m'] exI [of _ "c - p"]) auto
qed

text \<open>What \<open>srealloc\<close> does to the blocks of a client.\<close>

lemma srealloc_view:
  assumes R: "sa_rep ms me s L" "L p = Some k" and n: "0 < n" "n \<le> 2 ^ 32 - 16"
  shows "srealloc ms me p n s = Some (0, s) \<or>
    (\<exists>q s' bs. srealloc ms me p n s = Some (q, s') \<and> q \<noteq> 0 \<and> (q = p \<or> L q = None) \<and> n \<le> length bs \<and>
      sa_rep ms me s' (L(p := None, q \<mapsto> length bs)) \<and>
      view (sa_mem s') (L(p := None, q \<mapsto> length bs)) = (view (sa_mem s) L)(p := None, q \<mapsto> bs) \<and>
      take (min k n) bs = take (min k n) (rd_bytes (sa_mem s) p k))"
proof -
  have p: "p \<noteq> 0"
    using sa.rep_null [OF R(1)] R(2) by (metis option.distinct(1))
  have ready: "s_ready ms me s = s"
    using R(1) by (simp add: s_ready_def sa_rep_def)
  note size = sa_actual_size [OF R]
  consider (same) "k = n" | (shrink) "n < k" | (grow) "k < n" by linarith
  then show ?thesis
  proof cases
    case same
    then have "srealloc ms me p n s = Some (p, s)"
      using p n(1) ready size by (simp add: srealloc_def)
    moreover have "view (sa_mem s) L p = Some (rd_bytes (sa_mem s) p k)"
      using R(2) by (simp add: view_def)
    ultimately show ?thesis
      using p same R by (intro disjI2 exI [of _ p] exI [of _ s] exI [of _ "rd_bytes (sa_mem s) p k"])
        (simp_all add: view_upd fun_upd_idem)
  next
    case shrink
    obtain m' k' where sh: "s_shrink_block p n (sa_mem s) = Some m'" "n \<le> k'" "k' \<le> k" "sa_rep ms me (s\<lparr>sa_mem := m'\<rparr>) (L(p \<mapsto> k'))"
        "view_keeps (sa_mem s) m' (L(p \<mapsto> k'))"
      using sa_shrink [OF R n(1) _ n(2)] shrink by auto
    have "srealloc ms me p n s = Some (p, s\<lparr>sa_mem := m'\<rparr>)"
      using p n(1) ready size shrink sh(1) by (simp add: srealloc_def)
    moreover have "view m' (L(p \<mapsto> k')) = (view (sa_mem s) L)(p \<mapsto> rd_bytes (sa_mem s) p k')"
      using view_keeps_eq [OF sh(5)] by (simp add: view_upd)
    moreover have "take (min k n) (rd_bytes (sa_mem s) p k') = take (min k n) (rd_bytes (sa_mem s) p k)"
      using sh(2) shrink by (intro nth_equalityI) (auto simp: sh(3) min_def split: if_split_asm)
    ultimately show ?thesis
      using p sh(2,4)
      by (intro disjI2 exI [of _ p] exI [of _ "s\<lparr>sa_mem := m'\<rparr>"] exI [of _ "rd_bytes (sa_mem s) p k'"]) simp_all
  next
    case grow
    from sa.alloc_view [OF R(1) n] show ?thesis
    proof
      assume "smalloc ms me n s = Some (0, s)"
      then show ?thesis
        using p n(1) ready size grow by (simp add: srealloc_def)
    next
      assume "\<exists>q s1 j. smalloc ms me n s = Some (q, s1) \<and> q \<noteq> 0 \<and> L q = None \<and> n \<le> j \<and> sa_rep ms me s1 (L(q \<mapsto> j)) \<and>
        view (sa_mem s1) (L(q \<mapsto> j)) = (view (sa_mem s) L)(q \<mapsto> rd_bytes (sa_mem s1) q j)"
      then obtain q s1 j where new: "smalloc ms me n s = Some (q, s1)" "q \<noteq> 0" "L q = None" "n \<le> j" "sa_rep ms me s1 (L(q \<mapsto> j))"
        "view (sa_mem s1) (L(q \<mapsto> j)) = (view (sa_mem s) L)(q \<mapsto> rd_bytes (sa_mem s1) q j)"
        by blast
      have pq: "p \<noteq> q" using new(3) R(2) by auto
      then have pL: "(L(q \<mapsto> j)) p = Some k" using R(2) by simp
      have old: "rd_bytes (sa_mem s1) p k = rd_bytes (sa_mem s) p k"
        using fun_cong [OF new(6), of p] pq R(2) by (simp add: view_def)
      obtain s' where mv: "sfree p (s1\<lparr>sa_mem := wr_bytes (sa_mem s1) q (rd_bytes (sa_mem s1) p k)\<rparr>) = Some s'"
          "sa_rep ms me s' (L(q \<mapsto> j, p := None))"
          "view (sa_mem s') (L(q \<mapsto> j, p := None)) = (view (sa_mem s1) (L(q \<mapsto> j)))(p := None,
             q \<mapsto> rd_bytes (sa_mem s1) p k @ drop k (rd_bytes (sa_mem s1) q j))"
        using sa.move_view [where s = s1 and L = "L(q \<mapsto> j)" and p = p and n = k and k = j and q = q] new(4,5) pL pq grow
        by auto
      define bs where "bs = rd_bytes (sa_mem s) p k @ drop k (rd_bytes (sa_mem s1) q j)"
      have "srealloc ms me p n s = Some (q, s')"
        using p n(1) ready size grow new(1,2) mv(1) sa_actual_size [OF new(5) pL] by (simp add: srealloc_def)
      moreover have "sa_rep ms me s' (L(p := None, q \<mapsto> j))"
        using mv(2) pq by (simp add: fun_upd_twist)
      moreover have "view (sa_mem s') (L(p := None, q \<mapsto> j)) = (view (sa_mem s) L)(p := None, q \<mapsto> bs)"
        using mv(3) new(6) pq by (simp add: fun_upd_twist old bs_def)
      moreover have "length bs = j" "take (min k n) bs = take (min k n) (rd_bytes (sa_mem s) p k)"
        using grow new(4) by (auto simp: bs_def)
      ultimately show ?thesis
        using new(2-4) by (intro disjI2 exI [of _ q] exI [of _ s'] exI [of _ bs]) auto
    qed
  qed
qed

section \<open>Clients\<close>

text \<open>The operations of a client, and what each of them may do to a store of separate blocks of bytes.
  The result 0 of an allocation is \<open>NULL\<close>.\<close>

datatype heap_op = Malloc nat | Calloc nat nat | Realloc nat nat | Free nat | Poke nat nat u8

inductive store_step :: "(nat \<rightharpoonup> u8 list) \<Rightarrow> heap_op \<Rightarrow> nat \<Rightarrow> (nat \<rightharpoonup> u8 list) \<Rightarrow> bool" where
  malloc_null: "store_step S (Malloc n) 0 S"
| malloc_block: "p \<noteq> 0 \<Longrightarrow> S p = None \<Longrightarrow> n \<le> length bs \<Longrightarrow> store_step S (Malloc n) p (S(p \<mapsto> bs))"
| calloc_null: "store_step S (Calloc k n) 0 S"
| calloc_block: "p \<noteq> 0 \<Longrightarrow> S p = None \<Longrightarrow> k * n \<le> length bs \<Longrightarrow> take (k * n) bs = replicate (k * n) 0 \<Longrightarrow>
    store_step S (Calloc k n) p (S(p \<mapsto> bs))"
| realloc_null: "store_step S (Realloc p n) 0 S"
| realloc_block: "S p = Some bs \<Longrightarrow> q \<noteq> 0 \<Longrightarrow> q = p \<or> S q = None \<Longrightarrow> n \<le> length bs' \<Longrightarrow>
    take (min (length bs) n) bs' = take (min (length bs) n) bs \<Longrightarrow> store_step S (Realloc p n) q (S(p := None, q \<mapsto> bs'))"
| free_block: "store_step S (Free p) 0 (S(p := None))"
| poke_block: "S p = Some bs \<Longrightarrow> i < length bs \<Longrightarrow> store_step S (Poke p i v) 0 (S(p \<mapsto> bs[i := v]))"

text \<open>A client only uses blocks that it holds, and asks for sizes that leave room for a header.\<close>

definition size_ok :: "nat \<Rightarrow> bool" where
  "size_ok n \<longleftrightarrow> 0 < n \<and> n \<le> 2 ^ 32 - 16"

fun legal :: "(nat \<rightharpoonup> u8 list) \<Rightarrow> heap_op \<Rightarrow> bool" where
  "legal S (Malloc n) \<longleftrightarrow> size_ok n"
| "legal S (Calloc k n) \<longleftrightarrow> size_ok (k * n)"
| "legal S (Realloc p n) \<longleftrightarrow> S p \<noteq> None \<and> size_ok n"
| "legal S (Free p) \<longleftrightarrow> S p \<noteq> None"
| "legal S (Poke p i v) \<longleftrightarrow> (\<exists>bs. S p = Some bs \<and> i < length bs)"

fun sa_exec :: "u32 list \<Rightarrow> u32 list \<Rightarrow> heap_op \<Rightarrow> salloc \<Rightarrow> (nat \<times> salloc) option" where
  "sa_exec ms me (Malloc n) s = smalloc ms me n s"
| "sa_exec ms me (Calloc k n) s = scalloc ms me k n s"
| "sa_exec ms me (Realloc p n) s = srealloc ms me p n s"
| "sa_exec ms me (Free p) s = map_option (Pair 0) (sfree p s)"
| "sa_exec ms me (Poke p i v) s = Some (0, s\<lparr>sa_mem := wr_bytes (sa_mem s) (p + i) [v]\<rparr>)"

definition sa_sim :: "u32 list \<Rightarrow> u32 list \<Rightarrow> salloc \<Rightarrow> (nat \<rightharpoonup> u8 list) \<Rightarrow> bool" where
  "sa_sim ms me s S \<longleftrightarrow> (\<exists>L. sa_rep ms me s L \<and> S = view (sa_mem s) L)"

lemma sa_sim_malloc:
  assumes "sa_rep ms me s L" "size_ok n"
  shows "smalloc ms me n s = Some (0, s) \<or> (\<exists>p s' k. smalloc ms me n s = Some (p, s') \<and> p \<noteq> 0 \<and> L p = None \<and> n \<le> k \<and>
    sa_rep ms me s' (L(p \<mapsto> k)) \<and> view (sa_mem s') (L(p \<mapsto> k)) = (view (sa_mem s) L)(p \<mapsto> rd_bytes (sa_mem s') p k))"
  using sa.alloc_view [OF assms(1)] assms(2) by (simp add: size_ok_def)

lemma view_None: "view m L p = None \<longleftrightarrow> L p = None"
  by (simp add: view_def)

lemma sa_sim_calloc:
  assumes L: "sa_rep ms me s L" and N: "c * n mod 2 ^ 32 = N" "size_ok N"
  shows "scalloc ms me c n s = Some (0, s) \<and> smalloc ms me N s = Some (0, s) \<or> (\<exists>p s' bs. scalloc ms me c n s = Some (p, s') \<and> p \<noteq> 0 \<and> L p = None \<and>
    N \<le> length bs \<and> take N bs = replicate N 0 \<and> sa_rep ms me s' (L(p \<mapsto> length bs)) \<and>
    view (sa_mem s') (L(p \<mapsto> length bs)) = (view (sa_mem s) L)(p \<mapsto> bs))"
proof -
  have ready: "s_ready ms me s = s"
    using L by (simp add: s_ready_def sa_rep_def)
  from sa_sim_malloc [OF L N(2)] consider "smalloc ms me N s = Some (0, s)"
    | p s' k where "smalloc ms me N s = Some (p, s')" "p \<noteq> 0" "L p = None" "N \<le> k" "sa_rep ms me s' (L(p \<mapsto> k))"
        "view (sa_mem s') (L(p \<mapsto> k)) = (view (sa_mem s) L)(p \<mapsto> rd_bytes (sa_mem s') p k)"
    by blast
  then show ?thesis
  proof cases
    case 1
    then show ?thesis
      unfolding scalloc_def N(1) ready by simp
  next
    case (2 p s' k)
    define z :: "u8 list" where "z = replicate N 0"
    define bs where "bs = blit 0 z (rd_bytes (sa_mem s') p k)"
    define s2 where "s2 = s'\<lparr>sa_mem := wr_bytes (sa_mem s') p z\<rparr>"
    have bs: "length bs = k" "take N bs = replicate N 0"
      using 2(4) by (simp_all add: bs_def z_def blit_def)
    moreover have "scalloc ms me c n s = Some (p, s2)"
      unfolding scalloc_def N(1) ready 2(1) s2_def z_def using 2(2) by simp
    moreover have "sa_rep ms me s2 (L(p \<mapsto> k))" "view (sa_mem s2) (L(p \<mapsto> k)) = (view (sa_mem s) L)(p \<mapsto> bs)"
      using sa.write_view [OF 2(5), of p k 0 z] 2(4,6) by (auto simp: s2_def z_def bs_def)
    ultimately show ?thesis
      using 2(2-4) by auto
  qed
qed

lemma sa_sim_step:
  assumes "sa_sim ms me s S" "legal S opn"
  shows "\<exists>r s' S'. sa_exec ms me opn s = Some (r, s') \<and> store_step S opn r S' \<and> sa_sim ms me s' S'"
proof -
  obtain L where L: "sa_rep ms me s L" "S = view (sa_mem s) L"
    using assms(1) by (auto simp: sa_sim_def)
  have ready: "s_ready ms me s = s"
    using L(1) by (simp add: s_ready_def sa_rep_def)
  show ?thesis
  proof (cases opn)
    case (Malloc n)
    with assms(2) have "size_ok n" by simp
    from sa_sim_malloc [OF L(1) this] show ?thesis
    proof
      assume "smalloc ms me n s = Some (0, s)"
      then show ?thesis
        using assms(1) Malloc by (auto intro: store_step.intros)
    next
      assume "\<exists>p s' k. smalloc ms me n s = Some (p, s') \<and> p \<noteq> 0 \<and> L p = None \<and> n \<le> k \<and> sa_rep ms me s' (L(p \<mapsto> k)) \<and>
        view (sa_mem s') (L(p \<mapsto> k)) = (view (sa_mem s) L)(p \<mapsto> rd_bytes (sa_mem s') p k)"
      then obtain p s' k where "smalloc ms me n s = Some (p, s')" "p \<noteq> 0" "L p = None" "n \<le> k" "sa_rep ms me s' (L(p \<mapsto> k))"
        "view (sa_mem s') (L(p \<mapsto> k)) = (view (sa_mem s) L)(p \<mapsto> rd_bytes (sa_mem s') p k)"
        by blast
      moreover have "store_step S (Malloc n) p (S(p \<mapsto> rd_bytes (sa_mem s') p k))"
        using calculation by (intro malloc_block) (simp_all add: L(2) view_None)
      moreover have "sa_sim ms me s' (S(p \<mapsto> rd_bytes (sa_mem s') p k))"
        unfolding sa_sim_def L(2) using calculation by (intro exI [of _ "L(p \<mapsto> k)"]) simp
      ultimately show ?thesis
        using Malloc by auto
    qed
  next
    case (Calloc c n)
    with assms(2) have sz: "size_ok (c * n)" "c * n mod 2 ^ 32 = c * n" by (auto simp: size_ok_def)
    from sa_sim_calloc [OF L(1) sz(2,1)] consider "scalloc ms me c n s = Some (0, s)"
      | p s' bs where "scalloc ms me c n s = Some (p, s')" "p \<noteq> 0" "L p = None" "c * n \<le> length bs"
          "take (c * n) bs = replicate (c * n) 0" "sa_rep ms me s' (L(p \<mapsto> length bs))"
          "view (sa_mem s') (L(p \<mapsto> length bs)) = (view (sa_mem s) L)(p \<mapsto> bs)"
      by blast
    then show ?thesis
    proof cases
      case 1
      then show ?thesis
        using assms(1) Calloc by (auto intro: store_step.intros)
    next
      case (2 p s' bs)
      have "sa_sim ms me s' (S(p \<mapsto> bs))"
        unfolding sa_sim_def L(2) using 2(6,7) by (intro exI [of _ "L(p \<mapsto> length bs)"]) simp
      moreover have "store_step S (Calloc c n) p (S(p \<mapsto> bs))"
        using 2 by (intro calloc_block) (simp_all add: L(2) view_None)
      ultimately show ?thesis
        using 2(1) Calloc by auto
    qed
  next
    case (Realloc p n)
    with assms(2) obtain k where k: "L p = Some k" and n: "0 < n" "n \<le> 2 ^ 32 - 16"
      by (auto simp: L(2) view_None size_ok_def)
    have Sp: "S p = Some (rd_bytes (sa_mem s) p k)"
      using k by (simp add: L(2) view_def)
    from srealloc_view [OF L(1) k n] show ?thesis
    proof
      assume "srealloc ms me p n s = Some (0, s)"
      then show ?thesis
        using assms(1) Realloc by (auto intro: store_step.intros)
    next
      assume "\<exists>q s' bs. srealloc ms me p n s = Some (q, s') \<and> q \<noteq> 0 \<and> (q = p \<or> L q = None) \<and> n \<le> length bs \<and>
        sa_rep ms me s' (L(p := None, q \<mapsto> length bs)) \<and>
        view (sa_mem s') (L(p := None, q \<mapsto> length bs)) = (view (sa_mem s) L)(p := None, q \<mapsto> bs) \<and>
        take (min k n) bs = take (min k n) (rd_bytes (sa_mem s) p k)"
      then obtain q s' bs where new: "srealloc ms me p n s = Some (q, s')" "q \<noteq> 0" "q = p \<or> L q = None" "n \<le> length bs"
        "sa_rep ms me s' (L(p := None, q \<mapsto> length bs))"
        "view (sa_mem s') (L(p := None, q \<mapsto> length bs)) = (view (sa_mem s) L)(p := None, q \<mapsto> bs)"
        "take (min k n) bs = take (min k n) (rd_bytes (sa_mem s) p k)"
        by blast
      have "store_step S (Realloc p n) q (S(p := None, q \<mapsto> bs))"
        using new Sp by (intro realloc_block [of S p "rd_bytes (sa_mem s) p k" q n bs]) (simp_all add: L(2) view_None)
      moreover have "sa_sim ms me s' (S(p := None, q \<mapsto> bs))"
        unfolding sa_sim_def L(2) using new(5,6) by (intro exI [of _ "L(p := None, q \<mapsto> length bs)"]) simp
      ultimately show ?thesis
        using Realloc new(1) by auto
    qed
  next
    case (Free p)
    with assms(2) obtain k where k: "L p = Some k"
      by (auto simp: L(2) view_None)
    obtain s' where "sfree p s = Some s'" "sa_rep ms me s' (L(p := None))" "view (sa_mem s') (L(p := None)) = S(p := None)"
      using sa.release_view [OF L(1) k] by (auto simp: L(2))
    then have "sa_sim ms me s' (S(p := None))" "sa_exec ms me opn s = Some (0, s')"
      using Free unfolding sa_sim_def by (metis, simp)
    then show ?thesis
      using Free free_block [of S p] by blast
  next
    case (Poke p i v)
    with assms(2) obtain k where k: "L p = Some k" "i < k"
      by (auto simp: L(2) view_def)
    have Sp: "S p = Some (rd_bytes (sa_mem s) p k)"
      using k by (simp add: L(2) view_def)
    note w = sa.write_view [OF L(1) k(1), of i "[v]"]
    have "blit i [v] (rd_bytes (sa_mem s) p k) = (rd_bytes (sa_mem s) p k)[i := v]"
      using k(2) by (simp add: blit_def upd_conv_take_nth_drop)
    then have "sa_sim ms me (s\<lparr>sa_mem := wr_bytes (sa_mem s) (p + i) [v]\<rparr>) (S(p \<mapsto> (rd_bytes (sa_mem s) p k)[i := v]))"
      unfolding sa_sim_def using w k(2) by (intro exI [of _ L]) (simp add: L(2))
    moreover have "store_step S (Poke p i v) 0 (S(p \<mapsto> (rd_bytes (sa_mem s) p k)[i := v]))"
      using k(2) by (intro poke_block [of S p "rd_bytes (sa_mem s) p k" i v]) (simp_all add: Sp)
    ultimately show ?thesis
      using Poke by auto
  qed
qed

lemma sa_sim_init:
  assumes "spaces_ok ms me"
  shows "sa_sim ms me (s_init ms me s) Map.empty"
proof -
  have "sa_rep ms me (s_init ms me s) Map.empty"
    using assms s_init_eq [OF assms] fresh_heap_taken [of ms me]
    by (auto simp: sa_rep_def s_init_def intro!: exI [of _ "fresh_heap ms me"])
  then show ?thesis
    by (auto simp: sa_sim_def view_def)
qed

text \<open>C40. The allocator implements a store of separate blocks of bytes: an initialised allocator is an empty
  store, every operation of a client that uses only its own blocks returns, gives a result that the
  store allows and leaves the allocator representing the resulting store, and the memory holds the
  bytes of every block.\<close>

theorem salloc_implements_store:
  assumes "spaces_ok ms me"
  shows "sa_sim ms me (s_init ms me s0) Map.empty \<and>
    (\<forall>s S opn. sa_sim ms me s S \<and> legal S opn \<longrightarrow>
      (\<exists>r s' S'. sa_exec ms me opn s = Some (r, s') \<and> store_step S opn r S' \<and> sa_sim ms me s' S')) \<and>
    (\<forall>s S p bs. sa_sim ms me s S \<and> S p = Some bs \<longrightarrow> rd_bytes (sa_mem s) p (length bs) = bs)"
proof (intro conjI allI impI)
  show "sa_sim ms me (s_init ms me s0) Map.empty"
    by (rule sa_sim_init [OF assms])
  show "\<exists>r s' S'. sa_exec ms me opn s = Some (r, s') \<and> store_step S opn r S' \<and> sa_sim ms me s' S'"
    if "sa_sim ms me s S \<and> legal S opn" for s S opn
    using that by (intro sa_sim_step) auto
  show "rd_bytes (sa_mem s) p (length bs) = bs" if "sa_sim ms me s S \<and> S p = Some bs" for s S p bs
    using that by (auto simp: sa_sim_def view_def)
qed

lemma demo_spaces: "spaces_ok [0x20000000] [0x20000400]"
  by (simp add: spaces_ok_def mem_ok_def platform_get_first_free_ram_def platform_get_last_free_ram_def MIN_ALIGN_def)

abbreviation demo_salloc :: salloc where
  "demo_salloc \<equiv> s_init [0x20000000] [0x20000400] \<lparr>sa_mem = (\<lambda>_. 0), s_initialized = False\<rparr>"

theorem salloc_implements_store_witness:
  "\<exists>r s' S'. smalloc [0x20000000] [0x20000400] 100 demo_salloc = Some (r, s') \<and>
    store_step Map.empty (Malloc 100) r S' \<and> sa_sim [0x20000000] [0x20000400] s' S'"
  using salloc_implements_store [OF demo_spaces, of "\<lparr>sa_mem = (\<lambda>_. 0), s_initialized = False\<rparr>"]
  by (auto simp: size_ok_def dest!: spec [of _ demo_salloc] spec [of _ Map.empty] spec [of _ "Malloc 100"])

section \<open>Nothing is lost\<close>

lemma space_all_free:
  assumes S: "space m g e bs" and T: "\<And>p q. (p, q) \<in> taken_set bs \<Longrightarrow> \<not> p < q" and ge: "g + 32 \<le> e"
  shows "bs = [(g, True), (g + 8, False), (e - 8, True)]"
proof -
  obtain mid where bs: "bs = (g, True) # mid" "mid \<noteq> []" "fst_addr mid 0 = g + 8" "snd (last mid)" "fst (last mid) + 8 = e"
      "sorted_wrt (\<lambda>b c. fst b + 16 \<le> fst c) mid" "successively (\<lambda>b c. snd b \<or> snd c) bs"
    using S by (auto simp: space_def)
  have free: "\<not> snd b" if dec: "mid = xs @ b # c # ys" for b c xs ys
  proof
    assume "snd b"
    moreover obtain a d u where "b = (a, snd b)" "c = (d, u)" by (cases b; cases c) auto
    ultimately have "(a + 8, d) \<in> taken_set bs"
      using taken_set_append [of "(g, True) # xs" a True "(d, u) # ys" True] by (simp add: bs(1) dec)
    moreover have "a + 16 \<le> d"
      using bs(6) \<open>b = (a, snd b)\<close> \<open>c = (d, u)\<close> by (auto simp: dec sorted_wrt_append) (metis fst_conv)
    ultimately show False using T by fastforce
  qed
  obtain x rest where mid: "mid = x # rest" using bs(2) by (cases mid) auto
  then obtain y rest' where rest: "rest = y # rest'"
    using bs(3,5) ge by (cases rest; cases x) auto
  have "rest' = []"
  proof (cases rest')
    case (Cons z zs)
    then have "\<not> snd x" "\<not> snd y"
      using free [of "[]" x y rest'] free [of "[x]" y z zs] by (auto simp: mid rest)
    then show ?thesis
      using bs(7) by (auto simp: bs(1) mid rest)
  qed
  moreover have "\<not> snd x"
    using free [of "[]" x y rest'] by (simp add: mid rest)
  ultimately show ?thesis
    using bs(3-5) by (cases x; cases y) (auto simp: bs(1) mid rest)
qed

lemma sa_sim_empty:
  assumes "sa_sim ms me s Map.empty"
  shows "sa_ok ms me (sa_mem s) (fresh_heap ms me)"
proof -
  obtain H L where H: "spaces_ok ms me" "sa_ok ms me (sa_mem s) H" "\<And>p n. L p = Some n \<longleftrightarrow> 0 < n \<and> (p, p + n) \<in> heap_taken H"
      "Map.empty = view (sa_mem s) L"
    using assms by (auto simp: sa_sim_def sa_rep_def)
  have L: "L p = None" for p
    using fun_cong [OF H(4), of p] by (simp add: view_def)
  have "H ! j = fresh_space ms me j" if j: "j < length ms" for j
    unfolding fresh_space_def
  proof (rule space_all_free)
    show "space (sa_mem s) (ram_from ms j) (ram_to me j) (H ! j)" "ram_from ms j + 32 \<le> ram_to me j"
      using H(1,2) j by (auto simp: sa_ok_def spaces_ok_def)
    show "\<not> p < q" if "(p, q) \<in> taken_set (H ! j)" for p q
    proof
      assume "p < q"
      then have "0 < q - p \<and> (p, p + (q - p)) \<in> heap_taken H"
        using that j H(2) by (auto simp: heap_taken_def sa_ok_def)
      then show False
        using H(3) [of p "q - p"] L [of p] by (metis option.distinct(1))
    qed
  qed
  then have "H = fresh_heap ms me"
    using H(2) by (intro nth_equalityI) (auto simp: sa_ok_def fresh_heap_def)
  with H(2) show ?thesis by simp
qed

lemma smalloc_fresh:
  assumes "sa_sim ms me s Map.empty" and "j < length ms" and "0 < n" and "ram_from ms j + n + 24 \<le> ram_to me j"
  shows "\<exists>p s'. smalloc ms me n s = Some (p, s') \<and> p \<noteq> 0"
proof -
  have ok: "spaces_ok ms me" "s_initialized s"
    using assms(1) by (auto simp: sa_sim_def sa_rep_def)
  note sp = spaces_from [OF ok(1) assms(2)]
  have n: "n + 16 \<le> 2 ^ 32"
    using assms(4) sp(2) by (simp add: addr_ok_def)
  note need = need_of [OF n]
  have "8 dvd ram_to me j - 16 - ram_from ms j"
    using sp(1,2) by (auto simp: addr_ok_def)
  then obtain q where "ram_to me j - 16 - ram_from ms j = 8 * q" by (auto elim: dvdE)
  then have q: "ram_to me j = ram_from ms j + 16 + 8 * q"
    using assms(4) by simp
  obtain r where r: "need_of n = 8 * r" using need(2) by (auto elim: dvdE)
  have "n + 8 \<le> 8 * q" using assms(4) q by simp
  then have "8 * r < 8 * (q + 1)"
    using need(3) r by simp
  then have "need_of n \<le> ram_to me j - 16 - ram_from ms j"
    using q r by simp
  then have "fits (need_of n) (fresh_heap ms me ! j) (ram_from ms j + 8) (ram_to me j - 8)"
    using assms(2) by (auto simp: fresh_heap_def fresh_space_def fits_Cons)
  then have "\<not> (\<forall>j a r. 0 \<le> j \<longrightarrow> j < length ms \<longrightarrow> \<not> fits (need_of n) (fresh_heap ms me ! j) a r)"
    using assms(2) by blast
  then obtain p m' where "s_malloc_from ms n 0 (sa_mem s) = Some (p, m')" "p \<noteq> 0"
    using s_malloc_from_eq [OF ok(1) assms(3) n sa_sim_empty [OF assms(1)], of 0] by blast
  then show ?thesis
    using ok(2) by (simp add: smalloc_def s_ready_def)
qed

text \<open>When a client has returned all its blocks, every request that a fresh memory space could satisfy
  succeeds again: the free blocks have been merged.\<close>

theorem salloc_no_fragments:
  assumes "sa_sim ms me s Map.empty" and "j < length ms" and "0 < n" and "ram_from ms j + n + 24 \<le> ram_to me j"
  shows "\<exists>p s'. smalloc ms me n s = Some (p, s') \<and> p \<noteq> 0"
  by (rule smalloc_fresh [OF assms])

theorem salloc_no_fragments_witness: "\<exists>p s'. smalloc [0x20000000] [0x20000400] 1000 demo_salloc = Some (p, s') \<and> p \<noteq> 0"
  using salloc_no_fragments [OF sa_sim_init [OF demo_spaces], of 0 1000]
  by (simp add: platform_get_first_free_ram_def platform_get_last_free_ram_def MIN_ALIGN_def)

section \<open>Overflow\<close>

lemma sa_rep_bound: "sa_rep ms me s L \<Longrightarrow> L p = Some k \<Longrightarrow> k < 2 ^ 32"
proof -
  assume "sa_rep ms me s L" "L p = Some k"
  then obtain H where H: "sa_ok ms me (sa_mem s) H" "(p, p + k) \<in> heap_taken H"
    by (auto simp: sa_rep_def)
  from heap_taken_in [OF this] obtain i where "p + k + 8 \<le> ram_to me i" by metis
  moreover have "ram_to me i < 2 ^ 32" by (rule order_less_le_trans [OF unsigned_less]) simp
  ultimately show "k < 2 ^ 32" by linarith
qed

text \<open>When the product of the arguments of \<open>scalloc\<close> does not fit in 32 bits, the allocator with no
  block in use still returns a block, which is smaller than the product.\<close>

theorem scalloc_overflow:
  assumes "sa_sim ms me s Map.empty" and "2 ^ 32 \<le> nmemb * n" and "0 < nmemb * n mod 2 ^ 32"
    and "j < length ms" and "ram_from ms j + nmemb * n mod 2 ^ 32 + 24 \<le> ram_to me j"
  shows "\<exists>p s' bs. scalloc ms me nmemb n s = Some (p, s') \<and> p \<noteq> 0 \<and>
    sa_sim ms me s' [p \<mapsto> bs] \<and> length bs < nmemb * n"
proof -
  obtain L where L: "sa_rep ms me s L" "Map.empty = view (sa_mem s) L"
    using assms(1) by (auto simp: sa_sim_def)
  define N where "N = nmemb * n mod 2 ^ 32"
  have "spaces_ok ms me" using L(1) by (simp add: sa_rep_def)
  then have "ram_to me j \<le> 2 ^ 32" using spaces_from(2) [of ms me, OF _ assms(4)] by (simp add: addr_ok_def)
  then have "size_ok N"
    using assms(3,5) by (simp add: size_ok_def N_def)
  moreover obtain p0 s0 where "smalloc ms me N s = Some (p0, s0)" "p0 \<noteq> 0"
    using smalloc_fresh [OF assms(1,4), of N] assms(3,5) by (auto simp: N_def)
  ultimately obtain p s' bs where c: "scalloc ms me nmemb n s = Some (p, s')" "p \<noteq> 0"
      "sa_rep ms me s' (L(p \<mapsto> length bs))" "view (sa_mem s') (L(p \<mapsto> length bs)) = (view (sa_mem s) L)(p \<mapsto> bs)"
    using sa_sim_calloc [OF L(1) N_def [symmetric]] by auto
  have "length bs < nmemb * n"
    using sa_rep_bound [OF c(3), of p "length bs"] assms(2) by simp
  moreover have "sa_sim ms me s' [p \<mapsto> bs]"
    unfolding sa_sim_def L(2) using c(3,4) by (intro exI [of _ "L(p \<mapsto> length bs)"]) simp
  ultimately show ?thesis
    using c(1,2) by blast
qed

theorem scalloc_overflow_witness:
  "\<exists>p s' bs. scalloc [0x20000000] [0x20000400] 0x10000001 16 demo_salloc = Some (p, s') \<and> p \<noteq> 0 \<and>
    sa_sim [0x20000000] [0x20000400] s' [p \<mapsto> bs] \<and> length bs < 0x10000001 * 16"
  using scalloc_overflow [where nmemb = "0x10000001" and n = 16 and j = 0, OF sa_sim_init [OF demo_spaces]]
  by (simp add: platform_get_first_free_ram_def platform_get_last_free_ram_def MIN_ALIGN_def)

end
