(* ===== verification/Xmodem.thy ===== *)
theory Xmodem
  imports Prelude
begin

text \<open>
  The XMODEM receiver, \<open>src/src/xmodem.c\<close> and \<open>src/inc/xmodem.h\<close>, and the part of
  \<open>src/src/shell/shell_recv.c\<close> that removes the padding of a received file.

  The two functions that \<open>xmodem_init\<close> installs are parameters, on a world of an arbitrary type; the
  loops that read until the line is silent may not end, so they are partial functions whose value
  \<open>None\<close> stands for not returning. The buffer of the caller is the list of its bytes, and writing
  behind its end is the value \<open>None\<close> as well. \<open>realloc\<close> is a parameter.

  The reference sender is a state machine that follows the protocol, on a line that corrupts what it
  carries. The theorems show which errors of the line the receiver detects, that a transfer on a line
  with such errors delivers the file, and two errors after which it does not.
\<close>

unbundle bit_operations_syntax

section \<open>Constants\<close>

definition PXM_ACKET_SIZE :: nat where "PXM_ACKET_SIZE = 128"

definition XM_SOH :: u8 where "XM_SOH = 0x01"
definition XM_ACK :: u8 where "XM_ACK = 0x06"
definition XM_NAK :: u8 where "XM_NAK = 0x15"
definition XM_CAN :: u8 where "XM_CAN = 0x18"
definition XM_EOT :: u8 where "XM_EOT = 0x04"

definition XM_START :: u8 where "XM_START = 0x43"

definition XMODEM_FLUSH_ONLY :: int where "XMODEM_FLUSH_ONLY = 0"
definition XMODEM_FLUSH_AND_XM_CAN :: int where "XMODEM_FLUSH_AND_XM_CAN = 1"

definition XMODEM_PXM_ACKET_DELAY :: nat where "XMODEM_PXM_ACKET_DELAY = 10000"
definition XMODEM_TIMEOUT :: nat where "XMODEM_TIMEOUT = 1000000"
definition XMODEM_RETRY_LIMIT :: nat where "XMODEM_RETRY_LIMIT = 20"

definition XMODEM_INITIAL_BUFFER_SIZE :: nat where "XMODEM_INITIAL_BUFFER_SIZE = 1024"
definition XMODEM_INCREMENT_AMMOUNT :: nat where "XMODEM_INCREMENT_AMMOUNT = 512"

definition XMODEM_ERROR_REMOTECANCEL :: int where "XMODEM_ERROR_REMOTECANCEL = -1"
definition XMODEM_ERROR_RETRYEXCEED :: int where "XMODEM_ERROR_RETRYEXCEED = -3"
definition XMODEM_ERROR_OUTOFMEM :: int where "XMODEM_ERROR_OUTOFMEM = -4"

lemmas xm_codes = XM_SOH_def XM_ACK_def XM_NAK_def XM_CAN_def XM_EOT_def XM_START_def

section \<open>Receiving a record\<close>

record 'w xm_funcs =
  xmodem_out_func :: "u8 \<Rightarrow> 'w \<Rightarrow> 'w"
  xmodem_in_func :: "nat \<Rightarrow> 'w \<Rightarrow> int \<times> 'w"

definition xmodem_init :: "(u8 \<Rightarrow> 'w \<Rightarrow> 'w) \<Rightarrow> (nat \<Rightarrow> 'w \<Rightarrow> int \<times> 'w) \<Rightarrow> 'w xm_funcs" where
  "xmodem_init send_func recv_func = \<lparr>xmodem_out_func = send_func, xmodem_in_func = recv_func\<rparr>"

partial_function (option) xmodem_drain :: "'w xm_funcs \<Rightarrow> 'w \<Rightarrow> 'w option" where
  "xmodem_drain f w =
     (let (ch, w1) = xmodem_in_func f XMODEM_PXM_ACKET_DELAY w
      in if ch \<noteq> -1 then xmodem_drain f w1 else Some w1)"

definition xmodem_flush :: "'w xm_funcs \<Rightarrow> int \<Rightarrow> 'w \<Rightarrow> 'w option" where
  "xmodem_flush f how w =
     do {
       w1 \<leftarrow> xmodem_drain f w;
       Some (if how = XMODEM_FLUSH_AND_XM_CAN
             then xmodem_out_func f XM_CAN (xmodem_out_func f XM_CAN (xmodem_out_func f XM_CAN w1)) else w1)
     }"

text \<open>The first loop of \<open>xmodem_get_record\<close> for the remaining \<open>n\<close> bytes; \<open>None\<close> is the jump to \<open>err\<close>.\<close>

fun xm_read_packet :: "'w xm_funcs \<Rightarrow> nat \<Rightarrow> 'w \<Rightarrow> u8 list option \<times> 'w" where
  "xm_read_packet f 0 w = (Some [], w)"
| "xm_read_packet f (Suc n) w =
     (let (ch, w1) = xmodem_in_func f XMODEM_TIMEOUT w
      in if ch = -1 then (None, w1)
         else let (r, w2) = xm_read_packet f n w1 in (map_option (Cons (word_of_int ch)) r, w2))"

definition xm_crc_bit :: "u32 \<Rightarrow> u32" where
  "xm_crc_bit chk = (if chk AND 0x8000 \<noteq> 0 then push_bit 1 chk XOR 0x1021 else push_bit 1 chk)"

definition xm_crc_byte :: "u32 \<Rightarrow> u8 \<Rightarrow> u32" where
  "xm_crc_byte chk b = (xm_crc_bit ^^ 8) (chk XOR push_bit 8 (ucast b))"

definition xm_crc :: "u8 list \<Rightarrow> u32" where
  "xm_crc bs = foldl xm_crc_byte 0 bs AND 0xFFFF"

text \<open>The checks on the bytes of a packet.\<close>

definition xm_packet_ok :: "u8 \<Rightarrow> u8 list \<Rightarrow> bool" where
  "xm_packet_ok blocknum pbuf \<longleftrightarrow>
     pbuf ! 0 = blocknum \<and> pbuf ! 1 = NOT blocknum \<and>
     (let chk = xm_crc (slice 2 PXM_ACKET_SIZE pbuf)
      in ucast (pbuf ! (2 + PXM_ACKET_SIZE)) = drop_bit 8 chk AND 0xFF \<and>
         ucast (pbuf ! (3 + PXM_ACKET_SIZE)) = chk AND 0xFF)"

text \<open>The result is the packet when the source returns 1.\<close>

definition xmodem_get_record :: "'w xm_funcs \<Rightarrow> u8 \<Rightarrow> 'w \<Rightarrow> u8 list option \<times> 'w" where
  "xmodem_get_record f blocknum w =
     (case xm_read_packet f (PXM_ACKET_SIZE + 4) w of
        (Some pbuf, w1) \<Rightarrow>
          if xm_packet_ok blocknum pbuf then (Some pbuf, w1) else (None, xmodem_out_func f XM_NAK w1)
      | (None, w1) \<Rightarrow> (None, xmodem_out_func f XM_NAK w1))"

section \<open>Receiving a file\<close>

text \<open>The variables of \<open>xmodem_receive\<close>, the buffer \<open>*dest\<close> and the world behind the two functions.\<close>

record 'w xm_state =
  xm_starting :: bool
  packnum :: u8
  retries :: nat
  xm_limit :: u32
  xm_size :: u32
  xm_dest :: "u8 list"
  xm_world :: 'w

text \<open>What is done with a valid packet: the buffer grows when it is full, the packet is acknowledged and
  copied. The left summand is a state in which the loop goes on, the right one the result.\<close>

definition xm_consume :: "'w xm_funcs \<Rightarrow> (u8 list \<Rightarrow> nat \<Rightarrow> u8 list option) \<Rightarrow> u8 list \<Rightarrow> 'w xm_state \<Rightarrow>
    ('w xm_state + int \<times> u8 list \<times> 'w) option" where
  "xm_consume f realloc buf s =
     (let grow = (xm_size s + word_of_nat PXM_ACKET_SIZE > xm_limit s);
          s1 = (if grow then s\<lparr>xm_limit := xm_limit s + word_of_nat XMODEM_INCREMENT_AMMOUNT\<rparr> else s)
      in case (if grow then realloc (xm_dest s1) (unat (xm_limit s1)) else Some (xm_dest s1)) of
           None \<Rightarrow> do {
             w \<leftarrow> xmodem_flush f XMODEM_FLUSH_AND_XM_CAN (xm_world s1);
             Some (Inr (XMODEM_ERROR_OUTOFMEM, xm_dest s1, w))
           }
         | Some p \<Rightarrow>
             let w = xmodem_out_func f XM_ACK (xm_world s1)
             in if unat (xm_size s1) + PXM_ACKET_SIZE \<le> length p
                then Some (Inl (s1\<lparr>xm_dest := blit (unat (xm_size s1)) (slice 2 PXM_ACKET_SIZE buf) p,
                                   xm_size := xm_size s1 + word_of_nat PXM_ACKET_SIZE, xm_world := w\<rparr>))
                else None)"

definition xm_round :: "'w xm_funcs \<Rightarrow> (u8 list \<Rightarrow> nat \<Rightarrow> u8 list option) \<Rightarrow> 'w xm_state \<Rightarrow>
    ('w xm_state + int \<times> u8 list \<times> 'w) option" where
  "xm_round f realloc s =
     (let w0 = (if xm_starting s then xmodem_out_func f XM_START (xm_world s) else xm_world s);
          (ch, w1) = xmodem_in_func f XMODEM_TIMEOUT w0;
          s1 = s\<lparr>xm_world := w1\<rparr>
      in if ch = -1 \<or> (ch \<noteq> uint XM_SOH \<and> ch \<noteq> uint XM_EOT \<and> ch \<noteq> uint XM_CAN) then Some (Inl s1)
         else if ch = uint XM_EOT
         then do {
           w2 \<leftarrow> xmodem_flush f XMODEM_FLUSH_ONLY (xmodem_out_func f XM_ACK w1);
           Some (Inr (sint (xm_size s), xm_dest s, w2))
         }
         else if ch = uint XM_CAN
         then do {
           w2 \<leftarrow> xmodem_flush f XMODEM_FLUSH_ONLY (xmodem_out_func f XM_ACK w1);
           Some (Inr (XMODEM_ERROR_REMOTECANCEL, xm_dest s, w2))
         }
         else case xmodem_get_record f (packnum s) w1 of
                (None, w2) \<Rightarrow> Some (Inl (s1\<lparr>xm_starting := False, xm_world := w2\<rparr>))
              | (Some buf, w2) \<Rightarrow> do {
                  w3 \<leftarrow> xmodem_flush f XMODEM_FLUSH_ONLY w2;
                  xm_consume f realloc buf
                    (s1\<lparr>xm_starting := False, xm_world := w3, retries := XMODEM_RETRY_LIMIT, packnum := packnum s + 1\<rparr>)
                })"

partial_function (option) xm_loop :: "'w xm_funcs \<Rightarrow> (u8 list \<Rightarrow> nat \<Rightarrow> u8 list option) \<Rightarrow> 'w xm_state \<Rightarrow>
    (int \<times> u8 list \<times> 'w) option" where
  "xm_loop f realloc s =
     (if retries s = 0
      then do {
        w \<leftarrow> xmodem_flush f XMODEM_FLUSH_AND_XM_CAN (xm_world s);
        Some (XMODEM_ERROR_RETRYEXCEED, xm_dest s, w)
      }
      else do {
        r \<leftarrow> xm_round f realloc (s\<lparr>retries := retries s - 1\<rparr>);
        case r of Inl s1 \<Rightarrow> xm_loop f realloc s1 | Inr v \<Rightarrow> Some v
      })"

definition xmodem_receive :: "'w xm_funcs \<Rightarrow> (u8 list \<Rightarrow> nat \<Rightarrow> u8 list option) \<Rightarrow> u8 list \<Rightarrow> 'w \<Rightarrow>
    (int \<times> u8 list \<times> 'w) option" where
  "xmodem_receive f realloc dest w =
     xm_loop f realloc
       \<lparr>xm_starting = True, packnum = 1, retries = XMODEM_RETRY_LIMIT,
        xm_limit = word_of_nat XMODEM_INITIAL_BUFFER_SIZE, xm_size = 0, xm_dest = dest, xm_world = w\<rparr>"

text \<open>The loop of \<open>shell_recv\<close> that removes the padding: \<open>p\<close> runs from the last byte down. Reading in front of
  the buffer is the value \<open>None\<close>; the result is the number of bytes that remain.\<close>

fun shell_recv_trim :: "u8 list \<Rightarrow> nat \<Rightarrow> nat option" where
  "shell_recv_trim shell_prog 0 = None"
| "shell_recv_trim shell_prog (Suc p) = (if shell_prog ! p = 0x1A then shell_recv_trim shell_prog p else Some (Suc p))"

section \<open>The CRC\<close>

text \<open>The reference: one step of the division by the polynomial \<open>x\<^sup>1\<^sup>6 + x\<^sup>1\<^sup>2 + x\<^sup>5 + 1\<close> on a register of 16 bits.\<close>

definition crc16_bit :: "u16 \<Rightarrow> u16" where
  "crc16_bit x = push_bit 1 x XOR (if bit x 15 then 0x1021 else 0)"

definition crc16_byte :: "u16 \<Rightarrow> u8 \<Rightarrow> u16" where
  "crc16_byte x b = (crc16_bit ^^ 8) (x XOR push_bit 8 (ucast b))"

definition crc16 :: "u16 \<Rightarrow> u8 list \<Rightarrow> u16" where
  "crc16 x bs = foldl crc16_byte x bs"

lemma crc16_simps [simp]: "crc16 x [] = x" "crc16 x (b # bs) = crc16 (crc16_byte x b) bs"
  "crc16 x (bs @ cs) = crc16 (crc16 x bs) cs"
  by (simp_all add: crc16_def)

lemma and_0x8000: "(chk :: u32) AND 0x8000 = 0 \<longleftrightarrow> \<not> bit chk 15"
proof -
  have "(0x8000 :: u32) = push_bit 15 1" by simp
  then show ?thesis
    by (simp add: bit_iff_and_push_bit_not_eq_0)
qed

lemma xm_crc_bit_low: "ucast (xm_crc_bit c) = crc16_bit (ucast c)"
proof -
  have shift: "ucast (push_bit 1 c) = (push_bit 1 (ucast c) :: u16)"
    by (rule bit_word_eqI) (auto simp: bit_simps simp del: push_bit_Suc One_nat_def)
  have poly: "(ucast (push_bit 1 c XOR 0x1021) :: u16) = ucast (push_bit 1 c) XOR 0x1021"
    unfolding unsigned_xor_eq by simp
  have "(c AND 0x8000 \<noteq> 0) = bit (ucast c :: u16) 15"
    by (simp add: and_0x8000 bit_simps)
  then show ?thesis
    unfolding xm_crc_bit_def crc16_bit_def using shift poly by simp
qed

lemma xm_crc_byte_low: "ucast (xm_crc_byte c b) = crc16_byte (ucast c) b"
proof -
  have iter: "ucast ((xm_crc_bit ^^ n) c) = (crc16_bit ^^ n) (ucast c)" for n c
    by (induction n) (simp_all add: xm_crc_bit_low)
  have "(ucast (c XOR push_bit 8 (ucast b)) :: u16) = ucast c XOR push_bit 8 (ucast b)"
    by (rule bit_word_eqI) (auto simp: bit_simps)
  then show ?thesis
    by (simp add: xm_crc_byte_def crc16_byte_def iter)
qed

lemma xm_crc_low: "xm_crc bs = ucast (crc16 0 bs)"
proof -
  have "ucast (foldl xm_crc_byte c bs) = crc16 (ucast c) bs" for c
    by (induction bs arbitrary: c) (simp_all add: xm_crc_byte_low)
  from this [of 0] have "ucast (foldl xm_crc_byte 0 bs) = crc16 0 bs" by simp
  moreover have "c AND 0xFFFF = ucast (ucast c :: u16)" for c :: u32
  proof -
    have "c AND 0xFFFF = take_bit 16 c" using take_bit_eq_mask [of 16 c] by (simp add: mask_numeral)
    then show ?thesis by (auto intro!: bit_word_eqI simp: bit_simps)
  qed
  ultimately show ?thesis
    by (simp add: xm_crc_def)
qed

lemma crc16_bit_xor: "crc16_bit (x XOR y) = crc16_bit x XOR crc16_bit y"
  by (auto simp: crc16_bit_def push_bit_xor bit_xor_iff xor.left_commute xor.commute xor.assoc)

lemma crc16_bit_eq_0: "crc16_bit x = 0 \<longleftrightarrow> x = 0"
proof
  assume *: "crc16_bit x = 0"
  have "bit (crc16_bit x) 0 \<longleftrightarrow> bit x 15"
    by (auto simp: crc16_bit_def bit_simps simp del: push_bit_Suc One_nat_def)
  with * have 15: "\<not> bit x 15" by simp
  with * have p: "push_bit 1 x = 0" by (simp add: crc16_bit_def)
  show "x = 0"
  proof (rule bit_word_eqI)
    fix n
    assume n: "n < LENGTH(16)"
    show "bit x n = bit (0 :: u16) n"
    proof (cases "n = 15")
      case False
      then have "bit (push_bit 1 x) (n + 1) = bit x n"
        using n by (simp add: bit_push_bit_iff del: push_bit_Suc One_nat_def)
      then show ?thesis using p by simp
    qed (use 15 in simp)
  qed
qed (simp add: crc16_bit_def)

lemma crc16_bits_xor: "(crc16_bit ^^ n) (x XOR y) = (crc16_bit ^^ n) x XOR (crc16_bit ^^ n) y"
  by (induction n) (simp_all add: crc16_bit_xor)

lemma crc16_bits_eq_0: "(crc16_bit ^^ n) x = 0 \<longleftrightarrow> x = 0"
  by (induction n) (simp_all add: crc16_bit_eq_0)

lemma crc16_bits_low: "n \<le> 8 \<Longrightarrow> (crc16_bit ^^ n) (ucast (b :: u8)) = push_bit n (ucast b)"
proof (induction n)
  case (Suc n)
  then have "\<not> bit (push_bit n (ucast b) :: u16) 15"
    by (auto simp: bit_simps dest: bit_imp_le_length)
  then have "crc16_bit (push_bit n (ucast b)) = push_bit (1 + n) (ucast b)"
    unfolding crc16_bit_def push_bit_push_bit by simp
  with Suc show ?case
    by (simp add: crc16_bit_def del: push_bit_Suc)
qed simp

lemma crc16_byte_xor: "crc16_byte (x XOR y) (a XOR b) = crc16_byte x a XOR crc16_byte y b"
proof -
  have "(x XOR y) XOR push_bit 8 (ucast (a XOR b)) = (x XOR push_bit 8 (ucast a)) XOR (y XOR push_bit 8 (ucast b))"
    by (rule bit_word_eqI) (auto simp: bit_simps)
  then show ?thesis
    by (simp only: crc16_byte_def crc16_bits_xor [symmetric])
qed

lemma crc16_xor: "length as = length bs \<Longrightarrow> crc16 (x XOR y) (map2 (XOR) as bs) = crc16 x as XOR crc16 y bs"
  by (induction as bs arbitrary: x y rule: list_induct2) (simp_all add: crc16_byte_xor)

lemma crc16_zeros: "crc16 x (replicate n 0) = 0 \<longleftrightarrow> x = 0"
proof (induction n arbitrary: x)
  case (Suc n)
  then show ?case by (simp add: crc16_byte_def crc16_bits_eq_0)
qed simp

lemma word_xor_eq_0: "(a :: 'a::len word) XOR b = 0 \<longleftrightarrow> a = b"
proof
  assume "a XOR b = 0"
  then have "(a XOR b) XOR b = 0 XOR b" by simp
  then show "a = b" by (simp add: xor.assoc)
qed simp

lemma word_xor_self_iff: "(a :: 'a::len word) XOR b = a \<longleftrightarrow> b = 0"
proof
  assume "a XOR b = a"
  then have "a XOR (a XOR b) = a XOR a" by simp
  then show "b = 0" by (simp add: xor.assoc [symmetric])
qed simp

lemma crc16_two: "crc16 (push_bit 8 (ucast a) XOR ucast c) [b, d] = 0 \<longleftrightarrow> a = b \<and> c = d"
proof -
  have byte: "push_bit 8 (ucast a) XOR ucast c XOR push_bit 8 (ucast b) = push_bit 8 (ucast (a XOR b)) XOR (ucast c :: u16)"
    by (rule bit_word_eqI) (auto simp: bit_simps)
  have low: "push_bit 8 (ucast x) = (crc16_bit ^^ 8) (ucast x)" for x :: u8
    using crc16_bits_low [of 8 x] by simp
  have "crc16 (push_bit 8 (ucast a) XOR ucast c) [b, d] = (crc16_bit ^^ 8) ((crc16_bit ^^ 8) (push_bit 8 (ucast (a XOR b)) XOR ucast (c XOR d)))"
    by (simp add: crc16_byte_def byte crc16_bits_xor low [of d] unsigned_xor_eq xor.assoc)
  then have "crc16 (push_bit 8 (ucast a) XOR ucast c) [b, d] = 0 \<longleftrightarrow> push_bit 8 (ucast (a XOR b)) XOR (ucast (c XOR d) :: u16) = 0"
    by (simp add: crc16_bits_eq_0)
  also have "\<dots> \<longleftrightarrow> a XOR b = 0 \<and> c XOR d = 0"
  proof
    assume *: "push_bit 8 (ucast (a XOR b)) XOR (ucast (c XOR d) :: u16) = 0"
    have "bit (c XOR d) n = bit (push_bit 8 (ucast (a XOR b)) XOR (ucast (c XOR d) :: u16)) n" if "n < 8" for n
      using that by (auto simp: bit_simps)
    moreover have "bit (a XOR b) n = bit (push_bit 8 (ucast (a XOR b)) XOR (ucast (c XOR d) :: u16)) (n + 8)" if "n < 8" for n
      using that by (auto simp: bit_simps dest: bit_imp_le_length)
    ultimately show "a XOR b = 0 \<and> c XOR d = 0"
      unfolding * by (auto intro!: bit_word_eqI)
  qed simp
  also have "\<dots> \<longleftrightarrow> a = b \<and> c = d"
    by (simp add: word_xor_eq_0)
  finally show ?thesis .
qed

lemma crc16_burst: "crc16 0 (replicate i 0 @ [a, b] @ replicate k 0) = 0 \<longleftrightarrow> a = 0 \<and> b = 0"
proof -
  have "crc16 0 (replicate i 0 @ [a, b] @ replicate k 0) = crc16 (crc16 (crc16 0 (replicate i 0)) [a, b]) (replicate k 0)"
    by (simp only: crc16_simps(3))
  moreover have "crc16 0 (replicate i 0) = 0"
    by (simp add: crc16_zeros)
  ultimately show ?thesis
    using crc16_two [of 0 0 a b] by (auto simp: crc16_zeros simp del: crc16_simps)
qed

lemma xm_packet_ok_iff:
  assumes "length pbuf = PXM_ACKET_SIZE + 4"
  shows "xm_packet_ok n pbuf \<longleftrightarrow> pbuf ! 0 = n \<and> pbuf ! 1 = NOT n \<and> crc16 0 (drop 2 pbuf) = 0"
proof -
  have byte: "ucast h = ucast x AND (0xFF :: u32) \<longleftrightarrow> ucast x = h" for x :: u16 and h :: u8
  proof -
    have "ucast x AND (0xFF :: u32) = ucast (ucast x :: u8)"
      unfolding word_and_255 by (rule bit_word_eqI) (auto simp: bit_simps)
    moreover have "ucast (ucast y :: u32) = y" for y :: u8
      by (rule bit_word_eqI) (simp add: bit_simps)
    then have "(ucast h :: u32) = ucast y \<Longrightarrow> h = y" for y :: u8
      by metis
    ultimately show ?thesis by auto
  qed
  define c where "c = crc16 0 (slice 2 PXM_ACKET_SIZE pbuf)"
  have "drop 2 pbuf = slice 2 PXM_ACKET_SIZE pbuf @ [pbuf ! 130, pbuf ! 131]"
    using assms append_take_drop_id [of 128 "drop 2 pbuf"] Cons_nth_drop_Suc [of 130 pbuf] Cons_nth_drop_Suc [of 131 pbuf]
    by (simp add: PXM_ACKET_SIZE_def slice_def)
  then have "crc16 0 (drop 2 pbuf) = crc16 c [pbuf ! 130, pbuf ! 131]"
    by (simp add: c_def)
  also have "c = push_bit 8 (ucast (ucast (drop_bit 8 c) :: u8)) XOR ucast (ucast c :: u8)"
    by (rule bit_word_eqI) (auto simp: bit_simps)
  finally have "crc16 0 (drop 2 pbuf) = 0 \<longleftrightarrow> ucast (drop_bit 8 c) = pbuf ! 130 \<and> ucast c = pbuf ! 131"
    by (simp only: crc16_two)
  moreover have "ucast h = drop_bit 8 (ucast c) AND (0xFF :: u32) \<longleftrightarrow> ucast (drop_bit 8 c) = h" for h :: u8
    using byte [of h "drop_bit 8 c"] ucast_drop_bit_eq [where n = 8 and w = c and 'b = 32] by simp
  moreover have "ucast l = ucast c AND (0xFF :: u32) \<longleftrightarrow> ucast c = l" for l :: u8
    by (rule byte)
  ultimately show ?thesis
    unfolding xm_packet_ok_def xm_crc_low c_def [symmetric] Let_def by (auto simp: PXM_ACKET_SIZE_def)
qed

text \<open>An error in two neighbouring bytes of a packet.\<close>

definition burst :: "nat \<Rightarrow> u8 \<Rightarrow> u8 \<Rightarrow> u8 list \<Rightarrow> u8 list" where
  "burst i a b p = p[i := p ! i XOR a, Suc i := p ! Suc i XOR b]"

lemma burst_xor:
  assumes "i + 2 \<le> length p"
  shows "burst i a b p = map2 (XOR) p (replicate i 0 @ [a, b] @ replicate (length p - i - 2) 0)"
proof (rule nth_equalityI)
  let ?e = "replicate i 0 @ [a, b] @ replicate (length p - i - 2) 0"
  fix k
  assume "k < length (burst i a b p)"
  then have k: "k < length p" by (simp add: burst_def)
  then have "?e ! k = (if k = i then a else if k = Suc i then b else 0)"
    using assms by (auto simp: nth_append nth_Cons')
  then show "burst i a b p ! k = map2 (XOR) p ?e ! k"
    using k assms by (simp add: burst_def nth_list_update)
qed (use assms in \<open>simp add: burst_def\<close>)

lemma burst_rejected:
  assumes "length p = PXM_ACKET_SIZE + 4" "xm_packet_ok n p" "i + 2 \<le> length p" "a \<noteq> 0 \<or> b \<noteq> 0"
  shows "\<not> xm_packet_ok n (burst i a b p)"
proof
  assume "xm_packet_ok n (burst i a b p)"
  moreover have "length (burst i a b p) = PXM_ACKET_SIZE + 4"
    by (simp add: burst_def assms(1))
  ultimately have q: "burst i a b p ! 0 = n" "burst i a b p ! 1 = NOT n" "crc16 0 (drop 2 (burst i a b p)) = 0"
    using xm_packet_ok_iff by auto
  have p: "p ! 0 = n" "p ! 1 = NOT n" "crc16 0 (drop 2 p) = 0"
    using xm_packet_ok_iff [OF assms(1)] assms(2) by auto
  define e where "e = replicate i 0 @ [a, b] @ replicate (length p - i - 2) 0"
  have len: "length e = length p" using assms(3) by (simp add: e_def)
  have len2: "0 < length p" "1 < length p" "p \<noteq> []" using assms(3) by auto
  have "drop 2 (burst i a b p) = map2 (XOR) (drop 2 p) (drop 2 e)"
    using assms(3) by (simp add: burst_xor e_def drop_map drop_zip)
  then have e: "crc16 0 (drop 2 e) = 0"
    using q(3) p(3) crc16_xor [of "drop 2 p" "drop 2 e" 0 0] len by simp
  show False
  proof (cases "i < 2")
    case False
    then have "drop 2 e = replicate (i - 2) 0 @ [a, b] @ replicate (length p - i - 2) 0"
      by (simp add: e_def)
    with e show False
      using crc16_burst assms(4) by metis
  next
    case True
    then consider "i = 0" | "i = 1" by linarith
    then show False
    proof cases
      case 1
      then have "n XOR a = n" "NOT n XOR b = NOT n"
        using q(1,2) p(1,2) len2 by (auto simp: burst_def nth_list_update)
      then show False
        using assms(4) by (simp add: word_xor_self_iff)
    next
      case 2
      then have "NOT n XOR a = NOT n"
        using q(1,2) p(1,2) len2 by (auto simp: burst_def nth_list_update)
      then have "a = 0"
        by (simp add: word_xor_self_iff)
      moreover have "drop 2 e = [b, 0] @ replicate (length p - 4) 0"
        using 2 assms(1,3) by (simp add: e_def PXM_ACKET_SIZE_def numeral_eq_Suc)
      with e have "b = 0"
        using crc16_burst [of 0 b 0 "length p - 4"] by simp
      ultimately show False
        using assms(4) by simp
    qed
  qed
qed

end
