(* ===== verification/Xmodem_Transfer.thy ===== *)
theory Xmodem_Transfer
  imports Xmodem
begin

text \<open>
  Transfers with the receiver of the theory \<open>Xmodem\<close>. What the receiver needs from the line is a locale;
  the sender that follows the protocol, on a line with errors, is an instance of it.
\<close>

unbundle bit_operations_syntax

section \<open>The receiver on a line\<close>

lemma uint_not_neg [simp]: "uint (w :: 'a::len word) \<noteq> -1"
  using uint_ge_0 [of w] by linarith

text \<open>The bytes that are on the line are read in order, and reading from a silent line times out.\<close>

locale serial_line =
  fixes f :: "'w xm_funcs"
    and line :: "'w \<Rightarrow> u8 list"
    and put_line :: "u8 list \<Rightarrow> 'w \<Rightarrow> 'w"
  assumes in_empty: "line w = [] \<Longrightarrow> xmodem_in_func f t w = (-1, w)"
    and in_byte: "line w = b # bs \<Longrightarrow> xmodem_in_func f t w = (uint b, put_line bs w)"
    and line_put: "line (put_line bs w) = bs"
    and put_put: "put_line bs (put_line cs w) = put_line bs w"
    and put_same: "put_line (line w) w = w"
begin

lemma drain: "xmodem_drain f w = Some (put_line [] w)"
proof (induction "line w" arbitrary: w)
  case Nil
  then show ?case
    using in_empty [of w] put_same [of w] by (subst xmodem_drain.simps) simp
next
  case (Cons b bs)
  then show ?case
    using in_byte [of w b bs] Cons.hyps(1) [of "put_line bs w"]
    by (subst xmodem_drain.simps) (auto simp: line_put put_put)
qed

lemma read_packet: "line w = p @ rest \<Longrightarrow> xm_read_packet f (length p) w = (Some p, put_line rest w)"
proof (induction p arbitrary: w)
  case Nil
  then show ?case using put_same [of w] by simp
next
  case (Cons b p)
  then show ?case
    using in_byte [of w b "p @ rest"] Cons.IH [of "put_line (p @ rest) w"] by (auto simp: line_put put_put)
qed

text \<open>The world in which a round of the receiver reads its first byte.\<close>

definition entry :: "'w xm_state \<Rightarrow> 'w" where
  "entry s = (if xm_starting s then xmodem_out_func f XM_START (xm_world s) else xm_world s)"

lemma round_garbage:
  assumes "line (entry s) = g # rest" "g \<noteq> XM_SOH" "g \<noteq> XM_EOT" "g \<noteq> XM_CAN"
  shows "xm_round f ra s = Some (Inl (s\<lparr>xm_world := put_line rest (entry s)\<rparr>))"
  using in_byte [OF assms(1)] assms(2-4)
  by (auto simp: xm_round_def entry_def [symmetric] Let_def uint_word_ariths word_uint_eq_iff)

lemma round_eot:
  assumes "line (entry s) = XM_EOT # rest"
  shows "xm_round f ra s =
    Some (Inr (sint (xm_size s), xm_dest s, put_line [] (xmodem_out_func f XM_ACK (put_line rest (entry s)))))"
  using in_byte [OF assms]
  by (auto simp: xm_round_def entry_def [symmetric] Let_def xmodem_flush_def drain XMODEM_FLUSH_ONLY_def XMODEM_FLUSH_AND_XM_CAN_def
      xm_codes)

lemma get_record:
  assumes "line w = p @ rest" "length p = PXM_ACKET_SIZE + 4"
  shows "xmodem_get_record f n w =
    (if xm_packet_ok n p then (Some p, put_line rest w) else (None, xmodem_out_func f XM_NAK (put_line rest w)))"
  using read_packet [OF assms(1)] by (simp add: xmodem_get_record_def assms(2))

lemma round_bad:
  assumes "line (entry s) = XM_SOH # p @ rest" "length p = PXM_ACKET_SIZE + 4" "\<not> xm_packet_ok (packnum s) p"
  shows "xm_round f ra s = Some (Inl (s\<lparr>xm_starting := False, xm_world := xmodem_out_func f XM_NAK (put_line rest (entry s))\<rparr>))"
  using in_byte [OF assms(1)] get_record [of "put_line (p @ rest) (entry s)" p rest "packnum s"] assms(2,3)
  by (simp add: xm_round_def entry_def [symmetric] Let_def line_put put_put xm_codes)

lemma round_good:
  assumes "line (entry s) = XM_SOH # p @ rest" "length p = PXM_ACKET_SIZE + 4" "xm_packet_ok (packnum s) p"
  shows "xm_round f ra s = xm_consume f ra p
    (s\<lparr>xm_starting := False, xm_world := put_line [] (entry s), retries := XMODEM_RETRY_LIMIT, packnum := packnum s + 1\<rparr>)"
  using in_byte [OF assms(1)] get_record [of "put_line (p @ rest) (entry s)" p rest "packnum s"] assms(2,3)
  by (simp add: xm_round_def entry_def [symmetric] Let_def line_put put_put xm_codes xmodem_flush_def drain
      XMODEM_FLUSH_ONLY_def XMODEM_FLUSH_AND_XM_CAN_def)

lemma loop_exceeded:
  assumes "retries s = 0"
  shows "\<exists>w. xm_loop f ra s = Some (XMODEM_ERROR_RETRYEXCEED, xm_dest s, w)"
  using assms by (subst xm_loop.simps) (simp add: xmodem_flush_def drain)

end

lemma xm_loop_round:
  "retries s \<noteq> 0 \<Longrightarrow> xm_round f ra (s\<lparr>retries := retries s - 1\<rparr>) = Some (Inl s') \<Longrightarrow> xm_loop f ra s = xm_loop f ra s'"
  "retries s \<noteq> 0 \<Longrightarrow> xm_round f ra (s\<lparr>retries := retries s - 1\<rparr>) = Some (Inr v) \<Longrightarrow> xm_loop f ra s = Some v"
  by (subst xm_loop.simps, simp)+

section \<open>The sender\<close>

text \<open>What the line does to a frame: nothing, an error in two neighbouring bytes of the packet, or an error in
  the byte in front of it.\<close>

datatype noise = Clean | Burst nat u8 u8 | Soh u8

text \<open>The blocks that are not yet acknowledged and the number of the first, the bytes on the line, the errors
  of the frames to come, and which of the replies to come do not reach the sender.\<close>

record sender =
  snd_blocks :: "u8 list list"
  snd_num :: u8
  snd_line :: "u8 list"
  snd_noise :: "noise list"
  snd_lost :: "bool list"

definition xm_packet :: "u8 \<Rightarrow> u8 list \<Rightarrow> u8 list" where
  "xm_packet n data = n # NOT n # data @ [ucast (drop_bit 8 (crc16 0 data)), ucast (crc16 0 data)]"

fun distort :: "noise \<Rightarrow> u8 list \<Rightarrow> u8 list" where
  "distort Clean p = XM_SOH # p"
| "distort (Burst i a b) p = XM_SOH # burst i a b p"
| "distort (Soh g) p = (XM_SOH XOR g) # p"

definition next_noise :: "sender \<Rightarrow> noise" where
  "next_noise st = (case snd_noise st of [] \<Rightarrow> Clean | x # _ \<Rightarrow> x)"

definition snd_transmit :: "sender \<Rightarrow> sender" where
  "snd_transmit st =
     (case snd_blocks st of
        [] \<Rightarrow> st\<lparr>snd_line := snd_line st @ [XM_EOT]\<rparr>
      | b # _ \<Rightarrow> st\<lparr>snd_line := snd_line st @ distort (next_noise st) (xm_packet (snd_num st) b),
                   snd_noise := tl (snd_noise st)\<rparr>)"

text \<open>A reply that is lost makes the sender repeat its frame after a while.\<close>

definition snd_out :: "u8 \<Rightarrow> sender \<Rightarrow> sender" where
  "snd_out c st =
     (let lost = (snd_lost st \<noteq> [] \<and> hd (snd_lost st));
          st1 = st\<lparr>snd_lost := tl (snd_lost st)\<rparr>
      in if lost \<or> c = XM_NAK \<or> c = XM_START then snd_transmit st1
         else if c = XM_ACK \<and> snd_blocks st \<noteq> []
         then snd_transmit (st1\<lparr>snd_blocks := tl (snd_blocks st), snd_num := snd_num st + 1\<rparr>)
         else st1)"

definition snd_in :: "nat \<Rightarrow> sender \<Rightarrow> int \<times> sender" where
  "snd_in t st = (case snd_line st of [] \<Rightarrow> (-1, st) | b # bs \<Rightarrow> (uint b, st\<lparr>snd_line := bs\<rparr>))"

abbreviation snd_funcs :: "sender xm_funcs" where
  "snd_funcs \<equiv> xmodem_init snd_out snd_in"

lemma snd_funcs_simps [simp]: "xmodem_out_func snd_funcs = snd_out" "xmodem_in_func snd_funcs = snd_in"
  by (simp_all add: xmodem_init_def)

lemma snd_out_heard:
  "snd_lost st = [] \<Longrightarrow> snd_out c st =
    (if c = XM_NAK \<or> c = XM_START then snd_transmit st
     else if c = XM_ACK \<and> snd_blocks st \<noteq> []
     then snd_transmit (st\<lparr>snd_blocks := tl (snd_blocks st), snd_num := snd_num st + 1\<rparr>) else st)"
  by (cases st) (auto simp: snd_out_def Let_def)

interpretation snd: serial_line snd_funcs snd_line "\<lambda>bs st. st\<lparr>snd_line := bs\<rparr>"
  by unfold_locales (simp_all add: snd_in_def)

lemma length_xm_packet [simp]: "length data = PXM_ACKET_SIZE \<Longrightarrow> length (xm_packet n data) = PXM_ACKET_SIZE + 4"
  by (simp add: xm_packet_def)

lemma xm_packet_ok_packet: "length data = PXM_ACKET_SIZE \<Longrightarrow> xm_packet_ok m (xm_packet n data) \<longleftrightarrow> m = n"
proof -
  assume len: "length data = PXM_ACKET_SIZE"
  define c where "c = crc16 0 data"
  have "c = push_bit 8 (ucast (ucast (drop_bit 8 c) :: u8)) XOR ucast (ucast c :: u8)"
    by (rule bit_word_eqI) (auto simp: bit_simps)
  then have "crc16 c [ucast (drop_bit 8 c), ucast c] = 0"
    by (metis crc16_two)
  then have "crc16 0 (drop 2 (xm_packet n data)) = 0"
    unfolding xm_packet_def c_def [symmetric] by (simp add: c_def)
  with len show ?thesis
    by (auto simp: xm_packet_ok_iff xm_packet_def)
qed

lemma slice_xm_packet: "length data = PXM_ACKET_SIZE \<Longrightarrow> slice 2 PXM_ACKET_SIZE (xm_packet n data) = data"
  by (simp add: slice_def xm_packet_def)

section \<open>Transfers\<close>

text \<open>What the transfers below rely on of \<open>realloc\<close>: the block has the new size and keeps the old contents.\<close>

definition realloc_grows :: "(u8 list \<Rightarrow> nat \<Rightarrow> u8 list option) \<Rightarrow> bool" where
  "realloc_grows ra \<longleftrightarrow> (\<forall>b n. length b \<le> n \<longrightarrow> (\<exists>p. ra b n = Some p \<and> length p = n \<and> take (length b) p = b))"

text \<open>The receiver, about to read, and the sender, about to transmit, agree on the blocks that were delivered.\<close>

definition synced :: "sender xm_state \<Rightarrow> sender \<Rightarrow> u8 list \<Rightarrow> bool" where
  "synced s st got \<longleftrightarrow>
     snd.entry s = snd_transmit st \<and> snd_line st = [] \<and> snd_lost st = [] \<and> packnum s = snd_num st \<and> retries s \<noteq> 0 \<and>
     (\<forall>b\<in>set (snd_blocks st). length b = PXM_ACKET_SIZE) \<and>
     unat (xm_limit s) = length (xm_dest s) \<and> unat (xm_size s) \<le> length (xm_dest s) \<and>
     take (unat (xm_size s)) (xm_dest s) = got \<and>
     unat (xm_size s) + PXM_ACKET_SIZE * length (snd_blocks st) + XMODEM_INCREMENT_AMMOUNT < 2 ^ 31"

lemma xm_consume_ok:
  assumes "realloc_grows ra" "length data = PXM_ACKET_SIZE" "slice 2 PXM_ACKET_SIZE p = data"
    and "unat (xm_limit s) = length (xm_dest s)" "unat (xm_size s) \<le> length (xm_dest s)"
    and "unat (xm_size s) + PXM_ACKET_SIZE + XMODEM_INCREMENT_AMMOUNT < 2 ^ 31"
  shows "\<exists>l d. xm_consume f ra p s = Some (Inl (s\<lparr>xm_limit := l, xm_dest := d, xm_size := xm_size s + word_of_nat PXM_ACKET_SIZE,
      xm_world := xmodem_out_func f XM_ACK (xm_world s)\<rparr>)) \<and>
    unat l = length d \<and> unat (xm_size s) + PXM_ACKET_SIZE \<le> length d \<and>
    take (unat (xm_size s) + PXM_ACKET_SIZE) d = take (unat (xm_size s)) (xm_dest s) @ data"
proof -
  have size: "unat (xm_size s + word_of_nat PXM_ACKET_SIZE) = unat (xm_size s) + PXM_ACKET_SIZE"
    using assms(6) by (simp add: PXM_ACKET_SIZE_def unat_word_ariths)
  show ?thesis
  proof (cases "unat (xm_size s) + PXM_ACKET_SIZE > unat (xm_limit s)")
    case False
    then have "\<not> xm_size s + word_of_nat PXM_ACKET_SIZE > xm_limit s"
      by (simp add: word_less_nat_alt size)
    then show ?thesis
      using False assms by (intro exI [of _ "xm_limit s"] exI [of _ "blit (unat (xm_size s)) data (xm_dest s)"])
        (auto simp: xm_consume_def blit_def)
  next
    case True
    define l where "l = xm_limit s + word_of_nat XMODEM_INCREMENT_AMMOUNT"
    have l: "unat l = unat (xm_limit s) + XMODEM_INCREMENT_AMMOUNT"
      using True assms(6) by (simp add: XMODEM_INCREMENT_AMMOUNT_def PXM_ACKET_SIZE_def l_def unat_word_ariths)
    obtain q where q: "ra (xm_dest s) (unat l) = Some q" "length q = unat l" "take (length (xm_dest s)) q = xm_dest s"
      using assms(1,4) l unfolding realloc_grows_def by (metis le_add1)
    have grow: "xm_size s + word_of_nat PXM_ACKET_SIZE > xm_limit s"
      using True by (simp add: word_less_nat_alt size)
    have fits: "unat (xm_size s) + PXM_ACKET_SIZE \<le> length q"
      using assms(4,5) q(2) l by (simp add: XMODEM_INCREMENT_AMMOUNT_def PXM_ACKET_SIZE_def)
    have "take (unat (xm_size s)) q = take (unat (xm_size s)) (xm_dest s)"
      by (subst q(3) [symmetric]) (simp add: assms(5))
    then show ?thesis
      using grow q(1,2) fits assms(2,3,5)
      by (intro exI [of _ l] exI [of _ "blit (unat (xm_size s)) data q"]) (auto simp: xm_consume_def l_def [symmetric] blit_def)
  qed
qed

lemma snd_entry_retries [simp]: "snd.entry (s\<lparr>retries := r\<rparr>) = snd.entry s"
  by (simp add: snd.entry_def)

lemma synced_good:
  assumes ra: "realloc_grows ra" and s: "synced s st got" and b: "snd_blocks st = b # bs" and n: "next_noise st = Clean"
  shows "\<exists>s'. xm_loop snd_funcs ra s = xm_loop snd_funcs ra s' \<and> retries s' = XMODEM_RETRY_LIMIT \<and> \<not> xm_starting s' \<and>
    synced s' (st\<lparr>snd_noise := tl (snd_noise st), snd_blocks := bs, snd_num := snd_num st + 1\<rparr>) (got @ b)"
proof -
  let ?s = "s\<lparr>retries := retries s - 1\<rparr>"
  let ?st' = "st\<lparr>snd_noise := tl (snd_noise st), snd_blocks := bs, snd_num := snd_num st + 1\<rparr>"
  have len: "length b = PXM_ACKET_SIZE" using s b by (simp add: synced_def)
  have line: "snd_line (snd.entry ?s) = XM_SOH # xm_packet (snd_num st) b @ []"
    using s b n by (simp add: synced_def snd_transmit_def)
  have r: "xm_round snd_funcs ra ?s = xm_consume snd_funcs ra (xm_packet (snd_num st) b)
    (s\<lparr>xm_starting := False, xm_world := (snd.entry s)\<lparr>snd_line := []\<rparr>, retries := XMODEM_RETRY_LIMIT, packnum := packnum s + 1\<rparr>)"
    (is "_ = xm_consume _ _ _ ?s1")
    using snd.round_good [OF line, of ra] s by (simp add: len xm_packet_ok_packet synced_def)
  obtain l d where c: "xm_consume snd_funcs ra (xm_packet (snd_num st) b) ?s1 =
      Some (Inl (?s1\<lparr>xm_limit := l, xm_dest := d, xm_size := xm_size s + word_of_nat PXM_ACKET_SIZE, xm_world := snd_out XM_ACK (xm_world ?s1)\<rparr>))"
      "unat l = length d" "unat (xm_size s) + PXM_ACKET_SIZE \<le> length d"
      "take (unat (xm_size s) + PXM_ACKET_SIZE) d = got @ b"
    using xm_consume_ok [OF ra len slice_xm_packet [OF len], of ?s1 snd_funcs "snd_num st"] s b
    by (auto simp: synced_def PXM_ACKET_SIZE_def)
  define s' where "s' = ?s1\<lparr>xm_limit := l, xm_dest := d, xm_size := xm_size s + word_of_nat PXM_ACKET_SIZE,
    xm_world := snd_out XM_ACK (xm_world ?s1)\<rparr>"
  have loop: "xm_loop snd_funcs ra s = xm_loop snd_funcs ra s'"
    using s c(1) r by (intro xm_loop_round(1)) (auto simp: s'_def synced_def)
  have "(snd.entry s)\<lparr>snd_line := []\<rparr> = st\<lparr>snd_noise := tl (snd_noise st)\<rparr>"
    using s b by (simp add: synced_def snd_transmit_def)
  then have "snd.entry s' = snd_transmit ?st'"
    using s b by (simp add: s'_def snd.entry_def snd_out_heard synced_def xm_codes)
  moreover have "unat (xm_size s') = unat (xm_size s) + PXM_ACKET_SIZE"
    using s by (simp add: s'_def synced_def PXM_ACKET_SIZE_def unat_word_ariths)
  ultimately show ?thesis
    using s b c(2-4) loop by (intro exI [of _ s']) (auto simp: synced_def s'_def XMODEM_RETRY_LIMIT_def)
qed

lemma synced_bad:
  assumes s: "synced s st got" and b: "snd_blocks st = b # bs" and n: "next_noise st = Burst i x y"
    and noise: "i + 2 \<le> PXM_ACKET_SIZE + 4" "x \<noteq> 0 \<or> y \<noteq> 0" and r: "1 < retries s"
  shows "\<exists>s'. xm_loop snd_funcs ra s = xm_loop snd_funcs ra s' \<and> retries s' = retries s - 1 \<and>
    synced s' (st\<lparr>snd_noise := tl (snd_noise st)\<rparr>) got"
proof -
  let ?p = "xm_packet (snd_num st) b"
  define s' where "s' = s\<lparr>retries := retries s - 1, xm_starting := False, xm_world := snd_out XM_NAK (st\<lparr>snd_noise := tl (snd_noise st)\<rparr>)\<rparr>"
  have len: "length b = PXM_ACKET_SIZE" using s b by (simp add: synced_def)
  have line: "snd_line (snd.entry (s\<lparr>retries := retries s - 1\<rparr>)) = XM_SOH # burst i x y ?p @ []"
    using s b n by (simp add: synced_def snd_transmit_def)
  have "\<not> xm_packet_ok (packnum s) (burst i x y ?p)"
    using burst_rejected [of ?p "packnum s" i x y] s noise len by (simp add: xm_packet_ok_packet synced_def)
  moreover have "(snd.entry s)\<lparr>snd_line := []\<rparr> = st\<lparr>snd_noise := tl (snd_noise st)\<rparr>"
    using s b by (simp add: synced_def snd_transmit_def)
  ultimately have "xm_round snd_funcs ra (s\<lparr>retries := retries s - 1\<rparr>) = Some (Inl s')"
    using snd.round_bad [OF line, of ra] len by (simp add: burst_def s'_def)
  then have "xm_loop snd_funcs ra s = xm_loop snd_funcs ra s'"
    using s by (intro xm_loop_round(1)) (simp_all add: synced_def)
  moreover have "snd.entry s' = snd_transmit (st\<lparr>snd_noise := tl (snd_noise st)\<rparr>)"
    using s by (simp add: s'_def snd.entry_def snd_out_heard synced_def)
  ultimately show ?thesis
    using s r by (intro exI [of _ s']) (auto simp: synced_def s'_def)
qed

lemma synced_size:
  assumes "synced s st got"
  shows "sint (xm_size s) = int (length got)"
proof -
  have "unat (xm_size s) < 2 ^ 31"
    using assms unfolding synced_def by linarith
  then have "uint (xm_size s) < 2 ^ 31"
    unfolding uint_nat by (simp only: of_nat_less_numeral_power_cancel_iff)
  then have "sint (xm_size s) = uint (xm_size s)"
    using signed_take_bit_int_eq_self [of 31 "uint (xm_size s)"] uint_ge_0 [of "xm_size s"] by (simp add: sint_uint)
  moreover have "length got = unat (xm_size s)"
    using assms by (auto simp: synced_def)
  ultimately show ?thesis
    by (simp only: uint_nat)
qed

lemma synced_dest: "synced s st got \<Longrightarrow> take (length got) (xm_dest s) = got"
  by (auto simp: synced_def min_def)

lemma synced_eot:
  assumes s: "synced s st got" and b: "snd_blocks st = []"
  shows "\<exists>w. xm_loop snd_funcs ra s = Some (int (length got), xm_dest s, w) \<and> snd_blocks w = []"
proof -
  have line: "snd_line (snd.entry (s\<lparr>retries := retries s - 1\<rparr>)) = XM_EOT # []"
    using s b by (simp add: synced_def snd_transmit_def)
  have "xm_loop snd_funcs ra s = Some (sint (xm_size s), xm_dest s, (snd_out XM_ACK ((snd.entry s)\<lparr>snd_line := []\<rparr>))\<lparr>snd_line := []\<rparr>)"
    using snd.round_eot [OF line, of ra] s by (intro xm_loop_round(2)) (simp_all add: synced_def)
  moreover have "sint (xm_size s) = int (length got)"
    by (rule synced_size [OF s])
  moreover have "snd_blocks (snd_out XM_ACK ((snd.entry s)\<lparr>snd_line := []\<rparr>)) = []"
    using s b by (simp add: synced_def snd_out_heard snd_transmit_def xm_codes)
  ultimately show ?thesis
    by simp
qed

text \<open>The errors of the line are bursts, and with the retries that are left there is always one more.\<close>

fun noise_ok :: "nat \<Rightarrow> noise list \<Rightarrow> bool" where
  "noise_ok r [] \<longleftrightarrow> True"
| "noise_ok r (Clean # ns) \<longleftrightarrow> noise_ok XMODEM_RETRY_LIMIT ns"
| "noise_ok r (Burst i a b # ns) \<longleftrightarrow> 1 < r \<and> i + 2 \<le> PXM_ACKET_SIZE + 4 \<and> (a \<noteq> 0 \<or> b \<noteq> 0) \<and> noise_ok (r - 1) ns"
| "noise_ok r (Soh g # ns) \<longleftrightarrow> False"

lemma noise_ok_next:
  assumes "noise_ok r (snd_noise st)"
  shows "next_noise st = Clean \<and> noise_ok XMODEM_RETRY_LIMIT (tl (snd_noise st)) \<or>
    (\<exists>i a b. next_noise st = Burst i a b \<and> i + 2 \<le> PXM_ACKET_SIZE + 4 \<and> (a \<noteq> 0 \<or> b \<noteq> 0) \<and> 1 < r \<and>
      noise_ok (r - 1) (tl (snd_noise st)) \<and> length (tl (snd_noise st)) < length (snd_noise st))"
proof (cases "snd_noise st")
  case (Cons n ns)
  then show ?thesis using assms by (cases n) (auto simp: next_noise_def)
qed (simp add: next_noise_def)

lemma synced_transfer:
  assumes ra: "realloc_grows ra"
  shows "synced s st got \<Longrightarrow> noise_ok (retries s) (snd_noise st) \<Longrightarrow>
    \<exists>d w. xm_loop snd_funcs ra s = Some (int (length (got @ concat (snd_blocks st))), d, w) \<and>
      take (length (got @ concat (snd_blocks st))) d = got @ concat (snd_blocks st) \<and> snd_blocks w = []"
proof (induction "length (snd_blocks st) + length (snd_noise st)" arbitrary: s st got rule: less_induct)
  case less
  show ?case
  proof (cases "snd_blocks st")
    case Nil
    from synced_eot [OF less.prems(1) Nil, of ra] show ?thesis
      using synced_dest [OF less.prems(1)] Nil by auto
  next
    case (Cons b bs)
    from noise_ok_next [OF less.prems(2)] show ?thesis
    proof
      assume n: "next_noise st = Clean \<and> noise_ok XMODEM_RETRY_LIMIT (tl (snd_noise st))"
      from synced_good [OF ra less.prems(1) Cons] n obtain s' where s': "xm_loop snd_funcs ra s = xm_loop snd_funcs ra s'"
          "retries s' = XMODEM_RETRY_LIMIT"
          "synced s' (st\<lparr>snd_noise := tl (snd_noise st), snd_blocks := bs, snd_num := snd_num st + 1\<rparr>) (got @ b)"
        by blast
      from less.hyps [OF _ s'(3)] show ?thesis
        using n Cons s'(1,2) by simp
    next
      assume "\<exists>i x y. next_noise st = Burst i x y \<and> i + 2 \<le> PXM_ACKET_SIZE + 4 \<and> (x \<noteq> 0 \<or> y \<noteq> 0) \<and> 1 < retries s \<and>
        noise_ok (retries s - 1) (tl (snd_noise st)) \<and> length (tl (snd_noise st)) < length (snd_noise st)"
      then obtain i x y where n: "next_noise st = Burst i x y" "i + 2 \<le> PXM_ACKET_SIZE + 4" "x \<noteq> 0 \<or> y \<noteq> 0" "1 < retries s"
          "noise_ok (retries s - 1) (tl (snd_noise st))" "length (tl (snd_noise st)) < length (snd_noise st)"
        by blast
      from synced_bad [OF less.prems(1) Cons n(1-4), of ra] obtain s' where s': "xm_loop snd_funcs ra s = xm_loop snd_funcs ra s'"
          "retries s' = retries s - 1" "synced s' (st\<lparr>snd_noise := tl (snd_noise st)\<rparr>) got"
        by blast
      from less.hyps [OF _ s'(3)] show ?thesis
        using n(5,6) s'(1,2) by simp
    qed
  qed
qed

text \<open>The blocks of a file, the last one filled up with the padding byte.\<close>

function xm_blocks :: "u8 list \<Rightarrow> u8 list list" where
  "xm_blocks [] = []"
| "xm_blocks (x # xs) =
     (let b = take PXM_ACKET_SIZE (x # xs)
      in (b @ replicate (PXM_ACKET_SIZE - length b) 0x1A) # xm_blocks (drop PXM_ACKET_SIZE (x # xs)))"
  by pat_completeness auto
termination
  by (relation "measure length") (auto simp: PXM_ACKET_SIZE_def)

lemma xm_blocks_length: "b \<in> set (xm_blocks file) \<Longrightarrow> length b = PXM_ACKET_SIZE"
  by (induction "file" rule: xm_blocks.induct) (auto simp: Let_def)

lemma concat_xm_blocks: "\<exists>k. concat (xm_blocks file) = file @ replicate k 0x1A"
proof (induction "file" rule: xm_blocks.induct)
  case (2 x xs)
  then obtain k where k: "concat (xm_blocks (drop PXM_ACKET_SIZE (x # xs))) = drop PXM_ACKET_SIZE (x # xs) @ replicate k 0x1A"
    by blast
  show ?case
  proof (cases "length (x # xs) < PXM_ACKET_SIZE")
    case True
    then have "drop PXM_ACKET_SIZE (x # xs) = []" "take PXM_ACKET_SIZE (x # xs) = x # xs" by simp_all
    then show ?thesis by (simp add: Let_def del: take_Cons drop_Cons)
  next
    case False
    then have "length (take PXM_ACKET_SIZE (x # xs)) = PXM_ACKET_SIZE" by simp
    with k have "concat (xm_blocks (x # xs)) = (take PXM_ACKET_SIZE (x # xs) @ drop PXM_ACKET_SIZE (x # xs)) @ replicate k 0x1A"
      by (simp add: Let_def del: append_take_drop_id)
    then show ?thesis
      unfolding append_take_drop_id by blast
  qed
qed simp

lemma shell_recv_trim_padding:
  assumes "file \<noteq> []" "last file \<noteq> 0x1A" "take (length file + k) d = file @ replicate k 0x1A"
  shows "shell_recv_trim d (length file + k) = Some (length file)"
  using assms(3)
proof (induction k)
  case 0
  then have "d ! (length file - 1) = last file"
    using assms(1) by (metis add.right_neutral append.right_neutral diff_less last_conv_nth length_greater_0_conv nth_take replicate_0 zero_less_one)
  with assms(1,2) show ?case
    by (cases "length file") auto
next
  case (Suc k)
  have "d ! (length file + k) = take (length file + Suc k) d ! (length file + k)"
    by simp
  also have "\<dots> = 0x1A"
    unfolding Suc.prems by (simp add: nth_append del: replicate_Suc)
  finally have "shell_recv_trim d (length file + Suc k) = shell_recv_trim d (length file + k)"
    by simp
  moreover have "take (length file + k) d = file @ replicate k 0x1A"
    using arg_cong [OF Suc.prems, of "take (length file + k)"] by (simp add: min_def replicate_append_same [symmetric] del: replicate_append_same)
  ultimately show ?case
    using Suc.IH by simp
qed

text \<open>A file less the padding bytes that it ends in itself.\<close>

definition xm_stripped :: "u8 list \<Rightarrow> u8 list" where
  "xm_stripped file = rev (dropWhile (\<lambda>b. b = 0x1A) (rev file))"

lemma xm_stripped_split:
  assumes "\<exists>b \<in> set file. b \<noteq> 0x1A"
  shows "\<exists>j. file = xm_stripped file @ replicate j 0x1A \<and> xm_stripped file \<noteq> [] \<and> last (xm_stripped file) \<noteq> 0x1A"
proof -
  let ?P = "\<lambda>b :: u8. b = 0x1A"
  have ne: "dropWhile ?P (rev file) \<noteq> []" using assms by (auto simp: dropWhile_eq_Nil_conv)
  have "takeWhile ?P (rev file) = replicate (length (takeWhile ?P (rev file))) 0x1A"
    by (rule replicate_eqI) (auto dest: set_takeWhileD)
  then have "rev file = replicate (length (takeWhile ?P (rev file))) 0x1A @ dropWhile ?P (rev file)"
    using takeWhile_dropWhile_id [of ?P "rev file"] by argo
  then have "file = xm_stripped file @ replicate (length (takeWhile ?P (rev file))) 0x1A"
    unfolding xm_stripped_def by (metis rev_append rev_replicate rev_rev_ident)
  moreover have "last (xm_stripped file) \<noteq> 0x1A" using hd_dropWhile [OF ne] by (simp add: xm_stripped_def last_rev)
  ultimately show ?thesis using ne by (auto simp: xm_stripped_def)
qed

definition sender_of :: "u8 list list \<Rightarrow> noise list \<Rightarrow> bool list \<Rightarrow> sender" where
  "sender_of blocks noise lost = \<lparr>snd_blocks = blocks, snd_num = 1, snd_line = [], snd_noise = noise, snd_lost = lost\<rparr>"

definition receiver_of :: "u8 list \<Rightarrow> 'w \<Rightarrow> 'w xm_state" where
  "receiver_of dest w = \<lparr>xm_starting = True, packnum = 1, retries = XMODEM_RETRY_LIMIT,
     xm_limit = word_of_nat XMODEM_INITIAL_BUFFER_SIZE, xm_size = 0, xm_dest = dest, xm_world = w\<rparr>"

lemma xmodem_receive_loop: "xmodem_receive f ra dest w = xm_loop f ra (receiver_of dest w)"
  by (simp add: xmodem_receive_def receiver_of_def)

lemma synced_initial:
  assumes "length dest = XMODEM_INITIAL_BUFFER_SIZE" and "\<forall>b\<in>set blocks. length b = PXM_ACKET_SIZE"
    and "PXM_ACKET_SIZE * length blocks + XMODEM_INCREMENT_AMMOUNT < 2 ^ 31"
  shows "synced (receiver_of dest (sender_of blocks noise [])) (sender_of blocks noise []) []"
proof -
  have "unat (word_of_nat XMODEM_INITIAL_BUFFER_SIZE :: u32) = XMODEM_INITIAL_BUFFER_SIZE"
    by (simp add: XMODEM_INITIAL_BUFFER_SIZE_def)
  with assms show ?thesis
    by (auto simp: synced_def receiver_of_def sender_of_def snd.entry_def snd_out_heard XMODEM_RETRY_LIMIT_def)
qed

section \<open>Properties\<close>

text \<open>A change of two neighbouring bytes of a packet, its block number and its checksum included, is always
  detected: the packet is refused.\<close>

theorem xmodem_detects_burst:
  assumes "length p = PXM_ACKET_SIZE + 4" and "xm_packet_ok n p" and "i + 2 \<le> length p" and "a \<noteq> 0 \<or> b \<noteq> 0"
  shows "\<not> xm_packet_ok n (p[i := p ! i XOR a, Suc i := p ! Suc i XOR b])"
  using burst_rejected [OF assms] by (simp add: burst_def)

theorem xmodem_detects_burst_witness:
  "\<not> xm_packet_ok 1 ((xm_packet 1 (replicate 128 0))[50 := xm_packet 1 (replicate 128 0) ! 50 XOR 3,
      Suc 50 := xm_packet 1 (replicate 128 0) ! Suc 50 XOR 0x80])"
proof (rule xmodem_detects_burst)
  show "xm_packet_ok 1 (xm_packet 1 (replicate 128 0))"
    by (simp add: xm_packet_ok_packet PXM_ACKET_SIZE_def)
qed (simp_all add: xm_packet_def PXM_ACKET_SIZE_def)

text \<open>C25. A file that is sent by a sender that follows the protocol is received completely, if the errors of the line are of the following kind: every
  frame and every reply arrives, frames with their start byte and with all of their bytes, and in at most 19 frames in a row two neighbouring bytes
  of the packet (its number, its data or its checksum) are changed. Then the receiver returns with all the bytes of the file in front of the padding of the last block, and
  removing the padding leaves the file less the bytes 0x1A that it ends in itself. The file has a byte other than 0x1A and less than about 2 GB,
  and \<open>realloc\<close> does not fail. (A damaged start byte is another matter: see \<open>xmodem_damaged_header_truncates\<close>.)\<close>

theorem xmodem_delivers_file:
  assumes "realloc_grows ra" and "length dest = XMODEM_INITIAL_BUFFER_SIZE"
    and "\<exists>b \<in> set file. b \<noteq> 0x1A"
    and "PXM_ACKET_SIZE * length (xm_blocks file) + XMODEM_INCREMENT_AMMOUNT < 2 ^ 31"
    and "noise_ok XMODEM_RETRY_LIMIT noise"
  shows "\<exists>n d w. xmodem_receive snd_funcs ra dest (sender_of (xm_blocks file) noise []) = Some (int n, d, w) \<and> length file \<le> n \<and>
    take (length file) d = file \<and> shell_recv_trim d n = Some (length (xm_stripped file)) \<and> snd_blocks w = []"
proof -
  obtain k where k: "concat (xm_blocks file) = file @ replicate k 0x1A"
    using concat_xm_blocks by blast
  obtain j where j: "file = xm_stripped file @ replicate j 0x1A" "xm_stripped file \<noteq> []" "last (xm_stripped file) \<noteq> 0x1A"
    using xm_stripped_split [OF assms(3)] by blast
  let ?s = "receiver_of dest (sender_of (xm_blocks file) noise [])"
  have "synced ?s (sender_of (xm_blocks file) noise []) []"
    using assms(2,4) xm_blocks_length by (intro synced_initial) auto
  from synced_transfer [OF assms(1) this] obtain d w where dw:
      "xm_loop snd_funcs ra ?s = Some (int (length file + k), d, w)" "take (length file + k) d = file @ replicate k 0x1A" "snd_blocks w = []"
    using assms(5) k by (auto simp: sender_of_def receiver_of_def)
  have "take (length file) d = file"
    using arg_cong [OF dw(2), of "take (length file)"] by simp
  moreover have "shell_recv_trim d (length (xm_stripped file) + (j + k)) = Some (length (xm_stripped file))"
  proof (rule shell_recv_trim_padding [OF j(2,3)])
    have "length file = length (xm_stripped file) + j" using arg_cong [OF j(1), of length] by simp
    then show "take (length (xm_stripped file) + (j + k)) d = xm_stripped file @ replicate (j + k) 0x1A"
      using dw(2) j(1) by (metis add.assoc append.assoc replicate_add)
  qed
  moreover have "length (xm_stripped file) + (j + k) = length file + k" using arg_cong [OF j(1), of length] by simp
  ultimately show ?thesis
    using dw by (intro exI [of _ "length file + k"] exI [of _ d] exI [of _ w]) (simp add: xmodem_receive_loop)
qed

text \<open>An instance of \<open>realloc\<close> that fills the new bytes with zeroes.\<close>

definition zero_realloc :: "u8 list \<Rightarrow> nat \<Rightarrow> u8 list option" where
  "zero_realloc b n = Some (take n b @ replicate (n - length b) 0)"

lemma zero_realloc_grows: "realloc_grows zero_realloc"
  by (auto simp: realloc_grows_def zero_realloc_def)

theorem xmodem_delivers_file_witness:
  "\<exists>n d w. xmodem_receive snd_funcs zero_realloc (replicate 1024 0)
      (sender_of (xm_blocks [0x41, 0x42, 0x43]) [Burst 7 1 2, Burst 130 0 1] []) = Some (int n, d, w) \<and>
    take 3 d = [0x41, 0x42, 0x43] \<and> shell_recv_trim d n = Some 3 \<and> snd_blocks w = []"
proof -
  let ?file = "[0x41, 0x42, 0x43] :: u8 list"
  have "length ?file = 3" "xm_stripped ?file = ?file" by (simp_all add: xm_stripped_def)
  moreover have "\<exists>n d w. xmodem_receive snd_funcs zero_realloc (replicate 1024 0)
      (sender_of (xm_blocks ?file) [Burst 7 1 2, Burst 130 0 1] []) = Some (int n, d, w) \<and> length ?file \<le> n \<and>
    take (length ?file) d = ?file \<and> shell_recv_trim d n = Some (length (xm_stripped ?file)) \<and> snd_blocks w = []"
    by (rule xmodem_delivers_file [OF zero_realloc_grows])
      (simp_all add: XMODEM_INITIAL_BUFFER_SIZE_def PXM_ACKET_SIZE_def XMODEM_INCREMENT_AMMOUNT_def XMODEM_RETRY_LIMIT_def Let_def)
  ultimately show ?thesis by (simp only:) blast
qed

text \<open>The loop that removes the padding reads in front of the buffer when the file is empty or only padding.\<close>

lemma shell_recv_trim_fault: "set (take n d) \<subseteq> {0x1A} \<Longrightarrow> n \<le> length d \<Longrightarrow> shell_recv_trim d n = None"
  by (induction n) (auto simp: take_Suc_conv_app_nth)

section \<open>Errors that are not repaired\<close>

lemma stale_loop:
  assumes "snd.entry s = snd_transmit st" "snd_line st = []" "snd_lost st = []" "snd_noise st = []"
    and "snd_blocks st = b # bs" "length b = PXM_ACKET_SIZE" "packnum s \<noteq> snd_num st"
  shows "\<exists>w. xm_loop snd_funcs ra s = Some (XMODEM_ERROR_RETRYEXCEED, xm_dest s, w)"
  using assms(1,7)
proof (induction "retries s" arbitrary: s)
  case 0
  then show ?case by (intro snd.loop_exceeded) simp
next
  case (Suc r)
  then have r: "retries s - 1 = r" "retries s \<noteq> 0" by auto
  define s' where "s' = s\<lparr>retries := r, xm_starting := False, xm_world := snd_transmit st\<rparr>"
  have line: "snd_line (snd.entry (s\<lparr>retries := r\<rparr>)) = XM_SOH # xm_packet (snd_num st) b @ []"
    using Suc.prems(1) assms(2,4,5) by (simp add: snd_transmit_def next_noise_def)
  have "(snd.entry s)\<lparr>snd_line := []\<rparr> = st"
    using Suc.prems(1) assms(2,4,5) by (cases st) (simp add: snd_transmit_def)
  then have "xm_round snd_funcs ra (s\<lparr>retries := retries s - 1\<rparr>) = Some (Inl s')"
    using snd.round_bad [OF line, of ra] Suc.prems(2) assms(3,6) unfolding r(1)
    by (simp add: s'_def xm_packet_ok_packet snd_out_heard)
  then have "xm_loop snd_funcs ra s = xm_loop snd_funcs ra s'"
    using r(2) by (intro xm_loop_round(1)) auto
  moreover have "\<exists>w. xm_loop snd_funcs ra s' = Some (XMODEM_ERROR_RETRYEXCEED, xm_dest s', w)"
    using Suc.prems(2) by (intro Suc.hyps(1)) (simp_all add: s'_def snd.entry_def)
  ultimately show ?case
    by (simp add: s'_def)
qed

text \<open>C26. When the acknowledgement of the first block does not reach the sender, the sender repeats the block
  and the receiver refuses it until the retries are used up: the transfer fails although nothing else is
  lost.\<close>

theorem xmodem_lost_ack:
  assumes "length dest = XMODEM_INITIAL_BUFFER_SIZE" and "length b = PXM_ACKET_SIZE"
  shows "\<exists>d w. xmodem_receive snd_funcs ra dest (sender_of (b # bs) [] [False, True]) = Some (XMODEM_ERROR_RETRYEXCEED, d, w)"
proof -
  let ?st = "sender_of (b # bs) [] []"
  let ?s = "receiver_of dest (sender_of (b # bs) [] [False, True])"
  have sel: "packnum ?s = 1" "retries ?s = XMODEM_RETRY_LIMIT"
    by (simp_all add: receiver_of_def)
  have e: "snd.entry ?s = (snd_transmit ?st)\<lparr>snd_lost := [True]\<rparr>"
    by (simp add: snd.entry_def receiver_of_def sender_of_def snd_out_def snd_transmit_def next_noise_def xm_codes)
  then have line: "snd_line (snd.entry (?s\<lparr>retries := retries ?s - 1\<rparr>)) = XM_SOH # xm_packet 1 b @ []"
    by (simp add: sender_of_def snd_transmit_def next_noise_def)
  define s1 where "s1 = ?s\<lparr>xm_starting := False, xm_world := (snd.entry ?s)\<lparr>snd_line := []\<rparr>, retries := XMODEM_RETRY_LIMIT, packnum := 2\<rparr>"
  define s' where "s' = s1\<lparr>xm_dest := blit 0 b dest, xm_size := word_of_nat PXM_ACKET_SIZE, xm_world := snd_transmit ?st\<rparr>"
  have "xm_round snd_funcs ra (?s\<lparr>retries := retries ?s - 1\<rparr>) = xm_consume snd_funcs ra (xm_packet 1 b) s1"
    using snd.round_good [OF line, of ra] assms(2) sel by (simp add: xm_packet_ok_packet s1_def)
  also have "\<dots> = Some (Inl s')"
    using assms slice_xm_packet [OF assms(2), of 1]
    unfolding s'_def s1_def e by (simp add: xm_consume_def receiver_of_def sender_of_def slice_xm_packet snd_out_def snd_transmit_def next_noise_def
        PXM_ACKET_SIZE_def XMODEM_INITIAL_BUFFER_SIZE_def word_less_nat_alt)
  finally have "xm_loop snd_funcs ra ?s = xm_loop snd_funcs ra s'"
    by (intro xm_loop_round(1)) (simp_all add: receiver_of_def XMODEM_RETRY_LIMIT_def)
  moreover have "\<exists>w. xm_loop snd_funcs ra s' = Some (XMODEM_ERROR_RETRYEXCEED, xm_dest s', w)"
    by (rule stale_loop [where st = ?st and b = b and bs = bs])
      (simp_all add: s'_def s1_def snd.entry_def sender_of_def assms(2))
  ultimately show ?thesis
    by (auto simp: xmodem_receive_loop)
qed

theorem xmodem_lost_ack_witness:
  "\<exists>d w. xmodem_receive snd_funcs zero_realloc (replicate 1024 0) (sender_of (replicate 128 7 # []) [] [False, True])
    = Some (XMODEM_ERROR_RETRYEXCEED, d, w)"
  by (rule xmodem_lost_ack) (simp_all add: XMODEM_INITIAL_BUFFER_SIZE_def PXM_ACKET_SIZE_def)

text \<open>When the byte in front of the fourth block is damaged, the receiver takes the number of the block for the
  end of the transmission: it reports success with the first three blocks, whatever the sender still has.\<close>

theorem xmodem_damaged_header_truncates:
  assumes "realloc_grows ra" and "length dest = XMODEM_INITIAL_BUFFER_SIZE"
    and "\<forall>b\<in>set (b1 # b2 # b3 # b4 # bs). length b = PXM_ACKET_SIZE"
    and "PXM_ACKET_SIZE * length (b1 # b2 # b3 # b4 # bs) + XMODEM_INCREMENT_AMMOUNT < 2 ^ 31"
    and "XM_SOH XOR g \<notin> {XM_SOH, XM_EOT, XM_CAN}"
  shows "\<exists>d w. xmodem_receive snd_funcs ra dest (sender_of (b1 # b2 # b3 # b4 # bs) [Clean, Clean, Clean, Soh g] [])
      = Some (3 * int PXM_ACKET_SIZE, d, w) \<and> take (3 * PXM_ACKET_SIZE) d = b1 @ b2 @ b3"
proof -
  let ?bs = "b1 # b2 # b3 # b4 # bs"
  let ?st = "sender_of ?bs [Clean, Clean, Clean, Soh g] []"
  have "synced (receiver_of dest ?st) ?st []"
    using assms(2-4) by (intro synced_initial) auto
  from synced_good [OF assms(1) this] obtain s1 where s1: "xmodem_receive snd_funcs ra dest ?st = xm_loop snd_funcs ra s1"
      "synced s1 (?st\<lparr>snd_noise := [Clean, Clean, Soh g], snd_blocks := [b2, b3, b4] @ bs, snd_num := 2\<rparr>) b1"
    by (auto simp: sender_of_def next_noise_def xmodem_receive_loop)
  from synced_good [OF assms(1) s1(2)] obtain s2 where s2: "xm_loop snd_funcs ra s1 = xm_loop snd_funcs ra s2"
      "synced s2 (?st\<lparr>snd_noise := [Clean, Soh g], snd_blocks := [b3, b4] @ bs, snd_num := 3\<rparr>) (b1 @ b2)"
    by (auto simp: sender_of_def next_noise_def)
  from synced_good [OF assms(1) s2(2)] obtain s3 where s3: "xm_loop snd_funcs ra s2 = xm_loop snd_funcs ra s3"
      "retries s3 = XMODEM_RETRY_LIMIT" "\<not> xm_starting s3"
      "synced s3 (?st\<lparr>snd_noise := [Soh g], snd_blocks := [b4] @ bs, snd_num := 4\<rparr>) (b1 @ b2 @ b3)"
    by (auto simp: sender_of_def next_noise_def)
  let ?s3 = "s3\<lparr>retries := retries s3 - 1\<rparr>"
  have line: "snd_line (snd.entry ?s3) = (XM_SOH XOR g) # xm_packet 4 b4"
    using s3(4) by (simp add: synced_def snd_transmit_def sender_of_def next_noise_def)
  define s4 where "s4 = ?s3\<lparr>xm_world := (snd.entry ?s3)\<lparr>snd_line := xm_packet 4 b4\<rparr>\<rparr>"
  have "xm_loop snd_funcs ra s3 = xm_loop snd_funcs ra s4"
    using snd.round_garbage [OF line, of ra] s3(2) assms(5) by (intro xm_loop_round(1)) (simp_all add: s4_def XMODEM_RETRY_LIMIT_def)
  moreover have line4: "snd_line (snd.entry (s4\<lparr>retries := retries s4 - 1\<rparr>)) = XM_EOT # tl (xm_packet 4 b4)"
    using s3(3) by (simp add: s4_def snd.entry_def xm_packet_def XM_EOT_def)
  then obtain w where "xm_loop snd_funcs ra s4 = Some (sint (xm_size s4), xm_dest s4, w)"
    using snd.round_eot [OF line4, of ra] s3(2) xm_loop_round(2) [of s4 snd_funcs ra] by (auto simp: s4_def XMODEM_RETRY_LIMIT_def)
  moreover have "xm_size s4 = xm_size s3" "xm_dest s4 = xm_dest s3"
    by (simp_all add: s4_def)
  moreover have "length (b1 @ b2 @ b3) = 3 * PXM_ACKET_SIZE"
    using assms(3) by simp
  moreover have "take (length (b1 @ b2 @ b3)) (xm_dest s3) = b1 @ b2 @ b3"
    by (rule synced_dest [OF s3(4)])
  ultimately show ?thesis
    using s1(1) s2(1) s3(1) synced_size [OF s3(4)] by auto
qed

theorem xmodem_damaged_header_truncates_witness:
  "\<exists>d w. xmodem_receive snd_funcs zero_realloc (replicate 1024 0)
      (sender_of (replicate 128 1 # replicate 128 2 # replicate 128 3 # replicate 128 4 # [replicate 128 5]) [Clean, Clean, Clean, Soh 2] [])
      = Some (3 * int PXM_ACKET_SIZE, d, w) \<and> take (3 * PXM_ACKET_SIZE) d = replicate 128 1 @ replicate 128 2 @ replicate 128 3"
  by (rule xmodem_damaged_header_truncates [OF zero_realloc_grows])
    (simp_all add: XMODEM_INITIAL_BUFFER_SIZE_def PXM_ACKET_SIZE_def XMODEM_INCREMENT_AMMOUNT_def xm_codes)

end
