(* ===== verification/Adc.thy ===== *)
theory Adc
  imports Buf
begin

text \<open>
  Sampling with the analog to digital converter: \<open>src/src/elua_adc.c\<close> and \<open>src/inc/elua_adc.h\<close>, the generic
  functions for it in \<open>src/src/common.c\<close>, and the platform side in \<open>src/src/platform/lm3s/platform.c\<close>, in
  the configuration with buffers (\<open>BUF_ENABLE_ADC\<close>). Interrupt handlers run between the operations and
  between the polls of \<open>adc_wait_samples\<close>.

  Pointers to channels are their numbers and pointers into \<open>sample_buf\<close> are indices. Using a null
  pointer, an index outside an array or a value that was never written is \<open>None\<close>. The calls of the
  driver library are recorded in order; what it returns is an argument.
\<close>

unbundle bit_operations_syntax

section \<open>State\<close>

record elua_adc_ch_state =
  op_pending :: bool
  blocking :: bool
  freerunning :: bool
  smooth_ready :: bool
  value_fresh :: bool
  ch_id :: nat
  logsmoothlen :: u8
  smoothidx :: u16
  smoothsum :: u32
  smoothbuf :: "u16 list option"
  reqsamples :: u16
  value_ptr :: "nat option"

record elua_adc_dev_state =
  ch_state :: "nat option list"
  sample_buf :: "u16 list"
  clocked :: bool
  force_reseq :: bool
  skip_cycle :: bool
  running :: bool
  ch_active :: u32
  last_ch_active :: u32
  timer_id :: nat
  seq_id :: nat
  seq_ctr :: u8
  seq_len :: u8

datatype adc_call = ADCSequenceDisable | ADCSequenceEnable | ADCStepConfigure nat nat bool | ADCProcessorTrigger
  | ADCSequenceConfigure bool | ADCTimerLoad nat u32 | ADCTimerStart nat | ADCIntClear
  | SysCtlPeripheralEnable | SysCtlADCSpeedSet nat | ADCIntEnable | IntEnable

record adc =
  adc_ch_state :: "elua_adc_ch_state list"
  adc_dev_state :: elua_adc_dev_state
  adc_bufs :: buf_table
  adc_calls :: "adc_call list"

definition SMOOTH_REALSIZE :: "elua_adc_ch_state \<Rightarrow> nat" where
  "SMOOTH_REALSIZE s = 2 ^ unat (logsmoothlen s)"

definition BUF_DSIZE_U16 :: u8 where
  "BUF_DSIZE_U16 = 1"

definition adc_get_ch_state :: "adc \<Rightarrow> nat \<Rightarrow> elua_adc_ch_state option" where
  "adc_get_ch_state A ch = (if ch < length (adc_ch_state A) then Some (adc_ch_state A ! ch) else None)"

definition put_ch :: "nat \<Rightarrow> elua_adc_ch_state \<Rightarrow> adc \<Rightarrow> adc" where
  "put_ch ch s A = A\<lparr>adc_ch_state := (adc_ch_state A)[ch := s]\<rparr>"

definition upd_dev :: "(elua_adc_dev_state \<Rightarrow> elua_adc_dev_state) \<Rightarrow> adc \<Rightarrow> adc" where
  "upd_dev f A = A\<lparr>adc_dev_state := f (adc_dev_state A)\<rparr>"

definition call :: "adc_call \<Rightarrow> adc \<Rightarrow> adc" where
  "call c A = A\<lparr>adc_calls := adc_calls A @ [c]\<rparr>"

definition ACTIVATE_CHANNEL :: "nat \<Rightarrow> elua_adc_dev_state \<Rightarrow> elua_adc_dev_state" where
  "ACTIVATE_CHANNEL ch d = d\<lparr>ch_active := ch_active d OR push_bit ch 1\<rparr>"

definition INACTIVATE_CHANNEL :: "nat \<Rightarrow> elua_adc_dev_state \<Rightarrow> elua_adc_dev_state" where
  "INACTIVATE_CHANNEL ch d = d\<lparr>ch_active := ch_active d AND NOT (push_bit ch 1)\<rparr>"

section \<open>The platform side\<close>

definition platform_adc_stop :: "nat \<Rightarrow> adc \<Rightarrow> adc option" where
  "platform_adc_stop ch A =
     do {
       s \<leftarrow> adc_get_ch_state A ch;
       let A1 = upd_dev (INACTIVATE_CHANNEL ch) (put_ch ch (s\<lparr>op_pending := False\<rparr>) A);
       Some (if ch_active (adc_dev_state A1) = 0
             then upd_dev (\<lambda>d. d\<lparr>running := False\<rparr>) (call ADCSequenceDisable A1) else A1)
     }"

text \<open>The channel at place \<open>i\<close> of the sequence.\<close>

definition seq_channel :: "adc \<Rightarrow> nat \<Rightarrow> elua_adc_ch_state option" where
  "seq_channel A i =
     (if i < length (ch_state (adc_dev_state A)) then ch_state (adc_dev_state A) ! i \<bind> adc_get_ch_state A else None)"

text \<open>The loop configures all steps but the last one; the counter is smaller than \<open>seq_len - 1\<close> in it, so
  \<open>seq_len\<close> rounds are enough.\<close>

fun adc_configure_steps :: "nat \<Rightarrow> adc \<Rightarrow> adc option" where
  "adc_configure_steps 0 A = Some A"
| "adc_configure_steps (Suc n) A =
     (let d = adc_dev_state A
      in if unat (seq_ctr d) + 1 < unat (seq_len d)
         then do {
           s \<leftarrow> seq_channel A (unat (seq_ctr d));
           adc_configure_steps n
             (upd_dev (\<lambda>d. d\<lparr>seq_ctr := seq_ctr d + 1\<rparr>) (call (ADCStepConfigure (unat (seq_ctr d)) (ch_id s) False) A))
         }
         else Some A)"

definition platform_adc_update_sequence :: "adc \<Rightarrow> (int \<times> adc) option" where
  "platform_adc_update_sequence A =
     do {
       let A1 = upd_dev (\<lambda>d. d\<lparr>seq_ctr := 0\<rparr>) (call ADCSequenceDisable A);
       A2 \<leftarrow> adc_configure_steps (unat (seq_len (adc_dev_state A1))) A1;
       let i = unat (seq_ctr (adc_dev_state A2));
       s \<leftarrow> seq_channel A2 i;
       Some (PLATFORM_OK, call ADCSequenceEnable (upd_dev (\<lambda>d. d\<lparr>seq_ctr := 0\<rparr>) (call (ADCStepConfigure i (ch_id s) True) A2)))
     }"

text \<open>\<open>sysclk\<close> is the system clock and \<open>loaded\<close> what the timer returns for the value loaded into it.\<close>

definition platform_adc_set_clock :: "u32 \<Rightarrow> (u32 \<Rightarrow> u32) \<Rightarrow> nat \<Rightarrow> u32 \<Rightarrow> adc \<Rightarrow> (u32 \<times> adc) option" where
  "platform_adc_set_clock sysclk loaded ch frequency A =
     (let A1 = call ADCSequenceDisable A;
          t = timer_id (adc_dev_state A)
      in if frequency > 0
         then if loaded (sysclk div frequency) = 0 then None
              else Some (sysclk div loaded (sysclk div frequency),
                call (ADCTimerLoad t (sysclk div frequency)) (call (ADCSequenceConfigure True) (upd_dev (\<lambda>d. d\<lparr>clocked := True\<rparr>) A1)))
         else Some (frequency, call (ADCSequenceConfigure False) (upd_dev (\<lambda>d. d\<lparr>clocked := False\<rparr>) A1)))"

section \<open>The sequence of channels\<close>

definition adc_seq_step :: "nat \<Rightarrow> nat \<Rightarrow> adc \<times> u8 \<Rightarrow> (adc \<times> u8) option" where
  "adc_seq_step previd ch st =
     (let (A, tmp) = st; d = adc_dev_state A; i = unat (seq_ctr d)
      in if ch_active d AND push_bit ch 1 > 0
         then do {
           s \<leftarrow> adc_get_ch_state A ch;
           if i < length (ch_state d)
           then Some (upd_dev (\<lambda>d. d\<lparr>ch_state := (ch_state d)[i := Some ch], seq_ctr := seq_ctr d + 1\<rparr>)
                        (put_ch ch (s\<lparr>value_ptr := Some i, value_fresh := False\<rparr>) A),
                      if ch_id s = previd then seq_ctr d else tmp)
           else None
         }
         else Some (A, tmp))"

fun adc_seq_loop :: "nat \<Rightarrow> nat list \<Rightarrow> adc \<times> u8 \<Rightarrow> (adc \<times> u8) option" where
  "adc_seq_loop previd [] st = Some st"
| "adc_seq_loop previd (ch # chs) st = do { st' \<leftarrow> adc_seq_step previd ch st; adc_seq_loop previd chs st' }"

text \<open>\<open>previd\<close> is read through the pointer at \<open>seq_ctr\<close>, which is null before the first sequence; \<open>null_id\<close> is
  what the memory at address 0 then holds.\<close>

definition adc_update_dev_sequence :: "platform_conf \<Rightarrow> nat \<Rightarrow> adc \<Rightarrow> adc option" where
  "adc_update_dev_sequence cf null_id A =
     do {
       let d = adc_dev_state A;
       previd \<leftarrow> (if unat (seq_ctr d) < length (ch_state d)
                  then (case ch_state d ! unat (seq_ctr d) of
                          None \<Rightarrow> Some null_id | Some c \<Rightarrow> map_option ch_id (adc_get_ch_state A c))
                  else None);
       if ch_active d \<noteq> last_ch_active d \<or> force_reseq d
       then do {
         (A1, tmp) \<leftarrow> adc_seq_loop previd [0..<NUM_ADC cf] (upd_dev (\<lambda>d. d\<lparr>seq_ctr := 0\<rparr>) A, 0);
         let A2 = upd_dev (\<lambda>d. d\<lparr>seq_len := seq_ctr d\<rparr>) A1;
         let A3 = upd_dev (\<lambda>d. d\<lparr>ch_state := take (unat (seq_ctr d)) (ch_state d) @ replicate (NUM_ADC cf - unat (seq_ctr d)) None,
                                seq_ctr := 0\<rparr>) A2;
         (r, A4) \<leftarrow> platform_adc_update_sequence A3;
         Some (upd_dev (\<lambda>d. d\<lparr>last_ch_active := ch_active d, seq_ctr := tmp, force_reseq := False\<rparr>) A4)
       }
       else Some A
     }"

definition platform_adc_start_sequence :: "platform_conf \<Rightarrow> nat \<Rightarrow> adc \<Rightarrow> (int \<times> adc) option" where
  "platform_adc_start_sequence cf null_id A =
     (if running (adc_dev_state A) then Some (PLATFORM_OK, A)
      else do {
        A1 \<leftarrow> adc_update_dev_sequence cf null_id A;
        let A2 = upd_dev (\<lambda>d. d\<lparr>running := True\<rparr>) (call ADCSequenceEnable A1);
        Some (PLATFORM_OK, if clocked (adc_dev_state A2) then call (ADCTimerStart (timer_id (adc_dev_state A2))) A2
                           else call ADCProcessorTrigger A2)
      })"

section \<open>Samples\<close>

definition adc_samples_requested :: "nat \<Rightarrow> adc \<Rightarrow> u16 option" where
  "adc_samples_requested ch A = map_option reqsamples (adc_get_ch_state A ch)"

definition adc_samples_available :: "platform_conf \<Rightarrow> nat \<Rightarrow> adc \<Rightarrow> u16 option" where
  "adc_samples_available cf ch A =
     do {
       s \<leftarrow> adc_get_ch_state A ch;
       n \<leftarrow> buf_get_count cf (adc_bufs A) BUF_ID_ADC ch;
       let buffer_count = (word_of_nat n :: u16);
       Some (if buffer_count = 0 then of_bool (value_fresh s) else buffer_count)
     }"

text \<open>The value at \<open>value_ptr\<close>.\<close>

definition adc_value :: "elua_adc_ch_state \<Rightarrow> adc \<Rightarrow> u16 option" where
  "adc_value s A =
     do {
       i \<leftarrow> value_ptr s;
       if i < length (sample_buf (adc_dev_state A)) then Some (sample_buf (adc_dev_state A) ! i) else None
     }"

text \<open>The next sample, from \<open>value_ptr\<close> when the value there is fresh and from the buffer otherwise; \<open>None\<close> when
  the buffer is empty, so that the variable keeps its value.\<close>

definition adc_take_sample :: "platform_conf \<Rightarrow> nat \<Rightarrow> adc \<Rightarrow> (u16 option \<times> adc) option" where
  "adc_take_sample cf ch A =
     do {
       s \<leftarrow> adc_get_ch_state A ch;
       if value_fresh s
       then do { v \<leftarrow> adc_value s A; Some (Some v, put_ch ch (s\<lparr>value_fresh := False\<rparr>) A) }
       else do {
         ((st, bs), B) \<leftarrow> buf_read cf (adc_bufs A) BUF_ID_ADC ch [0, 0];
         Some (if st = PLATFORM_OK then Some (of_le16 (bs ! 0) (bs ! 1)) else None, A\<lparr>adc_bufs := B\<rparr>)
       }
     }"

definition adc_smooth_data :: "platform_conf \<Rightarrow> nat \<Rightarrow> adc \<Rightarrow> adc option" where
  "adc_smooth_data cf ch A =
     do {
       s \<leftarrow> adc_get_ch_state A ch;
       let s1 = (if unat (smoothidx s) = SMOOTH_REALSIZE s then s\<lparr>smoothidx := 0, smooth_ready := True\<rparr> else s);
       sb \<leftarrow> smoothbuf s1;
       let i = unat (smoothidx s1);
       if i < length sb
       then do {
         (r, A1) \<leftarrow> adc_take_sample cf ch (put_ch ch (s1\<lparr>smoothsum := smoothsum s1 - ucast (sb ! i)\<rparr>) A);
         v \<leftarrow> r;
         s2 \<leftarrow> adc_get_ch_state A1 ch;
         Some (put_ch ch (s2\<lparr>smoothbuf := Some (sb[i := v]), smoothsum := smoothsum s2 + ucast v, smoothidx := smoothidx s2 + 1\<rparr>) A1)
       }
       else None
     }"

definition adc_get_processed_sample :: "platform_conf \<Rightarrow> nat \<Rightarrow> adc \<Rightarrow> (u16 \<times> adc) option" where
  "adc_get_processed_sample cf ch A =
     do {
       s \<leftarrow> adc_get_ch_state A ch;
       n \<leftarrow> adc_samples_available cf ch A;
       if n > 0
       then if logsmoothlen s > 0 \<and> smooth_ready s
            then do {
              A1 \<leftarrow> adc_smooth_data cf ch A;
              s1 \<leftarrow> adc_get_ch_state A1 ch;
              let s2 = (if reqsamples s1 > 0 then s1\<lparr>reqsamples := reqsamples s1 - 1\<rparr> else s1);
              Some (ucast (drop_bit (unat (logsmoothlen s2)) (smoothsum s2)), put_ch ch s2 A1)
            }
            else if logsmoothlen s = 0
            then do {
              (r, A1) \<leftarrow> adc_take_sample cf ch A;
              s1 \<leftarrow> adc_get_ch_state A1 ch;
              let s2 = (if reqsamples s1 > 0 then s1\<lparr>reqsamples := reqsamples s1 - 1\<rparr> else s1);
              Some (case r of Some v \<Rightarrow> v | None \<Rightarrow> 0, put_ch ch s2 A1)
            }
            else Some (0, A)
       else Some (0, A)
     }"

text \<open>The action \<open>smoothbuf[ i ++ ] = 0\<close> on the counter, of 16 bits, and the buffer.\<close>

definition zero_elem :: "nat \<times> u16 list option \<Rightarrow> nat \<times> u16 list option" where
  "zero_elem st = (Suc (fst st) mod 2 ^ 16, do { sb \<leftarrow> snd st; if fst st < length sb then Some (sb[fst st := 0]) else None })"

definition adc_flush_smoothing :: "nat \<Rightarrow> adc \<Rightarrow> adc option" where
  "adc_flush_smoothing ch A =
     do {
       s \<leftarrow> adc_get_ch_state A ch;
       let s1 = s\<lparr>smoothidx := 0, smoothsum := 0, smooth_ready := False\<rparr>;
       if logsmoothlen s1 > 0
       then do {
         sb \<leftarrow> snd (DUFF_DEVICE_8 (SMOOTH_REALSIZE s1) zero_elem (0, smoothbuf s1));
         Some (put_ch ch (s1\<lparr>smoothbuf := Some sb\<rparr>) A)
       }
       else Some (put_ch ch s1 A)
     }"

text \<open>\<open>ra\<close> is \<open>realloc\<close>, here on arrays of 16-bit numbers.\<close>

definition adc_update_smoothing :: "platform_conf \<Rightarrow> (u16 list option \<Rightarrow> nat \<Rightarrow> u16 list option) \<Rightarrow> nat \<Rightarrow> u8 \<Rightarrow> adc \<Rightarrow>
    (int \<times> adc) option" where
  "adc_update_smoothing cf ra ch loglen A =
     do {
       s \<leftarrow> adc_get_ch_state A ch;
       A1 \<leftarrow> (if op_pending s then platform_adc_stop ch A else Some A);
       s1 \<leftarrow> adc_get_ch_state A1 ch;
       let s2 = (if loglen \<noteq> logsmoothlen s1
                 then let t = s1\<lparr>logsmoothlen := loglen\<rparr>;
                          t1 = t\<lparr>smoothbuf := ra (smoothbuf t) (SMOOTH_REALSIZE t)\<rparr>
                      in if smoothbuf t1 = None
                         then t1\<lparr>logsmoothlen := 0, smoothidx := 0, smooth_ready := False, smoothsum := 0\<rparr> else t1
                 else s1);
       if loglen \<noteq> logsmoothlen s1 \<and> smoothbuf s2 = None \<and> loglen \<noteq> 0 then Some (PLATFORM_ERR, put_ch ch s2 A1)
       else do {
         A2 \<leftarrow> adc_flush_smoothing ch (put_ch ch s2 A1);
         (u, B) \<leftarrow> buf_flush cf (adc_bufs A2) BUF_ID_ADC ch;
         Some (PLATFORM_OK, A2\<lparr>adc_bufs := B\<rparr>)
       }
     }"

definition adc_setup_channel :: "platform_conf \<Rightarrow> (u8 list option \<Rightarrow> nat \<Rightarrow> u8 list option) \<Rightarrow> nat \<Rightarrow> u8 \<Rightarrow> adc \<Rightarrow>
    (int \<times> adc) option" where
  "adc_setup_channel cf ra ch logcount A =
     do {
       n \<leftarrow> buf_get_size cf (adc_bufs A) BUF_ID_ADC ch;
       (res, B) \<leftarrow> (if 2 ^ unat logcount \<noteq> n
                   then do {
                     (res, B) \<leftarrow> buf_set cf ra (adc_bufs A) BUF_ID_ADC ch logcount BUF_DSIZE_U16;
                     if res \<noteq> PLATFORM_OK then Some (res, B)
                     else do { (u, B') \<leftarrow> buf_flush cf B BUF_ID_ADC ch; Some (PLATFORM_OK, B') }
                   }
                   else Some (PLATFORM_OK, adc_bufs A));
       if res \<noteq> PLATFORM_OK then Some (res, A\<lparr>adc_bufs := B\<rparr>)
       else do {
         s \<leftarrow> adc_get_ch_state A ch;
         Some (PLATFORM_OK, upd_dev (ACTIVATE_CHANNEL ch)
           (put_ch ch (s\<lparr>reqsamples := word_of_nat (2 ^ unat logcount), op_pending := True\<rparr>) (A\<lparr>adc_bufs := B\<rparr>)))
       }
     }"

definition adc_init_ch_state :: "platform_conf \<Rightarrow> (u8 list option \<Rightarrow> nat \<Rightarrow> u8 list option) \<Rightarrow> u8 \<Rightarrow> u32 \<Rightarrow> (u32 \<Rightarrow> u32) \<Rightarrow>
    nat \<Rightarrow> adc \<Rightarrow> adc option" where
  "adc_init_ch_state cf ra ADC_BUF_SIZE sysclk loaded ch A =
     do {
       s \<leftarrow> adc_get_ch_state A ch;
       let A1 = put_ch ch (s\<lparr>op_pending := False, blocking := True, smooth_ready := False, reqsamples := 0, freerunning := False,
                            ch_id := ch, logsmoothlen := 0, smoothidx := 0, smoothsum := 0\<rparr>) (upd_dev (INACTIVATE_CHANNEL ch) A);
       (res, B) \<leftarrow> buf_set cf ra (adc_bufs A1) BUF_ID_ADC ch ADC_BUF_SIZE BUF_DSIZE_U16;
       (f, A2) \<leftarrow> platform_adc_set_clock sysclk loaded ch 0 (A1\<lparr>adc_bufs := B\<rparr>);
       Some A2
     }"

definition adc_init_dev_state :: "adc \<Rightarrow> adc" where
  "adc_init_dev_state =
     upd_dev (\<lambda>d. d\<lparr>seq_id := 0, running := False, ch_active := 0, last_ch_active := 0, force_reseq := False, skip_cycle := False\<rparr>)"

fun adc_init_channels :: "platform_conf \<Rightarrow> (u8 list option \<Rightarrow> nat \<Rightarrow> u8 list option) \<Rightarrow> u8 \<Rightarrow> u32 \<Rightarrow> (u32 \<Rightarrow> u32) \<Rightarrow>
    nat list \<Rightarrow> adc \<Rightarrow> adc option" where
  "adc_init_channels cf ra bs sysclk loaded [] A = Some A"
| "adc_init_channels cf ra bs sysclk loaded (ch # chs) A =
     do { A1 \<leftarrow> adc_init_ch_state cf ra bs sysclk loaded ch A; adc_init_channels cf ra bs sysclk loaded chs A1 }"

definition adcs_init :: "platform_conf \<Rightarrow> (u8 list option \<Rightarrow> nat \<Rightarrow> u8 list option) \<Rightarrow> u8 \<Rightarrow> u32 \<Rightarrow> (u32 \<Rightarrow> u32) \<Rightarrow> adc \<Rightarrow> adc option" where
  "adcs_init cf ra bs sysclk loaded A =
     do {
       A1 \<leftarrow> adc_init_channels cf ra bs sysclk loaded [0..<NUM_ADC cf]
               (call (SysCtlADCSpeedSet 1000) (call (SysCtlADCSpeedSet 500) (call SysCtlPeripheralEnable A)));
       (f, A2) \<leftarrow> platform_adc_set_clock sysclk loaded 0 0 A1;
       Some (call IntEnable (call ADCIntEnable A2))
     }"

section \<open>The interrupt handler\<close>

text \<open>One round of the loop of \<open>ADCIntHandler\<close>; \<open>tmpbuff\<close> holds what the sequencer delivers.\<close>

definition adc_int_sample :: "platform_conf \<Rightarrow> u32 list \<Rightarrow> adc \<Rightarrow> adc option" where
  "adc_int_sample cf tmpbuff A =
     do {
       let d = adc_dev_state A;
       let i = unat (seq_ctr d);
       ch \<leftarrow> (if i < length (ch_state d) \<and> i < length tmpbuff \<and> i < length (sample_buf d) then ch_state d ! i else None);
       let A1 = upd_dev (\<lambda>d. d\<lparr>sample_buf := (sample_buf d)[i := ucast (tmpbuff ! i)]\<rparr>) A;
       s \<leftarrow> adc_get_ch_state A1 ch;
       let s1 = s\<lparr>value_fresh := True\<rparr>;
       let A2 = put_ch ch s1 A1;
       A3 \<leftarrow> (if logsmoothlen s1 > 0 \<and> \<not> smooth_ready s1 then adc_smooth_data cf (ch_id s1) A2
              else if reqsamples s1 > 1
              then do {
                v \<leftarrow> adc_value s1 A2;
                (r, B) \<leftarrow> buf_write cf (adc_bufs A2) BUF_ID_ADC (ch_id s1) (le16 v);
                Some (put_ch ch (s1\<lparr>value_fresh := False\<rparr>) (A2\<lparr>adc_bufs := B\<rparr>))
              }
              else Some A2);
       s3 \<leftarrow> adc_get_ch_state A3 ch;
       n \<leftarrow> adc_samples_available cf (ch_id s3) A3;
       A4 \<leftarrow> (if n \<ge> reqsamples s3 \<and> \<not> freerunning s3 then platform_adc_stop (ch_id s3) A3 else Some A3);
       Some (upd_dev (\<lambda>d. d\<lparr>seq_ctr := seq_ctr d + 1\<rparr>) A4)
     }"

text \<open>The loop counts an 8-bit number up to another one, so 256 rounds are enough.\<close>

fun adc_int_loop :: "nat \<Rightarrow> platform_conf \<Rightarrow> u32 list \<Rightarrow> adc \<Rightarrow> adc option" where
  "adc_int_loop 0 cf tmpbuff A = None"
| "adc_int_loop (Suc fuel) cf tmpbuff A =
     (if seq_ctr (adc_dev_state A) < seq_len (adc_dev_state A)
      then do { A1 \<leftarrow> adc_int_sample cf tmpbuff A; adc_int_loop fuel cf tmpbuff A1 }
      else Some A)"

definition ADCIntHandler :: "platform_conf \<Rightarrow> nat \<Rightarrow> u32 list \<Rightarrow> adc \<Rightarrow> adc option" where
  "ADCIntHandler cf null_id tmpbuff A =
     do {
       A1 \<leftarrow> adc_int_loop 256 cf tmpbuff (upd_dev (\<lambda>d. d\<lparr>seq_ctr := 0\<rparr>) (call ADCIntClear A));
       let A2 = upd_dev (\<lambda>d. d\<lparr>seq_ctr := 0\<rparr>) A1;
       A3 \<leftarrow> (if running (adc_dev_state A2) then adc_update_dev_sequence cf null_id A2 else Some A2);
       Some (if \<not> clocked (adc_dev_state A3) \<and> running (adc_dev_state A3) then call ADCProcessorTrigger A3 else A3)
     }"

text \<open>Waiting: \<open>irqs\<close> are the interrupts to come, each with what the sequencer delivers; one occurs in each round
  of the loop. With none left the loop does not end.\<close>

fun adc_wait_loop :: "platform_conf \<Rightarrow> nat \<Rightarrow> nat \<Rightarrow> u32 \<Rightarrow> u32 list list \<Rightarrow> adc \<Rightarrow> (u32 list list \<times> adc) option" where
  "adc_wait_loop cf null_id ch samples irqs A =
     do {
       s \<leftarrow> adc_get_ch_state A ch;
       n \<leftarrow> adc_samples_available cf ch A;
       if op_pending s \<and> ucast n < samples
       then (case irqs of [] \<Rightarrow> None
             | t # irqs' \<Rightarrow> do { A1 \<leftarrow> ADCIntHandler cf null_id t A; adc_wait_loop cf null_id ch samples irqs' A1 })
       else Some (irqs, A)
     }"

definition adc_wait_samples :: "platform_conf \<Rightarrow> nat \<Rightarrow> nat \<Rightarrow> u32 \<Rightarrow> u32 list list \<Rightarrow> adc \<Rightarrow> (u16 \<times> u32 list list \<times> adc) option" where
  "adc_wait_samples cf null_id ch samples irqs A =
     do {
       s \<leftarrow> adc_get_ch_state A ch;
       n \<leftarrow> adc_samples_available cf ch A;
       (irqs', A1) \<leftarrow> (if ucast n < samples \<and> blocking s then adc_wait_loop cf null_id ch samples irqs A else Some (irqs, A));
       n1 \<leftarrow> adc_samples_available cf ch A1;
       Some (n1, irqs', A1)
     }"

section \<open>The generic functions\<close>

function intlog2_loop :: "u32 \<Rightarrow> u32 \<Rightarrow> u32" where
  "intlog2_loop v r = (let v1 = drop_bit 1 v in if v1 \<noteq> 0 then intlog2_loop v1 (r + 1) else r)"
  by pat_completeness auto
termination
proof (relation "measure (\<lambda>(v, r). unat v)")
  fix v r v1 :: u32
  assume "v1 = drop_bit 1 v" "v1 \<noteq> 0"
  then have "unat v1 = unat v div 2"
    by (simp add: drop_bit_eq_div unat_div)
  moreover have "unat v1 \<noteq> 0"
    using \<open>v1 \<noteq> 0\<close> by (simp only: unat_eq_0 not_False_eq_True)
  ultimately show "((v1, r + 1), v, r) \<in> measure (\<lambda>(v, r). unat v)"
    by simp
qed simp

definition intlog2 :: "u32 \<Rightarrow> u32" where
  "intlog2 v = intlog2_loop v 0"

definition platform_adc_exists :: "platform_conf \<Rightarrow> nat \<Rightarrow> bool" where
  "platform_adc_exists cf ch = (ch < NUM_ADC cf)"

definition platform_adc_set_smoothing :: "platform_conf \<Rightarrow> (u16 list option \<Rightarrow> nat \<Rightarrow> u16 list option) \<Rightarrow> nat \<Rightarrow> u32 \<Rightarrow> adc \<Rightarrow>
    (int \<times> adc) option" where
  "platform_adc_set_smoothing cf ra ch len A = adc_update_smoothing cf ra ch (ucast (intlog2 len)) A"

definition platform_adc_set_blocking :: "nat \<Rightarrow> u32 \<Rightarrow> adc \<Rightarrow> adc option" where
  "platform_adc_set_blocking ch mode A =
     map_option (\<lambda>s. put_ch ch (s\<lparr>blocking := bit mode 0\<rparr>) A) (adc_get_ch_state A ch)"

definition platform_adc_set_freerunning :: "nat \<Rightarrow> u32 \<Rightarrow> adc \<Rightarrow> adc option" where
  "platform_adc_set_freerunning ch mode A =
     map_option (\<lambda>s. put_ch ch (s\<lparr>freerunning := bit mode 0\<rparr>) A) (adc_get_ch_state A ch)"

definition platform_adc_is_done :: "nat \<Rightarrow> adc \<Rightarrow> bool option" where
  "platform_adc_is_done ch A = map_option (\<lambda>s. \<not> op_pending s) (adc_get_ch_state A ch)"

definition platform_adc_set_timer :: "nat \<Rightarrow> nat \<Rightarrow> adc \<Rightarrow> adc option" where
  "platform_adc_set_timer ch timer A =
     do {
       let A1 = (if timer_id (adc_dev_state A) \<noteq> timer then upd_dev (\<lambda>d. d\<lparr>running := False\<rparr>) A else A);
       A2 \<leftarrow> platform_adc_stop ch A1;
       Some (upd_dev (\<lambda>d. d\<lparr>timer_id := timer\<rparr>) A2)
     }"

section \<open>Basic facts\<close>

declare adc_wait_loop.simps [simp del] intlog2_loop.simps [simp del]

lemma get_put_ch [simp]:
  "adc_get_ch_state (put_ch ch s A) c = (if c = ch \<and> ch < length (adc_ch_state A) then Some s else adc_get_ch_state A c)"
  by (auto simp: adc_get_ch_state_def put_ch_def)

lemma adc_sels [simp]:
  "adc_get_ch_state (upd_dev f A) c = adc_get_ch_state A c"
  "adc_get_ch_state (call x A) c = adc_get_ch_state A c"
  "adc_get_ch_state (A\<lparr>adc_bufs := B\<rparr>) c = adc_get_ch_state A c"
  "adc_dev_state (upd_dev f A) = f (adc_dev_state A)"
  "adc_dev_state (put_ch ch s A) = adc_dev_state A"
  "adc_dev_state (call x A) = adc_dev_state A"
  "adc_bufs (upd_dev f A) = adc_bufs A" "adc_bufs (put_ch ch s A) = adc_bufs A" "adc_bufs (call x A) = adc_bufs A"
  "length (adc_ch_state (put_ch ch s A)) = length (adc_ch_state A)"
  "adc_ch_state (upd_dev f A) = adc_ch_state A" "adc_ch_state (call x A) = adc_ch_state A"
  by (simp_all add: adc_get_ch_state_def put_ch_def upd_dev_def call_def)

lemma get_ch_length: "adc_get_ch_state A c = Some s \<Longrightarrow> c < length (adc_ch_state A)"
  by (simp add: adc_get_ch_state_def split: if_splits)

lemma intlog2_loop_eq:
  "unat r + k < 2 ^ 32 \<Longrightarrow> 2 ^ k \<le> unat v \<Longrightarrow> unat v < 2 ^ Suc k \<Longrightarrow> unat (intlog2_loop v r) = unat r + k"
proof (induction k arbitrary: v r)
  case 0
  then have "unat v div 2 = 0" by simp
  moreover have "unat (v div 2) = unat v div 2"
    by (simp add: unat_div)
  ultimately have "v div 2 = 0"
    by (metis unat_eq_0)
  with 0 show ?case
    by (subst intlog2_loop.simps) (simp add: drop_bit_eq_div)
next
  case (Suc k)
  have half: "unat (v div 2) = unat v div 2"
    by (simp add: unat_div)
  moreover have k: "2 ^ k \<le> unat v div 2" "unat v div 2 < 2 ^ Suc k"
    using Suc.prems(2,3) by simp_all
  ultimately have "v div 2 \<noteq> 0"
    by (metis not_le power_not_zero unat_0 zero_less_power zero_less_numeral)
  moreover have "unat (r + 1) = unat r + 1"
    using Suc.prems(1) by (simp add: unat_word_ariths)
  ultimately show ?case
    using Suc.IH [of "r + 1" "v div 2"] Suc.prems(1) k half
    by (subst intlog2_loop.simps) (simp add: drop_bit_eq_div)
qed

lemma intlog2_eq: "2 ^ k \<le> unat v \<Longrightarrow> unat v < 2 ^ Suc k \<Longrightarrow> unat (intlog2 v) = k"
proof -
  assume v: "2 ^ k \<le> unat v" "unat v < 2 ^ Suc k"
  have "unat v < 2 ^ 32" using unsigned_less [of v] by simp
  with v(1) have "(2 :: nat) ^ k < 2 ^ 32" by linarith
  then have "k < 32" by (rule power_less_imp_less_exp [rotated]) simp
  then show ?thesis
    using intlog2_loop_eq [of 0 k v] v by (simp add: intlog2_def)
qed

end
