(* ===== verification/Adc_Sampling.thy ===== *)
theory Adc_Sampling
  imports Adc
begin

text \<open>
  What sampling with the theory \<open>Adc\<close> delivers. The queue of a channel is the character buffer of the theory
  \<open>Buf\<close> with elements of two bytes; the smoothing buffer is a ring, seen here as the window of the last
  samples.
\<close>

unbundle bit_operations_syntax

section \<open>The queue of a channel\<close>

definition adc_queue :: "buf_table \<Rightarrow> nat \<Rightarrow> nat \<Rightarrow> u16 list \<Rightarrow> bool" where
  "adc_queue B ch n q \<longleftrightarrow>
     (\<exists>p. buf_getptr B BUF_ID_ADC ch = Some p \<and> buf_wf p \<and> BUF_REALDSIZE p = 2 \<and> BUF_REALSIZE p = n \<and> buf_elems p = map le16 q)"

lemma adc_resnum [simp]: "bufh_check_resnum cf BUF_ID_ADC ch = ch"
  by (simp add: bufh_check_resnum_def BUF_ID_ADC_def BUF_ID_UART_def)

lemma adc_queue_count:
  assumes "adc_queue B ch n q"
  shows "buf_get_count cf B BUF_ID_ADC ch = Some (length q)" "length q \<le> n" "n \<le> 2 ^ 15"
proof -
  obtain p where p: "buf_getptr B BUF_ID_ADC ch = Some p" "buf_wf p" "BUF_REALSIZE p = n" "buf_elems p = map le16 q"
    using assms by (auto simp: adc_queue_def)
  have "unat (bd_count p) = length q"
    using length_buf_elems [OF p(2)] p(4) by simp
  then show "buf_get_count cf B BUF_ID_ADC ch = Some (length q)" "length q \<le> n"
    using p by (auto simp: buf_get_count_def buf_wf_def)
  show "n \<le> 2 ^ 15"
    using p(2,3) by (auto elim: buf_wfE)
qed

lemma adc_queue_available:
  assumes "adc_queue (adc_bufs A) ch n q" "adc_get_ch_state A ch = Some s"
  shows "adc_samples_available cf ch A = Some (if q = [] then of_bool (value_fresh s) else word_of_nat (length q))"
proof -
  have "length q < 2 ^ 16" using adc_queue_count(2,3) [OF assms(1)] by simp
  then have "unat (word_of_nat (length q) :: u16) = length q"
    by (intro unat_of_nat_less) simp
  then have "(word_of_nat (length q) :: u16) = 0 \<longleftrightarrow> q = []"
    unfolding unat_eq_0 [symmetric] by simp
  then show ?thesis
    using assms(2) by (simp add: adc_samples_available_def adc_queue_count(1) [OF assms(1)] Let_def)
qed

lemma adc_queue_write:
  assumes "adc_queue B ch n q" "length q < n"
  shows "\<exists>B'. buf_write cf B BUF_ID_ADC ch (le16 v) = Some (PLATFORM_OK, B') \<and> adc_queue B' ch n (q @ [v])"
proof -
  obtain p where p: "buf_getptr B BUF_ID_ADC ch = Some p" "buf_wf p" "BUF_REALDSIZE p = 2" "BUF_REALSIZE p = n" "buf_elems p = map le16 q"
    using assms(1) by (auto simp: adc_queue_def)
  have "unat (bd_count p) < BUF_REALSIZE p"
    using length_buf_elems [OF p(2)] p(4,5) assms(2) by simp
  from buf_write_desc_room [OF p(2) _ this, of "le16 v"] p(3) obtain p' where p': "buf_write_desc (le16 v) p = Some (PLATFORM_OK, p')" "buf_wf p'"
      "buf_elems p' = buf_elems p @ [le16 v]" "BUF_REALSIZE p' = BUF_REALSIZE p" "BUF_REALDSIZE p' = BUF_REALDSIZE p"
    by auto
  have "buf_write cf B BUF_ID_ADC ch (le16 v) = Some (PLATFORM_OK, buf_putptr B BUF_ID_ADC ch p')"
    using with_buf_Some [of B BUF_ID_ADC cf ch p] p(1) p'(1) by (simp add: buf_write_def)
  moreover have "adc_queue (buf_putptr B BUF_ID_ADC ch p') ch n (q @ [v])"
    using p p' buf_getptr_putptr [OF p(1)] by (auto simp: adc_queue_def)
  ultimately show ?thesis by blast
qed

lemma adc_queue_read:
  assumes "adc_queue B ch n (v # q)"
  shows "\<exists>B'. buf_read cf B BUF_ID_ADC ch [0, 0] = Some ((PLATFORM_OK, le16 v), B') \<and> adc_queue B' ch n q"
proof -
  obtain p where p: "buf_getptr B BUF_ID_ADC ch = Some p" "buf_wf p" "BUF_REALDSIZE p = 2" "BUF_REALSIZE p = n"
      "buf_elems p = map le16 (v # q)"
    using assms by (auto simp: adc_queue_def)
  have "bd_count p \<noteq> 0"
    using length_buf_elems [OF p(2)] p(5) by auto
  from buf_read_desc_nonempty [OF p(2) this, of "[0, 0]"] p(3,5) obtain p' where p': "buf_read_desc [0, 0] p = Some ((PLATFORM_OK, le16 v), p')"
      "buf_wf p'" "buf_elems p' = map le16 q" "BUF_REALSIZE p' = BUF_REALSIZE p" "BUF_REALDSIZE p' = BUF_REALDSIZE p"
    by auto
  have "buf_read cf B BUF_ID_ADC ch [0, 0] = Some ((PLATFORM_OK, le16 v), buf_putptr B BUF_ID_ADC ch p')"
    using with_buf_Some [of B BUF_ID_ADC cf ch p] p(1) p'(1) by (simp add: buf_read_def)
  moreover have "adc_queue (buf_putptr B BUF_ID_ADC ch p') ch n q"
    using p p' buf_getptr_putptr [OF p(1)] by (auto simp: adc_queue_def)
  ultimately show ?thesis by blast
qed

section \<open>Taking a sample\<close>

lemma put_ch_simps [simp]:
  "put_ch ch s (put_ch ch t A) = put_ch ch s A"
  "(put_ch ch s A)\<lparr>adc_bufs := B\<rparr> = put_ch ch s (A\<lparr>adc_bufs := B\<rparr>)"
  "(upd_dev f A)\<lparr>adc_bufs := B\<rparr> = upd_dev f (A\<lparr>adc_bufs := B\<rparr>)"
  "(call c A)\<lparr>adc_bufs := B\<rparr> = call c (A\<lparr>adc_bufs := B\<rparr>)"
  "put_ch ch s (upd_dev f A) = upd_dev f (put_ch ch s A)"
  "put_ch ch s (call c A) = call c (put_ch ch s A)"
  by (simp_all add: put_ch_def upd_dev_def call_def)

lemma adc_value_cong:
  "value_ptr s = value_ptr t \<Longrightarrow> adc_dev_state A = adc_dev_state A' \<Longrightarrow> adc_value s A = adc_value t A'"
  by (simp add: adc_value_def cong: if_cong)

lemma take_fresh:
  "adc_get_ch_state A ch = Some s \<Longrightarrow> value_fresh s \<Longrightarrow> adc_value s A = Some v \<Longrightarrow>
    adc_take_sample cf ch A = Some (Some v, put_ch ch (s\<lparr>value_fresh := False\<rparr>) A)"
  by (simp add: adc_take_sample_def)

lemma take_queued:
  assumes "adc_get_ch_state A ch = Some s" "\<not> value_fresh s" "adc_queue (adc_bufs A) ch n (v # q)"
  shows "\<exists>B. adc_take_sample cf ch A = Some (Some v, A\<lparr>adc_bufs := B\<rparr>) \<and> adc_queue B ch n q"
proof -
  obtain B where B: "buf_read cf (adc_bufs A) BUF_ID_ADC ch [0, 0] = Some ((PLATFORM_OK, le16 v), B)" "adc_queue B ch n q"
    using adc_queue_read [OF assms(3)] by blast
  then show ?thesis
    using assms(1,2) of_le16_le16 [of v] by (intro exI [of _ B]) (simp add: adc_take_sample_def)
qed

section \<open>Smoothing\<close>

definition smooth_wrap :: "elua_adc_ch_state \<Rightarrow> elua_adc_ch_state" where
  "smooth_wrap s = (if unat (smoothidx s) = SMOOTH_REALSIZE s then s\<lparr>smoothidx := 0, smooth_ready := True\<rparr> else s)"

text \<open>What \<open>adc_smooth_data\<close> does to the channel for the sample \<open>v\<close>.\<close>

definition smooth_step :: "u16 \<Rightarrow> elua_adc_ch_state \<Rightarrow> elua_adc_ch_state" where
  "smooth_step v s =
     (let s1 = smooth_wrap s; i = unat (smoothidx s1)
      in case smoothbuf s1 of
           None \<Rightarrow> s1
         | Some sb \<Rightarrow> s1\<lparr>smoothbuf := Some (sb[i := v]), smoothsum := smoothsum s1 - ucast (sb ! i) + ucast v,
                         smoothidx := smoothidx s1 + 1\<rparr>)"

text \<open>The window: the last \<open>2 ^ L\<close> samples, oldest first.\<close>

definition smooth_inv :: "nat \<Rightarrow> elua_adc_ch_state \<Rightarrow> u16 list \<Rightarrow> bool" where
  "smooth_inv L s w \<longleftrightarrow> unat (logsmoothlen s) = L \<and> unat (smoothidx s) \<le> 2 ^ L \<and>
     (\<exists>sb. smoothbuf s = Some sb \<and> length sb = 2 ^ L \<and> rotate (unat (smoothidx s) mod 2 ^ L) sb = w) \<and>
     unat (smoothsum s) = sum_list (map unat w)"

lemma unat_u16: "unat (a :: u16) < 65536"
  using unsigned_less [of a] by simp

lemma unat_ucast_32: "unat (ucast (v :: u16) :: u32) = unat v"
  by (simp add: unsigned_ucast_eq take_bit_nat_eq_self order_less_le_trans [OF unat_u16])

lemma smooth_inv_length: "smooth_inv L s w \<Longrightarrow> length w = 2 ^ L"
  by (auto simp: smooth_inv_def)

lemma sum_list_window: "length (w :: u16 list) = 2 ^ L \<Longrightarrow> L \<le> 15 \<Longrightarrow> sum_list (map unat w) \<le> 2 ^ 31"
proof -
  assume L: "length w = 2 ^ L" "L \<le> 15"
  have "sum_list (map unat w) \<le> length w * 2 ^ 16"
  proof (induction w)
    case (Cons a w)
    then show ?case using unat_u16 [of a] by simp
  qed simp
  also have "\<dots> \<le> 2 ^ 15 * 2 ^ 16"
    using L power_increasing [of L 15 "2 :: nat"] by simp
  finally show ?thesis by simp
qed

lemma sum_list_rotate: "sum_list (map f (rotate n xs)) = (sum_list (map f xs) :: nat)"
proof -
  have "sum_list (map f (rotate1 ys)) = (sum_list (map f ys) :: nat)" for ys
    by (cases ys) auto
  then show ?thesis
    by (induction n) auto
qed

lemma smooth_step_inv:
  assumes "smooth_inv L s w" "L \<le> 15"
  shows "smooth_inv L (smooth_step v s) (tl w @ [v])"
    and "unat (smoothidx (smooth_step v s)) = unat (smoothidx s) mod 2 ^ L + 1"
    and "smooth_ready (smooth_step v s) \<longleftrightarrow> smooth_ready s \<or> unat (smoothidx s) = 2 ^ L"
proof -
  let ?M = "2 ^ L :: nat"
  obtain sb where sb: "unat (logsmoothlen s) = L" "unat (smoothidx s) \<le> ?M" "smoothbuf s = Some sb" "length sb = ?M"
      "rotate (unat (smoothidx s) mod ?M) sb = w" "unat (smoothsum s) = sum_list (map unat w)"
    using assms(1) by (auto simp: smooth_inv_def)
  define r where "r = unat (smoothidx s) mod ?M"
  have M: "0 < ?M" "?M \<le> 2 ^ 15" using assms(2) power_increasing [of L 15 "2 :: nat"] by auto
  have r: "r < ?M" by (simp add: r_def)
  have wrap: "smoothbuf (smooth_wrap s) = Some sb" "unat (smoothidx (smooth_wrap s)) = r" "smoothsum (smooth_wrap s) = smoothsum s"
      "logsmoothlen (smooth_wrap s) = logsmoothlen s" "smooth_ready (smooth_wrap s) \<longleftrightarrow> smooth_ready s \<or> unat (smoothidx s) = ?M"
    using sb(1-3) by (auto simp: smooth_wrap_def SMOOTH_REALSIZE_def r_def)
  have ne: "sb \<noteq> []" using sb(4) M(1) by auto
  have w: "hd w = sb ! r" "length w = ?M" "w \<noteq> []"
    using sb(4,5) r hd_rotate_conv_nth [OF ne, of r] ne by (auto simp: r_def)
  from w(3) have w1: "w = hd w # tl w" by (rule list.collapse [symmetric])
  show idx: "unat (smoothidx (smooth_step v s)) = unat (smoothidx s) mod ?M + 1"
    using r M(2) wrap unfolding r_def [symmetric] by (simp add: smooth_step_def Let_def unat_word_ariths)
  show "smooth_ready (smooth_step v s) \<longleftrightarrow> smooth_ready s \<or> unat (smoothidx s) = ?M"
    using wrap by (simp add: smooth_step_def Let_def)
  have "rotate (Suc r) (sb[r := v]) = tl w @ [v]"
    using rotate_update [of 0 sb r v] sb(4,5) r w1 by (simp add: r_def [symmetric]) (metis list_update_code(2) rotate1.simps(2))
  then have "rotate ((r + 1) mod ?M) (sb[r := v]) = tl w @ [v]"
    by (metis Suc_eq_plus1 length_list_update rotate_conv_mod sb(4))
  moreover have "unat (smoothsum s - ucast (sb ! r) + ucast v) = sum_list (map unat (tl w @ [v]))"
  proof -
    have sum: "sum_list (map unat w) = unat (sb ! r) + sum_list (map unat (tl w))"
      by (subst w1) (simp add: w(1))
    moreover have "(ucast (sb ! r) :: u32) \<le> smoothsum s"
      unfolding word_le_nat_alt sb(6) sum by (simp add: unat_ucast_32)
    then have "unat (smoothsum s - ucast (sb ! r)) = sum_list (map unat w) - unat (sb ! r)"
      by (simp add: unat_sub sb(6) unat_ucast_32)
    ultimately show ?thesis
      using sum_list_window [OF w(2) assms(2)] unat_u16 [of v] by (simp add: unat_word_ariths unat_ucast_32)
  qed
  ultimately show "smooth_inv L (smooth_step v s) (tl w @ [v])"
    using idx wrap sb(1,4) r unfolding smooth_inv_def
    by (simp add: smooth_step_def Let_def r_def [symmetric])
qed

lemma smooth_wrap_keeps:
  "value_fresh (smooth_wrap s) = value_fresh s" "value_ptr (smooth_wrap s) = value_ptr s" "smoothbuf (smooth_wrap s) = smoothbuf s"
  by (simp_all add: smooth_wrap_def)

lemma smooth_idx_bound:
  assumes "smooth_inv L s w" "smoothbuf s = Some sb"
  shows "unat (smoothidx (smooth_wrap s)) < length sb"
  using assms by (auto simp: smooth_inv_def smooth_wrap_def SMOOTH_REALSIZE_def)

lemma smooth_fresh:
  assumes "adc_get_ch_state A ch = Some s" "smooth_inv L s w" "value_fresh s" "adc_value s A = Some v"
  shows "adc_smooth_data cf ch A = Some (put_ch ch ((smooth_step v s)\<lparr>value_fresh := False\<rparr>) A)"
proof -
  obtain sb where sb: "smoothbuf s = Some sb" using assms(2) by (auto simp: smooth_inv_def)
  note len = get_ch_length [OF assms(1)]
  let ?s1 = "smooth_wrap s"
  let ?s2 = "?s1\<lparr>smoothsum := smoothsum ?s1 - ucast (sb ! unat (smoothidx ?s1))\<rparr>"
  have v: "adc_value ?s2 (put_ch ch ?s2 A) = Some v"
    using assms(4) adc_value_cong [of ?s2 s "put_ch ch ?s2 A" A] by (simp add: smooth_wrap_keeps)
  have "adc_take_sample cf ch (put_ch ch ?s2 A) = Some (Some v, put_ch ch (?s2\<lparr>value_fresh := False\<rparr>) A)"
    using take_fresh [of "put_ch ch ?s2 A" ch ?s2 v cf] v assms(3) len by (simp add: smooth_wrap_keeps)
  moreover have "?s2\<lparr>value_fresh := False, smoothbuf := Some (sb[unat (smoothidx ?s1) := v]),
      smoothsum := smoothsum ?s2 + ucast v, smoothidx := smoothidx ?s1 + 1\<rparr> = (smooth_step v s)\<lparr>value_fresh := False\<rparr>"
    using sb by (intro elua_adc_ch_state.equality) (simp_all add: smooth_step_def Let_def smooth_wrap_keeps)
  ultimately show ?thesis
    using assms(1) len smooth_idx_bound [OF assms(2) sb] sb
    by (simp add: adc_smooth_data_def smooth_wrap_def [symmetric] Let_def smooth_wrap_keeps)
qed

lemma smooth_queued:
  assumes "adc_get_ch_state A ch = Some s" "smooth_inv L s w" "\<not> value_fresh s" "adc_queue (adc_bufs A) ch n (v # q)"
  shows "\<exists>B. adc_smooth_data cf ch A = Some (put_ch ch (smooth_step v s) (A\<lparr>adc_bufs := B\<rparr>)) \<and> adc_queue B ch n q"
proof -
  obtain sb where sb: "smoothbuf s = Some sb" using assms(2) by (auto simp: smooth_inv_def)
  note len = get_ch_length [OF assms(1)]
  let ?s1 = "smooth_wrap s"
  let ?s2 = "?s1\<lparr>smoothsum := smoothsum ?s1 - ucast (sb ! unat (smoothidx ?s1))\<rparr>"
  from take_queued [of "put_ch ch ?s2 A" ch ?s2 n v q cf] obtain B where
    B: "adc_take_sample cf ch (put_ch ch ?s2 A) = Some (Some v, put_ch ch ?s2 (A\<lparr>adc_bufs := B\<rparr>))" "adc_queue B ch n q"
    using assms(3,4) len by (auto simp: smooth_wrap_keeps)
  have "length (adc_ch_state (A\<lparr>adc_bufs := B\<rparr>)) = length (adc_ch_state A)" by simp
  with B show ?thesis
    using assms(1) len smooth_idx_bound [OF assms(2) sb] sb
    by (intro exI [of _ B])
      (simp add: adc_smooth_data_def smooth_wrap_def [symmetric] Let_def smooth_wrap_keeps smooth_step_def)
qed

section \<open>Interrupts\<close>

text \<open>The device samples the channel \<open>ch\<close> only.\<close>

definition dev_on :: "elua_adc_dev_state \<Rightarrow> nat \<Rightarrow> bool" where
  "dev_on d ch \<longleftrightarrow> seq_len d = 1 \<and> ch_state d \<noteq> [] \<and> ch_state d ! 0 = Some ch \<and> sample_buf d \<noteq> [] \<and> ch < 32 \<and>
     ch_active d = push_bit ch 1 \<and> last_ch_active d = ch_active d \<and> \<not> force_reseq d \<and> running d"

text \<open>A channel that waits for \<open>n\<close> samples and has the samples \<open>q\<close> in its queue.\<close>

definition adc_on :: "adc \<Rightarrow> nat \<Rightarrow> elua_adc_ch_state \<Rightarrow> nat \<Rightarrow> u16 list \<Rightarrow> bool" where
  "adc_on A ch s n q \<longleftrightarrow> adc_get_ch_state A ch = Some s \<and> ch_id s = ch \<and> value_ptr s = Some 0 \<and> \<not> value_fresh s \<and>
     op_pending s \<and> \<not> freerunning s \<and> unat (reqsamples s) = n \<and> 1 < n \<and> adc_queue (adc_bufs A) ch n q \<and> length q < n \<and>
     dev_on (adc_dev_state A) ch"

lemma int_loop_single:
  assumes "dev_on d ch" "d = adc_dev_state A" "seq_ctr d = 0" "adc_int_sample cf t A = Some A'"
    and "seq_ctr (adc_dev_state A') = 1" "seq_len (adc_dev_state A') = 1"
  shows "adc_int_loop 256 cf t A = Some A'"
proof -
  have "adc_int_loop (Suc (Suc k)) cf t A = Some A'" for k
    using assms by (simp add: dev_on_def)
  from this [of 254] show ?thesis by simp
qed

text \<open>The state in which the loop of the handler looks at the channel.\<close>

definition int_entry :: "u16 \<Rightarrow> adc \<Rightarrow> adc" where
  "int_entry v A = upd_dev (\<lambda>d. d\<lparr>sample_buf := (sample_buf d)[0 := v]\<rparr>) (upd_dev (\<lambda>d. d\<lparr>seq_ctr := 0\<rparr>) (call ADCIntClear A))"

lemma int_entry_sels [simp]:
  "adc_get_ch_state (int_entry v A) c = adc_get_ch_state A c" "adc_bufs (int_entry v A) = adc_bufs A"
  "length (adc_ch_state (int_entry v A)) = length (adc_ch_state A)"
  by (simp_all add: int_entry_def)

lemma dev_on_upd [simp]:
  "dev_on (d\<lparr>seq_ctr := x\<rparr>) ch = dev_on d ch" "dev_on (d\<lparr>sample_buf := (sample_buf d)[i := v]\<rparr>) ch = dev_on d ch"
  by (simp_all add: dev_on_def)

lemma dev_on_entry: "dev_on (adc_dev_state A) ch \<Longrightarrow> dev_on (adc_dev_state (int_entry v A)) ch"
  "dev_on (adc_dev_state A) ch \<Longrightarrow> sample_buf (adc_dev_state (int_entry v A)) ! 0 = v"
  "dev_on (adc_dev_state A) ch \<Longrightarrow> sample_buf (adc_dev_state (int_entry v A)) \<noteq> []"
  "seq_ctr (adc_dev_state (int_entry v A)) = 0"
  by (simp_all add: int_entry_def dev_on_def)

lemma adc_value_entry:
  assumes "adc_on A ch s n q"
  shows "adc_value (s\<lparr>value_fresh := b\<rparr>) (put_ch ch t (int_entry v A)) = Some v"
  using assms dev_on_entry(2,3) [of A ch v] by (simp add: adc_on_def adc_value_def)

lemma update_sequence_same: "dev_on (adc_dev_state A) ch \<Longrightarrow> seq_ctr (adc_dev_state A) = 0 \<Longrightarrow> ch < length (adc_ch_state A) \<Longrightarrow>
    adc_update_dev_sequence cf null_id A = Some A"
  by (simp add: adc_update_dev_sequence_def dev_on_def adc_get_ch_state_def)

text \<open>The handler, given what its loop does.\<close>

lemma handler_single:
  assumes on: "dev_on (adc_dev_state A) ch" and len: "ch < length (adc_ch_state A')"
    and loop: "adc_int_sample cf [x] (upd_dev (\<lambda>d. d\<lparr>seq_ctr := 0\<rparr>) (call ADCIntClear A)) = Some A'"
    and A': "seq_ctr (adc_dev_state A') = 1" "seq_len (adc_dev_state A') = 1"
      "running (adc_dev_state A') \<Longrightarrow> dev_on (adc_dev_state A') ch"
  shows "\<exists>A2. ADCIntHandler cf null_id [x] A = Some A2 \<and> (\<forall>c. adc_get_ch_state A2 c = adc_get_ch_state A' c) \<and>
    adc_bufs A2 = adc_bufs A' \<and> adc_dev_state A2 = (adc_dev_state A')\<lparr>seq_ctr := 0\<rparr>"
proof -
  have "adc_int_loop 256 cf [x] (upd_dev (\<lambda>d. d\<lparr>seq_ctr := 0\<rparr>) (call ADCIntClear A)) = Some A'"
    using on A' loop by (intro int_loop_single) auto
  moreover have "running (adc_dev_state A') \<Longrightarrow>
      adc_update_dev_sequence cf null_id (upd_dev (\<lambda>d. d\<lparr>seq_ctr := 0\<rparr>) A') = Some (upd_dev (\<lambda>d. d\<lparr>seq_ctr := 0\<rparr>) A')"
    using A'(3) len by (intro update_sequence_same) auto
  ultimately show ?thesis
    by (auto simp: ADCIntHandler_def Let_def)
qed

lemma smooth_step_keeps [simp]:
  "ch_id (smooth_step v s) = ch_id s" "value_ptr (smooth_step v s) = value_ptr s" "value_fresh (smooth_step v s) = value_fresh s"
  "op_pending (smooth_step v s) = op_pending s" "freerunning (smooth_step v s) = freerunning s" "blocking (smooth_step v s) = blocking s"
  "reqsamples (smooth_step v s) = reqsamples s" "logsmoothlen (smooth_step v s) = logsmoothlen s"
  by (simp_all add: smooth_step_def smooth_wrap_def Let_def split: option.split)

lemma smooth_step_fresh: "\<not> value_fresh s \<Longrightarrow> (smooth_step v (s\<lparr>value_fresh := True\<rparr>))\<lparr>value_fresh := False\<rparr> = smooth_step v s"
  by (rule elua_adc_ch_state.equality)
    (auto simp: smooth_step_def smooth_wrap_def SMOOTH_REALSIZE_def Let_def split: option.split)

lemma smooth_inv_fresh [simp]: "smooth_inv L (s\<lparr>value_fresh := b\<rparr>) w = smooth_inv L s w"
  by (simp add: smooth_inv_def)

lemma adc_on_entry: "adc_on A ch s n q \<Longrightarrow> dev_on (adc_dev_state A) ch" "adc_on A ch s n q \<Longrightarrow> ch < length (adc_ch_state A)"
  by (auto simp: adc_on_def intro: get_ch_length)

lemma int_sample_eq:
  assumes "adc_on A ch s n q"
  shows "adc_int_sample cf [x] (upd_dev (\<lambda>d. d\<lparr>seq_ctr := 0\<rparr>) (call ADCIntClear A)) =
    (let v = ucast x; s1 = s\<lparr>value_fresh := True\<rparr>; A2 = put_ch ch s1 (int_entry v A)
     in do {
       A3 \<leftarrow> (if logsmoothlen s > 0 \<and> \<not> smooth_ready s then adc_smooth_data cf ch A2
              else do {
                (r, B) \<leftarrow> buf_write cf (adc_bufs A) BUF_ID_ADC ch (le16 v);
                Some (put_ch ch s (int_entry v (A\<lparr>adc_bufs := B\<rparr>)))
              });
       s3 \<leftarrow> adc_get_ch_state A3 ch;
       k \<leftarrow> adc_samples_available cf (ch_id s3) A3;
       A4 \<leftarrow> (if k \<ge> reqsamples s3 \<and> \<not> freerunning s3 then platform_adc_stop (ch_id s3) A3 else Some A3);
       Some (upd_dev (\<lambda>d. d\<lparr>seq_ctr := seq_ctr d + 1\<rparr>) A4)
     })"
proof -
  have s: "s\<lparr>value_fresh := False\<rparr> = s"
    using assms by (intro elua_adc_ch_state.equality) (auto simp: adc_on_def)
  have one: "(1 :: u16) < reqsamples s"
    using assms by (simp add: adc_on_def word_less_nat_alt)
  have v: "adc_value (s\<lparr>value_fresh := True\<rparr>) (put_ch ch (s\<lparr>value_fresh := True\<rparr>) (int_entry (ucast x) A)) = Some (ucast x)"
    by (rule adc_value_entry [OF assms])
  have B: "(int_entry w A)\<lparr>adc_bufs := B\<rparr> = int_entry w (A\<lparr>adc_bufs := B\<rparr>)" for w B
    by (simp add: int_entry_def)
  show ?thesis
    using assms one v adc_on_entry [OF assms]
    by (simp add: adc_int_sample_def int_entry_def [symmetric] adc_on_def dev_on_def Let_def s B)
qed

lemma handler_warm:
  assumes on: "adc_on A ch s n []" and L: "smooth_inv L s w" "0 < L" and cold: "\<not> smooth_ready s"
  shows "\<exists>A'. ADCIntHandler cf null_id [x] A = Some A' \<and> adc_on A' ch (smooth_step (ucast x) s) n []"
proof -
  let ?v = "ucast x :: u16"
  let ?s1 = "s\<lparr>value_fresh := True\<rparr>"
  define A1 where "A1 = put_ch ch (smooth_step ?v s) (int_entry ?v A)"
  note len = adc_on_entry(2) [OF on]
  have "adc_smooth_data cf ch (put_ch ch ?s1 (int_entry ?v A)) = Some A1"
    using smooth_fresh [of "put_ch ch ?s1 (int_entry ?v A)" ch ?s1 L w ?v cf] adc_value_entry [OF on, of True ?s1 ?v] len L(1) on
    by (simp add: A1_def smooth_step_fresh adc_on_def)
  moreover have "logsmoothlen s > 0"
    using L by (simp add: smooth_inv_def word_less_nat_alt)
  moreover have avail: "adc_samples_available cf ch A1 = Some 0"
    using adc_queue_available [of A1 ch n "[]" "smooth_step ?v s" cf] on len by (simp add: adc_on_def A1_def)
  moreover have "\<not> reqsamples s \<le> 0"
    using on by (auto simp: adc_on_def word_le_nat_alt)
  ultimately have "adc_int_sample cf [x] (upd_dev (\<lambda>d. d\<lparr>seq_ctr := 0\<rparr>) (call ADCIntClear A)) = Some (upd_dev (\<lambda>d. d\<lparr>seq_ctr := seq_ctr d + 1\<rparr>) A1)"
    using int_sample_eq [OF on, of cf x] cold on len by (simp add: A1_def adc_on_def)
  moreover have "dev_on (adc_dev_state A1) ch" "seq_ctr (adc_dev_state A1) = 0"
    using dev_on_entry(1,4) adc_on_entry(1) [OF on] by (simp_all add: A1_def)
  moreover have "dev_on ((adc_dev_state A1)\<lparr>seq_ctr := x\<rparr>) ch" for x
    using calculation(2) by simp
  ultimately show ?thesis
    using handler_single [OF adc_on_entry(1) [OF on], of "upd_dev (\<lambda>d. d\<lparr>seq_ctr := seq_ctr d + 1\<rparr>) A1" cf x null_id] len on
    by (auto simp: A1_def dev_on_def adc_on_def)
qed

lemma handler_write:
  assumes on: "adc_on A ch s n q" and warm: "logsmoothlen s = 0 \<or> smooth_ready s"
  shows "\<exists>A1. adc_queue (adc_bufs A1) ch n (q @ [ucast x]) \<and> adc_get_ch_state A1 ch = Some s \<and> length (adc_ch_state A1) = length (adc_ch_state A) \<and>
    dev_on (adc_dev_state A1) ch \<and> seq_ctr (adc_dev_state A1) = 0 \<and>
    adc_int_sample cf [x] (upd_dev (\<lambda>d. d\<lparr>seq_ctr := 0\<rparr>) (call ADCIntClear A)) =
      map_option (upd_dev (\<lambda>d. d\<lparr>seq_ctr := seq_ctr d + 1\<rparr>)) (if Suc (length q) < n then Some A1 else platform_adc_stop ch A1)"
proof -
  let ?v = "ucast x :: u16"
  note len = adc_on_entry(2) [OF on]
  obtain B where B: "buf_write cf (adc_bufs A) BUF_ID_ADC ch (le16 ?v) = Some (PLATFORM_OK, B)" "adc_queue B ch n (q @ [?v])"
    using adc_queue_write [of "adc_bufs A" ch n q cf ?v] on by (auto simp: adc_on_def)
  define A1 where "A1 = put_ch ch s (int_entry ?v (A\<lparr>adc_bufs := B\<rparr>))"
  have A1: "adc_get_ch_state A1 ch = Some s" "adc_queue (adc_bufs A1) ch n (q @ [?v])" "length (adc_ch_state A1) = length (adc_ch_state A)"
    using B(2) len by (simp_all add: A1_def)
  have "dev_on (adc_dev_state A1) ch" "seq_ctr (adc_dev_state A1) = 0"
    using dev_on_entry(1) [of "A\<lparr>adc_bufs := B\<rparr>" ch ?v] dev_on_entry(4) adc_on_entry(1) [OF on] by (simp_all add: A1_def)
  moreover have "adc_samples_available cf ch A1 = Some (word_of_nat (Suc (length q)))"
    using adc_queue_available [OF A1(2,1), of cf] by simp
  moreover have "unat (word_of_nat (Suc (length q)) :: u16) = Suc (length q)"
    using adc_queue_count(2,3) [OF B(2)] by (intro unat_of_nat_less) simp
  then have "reqsamples s \<le> word_of_nat (Suc (length q)) \<longleftrightarrow> \<not> Suc (length q) < n"
    using on by (auto simp: adc_on_def word_le_nat_alt)
  ultimately show ?thesis
    using int_sample_eq [OF on, of cf x] warm on A1 B(1)
    by (intro exI [of _ A1]) (auto simp: A1_def [symmetric] adc_on_def Let_def map_conv_bind_option comp_def)
qed

lemma handler_sample:
  assumes on: "adc_on A ch s n q" and warm: "logsmoothlen s = 0 \<or> smooth_ready s" and more: "Suc (length q) < n"
  shows "\<exists>A'. ADCIntHandler cf null_id [x] A = Some A' \<and> adc_on A' ch s n (q @ [ucast x])"
proof -
  obtain A1 where A1: "adc_queue (adc_bufs A1) ch n (q @ [ucast x])" "adc_get_ch_state A1 ch = Some s"
      "length (adc_ch_state A1) = length (adc_ch_state A)" "dev_on (adc_dev_state A1) ch" "seq_ctr (adc_dev_state A1) = 0"
      "adc_int_sample cf [x] (upd_dev (\<lambda>d. d\<lparr>seq_ctr := 0\<rparr>) (call ADCIntClear A)) = Some (upd_dev (\<lambda>d. d\<lparr>seq_ctr := seq_ctr d + 1\<rparr>) A1)"
    using handler_write [OF on warm, of x cf] more by auto
  have "dev_on ((adc_dev_state A1)\<lparr>seq_ctr := x\<rparr>) ch" for x
    using A1(4) by simp
  then show ?thesis
    using handler_single [OF adc_on_entry(1) [OF on] _ A1(6), of null_id] A1 adc_on_entry(2) [OF on] on more
    by (auto simp: dev_on_def adc_on_def)
qed

text \<open>A channel that has its samples.\<close>

definition adc_done :: "adc \<Rightarrow> nat \<Rightarrow> elua_adc_ch_state \<Rightarrow> nat \<Rightarrow> u16 list \<Rightarrow> bool" where
  "adc_done A ch s n q \<longleftrightarrow> adc_get_ch_state A ch = Some s \<and> \<not> value_fresh s \<and> \<not> op_pending s \<and> adc_queue (adc_bufs A) ch n q"

lemma handler_last:
  assumes on: "adc_on A ch s n q" and warm: "logsmoothlen s = 0 \<or> smooth_ready s" and last: "Suc (length q) = n"
  shows "\<exists>A'. ADCIntHandler cf null_id [x] A = Some A' \<and> adc_done A' ch (s\<lparr>op_pending := False\<rparr>) n (q @ [ucast x])"
proof -
  obtain A1 where A1: "adc_queue (adc_bufs A1) ch n (q @ [ucast x])" "adc_get_ch_state A1 ch = Some s"
      "length (adc_ch_state A1) = length (adc_ch_state A)" "dev_on (adc_dev_state A1) ch" "seq_ctr (adc_dev_state A1) = 0"
      "adc_int_sample cf [x] (upd_dev (\<lambda>d. d\<lparr>seq_ctr := 0\<rparr>) (call ADCIntClear A)) =
         map_option (upd_dev (\<lambda>d. d\<lparr>seq_ctr := seq_ctr d + 1\<rparr>)) (platform_adc_stop ch A1)"
    using handler_write [OF on warm, of x cf] last by auto
  have "ch_active (adc_dev_state A1) AND NOT (push_bit ch 1) = 0"
    using A1(4) by (simp add: dev_on_def)
  then obtain A2 where A2: "platform_adc_stop ch A1 = Some A2" "adc_get_ch_state A2 ch = Some (s\<lparr>op_pending := False\<rparr>)"
      "adc_bufs A2 = adc_bufs A1" "\<not> running (adc_dev_state A2)" "seq_ctr (adc_dev_state A2) = 0" "seq_len (adc_dev_state A2) = 1"
      "length (adc_ch_state A2) = length (adc_ch_state A1)"
    using A1(2,4,5) get_ch_length [OF A1(2)] by (simp add: platform_adc_stop_def INACTIVATE_CHANNEL_def dev_on_def Let_def)
  have "adc_int_sample cf [x] (upd_dev (\<lambda>d. d\<lparr>seq_ctr := 0\<rparr>) (call ADCIntClear A)) = Some (upd_dev (\<lambda>d. d\<lparr>seq_ctr := seq_ctr d + 1\<rparr>) A2)"
    using A1(6) A2(1) by simp
  from handler_single [OF adc_on_entry(1) [OF on] _ this, of null_id] show ?thesis
    using A1 A2 adc_on_entry(2) [OF on] on by (auto simp: adc_done_def adc_on_def)
qed

section \<open>Waiting and reading\<close>

lemma adc_on_available:
  assumes "adc_on A ch s n q"
  shows "adc_samples_available cf ch A = Some (word_of_nat (length q))" "(ucast (word_of_nat (length q) :: u16) :: u32) < word_of_nat n"
proof -
  have q: "adc_queue (adc_bufs A) ch n q" "length q < n" and g: "adc_get_ch_state A ch = Some s" "\<not> value_fresh s"
    using assms by (simp_all add: adc_on_def)
  have bound: "length q < 2 ^ 16" "n < 2 ^ 32" using q(2) adc_queue_count(3) [OF q(1)] by simp_all
  show "adc_samples_available cf ch A = Some (word_of_nat (length q))"
    using adc_queue_available [OF q(1) g(1)] g(2) by simp
  have "unat (word_of_nat (length q) :: u16) = length q" "unat (word_of_nat n :: u32) = n"
    using bound by (intro unat_of_nat_less; simp)+
  then show "(ucast (word_of_nat (length q) :: u16) :: u32) < word_of_nat n"
    using q(2) by (simp add: word_less_nat_alt unat_ucast_32)
qed

lemma wait_step:
  assumes "adc_on A ch s n q" "ADCIntHandler cf null_id t A = Some A1"
  shows "adc_wait_loop cf null_id ch (word_of_nat n) (t # irqs) A = adc_wait_loop cf null_id ch (word_of_nat n) irqs A1"
  using assms adc_on_available(1) [OF assms(1), of cf] adc_on_available(2) [OF assms(1)] by (subst adc_wait_loop.simps) (simp add: adc_on_def)

lemma wait_done:
  assumes "adc_done A ch s n q"
  shows "adc_wait_loop cf null_id ch m irqs A = Some (irqs, A)"
  using assms adc_queue_available [of A ch n q s cf] by (subst adc_wait_loop.simps) (simp add: adc_done_def)

lemma wait_samples:
  assumes "adc_on A ch s n q" "logsmoothlen s = 0 \<or> smooth_ready s" "length q + length ds = n"
  shows "\<exists>A'. adc_wait_loop cf null_id ch (word_of_nat n) (map (\<lambda>x. [x]) ds @ irqs) A = Some (irqs, A') \<and>
    adc_done A' ch (s\<lparr>op_pending := False\<rparr>) n (q @ map ucast ds)"
  using assms
proof (induction ds arbitrary: A q)
  case Nil
  then show ?case by (simp add: adc_on_def)
next
  case (Cons x ds)
  show ?case
  proof (cases ds)
    case Nil
    then obtain A1 where A1: "ADCIntHandler cf null_id [x] A = Some A1" "adc_done A1 ch (s\<lparr>op_pending := False\<rparr>) n (q @ [ucast x])"
      using handler_last [OF Cons.prems(1,2), of cf null_id x] Cons.prems(3) by auto
    then show ?thesis
      using wait_step [OF Cons.prems(1) A1(1), of irqs] wait_done [OF A1(2)] Nil by simp
  next
    case (Cons y ds')
    then obtain A1 where A1: "ADCIntHandler cf null_id [x] A = Some A1" "adc_on A1 ch s n (q @ [ucast x])"
      using handler_sample [OF Cons.prems(1,2), of cf null_id x] Cons.prems(3) by auto
    with Cons.IH [OF A1(2) Cons.prems(2)] Cons.prems(3) show ?thesis
      using wait_step [OF Cons.prems(1) A1(1), of "map (\<lambda>x. [x]) ds @ irqs"] by simp
  qed
qed

lemma wait_warm:
  assumes "adc_on A ch s n []" "smooth_inv L s w" "0 < L" "L \<le> 15" "\<not> smooth_ready s" "unat (smoothidx s) + length ws \<le> 2 ^ L"
  shows "\<exists>A'. adc_wait_loop cf null_id ch (word_of_nat n) (map (\<lambda>x. [x]) ws @ irqs) A = adc_wait_loop cf null_id ch (word_of_nat n) irqs A' \<and>
    adc_on A' ch (fold smooth_step (map ucast ws) s) n [] \<and> \<not> smooth_ready (fold smooth_step (map ucast ws) s) \<and>
    unat (smoothidx (fold smooth_step (map ucast ws) s)) = unat (smoothidx s) + length ws"
  using assms
proof (induction ws arbitrary: A s w)
  case Nil
  then show ?case by auto
next
  case (Cons x ws)
  let ?s1 = "smooth_step (ucast x) s"
  obtain A1 where A1: "ADCIntHandler cf null_id [x] A = Some A1" "adc_on A1 ch ?s1 n []"
    using handler_warm [OF Cons.prems(1-3,5), of cf null_id x] by auto
  note step = smooth_step_inv [OF Cons.prems(2,4), of "ucast x"]
  have "unat (smoothidx s) < 2 ^ L" using Cons.prems(6) by simp
  then have s1: "\<not> smooth_ready ?s1" "unat (smoothidx ?s1) = Suc (unat (smoothidx s))"
    using step(2,3) Cons.prems(5) by auto
  from Cons.IH [OF A1(2) step(1) Cons.prems(3,4) s1(1)] s1(2) Cons.prems(6) show ?case
    using wait_step [OF Cons.prems(1) A1(1), of "map (\<lambda>x. [x]) ws @ irqs"] by simp
qed

lemma fold_smooth_inv:
  "smooth_inv L s w \<Longrightarrow> L \<le> 15 \<Longrightarrow> smooth_inv L (fold smooth_step vs s) (drop (length vs) (w @ vs))"
proof (induction vs arbitrary: s w)
  case (Cons v vs)
  have "w \<noteq> []" using Cons.prems(1) by (auto simp: smooth_inv_def)
  then have "drop (length vs) ((tl w @ [v]) @ vs) = drop (length (v # vs)) (w @ v # vs)"
    by (cases w) auto
  with Cons.IH [OF smooth_step_inv(1) [OF Cons.prems, of v] Cons.prems(2)] show ?case
    by simp
qed simp

text \<open>The client reads its samples one by one.\<close>

fun adc_read_all :: "platform_conf \<Rightarrow> nat \<Rightarrow> nat \<Rightarrow> adc \<Rightarrow> (u16 list \<times> adc) option" where
  "adc_read_all cf ch 0 A = Some ([], A)"
| "adc_read_all cf ch (Suc k) A =
     do { (v, A1) \<leftarrow> adc_get_processed_sample cf ch A; (vs, A2) \<leftarrow> adc_read_all cf ch k A1; Some (v # vs, A2) }"

text \<open>The mean of the last \<open>2 ^ L\<close> samples, rounded down.\<close>

definition window_mean :: "nat \<Rightarrow> u16 list \<Rightarrow> u16" where
  "window_mean L xs = word_of_nat (sum_list (map unat (drop (length xs - 2 ^ L) xs)) div 2 ^ L)"

definition taken_req :: "elua_adc_ch_state \<Rightarrow> elua_adc_ch_state" where
  "taken_req s = (if reqsamples s > 0 then s\<lparr>reqsamples := reqsamples s - 1\<rparr> else s)"

lemma taken_req_keeps [simp]:
  "value_fresh (taken_req s) = value_fresh s" "op_pending (taken_req s) = op_pending s" "logsmoothlen (taken_req s) = logsmoothlen s"
  "smooth_ready (taken_req s) = smooth_ready s" "smooth_inv L (taken_req s) w = smooth_inv L s w" "smoothsum (taken_req s) = smoothsum s"
  by (simp_all add: taken_req_def smooth_inv_def)

lemma queued_available:
  assumes "adc_queue (adc_bufs A) ch n (v # q)" "adc_get_ch_state A ch = Some s"
  shows "\<exists>k. adc_samples_available cf ch A = Some k \<and> k > 0"
proof -
  have "length (v # q) < 2 ^ 16" using adc_queue_count(2,3) [OF assms(1)] by simp
  then have "unat (word_of_nat (length (v # q)) :: u16) = length (v # q)"
    by (intro unat_of_nat_less) simp
  then have "(word_of_nat (length (v # q)) :: u16) > 0"
    unfolding word_less_nat_alt by simp
  with adc_queue_available [OF assms, of cf] show ?thesis by simp
qed

lemma read_smooth:
  assumes "adc_done A ch s n (v # q)" "smooth_inv L s w" "0 < L" "L \<le> 15" "smooth_ready s"
  shows "\<exists>A' s'. adc_get_processed_sample cf ch A = Some (window_mean L (tl w @ [v]), A') \<and> adc_done A' ch s' n q \<and>
    smooth_inv L s' (tl w @ [v]) \<and> smooth_ready s'"
proof -
  have g: "adc_get_ch_state A ch = Some s" "\<not> value_fresh s" "\<not> op_pending s" "adc_queue (adc_bufs A) ch n (v # q)"
    using assms(1) by (simp_all add: adc_done_def)
  obtain B where B: "adc_smooth_data cf ch A = Some (put_ch ch (smooth_step v s) (A\<lparr>adc_bufs := B\<rparr>))" "adc_queue B ch n q"
    using smooth_queued [OF g(1) assms(2) g(2,4), of cf] by blast
  note inv = smooth_step_inv [OF assms(2,4), of v]
  have sum: "unat (smoothsum (smooth_step v s)) = sum_list (map unat (tl w @ [v]))" "length (tl w @ [v]) = 2 ^ L"
    using inv(1) smooth_inv_length [OF inv(1)] by (simp_all add: smooth_inv_def)
  have "(ucast (drop_bit L (smoothsum (smooth_step v s))) :: u16) = word_of_nat (unat (drop_bit L (smoothsum (smooth_step v s))))"
    by (rule of_nat_unat [symmetric])
  also have "\<dots> = window_mean L (tl w @ [v])"
    unfolding window_mean_def unat_drop_bit_eq sum using sum(2) by (simp add: drop_bit_eq_div)
  finally have mean: "(ucast (drop_bit L (smoothsum (smooth_step v s))) :: u16) = window_mean L (tl w @ [v])" .
  obtain k where k: "adc_samples_available cf ch A = Some k" "k > 0"
    using queued_available [OF g(4,1)] by blast
  have L: "logsmoothlen s > 0" "unat (logsmoothlen s) = L"
    using assms(2,3) by (auto simp: smooth_inv_def word_less_nat_alt)
  have "adc_get_processed_sample cf ch A = Some (window_mean L (tl w @ [v]), put_ch ch (taken_req (smooth_step v s)) (A\<lparr>adc_bufs := B\<rparr>))"
    using k L g(1) B(1) assms(5) mean get_ch_length [OF g(1)]
    by (simp add: adc_get_processed_sample_def taken_req_def [symmetric] Let_def)
  then show ?thesis
    using inv(1,3) g(2,3) B(2) assms(5) get_ch_length [OF g(1)] by (auto simp: adc_done_def)
qed

lemma read_queued:
  assumes "adc_get_ch_state A ch = Some s" "\<not> value_fresh s" "adc_queue (adc_bufs A) ch n (v # q)" "logsmoothlen s = 0"
  shows "\<exists>B. adc_get_processed_sample cf ch A = Some (v, put_ch ch (taken_req s) (A\<lparr>adc_bufs := B\<rparr>)) \<and> adc_queue B ch n q"
proof -
  obtain B where B: "adc_take_sample cf ch A = Some (Some v, A\<lparr>adc_bufs := B\<rparr>)" "adc_queue B ch n q"
    using take_queued [OF assms(1-3)] by blast
  obtain k where k: "adc_samples_available cf ch A = Some k" "k > 0"
    using queued_available [OF assms(3,1)] by blast
  show ?thesis
    using k assms(1,4) B by (intro exI [of _ B]) (simp add: adc_get_processed_sample_def taken_req_def [symmetric] Let_def)
qed

lemma read_plain:
  assumes "adc_done A ch s n (v # q)" "logsmoothlen s = 0"
  shows "\<exists>A' s'. adc_get_processed_sample cf ch A = Some (v, A') \<and> adc_done A' ch s' n q \<and> logsmoothlen s' = 0"
  using assms read_queued [of A ch s n v q cf] get_ch_length [of A ch s]
  by (fastforce simp: adc_done_def)

lemma window_mean_append: "2 ^ L \<le> length ys \<Longrightarrow> window_mean L (xs @ ys) = window_mean L ys"
  by (simp add: window_mean_def)

lemma window_mean_0: "xs \<noteq> [] \<Longrightarrow> window_mean 0 xs = last xs"
  by (induction xs rule: rev_induct) (simp_all add: window_mean_def)

lemma read_all_smooth:
  assumes "adc_done A ch s n q" "smooth_inv L s w" "0 < L" "L \<le> 15" "smooth_ready s"
  shows "\<exists>A'. adc_read_all cf ch (length q) A = Some (map (\<lambda>i. window_mean L (w @ take (Suc i) q)) [0..<length q], A')"
  using assms
proof (induction q arbitrary: A s w)
  case (Cons v q)
  obtain A1 s1 where 1: "adc_get_processed_sample cf ch A = Some (window_mean L (tl w @ [v]), A1)" "adc_done A1 ch s1 n q"
      "smooth_inv L s1 (tl w @ [v])" "smooth_ready s1"
    using read_smooth [OF Cons.prems, of cf] by blast
  obtain x w' where w: "w = x # w'" using smooth_inv_length [OF Cons.prems(2)] by (cases w) auto
  have shift: "window_mean L (tl w @ [v] @ us) = window_mean L (w @ v # us)" for us
    using window_mean_append [of L "w' @ v # us" "[x]"] smooth_inv_length [OF Cons.prems(2)] by (simp add: w)
  obtain A2 where "adc_read_all cf ch (length q) A1 = Some (map (\<lambda>i. window_mean L ((tl w @ [v]) @ take (Suc i) q)) [0..<length q], A2)"
    using Cons.IH [OF 1(2,3) Cons.prems(3,4) 1(4)] by blast
  with 1(1) show ?case
    using shift [of "[]"] shift by (simp add: map_upt_Suc del: upt_Suc)
qed simp

lemma read_all_plain:
  assumes "adc_done A ch s n q" "logsmoothlen s = 0"
  shows "\<exists>A'. adc_read_all cf ch (length q) A = Some (q, A')"
  using assms
proof (induction q arbitrary: A s)
  case (Cons v q)
  obtain A1 s1 where 1: "adc_get_processed_sample cf ch A = Some (v, A1)" "adc_done A1 ch s1 n q" "logsmoothlen s1 = 0"
    using read_plain [OF Cons.prems, of cf] by blast
  with Cons.IH [OF 1(2,3)] show ?case by auto
qed simp

text \<open>A channel with an empty smoothing buffer.\<close>

definition smooth_empty :: "nat \<Rightarrow> elua_adc_ch_state \<Rightarrow> bool" where
  "smooth_empty L s \<longleftrightarrow> (if L = 0 then logsmoothlen s = 0
     else smooth_inv L s (replicate (2 ^ L) 0) \<and> smoothidx s = 0 \<and> \<not> smooth_ready s)"

text \<open>The number of samples that the smoothing takes before the first one is delivered.\<close>

definition warm_up :: "nat \<Rightarrow> nat" where
  "warm_up L = (if L = 0 then 0 else 2 ^ L + 1)"

lemma wait_and_read:
  assumes on: "adc_on A ch s n []" and s: "smooth_empty L s" "L \<le> 15" "blocking s" and ws: "length ws = warm_up L" and ds: "length ds = n"
  shows "\<exists>A1 A2. adc_wait_samples cf null_id ch (word_of_nat n) (map (\<lambda>x. [x]) (ws @ ds) @ irqs) A = Some (word_of_nat n, irqs, A1) \<and>
    adc_read_all cf ch n A1 = Some (map (\<lambda>i. window_mean L (map ucast ws @ map ucast (take (Suc i) ds))) [0..<n], A2)"
proof -
  have start: "adc_wait_samples cf null_id ch (word_of_nat n) is A =
      do { (irqs', A1) \<leftarrow> adc_wait_loop cf null_id ch (word_of_nat n) is A; n1 \<leftarrow> adc_samples_available cf ch A1; Some (n1, irqs', A1) }" for "is"
    using adc_on_available(1) [OF on, of cf] adc_on_available(2) [OF on] on s(3) by (simp add: adc_wait_samples_def adc_on_def)
  have fin: "adc_samples_available cf ch A1 = Some (word_of_nat n)" if "adc_done A1 ch t n (map ucast ds)" for A1 t
    using that adc_queue_available [of A1 ch n "map ucast ds" t cf] ds on by (auto simp: adc_done_def adc_on_def)
  show ?thesis
  proof (cases "L = 0")
    case True
    then have "logsmoothlen s = 0" "ws = []" using s(1) ws by (auto simp: smooth_empty_def warm_up_def)
    moreover obtain A1 where A1: "adc_wait_loop cf null_id ch (word_of_nat n) (map (\<lambda>x. [x]) ds @ irqs) A = Some (irqs, A1)"
        "adc_done A1 ch (s\<lparr>op_pending := False\<rparr>) n (map ucast ds)"
      using wait_samples [OF on, of ds cf null_id irqs] calculation ds by auto
    moreover obtain A2 where "adc_read_all cf ch n A1 = Some (map ucast ds, A2)"
      using read_all_plain [OF A1(2), of cf] calculation(1) ds by auto
    moreover have "map (\<lambda>i. window_mean L (map ucast (take (Suc i) ds))) [0..<n] = (map ucast ds :: u16 list)"
      using ds True by (intro nth_equalityI) (auto simp: window_mean_0 last_map take_Suc_conv_app_nth)
    ultimately show ?thesis
      using start fin [OF A1(2)] by simp
  next
    case False
    obtain ws' x where x: "ws = ws' @ [x]" "length ws' = 2 ^ L"
      using ws False by (cases ws rule: rev_cases) (auto simp: warm_up_def)
    have inv: "smooth_inv L s (replicate (2 ^ L) 0)" "smoothidx s = 0" "\<not> smooth_ready s"
      using s(1) False by (auto simp: smooth_empty_def)
    let ?s1 = "fold smooth_step (map ucast ws') s"
    let ?s2 = "smooth_step (ucast x) ?s1"
    obtain A1 where A1: "adc_wait_loop cf null_id ch (word_of_nat n) (map (\<lambda>x. [x]) (ws @ ds) @ irqs) A =
          adc_wait_loop cf null_id ch (word_of_nat n) ([x] # map (\<lambda>x. [x]) ds @ irqs) A1"
        "adc_on A1 ch ?s1 n []" "\<not> smooth_ready ?s1" "unat (smoothidx ?s1) = 2 ^ L"
      using wait_warm [OF on inv(1) _ s(2) inv(3), of ws' cf null_id "[x] # map (\<lambda>x. [x]) ds @ irqs"] inv(2) x False by auto
    have inv1: "smooth_inv L ?s1 (map ucast ws')"
      using fold_smooth_inv [OF inv(1) s(2), of "map ucast ws'"] x(2) by simp
    note inv2 = smooth_step_inv [OF inv1 s(2), of "ucast x"]
    obtain A2 where A2: "ADCIntHandler cf null_id [x] A1 = Some A2" "adc_on A2 ch ?s2 n []"
      using handler_warm [OF A1(2) inv1 _ A1(3), of cf null_id x] False by auto
    have ready: "smooth_ready ?s2" using inv2(3) A1(4) by simp
    obtain A3 where A3: "adc_wait_loop cf null_id ch (word_of_nat n) (map (\<lambda>x. [x]) ds @ irqs) A2 = Some (irqs, A3)"
        "adc_done A3 ch (?s2\<lparr>op_pending := False\<rparr>) n (map ucast ds)"
      using wait_samples [OF A2(2), of ds cf null_id irqs] ready ds by auto
    have "smooth_inv L (?s2\<lparr>op_pending := False\<rparr>) (tl (map ucast ws') @ [ucast x])"
      using inv2(1) by (simp add: smooth_inv_def)
    from read_all_smooth [OF A3(2) this, of cf] obtain A4 where A4: "adc_read_all cf ch n A3 =
        Some (map (\<lambda>i. window_mean L ((tl (map ucast ws') @ [ucast x]) @ take (Suc i) (map ucast ds))) [0..<n], A4)"
      using False s(2) ready ds by auto
    obtain y ws'' where y: "ws' = y # ws''" using x(2) by (cases ws') auto
    have "window_mean L ((tl (map ucast ws') @ [ucast x]) @ us) = window_mean L (map ucast ws @ us)" for us
      using window_mean_append [of L "(map ucast ws'' @ [ucast x]) @ us" "[ucast y]"] x y by simp
    then show ?thesis
      using A4 start fin [OF A3(2)] A1(1) A3(1) wait_step [OF A1(2) A2(1), of "map (\<lambda>x. [x]) ds @ irqs"] by (simp add: take_map)
  qed
qed

section \<open>A filter that has warmed up\<close>

text \<open>The interrupts of the converter, each with what the sequencer delivers.\<close>

fun adc_interrupts :: "platform_conf \<Rightarrow> nat \<Rightarrow> u32 list list \<Rightarrow> adc \<Rightarrow> adc option" where
  "adc_interrupts cf null_id [] A = Some A"
| "adc_interrupts cf null_id (t # ts) A = do { A1 \<leftarrow> ADCIntHandler cf null_id t A; adc_interrupts cf null_id ts A1 }"

text \<open>The filter is off, or it holds the last samples \<open>w\<close>.\<close>

definition filter_ready :: "nat \<Rightarrow> elua_adc_ch_state \<Rightarrow> u16 list \<Rightarrow> bool" where
  "filter_ready L s w \<longleftrightarrow> (if L = 0 then logsmoothlen s = 0 else smooth_inv L s w \<and> smooth_ready s)"

lemma interrupts_more:
  "adc_on A ch s n q \<Longrightarrow> logsmoothlen s = 0 \<or> smooth_ready s \<Longrightarrow> length q + length ds < n \<Longrightarrow>
   \<exists>A'. adc_interrupts cf null_id (map (\<lambda>x. [x]) ds) A = Some A' \<and> adc_on A' ch s n (q @ map ucast ds)"
proof (induction ds arbitrary: A q)
  case (Cons x ds)
  obtain A1 where "ADCIntHandler cf null_id [x] A = Some A1" "adc_on A1 ch s n (q @ [ucast x])"
    using handler_sample [OF Cons.prems(1,2), of cf null_id x] Cons.prems(3) by auto
  with Cons.IH [of A1 "q @ [ucast x]"] Cons.prems(2,3) show ?case by auto
qed simp

lemma interrupts_append:
  "adc_interrupts cf null_id (ts @ us) A = do { A1 \<leftarrow> adc_interrupts cf null_id ts A; adc_interrupts cf null_id us A1 }"
  by (induction ts arbitrary: A) (auto split: bind_split)

lemma interrupts_all:
  assumes "adc_on A ch s n q" "logsmoothlen s = 0 \<or> smooth_ready s" "length q + length ds = n"
  shows "\<exists>A'. adc_interrupts cf null_id (map (\<lambda>x. [x]) ds) A = Some A' \<and> adc_done A' ch (s\<lparr>op_pending := False\<rparr>) n (q @ map ucast ds)"
proof -
  obtain ds' x where ds: "ds = ds' @ [x]" using assms(1,3) by (cases ds rule: rev_cases) (auto simp: adc_on_def)
  obtain A1 where A1: "adc_interrupts cf null_id (map (\<lambda>x. [x]) ds') A = Some A1" "adc_on A1 ch s n (q @ map ucast ds')"
    using interrupts_more [OF assms(1,2), of ds' cf null_id] assms(3) ds by auto
  obtain A2 where "ADCIntHandler cf null_id [x] A1 = Some A2" "adc_done A2 ch (s\<lparr>op_pending := False\<rparr>) n ((q @ map ucast ds') @ [ucast x])"
    using handler_last [OF A1(2) assms(2), of cf null_id x] assms(3) ds by auto
  with A1(1) ds show ?thesis by (auto simp: interrupts_append)
qed

lemma read_all_filtered:
  assumes "adc_done A ch s n q" "filter_ready L s w" "L \<le> 15"
  shows "\<exists>A'. adc_read_all cf ch (length q) A = Some (map (\<lambda>i. window_mean L (w @ take (Suc i) q)) [0..<length q], A')"
proof (cases "L = 0")
  case True
  have "map (\<lambda>i. window_mean 0 (w @ take (Suc i) q)) [0..<length q] = q"
    by (intro nth_equalityI) (auto simp: window_mean_0 take_Suc_conv_app_nth)
  with True show ?thesis using read_all_plain [OF assms(1), of cf] assms(2) by (simp add: filter_ready_def)
next
  case False
  with read_all_smooth [OF assms(1) _ _ assms(3), of w cf] assms(2) show ?thesis by (simp add: filter_ready_def)
qed

end
