(* ===== verification/Adc_Setup.thy ===== *)
theory Adc_Setup
  imports Adc_Sampling
begin

text \<open>
  The sequence of the channels to be sampled, setting up a channel, and sampling from the set-up to the
  values that the client reads.
\<close>

unbundle bit_operations_syntax

section \<open>The sequence\<close>

lemma active_bit: "(w :: u32) AND 2 ^ c > 0 \<longleftrightarrow> bit w c"
  by (simp add: bit_iff_and_push_bit_not_eq_0 word_neq_0_conv)

definition point_at :: "nat \<Rightarrow> elua_adc_ch_state \<Rightarrow> elua_adc_ch_state" where
  "point_at i s = s\<lparr>value_ptr := Some i, value_fresh := False\<rparr>"

lemma seq_loop_eq:
  assumes "distinct chs" "\<forall>c\<in>set chs. c < length (adc_ch_state A)" "unat (seq_ctr (adc_dev_state A)) = k"
    and "F = filter (bit (ch_active (adc_dev_state A))) chs"
    and "k + length F \<le> length (ch_state (adc_dev_state A))" "k + length F < 256"
  shows "\<exists>A' tmp'. adc_seq_loop previd chs (A, tmp) = Some (A', tmp') \<and>
    adc_dev_state A' = (adc_dev_state A)\<lparr>ch_state := take k (ch_state (adc_dev_state A)) @ map Some F @ drop (k + length F) (ch_state (adc_dev_state A)),
      seq_ctr := word_of_nat (k + length F)\<rparr> \<and>
    adc_bufs A' = adc_bufs A \<and> adc_calls A' = adc_calls A \<and> length (adc_ch_state A') = length (adc_ch_state A) \<and>
    (\<forall>c. c \<notin> set F \<longrightarrow> adc_get_ch_state A' c = adc_get_ch_state A c) \<and>
    (\<forall>j < length F. adc_get_ch_state A' (F ! j) = map_option (point_at (k + j)) (adc_get_ch_state A (F ! j)))"
  using assms
proof (induction chs arbitrary: A k tmp F)
  case Nil
  have "word_of_nat k = seq_ctr (adc_dev_state A)" using Nil.prems(3) by auto
  then show ?case using Nil.prems by simp
next
  case (Cons c chs)
  let ?d = "adc_dev_state A"
  show ?case
  proof (cases "bit (ch_active ?d) c")
    case False
    then have "adc_seq_loop previd (c # chs) (A, tmp) = adc_seq_loop previd chs (A, tmp)"
      by (simp add: adc_seq_step_def active_bit Let_def)
    moreover have "F = filter (bit (ch_active ?d)) chs"
      using Cons.prems(4) False by simp
    ultimately show ?thesis
      using Cons.IH [of A k F tmp] Cons.prems by simp
  next
    case True
    define G where "G = filter (bit (ch_active ?d)) chs"
    have F: "F = c # G" using Cons.prems(4) True by (simp add: G_def)
    obtain s where s: "adc_get_ch_state A c = Some s" "c < length (adc_ch_state A)"
      using Cons.prems(2) by (auto simp: adc_get_ch_state_def)
    have k: "k < length (ch_state ?d)" "k < 255" using Cons.prems(5,6) F by simp_all
    define A1 where "A1 = upd_dev (\<lambda>d. d\<lparr>ch_state := (ch_state d)[k := Some c], seq_ctr := seq_ctr d + 1\<rparr>) (put_ch c (point_at k s) A)"
    obtain tmp1 where "adc_seq_step previd c (A, tmp) = Some (A1, tmp1)"
      using True s(1) k(1) Cons.prems(3) by (simp add: adc_seq_step_def active_bit Let_def A1_def point_at_def)
    then have loop: "adc_seq_loop previd (c # chs) (A, tmp) = adc_seq_loop previd chs (A1, tmp1)"
      by simp
    have k1: "unat (seq_ctr (adc_dev_state A1)) = Suc k"
      using k(2) Cons.prems(3) by (simp add: A1_def unat_word_ariths)
    obtain A' tmp' where A': "adc_seq_loop previd chs (A1, tmp1) = Some (A', tmp')"
        "adc_dev_state A' = (adc_dev_state A1)\<lparr>ch_state := take (Suc k) (ch_state (adc_dev_state A1)) @ map Some G @ drop (Suc k + length G) (ch_state (adc_dev_state A1)),
          seq_ctr := word_of_nat (Suc k + length G)\<rparr>"
        "adc_bufs A' = adc_bufs A1" "adc_calls A' = adc_calls A1" "length (adc_ch_state A') = length (adc_ch_state A1)"
        "\<forall>c. c \<notin> set G \<longrightarrow> adc_get_ch_state A' c = adc_get_ch_state A1 c"
        "\<forall>j < length G. adc_get_ch_state A' (G ! j) = map_option (point_at (Suc k + j)) (adc_get_ch_state A1 (G ! j))"
      using Cons.IH [of A1 "Suc k" G tmp1] Cons.prems(1,2,5,6) k1 by (auto simp: A1_def G_def F)
    have dev: "adc_dev_state A' = ?d\<lparr>ch_state := take k (ch_state ?d) @ map Some F @ drop (k + length F) (ch_state ?d), seq_ctr := word_of_nat (k + length F)\<rparr>"
      using A'(2) k(1) by (simp add: A1_def F take_Suc_conv_app_nth)
    have notin: "c \<notin> set G" using Cons.prems(1) by (simp add: G_def)
    have "adc_get_ch_state A' d = adc_get_ch_state A d" if "d \<notin> set F" for d
      using A'(6) that by (simp add: A1_def F)
    moreover have "adc_get_ch_state A' (F ! j) = map_option (point_at (k + j)) (adc_get_ch_state A (F ! j))" if j: "j < length F" for j
    proof (cases j)
      case 0
      then show ?thesis using A'(6) notin s by (simp add: A1_def F)
    next
      case (Suc i)
      then have "G ! i \<noteq> c" using notin j F by (metis Suc_less_eq length_Cons nth_mem)
      then show ?thesis using A'(7) Suc j F by (simp add: A1_def)
    qed
    moreover have "adc_bufs A' = adc_bufs A" "adc_calls A' = adc_calls A" "length (adc_ch_state A') = length (adc_ch_state A)"
      using A'(3-5) by (simp_all add: A1_def upd_dev_def put_ch_def)
    ultimately show ?thesis
      using loop A'(1) dev by auto
  qed
qed

lemma configure_steps_eq:
  assumes "\<And>j. j < length F \<Longrightarrow> \<exists>s. seq_channel A j = Some s \<and> ch_id s = F ! j"
    and "unat (seq_len (adc_dev_state A)) = length F" "unat (seq_ctr (adc_dev_state A)) = i" "i < length F" "length F \<le> i + Suc fuel"
  shows "adc_configure_steps fuel A = Some (upd_dev (\<lambda>d. d\<lparr>seq_ctr := word_of_nat (length F - 1)\<rparr>)
    (A\<lparr>adc_calls := adc_calls A @ map (\<lambda>j. ADCStepConfigure j (F ! j) False) [i..<length F - 1]\<rparr>))"
  using assms
proof (induction fuel arbitrary: A i)
  case 0
  then have "i = length F - 1" by simp
  moreover have "word_of_nat i = seq_ctr (adc_dev_state A)" using 0(3) by auto
  ultimately show ?case by (simp add: upd_dev_def)
next
  case (Suc fuel)
  show ?case
  proof (cases "i = length F - 1")
    case True
    moreover have "word_of_nat i = seq_ctr (adc_dev_state A)" using Suc.prems(3) by auto
    moreover have "\<not> i + 1 < length F" using True by simp
    ultimately show ?thesis using Suc.prems(2,3) by (simp add: upd_dev_def Let_def)
  next
    case False
    define A1 where "A1 = upd_dev (\<lambda>d. d\<lparr>seq_ctr := seq_ctr d + 1\<rparr>) (call (ADCStepConfigure i (F ! i) False) A)"
    obtain s where s: "seq_channel A i = Some s" "ch_id s = F ! i" using Suc.prems(1,4) by blast
    have "i + 1 < length F" using False Suc.prems(4) by linarith
    then have "adc_configure_steps (Suc fuel) A = adc_configure_steps fuel A1"
      using s Suc.prems(2,3) by (simp add: Let_def A1_def)
    moreover have "seq_channel A1 j = seq_channel A j" for j
    proof -
      have "adc_get_ch_state A1 = adc_get_ch_state A" by (rule ext) (simp add: A1_def)
      then show ?thesis by (simp add: seq_channel_def A1_def)
    qed
    moreover have "unat (seq_ctr (adc_dev_state A1)) = Suc i" "seq_len (adc_dev_state A1) = seq_len (adc_dev_state A)"
    proof -
      have "unat (seq_len (adc_dev_state A)) < 256" using unsigned_less [of "seq_len (adc_dev_state A)"] by simp
      then show "unat (seq_ctr (adc_dev_state A1)) = Suc i"
        using Suc.prems(2-4) by (simp add: A1_def unat_word_ariths)
    qed (simp add: A1_def)
    moreover have "[i..<length F - 1] = i # [Suc i..<length F - 1]"
      using False Suc.prems(4) by (intro upt_conv_Cons) simp
    ultimately show ?thesis
      using Suc.IH [of A1 "Suc i"] Suc.prems False by (simp add: A1_def upd_dev_def call_def)
  qed
qed

text \<open>The calls that program the sequencer for the channels \<open>F\<close>.\<close>

definition sequence_calls :: "nat list \<Rightarrow> adc_call list" where
  "sequence_calls F = ADCSequenceDisable # map (\<lambda>j. ADCStepConfigure j (F ! j) (Suc j = length F)) [0..<length F] @ [ADCSequenceEnable]"

lemma update_sequence_eq:
  assumes "\<And>j. j < length F \<Longrightarrow> \<exists>s. seq_channel A j = Some s \<and> ch_id s = F ! j"
    and "unat (seq_len (adc_dev_state A)) = length F" "F \<noteq> []"
  shows "platform_adc_update_sequence A = Some (PLATFORM_OK, upd_dev (\<lambda>d. d\<lparr>seq_ctr := 0\<rparr>) (A\<lparr>adc_calls := adc_calls A @ sequence_calls F\<rparr>))"
proof -
  let ?A1 = "upd_dev (\<lambda>d. d\<lparr>seq_ctr := 0\<rparr>) (call ADCSequenceDisable A)"
  have ch: "seq_channel (upd_dev (\<lambda>d. d\<lparr>seq_ctr := x\<rparr>) (A\<lparr>adc_calls := cs\<rparr>)) j = seq_channel A j" for j x cs
  proof -
    have "adc_get_ch_state (upd_dev (\<lambda>d. d\<lparr>seq_ctr := x\<rparr>) (A\<lparr>adc_calls := cs\<rparr>)) = adc_get_ch_state A"
      by (rule ext) (simp add: adc_get_ch_state_def)
    then show ?thesis by (simp add: seq_channel_def)
  qed
  have "seq_channel ?A1 j = seq_channel A j" for j
    using ch by (simp add: call_def)
  then have c: "adc_configure_steps (length F) ?A1 = Some (upd_dev (\<lambda>d. d\<lparr>seq_ctr := word_of_nat (length F - 1)\<rparr>)
      (?A1\<lparr>adc_calls := adc_calls ?A1 @ map (\<lambda>j. ADCStepConfigure j (F ! j) False) [0..<length F - 1]\<rparr>))"
    using assms by (intro configure_steps_eq) auto
  have "unat (seq_len (adc_dev_state A)) < 256" using unsigned_less [of "seq_len (adc_dev_state A)"] by simp
  then have last: "unat (word_of_nat (length F - 1) :: u8) = length F - 1"
    using assms(2) by (intro unat_of_nat_less) simp
  obtain s where s: "seq_channel A (length F - 1) = Some s" "ch_id s = F ! (length F - 1)"
    using assms(1) [of "length F - 1"] assms(3) by auto
  have calls: "sequence_calls F = ADCSequenceDisable # map (\<lambda>j. ADCStepConfigure j (F ! j) False) [0..<length F - 1] @
      [ADCStepConfigure (length F - 1) (F ! (length F - 1)) True, ADCSequenceEnable]"
    using assms(3) by (cases "length F") (auto simp: sequence_calls_def)
  show ?thesis
    using assms(2) c last s ch
    by (simp add: platform_adc_update_sequence_def Let_def call_def upd_dev_def calls)
qed

text \<open>A device whose arrays fit the configuration of the board.\<close>

definition adc_wf :: "platform_conf \<Rightarrow> adc \<Rightarrow> bool" where
  "adc_wf cf A \<longleftrightarrow> length (adc_ch_state A) = NUM_ADC cf \<and> length (ch_state (adc_dev_state A)) = NUM_ADC cf \<and>
     length (sample_buf (adc_dev_state A)) = NUM_ADC cf \<and> NUM_ADC cf \<le> 32 \<and> unat (seq_ctr (adc_dev_state A)) < NUM_ADC cf \<and>
     (\<forall>c < NUM_ADC cf. ch_id (adc_ch_state A ! c) = c) \<and>
     (\<forall>c. Some c \<in> set (ch_state (adc_dev_state A)) \<longrightarrow> c < NUM_ADC cf)"

definition active_channels :: "platform_conf \<Rightarrow> adc \<Rightarrow> nat list" where
  "active_channels cf A = filter (bit (ch_active (adc_dev_state A))) [0..<NUM_ADC cf]"

lemma sequence_updated:
  assumes wf: "adc_wf cf A" and changed: "ch_active (adc_dev_state A) \<noteq> last_ch_active (adc_dev_state A) \<or> force_reseq (adc_dev_state A)"
    and F: "F = active_channels cf A" "F \<noteq> []"
  shows "\<exists>A' tmp. adc_update_dev_sequence cf null_id A = Some A' \<and>
    adc_dev_state A' = (adc_dev_state A)\<lparr>ch_state := map Some F @ replicate (NUM_ADC cf - length F) None, seq_len := word_of_nat (length F),
      last_ch_active := ch_active (adc_dev_state A), seq_ctr := tmp, force_reseq := False\<rparr> \<and>
    adc_bufs A' = adc_bufs A \<and> adc_calls A' = adc_calls A @ sequence_calls F \<and>
    (\<forall>c. c \<notin> set F \<longrightarrow> adc_get_ch_state A' c = adc_get_ch_state A c) \<and>
    (\<forall>j < length F. adc_get_ch_state A' (F ! j) = Some (point_at j (adc_ch_state A ! (F ! j))))"
proof -
  let ?d = "adc_dev_state A"
  let ?N = "NUM_ADC cf"
  let ?A0 = "upd_dev (\<lambda>d. d\<lparr>seq_ctr := 0\<rparr>) A"
  have N: "length (adc_ch_state A) = ?N" "length (ch_state ?d) = ?N" "?N \<le> 32" "unat (seq_ctr ?d) < ?N" "\<And>c. c < ?N \<Longrightarrow> ch_id (adc_ch_state A ! c) = c"
      "\<And>c. Some c \<in> set (ch_state ?d) \<Longrightarrow> c < ?N"
    using wf by (auto simp: adc_wf_def)
  have lenF: "length F \<le> ?N" using F(1) length_filter_le [of _ "[0..<?N]"] by (simp add: active_channels_def)
  have inF: "F ! j < ?N" if "j < length F" for j
    using nth_mem [OF that] F(1) by (auto simp: active_channels_def)
  obtain previd where prev: "(if unat (seq_ctr ?d) < length (ch_state ?d)
      then (case ch_state ?d ! unat (seq_ctr ?d) of None \<Rightarrow> Some null_id | Some c \<Rightarrow> map_option ch_id (adc_get_ch_state A c)) else None) = Some previd"
  proof (cases "ch_state ?d ! unat (seq_ctr ?d)")
    case (Some c)
    then have "c < ?N" using N(2,4,6) by (metis nth_mem)
    with Some show ?thesis using that N by (simp add: adc_get_ch_state_def)
  qed (use that N in simp)
  have ex: "\<exists>A' tmp'. adc_seq_loop previd [0..<?N] (?A0, 0) = Some (A', tmp') \<and>
    adc_dev_state A' = (adc_dev_state ?A0)\<lparr>ch_state := take 0 (ch_state (adc_dev_state ?A0)) @ map Some F @ drop (0 + length F) (ch_state (adc_dev_state ?A0)),
      seq_ctr := word_of_nat (0 + length F)\<rparr> \<and>
    adc_bufs A' = adc_bufs ?A0 \<and> adc_calls A' = adc_calls ?A0 \<and> length (adc_ch_state A') = length (adc_ch_state ?A0) \<and>
    (\<forall>c. c \<notin> set F \<longrightarrow> adc_get_ch_state A' c = adc_get_ch_state ?A0 c) \<and>
    (\<forall>j < length F. adc_get_ch_state A' (F ! j) = map_option (point_at (0 + j)) (adc_get_ch_state ?A0 (F ! j)))"
    by (rule seq_loop_eq) (use N lenF F(1) in \<open>simp_all add: active_channels_def\<close>)
  have calls: "adc_calls ?A0 = adc_calls A" by (simp add: upd_dev_def)
  from ex obtain A1 tmp where A1: "adc_seq_loop previd [0..<?N] (?A0, 0) = Some (A1, tmp)"
      "adc_dev_state A1 = ?d\<lparr>ch_state := map Some F @ drop (length F) (ch_state ?d), seq_ctr := word_of_nat (length F)\<rparr>"
      "adc_bufs A1 = adc_bufs A" "adc_calls A1 = adc_calls A" "length (adc_ch_state A1) = ?N"
      "\<forall>c. c \<notin> set F \<longrightarrow> adc_get_ch_state A1 c = adc_get_ch_state A c"
      "\<forall>j < length F. adc_get_ch_state A1 (F ! j) = map_option (point_at j) (adc_get_ch_state A (F ! j))"
    by (elim exE conjE) (simp add: N(1) calls)
  have len8: "unat (word_of_nat (length F) :: u8) = length F"
    using lenF N(3) by (intro unat_of_nat_less) simp
  define A3 where "A3 = A1\<lparr>adc_dev_state := ?d\<lparr>ch_state := map Some F @ replicate (?N - length F) None, seq_len := word_of_nat (length F), seq_ctr := 0\<rparr>\<rparr>"
  have ch: "adc_get_ch_state A3 c = adc_get_ch_state A1 c" for c
    by (simp add: A3_def adc_get_ch_state_def)
  have step: "upd_dev (\<lambda>d. d\<lparr>ch_state := take (unat (seq_ctr d)) (ch_state d) @ replicate (?N - unat (seq_ctr d)) None, seq_ctr := 0\<rparr>)
      (upd_dev (\<lambda>d. d\<lparr>seq_len := seq_ctr d\<rparr>) A1) = A3"
    using A1(2) len8 by (simp add: A3_def upd_dev_def)
  have g: "adc_get_ch_state A1 (F ! j) = Some (point_at j (adc_ch_state A ! (F ! j)))" if j: "j < length F" for j
  proof -
    have "adc_get_ch_state A (F ! j) = Some (adc_ch_state A ! (F ! j))"
      using inF [OF j] N(1) by (simp add: adc_get_ch_state_def)
    then show ?thesis using A1(7) j by simp
  qed
  have "\<exists>s. seq_channel A3 j = Some s \<and> ch_id s = F ! j" if j: "j < length F" for j
  proof -
    have "seq_channel A3 j = adc_get_ch_state A3 (F ! j)"
      using j lenF by (simp add: seq_channel_def A3_def nth_append)
    then show ?thesis
      using g [OF j] N(5) [OF inF [OF j]] by (simp add: ch point_at_def)
  qed
  then have "platform_adc_update_sequence A3 = Some (PLATFORM_OK, upd_dev (\<lambda>d. d\<lparr>seq_ctr := 0\<rparr>) (A3\<lparr>adc_calls := adc_calls A3 @ sequence_calls F\<rparr>))"
    using F(2) len8 by (intro update_sequence_eq) (simp_all add: A3_def)
  then have "adc_update_dev_sequence cf null_id A = Some (upd_dev (\<lambda>d. d\<lparr>last_ch_active := ch_active d, seq_ctr := tmp, force_reseq := False\<rparr>)
      (upd_dev (\<lambda>d. d\<lparr>seq_ctr := 0\<rparr>) (A3\<lparr>adc_calls := adc_calls A3 @ sequence_calls F\<rparr>)))" (is "_ = Some ?A4")
    unfolding adc_update_dev_sequence_def Let_def prev using changed A1(1) step by simp
  moreover have "adc_get_ch_state ?A4 c = adc_get_ch_state A1 c" for c
    by (simp add: adc_get_ch_state_def A3_def)
  ultimately show ?thesis
    using A1(3,4,6) g by (intro exI [of _ ?A4] exI [of _ tmp]) (simp add: A3_def upd_dev_def)
qed

section \<open>Setting up a channel\<close>

lemma zero_elems: "k \<le> length sb \<Longrightarrow> k < 2 ^ 16 \<Longrightarrow> (zero_elem ^^ k) (0, Some sb) = (k, Some (replicate k 0 @ drop k sb))"
proof (induction k)
  case (Suc k)
  then have "(replicate k (0 :: u16) @ drop k sb)[k := 0] = replicate (Suc k) 0 @ drop (Suc k) sb"
    by (simp add: list_update_append Cons_nth_drop_Suc [symmetric] replicate_append_same [symmetric] del: replicate_append_same)
  with Suc show ?case
    by (simp add: zero_elem_def)
qed simp

lemma flush_smoothing_eq:
  assumes "adc_get_ch_state A ch = Some s" "logsmoothlen s \<noteq> 0 \<Longrightarrow> \<exists>sb. smoothbuf s = Some sb \<and> length sb = SMOOTH_REALSIZE s"
    and "unat (logsmoothlen s) \<le> 15"
  shows "\<exists>t. adc_flush_smoothing ch A = Some (put_ch ch t A) \<and> smooth_empty (unat (logsmoothlen s)) t \<and>
    t = s\<lparr>smoothidx := 0, smoothsum := 0, smooth_ready := False, smoothbuf := smoothbuf t\<rparr>"
proof (cases "logsmoothlen s = 0")
  case True
  then show ?thesis
    using assms(1) by (intro exI [of _ "s\<lparr>smoothidx := 0, smoothsum := 0, smooth_ready := False\<rparr>"])
      (simp add: adc_flush_smoothing_def smooth_empty_def)
next
  case False
  then obtain sb where sb: "smoothbuf s = Some sb" "length sb = 2 ^ unat (logsmoothlen s)"
    using assms(2) by (auto simp: SMOOTH_REALSIZE_def)
  define z where "z = replicate (2 ^ unat (logsmoothlen s)) (0 :: u16)"
  have "snd (DUFF_DEVICE_8 (2 ^ unat (logsmoothlen s)) zero_elem (0, Some sb)) = Some z"
    using zero_elems [of "2 ^ unat (logsmoothlen s)" sb] sb(2) assms(3) power_strict_increasing [of "unat (logsmoothlen s)" 16 "2 :: nat"]
    by (simp add: DUFF_DEVICE_8_eq z_def)
  moreover have "0 < logsmoothlen s" "unat (logsmoothlen s) \<noteq> 0"
    using False by (simp_all add: word_neq_0_conv unat_eq_0)
  moreover have "sum_list (map unat z) = 0"
    by (simp add: z_def sum_list_replicate)
  ultimately show ?thesis
    using assms(1) sb
    by (intro exI [of _ "s\<lparr>smoothidx := 0, smoothsum := 0, smooth_ready := False, smoothbuf := Some z\<rparr>"])
      (simp add: adc_flush_smoothing_def Let_def SMOOTH_REALSIZE_def smooth_empty_def smooth_inv_def z_def)
qed

lemma buf_flush_wf: "buf_wf p \<Longrightarrow> buf_wf (buf_flush_desc p)" "buf_elems (buf_flush_desc p) = []"
  "BUF_REALSIZE (buf_flush_desc p) = BUF_REALSIZE p" "BUF_REALDSIZE (buf_flush_desc p) = BUF_REALDSIZE p"
  by (auto simp: buf_flush_desc_def buf_wf_def buf_macros buf_elems_def split: option.splits)

text \<open>The buffer of a channel when no operation runs.\<close>

definition adc_buf :: "buf_table \<Rightarrow> nat \<Rightarrow> bool" where
  "adc_buf B ch \<longleftrightarrow> (\<exists>p. buf_getptr B BUF_ID_ADC ch = Some p \<and> buf_wf p \<and> BUF_REALDSIZE p = 2)"

lemma adc_buf_flush:
  assumes "adc_buf B ch"
  shows "\<exists>B' n. buf_flush cf B BUF_ID_ADC ch = Some ((), B') \<and> adc_queue B' ch n []"
proof -
  obtain p where p: "buf_getptr B BUF_ID_ADC ch = Some p" "buf_wf p" "BUF_REALDSIZE p = 2"
    using assms by (auto simp: adc_buf_def)
  show ?thesis
    using with_buf_Some [of B BUF_ID_ADC cf ch p "\<lambda>p. Some ((), buf_flush_desc p)"] p buf_flush_wf [of p] buf_getptr_putptr [OF p(1)]
    by (auto simp: buf_flush_def adc_queue_def)
qed

definition realloc_ok :: "('a list option \<Rightarrow> nat \<Rightarrow> 'a list option) \<Rightarrow> bool" where
  "realloc_ok ra \<longleftrightarrow> (\<forall>b n. \<exists>p. ra b n = Some p \<and> length p = n)"

lemma set_smoothing_eq:
  assumes "adc_get_ch_state A ch = Some s" "\<not> op_pending s" "adc_buf (adc_bufs A) ch" "realloc_ok ra"
    and "logsmoothlen s \<noteq> 0 \<Longrightarrow> \<exists>sb. smoothbuf s = Some sb \<and> length sb = SMOOTH_REALSIZE s"
    and "2 ^ L \<le> unat len" "unat len < 2 ^ Suc L" "L \<le> 15"
  shows "\<exists>B n t. platform_adc_set_smoothing cf ra ch len A = Some (PLATFORM_OK, put_ch ch t (A\<lparr>adc_bufs := B\<rparr>)) \<and>
    adc_queue B ch n [] \<and> smooth_empty L t \<and>
    t = s\<lparr>logsmoothlen := logsmoothlen t, smoothidx := 0, smoothsum := 0, smooth_ready := False, smoothbuf := smoothbuf t\<rparr>"
proof -
  define l where "l = (ucast (intlog2 len) :: u8)"
  have "unat (intlog2 len) = L" by (rule intlog2_eq [OF assms(6,7)])
  then have l: "unat l = L"
    using assms(8) by (simp add: l_def unsigned_ucast_eq take_bit_nat_eq_self)
  define s2 where "s2 = (if l \<noteq> logsmoothlen s then s\<lparr>logsmoothlen := l, smoothbuf := ra (smoothbuf s) (2 ^ L)\<rparr> else s)"
  obtain b where b: "ra (smoothbuf s) (2 ^ L) = Some b" "length b = 2 ^ L"
    using assms(4) by (auto simp: realloc_ok_def)
  have s2: "logsmoothlen s2 = l" "logsmoothlen s2 \<noteq> 0 \<Longrightarrow> \<exists>sb. smoothbuf s2 = Some sb \<and> length sb = SMOOTH_REALSIZE s2"
    using assms(5) b l by (auto simp: s2_def SMOOTH_REALSIZE_def)
  have ch: "adc_get_ch_state (put_ch ch s2 A) ch = Some s2"
    using get_ch_length [OF assms(1)] by simp
  obtain t where t: "adc_flush_smoothing ch (put_ch ch s2 A) = Some (put_ch ch t A)" "smooth_empty L t"
      "t = s2\<lparr>smoothidx := 0, smoothsum := 0, smooth_ready := False, smoothbuf := smoothbuf t\<rparr>"
    using flush_smoothing_eq [OF ch s2(2)] s2(1) l assms(8) by auto
  obtain B n where B: "buf_flush cf (adc_bufs A) BUF_ID_ADC ch = Some ((), B)" "adc_queue B ch n []"
    using adc_buf_flush [OF assms(3)] by blast
  have "platform_adc_set_smoothing cf ra ch len A = Some (PLATFORM_OK, put_ch ch t (A\<lparr>adc_bufs := B\<rparr>))"
  proof (cases "l = logsmoothlen s")
    case True
    then have "s2 = s" by (simp add: s2_def)
    with True show ?thesis
      using assms(1,2) t(1) B(1) unfolding platform_adc_set_smoothing_def adc_update_smoothing_def l_def [symmetric]
      by (simp add: Let_def)
  next
    case False
    then have "s2 = s\<lparr>logsmoothlen := l, smoothbuf := Some b\<rparr>" using b(1) by (simp add: s2_def)
    with False show ?thesis
      using assms(1,2) t(1) B(1) b(1) l unfolding platform_adc_set_smoothing_def adc_update_smoothing_def l_def [symmetric]
      by (simp add: Let_def SMOOTH_REALSIZE_def)
  qed
  moreover have "t = s\<lparr>logsmoothlen := logsmoothlen t, smoothidx := 0, smoothsum := 0, smooth_ready := False, smoothbuf := smoothbuf t\<rparr>"
  proof -
    obtain x where "t = s2\<lparr>smoothidx := 0, smoothsum := 0, smooth_ready := False, smoothbuf := x\<rparr>"
      using t(3) by blast
    then show ?thesis
      by (intro elua_adc_ch_state.equality) (simp_all add: s2_def)
  qed
  ultimately show ?thesis
    using B(2) t(2) by blast
qed

lemma setup_channel_eq:
  assumes "adc_get_ch_state A ch = Some s" "adc_queue (adc_bufs A) ch m []" "realloc_ok ra" "unat logcount \<le> 15"
  shows "\<exists>B. adc_setup_channel cf ra ch logcount A = Some (PLATFORM_OK, upd_dev (ACTIVATE_CHANNEL ch)
      (put_ch ch (s\<lparr>reqsamples := word_of_nat (2 ^ unat logcount), op_pending := True\<rparr>) (A\<lparr>adc_bufs := B\<rparr>))) \<and>
    adc_queue B ch (2 ^ unat logcount) []"
proof -
  obtain p where p: "buf_getptr (adc_bufs A) BUF_ID_ADC ch = Some p" "buf_wf p" "BUF_REALDSIZE p = 2" "BUF_REALSIZE p = m" "buf_elems p = []"
    using assms(2) by (auto simp: adc_queue_def)
  have size: "buf_get_size cf (adc_bufs A) BUF_ID_ADC ch = Some m"
    using p by (simp add: buf_get_size_def buf_wf_def)
  show ?thesis
  proof (cases "2 ^ unat logcount = m")
    case True
    then show ?thesis
      using assms(1,2) size by (intro exI [of _ "adc_bufs A"]) (simp add: adc_setup_channel_def put_ch_def)
  next
    case False
    have l: "unat (logcount + BUF_DSIZE_U16) = Suc (unat logcount)"
      using assms(4) by (simp add: BUF_DSIZE_U16_def unat_word_ariths)
    define p0 where "p0 = p\<lparr>bd_logdsize := BUF_DSIZE_U16, bd_logsize := logcount + BUF_DSIZE_U16\<rparr>"
    obtain bs where bs: "ra (bd_buf p) (BUF_BYTESIZE p0) = Some bs" "length bs = BUF_BYTESIZE p0"
      using assms(3) by (auto simp: realloc_ok_def)
    define p1 where "p1 = p0\<lparr>bd_buf := Some bs\<rparr>"
    have set: "buf_set_desc ra logcount BUF_DSIZE_U16 p = Some (PLATFORM_OK, p1)"
      using bs(1) by (simp add: buf_set_desc_def p0_def [symmetric] p1_def) (simp add: p0_def)
    let ?B1 = "buf_putptr (adc_bufs A) BUF_ID_ADC ch p1"
    have g1: "buf_getptr ?B1 BUF_ID_ADC ch = Some p1"
      using buf_getptr_putptr [OF p(1)] by simp
    have "buf_set cf ra (adc_bufs A) BUF_ID_ADC ch logcount BUF_DSIZE_U16 = Some (PLATFORM_OK, ?B1)"
      using with_buf_Some [of "adc_bufs A" BUF_ID_ADC cf ch p] p(1) set by (simp add: buf_set_def)
    moreover have "buf_flush cf ?B1 BUF_ID_ADC ch = Some ((), buf_putptr ?B1 BUF_ID_ADC ch (buf_flush_desc p1))" (is "_ = Some ((), ?B2)")
      using with_buf_Some [of ?B1 BUF_ID_ADC cf ch p1 "\<lambda>p. Some ((), buf_flush_desc p)"] g1 by (simp add: buf_flush_def)
    ultimately have "adc_setup_channel cf ra ch logcount A = Some (PLATFORM_OK, upd_dev (ACTIVATE_CHANNEL ch)
      (put_ch ch (s\<lparr>reqsamples := word_of_nat (2 ^ unat logcount), op_pending := True\<rparr>) (A\<lparr>adc_bufs := ?B2\<rparr>)))"
      using assms(1) size False by (simp add: adc_setup_channel_def)
    moreover have "buf_wf (buf_flush_desc p1)" "BUF_REALDSIZE p1 = 2" "BUF_REALSIZE p1 = 2 ^ unat logcount"
      using bs(2) l assms(4)
      by (auto simp: buf_wf_def buf_flush_desc_def p1_def p0_def buf_macros BUF_DSIZE_U16_def BUF_SIZE_NONE_def unat_eq_0 [symmetric])
    then have "adc_queue ?B2 ch (2 ^ unat logcount) []"
      using buf_flush_wf [of p1] buf_getptr_putptr [OF g1] by (simp add: adc_queue_def)
    ultimately show ?thesis by blast
  qed
qed

lemma filter_upt_eq: "c < n \<Longrightarrow> filter (\<lambda>x. x = c) [0..<n] = [c]"
  by (induction n) (auto simp: less_Suc_eq filter_empty_conv)

lemma active_single: "adc_wf cf A \<Longrightarrow> ch < NUM_ADC cf \<Longrightarrow> ch_active (adc_dev_state A) = push_bit ch 1 \<Longrightarrow> active_channels cf A = [ch]"
proof -
  assume A: "adc_wf cf A" "ch < NUM_ADC cf" "ch_active (adc_dev_state A) = push_bit ch 1"
  then have "ch < 32" by (simp add: adc_wf_def)
  then have "bit (push_bit ch 1 :: u32) = (\<lambda>c. c = ch)"
    by (intro ext) (auto simp: bit_simps)
  then show "active_channels cf A = [ch]"
    using A(2,3) by (simp add: active_channels_def filter_upt_eq)
qed

lemma start_sequence_eq:
  assumes wf: "adc_wf cf A" and ch: "ch < NUM_ADC cf" "ch_active (adc_dev_state A) = push_bit ch 1"
    and d: "last_ch_active (adc_dev_state A) \<noteq> push_bit ch 1 \<or> force_reseq (adc_dev_state A)" "\<not> running (adc_dev_state A)"
    and s: "adc_get_ch_state A ch = Some s"
  shows "\<exists>A'. platform_adc_start_sequence cf null_id A = Some (PLATFORM_OK, A') \<and> dev_on (adc_dev_state A') ch \<and>
    adc_bufs A' = adc_bufs A \<and> adc_get_ch_state A' ch = Some (point_at 0 s)"
proof -
  have N: "NUM_ADC cf \<le> 32" "length (sample_buf (adc_dev_state A)) = NUM_ADC cf" "length (adc_ch_state A) = NUM_ADC cf"
    using wf by (simp_all add: adc_wf_def)
  obtain A1 tmp where A1: "adc_update_dev_sequence cf null_id A = Some A1"
      "adc_dev_state A1 = (adc_dev_state A)\<lparr>ch_state := map Some [ch] @ replicate (NUM_ADC cf - length [ch]) None, seq_len := word_of_nat (length [ch]),
        last_ch_active := ch_active (adc_dev_state A), seq_ctr := tmp, force_reseq := False\<rparr>"
      "adc_bufs A1 = adc_bufs A" "\<forall>j < length [ch]. adc_get_ch_state A1 ([ch] ! j) = Some (point_at j (adc_ch_state A ! ([ch] ! j)))"
    using sequence_updated [OF wf _ active_single [OF wf ch, symmetric], of null_id] d(1) ch(2) by auto
  have "adc_ch_state A ! ch = s"
    using s by (simp add: adc_get_ch_state_def split: if_splits)
  with A1 d(2) ch N show ?thesis
    by (auto simp: platform_adc_start_sequence_def Let_def dev_on_def)
qed

section \<open>Sampling, from the set-up to the values\<close>

text \<open>The channel and the device when nothing is sampled.\<close>

definition adc_idle :: "platform_conf \<Rightarrow> nat \<Rightarrow> adc \<Rightarrow> bool" where
  "adc_idle cf ch A \<longleftrightarrow> adc_wf cf A \<and> ch < NUM_ADC cf \<and> adc_buf (adc_bufs A) ch \<and>
     \<not> running (adc_dev_state A) \<and> ch_active (adc_dev_state A) = 0 \<and>
     (last_ch_active (adc_dev_state A) \<noteq> push_bit ch 1 \<or> force_reseq (adc_dev_state A)) \<and>
     (let s = adc_ch_state A ! ch
      in \<not> op_pending s \<and> \<not> freerunning s \<and> blocking s \<and>
         (logsmoothlen s = 0 \<or> (case smoothbuf s of None \<Rightarrow> False | Some sb \<Rightarrow> length sb = SMOOTH_REALSIZE s)))"

text \<open>What a client does to get \<open>2 ^ logcount\<close> samples: set the smoothing, set up the channel, start the
  sequence, wait and read. The samples that the converter delivers are \<open>irqs\<close>.\<close>

definition adc_sample_run :: "platform_conf \<Rightarrow> (u16 list option \<Rightarrow> nat \<Rightarrow> u16 list option) \<Rightarrow> (u8 list option \<Rightarrow> nat \<Rightarrow> u8 list option) \<Rightarrow>
    nat \<Rightarrow> nat \<Rightarrow> u32 \<Rightarrow> u8 \<Rightarrow> u32 list list \<Rightarrow> adc \<Rightarrow> (u16 list \<times> u32 list list \<times> adc) option" where
  "adc_sample_run cf ra16 ra8 null_id ch len logcount irqs A =
     do {
       (r1, A1) \<leftarrow> platform_adc_set_smoothing cf ra16 ch len A;
       (r2, A2) \<leftarrow> adc_setup_channel cf ra8 ch logcount A1;
       (r3, A3) \<leftarrow> platform_adc_start_sequence cf null_id A2;
       (n, irqs', A4) \<leftarrow> adc_wait_samples cf null_id ch (word_of_nat (2 ^ unat logcount)) irqs A3;
       (vs, A5) \<leftarrow> adc_read_all cf ch (2 ^ unat logcount) A4;
       Some (vs, irqs', A5)
     }"

lemma adc_wf_put:
  "adc_wf cf A \<Longrightarrow> ch_id s = ch \<Longrightarrow> ch < NUM_ADC cf \<Longrightarrow> adc_wf cf (put_ch ch s (A\<lparr>adc_bufs := B\<rparr>))"
  "adc_wf cf (upd_dev (ACTIVATE_CHANNEL ch) A) = adc_wf cf A"
  by (auto simp: adc_wf_def put_ch_def upd_dev_def ACTIVATE_CHANNEL_def nth_list_update)

lemma sample_run_eq:
  assumes idle: "adc_idle cf ch A" and ra: "realloc_ok ra16" "realloc_ok ra8"
    and L: "2 ^ L \<le> unat len" "unat len < 2 ^ Suc L" "L \<le> 15" and n: "1 \<le> unat logcount" "unat logcount \<le> 15"
    and ws: "length ws = warm_up L" and ds: "length ds = 2 ^ unat logcount"
  shows "\<exists>A'. adc_sample_run cf ra16 ra8 null_id ch len logcount (map (\<lambda>x. [x]) (ws @ ds) @ irqs) A =
    Some (map (\<lambda>i. window_mean L (map ucast ws @ map ucast (take (Suc i) ds))) [0..<2 ^ unat logcount], irqs, A')"
proof -
  define s where "s = adc_ch_state A ! ch"
  have A: "adc_wf cf A" "ch < NUM_ADC cf" "adc_buf (adc_bufs A) ch" "\<not> running (adc_dev_state A)" "ch_active (adc_dev_state A) = 0"
      "last_ch_active (adc_dev_state A) \<noteq> push_bit ch 1 \<or> force_reseq (adc_dev_state A)"
      "\<not> op_pending s" "\<not> freerunning s" "blocking s" "logsmoothlen s \<noteq> 0 \<Longrightarrow> \<exists>sb. smoothbuf s = Some sb \<and> length sb = SMOOTH_REALSIZE s"
    using idle by (auto simp: adc_idle_def s_def Let_def split: option.splits)
  have s: "adc_get_ch_state A ch = Some s" "ch_id s = ch" "ch < length (adc_ch_state A)"
    using A(1,2) by (auto simp: adc_wf_def adc_get_ch_state_def s_def)
  obtain B1 m t where 1: "platform_adc_set_smoothing cf ra16 ch len A = Some (PLATFORM_OK, put_ch ch t (A\<lparr>adc_bufs := B1\<rparr>))"
      "adc_queue B1 ch m []" "smooth_empty L t"
      "t = s\<lparr>logsmoothlen := logsmoothlen t, smoothidx := 0, smoothsum := 0, smooth_ready := False, smoothbuf := smoothbuf t\<rparr>"
    using set_smoothing_eq [OF s(1) A(7,3) ra(1) A(10) L, of cf] by blast
  have t: "ch_id t = ch" "\<not> freerunning t" "blocking t"
    using s(2) A(8,9) by (subst 1(4), simp)+
  let ?A1 = "put_ch ch t (A\<lparr>adc_bufs := B1\<rparr>)"
  let ?u = "t\<lparr>reqsamples := word_of_nat (2 ^ unat logcount), op_pending := True\<rparr>"
  obtain B2 where 2: "adc_setup_channel cf ra8 ch logcount ?A1 = Some (PLATFORM_OK, upd_dev (ACTIVATE_CHANNEL ch) (put_ch ch ?u (A\<lparr>adc_bufs := B2\<rparr>)))"
      "adc_queue B2 ch (2 ^ unat logcount) []"
    using setup_channel_eq [of ?A1 ch t m ra8 logcount cf] s(3) 1(2) ra(2) n(2) by auto
  let ?A2 = "upd_dev (ACTIVATE_CHANNEL ch) (put_ch ch ?u (A\<lparr>adc_bufs := B2\<rparr>))"
  obtain A3 where 3: "platform_adc_start_sequence cf null_id ?A2 = Some (PLATFORM_OK, A3)" "dev_on (adc_dev_state A3) ch"
      "adc_bufs A3 = B2" "adc_get_ch_state A3 ch = Some (point_at 0 ?u)"
    using start_sequence_eq [of cf ?A2 ch ?u null_id] A s(3) t adc_wf_put(1) [of cf A ?u ch B2] adc_wf_put(2) by (auto simp: ACTIVATE_CHANNEL_def)
  have "unat (word_of_nat (2 ^ unat logcount) :: u16) = 2 ^ unat logcount"
    using n(2) power_strict_increasing [of "unat logcount" 16 "2 :: nat"] by (intro unat_of_nat_less) simp
  moreover have "1 < (2 :: nat) ^ unat logcount" using n(1) by (intro one_less_power) auto
  ultimately have on: "adc_on A3 ch (point_at 0 ?u) (2 ^ unat logcount) []"
    using 3 2(2) t by (simp add: adc_on_def point_at_def)
  have "smooth_empty L (point_at 0 ?u)" "blocking (point_at 0 ?u)"
    using 1(3) t(3) by (auto simp: smooth_empty_def smooth_inv_def point_at_def)
  from wait_and_read [OF on this(1) L(3) this(2) ws ds, of cf null_id irqs] show ?thesis
    using 1(1) 2(1) 3(1) by (auto simp: adc_sample_run_def)
qed

section \<open>Properties\<close>

text \<open>A client that asks for \<open>2 ^ logcount\<close> samples with a smoothing length \<open>len\<close> gets them: after the interrupts
  that fill the smoothing buffer and those with the samples, waiting ends, and the values that are read
  are the means of the last samples, where the length of the smoothing is rounded down to a power of 2.\<close>

theorem adc_smoothed_samples:
  assumes "adc_idle cf ch A" and "realloc_ok ra16" and "realloc_ok ra8"
    and "2 ^ L \<le> unat len" and "unat len < 2 ^ Suc L" and "L \<le> 15" and "1 \<le> unat logcount" and "unat logcount \<le> 15"
    and "length ws = (if L = 0 then 0 else 2 ^ L + 1)" and "length ds = 2 ^ unat logcount"
  shows "\<exists>A'. adc_sample_run cf ra16 ra8 null_id ch len logcount (map (\<lambda>x. [x]) (ws @ ds) @ irqs) A =
    Some (map (\<lambda>i. window_mean L (map ucast ws @ map ucast (take (Suc i) ds))) [0..<2 ^ unat logcount], irqs, A')"
  using assms by (intro sample_run_eq) (simp_all add: warm_up_def)

definition adc_demo :: adc where
  "adc_demo =
     \<lparr>adc_ch_state = [\<lparr>op_pending = False, blocking = True, freerunning = False, smooth_ready = False, value_fresh = False, ch_id = 0,
        logsmoothlen = 0, smoothidx = 0, smoothsum = 0, smoothbuf = None, reqsamples = 0, value_ptr = None\<rparr>],
      adc_dev_state = \<lparr>ch_state = [None], sample_buf = [0], clocked = False, force_reseq = False, skip_cycle = False, running = False,
        ch_active = 0, last_ch_active = 0, timer_id = 0, seq_id = 0, seq_ctr = 0, seq_len = 0\<rparr>,
      adc_bufs = buf_demo_table, adc_calls = []\<rparr>"

lemma adc_demo_idle: "adc_idle buf_demo_conf 0 adc_demo"
  using buf_demo_facts
  by (simp add: adc_idle_def adc_wf_def adc_demo_def buf_demo_conf_def adc_buf_def buf_demo_table_def buf_getptr_def BUF_ID_ADC_def BUF_ID_UART_def)

theorem adc_smoothed_samples_witness:
  "\<exists>A'. adc_sample_run buf_demo_conf (\<lambda>b n. Some (replicate n 0)) (\<lambda>b n. Some (replicate n 0)) 0 0 2 1
      (map (\<lambda>x. [x]) ([7, 10, 20] @ [30, 50]) @ []) adc_demo =
    Some (map (\<lambda>i. window_mean 1 (map ucast [7, 10, 20 :: u32] @ map ucast (take (Suc i) [30, 50 :: u32]))) [0..<2 ^ unat (1 :: u8)], [], A')"
  by (rule adc_smoothed_samples [OF adc_demo_idle]) (simp_all add: realloc_ok_def)

text \<open>C34. One channel is being sampled, for \<open>n\<close> samples (at least two, not free running), no other channel is active, its buffer is set up for \<open>n\<close> samples and empty, and its
  smoothing filter is either off (\<open>L = 0\<close>) or has warmed up and holds the last \<open>2 ^ L\<close> samples \<open>w\<close>. Then the operation is not
  done before the interrupt with the last of the \<open>n\<close> samples \<open>ds\<close>, it is done with that one, and the client
  then reads \<open>n\<close> values: for each sample, the mean of the last \<open>2 ^ L\<close> samples up to and including it, rounded down.\<close>

theorem adc_filtered_samples:
  assumes "adc_on A ch s n []" and "filter_ready L s w" and "L \<le> 15" and "length ds = n"
  shows "(\<forall>k < n. \<exists>A'. adc_interrupts cf null_id (map (\<lambda>x. [x]) (take k ds)) A = Some A' \<and> platform_adc_is_done ch A' = Some False) \<and>
    (\<exists>A1 A2. adc_interrupts cf null_id (map (\<lambda>x. [x]) ds) A = Some A1 \<and> platform_adc_is_done ch A1 = Some True \<and>
      adc_read_all cf ch n A1 = Some (map (\<lambda>i. window_mean L (w @ map ucast (take (Suc i) ds))) [0..<n], A2))"
proof
  have warm: "logsmoothlen s = 0 \<or> smooth_ready s" using assms(2) by (auto simp: filter_ready_def split: if_splits)
  show "\<forall>k < n. \<exists>A'. adc_interrupts cf null_id (map (\<lambda>x. [x]) (take k ds)) A = Some A' \<and> platform_adc_is_done ch A' = Some False"
  proof (intro allI impI)
    fix k assume "k < n"
    then obtain A' where "adc_interrupts cf null_id (map (\<lambda>x. [x]) (take k ds)) A = Some A'" "adc_on A' ch s n (map ucast (take k ds))"
      using interrupts_more [OF assms(1) warm, of "take k ds" cf null_id] assms(4) by auto
    then show "\<exists>A'. adc_interrupts cf null_id (map (\<lambda>x. [x]) (take k ds)) A = Some A' \<and> platform_adc_is_done ch A' = Some False"
      by (auto simp: adc_on_def platform_adc_is_done_def)
  qed
  obtain A1 where A1: "adc_interrupts cf null_id (map (\<lambda>x. [x]) ds) A = Some A1" "adc_done A1 ch (s\<lparr>op_pending := False\<rparr>) n (map ucast ds)"
    using interrupts_all [OF assms(1) warm, of ds cf null_id] assms(1,4) by (auto simp: adc_on_def)
  have "filter_ready L (s\<lparr>op_pending := False\<rparr>) w" using assms(2) by (auto simp: filter_ready_def smooth_inv_def split: if_splits)
  then obtain A2 where "adc_read_all cf ch n A1 = Some (map (\<lambda>i. window_mean L (w @ map ucast (take (Suc i) ds))) [0..<n], A2)"
    using read_all_filtered [OF A1(2) _ assms(3), of w cf] assms(4) by (auto simp: take_map)
  with A1 show "\<exists>A1 A2. adc_interrupts cf null_id (map (\<lambda>x. [x]) ds) A = Some A1 \<and> platform_adc_is_done ch A1 = Some True \<and>
      adc_read_all cf ch n A1 = Some (map (\<lambda>i. window_mean L (w @ map ucast (take (Suc i) ds))) [0..<n], A2)"
    by (auto simp: adc_done_def platform_adc_is_done_def)
qed

text \<open>A channel with a filter of two samples, 10 and 20, that waits for two more.\<close>

definition adc_warm_demo :: adc where
  "adc_warm_demo =
     \<lparr>adc_ch_state = [\<lparr>op_pending = True, blocking = False, freerunning = False, smooth_ready = True, value_fresh = False, ch_id = 0,
        logsmoothlen = 1, smoothidx = 2, smoothsum = 30, smoothbuf = Some [10, 20], reqsamples = 2, value_ptr = Some 0\<rparr>],
      adc_dev_state = \<lparr>ch_state = [Some 0], sample_buf = [0], clocked = False, force_reseq = False, skip_cycle = False, running = True,
        ch_active = 1, last_ch_active = 1, timer_id = 0, seq_id = 0, seq_ctr = 0, seq_len = 1\<rparr>,
      adc_bufs = buf_demo_table, adc_calls = []\<rparr>"

theorem adc_filtered_samples_witness:
  "\<exists>A1 A2. adc_interrupts buf_demo_conf 0 [[31], [50]] adc_warm_demo = Some A1 \<and> platform_adc_is_done 0 A1 = Some True \<and>
     adc_read_all buf_demo_conf 0 2 A1 = Some ([25, 40], A2)"
proof -
  let ?s = "adc_ch_state adc_warm_demo ! 0"
  have on: "adc_on adc_warm_demo 0 ?s 2 []"
    using buf_demo_facts by (simp add: adc_on_def adc_warm_demo_def adc_get_ch_state_def adc_queue_def buf_demo_table_def buf_getptr_def
        BUF_ID_ADC_def BUF_ID_UART_def dev_on_def)
  have f: "filter_ready 1 ?s [10, 20]" by (simp add: filter_ready_def smooth_inv_def adc_warm_demo_def)
  have m: "map (\<lambda>i. window_mean 1 ([10, 20] @ map ucast (take (Suc i) [31, 50 :: u32]))) [0..<2] = [25, 40]"
    by (simp add: window_mean_def upt_rec)
  show ?thesis
    using adc_filtered_samples [OF on f, of "[31, 50]" buf_demo_conf 0] unfolding m by auto
qed

text \<open>C35. When the set of active channels has changed, the sequence is rebuilt from the active channels in ascending
  order: each of them gets its own place in the sample buffer, and the converter is programmed with
  exactly these channels in this order.\<close>

theorem adc_sequence_programmed:
  assumes "adc_wf cf A" and "ch_active (adc_dev_state A) \<noteq> last_ch_active (adc_dev_state A)"
    and "F = filter (bit (ch_active (adc_dev_state A))) [0..<NUM_ADC cf]" and "F \<noteq> []"
  shows "\<exists>A'. adc_update_dev_sequence cf null_id A = Some A' \<and>
    ch_state (adc_dev_state A') = map Some F @ replicate (NUM_ADC cf - length F) None \<and> unat (seq_len (adc_dev_state A')) = length F \<and>
    (\<forall>j < length F. map_option value_ptr (adc_get_ch_state A' (F ! j)) = Some (Some j)) \<and>
    (\<forall>c. c \<notin> set F \<longrightarrow> adc_get_ch_state A' c = adc_get_ch_state A c) \<and>
    adc_calls A' = adc_calls A @ ADCSequenceDisable #
      map (\<lambda>j. ADCStepConfigure j (F ! j) (Suc j = length F)) [0..<length F] @ [ADCSequenceEnable]"
proof -
  have "length F \<le> 32"
    using length_filter_le [of "bit (ch_active (adc_dev_state A))" "[0..<NUM_ADC cf]"] assms(1,3) by (simp add: adc_wf_def)
  then have "unat (word_of_nat (length F) :: u8) = length F"
    by (intro unat_of_nat_less) simp
  with sequence_updated [OF assms(1), of F null_id] assms(2-4) show ?thesis
    by (fastforce simp: active_channels_def sequence_calls_def point_at_def)
qed

theorem adc_sequence_programmed_witness:
  "\<exists>A'. adc_update_dev_sequence buf_demo_conf 0 (upd_dev (ACTIVATE_CHANNEL 0) adc_demo) = Some A' \<and> ch_state (adc_dev_state A') = [Some 0]"
  using adc_sequence_programmed [of buf_demo_conf "upd_dev (ACTIVATE_CHANNEL 0) adc_demo" "[0]" 0] adc_demo_idle
  by (auto simp: adc_wf_put(2) adc_idle_def adc_demo_def ACTIVATE_CHANNEL_def buf_demo_conf_def)

text \<open>In the mode in which sampling never stops, when one sample is still requested and one is in the buffer, the
  next sample is delivered before the one in the buffer: the client reads them in the wrong order.\<close>

theorem adc_freerunning_reorders:
  assumes "adc_get_ch_state A ch = Some s" and "ch_id s = ch" and "value_ptr s = Some 0" and "\<not> value_fresh s" and "freerunning s"
    and "logsmoothlen s = 0" and "reqsamples s = 1" and "adc_queue (adc_bufs A) ch n [d1]" and "dev_on (adc_dev_state A) ch"
  shows "\<exists>A1 A2. ADCIntHandler cf null_id [d2] A = Some A1 \<and> adc_read_all cf ch 2 A1 = Some ([ucast d2, d1], A2)"
proof -
  let ?v = "ucast d2 :: u16"
  let ?s1 = "s\<lparr>value_fresh := True\<rparr>"
  note len = get_ch_length [OF assms(1)]
  define A' where "A' = put_ch ch ?s1 (int_entry ?v A)"
  have dev: "dev_on (adc_dev_state A') ch" "seq_ctr (adc_dev_state A') = 0" "sample_buf (adc_dev_state A') ! 0 = ?v" "sample_buf (adc_dev_state A') \<noteq> []"
    using dev_on_entry(1-3) [OF assms(9), of ?v] dev_on_entry(4) by (simp_all add: A'_def)
  obtain k where "adc_samples_available cf ch A' = Some k"
    using adc_queue_available [of A' ch n "[d1]" ?s1 cf] assms(8) len by (auto simp: A'_def)
  then have "adc_int_sample cf [d2] (upd_dev (\<lambda>d. d\<lparr>seq_ctr := 0\<rparr>) (call ADCIntClear A)) = Some (upd_dev (\<lambda>d. d\<lparr>seq_ctr := seq_ctr d + 1\<rparr>) A')"
    using assms len by (simp add: adc_int_sample_def int_entry_def [symmetric] dev_on_def Let_def A'_def)
  from handler_single [OF assms(9) _ this, of null_id] dev(1,2) len obtain A1 where A1: "ADCIntHandler cf null_id [d2] A = Some A1"
      "adc_get_ch_state A1 ch = Some ?s1" "adc_bufs A1 = adc_bufs A" "sample_buf (adc_dev_state A1) = sample_buf (adc_dev_state A')"
    by (auto simp: A'_def dev_on_def)
  have v: "adc_value ?s1 A1 = Some ?v"
    using A1(4) dev(3,4) assms(3) by (simp add: adc_value_def)
  let ?s2 = "taken_req (s\<lparr>value_fresh := False\<rparr>)"
  obtain k where "adc_samples_available cf ch A1 = Some k" "k > 0"
    using queued_available [of A1 ch n d1 "[]"] A1(2,3) assms(8) by auto
  then have r1: "adc_get_processed_sample cf ch A1 = Some (?v, put_ch ch ?s2 A1)"
    using A1(2) take_fresh [OF A1(2) _ v, of cf] get_ch_length [OF A1(2)] assms(6)
    by (simp add: adc_get_processed_sample_def taken_req_def [symmetric] Let_def)
  obtain B where "adc_get_processed_sample cf ch (put_ch ch ?s2 A1) = Some (d1, put_ch ch (taken_req ?s2) (put_ch ch ?s2 A1\<lparr>adc_bufs := B\<rparr>))"
    using read_queued [of "put_ch ch ?s2 A1" ch ?s2 n d1 "[]" cf] A1(3) assms(6,8) get_ch_length [OF A1(2)] by auto
  with r1 A1(1) show ?thesis
    by (simp add: numeral_2_eq_2)
qed

text \<open>A channel in this mode.\<close>

definition adc_free_demo :: adc where
  "adc_free_demo =
     \<lparr>adc_ch_state = [\<lparr>op_pending = True, blocking = True, freerunning = True, smooth_ready = False, value_fresh = False, ch_id = 0,
        logsmoothlen = 0, smoothidx = 0, smoothsum = 0, smoothbuf = None, reqsamples = 1, value_ptr = Some 0\<rparr>],
      adc_dev_state = \<lparr>ch_state = [Some 0], sample_buf = [0], clocked = False, force_reseq = False, skip_cycle = False, running = True,
        ch_active = 1, last_ch_active = 1, timer_id = 0, seq_id = 0, seq_ctr = 0, seq_len = 1\<rparr>,
      adc_bufs = \<lparr>buf_desc_uart = [], buf_desc_adc = [\<lparr>bd_logsize = 2, bd_logdsize = 1, bd_wptr = 2, bd_rptr = 0, bd_count = 1,
        bd_buf = Some [11, 0, 0, 0]\<rparr>]\<rparr>, adc_calls = []\<rparr>"

theorem adc_freerunning_reorders_witness:
  "\<exists>A1 A2. ADCIntHandler buf_demo_conf 0 [12] adc_free_demo = Some A1 \<and> adc_read_all buf_demo_conf 0 2 A1 = Some ([ucast (12 :: u32), 11], A2)"
proof -
  have "adc_queue (adc_bufs adc_free_demo) 0 2 [11]"
    by (simp add: adc_queue_def adc_free_demo_def buf_getptr_def BUF_ID_ADC_def BUF_ID_UART_def buf_wf_def buf_macros BUF_SIZE_NONE_def
        buf_elems_def slot_off_def slice_def le16_def)
  then show ?thesis
    by (intro adc_freerunning_reorders [where s = "adc_ch_state adc_free_demo ! 0" and n = 2]) (simp_all add: adc_free_demo_def adc_get_ch_state_def dev_on_def)
qed

end
