(* ===== verification/Terminal.thy ===== *)
theory Terminal
  imports Prelude
begin

text \<open>
  The terminal: \<open>src/src/term.c\<close>, \<open>src/inc/term.h\<close>, and the functions of \<open>src/src/common.c\<close> that connect it to
  the console UART (\<open>term_out\<close>, \<open>term_in\<close>, \<open>term_translate\<close>).

  The input is the list of what the UART delivers: \<open>Some b\<close> is a byte, \<open>None\<close> a pause that is longer than
  the time-out for the bytes of one key. A read with a time-out gives -1 at a pause and at the end; a read
  that waits skips pauses, and does not return at the end.
\<close>

section \<open>Key codes\<close>

definition KC_UP :: int where "KC_UP = 256"
definition KC_DOWN :: int where "KC_DOWN = 257"
definition KC_LEFT :: int where "KC_LEFT = 258"
definition KC_RIGHT :: int where "KC_RIGHT = 259"
definition KC_HOME :: int where "KC_HOME = 260"
definition KC_END :: int where "KC_END = 261"
definition KC_PAGEUP :: int where "KC_PAGEUP = 262"
definition KC_PAGEDOWN :: int where "KC_PAGEDOWN = 263"
definition KC_ENTER :: int where "KC_ENTER = 264"
definition KC_TAB :: int where "KC_TAB = 265"
definition KC_BACKSPACE :: int where "KC_BACKSPACE = 266"
definition KC_ESC :: int where "KC_ESC = 267"
definition KC_CTRL_Z :: int where "KC_CTRL_Z = 268"
definition KC_CTRL_A :: int where "KC_CTRL_A = 269"
definition KC_CTRL_E :: int where "KC_CTRL_E = 270"
definition KC_CTRL_C :: int where "KC_CTRL_C = 271"
definition KC_CTRL_T :: int where "KC_CTRL_T = 272"
definition KC_CTRL_U :: int where "KC_CTRL_U = 273"
definition KC_CTRL_K :: int where "KC_CTRL_K = 274"
definition KC_DEL :: int where "KC_DEL = 275"
definition KC_UNKNOWN :: int where "KC_UNKNOWN = 276"

lemmas key_codes = KC_UP_def KC_DOWN_def KC_LEFT_def KC_RIGHT_def KC_HOME_def KC_END_def KC_PAGEUP_def KC_PAGEDOWN_def
  KC_ENTER_def KC_TAB_def KC_BACKSPACE_def KC_ESC_def KC_CTRL_Z_def KC_CTRL_A_def KC_CTRL_E_def KC_CTRL_C_def KC_CTRL_T_def
  KC_CTRL_U_def KC_CTRL_K_def KC_DEL_def KC_UNKNOWN_def

definition TERM_INPUT_DONT_WAIT :: int where "TERM_INPUT_DONT_WAIT = 0"
definition TERM_INPUT_WAIT :: int where "TERM_INPUT_WAIT = 1"
definition TERM_MAX_ANSI_SIZE :: nat where "TERM_MAX_ANSI_SIZE = 14"

section \<open>State\<close>

record termst =
  term_num_lines :: u32
  term_num_cols :: u32
  term_cx :: u32
  term_cy :: u32
  term_input :: "u8 option list"
  term_output :: "u8 list"

definition term_init :: "u32 \<Rightarrow> u32 \<Rightarrow> termst \<Rightarrow> termst" where
  "term_init lns cols T = T\<lparr>term_num_lines := lns, term_num_cols := cols, term_cx := 0, term_cy := 0\<rparr>"

text \<open>Reading from the UART.\<close>

fun uart_recv_timeout :: "termst \<Rightarrow> int \<times> termst" where
  "uart_recv_timeout T =
     (case term_input T of
        [] \<Rightarrow> (-1, T)
      | None # xs \<Rightarrow> (-1, T\<lparr>term_input := xs\<rparr>)
      | Some b # xs \<Rightarrow> (uint b, T\<lparr>term_input := xs\<rparr>))"

fun uart_recv_wait :: "u8 option list \<Rightarrow> termst \<Rightarrow> (int \<times> termst) option" where
  "uart_recv_wait [] T = None"
| "uart_recv_wait (None # xs) T = uart_recv_wait xs T"
| "uart_recv_wait (Some b # xs) T = Some (uint b, T\<lparr>term_input := xs\<rparr>)"

definition term_in :: "int \<Rightarrow> termst \<Rightarrow> (int \<times> termst) option" where
  "term_in mode T = (if mode = TERM_INPUT_DONT_WAIT then Some (uart_recv_timeout T) else uart_recv_wait (term_input T) T)"

definition term_out :: "u8 \<Rightarrow> termst \<Rightarrow> termst" where
  "term_out b T = T\<lparr>term_output := term_output T @ [b]\<rparr>"

text \<open>\<open>isprint\<close> in the standard locale, on a byte or \<open>EOF\<close>; callers with another argument are undefined.\<close>

definition isprint :: "int \<Rightarrow> bool" where
  "isprint c \<longleftrightarrow> 0x20 \<le> c \<and> c \<le> 0x7E"

definition term_translate :: "int \<Rightarrow> termst \<Rightarrow> int \<times> termst" where
  "term_translate data T =
     (if isprint data then (data, T)
      else if data = 0x1B
      then let (c1, T1) = uart_recv_timeout T
           in if c1 = -1 then (KC_ESC, T1)
              else let (c, T2) = uart_recv_timeout T1
                   in if c = -1 then (KC_UNKNOWN, T2)
                      else if c \<ge> 0x41 \<and> c \<le> 0x44
                      then (if c = 0x41 then KC_UP else if c = 0x42 then KC_DOWN else if c = 0x43 then KC_RIGHT else KC_LEFT, T2)
                      else if c > 48 \<and> c < 55
                      then let (c3, T3) = uart_recv_timeout T2
                           in if c3 \<noteq> 126 then (KC_UNKNOWN, T3)
                              else (if c = 49 then KC_HOME else if c = 52 then KC_END else if c = 53 then KC_PAGEUP
                                    else if c = 54 then KC_PAGEDOWN else KC_UNKNOWN, T3)
                      else (KC_UNKNOWN, T2)
      else if data = 0x0D then (KC_ENTER, snd (uart_recv_timeout T))
      else (if data = 0x09 then KC_TAB
            else if data = 0x7F \<or> data = 0x08 then KC_BACKSPACE
            else if data = 26 then KC_CTRL_Z
            else if data = 1 then KC_CTRL_A
            else if data = 5 then KC_CTRL_E
            else if data = 3 then KC_CTRL_C
            else if data = 20 then KC_CTRL_T
            else if data = 21 then KC_CTRL_U
            else if data = 11 then KC_CTRL_K
            else KC_UNKNOWN, T))"

definition term_getch :: "int \<Rightarrow> termst \<Rightarrow> (int \<times> termst) option" where
  "term_getch mode T =
     do {
       (ch, T1) \<leftarrow> term_in mode T;
       Some (if ch = -1 then (-1, T1) else term_translate ch T1)
     }"

definition term_getch_nt :: "int \<Rightarrow> termst \<Rightarrow> (int \<times> termst) option" where
  "term_getch_nt mode T = term_in mode T"

section \<open>Output\<close>

definition term_putch :: "u8 \<Rightarrow> termst \<Rightarrow> termst" where
  "term_putch ch T =
     term_out ch (if ch = 10 then (if term_cy T < term_num_lines T then T\<lparr>term_cy := term_cy T + 1\<rparr> else T)\<lparr>term_cx := 0\<rparr> else T)"

definition term_putstr :: "u8 list \<Rightarrow> termst \<Rightarrow> termst" where
  "term_putstr str = fold term_out str"

lemma term_putstr_keeps [simp]:
  "term_cx (term_putstr str T) = term_cx T" "term_cy (term_putstr str T) = term_cy T" "term_input (term_putstr str T) = term_input T"
  "term_output (term_putstr str T) = term_output T @ str"
  unfolding term_putstr_def by (induction str arbitrary: T) (auto simp: term_out_def)

text \<open>The decimal digits that \<open>%u\<close> prints.\<close>

fun dec_digits :: "nat \<Rightarrow> u8 list" where
  "dec_digits n = (if n < 10 then [] else dec_digits (n div 10)) @ [word_of_nat (48 + n mod 10)]"

declare dec_digits.simps [simp del]

text \<open>The sequence is cut off to the size of the local array.\<close>

definition term_ansi :: "u8 list \<Rightarrow> termst \<Rightarrow> termst" where
  "term_ansi fmt = term_putstr ([0x1B, 0x5B] @ take (TERM_MAX_ANSI_SIZE - 3) fmt)"

definition term_clrscr :: "termst \<Rightarrow> termst" where
  "term_clrscr T = (term_ansi [0x32, 0x4A] T)\<lparr>term_cx := 0, term_cy := 0\<rparr>"

definition term_clreol :: "termst \<Rightarrow> termst" where
  "term_clreol = term_ansi [0x4B]"

definition term_gotoxy :: "u32 \<Rightarrow> u32 \<Rightarrow> termst \<Rightarrow> termst" where
  "term_gotoxy x y T = (term_ansi (dec_digits (unat y) @ [0x3B] @ dec_digits (unat x) @ [0x48]) T)\<lparr>term_cx := x, term_cy := y\<rparr>"

definition term_up :: "u32 \<Rightarrow> termst \<Rightarrow> termst" where
  "term_up delta T = (let T1 = term_ansi (dec_digits (unat delta) @ [0x41]) T in T1\<lparr>term_cy := term_cy T1 - delta\<rparr>)"

definition term_down :: "u32 \<Rightarrow> termst \<Rightarrow> termst" where
  "term_down delta T = (let T1 = term_ansi (dec_digits (unat delta) @ [0x42]) T in T1\<lparr>term_cy := term_cy T1 + delta\<rparr>)"

definition term_right :: "u32 \<Rightarrow> termst \<Rightarrow> termst" where
  "term_right delta T = (let T1 = term_ansi (dec_digits (unat delta) @ [0x43]) T in T1\<lparr>term_cx := term_cx T1 - delta\<rparr>)"

definition term_left :: "u32 \<Rightarrow> termst \<Rightarrow> termst" where
  "term_left delta T = (let T1 = term_ansi (dec_digits (unat delta) @ [0x44]) T in T1\<lparr>term_cx := term_cx T1 + delta\<rparr>)"

definition term_get_lines :: "termst \<Rightarrow> u32" where "term_get_lines T = term_num_lines T"
definition term_get_cols :: "termst \<Rightarrow> u32" where "term_get_cols T = term_num_cols T"
definition term_get_cx :: "termst \<Rightarrow> u32" where "term_get_cx T = term_cx T"
definition term_get_cy :: "termst \<Rightarrow> u32" where "term_get_cy T = term_cy T"

section \<open>Keys as bytes\<close>

text \<open>What a terminal sends for a key; \<open>ch\<close> is a printable character.\<close>

datatype key = Chr u8 | Up | Down | Left | Right | Home | End | Pageup | Pagedown | Enter | Tab | Backspace | Ctrl_z | Ctrl_a
  | Ctrl_e | Ctrl_c | Ctrl_t | Ctrl_u | Ctrl_k | Esc

fun key_code :: "key \<Rightarrow> int" where
  "key_code (Chr b) = uint b"
| "key_code Up = KC_UP" | "key_code Down = KC_DOWN" | "key_code Left = KC_LEFT" | "key_code Right = KC_RIGHT"
| "key_code Home = KC_HOME" | "key_code End = KC_END" | "key_code Pageup = KC_PAGEUP" | "key_code Pagedown = KC_PAGEDOWN"
| "key_code Enter = KC_ENTER" | "key_code Tab = KC_TAB" | "key_code Backspace = KC_BACKSPACE" | "key_code Ctrl_z = KC_CTRL_Z"
| "key_code Ctrl_a = KC_CTRL_A" | "key_code Ctrl_e = KC_CTRL_E" | "key_code Ctrl_c = KC_CTRL_C" | "key_code Ctrl_t = KC_CTRL_T"
| "key_code Ctrl_u = KC_CTRL_U" | "key_code Ctrl_k = KC_CTRL_K" | "key_code Esc = KC_ESC"

fun key_input :: "key \<Rightarrow> u8 option list" where
  "key_input (Chr b) = [Some b]"
| "key_input Up = map Some [0x1B, 0x5B, 0x41]" | "key_input Down = map Some [0x1B, 0x5B, 0x42]"
| "key_input Right = map Some [0x1B, 0x5B, 0x43]" | "key_input Left = map Some [0x1B, 0x5B, 0x44]"
| "key_input Home = map Some [0x1B, 0x5B, 49, 126]" | "key_input End = map Some [0x1B, 0x5B, 52, 126]"
| "key_input Pageup = map Some [0x1B, 0x5B, 53, 126]" | "key_input Pagedown = map Some [0x1B, 0x5B, 54, 126]"
| "key_input Enter = [Some 0x0D, Some 0x0A]" | "key_input Tab = [Some 0x09]" | "key_input Backspace = [Some 0x7F]"
| "key_input Ctrl_z = [Some 26]" | "key_input Ctrl_a = [Some 1]" | "key_input Ctrl_e = [Some 5]" | "key_input Ctrl_c = [Some 3]"
| "key_input Ctrl_t = [Some 20]" | "key_input Ctrl_u = [Some 21]" | "key_input Ctrl_k = [Some 11]" | "key_input Esc = [Some 0x1B, None]"

fun key_ok :: "key \<Rightarrow> bool" where
  "key_ok (Chr b) \<longleftrightarrow> isprint (uint b)"
| "key_ok _ \<longleftrightarrow> True"

lemma getch_key:
  assumes "key_ok k" "term_input T = key_input k @ xs"
  shows "term_getch TERM_INPUT_WAIT T = Some (key_code k, T\<lparr>term_input := xs\<rparr>)"
  using assms
  by (cases k) (simp_all add: term_getch_def term_in_def TERM_INPUT_WAIT_def TERM_INPUT_DONT_WAIT_def term_translate_def isprint_def)

text \<open>Reading several keys.\<close>

fun getch_keys :: "nat \<Rightarrow> termst \<Rightarrow> (int list \<times> termst) option" where
  "getch_keys 0 T = Some ([], T)"
| "getch_keys (Suc n) T = do { (c, T1) \<leftarrow> term_getch TERM_INPUT_WAIT T; (cs, T2) \<leftarrow> getch_keys n T1; Some (c # cs, T2) }"

text \<open>The bytes that a terminal sends for a sequence of keys are translated back to these keys, and exactly
  these bytes are consumed.\<close>

theorem term_keys_roundtrip:
  assumes "\<forall>k\<in>set ks. key_ok k" and "term_input T = concat (map key_input ks) @ xs"
  shows "getch_keys (length ks) T = Some (map key_code ks, T\<lparr>term_input := xs\<rparr>)"
  using assms
proof (induction ks arbitrary: T)
  case (Cons k ks)
  from Cons.prems have "term_getch TERM_INPUT_WAIT T = Some (key_code k, T\<lparr>term_input := concat (map key_input ks) @ xs\<rparr>)"
    by (intro getch_key) auto
  with Cons show ?case by simp
qed simp

theorem term_keys_roundtrip_witness:
  "getch_keys 3 \<lparr>term_num_lines = 25, term_num_cols = 80, term_cx = 0, term_cy = 0,
      term_input = map Some [0x61, 0x1B, 0x5B, 0x41, 0x1B, 0x5B, 49, 126, 0x62], term_output = []\<rparr>
    = Some ([0x61, KC_UP, KC_HOME], \<lparr>term_num_lines = 25, term_num_cols = 80, term_cx = 0, term_cy = 0, term_input = [Some 0x62], term_output = []\<rparr>)"
  using term_keys_roundtrip [of "[Chr 0x61, Up, Home]" "\<lparr>term_num_lines = 25, term_num_cols = 80, term_cx = 0, term_cy = 0,
      term_input = map Some [0x61, 0x1B, 0x5B, 0x41, 0x1B, 0x5B, 49, 126, 0x62], term_output = []\<rparr>" "[Some 0x62]"]
  by (simp add: isprint_def numeral_3_eq_3)

text \<open>No input is translated to the key for deleting the character under the cursor.\<close>

lemma term_translate_not_del: "c \<noteq> KC_DEL \<Longrightarrow> fst (term_translate c T) \<noteq> KC_DEL"
  by (auto simp: term_translate_def key_codes Let_def split: prod.splits)

text \<open>The recorded column moves against the direction of the cursor.\<close>

lemma term_left_right_swapped: "term_get_cx (term_right d T) = term_get_cx T - d" "term_get_cx (term_left d T) = term_get_cx T + d"
  by (simp_all add: term_get_cx_def term_right_def term_left_def term_ansi_def Let_def)

end
