(* ===== verification/Linenoise.thy ===== *)
theory Linenoise
  imports Terminal
begin

text \<open>
  The line editor of the shell and of the interactive interpreters, \<open>src/src/linenoise.c\<close>.

  Strings are the bytes before the terminating 0. The buffer of the caller is the list of its bytes; an
  access outside of it, or outside of the history table, is the value \<open>None\<close>, as is waiting for a key that
  never comes. The lines of a history are slots that hold a pointer: null, a line, or a line that was
  freed, which must not be used again. \<open>dup_ok s\<close> says whether there is memory for a copy of \<open>s\<close>, \<open>tab_ok\<close>
  whether there is memory for the table. Saving the history at the end, which a board can switch on, is left out
  of \<open>linenoise_cleanup\<close>.
\<close>

section \<open>History\<close>

definition LINENOISE_CTRL_C :: int where "LINENOISE_CTRL_C = -2"
definition LINENOISE_PUSH_EMPTY :: int where "LINENOISE_PUSH_EMPTY = 1"
definition LINENOISE_DONT_PUSH_EMPTY :: int where "LINENOISE_DONT_PUSH_EMPTY = 0"
definition LINENOISE_HISTORY_NOT_ENABLED :: int where "LINENOISE_HISTORY_NOT_ENABLED = -2"
definition LINENOISE_HISTORY_EMPTY :: int where "LINENOISE_HISTORY_EMPTY = -3"
definition MAX_SEQ_LEN :: nat where "MAX_SEQ_LEN = 16"

datatype slot = Null | Line "u8 list" | Freed

text \<open>The entries of \<open>histories\<close>, \<open>history_lengths\<close> and \<open>history_max_lengths\<close> for one component.\<close>

record history =
  h_slots :: "slot list option"
  history_length :: int
  history_max_len :: nat

definition slot_at :: "history \<Rightarrow> int \<Rightarrow> slot option" where
  "slot_at h i = (case h_slots h of None \<Rightarrow> None | Some ss \<Rightarrow> if 0 \<le> i \<and> nat i < length ss then Some (ss ! nat i) else None)"

definition set_slot :: "int \<Rightarrow> slot \<Rightarrow> history \<Rightarrow> history option" where
  "set_slot i x h = (case h_slots h of None \<Rightarrow> None
     | Some ss \<Rightarrow> if 0 \<le> i \<and> nat i < length ss then Some (h\<lparr>h_slots := Some (ss[nat i := x])\<rparr>) else None)"

definition free_slot :: "int \<Rightarrow> history \<Rightarrow> history option" where
  "free_slot i h = do { x \<leftarrow> slot_at h i; if x = Freed then None else if x = Null then Some h else set_slot i Freed h }"

definition linenoise_cleanup :: "history \<Rightarrow> history option" where
  "linenoise_cleanup h =
     (case h_slots h of
        None \<Rightarrow> Some (h\<lparr>history_length := 0\<rparr>)
      | Some ss \<Rightarrow> if (\<exists>j < nat (history_length h). j \<ge> length ss \<or> ss ! j = Freed) then None
                   else Some (h\<lparr>h_slots := None, history_length := 0\<rparr>))"

text \<open>Adding one line: a full history loses its oldest line.\<close>

definition ln_push :: "u8 list \<Rightarrow> history \<Rightarrow> history option" where
  "ln_push line h =
     do {
       h1 \<leftarrow> (if history_length h = int (history_max_len h)
               then do {
                 h' \<leftarrow> free_slot 0 h;
                 ss \<leftarrow> h_slots h';
                 Some (h'\<lparr>h_slots := Some (take (history_max_len h - 1) (tl ss) @ drop (history_max_len h - 1) ss),
                          history_length := history_length h' - 1\<rparr>)
               }
               else Some h);
       h2 \<leftarrow> set_slot (history_length h1) (Line line) h1;
       Some (h2\<lparr>history_length := history_length h2 + 1\<rparr>)
     }"

lemma length_tl_dropWhile: "tl (dropWhile P xs) \<noteq> [] \<Longrightarrow> length (dropWhile P xs) - Suc 0 < length xs"
  using length_dropWhile_le [of P xs] by (cases "dropWhile P xs") auto

text \<open>The loop over the lines of a string with several lines.\<close>

function ln_push_lines :: "(u8 list \<Rightarrow> bool) \<Rightarrow> bool \<Rightarrow> u8 list \<Rightarrow> history \<Rightarrow> (int \<times> history) option" where
  "ln_push_lines dup_ok force_empty line h =
     (let seg = takeWhile (\<lambda>c. c \<noteq> 10) line; p = dropWhile (\<lambda>c. c \<noteq> 10) line
      in if seg \<noteq> [] \<or> force_empty
         then if \<not> dup_ok seg then Some (0, h)
              else do {
                h1 \<leftarrow> ln_push seg h;
                if p = [] \<or> tl p = [] then Some (1, h1) else ln_push_lines dup_ok force_empty (tl p) h1
              }
         else if p = [] \<or> tl p = [] then Some (1, h) else ln_push_lines dup_ok force_empty (tl p) h)"
  by pat_completeness auto
termination
  by (relation "measure (\<lambda>(d, f, line, h). length line)") (auto intro: length_tl_dropWhile)

declare ln_push_lines.simps [simp del]

definition linenoise_internal_addhistory :: "(u8 list \<Rightarrow> bool) \<Rightarrow> bool \<Rightarrow> u8 list \<Rightarrow> int \<Rightarrow> history \<Rightarrow> (int \<times> history) option" where
  "linenoise_internal_addhistory dup_ok tab_ok line force_empty h =
     (if history_max_len h = 0 then Some (0, h)
      else if h_slots h = None \<and> \<not> tab_ok then Some (0, h)
      else ln_push_lines dup_ok (force_empty = LINENOISE_PUSH_EMPTY) line
             (if h_slots h = None then h\<lparr>h_slots := Some (replicate (history_max_len h) Null)\<rparr> else h))"

definition linenoise_addhistory :: "(u8 list \<Rightarrow> bool) \<Rightarrow> bool \<Rightarrow> u8 list \<Rightarrow> history \<Rightarrow> (int \<times> history) option" where
  "linenoise_addhistory dup_ok tab_ok line h = linenoise_internal_addhistory dup_ok tab_ok line LINENOISE_DONT_PUSH_EMPTY h"

text \<open>Saving: the bytes that are written to the file; \<open>can_open\<close> says whether it can be opened.\<close>

definition linenoise_savehistory :: "bool \<Rightarrow> history \<Rightarrow> (int \<times> u8 list option) option" where
  "linenoise_savehistory can_open h =
     (if history_max_len h = 0 then Some (LINENOISE_HISTORY_NOT_ENABLED, None)
      else case h_slots h of
             None \<Rightarrow> Some (LINENOISE_HISTORY_EMPTY, None)
           | Some ss \<Rightarrow>
               if history_length h = 0 then Some (LINENOISE_HISTORY_EMPTY, None)
               else if \<not> can_open then Some (-1, None)
               else if nat (history_length h) \<le> length ss \<and> (\<forall>x \<in> set (take (nat (history_length h)) ss). \<exists>l. x = Line l)
               then Some (0, Some (concat (map (\<lambda>x. case x of Line l \<Rightarrow> l @ [10] | _ \<Rightarrow> []) (take (nat (history_length h)) ss))))
               else None)"

section \<open>The screen\<close>

text \<open>The first loop of \<open>refreshLine\<close>: the number of characters that are scrolled out to the left. A prompt that
  fills the line would make the position negative.\<close>

fun ln_scroll :: "nat \<Rightarrow> nat \<Rightarrow> nat \<Rightarrow> nat option" where
  "ln_scroll plen cols 0 = (if plen \<ge> cols then None else Some 0)"
| "ln_scroll plen cols (Suc pos) = (if plen + Suc pos \<ge> cols then map_option Suc (ln_scroll plen cols pos) else Some 0)"

fun ln_cut :: "nat \<Rightarrow> nat \<Rightarrow> nat \<Rightarrow> nat" where
  "ln_cut plen cols 0 = 0"
| "ln_cut plen cols (Suc len) = (if plen + Suc len > cols then ln_cut plen cols len else Suc len)"

definition refreshLine :: "u8 list \<Rightarrow> u8 list \<Rightarrow> nat \<Rightarrow> nat \<Rightarrow> nat \<Rightarrow> termst \<Rightarrow> termst option" where
  "refreshLine prompt buf len pos cols T =
     do {
       k \<leftarrow> ln_scroll (length prompt) cols pos;
       let len1 = ln_cut (length prompt) cols (len - k);
       if k \<le> len \<and> k + len1 \<le> length buf
       then Some (term_putstr (take (MAX_SEQ_LEN - 1) ([0x1B, 0x5B, 0x30, 0x47, 0x1B, 0x5B] @ dec_digits (pos - k + length prompt) @ [0x43]))
              (term_putstr [0x1B, 0x5B, 0x30, 0x4B]
                (term_putstr (slice k len1 buf)
                  (term_putstr prompt
                    (term_putstr [0x1B, 0x5B, 0x30, 0x47] T)))))
       else None
     }"

section \<open>Editing\<close>

text \<open>The variables of \<open>linenoisePrompt\<close>, with \<open>ln_buflen\<close> after its decrement.\<close>

record ln_state =
  ln_buf :: "u8 list"
  ln_buflen :: nat
  ln_len :: nat
  ln_pos :: nat
  history_index :: int
  ln_hist :: history
  ln_term :: termst

definition set_byte :: "nat \<Rightarrow> u8 \<Rightarrow> ln_state \<Rightarrow> ln_state option" where
  "set_byte i b s = (if i < length (ln_buf s) then Some (s\<lparr>ln_buf := (ln_buf s)[i := b]\<rparr>) else None)"

definition move_bytes :: "nat \<Rightarrow> nat \<Rightarrow> nat \<Rightarrow> ln_state \<Rightarrow> ln_state option" where
  "move_bytes dst src n s =
     (if src + n \<le> length (ln_buf s) \<and> dst + n \<le> length (ln_buf s)
      then Some (s\<lparr>ln_buf := blit dst (slice src n (ln_buf s)) (ln_buf s)\<rparr>) else None)"

definition ln_refresh :: "u8 list \<Rightarrow> nat \<Rightarrow> ln_state \<Rightarrow> ln_state option" where
  "ln_refresh prompt cols s =
     map_option (\<lambda>T. s\<lparr>ln_term := T\<rparr>) (refreshLine prompt (ln_buf s) (ln_len s) (ln_pos s) cols (ln_term s))"

text \<open>The string in the buffer.\<close>

definition ln_string :: "ln_state \<Rightarrow> u8 list option" where
  "ln_string s = (if 0 \<in> set (ln_buf s) then Some (takeWhile (\<lambda>c. c \<noteq> 0) (ln_buf s)) else None)"

definition ln_backspace :: "u8 list \<Rightarrow> nat \<Rightarrow> ln_state \<Rightarrow> ln_state option" where
  "ln_backspace prompt cols s =
     (if ln_pos s > 0 \<and> ln_len s > 0
      then do {
        s1 \<leftarrow> move_bytes (ln_pos s - 1) (ln_pos s) (ln_len s - ln_pos s) s;
        s2 \<leftarrow> set_byte (ln_len s - 1) 0 (s1\<lparr>ln_pos := ln_pos s - 1, ln_len := ln_len s - 1\<rparr>);
        ln_refresh prompt cols s2
      }
      else Some s)"

definition ln_delete :: "u8 list \<Rightarrow> nat \<Rightarrow> ln_state \<Rightarrow> ln_state option" where
  "ln_delete prompt cols s =
     (if ln_len s > 0 \<and> ln_pos s < ln_len s
      then do {
        s1 \<leftarrow> move_bytes (ln_pos s) (ln_pos s + 1) (ln_len s - ln_pos s - 1) s;
        s2 \<leftarrow> set_byte (ln_len s - 1) 0 (s1\<lparr>ln_len := ln_len s - 1\<rparr>);
        ln_refresh prompt cols s2
      }
      else Some s)"

text \<open>Any other key. The codes of the special keys are outside of the domain of \<open>isprint\<close>, so that the call is undefined for the
  keys that have no case of their own.\<close>

definition ln_insert :: "u8 list \<Rightarrow> nat \<Rightarrow> int \<Rightarrow> ln_state \<Rightarrow> ln_state option" where
  "ln_insert prompt cols c s =
     (if c < -1 \<or> 255 < c then None
      else if isprint c \<and> ln_len s < ln_buflen s
      then if ln_len s = ln_pos s
           then do {
             s1 \<leftarrow> set_byte (ln_pos s) (word_of_int c) s;
             s2 \<leftarrow> set_byte (ln_len s + 1) 0 (s1\<lparr>ln_pos := ln_pos s + 1, ln_len := ln_len s + 1\<rparr>);
             if length prompt + ln_len s2 < cols then Some (s2\<lparr>ln_term := term_putch (word_of_int c) (ln_term s2)\<rparr>)
             else ln_refresh prompt cols s2
           }
           else do {
             s1 \<leftarrow> move_bytes (ln_pos s + 1) (ln_pos s) (ln_len s - ln_pos s) s;
             s2 \<leftarrow> set_byte (ln_pos s) (word_of_int c) s1;
             s3 \<leftarrow> set_byte (ln_len s + 1) 0 (s2\<lparr>ln_pos := ln_pos s + 1, ln_len := ln_len s + 1\<rparr>);
             ln_refresh prompt cols s3
           }
      else Some s)"

text \<open>Up and down in the history: the line is saved in its entry, and another entry is shown.\<close>

definition ln_show :: "u8 list \<Rightarrow> nat \<Rightarrow> ln_state \<Rightarrow> ln_state option" where
  "ln_show prompt cols s =
     do {
       x \<leftarrow> slot_at (ln_hist s) (history_length (ln_hist s) - 1 - history_index s);
       l \<leftarrow> (case x of Line l \<Rightarrow> Some l | _ \<Rightarrow> None);
       s1 \<leftarrow> (if ln_buflen s \<le> length (ln_buf s)
               then Some (s\<lparr>ln_buf := blit 0 (take (ln_buflen s) (l @ replicate (ln_buflen s) 0)) (ln_buf s)\<rparr>) else None);
       s2 \<leftarrow> set_byte (ln_buflen s) 0 s1;
       str \<leftarrow> ln_string s2;
       ln_refresh prompt cols (s2\<lparr>ln_len := length str, ln_pos := length str\<rparr>)
     }"

definition ln_history_key :: "(u8 list \<Rightarrow> bool) \<Rightarrow> u8 list \<Rightarrow> nat \<Rightarrow> bool \<Rightarrow> ln_state \<Rightarrow> ln_state option" where
  "ln_history_key dup_ok prompt cols up s =
     (if history_length (ln_hist s) > 1
      then do {
        let i = history_length (ln_hist s) - 1 - history_index s;
        h1 \<leftarrow> free_slot i (ln_hist s);
        str \<leftarrow> ln_string s;
        h2 \<leftarrow> set_slot i (if dup_ok str then Line str else Null) h1;
        let idx = history_index s + (if up then 1 else -1);
        if idx < 0 then Some (s\<lparr>ln_hist := h2, history_index := 0\<rparr>)
        else if idx \<ge> history_length h2 then Some (s\<lparr>ln_hist := h2, history_index := history_length h2 - 1\<rparr>)
        else ln_show prompt cols (s\<lparr>ln_hist := h2, history_index := idx\<rparr>)
      }
      else Some s)"

text \<open>The keys that end the input: the entry of the current line leaves the history.\<close>

definition ln_finish :: "int \<Rightarrow> ln_state \<Rightarrow> (int \<times> ln_state) option" where
  "ln_finish c s =
     do {
       let h = (ln_hist s)\<lparr>history_length := history_length (ln_hist s) - 1\<rparr>;
       h1 \<leftarrow> free_slot (history_length h) h;
       Some (if c = KC_CTRL_C then LINENOISE_CTRL_C else if c = KC_CTRL_Z then -1 else int (ln_len s), s\<lparr>ln_hist := h1\<rparr>)
     }"

text \<open>One key; the left summand is a state in which the loop goes on.\<close>

definition ln_key :: "(u8 list \<Rightarrow> bool) \<Rightarrow> u8 list \<Rightarrow> nat \<Rightarrow> int \<Rightarrow> ln_state \<Rightarrow> (ln_state + int \<times> ln_state) option" where
  "ln_key dup_ok prompt cols c s =
     (if c = KC_ENTER \<or> c = KC_CTRL_C \<or> c = KC_CTRL_Z then map_option Inr (ln_finish c s)
      else map_option Inl
        (if c = KC_BACKSPACE then ln_backspace prompt cols s
         else if c = KC_CTRL_T then Some s
         else if c = KC_LEFT then (if ln_pos s > 0 then ln_refresh prompt cols (s\<lparr>ln_pos := ln_pos s - 1\<rparr>) else Some s)
         else if c = KC_RIGHT then (if ln_pos s \<noteq> ln_len s then ln_refresh prompt cols (s\<lparr>ln_pos := ln_pos s + 1\<rparr>) else Some s)
         else if c = KC_UP \<or> c = KC_DOWN then ln_history_key dup_ok prompt cols (c = KC_UP) s
         else if c = KC_DEL then ln_delete prompt cols s
         else if c = KC_HOME then ln_refresh prompt cols (s\<lparr>ln_pos := 0\<rparr>)
         else if c = KC_END then ln_refresh prompt cols (s\<lparr>ln_pos := ln_len s\<rparr>)
         else if c = KC_CTRL_U
         then do { s1 \<leftarrow> set_byte 0 0 s; ln_refresh prompt cols (s1\<lparr>ln_pos := 0, ln_len := 0\<rparr>) }
         else if c = KC_CTRL_K
         then do { s1 \<leftarrow> set_byte (ln_pos s) 0 s; ln_refresh prompt cols (s1\<lparr>ln_len := ln_pos s\<rparr>) }
         else ln_insert prompt cols c s))"

partial_function (option) ln_loop :: "(u8 list \<Rightarrow> bool) \<Rightarrow> u8 list \<Rightarrow> nat \<Rightarrow> ln_state \<Rightarrow> (int \<times> ln_state) option" where
  "ln_loop dup_ok prompt cols s =
     do {
       (c, T) \<leftarrow> term_getch TERM_INPUT_WAIT (ln_term s);
       r \<leftarrow> ln_key dup_ok prompt cols c (s\<lparr>ln_term := T\<rparr>);
       case r of Inl s1 \<Rightarrow> ln_loop dup_ok prompt cols s1 | Inr v \<Rightarrow> Some v
     }"

definition linenoisePrompt :: "(u8 list \<Rightarrow> bool) \<Rightarrow> bool \<Rightarrow> nat \<Rightarrow> u8 list \<Rightarrow> u8 list \<Rightarrow> nat \<Rightarrow> history \<Rightarrow> termst \<Rightarrow>
    (int \<times> ln_state) option" where
  "linenoisePrompt dup_ok tab_ok cols prompt buf buflen h T =
     do {
       s \<leftarrow> set_byte 0 0 \<lparr>ln_buf = buf, ln_buflen = buflen - 1, ln_len = 0, ln_pos = 0, history_index = 0, ln_hist = h, ln_term = T\<rparr>;
       (r, h1) \<leftarrow> linenoise_internal_addhistory dup_ok tab_ok [] LINENOISE_PUSH_EMPTY h;
       ln_loop dup_ok prompt cols (s\<lparr>ln_hist := h1, ln_term := term_putstr prompt T\<rparr>)
     }"

text \<open>Output through \<open>stdout\<close>, which sends a carriage return before every new line.\<close>

definition ln_puts :: "u8 list \<Rightarrow> termst \<Rightarrow> termst" where
  "ln_puts str = term_putstr (concat (map (\<lambda>c. if c = 10 then [13, 10] else [c]) str))"

text \<open>Without a history the line is read by \<open>fgets\<close>, a parameter. After Ctrl-C the prompt is shown again.\<close>

partial_function (option) linenoise_getline :: "(u8 list \<Rightarrow> bool) \<Rightarrow> bool \<Rightarrow> nat \<Rightarrow> (nat \<Rightarrow> termst \<Rightarrow> (u8 list option \<times> termst) option) \<Rightarrow>
    u8 list \<Rightarrow> u8 list \<Rightarrow> nat \<Rightarrow> history \<Rightarrow> termst \<Rightarrow> (int \<times> u8 list \<times> history \<times> termst) option" where
  "linenoise_getline dup_ok tab_ok cols fgets prompt buffer maxinput h T =
     (if history_max_len h = 0
      then do {
        (r, T1) \<leftarrow> fgets maxinput (ln_puts prompt T);
        Some (case r of None \<Rightarrow> (-1, buffer, h, T1) | Some b \<Rightarrow> (0, b, h, T1))
      }
      else do {
        (count, s) \<leftarrow> linenoisePrompt dup_ok tab_ok cols prompt buffer maxinput h T;
        let T1 = (if count \<noteq> -1 then ln_puts [10] (ln_term s) else ln_term s);
        if count \<noteq> LINENOISE_CTRL_C
        then if count > 0 \<and> nat count \<ge> length (ln_buf s) then None
             else Some (count, if count > 0 \<and> ln_buf s ! nat count \<noteq> 0 then (ln_buf s)[nat count := 0] else ln_buf s, ln_hist s, T1)
        else linenoise_getline dup_ok tab_ok cols fgets prompt (ln_buf s) maxinput (ln_hist s) T1
      })"

end
