(* ===== verification/Linenoise_Edit.thy ===== *)
theory Linenoise_Edit
  imports Linenoise
begin

text \<open>
  What the line editor promises: the text left and right of the cursor, and the lines of the history, change
  with every key as in an abstract editor on lists.
\<close>

section \<open>The history as a list of lines\<close>

definition hist_rel :: "history \<Rightarrow> u8 list list \<Rightarrow> bool" where
  "hist_rel h ls \<longleftrightarrow> (\<exists>ss. h_slots h = Some ss \<and> length ss = history_max_len h \<and> history_length h = int (length ls) \<and>
     length ls \<le> length ss \<and> take (length ls) ss = map Line ls)"

definition hist_ok :: "history \<Rightarrow> u8 list list \<Rightarrow> bool" where
  "hist_ok h ls \<longleftrightarrow> (h_slots h = None \<and> history_length h = 0 \<and> ls = []) \<or> hist_rel h ls"

definition push_line :: "nat \<Rightarrow> u8 list list \<Rightarrow> u8 list \<Rightarrow> u8 list list" where
  "push_line n ls l = (if length ls = n then tl ls else ls) @ [l]"

lemma hist_rel_slots:
  assumes "hist_rel h ls" obtains rest where "h_slots h = Some (map Line ls @ rest)" "length ls + length rest = history_max_len h"
    "history_length h = int (length ls)"
proof -
  from assms obtain ss where ss: "h_slots h = Some ss" "length ss = history_max_len h" "history_length h = int (length ls)"
    "length ls \<le> length ss" "take (length ls) ss = map Line ls" unfolding hist_rel_def by blast
  have "ss = map Line ls @ drop (length ls) ss" using ss(5) append_take_drop_id [of "length ls" ss] by simp
  with ss show ?thesis by (intro that [of "drop (length ls) ss"]) auto
qed

lemma hist_relI:
  "h_slots h = Some (map Line ls @ rest) \<Longrightarrow> length ls + length rest = history_max_len h \<Longrightarrow> history_length h = int (length ls) \<Longrightarrow> hist_rel h ls"
  unfolding hist_rel_def by auto

lemma free_Line:
  assumes "h_slots h = Some (map Line ls @ rest)" "i < length ls"
  shows "free_slot (int i) h = Some (h\<lparr>h_slots := Some ((map Line ls @ rest)[i := Freed])\<rparr>)"
  using assms by (simp add: free_slot_def slot_at_def set_slot_def nth_append)

lemma ln_push_rel:
  assumes "hist_rel h ls" "0 < history_max_len h"
  obtains h' where "ln_push line h = Some h'" "hist_rel h' (push_line (history_max_len h) ls line)" "history_max_len h' = history_max_len h"
proof -
  obtain rest where h: "h_slots h = Some (map Line ls @ rest)" "length ls + length rest = history_max_len h"
    "history_length h = int (length ls)" using assms(1) by (rule hist_rel_slots)
  have "\<exists>h'. ln_push line h = Some h' \<and> hist_rel h' (push_line (history_max_len h) ls line) \<and> history_max_len h' = history_max_len h"
  proof (cases "length ls = history_max_len h")
    case True
    then obtain l ls' where ls: "ls = l # ls'" using assms(2) by (cases ls) auto
    from True h(2) have "rest = []" by simp
    have "length (drop (history_max_len h - Suc 0) (Freed # map Line ls')) = 1" using True ls by simp
    then have "(drop (history_max_len h - Suc 0) (Freed # map Line ls'))[0 := x] = [x]" for x
      by (cases "drop (history_max_len h - Suc 0) (Freed # map Line ls')") auto
    with True ls \<open>rest = []\<close> show ?thesis
      using free_Line [OF h(1), of 0] h(3) assms(2)
      by (auto simp: ln_push_def push_line_def set_slot_def nth_append hist_rel_def list_update_append)
  next
    case False
    then obtain x rest' where "rest = x # rest'" using h(2) by (cases rest) auto
    then show ?thesis using False h
      by (auto simp: ln_push_def push_line_def set_slot_def hist_rel_def list_update_append)
  qed
  with that show thesis by blast
qed

lemma slot_at_Line:
  assumes "hist_rel h ls" "i < length ls"
  shows "slot_at h (int i) = Some (Line (ls ! i))"
  using assms by (auto elim!: hist_rel_slots simp: slot_at_def nth_append)

lemma replace_slot:
  assumes "hist_rel h ls" "i < length ls"
  obtains h1 h2 where "free_slot (int i) h = Some h1" "set_slot (int i) (Line str) h1 = Some h2" "hist_rel h2 (ls[i := str])"
    "history_length h2 = history_length h" "history_max_len h2 = history_max_len h"
proof -
  obtain rest where h: "h_slots h = Some (map Line ls @ rest)" "length ls + length rest = history_max_len h"
    "history_length h = int (length ls)" using assms(1) by (rule hist_rel_slots)
  have "hist_rel (h\<lparr>h_slots := Some (map Line (ls[i := str]) @ rest)\<rparr>) (ls[i := str])"
    using h assms(2) by (intro hist_relI [of _ _ rest]) simp_all
  with that free_Line [OF h(1) assms(2)] assms(2) show thesis
    by (simp add: set_slot_def list_update_append map_update)
qed

lemma drop_slot:
  assumes "hist_rel h ls" "ls \<noteq> []"
  obtains h' where "free_slot (int (length ls - 1)) (h\<lparr>history_length := history_length h - 1\<rparr>) = Some h'" "hist_rel h' (butlast ls)"
    "history_max_len h' = history_max_len h"
proof -
  obtain rest where h: "h_slots h = Some (map Line ls @ rest)" "length ls + length rest = history_max_len h"
    "history_length h = int (length ls)" using assms(1) by (rule hist_rel_slots)
  obtain ls' l where ls: "ls = ls' @ [l]" using assms(2) by (cases ls rule: rev_cases) auto
  show thesis
  proof (rule that)
    show "free_slot (int (length ls - 1)) (h\<lparr>history_length := history_length h - 1\<rparr>)
        = Some (h\<lparr>history_length := history_length h - 1, h_slots := Some (map Line ls' @ Freed # rest)\<rparr>)"
      using free_Line [of "h\<lparr>history_length := history_length h - 1\<rparr>" ls rest "length ls - 1"] h(1) ls by (simp add: list_update_append)
    show "hist_rel (h\<lparr>history_length := history_length h - 1, h_slots := Some (map Line ls' @ Freed # rest)\<rparr>) (butlast ls)"
      using h ls by (intro hist_relI [of _ _ "Freed # rest"]) simp_all
  qed simp
qed

section \<open>Adding lines, and saving them\<close>

definition hist_table :: "history \<Rightarrow> history" where
  "hist_table h = (if h_slots h = None then h\<lparr>h_slots := Some (replicate (history_max_len h) Null)\<rparr> else h)"

lemma hist_table_rel: "hist_ok h ls \<Longrightarrow> hist_rel (hist_table h) ls" "history_max_len (hist_table h) = history_max_len h"
  by (auto simp: hist_ok_def hist_table_def hist_rel_def)

fun nl_lines :: "u8 list \<Rightarrow> u8 list list" where
  "nl_lines [] = [[]]"
| "nl_lines (c # cs) = (if c = 10 then [] # nl_lines cs else (c # hd (nl_lines cs)) # tl (nl_lines cs))"

lemma nl_lines_split:
  "nl_lines line = takeWhile (\<lambda>c. c \<noteq> 10) line #
     (case dropWhile (\<lambda>c. c \<noteq> 10) line of [] \<Rightarrow> [] | _ # rest \<Rightarrow> nl_lines rest)"
  by (induction line) (auto split: list.splits)

lemma nl_lines_concat: "\<forall>l \<in> set ls. 10 \<notin> set l \<Longrightarrow> nl_lines (concat (map (\<lambda>l. l @ [10]) ls)) = ls @ [[]]"
proof (induction ls)
  case (Cons l ls)
  have "nl_lines (l @ 10 # cs) = l # nl_lines cs" if "10 \<notin> set l" for cs using that by (induction l) auto
  with Cons show ?case by simp
qed simp

definition newest :: "nat \<Rightarrow> 'a list \<Rightarrow> 'a list" where
  "newest n xs = drop (length xs - n) xs"

lemma newest_push: "length ls \<le> n \<Longrightarrow> 0 < n \<Longrightarrow> newest n (push_line n ls l @ xs) = newest n (ls @ l # xs)"
  by (cases ls; cases "length ls = n") (auto simp: newest_def push_line_def Suc_diff_le simp del: drop_append)

lemma ln_push_lines_rel:
  assumes "hist_rel h ls" "0 < history_max_len h" "\<forall>l. dup_ok l"
  shows "\<exists>h'. ln_push_lines dup_ok False line h = Some (1, h') \<and> history_max_len h' = history_max_len h \<and>
    hist_rel h' (newest (history_max_len h) (ls @ filter (\<lambda>l. l \<noteq> []) (nl_lines line)))"
  using assms
proof (induction "length line" arbitrary: line h ls rule: less_induct)
  case less
  let ?seg = "takeWhile (\<lambda>c. c \<noteq> 10) line" and ?p = "dropWhile (\<lambda>c. c \<noteq> 10) line"
  let ?ls = "if ?seg = [] then ls else push_line (history_max_len h) ls ?seg"
  have len: "length ls \<le> history_max_len h" using less.prems(1) by (auto elim: hist_rel_slots)
  obtain h1 where h1: "(if ?seg = [] then Some h else ln_push ?seg h) = Some h1" "hist_rel h1 ?ls" "history_max_len h1 = history_max_len h"
    using less.prems(1,2) by (cases "?seg = []") (auto intro: ln_push_rel [OF less.prems(1,2), of ?seg])
  have step: "ln_push_lines dup_ok False line h = (if ?p = [] \<or> tl ?p = [] then Some (1, h1) else ln_push_lines dup_ok False (tl ?p) h1)"
    using h1(1) less.prems(3) by (subst ln_push_lines.simps) (auto simp: Let_def split: if_splits)
  have new: "newest (history_max_len h) (?ls @ xs) = newest (history_max_len h) (ls @ filter (\<lambda>l. l \<noteq> []) (?seg # ys))"
    if "filter (\<lambda>l. l \<noteq> []) ys = xs" for xs ys using that newest_push [OF len less.prems(2)] by simp
  show ?case
  proof (cases "?p = [] \<or> tl ?p = []")
    case True
    then have "filter (\<lambda>l. l \<noteq> []) (nl_lines line) = filter (\<lambda>l. l \<noteq> []) [?seg]"
      by (cases ?p) (simp_all add: nl_lines_split [of line] del: dropWhile_eq_Nil_conv)
    moreover have "length ?ls \<le> history_max_len h" using h1(2,3) by (auto elim: hist_rel_slots)
    ultimately have "newest (history_max_len h) (ls @ filter (\<lambda>l. l \<noteq> []) (nl_lines line)) = ?ls"
      using new [of "[]" "[]"] by (simp add: newest_def)
    then show ?thesis using True step h1(2,3) by auto
  next
    case False
    have "length (tl ?p) < length line" using False length_tl_dropWhile by auto
    then have "\<exists>h'. ln_push_lines dup_ok False (tl ?p) h1 = Some (1, h') \<and> history_max_len h' = history_max_len h1 \<and>
        hist_rel h' (newest (history_max_len h1) (?ls @ filter (\<lambda>l. l \<noteq> []) (nl_lines (tl ?p))))"
      using less.hyps [OF _ h1(2)] h1(3) less.prems(2,3) by metis
    moreover have "nl_lines line = ?seg # nl_lines (tl ?p)" using False by (cases ?p) (simp_all add: nl_lines_split [of line])
    moreover have "ln_push_lines dup_ok False line h = ln_push_lines dup_ok False (tl ?p) h1" using step by (simp only: False if_False)
    ultimately show ?thesis using h1(3) new [OF refl, of "nl_lines (tl ?p)"] by (simp only:)
  qed
qed

lemma linenoise_addhistory_rel:
  assumes "hist_ok h ls" "0 < history_max_len h" "\<forall>l. dup_ok l"
  shows "\<exists>h'. linenoise_addhistory dup_ok True line h = Some (1, h') \<and> history_max_len h' = history_max_len h \<and>
    hist_ok h' (newest (history_max_len h) (ls @ filter (\<lambda>l. l \<noteq> []) (nl_lines line)))"
  using ln_push_lines_rel [OF hist_table_rel(1) [OF assms(1)], of dup_ok line] assms(2,3)
  by (auto simp: linenoise_addhistory_def linenoise_internal_addhistory_def LINENOISE_PUSH_EMPTY_def LINENOISE_DONT_PUSH_EMPTY_def
      hist_ok_def hist_table_def)

lemma linenoise_savehistory_rel:
  assumes "hist_rel h ls" "ls \<noteq> []" "0 < history_max_len h"
  shows "linenoise_savehistory True h = Some (0, Some (concat (map (\<lambda>l. l @ [10]) ls)))"
  using assms by (auto elim!: hist_rel_slots simp: linenoise_savehistory_def comp_def)

text \<open>A history that is saved and whose file is added to an empty history of the same length gives the same
  lines again.\<close>

theorem linenoise_history_roundtrip:
  assumes "hist_ok h ls" and "ls \<noteq> []" and "\<forall>l \<in> set ls. l \<noteq> [] \<and> 10 \<notin> set l"
    and "h_slots h0 = None" and "history_length h0 = 0" and "history_max_len h0 = history_max_len h" and "\<forall>l. dup_ok l"
  shows "\<exists>saved h1. linenoise_savehistory True h = Some (0, Some saved) \<and> linenoise_addhistory dup_ok True saved h0 = Some (1, h1) \<and> hist_ok h1 ls"
proof -
  have rel: "hist_rel h ls" using assms(1,2) by (auto simp: hist_ok_def)
  then have len: "length ls \<le> history_max_len h" by (auto elim: hist_rel_slots)
  with assms(2) have pos: "0 < history_max_len h" by (cases ls) auto
  have "filter (\<lambda>l. l \<noteq> []) (nl_lines (concat (map (\<lambda>l. l @ [10]) ls))) = ls"
    using assms(3) by (simp add: nl_lines_concat filter_id_conv)
  moreover have "hist_ok h0 []" using assms(4,5) by (simp add: hist_ok_def)
  ultimately show ?thesis
    using linenoise_addhistory_rel [of h0 "[]" dup_ok "concat (map (\<lambda>l. l @ [10]) ls)"] linenoise_savehistory_rel [OF rel assms(2)]
      len pos assms(6,7) by (auto simp: newest_def)
qed

theorem linenoise_history_roundtrip_witness:
  "\<exists>saved h1. linenoise_savehistory True \<lparr>h_slots = Some [Line [0x61], Line [0x62, 0x63], Freed], history_length = 2, history_max_len = 3\<rparr> = Some (0, Some saved) \<and>
    linenoise_addhistory (\<lambda>_. True) True saved \<lparr>h_slots = None, history_length = 0, history_max_len = 3\<rparr> = Some (1, h1) \<and>
    hist_ok h1 [[0x61], [0x62, 0x63]]"
  by (rule linenoise_history_roundtrip) (simp_all add: hist_ok_def hist_rel_def)

section \<open>The abstract editor\<close>

record editor =
  ed_left :: "u8 list"
  ed_right :: "u8 list"
  ed_lines :: "u8 list list"
  ed_index :: nat

definition ed_text :: "editor \<Rightarrow> u8 list" where "ed_text e = ed_left e @ ed_right e"

definition ed_set :: "u8 list \<Rightarrow> u8 list \<Rightarrow> editor \<Rightarrow> editor" where
  "ed_set l r e = e\<lparr>ed_left := l, ed_right := r\<rparr>"

definition ed_show :: "nat \<Rightarrow> nat \<Rightarrow> editor \<Rightarrow> editor" where
  "ed_show cap i e = e\<lparr>ed_left := take cap (ed_lines e ! (length (ed_lines e) - 1 - i)), ed_right := [], ed_index := i\<rparr>"

definition ed_history :: "nat \<Rightarrow> bool \<Rightarrow> editor \<Rightarrow> editor" where
  "ed_history cap up e =
     (let n = length (ed_lines e); i = ed_index e; e' = e\<lparr>ed_lines := (ed_lines e)[n - 1 - i := ed_text e]\<rparr>
      in if n \<le> 1 then e
         else if up then (if i + 1 < n then ed_show cap (i + 1) e' else e')
         else (if 0 < i then ed_show cap (i - 1) e' else e'))"

fun ed_key :: "nat \<Rightarrow> key \<Rightarrow> editor \<Rightarrow> editor" where
  "ed_key cap (Chr b) e = (if length (ed_text e) < cap then ed_set (ed_left e @ [b]) (ed_right e) e else e)"
| "ed_key cap Backspace e = ed_set (butlast (ed_left e)) (ed_right e) e"
| "ed_key cap Left e = (if ed_left e = [] then e else ed_set (butlast (ed_left e)) (List.last (ed_left e) # ed_right e) e)"
| "ed_key cap Right e = (case ed_right e of [] \<Rightarrow> e | c # cs \<Rightarrow> ed_set (ed_left e @ [c]) cs e)"
| "ed_key cap Home e = ed_set [] (ed_text e) e"
| "ed_key cap End e = ed_set (ed_text e) [] e"
| "ed_key cap Ctrl_u e = ed_set [] [] e"
| "ed_key cap Ctrl_k e = ed_set (ed_left e) [] e"
| "ed_key cap Up e = ed_history cap True e"
| "ed_key cap Down e = ed_history cap False e"
| "ed_key cap _ e = e"

text \<open>The keys that edit the line: printable characters and the keys with a case of their own in the loop that do not end it.\<close>

fun edit_key :: "key \<Rightarrow> bool" where
  "edit_key (Chr b) = key_ok (Chr b)"
| "edit_key k = (k \<in> {Backspace, Left, Right, Up, Down, Home, End, Ctrl_t, Ctrl_u, Ctrl_k})"

section \<open>The buffer\<close>

definition ln_rel :: "ln_state \<Rightarrow> editor \<Rightarrow> bool" where
  "ln_rel s e \<longleftrightarrow>
     (\<exists>rest. ln_buf s = ed_text e @ 0 # rest \<and> ln_buflen s \<le> length (ed_text e) + length rest) \<and>
     ln_len s = length (ed_text e) \<and> ln_pos s = length (ed_left e) \<and> length (ed_text e) \<le> ln_buflen s \<and> 0 \<notin> set (ed_text e) \<and>
     history_index s = int (ed_index e) \<and> ed_index e < length (ed_lines e) \<and>
     hist_rel (ln_hist s) (ed_lines e) \<and> (\<forall>l \<in> set (ed_lines e). 0 \<notin> set l)"

text \<open>Showing the line changes only the screen, and never fails when the prompt leaves room for a character.\<close>

lemma ln_scroll_total: "plen < cols \<Longrightarrow> \<exists>k. ln_scroll plen cols pos = Some k \<and> k \<le> pos \<and> plen + (pos - k) < cols"
  by (induction pos) auto

lemma ln_cut_le: "ln_cut plen cols n \<le> n" "plen \<le> cols \<Longrightarrow> plen + ln_cut plen cols n \<le> cols"
  by (induction n) auto

lemma ln_refresh_ok:
  assumes "length prompt < cols" "ln_pos s \<le> ln_len s" "ln_len s \<le> length (ln_buf s)"
  obtains T where "ln_refresh prompt cols s = Some (s\<lparr>ln_term := T\<rparr>)" "term_input T = term_input (ln_term s)"
proof -
  obtain k where k: "ln_scroll (length prompt) cols (ln_pos s) = Some k" "k \<le> ln_pos s" using ln_scroll_total [OF assms(1)] by blast
  moreover have "k + ln_cut (length prompt) cols (ln_len s - k) \<le> length (ln_buf s)"
    using ln_cut_le(1) [of "length prompt" cols "ln_len s - k"] k assms by linarith
  ultimately show thesis using that assms by (auto simp: ln_refresh_def refreshLine_def Let_def)
qed

definition ln_to :: "ln_state \<Rightarrow> ln_state option \<Rightarrow> editor \<Rightarrow> bool" where
  "ln_to s r e \<longleftrightarrow> (\<exists>s'. r = Some s' \<and> ln_rel s' e \<and> ln_buflen s' = ln_buflen s \<and> term_input (ln_term s') = term_input (ln_term s) \<and>
     length (ln_buf s') = length (ln_buf s) \<and> history_max_len (ln_hist s') = history_max_len (ln_hist s))"

lemma ln_rel_term [simp]: "ln_rel (s\<lparr>ln_term := T\<rparr>) e \<longleftrightarrow> ln_rel s e"
  by (simp add: ln_rel_def)

lemma ln_to_same: "ln_rel s e \<Longrightarrow> ln_to s (Some s) e"
  by (simp add: ln_to_def)

lemma ln_to_refresh:
  assumes "length prompt < cols" "ln_rel s1 e" "ln_buflen s1 = ln_buflen s" "term_input (ln_term s1) = term_input (ln_term s)"
    "length (ln_buf s1) = length (ln_buf s)" "history_max_len (ln_hist s1) = history_max_len (ln_hist s)"
  shows "ln_to s (ln_refresh prompt cols s1) e"
proof -
  have "ln_pos s1 \<le> ln_len s1" "ln_len s1 \<le> length (ln_buf s1)" using assms(2) by (auto simp: ln_rel_def ed_text_def)
  then obtain T where "ln_refresh prompt cols s1 = Some (s1\<lparr>ln_term := T\<rparr>)" "term_input T = term_input (ln_term s1)"
    using ln_refresh_ok [OF assms(1)] by blast
  with assms show ?thesis by (simp add: ln_to_def)
qed

lemma ln_relE:
  assumes "ln_rel s e"
  obtains rest where "ln_buf s = ed_left e @ ed_right e @ 0 # rest" "ln_buflen s \<le> length (ed_text e) + length rest"
    "ln_len s = length (ed_left e) + length (ed_right e)" "ln_pos s = length (ed_left e)"
    "length (ed_left e) + length (ed_right e) \<le> ln_buflen s" "0 \<notin> set (ed_left e)" "0 \<notin> set (ed_right e)"
  using assms by (auto simp: ln_rel_def ed_text_def)

text \<open>An edit of the text: the history stays.\<close>

lemma ln_rel_set:
  assumes "ln_rel s e" "ln_buf s1 = l @ r @ 0 # rest" "length (ln_buf s1) = length (ln_buf s)" "ln_len s1 = length l + length r"
    "ln_pos s1 = length l" "length l + length r \<le> ln_buflen s" "0 \<notin> set l" "0 \<notin> set r" "ln_buflen s1 = ln_buflen s"
    "history_index s1 = history_index s" "ln_hist s1 = ln_hist s"
  shows "ln_rel s1 (ed_set l r e)"
proof -
  have "ln_buflen s < length (ln_buf s)" using assms(1) by (auto simp: ln_rel_def)
  with assms show ?thesis by (auto simp: ln_rel_def ed_set_def ed_text_def)
qed

lemma drop_shift: "drop (length r) (c # r @ zs) = List.last (c # r) # zs"
  by (induction r arbitrary: c) auto

lemma ln_backspace_to:
  assumes "length prompt < cols" "ln_rel s e"
  shows "ln_to s (ln_backspace prompt cols s) (ed_set (butlast (ed_left e)) (ed_right e) e)"
proof (cases "ed_left e" rule: rev_cases)
  case Nil
  then have "ed_set (butlast (ed_left e)) (ed_right e) e = e" by (simp add: ed_set_def)
  with Nil show ?thesis using assms(2) ln_to_same by (auto simp: ln_backspace_def elim!: ln_relE)
next
  case (snoc l c)
  obtain rest where s: "ln_buf s = l @ c # ed_right e @ 0 # rest" "ln_len s = Suc (length l) + length (ed_right e)"
    "ln_pos s = Suc (length l)" "0 \<notin> set l" "0 \<notin> set (ed_right e)" "Suc (length l) + length (ed_right e) \<le> ln_buflen s"
    using assms(2) snoc by (auto elim!: ln_relE)
  define s2 where "s2 = s\<lparr>ln_pos := length l, ln_len := length l + length (ed_right e), ln_buf := l @ ed_right e @ 0 # 0 # rest\<rparr>"
  have "ln_backspace prompt cols s = ln_refresh prompt cols s2"
    using s by (simp add: ln_backspace_def move_bytes_def set_byte_def blit_def slice_def s2_def drop_shift list_update_append)
  moreover have "ln_rel s2 (ed_set l (ed_right e) e)"
    by (rule ln_rel_set [OF assms(2)]) (use s in \<open>auto simp: s2_def\<close>)
  ultimately show ?thesis using snoc s by (auto intro!: ln_to_refresh [OF assms(1)] simp: s2_def)
qed

lemma byte_code: "\<not> uint (b :: u8) < -1" "\<not> 255 < uint (b :: u8)"
  using uint_ge_0 [of b] unsigned_less [of b, where ?'a = int] by (linarith, simp)

lemma ln_insert_to:
  assumes "length prompt < cols" "ln_rel s e" "isprint (uint b)"
  shows "ln_to s (ln_insert prompt cols (uint b) s) (ed_key (ln_buflen s) (Chr b) e)"
proof (cases "length (ed_text e) < ln_buflen s")
  case False
  then show ?thesis using assms(2) ln_to_same by (auto simp: ln_insert_def byte_code ed_text_def elim!: ln_relE)
next
  case True
  obtain x rest where s: "ln_buf s = ed_left e @ ed_right e @ 0 # x # rest" "ln_len s = length (ed_left e) + length (ed_right e)"
    "ln_pos s = length (ed_left e)" "0 \<notin> set (ed_left e)" "0 \<notin> set (ed_right e)" "length (ed_left e) + length (ed_right e) < ln_buflen s"
  proof (rule ln_relE [OF assms(2)])
    fix rest assume "ln_buf s = ed_left e @ ed_right e @ 0 # rest" "ln_buflen s \<le> length (ed_text e) + length rest"
      "ln_len s = length (ed_left e) + length (ed_right e)" "ln_pos s = length (ed_left e)" "0 \<notin> set (ed_left e)" "0 \<notin> set (ed_right e)"
    with True that show thesis by (cases rest) (auto simp: ed_text_def)
  qed
  define s2 where "s2 = s\<lparr>ln_pos := ln_pos s + 1, ln_len := ln_len s + 1, ln_buf := (ed_left e @ [b]) @ ed_right e @ 0 # rest\<rparr>"
  have b: "b \<noteq> 0" using assms(3) by (auto simp: isprint_def)
  have rel: "ln_rel s2 (ed_set (ed_left e @ [b]) (ed_right e) e)"
    by (rule ln_rel_set [OF assms(2)]) (use s b in \<open>auto simp: s2_def\<close>)
  have to: "ln_to s (ln_refresh prompt cols s2) (ed_set (ed_left e @ [b]) (ed_right e) e)"
    using rel s by (intro ln_to_refresh [OF assms(1)]) (auto simp: s2_def)
  have put: "ln_to s (Some (s2\<lparr>ln_term := term_putch b (ln_term s2)\<rparr>)) (ed_set (ed_left e @ [b]) (ed_right e) e)"
    using rel s by (auto simp: ln_to_def s2_def term_putch_def term_out_def)
  show ?thesis
  proof (cases "ed_right e")
    case Nil
    have "ln_insert prompt cols (uint b) s
        = (if length prompt + ln_len s2 < cols then Some (s2\<lparr>ln_term := term_putch b (ln_term s2)\<rparr>) else ln_refresh prompt cols s2)"
      using s Nil assms(3) True by (simp add: ln_insert_def byte_code set_byte_def s2_def list_update_append)
    then show ?thesis using True to put by simp
  next
    case (Cons c r)
    have "ln_insert prompt cols (uint b) s = ln_refresh prompt cols s2"
      using s Cons assms(3) True by (simp add: ln_insert_def byte_code set_byte_def move_bytes_def blit_def slice_def s2_def list_update_append)
    then show ?thesis using True to by simp
  qed
qed

lemma takeWhile_line: "0 \<notin> set l \<Longrightarrow> takeWhile (\<lambda>c. c \<noteq> 0) (l @ 0 # r) = (l :: u8 list)"
  by (induction l) auto

lemma ln_string_rel: "ln_rel s e \<Longrightarrow> ln_string s = Some (ed_text e)"
  by (auto simp: ln_rel_def ln_string_def takeWhile_line)

text \<open>Copying a line of the history into the buffer.\<close>

lemma fill_line:
  assumes "n < length buf"
  obtains rest where "(blit 0 (take n (l @ replicate n 0)) buf)[n := 0] = take n l @ 0 # rest"
proof -
  have "(blit 0 (take n (l @ replicate n 0)) buf)[n := 0] = take n l @ replicate (n - length l) 0 @ 0 # drop (Suc n) buf"
  proof -
    obtain y ys where "drop n buf = y # ys" using assms(1) by (cases "drop n buf") auto
    moreover then have "drop (Suc n) buf = ys" by (metis drop_Suc list.sel(3) tl_drop)
    ultimately show ?thesis using assms(1) by (auto simp: blit_def list_update_append min_def)
  qed
  then have "(blit 0 (take n (l @ replicate n 0)) buf)[n := 0] = take n l @ 0 # replicate (n - length l) 0 @ drop (Suc n) buf"
    by (simp add: replicate_app_Cons_same)
  then show thesis by (rule that)
qed

lemma ln_show_to:
  assumes "length prompt < cols" "ln_rel s e"
  shows "ln_to s (ln_show prompt cols s) (ed_show (ln_buflen s) (ed_index e) e)"
proof -
  define i where "i = length (ed_lines e) - 1 - ed_index e"
  define l where "l = ed_lines e ! i"
  have s: "hist_rel (ln_hist s) (ed_lines e)" "history_length (ln_hist s) = int (length (ed_lines e))" "history_index s = int (ed_index e)"
    "ed_index e < length (ed_lines e)" "ln_buflen s < length (ln_buf s)"
    using assms(2) by (auto simp: ln_rel_def elim!: hist_rel_slots)
  then have i: "i < length (ed_lines e)" "history_length (ln_hist s) - 1 - history_index s = int i" by (auto simp: i_def)
  then have l: "slot_at (ln_hist s) (int i) = Some (Line l)" "0 \<notin> set l"
    using slot_at_Line [OF s(1)] assms(2) by (auto simp: ln_rel_def l_def)
  then have z: "0 \<notin> set (take (ln_buflen s) l)" by (auto dest: in_set_takeD)
  obtain rest where rest: "(blit 0 (take (ln_buflen s) (l @ replicate (ln_buflen s) 0)) (ln_buf s))[ln_buflen s := 0]
      = take (ln_buflen s) l @ 0 # rest" using fill_line [OF s(5)] by blast
  define s2 where "s2 = s\<lparr>ln_buf := take (ln_buflen s) l @ 0 # rest, ln_len := length (take (ln_buflen s) l), ln_pos := length (take (ln_buflen s) l)\<rparr>"
  have len: "length (take (ln_buflen s) l @ 0 # rest) = length (ln_buf s)" using arg_cong [OF rest, of length] s(5) by simp
  have "ln_show prompt cols s = ln_refresh prompt cols s2"
    using s(5) l(1) i(2) z by (simp add: ln_show_def set_byte_def ln_string_def takeWhile_line s2_def rest del: take_append)
  moreover have "ln_rel s2 (ed_show (ln_buflen s) (ed_index e) e)"
    using assms(2) z len s(5) by (auto simp: ln_rel_def s2_def ed_show_def ed_text_def l_def i_def min_def split: if_splits)
  ultimately show ?thesis using len by (auto intro!: ln_to_refresh [OF assms(1)] simp: s2_def)
qed

lemma ln_history_key_to:
  assumes "length prompt < cols" "ln_rel s e" "\<forall>l. dup_ok l"
  shows "ln_to s (ln_history_key dup_ok prompt cols up s) (ed_history (ln_buflen s) up e)"
proof (cases "length (ed_lines e) > 1")
  case False
  then have "ln_history_key dup_ok prompt cols up s = Some s"
    using assms(2) by (auto simp: ln_history_key_def ln_rel_def elim!: hist_rel_slots)
  with False assms(2) show ?thesis by (simp add: ed_history_def ln_to_same)
next
  case True
  define n where "n = length (ed_lines e)"
  define i where "i = n - 1 - ed_index e"
  define e' where "e' = e\<lparr>ed_lines := (ed_lines e)[i := ed_text e]\<rparr>"
  have s: "hist_rel (ln_hist s) (ed_lines e)" "history_length (ln_hist s) = int n" "history_index s = int (ed_index e)" "ed_index e < n"
    using assms(2) by (auto simp: ln_rel_def n_def elim!: hist_rel_slots)
  have i: "history_length (ln_hist s) - 1 - history_index s = int i" "i < length (ed_lines e)" using s by (auto simp: i_def n_def)
  obtain h1 h2 where h: "free_slot (int i) (ln_hist s) = Some h1" "set_slot (int i) (Line (ed_text e)) h1 = Some h2"
    "hist_rel h2 (ed_lines e')" "history_length h2 = int n" "history_max_len h2 = history_max_len (ln_hist s)"
  proof (rule replace_slot [OF s(1) i(2), of "ed_text e"])
    fix h1 h2 assume "free_slot (int i) (ln_hist s) = Some h1" "set_slot (int i) (Line (ed_text e)) h1 = Some h2"
      "hist_rel h2 ((ed_lines e)[i := ed_text e])" "history_length h2 = history_length (ln_hist s)"
      "history_max_len h2 = history_max_len (ln_hist s)"
    with s(2) show thesis by (intro that [of h1 h2]) (simp_all add: e'_def)
  qed
  have rel: "ln_rel (s\<lparr>ln_hist := h2, history_index := int j\<rparr>) (e'\<lparr>ed_index := j\<rparr>)" if "j < n" for j
    using assms(2) h(3) that by (auto simp: ln_rel_def e'_def ed_text_def n_def dest!: set_update_subset_insert [THEN subsetD])
  have show_to: "ln_to s (ln_show prompt cols (s\<lparr>ln_hist := h2, history_index := int j\<rparr>)) (ed_show (ln_buflen s) j e')" if "j < n" for j
    using ln_show_to [OF assms(1) rel [OF that]] h(5) by (simp add: ln_to_def ed_show_def)
  have stay: "ln_to s (Some (s\<lparr>ln_hist := h2, history_index := int (ed_index e)\<rparr>)) e'"
    using rel [OF s(4)] h(5) by (simp add: ln_to_def e'_def)
  have key: "ln_history_key dup_ok prompt cols up s =
     (let idx = int (ed_index e) + (if up then 1 else -1)
      in if idx < 0 then Some (s\<lparr>ln_hist := h2, history_index := 0\<rparr>)
         else if idx \<ge> int n then Some (s\<lparr>ln_hist := h2, history_index := int n - 1\<rparr>)
         else ln_show prompt cols (s\<lparr>ln_hist := h2, history_index := idx\<rparr>))"
    using True s(2-4) i(1) h(1,2,4) assms(3) by (simp add: ln_history_key_def ln_string_rel [OF assms(2)] n_def Let_def cong: if_cong)
  have ed: "ed_history (ln_buflen s) up e = (if up then (if ed_index e + 1 < n then ed_show (ln_buflen s) (ed_index e + 1) e' else e')
         else (if 0 < ed_index e then ed_show (ln_buflen s) (ed_index e - 1) e' else e'))"
    using True by (simp add: ed_history_def Let_def n_def i_def e'_def)
  consider "up" "ed_index e + 1 < n" | "up" "ed_index e + 1 = n" | "\<not> up" "ed_index e = 0" | "\<not> up" "0 < ed_index e" using s(4) by linarith
  then show ?thesis
  proof cases
    case 1 then show ?thesis using show_to [of "ed_index e + 1"] unfolding key ed by (simp add: add.commute)
  next
    case 2 then have "int n - 1 = int (ed_index e)" by simp
    with 2 show ?thesis using stay unfolding key ed by simp
  next
    case 3 then show ?thesis using stay unfolding key ed by simp
  next
    case 4 then show ?thesis using show_to [of "ed_index e - 1"] s(4) unfolding key ed by (simp add: of_nat_diff)
  qed
qed

section \<open>One key\<close>

lemma ln_move_to:
  assumes "length prompt < cols" "ln_rel s e" "l @ r = ed_text e"
  shows "ln_to s (ln_refresh prompt cols (s\<lparr>ln_pos := length l\<rparr>)) (ed_set l r e)"
proof -
  have "ln_rel (s\<lparr>ln_pos := length l\<rparr>) (ed_set l r e)" using assms(2,3) by (auto simp: ln_rel_def ed_set_def ed_text_def)
  then show ?thesis by (intro ln_to_refresh [OF assms(1)]) simp_all
qed

lemma ln_kill_to:
  assumes "length prompt < cols" "ln_rel s e" "ed_text e = l @ r"
  shows "ln_to s (do { s1 \<leftarrow> set_byte (length l) 0 s; ln_refresh prompt cols (s1\<lparr>ln_pos := length l, ln_len := length l\<rparr>) }) (ed_set l [] e)"
proof -
  obtain rest where s: "ln_buf s = l @ r @ 0 # rest" "length l \<le> ln_buflen s" "0 \<notin> set l"
    using assms(2,3) by (auto simp: ln_rel_def)
  obtain y ys where y: "r @ 0 # rest = y # ys" by (cases "r @ 0 # rest") auto
  have len: "length (ln_buf s) = length l + Suc (length ys)" using s(1) y by simp
  define s1 where "s1 = s\<lparr>ln_buf := l @ 0 # ys, ln_pos := length l, ln_len := length l\<rparr>"
  have "ln_rel s1 (ed_set l [] e)" by (rule ln_rel_set [OF assms(2), of _ _ _ ys]) (use s len in \<open>auto simp: s1_def\<close>)
  moreover have "set_byte (length l) 0 s = Some (s\<lparr>ln_buf := l @ 0 # ys\<rparr>)"
    using s(1) y len by (simp add: set_byte_def list_update_append)
  ultimately show ?thesis using len by (auto intro!: ln_to_refresh [OF assms(1)] simp: s1_def)
qed

lemma ln_key_to:
  assumes "length prompt < cols" "ln_rel s e" "\<forall>l. dup_ok l" "edit_key k"
  shows "\<exists>r. ln_key dup_ok prompt cols (key_code k) s = map_option Inl r \<and> ln_to s r (ed_key (ln_buflen s) k e)"
proof -
  note unf = ln_key_def key_codes
  have pos: "ln_pos s = length (ed_left e)" "ln_len s = length (ed_text e)" using assms(2) by (auto simp: ln_rel_def)
  have same: "\<exists>r. Some (Inl s) = map_option Inl r \<and> ln_to s r e" using ln_to_same [OF assms(2)] by (intro exI [of _ "Some s"]) simp
  show ?thesis
  proof (cases k)
    case (Chr b)
    then have "isprint (uint b)" using assms(4) by simp
    moreover then have "ln_key dup_ok prompt cols (key_code k) s = map_option Inl (ln_insert prompt cols (uint b) s)"
      using Chr by (auto simp: unf isprint_def)
    ultimately show ?thesis using Chr ln_insert_to [OF assms(1,2)] by blast
  next
    case Up then show ?thesis using ln_history_key_to [OF assms(1-3)] by (auto simp: unf)
  next
    case Down then show ?thesis using ln_history_key_to [OF assms(1-3)] by (auto simp: unf)
  next
    case Left
    have "ln_to s (if ln_pos s > 0 then ln_refresh prompt cols (s\<lparr>ln_pos := ln_pos s - 1\<rparr>) else Some s) (ed_key (ln_buflen s) k e)"
    proof (cases "ed_left e" rule: rev_cases)
      case (snoc l c) then show ?thesis using Left pos ln_move_to [OF assms(1,2), of l "c # ed_right e"] by (simp add: ed_text_def)
    qed (use Left pos assms(2) ln_to_same in auto)
    then show ?thesis by (intro exI conjI) (simp_all add: Left unf cong: if_cong)
  next
    case Right
    have "ln_to s (if ln_pos s \<noteq> ln_len s then ln_refresh prompt cols (s\<lparr>ln_pos := ln_pos s + 1\<rparr>) else Some s) (ed_key (ln_buflen s) k e)"
    proof (cases "ed_right e")
      case (Cons c r) then show ?thesis using Right pos ln_move_to [OF assms(1,2), of "ed_left e @ [c]" r] by (simp add: ed_text_def)
    qed (use Right pos assms(2) ln_to_same in \<open>auto simp: ed_text_def\<close>)
    then show ?thesis by (intro exI conjI) (simp_all add: Right unf cong: if_cong)
  next
    case Home then show ?thesis using ln_move_to [OF assms(1,2), of "[]" "ed_text e"] by (auto simp: unf)
  next
    case End then show ?thesis using ln_move_to [OF assms(1,2), of "ed_text e" "[]"] pos by (auto simp: unf)
  next
    case Backspace then show ?thesis using ln_backspace_to [OF assms(1,2)] by (auto simp: unf)
  next
    case Ctrl_u then show ?thesis using ln_kill_to [OF assms(1,2), of "[]" "ed_text e"] by (auto simp: unf)
  next
    case Ctrl_k
    have "ln_to s (do { s1 \<leftarrow> set_byte (ln_pos s) 0 s; ln_refresh prompt cols (s1\<lparr>ln_len := ln_pos s\<rparr>) }) (ed_key (ln_buflen s) k e)"
    proof -
      define buf1 where "buf1 = (ln_buf s)[length (ed_left e) := 0]"
      have b: "length (ed_left e) < length (ln_buf s)" using assms(2) by (auto simp: ln_rel_def ed_text_def)
      have eq: "s\<lparr>ln_buf := buf1, ln_pos := length (ed_left e), ln_len := n\<rparr> = s\<lparr>ln_buf := buf1, ln_len := n\<rparr>" for n
        using pos by (intro ln_state.equality) simp_all
      have "ln_to s (ln_refresh prompt cols (s\<lparr>ln_buf := buf1, ln_pos := length (ed_left e), ln_len := length (ed_left e)\<rparr>)) (ed_set (ed_left e) [] e)"
        using ln_kill_to [OF assms(1,2), of "ed_left e" "ed_right e"] b by (simp add: set_byte_def buf1_def ed_text_def)
      then have "ln_to s (ln_refresh prompt cols (s\<lparr>ln_buf := buf1, ln_len := length (ed_left e)\<rparr>)) (ed_set (ed_left e) [] e)"
        unfolding eq .
      then show ?thesis using b pos Ctrl_k by (simp add: set_byte_def buf1_def)
    qed
    then show ?thesis by (intro exI conjI) (simp_all add: Ctrl_k unf cong: if_cong)
  qed (use assms(4) same in \<open>auto simp: unf\<close>)
qed

section \<open>One line\<close>

fun stop_code :: "key \<Rightarrow> editor \<Rightarrow> int" where
  "stop_code Ctrl_c e = LINENOISE_CTRL_C"
| "stop_code Ctrl_z e = -1"
| "stop_code _ e = int (length (ed_text e))"

text \<open>The state when the editor is left.\<close>

definition ln_done :: "nat \<Rightarrow> nat \<Rightarrow> u8 option list \<Rightarrow> editor \<Rightarrow> ln_state \<Rightarrow> bool" where
  "ln_done blen maxlen xs e s \<longleftrightarrow>
     (\<exists>rest. ln_buf s = ed_text e @ 0 # rest) \<and> length (ln_buf s) = blen \<and> term_input (ln_term s) = xs \<and>
     hist_rel (ln_hist s) (butlast (ed_lines e)) \<and> history_max_len (ln_hist s) = maxlen \<and> (\<forall>l \<in> set (ed_lines e). 0 \<notin> set l)"

lemma ln_finish_done:
  assumes "ln_rel s e" "stop \<in> {Enter, Ctrl_c, Ctrl_z}"
  obtains s' where "ln_finish (key_code stop) s = Some (stop_code stop e, s')"
    "ln_done (length (ln_buf s)) (history_max_len (ln_hist s)) (term_input (ln_term s)) e s'"
proof -
  have s: "hist_rel (ln_hist s) (ed_lines e)" "ed_lines e \<noteq> []" "ln_len s = length (ed_text e)" using assms(1) by (auto simp: ln_rel_def)
  then have hl: "history_length (ln_hist s) - 1 = int (length (ed_lines e) - 1)"
    by (auto elim!: hist_rel_slots simp: of_nat_diff Suc_le_eq)
  obtain h' where h': "free_slot (int (length (ed_lines e) - 1)) ((ln_hist s)\<lparr>history_length := history_length (ln_hist s) - 1\<rparr>) = Some h'"
    "hist_rel h' (butlast (ed_lines e))" "history_max_len h' = history_max_len (ln_hist s)" using drop_slot [OF s(1,2)] by blast
  show thesis
  proof (rule that)
    show "ln_finish (key_code stop) s = Some (stop_code stop e, s\<lparr>ln_hist := h'\<rparr>)"
      using assms(2) h'(1) s(3) unfolding hl by (auto simp: ln_finish_def hl key_codes Let_def)
    show "ln_done (length (ln_buf s)) (history_max_len (ln_hist s)) (term_input (ln_term s)) e (s\<lparr>ln_hist := h'\<rparr>)"
      using assms(1) h'(2,3) by (auto simp: ln_done_def ln_rel_def)
  qed
qed

lemma ln_loop_stop:
  assumes "stop \<in> {Enter, Ctrl_c, Ctrl_z}" "ln_rel s e" "term_input (ln_term s) = key_input stop @ xs"
  shows "\<exists>s'. ln_loop dup_ok prompt cols s = Some (stop_code stop e, s') \<and> ln_done (length (ln_buf s)) (history_max_len (ln_hist s)) xs e s'"
proof -
  define T where "T = (ln_term s)\<lparr>term_input := xs\<rparr>"
  have "ln_rel (s\<lparr>ln_term := T\<rparr>) e" using assms(2) by simp
  then obtain s' where fin: "ln_finish (key_code stop) (s\<lparr>ln_term := T\<rparr>) = Some (stop_code stop e, s')"
    "ln_done (length (ln_buf s)) (history_max_len (ln_hist s)) xs e s'"
    by (rule ln_finish_done [OF _ assms(1)]) (simp add: T_def)
  have "key_ok stop" using assms(1) by auto
  then have get: "term_getch TERM_INPUT_WAIT (ln_term s) = Some (key_code stop, T)"
    using getch_key [of stop "ln_term s" xs] assms(3) by (simp add: T_def)
  have "ln_key dup_ok prompt cols (key_code stop) (s\<lparr>ln_term := T\<rparr>) = Some (Inr (stop_code stop e, s'))"
    using fin(1) assms(1) by (auto simp: ln_key_def)
  then have "ln_loop dup_ok prompt cols s = Some (stop_code stop e, s')"
    by (subst ln_loop.simps) (simp add: get)
  with fin(2) show ?thesis by blast
qed

lemma ln_loop_done:
  assumes "length prompt < cols" "\<forall>l. dup_ok l" "\<forall>k \<in> set ks. edit_key k" "stop \<in> {Enter, Ctrl_c, Ctrl_z}"
    "ln_rel s e" "term_input (ln_term s) = concat (map key_input ks) @ key_input stop @ xs"
  shows "\<exists>s'. ln_loop dup_ok prompt cols s = Some (stop_code stop (fold (ed_key (ln_buflen s)) ks e), s') \<and>
    ln_done (length (ln_buf s)) (history_max_len (ln_hist s)) xs (fold (ed_key (ln_buflen s)) ks e) s'"
  using assms(3,5,6)
proof (induction ks arbitrary: s e)
  case Nil
  with ln_loop_stop [OF assms(4)] show ?case by simp
next
  case (Cons k ks)
  define T where "T = (ln_term s)\<lparr>term_input := concat (map key_input ks) @ key_input stop @ xs\<rparr>"
  have k: "edit_key k" using Cons.prems by simp
  then have "key_ok k" by (cases k) auto
  then have get: "term_getch TERM_INPUT_WAIT (ln_term s) = Some (key_code k, T)"
    using getch_key [of k "ln_term s"] Cons.prems(3) by (simp add: T_def)
  have rel: "ln_rel (s\<lparr>ln_term := T\<rparr>) e" using Cons.prems by simp
  obtain s1 where s1: "ln_key dup_ok prompt cols (key_code k) (s\<lparr>ln_term := T\<rparr>) = Some (Inl s1)"
    "ln_rel s1 (ed_key (ln_buflen s) k e)" "ln_buflen s1 = ln_buflen s" "term_input (ln_term s1) = term_input T"
    "length (ln_buf s1) = length (ln_buf s)" "history_max_len (ln_hist s1) = history_max_len (ln_hist s)"
    using ln_key_to [OF assms(1) rel assms(2) k] by (auto simp: ln_to_def)
  have step: "ln_loop dup_ok prompt cols s = ln_loop dup_ok prompt cols s1"
    by (subst ln_loop.simps) (simp add: get s1(1))
  show ?case using Cons.IH [of s1 "ed_key (ln_buflen s) k e"] Cons.prems(1) s1 unfolding step by (simp add: T_def)
qed

definition ed_begin :: "nat \<Rightarrow> u8 list list \<Rightarrow> editor" where
  "ed_begin maxlen ls = \<lparr>ed_left = [], ed_right = [], ed_lines = push_line maxlen ls [], ed_index = 0\<rparr>"

definition ed_run :: "nat \<Rightarrow> nat \<Rightarrow> key list \<Rightarrow> u8 list list \<Rightarrow> editor" where
  "ed_run cap maxlen ks ls = fold (ed_key cap) ks (ed_begin maxlen ls)"

definition ed_after :: "nat \<Rightarrow> nat \<Rightarrow> key list \<Rightarrow> u8 list list \<Rightarrow> u8 list list" where
  "ed_after cap maxlen ks ls = butlast (ed_lines (ed_run cap maxlen ks ls))"

lemma addhistory_empty:
  assumes "hist_ok h ls" "0 < history_max_len h" "\<forall>l. dup_ok l"
  obtains h' where "linenoise_internal_addhistory dup_ok True [] LINENOISE_PUSH_EMPTY h = Some (1, h')"
    "hist_rel h' (push_line (history_max_len h) ls [])" "history_max_len h' = history_max_len h"
proof -
  obtain h' where "ln_push [] (hist_table h) = Some h'" "hist_rel h' (push_line (history_max_len h) ls [])" "history_max_len h' = history_max_len h"
    using ln_push_rel [OF hist_table_rel(1) [OF assms(1)]] assms(2) by (metis hist_table_rel(2))
  moreover from this(1) have "linenoise_internal_addhistory dup_ok True [] LINENOISE_PUSH_EMPTY h = Some (1, h')"
    using assms(2,3) unfolding linenoise_internal_addhistory_def hist_table_def [symmetric] by (simp add: ln_push_lines.simps [of _ _ "[]"])
  ultimately show thesis using that by blast
qed

lemma linenoisePrompt_done:
  assumes "length prompt < cols" "\<forall>l. dup_ok l" "\<forall>k \<in> set ks. edit_key k" "stop \<in> {Enter, Ctrl_c, Ctrl_z}"
    "hist_ok h ls" "0 < history_max_len h" "\<forall>l \<in> set ls. 0 \<notin> set l" "0 < buflen" "buflen \<le> length buf"
    "term_input T = concat (map key_input ks) @ key_input stop @ xs"
  shows "\<exists>s'. linenoisePrompt dup_ok True cols prompt buf buflen h T
      = Some (stop_code stop (ed_run (buflen - 1) (history_max_len h) ks ls), s') \<and>
    ln_done (length buf) (history_max_len h) xs (ed_run (buflen - 1) (history_max_len h) ks ls) s'"
proof -
  obtain h' where h': "linenoise_internal_addhistory dup_ok True [] LINENOISE_PUSH_EMPTY h = Some (1, h')"
    "hist_rel h' (push_line (history_max_len h) ls [])" "history_max_len h' = history_max_len h"
    using addhistory_empty [OF assms(5,6,2)] by blast
  obtain b bs where b: "buf = b # bs" using assms(8,9) by (cases buf) auto
  define s where "s = \<lparr>ln_buf = 0 # bs, ln_buflen = buflen - 1, ln_len = 0, ln_pos = 0, history_index = 0, ln_hist = h',
      ln_term = term_putstr prompt T\<rparr>"
  have zero: "\<forall>l \<in> set (push_line (history_max_len h) ls []). 0 \<notin> set l"
    using assms(7) by (cases ls) (auto simp: push_line_def)
  have "ln_rel s (ed_begin (history_max_len h) ls)" using h'(2) assms(9) b zero
    by (auto simp: ln_rel_def s_def ed_begin_def ed_text_def push_line_def)
  moreover have "linenoisePrompt dup_ok True cols prompt buf buflen h T = ln_loop dup_ok prompt cols s"
    by (simp add: linenoisePrompt_def set_byte_def b h'(1) s_def)
  ultimately show ?thesis
    using ln_loop_done [OF assms(1-4), of s "ed_begin (history_max_len h) ls" xs] assms(10) h'(3) by (simp add: s_def ed_run_def b)
qed

section \<open>Reading a line\<close>

text \<open>What a terminal sends for a line that is typed and given up, and for one that is entered.\<close>

definition given_up :: "key list \<Rightarrow> u8 option list" where
  "given_up ks = concat (map key_input ks) @ key_input Ctrl_c"

definition entered :: "key list \<Rightarrow> u8 option list" where
  "entered ks = concat (map key_input ks) @ key_input Enter"

lemma ln_done_zero: "ln_done n m xs (ed_run cap m ks ls) s \<Longrightarrow> \<forall>l \<in> set (ed_after cap m ks ls). 0 \<notin> set l"
  by (auto simp: ln_done_def ed_after_def dest: in_set_butlastD)

lemma getline_refines:
  assumes "\<forall>ks \<in> set (lost @ [ks]). \<forall>k \<in> set ks. edit_key k" and "term_input T = concat (map given_up lost) @ entered ks @ xs"
    and "hist_ok h ls" and "0 < history_max_len h" and "\<forall>l \<in> set ls. 0 \<notin> set l"
    and "0 < maxinput" and "maxinput \<le> length buffer" and "length prompt < cols" and "\<forall>l. dup_ok l"
  shows "\<exists>text rest h' T'. linenoise_getline dup_ok True cols fgets prompt buffer maxinput h T
      = Some (int (length text), text @ 0 # rest, h', T') \<and>
    text = ed_text (ed_run (maxinput - 1) (history_max_len h) ks (fold (ed_after (maxinput - 1) (history_max_len h)) lost ls)) \<and>
    hist_ok h' (fold (ed_after (maxinput - 1) (history_max_len h)) (lost @ [ks]) ls) \<and> term_input T' = xs \<and>
    length (text @ 0 # rest) = length buffer \<and> history_max_len h' = history_max_len h \<and>
    (\<forall>l \<in> set (fold (ed_after (maxinput - 1) (history_max_len h)) (lost @ [ks]) ls). 0 \<notin> set l)"
  using assms
proof (induction lost arbitrary: T h ls buffer)
  case Nil
  define e where "e = ed_run (maxinput - 1) (history_max_len h) ks ls"
  obtain s where s: "linenoisePrompt dup_ok True cols prompt buffer maxinput h T = Some (int (length (ed_text e)), s)"
    "ln_done (length buffer) (history_max_len h) xs e s"
    using linenoisePrompt_done [where dup_ok = dup_ok, OF Nil(8,9), of ks Enter h ls maxinput buffer T xs] Nil by (auto simp: e_def entered_def)
  obtain rest where rest: "ln_buf s = ed_text e @ 0 # rest" using s(2) by (auto simp: ln_done_def)
  have "linenoise_getline dup_ok True cols fgets prompt buffer maxinput h T
      = Some (int (length (ed_text e)), ed_text e @ 0 # rest, ln_hist s, ln_puts [10] (ln_term s))"
    using Nil(4) by (subst linenoise_getline.simps) (simp add: s(1) rest LINENOISE_CTRL_C_def nth_append)
  moreover have "\<forall>l \<in> set (ed_after (maxinput - 1) (history_max_len h) ks ls). 0 \<notin> set l"
    using ln_done_zero s(2) by (auto simp: e_def)
  moreover have "length (ed_text e @ 0 # rest) = length buffer" using s(2) rest by (simp add: ln_done_def)
  moreover have "term_input (ln_puts [10] (ln_term s)) = xs" "history_max_len (ln_hist s) = history_max_len h"
    "hist_ok (ln_hist s) (ed_after (maxinput - 1) (history_max_len h) ks ls)"
    using s(2) by (auto simp: e_def ln_done_def hist_ok_def ed_after_def ln_puts_def)
  ultimately show ?case unfolding e_def
    by (intro exI [of _ "ed_text (ed_run (maxinput - 1) (history_max_len h) ks ls)"] exI [of _ rest] exI [of _ "ln_hist s"]
        exI [of _ "ln_puts [10] (ln_term s)"]) simp
next
  case (Cons l0 lost)
  define e where "e = ed_run (maxinput - 1) (history_max_len h) l0 ls"
  obtain s where s: "linenoisePrompt dup_ok True cols prompt buffer maxinput h T = Some (LINENOISE_CTRL_C, s)"
    "ln_done (length buffer) (history_max_len h) (concat (map given_up lost) @ entered ks @ xs) e s"
  proof -
    have "term_input T = concat (map key_input l0) @ key_input Ctrl_c @ concat (map given_up lost) @ entered ks @ xs"
      using Cons.prems(2) by (simp add: given_up_def [of l0])
    with linenoisePrompt_done [where dup_ok = dup_ok, OF Cons.prems(8,9), of l0 Ctrl_c h ls maxinput buffer T] Cons.prems(1,3-7) that
    show ?thesis by (auto simp: e_def simp del: key_input.simps)
  qed
  have "linenoise_getline dup_ok True cols fgets prompt buffer maxinput h T
      = linenoise_getline dup_ok True cols fgets prompt (ln_buf s) maxinput (ln_hist s) (ln_puts [10] (ln_term s))"
    using Cons.prems(4) by (subst linenoise_getline.simps) (simp add: s(1) LINENOISE_CTRL_C_def)
  moreover have "hist_ok (ln_hist s) (ed_after (maxinput - 1) (history_max_len h) l0 ls)" "history_max_len (ln_hist s) = history_max_len h"
    "term_input (ln_puts [10] (ln_term s)) = concat (map given_up lost) @ entered ks @ xs" "length (ln_buf s) = length buffer"
    using s(2) by (auto simp: e_def ln_done_def hist_ok_def ed_after_def ln_puts_def)
  moreover have "\<forall>l \<in> set (ed_after (maxinput - 1) (history_max_len h) l0 ls). 0 \<notin> set l"
    using ln_done_zero s(2) by (auto simp: e_def)
  ultimately show ?case
    using Cons.IH [of "ln_puts [10] (ln_term s)" "ln_hist s" "ed_after (maxinput - 1) (history_max_len h) l0 ls" "ln_buf s",
        OF _ _ _ _ _ Cons.prems(6) _ Cons.prems(8,9)] Cons.prems(1,4,7)
    by simp
qed

text \<open>C31. The line editor does what the abstract editor on lists does. The user types printable characters and the editing keys (backspace,
  the arrows, Home, End, Ctrl-T, Ctrl-U, Ctrl-K) in lines that are given up with Ctrl-C, and at last one that is entered: \<open>linenoise_getline\<close> returns with the
  text that the abstract editor has for the keys of this line, closed by a 0; the history holds the lines of the abstract editor, with the changes
  made to old entries while walking through them; and nothing after the line is consumed. No access leaves the buffer or the history and no freed line
  is used. This holds while memory is not exhausted (all \<open>strdup\<close> and the allocation of the history table succeed; see
  \<open>linenoise_out_of_memory\<close> for what happens otherwise), for a prompt narrower than the screen and a history of at least one entry. Keys without a
  case in the editor (Tab, Page up, Page down, Esc, Ctrl-A, Ctrl-E) are excluded: their codes are passed to \<open>isprint\<close>, which is undefined.\<close>

theorem linenoise_edits:
  assumes "\<forall>ks \<in> set (lost @ [ks]). \<forall>k \<in> set ks. edit_key k" and "term_input T = concat (map given_up lost) @ entered ks @ xs"
    and "hist_ok h ls" and "0 < history_max_len h" and "\<forall>l \<in> set ls. 0 \<notin> set l"
    and "0 < maxinput" and "maxinput \<le> length buffer" and "length prompt < cols" and "\<forall>l. dup_ok l"
  shows "\<exists>text rest h' T'. linenoise_getline dup_ok True cols fgets prompt buffer maxinput h T
      = Some (int (length text), text @ 0 # rest, h', T') \<and>
    text = ed_text (ed_run (maxinput - 1) (history_max_len h) ks (fold (ed_after (maxinput - 1) (history_max_len h)) lost ls)) \<and>
    hist_ok h' (fold (ed_after (maxinput - 1) (history_max_len h)) (lost @ [ks]) ls) \<and> term_input T' = xs"
  using getline_refines [OF assms] by metis

theorem linenoise_edits_witness:
  "\<exists>text rest h' T'. linenoise_getline (\<lambda>_. True) True 80 (\<lambda>_ _. None) [0x3E] (replicate 16 0) 16
        \<lparr>h_slots = Some [Line [0x6C, 0x73], Null, Null], history_length = 1, history_max_len = 3\<rparr>
        \<lparr>term_num_lines = 25, term_num_cols = 80, term_cx = 0, term_cy = 0,
          term_input = given_up [Chr 0x7A] @ entered [Up, Left, Chr 0x6F, Chr 0x70, Backspace], term_output = []\<rparr>
      = Some (int (length text), text @ 0 # rest, h', T') \<and> text = [0x6C, 0x6F, 0x73] \<and> hist_ok h' [[0x6C, 0x73]] \<and> term_input T' = []"
  using linenoise_edits [of "[[Chr 0x7A]]" "[Up, Left, Chr 0x6F, Chr 0x70, Backspace]"
      "\<lparr>term_num_lines = 25, term_num_cols = 80, term_cx = 0, term_cy = 0,
        term_input = given_up [Chr 0x7A] @ entered [Up, Left, Chr 0x6F, Chr 0x70, Backspace], term_output = []\<rparr>" "[]"
      "\<lparr>h_slots = Some [Line [0x6C, 0x73], Null, Null], history_length = 1, history_max_len = 3\<rparr>" "[[0x6C, 0x73]]" 16 "replicate 16 0"
      "[0x3E]" 80 "\<lambda>_. True" "\<lambda>_ _. None"]
  by (simp add: isprint_def hist_ok_def hist_rel_def ed_run_def ed_after_def ed_begin_def push_line_def ed_set_def ed_text_def
      ed_history_def ed_show_def Let_def)

text \<open>The result of adding the entry for the current line is ignored: when there is no memory for it, entering a line
  removes the newest line of the history instead.\<close>

theorem linenoise_out_of_memory:
  assumes "hist_rel h ls" and "ls \<noteq> []" and "\<forall>l \<in> set ls. 0 \<notin> set l" and "\<not> dup_ok []"
    and "0 < maxinput" and "maxinput \<le> length buffer" and "term_input T = entered [] @ xs"
  shows "\<exists>rest h' T'. linenoise_getline dup_ok True cols fgets prompt buffer maxinput h T = Some (0, 0 # rest, h', T') \<and> hist_ok h' (butlast ls)"
proof -
  define e where "e = \<lparr>ed_left = [], ed_right = [], ed_lines = ls, ed_index = 0\<rparr>"
  obtain b bs where b: "buffer = b # bs" using assms(5,6) by (cases buffer) auto
  define s where "s = \<lparr>ln_buf = 0 # bs, ln_buflen = maxinput - 1, ln_len = 0, ln_pos = 0, history_index = 0, ln_hist = h,
      ln_term = term_putstr prompt T\<rparr>"
  have h: "h_slots h \<noteq> None" "0 < history_max_len h" using assms(1,2) by (cases ls; auto elim!: hist_rel_slots)+
  have "linenoise_internal_addhistory dup_ok True [] LINENOISE_PUSH_EMPTY h = Some (0, h)"
    using assms(4) h by (simp add: linenoise_internal_addhistory_def ln_push_lines.simps [of _ _ "[]"])
  then have prompt: "linenoisePrompt dup_ok True cols prompt buffer maxinput h T = ln_loop dup_ok prompt cols s"
    by (simp add: linenoisePrompt_def set_byte_def b s_def)
  have "ln_rel s e" using assms b by (auto simp: ln_rel_def s_def e_def ed_text_def)
  moreover have "term_input (ln_term s) = key_input Enter @ xs" using assms(7) by (simp add: s_def entered_def)
  ultimately obtain s' where s': "ln_loop dup_ok prompt cols s = Some (0, s')" "ln_done (length (ln_buf s)) (history_max_len h) xs e s'"
    using ln_loop_stop [of Enter s e xs dup_ok prompt cols] by (auto simp: s_def e_def ed_text_def)
  obtain rest where "ln_buf s' = 0 # rest" using s'(2) by (auto simp: ln_done_def e_def ed_text_def)
  then have "linenoise_getline dup_ok True cols fgets prompt buffer maxinput h T = Some (0, 0 # rest, ln_hist s', ln_puts [10] (ln_term s'))"
    using h(2) by (subst linenoise_getline.simps) (simp add: prompt s'(1) LINENOISE_CTRL_C_def)
  then show ?thesis using s'(2) by (auto simp: ln_done_def e_def hist_ok_def)
qed

theorem linenoise_out_of_memory_witness:
  "\<exists>rest h' T'. linenoise_getline (\<lambda>_. False) True 80 (\<lambda>_ _. None) [0x3E] [1, 1] 2
        \<lparr>h_slots = Some [Line [0x61], Line [0x62]], history_length = 2, history_max_len = 2\<rparr>
        \<lparr>term_num_lines = 25, term_num_cols = 80, term_cx = 0, term_cy = 0, term_input = entered [] @ [], term_output = []\<rparr>
      = Some (0, 0 # rest, h', T') \<and> hist_ok h' (butlast [[0x61], [0x62]])"
  by (rule linenoise_out_of_memory [where xs = "[]"]) (simp_all add: hist_rel_def)

end
