(* ===== verification/Common_Fs.thy ===== *)
theory Common_Fs
  imports Devman
begin

text \<open>
  The common file system operations, \<open>src/src/common_fs.c\<close>: file name patterns, paths, and the walker over files
  and directories that the commands of the shell are built on.

  Strings are the bytes before the terminating 0. Every allocation may fail: \<open>mem_str n\<close> says whether there are
  \<open>n\<close> bytes for a string, \<open>mem_dir\<close> and \<open>mem_file\<close> whether there is memory for an open directory and an open
  stream.
\<close>

record cmn_mem =
  mem_str :: "nat \<Rightarrow> bool"
  mem_dir :: bool
  mem_file :: bool

abbreviation star :: u8 where "star \<equiv> 0x2A"
abbreviation quest :: u8 where "quest \<equiv> 0x3F"

definition firstchar :: "u8 list \<Rightarrow> u8" where
  "firstchar s = (if s = [] then 0 else hd s)"

definition lastchar :: "u8 list \<Rightarrow> u8" where
  "lastchar s = (if s = [] then 0 else List.last s)"

section \<open>Patterns\<close>

text \<open>The two indices of the source are the rests of the name and of the pattern.\<close>

lemma length_dropWhile_Cons: "dropWhile P xs = c # cs \<Longrightarrow> length cs < length xs"
  using length_dropWhile_le [of P xs] by simp

function cmn_pattern_matches :: "u8 list \<Rightarrow> u8 list \<Rightarrow> bool" where
  "cmn_pattern_matches str [] = (str = [])"
| "cmn_pattern_matches str (p # ps) =
     (if p = star
      then (case dropWhile (\<lambda>c. c = quest) ps of
              [] \<Rightarrow> True
            | c # cs \<Rightarrow> (case dropWhile (\<lambda>x. x \<noteq> c) str of [] \<Rightarrow> False | _ # rest \<Rightarrow> cmn_pattern_matches rest cs))
      else if p = quest
      then (case str of [] \<Rightarrow> False | _ # rest \<Rightarrow> cmn_pattern_matches rest ps)
      else (case str of [] \<Rightarrow> False | x # rest \<Rightarrow> if p \<noteq> x then False else cmn_pattern_matches rest ps))"
  by pat_completeness auto
termination
  by (relation "measure (\<lambda>(str, pat). length pat)") (auto dest: length_dropWhile_Cons)

section \<open>Paths\<close>

text \<open>Whether a file can be opened for reading; it is closed at once.\<close>

definition cmn_can_open :: "cmn_mem \<Rightarrow> ('d, 'h, 's) dm_table \<Rightarrow> u8 list \<Rightarrow> 's \<Rightarrow> (bool \<times> 's) option" where
  "cmn_can_open M T path s =
     (if \<not> mem_file M then Some (False, s)
      else do {
        (r, s1) \<leftarrow> open_r (Some path) 0 0x1B6 T s;
        case r of Inl _ \<Rightarrow> Some (False, s1)
        | Inr fd \<Rightarrow> do { (_, s2) \<leftarrow> close_r fd T s1; Some (True, s2) }
      })"

text \<open>Everything before the last slash, and everything behind it.\<close>

definition dir_part :: "u8 list \<Rightarrow> u8 list" where
  "dir_part path = rev (tl (dropWhile (\<lambda>c. c \<noteq> slash) (rev path)))"

definition file_part :: "u8 list \<Rightarrow> u8 list" where
  "file_part path = rev (takeWhile (\<lambda>c. c \<noteq> slash) (rev path))"

definition cmn_strdup :: "cmn_mem \<Rightarrow> u8 list \<Rightarrow> u8 list option" where
  "cmn_strdup M s = (if mem_str M (length s + 1) then Some s else None)"

text \<open>The directory, \<open>None\<close> for \<open>NULL\<close>, and the mask if it was set.\<close>

definition cmn_fs_split_path :: "cmn_mem \<Rightarrow> ('d, 'h, 's) dm_table \<Rightarrow> u8 list option \<Rightarrow> 's \<Rightarrow> ((u8 list option \<times> u8 list option) \<times> 's) option" where
  "cmn_fs_split_path M T name s =
     (case name of
        None \<Rightarrow> Some ((None, None), s)
      | Some path \<Rightarrow>
          if length path < 2 \<or> hd path \<noteq> slash then Some ((None, None), s)
          else if strchr (tl path) slash = None then Some ((cmn_strdup M path, Some [star]), s)
          else if List.last path = slash then Some ((cmn_strdup M (butlast path), Some [star]), s)
          else if star \<in> set path \<or> quest \<in> set path then Some ((cmn_strdup M (dir_part path), Some (file_part path)), s)
          else do {
            (found, s1) \<leftarrow> cmn_can_open M T path s;
            Some (if found then (cmn_strdup M (dir_part path), Some (file_part path)) else (cmn_strdup M path, Some [star]), s1)
          })"

datatype cmn_type = CMN_FS_TYPE_DIR | CMN_FS_TYPE_FILE | CMN_FS_TYPE_PATTERN | CMN_FS_TYPE_ERROR | CMN_FS_TYPE_FILE_NOT_FOUND
  | CMN_FS_TYPE_DIR_NOT_FOUND | CMN_FS_TYPE_UNKNOWN_NOT_FOUND

definition cmn_fs_check_directory :: "cmn_mem \<Rightarrow> ('d, 'h, 's) dm_table \<Rightarrow> u8 list \<Rightarrow> 's \<Rightarrow> (bool \<times> 's) option" where
  "cmn_fs_check_directory M T path s =
     do {
       (r, s1) \<leftarrow> dm_opendir (mem_dir M) path T s;
       case r of Inl _ \<Rightarrow> Some (False, s1)
       | Inr d \<Rightarrow> do { (_, s2) \<leftarrow> dm_closedir d T s1; Some (True, s2) }
     }"

text \<open>The tests with \<open>dm_opendir\<close> and \<open>dm_closedir\<close> are those of \<open>cmn_fs_check_directory\<close>.\<close>

definition cmn_fs_get_type :: "cmn_mem \<Rightarrow> ('d, 'h, 's) dm_table \<Rightarrow> u8 list option \<Rightarrow> 's \<Rightarrow> (cmn_type \<times> 's) option" where
  "cmn_fs_get_type M T name s =
     (case name of
        None \<Rightarrow> Some (CMN_FS_TYPE_ERROR, s)
      | Some path \<Rightarrow>
          if length path < 2 \<or> hd path \<noteq> slash then Some (CMN_FS_TYPE_ERROR, s)
          else if strchr (tl path) slash = None then Some (CMN_FS_TYPE_DIR, s)
          else if List.last path = slash
          then do {
            (found, s1) \<leftarrow> cmn_fs_check_directory M T path s;
            Some (if found then CMN_FS_TYPE_DIR else CMN_FS_TYPE_DIR_NOT_FOUND, s1)
          }
          else if star \<in> set path \<or> quest \<in> set path then Some (CMN_FS_TYPE_PATTERN, s)
          else do {
            (found, s1) \<leftarrow> cmn_can_open M T path s;
            if found then Some (CMN_FS_TYPE_FILE, s1)
            else do {
              (found, s2) \<leftarrow> cmn_fs_check_directory M T path s1;
              Some (if found then CMN_FS_TYPE_DIR else CMN_FS_TYPE_UNKNOWN_NOT_FOUND, s2)
            }
          })"

definition cmn_fs_is_root_dir :: "u8 list option \<Rightarrow> bool" where
  "cmn_fs_is_root_dir name =
     (case name of None \<Rightarrow> False
      | Some path \<Rightarrow>
          if firstchar path \<noteq> slash then False
          else (case strchr (tl path) slash of None \<Rightarrow> True | Some i \<Rightarrow> i + 1 = length (tl path)))"

text \<open>The first loop of \<open>cmn_fs_path_join\<close> computes the length in unsigned 32-bit arithmetic, the second one
  fills the buffer of \<open>total + 2\<close> bytes; writing behind its end is \<open>None\<close>. The inner option is \<open>NULL\<close>.\<close>

definition join_len :: "u8 list \<Rightarrow> u32 \<Rightarrow> u32" where
  "join_len tmp n =
     (if tmp = [] then n
      else (let n1 = n + (word_of_nat (length tmp) + (if lastchar tmp = slash then 0 else 1))
            in if firstchar tmp = slash then n1 - 1 else n1))"

definition join_cat :: "nat \<Rightarrow> u8 list \<Rightarrow> u8 list option \<Rightarrow> u8 list option" where
  "join_cat cap tmp acc =
     do {
       res \<leftarrow> acc;
       if tmp = [] then Some res
       else do {
         let res1 = res @ (if firstchar tmp = slash then tl tmp else tmp);
         let res2 = (if lastchar res1 \<noteq> slash then res1 @ [slash] else res1);
         if length res2 < cap then Some res2 else None
       }
     }"

definition cmn_fs_path_join :: "cmn_mem \<Rightarrow> u8 list list \<Rightarrow> u8 list option option" where
  "cmn_fs_path_join M parts =
     (let n = fold join_len parts 0
      in if n = 0 \<or> \<not> mem_str M (unat (n + 2)) then Some None
         else if unat (n + 2) < 2 then None
         else map_option (\<lambda>res. Some (butlast res)) (fold (join_cat (unat (n + 2))) parts (Some [slash])))"

section \<open>The walker\<close>

datatype cmn_info = CMN_FS_INFO_BEFORE_READDIR | CMN_FS_INFO_INSIDE_READDIR | CMN_FS_INFO_AFTER_CLOSEDIR | CMN_FS_INFO_MEMORY_ERROR
  | CMN_FS_INFO_OPENDIR_FAILED | CMN_FS_INFO_READDIR_FAILED | CMN_FS_INFO_DIRECTORY_DONE

text \<open>A callback gets the path, the directory entry (\<open>None\<close> for \<open>NULL\<close>) and the reason for the call; it may change its own
  state \<open>'c\<close> and the files, and says whether to go on.\<close>

type_synonym ('c, 's) walker_cb = "u8 list \<Rightarrow> dm_dirent option \<Rightarrow> cmn_info \<Rightarrow> 'c \<times> 's \<Rightarrow> (bool \<times> 'c \<times> 's) option"

definition DM_DIRENT_FLAG_DIR :: u8 where "DM_DIRENT_FLAG_DIR = 1"

definition DM_DIRENT_IS_DIR :: "dm_dirent \<Rightarrow> bool" where
  "DM_DIRENT_IS_DIR ent \<longleftrightarrow> dent_flags ent AND DM_DIRENT_FLAG_DIR \<noteq> 0"

text \<open>The first loop: the entries that match. The result is \<open>None\<close> when the callback stops, otherwise \<open>hasdirs\<close>.\<close>

partial_function (option) walk_files :: "('d, 'h, 's) dm_table \<Rightarrow> ('c, 's) walker_cb \<Rightarrow> u8 list \<Rightarrow> u8 list \<Rightarrow> 'h DM_DIR \<Rightarrow> bool \<Rightarrow>
    'c \<times> 's \<Rightarrow> (bool option \<times> 'c \<times> 's) option" where
  "walk_files T cb path pattern d hasdirs w =
     do {
       (r, s1) \<leftarrow> dm_readdir d T (snd w);
       case r of
         Inl _ \<Rightarrow> Some (Some hasdirs, fst w, s1)
       | Inr ent \<Rightarrow>
           if \<not> cmn_pattern_matches (dent_fname ent) pattern then walk_files T cb path pattern d hasdirs (fst w, s1)
           else do {
             (go, w2) \<leftarrow> cb path (Some ent) CMN_FS_INFO_INSIDE_READDIR (fst w, s1);
             if \<not> go then Some (None, w2)
             else walk_files T cb path pattern d (if DM_DIRENT_IS_DIR ent then True else hasdirs) w2
           }
     }"

text \<open>The second loop: \<open>walk\<close> is the recursive call. The result says whether to go on.\<close>

partial_function (option) walk_dirs :: "cmn_mem \<Rightarrow> ('d, 'h, 's) dm_table \<Rightarrow> ('c, 's) walker_cb \<Rightarrow>
    (u8 list \<Rightarrow> 'c \<times> 's \<Rightarrow> (bool \<times> 'c \<times> 's) option) \<Rightarrow> u8 list \<Rightarrow> 'h DM_DIR \<Rightarrow> 'c \<times> 's \<Rightarrow> (bool \<times> 'c \<times> 's) option" where
  "walk_dirs M T cb walk path d w =
     do {
       (r, s1) \<leftarrow> dm_readdir d T (snd w);
       case r of
         Inl _ \<Rightarrow> Some (True, fst w, s1)
       | Inr ent \<Rightarrow>
           if \<not> DM_DIRENT_IS_DIR ent then walk_dirs M T cb walk path d (fst w, s1)
           else do {
             j \<leftarrow> cmn_fs_path_join M [path, dent_fname ent];
             (go, w2) \<leftarrow> (case j of Some fullname \<Rightarrow> walk fullname (fst w, s1)
                          | None \<Rightarrow> cb path None CMN_FS_INFO_MEMORY_ERROR (fst w, s1));
             if \<not> go then Some (False, w2) else walk_dirs M T cb walk path d w2
           }
     }"

definition walk_close :: "('d, 'h, 's) dm_table \<Rightarrow> 'h DM_DIR \<Rightarrow> 'c \<times> 's \<Rightarrow> ('c \<times> 's) option" where
  "walk_close T d w = do { (_, s1) \<leftarrow> dm_closedir d T (snd w); Some (fst w, s1) }"

definition walk_down :: "cmn_mem \<Rightarrow> ('d, 'h, 's) dm_table \<Rightarrow> ('c, 's) walker_cb \<Rightarrow>
    (u8 list \<Rightarrow> 'c \<times> 's \<Rightarrow> (bool \<times> 'c \<times> 's) option) \<Rightarrow> u8 list \<Rightarrow> 'c \<times> 's \<Rightarrow> (bool \<times> 'c \<times> 's) option" where
  "walk_down M T cb walk path w =
     do {
       (r, s1) \<leftarrow> dm_opendir (mem_dir M) path T (snd w);
       case r of
         Inl _ \<Rightarrow> cb path None CMN_FS_INFO_OPENDIR_FAILED (fst w, s1)
       | Inr d \<Rightarrow> do { (go, w1) \<leftarrow> walk_dirs M T cb walk path d (fst w, s1); w2 \<leftarrow> walk_close T d w1; Some (go, w2) }
     }"

text \<open>The first argument bounds the depth of the recursion, which the stack of the target does. \<open>junk\<close> is the value
  that the variable \<open>hasdirs\<close> has before it is first assigned.\<close>

fun cmn_fs_actual_walkdir :: "nat \<Rightarrow> cmn_mem \<Rightarrow> (u8 list \<Rightarrow> bool) \<Rightarrow> ('d, 'h, 's) dm_table \<Rightarrow> ('c, 's) walker_cb \<Rightarrow> u8 list \<Rightarrow> bool \<Rightarrow>
    u8 list \<Rightarrow> 'c \<times> 's \<Rightarrow> (bool \<times> 'c \<times> 's) option" where
  "cmn_fs_actual_walkdir 0 M junk T cb pattern recursive path w = None"
| "cmn_fs_actual_walkdir (Suc stack) M junk T cb pattern recursive path w =
     do {
       (r, s1) \<leftarrow> dm_opendir (mem_dir M) path T (snd w);
       case r of
         Inl _ \<Rightarrow> cb path None CMN_FS_INFO_OPENDIR_FAILED (fst w, s1)
       | Inr d \<Rightarrow>
           do {
             (go, w1) \<leftarrow> cb path None CMN_FS_INFO_BEFORE_READDIR (fst w, s1);
             (h, w2) \<leftarrow> (if go then walk_files T cb path pattern d (junk path) w1 else Some (None, w1));
             w3 \<leftarrow> walk_close T d w2;
             case h of
               None \<Rightarrow> Some (False, w3)
             | Some hasdirs \<Rightarrow>
                 do {
                   (go, w4) \<leftarrow> cb path None CMN_FS_INFO_AFTER_CLOSEDIR w3;
                   (go, w5) \<leftarrow> (if go \<and> recursive \<and> hasdirs
                                then walk_down M T cb (cmn_fs_actual_walkdir stack M junk T cb pattern True) path w4 else Some (go, w4));
                   if go then cb path None CMN_FS_INFO_DIRECTORY_DONE w5 else Some (False, w5)
                 }
           }
     }"

definition cmn_fs_walkdir :: "nat \<Rightarrow> cmn_mem \<Rightarrow> (u8 list \<Rightarrow> bool) \<Rightarrow> ('d, 'h, 's) dm_table \<Rightarrow> ('c, 's) walker_cb \<Rightarrow> bool \<Rightarrow> u8 list option \<Rightarrow>
    'c \<times> 's \<Rightarrow> (bool \<times> 'c \<times> 's) option" where
  "cmn_fs_walkdir stack M junk T cb recursive path w =
     do {
       ((dir, mask), s1) \<leftarrow> cmn_fs_split_path M T path (snd w);
       case dir of
         None \<Rightarrow> Some (False, fst w, s1)
       | Some actpath \<Rightarrow>
           do { pattern \<leftarrow> mask; (_, w1) \<leftarrow> cmn_fs_actual_walkdir stack M junk T cb pattern recursive actpath (fst w, s1); Some (True, w1) }
     }"

section \<open>What patterns match\<close>

definition wild :: "u8 \<Rightarrow> bool" where "wild c \<longleftrightarrow> c = star \<or> c = quest"

lemma matches_literal: "\<forall>c \<in> set pat. \<not> wild c \<Longrightarrow> cmn_pattern_matches str pat \<longleftrightarrow> str = pat"
  by (induction pat arbitrary: str) (auto simp: wild_def split: list.splits)

lemma matches_star:
  assumes "\<forall>x \<in> set (c # ext). \<not> wild x"
  shows "cmn_pattern_matches name (star # c # ext) \<longleftrightarrow> (\<exists>a. c \<notin> set a \<and> name = a @ c # ext)"
proof (cases "dropWhile (\<lambda>x. x \<noteq> c) name")
  case Nil
  then have "c \<notin> set name" by auto
  moreover have "\<not> cmn_pattern_matches name (star # c # ext)" using assms by (simp add: wild_def Nil del: dropWhile_eq_Nil_conv)
  ultimately show ?thesis by auto
next
  case (Cons x rest)
  then have "x = c" using hd_dropWhile [of "\<lambda>x. x \<noteq> c" name] by simp
  define a where "a = takeWhile (\<lambda>x. x \<noteq> c) name"
  have name: "name = a @ c # rest" "c \<notin> set a"
    using takeWhile_dropWhile_id [of "\<lambda>x. x \<noteq> c" name] Cons \<open>x = c\<close> by (auto simp: a_def dest: set_takeWhileD)
  have "cmn_pattern_matches name (star # c # ext) \<longleftrightarrow> rest = ext"
    using assms Cons matches_literal [of ext rest] by (simp add: wild_def)
  also have "\<dots> \<longleftrightarrow> (\<exists>a. c \<notin> set a \<and> name = a @ c # ext)"
  proof
    assume "\<exists>a. c \<notin> set a \<and> name = a @ c # ext"
    then obtain a' where "c \<notin> set a'" "name = a' @ c # ext" by auto
    moreover from this(1) have "dropWhile (\<lambda>x. x \<noteq> c) (a' @ c # ext) = c # ext" by (induction a') auto
    ultimately show "rest = ext" using Cons by simp
  qed (use name in auto)
  finally show ?thesis .
qed

lemma matches_prefix:
  "\<forall>x \<in> set pre. \<not> wild x \<Longrightarrow> cmn_pattern_matches name (pre @ pat) \<longleftrightarrow> (\<exists>rest. name = pre @ rest \<and> cmn_pattern_matches rest pat)"
proof (induction pre arbitrary: name)
  case (Cons x pre)
  then show ?case by (cases name) (auto simp: wild_def)
qed simp

text \<open>C32. A pattern of a text, one \<open>*\<close>, a character and another text, such as \<open>*.lua\<close> or \<open>log*.txt\<close>, where the texts have no wildcards. The \<open>*\<close> is
  non-greedy: the pattern matches exactly the names that start with the first text and continue with one or more characters up to the first
  occurrence of the character, behind which the second text is all that follows. (Names in which the character comes immediately behind the first
  text, where \<open>*\<close> would match nothing, are left out: the documentation and the code of the function differ on them.)\<close>

theorem pattern_extension:
  assumes "\<forall>x \<in> set (pre @ c # ext). \<not> wild x" and "\<forall>rest. name \<noteq> pre @ c # rest"
  shows "cmn_pattern_matches name (pre @ star # c # ext) \<longleftrightarrow> (\<exists>a. a \<noteq> [] \<and> c \<notin> set a \<and> name = pre @ a @ c # ext)"
proof -
  have "cmn_pattern_matches name (pre @ star # c # ext) \<longleftrightarrow> (\<exists>rest. name = pre @ rest \<and> (\<exists>a. c \<notin> set a \<and> rest = a @ c # ext))"
    using assms(1) matches_prefix [of pre name "star # c # ext"] matches_star [of c ext] by simp
  also have "\<dots> \<longleftrightarrow> (\<exists>a. a \<noteq> [] \<and> c \<notin> set a \<and> name = pre @ a @ c # ext)"
  proof safe
    fix a assume "c \<notin> set a" "name = pre @ a @ c # ext"
    moreover from this assms(2) have "a \<noteq> []" by (cases a) auto
    ultimately show "\<exists>a'. a' \<noteq> [] \<and> c \<notin> set a' \<and> pre @ a @ c # ext = pre @ a' @ c # ext" by blast
  qed auto
  finally show ?thesis .
qed

theorem pattern_extension_witness:
  "cmn_pattern_matches [0x61, 0x62, 0x2E, 0x6C] ([0x61] @ star # 0x2E # [0x6C]) \<and>
   \<not> cmn_pattern_matches [0x61, 0x62, 0x2E, 0x62, 0x2E, 0x6C] ([0x61] @ star # 0x2E # [0x6C])"
  using pattern_extension [of "[0x61]" "0x2E" "[0x6C]" "[0x61, 0x62, 0x2E, 0x6C]"]
    pattern_extension [of "[0x61]" "0x2E" "[0x6C]" "[0x61, 0x62, 0x2E, 0x62, 0x2E, 0x6C]"]
  by (auto simp: wild_def Cons_eq_append_conv)

text \<open>The usual meaning of patterns, and that a match is one in this sense when every \<open>*\<close> is at the end or followed by
  a character that is no wildcard.\<close>

inductive glob :: "u8 list \<Rightarrow> u8 list \<Rightarrow> bool" where
  glob_nil: "glob [] []"
| glob_star: "glob str pat \<Longrightarrow> glob (any @ str) (star # pat)"
| glob_quest: "glob str pat \<Longrightarrow> glob (x # str) (quest # pat)"
| glob_char: "\<not> wild c \<Longrightarrow> glob str pat \<Longrightarrow> glob (c # str) (c # pat)"

fun simple_pattern :: "u8 list \<Rightarrow> bool" where
  "simple_pattern [] = True"
| "simple_pattern (p # ps) = ((p = star \<longrightarrow> (case ps of [] \<Rightarrow> True | c # _ \<Rightarrow> \<not> wild c)) \<and> simple_pattern ps)"

lemma pattern_sound: "cmn_pattern_matches str pat \<Longrightarrow> simple_pattern pat \<Longrightarrow> glob str pat"
proof (induction str pat rule: cmn_pattern_matches.induct)
  case (1 str)
  then show ?case by (simp add: glob_nil)
next
  case (2 str p ps)
  show ?case
  proof (cases "p = star")
    case True
    show ?thesis
    proof (cases ps)
      case Nil
      then show ?thesis using True glob_star [OF glob_nil, of str] by simp
    next
      case (Cons c cs)
      then have c: "\<not> wild c" using 2(5) True by simp
      with 2(4) True Cons obtain x rest where r: "dropWhile (\<lambda>x. x \<noteq> c) str = x # rest" "cmn_pattern_matches rest cs"
        by (auto simp: wild_def split: list.splits)
      moreover then have "x = c" using hd_dropWhile [of "\<lambda>x. x \<noteq> c" str] by simp
      ultimately have "str = takeWhile (\<lambda>x. x \<noteq> c) str @ c # rest" using takeWhile_dropWhile_id [of "\<lambda>x. x \<noteq> c" str] by simp
      moreover have "glob rest cs" using 2(1) [of c cs x rest] True Cons c r 2(5) by (simp add: wild_def)
      ultimately show ?thesis using glob_star [OF glob_char [OF c]] True Cons by metis
    qed
  next
    case False
    then show ?thesis using 2 by (auto split: list.splits if_splits intro: glob_quest glob_char simp: wild_def)
  qed
qed

section \<open>Joining paths\<close>

definition join_part :: "u8 list \<Rightarrow> u8 list" where
  "join_part p = (let q = (if firstchar p = slash then tl p else p) in if q = [] \<or> List.last q = slash then q else q @ [slash])"

lemma join_part_Nil [simp]: "join_part [] = []"
  by (simp add: join_part_def firstchar_def)

lemma length_join_part: "length (join_part p) \<le> length p + 1"
  by (cases p) (auto simp: join_part_def Let_def firstchar_def)

lemma join_len_part: "join_len p n = n + word_of_nat (length (join_part p))"
  by (cases p) (auto simp: join_len_def join_part_def Let_def firstchar_def lastchar_def)

lemma fold_join_len: "fold join_len ps n = n + word_of_nat (length (concat (map join_part ps)))"
  by (induction ps arbitrary: n) (simp_all add: join_len_part add.assoc)

lemma join_cat_part:
  assumes "List.last res = slash" "res \<noteq> []" "length res + length (join_part p) < cap"
  shows "join_cat cap p (Some res) = Some (res @ join_part p)"
  using assms by (cases p) (auto simp: join_cat_def join_part_def Let_def firstchar_def lastchar_def)

lemma last_join_part: "List.last res = slash \<Longrightarrow> res \<noteq> [] \<Longrightarrow> List.last (res @ join_part p) = slash"
  by (auto simp: join_part_def Let_def last_append)

lemma fold_join_cat:
  assumes "List.last res = slash" "res \<noteq> []" "length res + length (concat (map join_part ps)) < cap"
  shows "fold (join_cat cap) ps (Some res) = Some (res @ concat (map join_part ps))"
  using assms
proof (induction ps arbitrary: res)
  case (Cons p ps)
  have "List.last (res @ join_part p) = slash" using Cons.prems last_join_part by blast
  with Cons show ?case by (simp add: join_cat_part)
qed simp

text \<open>C33. Joining paths never writes behind the buffer it allocated. The result is the parts with one slash in front
  of each; it is \<open>NULL\<close> when there is nothing to join or no memory.\<close>

theorem path_join_safe:
  assumes "sum_list (map (\<lambda>p. length p + 1) parts) < 2 ^ 31"
  shows "cmn_fs_path_join M parts =
    Some (let body = concat (map join_part parts)
          in if body = [] \<or> \<not> mem_str M (length body + 2) then None else Some (slash # butlast body))"
proof -
  let ?n = "length (concat (map join_part parts))"
  have "?n \<le> sum_list (map (\<lambda>p. length p + 1) parts)"
    using length_join_part by (induction parts) (auto intro: add_mono simp del: One_nat_def)
  with assms have n: "?n < 2 ^ 31" by simp
  have gen: "unat (word_of_nat n + 2 :: u32) = n + 2" "(word_of_nat n :: u32) = 0 \<longleftrightarrow> n = 0" if "n < 2 ^ 31" for n using that
    by (auto simp: unat_word_ariths unat_of_nat take_bit_nat_eq_self word_of_nat_eq_0_iff dest: dvd_imp_le)
  note u = gen [OF n]
  show ?thesis using fold_join_cat [of "[slash]" parts "?n + 2"] u
    by (simp add: cmn_fs_path_join_def fold_join_len Let_def)
qed

theorem path_join_safe_witness:
  "cmn_fs_path_join \<lparr>mem_str = (\<lambda>_. True), mem_dir = True, mem_file = True\<rparr> [[slash, 0x72], [0x61]] = Some (Some [slash, 0x72, slash, 0x61])"
  using path_join_safe [of "[[slash, 0x72], [0x61]]" "\<lparr>mem_str = (\<lambda>_. True), mem_dir = True, mem_file = True\<rparr>"]
  by (simp add: join_part_def Let_def firstchar_def)

end
