(* ===== verification/Shell.thy ===== *)
theory Shell
  imports Linenoise_Edit Common_Fs
begin

text \<open>
  The shell, \<open>src/src/shell/shell.c\<close>: the command line, the table of commands, and the interactive loop over the line
  editor.

  A command works on the terminal, on the messages it prints, and on the files. A message stands for one call of
  \<open>printf\<close>, with its arguments; the texts themselves are not modelled.
\<close>

section \<open>Messages\<close>

datatype shell_msg = Invalid_quoted_string | Too_many_arguments | Invalid_command | Welcome | New_line | Answer bool | Usage "u8 list"
  | Copy_itself "u8 list" | Copy_question "u8 list" "u8 list" | Source_error "u8 list" | Overwrite_question "u8 list" | Copy_no_buffer
  | Copying "u8 list" "u8 list" | Destination_error "u8 list" | Read_error "u8 list" | Write_error "u8 list" | No_space_left | Copy_done u32
  | Ls_dir "u8 list" | Ls_subdir "u8 list" | Ls_file "u8 list" u32 | Ls_dir_total "u8 list" u32 | Ls_total "u8 list" u32
  | Unable_to_open "u8 list" | Ignoring_argument "u8 list" | Remove_question "u8 list" | Invalid_argument "u8 list"
  | Unable_to_remove "u8 list" | Removed "u8 list" | Not_enough_memory | Unable_to_read "u8 list" | No_target | Use_recursive "u8 list"
  | Unable_to_rename "u8 list" | Moved "u8 list" "u8 list" | Original_not_removed "u8 list" | Internal_error "u8 list"
  | Creating_directory "u8 list" | Create_failed | Create_done | No_source_or_destination | Invalid_destination "u8 list option"
  | Invalid_paths cmn_type cmn_type | Invalid_target "u8 list" | Mkdir_error "u8 list" | Mkdir_done "u8 list"
  | Format_warning | Format_question | Formatting | Format_failed | Format_advice | Format_done

record ui =
  ui_term :: termst
  ui_out :: "shell_msg list"

definition say :: "shell_msg \<Rightarrow> ui \<Rightarrow> ui" where
  "say m u = u\<lparr>ui_out := ui_out u @ [m]\<rparr>"

type_synonym 's shell_handler = "u8 list list \<Rightarrow> ui \<times> 's \<Rightarrow> (ui \<times> 's) option"

record 's SHELL_COMMAND =
  cmd :: "u8 list"
  handler_func :: "'s shell_handler option"

section \<open>The command line\<close>

definition SHELL_ALT_SPACE :: u8 where "SHELL_ALT_SPACE = 7"
definition SHELL_MAX_ARGS :: nat where "SHELL_MAX_ARGS = 10"
definition SHELL_MAXSIZE :: nat where "SHELL_MAXSIZE = 50"

abbreviation sp :: u8 where "sp \<equiv> 0x20"
abbreviation quote1 :: u8 where "quote1 \<equiv> 0x27"
abbreviation quote2 :: u8 where "quote2 \<equiv> 0x22"

definition sh_blank :: "u8 \<Rightarrow> u8" where
  "sh_blank c = (if c = 13 \<or> c = 10 \<or> c = 9 then sp else c)"

text \<open>The loop that hides the spaces in quoted strings; the first argument is the quote that is open. The result has
  the quote that is open at the end.\<close>

fun sh_hide :: "u8 option \<Rightarrow> u8 list \<Rightarrow> u8 list \<times> u8 option" where
  "sh_hide q [] = ([], q)"
| "sh_hide q (c # cs) =
     (if c = quote1 \<or> c = quote2
      then let (r, q1) = sh_hide (if q = None then Some c else if q = Some c then None else q) cs in (c # r, q1)
      else let (r, q1) = sh_hide q cs in ((if c = sp \<and> q \<noteq> None then SHELL_ALT_SPACE else c) # r, q1))"

function sh_squeeze :: "u8 list \<Rightarrow> u8 list" where
  "sh_squeeze [] = []"
| "sh_squeeze (c # cs) = (if c = sp then sp # sh_squeeze (dropWhile (\<lambda>x. x = sp) cs) else c # sh_squeeze cs)"
  by pat_completeness auto
termination
  by (relation "measure length") (auto simp: le_imp_less_Suc length_dropWhile_le)

text \<open>Splitting at the spaces: \<open>None\<close> when there are more than \<open>SHELL_MAX_ARGS\<close> arguments.\<close>

function sh_split :: "nat \<Rightarrow> u8 list \<Rightarrow> u8 list list option" where
  "sh_split argc p =
     (if sp \<in> set p
      then if argc = SHELL_MAX_ARGS then None
           else map_option (\<lambda>as. takeWhile (\<lambda>c. c \<noteq> sp) p # as) (sh_split (argc + 1) (tl (dropWhile (\<lambda>c. c \<noteq> sp) p)))
      else Some [])"
  by pat_completeness auto
termination
proof (relation "measure (\<lambda>(argc, p). length p)", simp)
  fix argc :: nat and p :: "u8 list"
  assume "sp \<in> set p"
  then have "dropWhile (\<lambda>c. c \<noteq> sp) p \<noteq> []" by auto
  moreover have "length (dropWhile (\<lambda>c. c \<noteq> sp) p) \<le> length p" by (rule length_dropWhile_le)
  ultimately show "((argc + 1, tl (dropWhile (\<lambda>c. c \<noteq> sp) p)), argc, p) \<in> measure (\<lambda>(argc, p). length p)"
    by (cases "dropWhile (\<lambda>c. c \<noteq> sp) p") auto
qed

declare sh_split.simps [simp del]

text \<open>Putting the spaces back and removing the quotes around an argument.\<close>

definition sh_unquote :: "u8 list \<Rightarrow> u8 list" where
  "sh_unquote a =
     (let p = map (\<lambda>c. if c = SHELL_ALT_SPACE then sp else c) a
      in if (firstchar p = quote1 \<or> firstchar p = quote2) \<and> firstchar p = lastchar p then butlast (tl p) else p)"

text \<open>From the line to the arguments. \<open>cap\<close> is the size of the buffer that holds the line; the outer option is
  \<open>None\<close> when \<open>strcat\<close> leaves it. \<open>Inl\<close> is the return of \<open>NULL\<close>, with the message that is printed.\<close>

definition shell_args :: "nat \<Rightarrow> u8 list \<Rightarrow> (shell_msg list + u8 list list) option" where
  "shell_args cap line =
     (if line = [] then Some (Inl [])
      else do {
        cmd1 \<leftarrow> (if List.last line \<noteq> 10 then if length line + 2 \<le> cap then Some (line @ [10]) else None else Some line);
        let (cmd2, q) = sh_hide None (map sh_blank cmd1);
        if q \<noteq> None then Some (Inl [Invalid_quoted_string])
        else do {
          let cmd3 = sh_squeeze cmd2;
          if cmd3 = [sp] then Some (Inl [])
          else do {
            let p = (if hd cmd3 = sp then tl cmd3 else cmd3);
            p1 \<leftarrow> (if List.last p \<noteq> sp then if length cmd3 + 2 \<le> cap then Some (p @ [sp]) else None else Some p);
            case sh_split 0 p1 of
              None \<Rightarrow> Some (Inl [Too_many_arguments])
            | Some argv \<Rightarrow> Some (Inr (map sh_unquote argv))
          }
        }
      })"

section \<open>Executing a command\<close>

datatype lang = Picolisp | Picoc | Lua | Tinyscheme

fun lang_name :: "lang \<Rightarrow> u8 list" where
  "lang_name Picolisp = [0x70, 0x69, 0x63, 0x6F, 0x6C, 0x69, 0x73, 0x70]"
| "lang_name Picoc = [0x70, 0x69, 0x63, 0x6F, 0x63]"
| "lang_name Lua = [0x6C, 0x75, 0x61]"
| "lang_name Tinyscheme = [0x74, 0x69, 0x6E, 0x79, 0x73, 0x63, 0x68, 0x65, 0x6D, 0x65]"

definition exit_name :: "u8 list" where "exit_name = [0x65, 0x78, 0x69, 0x74]"

text \<open>Calling the handler of a command. In a build with TinyScheme there is no test in front of the call.\<close>

definition sh_call :: "lang \<Rightarrow> bool \<Rightarrow> 's SHELL_COMMAND \<Rightarrow> u8 list list \<Rightarrow> ui \<times> 's \<Rightarrow> (ui \<times> 's) option" where
  "sh_call L interactive pcmd argv w =
     (if L \<noteq> Tinyscheme \<and> (handler_func pcmd = None \<or> (\<not> interactive \<and> strcaseeq (cmd pcmd) (lang_name L))) then Some w
      else (case handler_func pcmd of None \<Rightarrow> None | Some f \<Rightarrow> f argv w))"

text \<open>The result is the command that was found: \<open>None\<close> for \<open>NULL\<close>, \<open>Some None\<close> for the entry at the end of the table, whose
  name is \<open>NULL\<close>.\<close>

definition shellh_execute_command :: "lang \<Rightarrow> 's SHELL_COMMAND list \<Rightarrow> nat \<Rightarrow> u8 list \<Rightarrow> bool \<Rightarrow> ui \<times> 's \<Rightarrow>
    ('s SHELL_COMMAND option option \<times> ui \<times> 's) option" where
  "shellh_execute_command L tab cap line interactive w =
     do {
       r \<leftarrow> shell_args cap line;
       case r of
         Inl msgs \<Rightarrow> Some (None, fold say msgs (fst w), snd w)
       | Inr argv \<Rightarrow>
           (case argv of
              [] \<Rightarrow> None
            | a # _ \<Rightarrow>
                (case find (\<lambda>c. strcaseeq (cmd c) a) tab of
                   None \<Rightarrow> if interactive then Some (Some None, say Invalid_command (fst w), snd w) else None
                 | Some pcmd \<Rightarrow>
                     do {
                       w1 \<leftarrow> sh_call L interactive pcmd argv w;
                       Some (if \<not> interactive \<and> strcaseeq (cmd pcmd) exit_name then None else Some (Some pcmd), w1)
                     }))
     }"

section \<open>The interactive loop\<close>

record 's shell =
  sh_hist :: history
  sh_cmd :: "u8 list"
  sh_ui :: ui
  sh_sys :: 's

text \<open>The inner loop of \<open>shell_start\<close>: reading a line until it is not refused with Ctrl-Z. \<open>fgets\<close> is a parameter of the
  line editor.\<close>

partial_function (option) shell_getline :: "(u8 list \<Rightarrow> bool) \<Rightarrow> bool \<Rightarrow> nat \<Rightarrow> (nat \<Rightarrow> termst \<Rightarrow> (u8 list option \<times> termst) option) \<Rightarrow>
    u8 list \<Rightarrow> 's shell \<Rightarrow> 's shell option" where
  "shell_getline dup_ok tab_ok cols fgets prompt S =
     do {
       (count, buf, h, T) \<leftarrow> linenoise_getline dup_ok tab_ok cols fgets prompt (sh_cmd S) (SHELL_MAXSIZE - 1) (sh_hist S) (ui_term (sh_ui S));
       let S1 = S\<lparr>sh_cmd := buf, sh_hist := h, sh_ui := (sh_ui S)\<lparr>ui_term := T\<rparr>\<rparr>;
       if count = -1 then shell_getline dup_ok tab_ok cols fgets prompt (S1\<lparr>sh_ui := say New_line (sh_ui S1)\<rparr>) else Some S1
     }"

text \<open>The string in the buffer of the command; its size is that of the array in \<open>shell_start\<close>.\<close>

definition sh_line :: "'s shell \<Rightarrow> u8 list option" where
  "sh_line S = (if 0 \<in> set (sh_cmd S) then Some (takeWhile (\<lambda>c. c \<noteq> 0) (sh_cmd S)) else None)"

text \<open>One command after a line was read; the flag says whether the shell is left. The buffer is changed while the command is
  taken apart, and holds no certain line afterwards; \<open>scrap\<close> are its bytes.\<close>

definition shell_run :: "(u8 list \<Rightarrow> bool) \<Rightarrow> bool \<Rightarrow> lang \<Rightarrow> 's SHELL_COMMAND list \<Rightarrow> (u8 list \<Rightarrow> u8 list) \<Rightarrow> u8 list \<Rightarrow> 's shell \<Rightarrow>
    (bool \<times> 's shell) option" where
  "shell_run dup_ok tab_ok L tab scrap line S =
     do {
       (_, h) \<leftarrow> linenoise_addhistory dup_ok tab_ok line (sh_hist S);
       (r, u, s) \<leftarrow> shellh_execute_command L tab (length (sh_cmd S)) line True (sh_ui S, sh_sys S);
       Some (case r of Some (Some pcmd) \<Rightarrow> handler_func pcmd = None | _ \<Rightarrow> False,
             S\<lparr>sh_hist := h, sh_ui := u, sh_sys := s, sh_cmd := scrap (sh_cmd S)\<rparr>)
     }"

partial_function (option) shell_loop :: "(u8 list \<Rightarrow> bool) \<Rightarrow> bool \<Rightarrow> nat \<Rightarrow> (nat \<Rightarrow> termst \<Rightarrow> (u8 list option \<times> termst) option) \<Rightarrow>
    u8 list \<Rightarrow> lang \<Rightarrow> 's SHELL_COMMAND list \<Rightarrow> (u8 list \<Rightarrow> u8 list) \<Rightarrow> 's shell \<Rightarrow> 's shell option" where
  "shell_loop dup_ok tab_ok cols fgets prompt L tab scrap S =
     do {
       S1 \<leftarrow> shell_getline dup_ok tab_ok cols fgets prompt S;
       line \<leftarrow> sh_line S1;
       if line = [] then shell_loop dup_ok tab_ok cols fgets prompt L tab scrap S1
       else do {
         (leave, S2) \<leftarrow> shell_run dup_ok tab_ok L tab scrap line S1;
         if leave then Some S2 else shell_loop dup_ok tab_ok cols fgets prompt L tab scrap S2
       }
     }"

definition shell_start :: "(u8 list \<Rightarrow> bool) \<Rightarrow> bool \<Rightarrow> nat \<Rightarrow> (nat \<Rightarrow> termst \<Rightarrow> (u8 list option \<times> termst) option) \<Rightarrow>
    u8 list \<Rightarrow> lang \<Rightarrow> 's SHELL_COMMAND list \<Rightarrow> (u8 list \<Rightarrow> u8 list) \<Rightarrow> u8 list \<Rightarrow> history \<Rightarrow> ui \<times> 's \<Rightarrow> 's shell option" where
  "shell_start dup_ok tab_ok cols fgets prompt L tab scrap buf h w =
     shell_loop dup_ok tab_ok cols fgets prompt L tab scrap
       \<lparr>sh_hist = h, sh_cmd = buf, sh_ui = say Welcome (fst w), sh_sys = snd w\<rparr>"

end
