(* ===== verification/Shell_Session.thy ===== *)
theory Shell_Session
  imports Shell
begin

text \<open>
  What the shell does with a command line, and with a whole session.
\<close>

section \<open>Words of a command line\<close>

datatype word_form = Plain "u8 list" | Quoted u8 "u8 list"

definition blank :: "u8 \<Rightarrow> bool" where "blank c \<longleftrightarrow> c \<in> {sp, 9, 10, 13}"

fun form_ok :: "word_form \<Rightarrow> bool" where
  "form_ok (Plain a) \<longleftrightarrow> a \<noteq> [] \<and> (\<forall>c \<in> set a. \<not> blank c \<and> c \<notin> {quote1, quote2, SHELL_ALT_SPACE})"
| "form_ok (Quoted q a) \<longleftrightarrow> q \<in> {quote1, quote2} \<and> (\<forall>c \<in> set a. c \<notin> {q, 9, 10, 13, SHELL_ALT_SPACE})"

fun form_text :: "word_form \<Rightarrow> u8 list" where
  "form_text (Plain a) = a"
| "form_text (Quoted q a) = q # a @ [q]"

fun form_arg :: "word_form \<Rightarrow> u8 list" where
  "form_arg (Plain a) = a"
| "form_arg (Quoted q a) = a"

fun form_hidden :: "word_form \<Rightarrow> u8 list" where
  "form_hidden (Plain a) = a"
| "form_hidden (Quoted q a) = q # map (\<lambda>c. if c = sp then SHELL_ALT_SPACE else c) a @ [q]"

text \<open>A line of words, each with the blanks behind it.\<close>

definition line_of :: "(word_form \<times> u8 list) list \<Rightarrow> u8 list" where
  "line_of ws = concat (map (\<lambda>(w, gap). form_text w @ gap) ws)"

lemma sh_hide_append:
  "sh_hide q (xs @ ys) = (let (a, q1) = sh_hide q xs; (b, q2) = sh_hide q1 ys in (a @ b, q2))"
  by (induction xs arbitrary: q) (auto simp: Let_def split: prod.splits)

lemma sh_hide_none: "\<forall>c \<in> set xs. c \<notin> {quote1, quote2} \<Longrightarrow> sh_hide None xs = (xs, None)"
  by (induction xs) auto

lemma sh_hide_quoted: "q \<notin> set xs \<Longrightarrow> sh_hide (Some q) xs = (map (\<lambda>c. if c = sp then SHELL_ALT_SPACE else c) xs, Some q)"
  by (induction xs) (auto simp: SHELL_ALT_SPACE_def)

lemma sh_hide_form:
  assumes "form_ok w"
  shows "sh_hide None (form_text w) = (form_hidden w, None)"
proof (cases w)
  case (Plain a)
  then have "\<forall>c \<in> set a. c \<notin> {quote1, quote2}" using assms by fastforce
  then show ?thesis using Plain by (simp add: sh_hide_none)
next
  case (Quoted q a)
  then have q: "q = quote1 \<or> q = quote2" "q \<notin> set a" using assms by fastforce+
  then show ?thesis using Quoted by (simp add: sh_hide_append sh_hide_quoted)
qed

lemma sh_blank_same: "c \<notin> {9, 10, 13} \<Longrightarrow> sh_blank c = c"
  by (simp add: sh_blank_def)

lemma sh_blank_form:
  assumes "form_ok w"
  shows "map sh_blank (form_text w) = form_text w"
proof -
  have "c \<notin> {9, 10, 13}" if "c \<in> set (form_text w)" for c
    using assms that by (cases w) (fastforce simp: blank_def)+
  then show ?thesis by (intro map_idI sh_blank_same)
qed

lemma sh_blank_gap: "\<forall>c \<in> set gap. blank c \<Longrightarrow> map sh_blank gap = replicate (length gap) sp"
  by (induction gap) (auto simp: sh_blank_def blank_def)

lemma sh_hide_gap: "sh_hide None (replicate n sp) = (replicate n sp, None)"
  by (intro sh_hide_none) simp

lemma quoted_form:
  assumes "form_ok (Quoted q a)"
  shows "q = quote1 \<or> q = quote2" "q \<noteq> sp" "q \<noteq> SHELL_ALT_SPACE"
proof -
  show q: "q = quote1 \<or> q = quote2" using assms by simp
  then show "q \<noteq> sp" "q \<noteq> SHELL_ALT_SPACE" by (elim disjE; simp add: SHELL_ALT_SPACE_def)+
qed

lemma hidden_no_space:
  assumes "form_ok w"
  shows "sp \<notin> set (form_hidden w)" "form_hidden w \<noteq> []"
proof -
  show "sp \<notin> set (form_hidden w)"
  proof (cases w)
    case (Plain a) then show ?thesis using assms by (fastforce simp: blank_def)
  next
    case (Quoted q a)
    then have "q \<noteq> sp" using assms quoted_form by blast
    then show ?thesis using Quoted by (simp add: image_iff SHELL_ALT_SPACE_def)
  qed
  show "form_hidden w \<noteq> []" using assms by (cases w) simp_all
qed

lemma sh_unquote_form: "form_ok w \<Longrightarrow> sh_unquote (form_hidden w) = form_arg w"
proof (cases w)
  case (Plain a)
  assume ok: "form_ok w"
  then have "map (\<lambda>c. if c = SHELL_ALT_SPACE then sp else c) a = a" using Plain by (intro map_idI) fastforce
  moreover have "hd a \<in> set a" using ok Plain by simp
  then have "firstchar a \<noteq> quote1" "firstchar a \<noteq> quote2" using ok Plain by (auto simp: firstchar_def)
  ultimately show ?thesis using Plain by (simp add: sh_unquote_def)
next
  case (Quoted q a)
  assume ok: "form_ok w"
  then have "map ((\<lambda>c. if c = SHELL_ALT_SPACE then sp else c) \<circ> (\<lambda>c. if c = sp then SHELL_ALT_SPACE else c)) a = a"
    using Quoted by (intro map_idI) fastforce
  moreover have "q = quote1 \<or> q = quote2" "q \<noteq> SHELL_ALT_SPACE" using ok quoted_form Quoted by blast+
  ultimately show ?thesis using Quoted by (simp add: sh_unquote_def Let_def firstchar_def lastchar_def)
qed

lemma sh_squeeze_word: "sp \<notin> set xs \<Longrightarrow> sh_squeeze (xs @ ys) = xs @ sh_squeeze ys"
  by (induction xs) auto

lemma sh_squeeze_gap: "ys = [] \<or> hd ys \<noteq> sp \<Longrightarrow> sh_squeeze (replicate (Suc n) sp @ ys) = sp # sh_squeeze ys"
proof -
  assume "ys = [] \<or> hd ys \<noteq> sp"
  then have "dropWhile (\<lambda>x. x = sp) (replicate n sp @ ys) = ys" by (induction n) (cases ys; simp)+
  then show ?thesis by simp
qed

definition words_ok :: "(word_form \<times> u8 list) list \<Rightarrow> bool" where
  "words_ok ws \<longleftrightarrow> (\<forall>(w, gap) \<in> set ws. form_ok w \<and> gap \<noteq> [] \<and> (\<forall>c \<in> set gap. blank c))"

text \<open>The line after hiding and squeezing.\<close>

definition tidy :: "(word_form \<times> u8 list) list \<Rightarrow> u8 list" where
  "tidy ws = concat (map (\<lambda>(w, gap). form_hidden w @ [sp]) ws)"

lemma hd_hidden: "form_ok w \<Longrightarrow> hd (form_hidden w) \<noteq> sp"
  using hidden_no_space [of w] by (metis hd_in_set)

lemma hide_words:
  "words_ok ws \<Longrightarrow> sh_hide None (map sh_blank (line_of ws)) = (concat (map (\<lambda>(w, gap). form_hidden w @ replicate (length gap) sp) ws), None)"
  by (induction ws) (auto simp: words_ok_def line_of_def sh_hide_append sh_blank_form sh_blank_gap sh_hide_form sh_hide_gap)

lemma squeeze_words:
  "words_ok ws \<Longrightarrow> sh_squeeze (concat (map (\<lambda>(w, gap). form_hidden w @ replicate (length gap) sp) ws)) = tidy ws"
proof (induction ws)
  case (Cons x ws)
  obtain w gap where x: "x = (w, gap)" by force
  with Cons.prems have w: "form_ok w" "gap \<noteq> []" "words_ok ws" by (auto simp: words_ok_def)
  let ?rest = "concat (map (\<lambda>(w, gap). form_hidden w @ replicate (length gap) sp) ws)"
  have "?rest = [] \<or> hd ?rest \<noteq> sp"
    using w(3) hd_hidden hidden_no_space(2) by (cases ws) (auto simp: words_ok_def hd_append)
  moreover obtain n where "length gap = Suc n" using w(2) by (cases gap) auto
  ultimately show ?case using Cons.IH [OF w(3)] w(1) x
    by (simp add: sh_squeeze_word hidden_no_space sh_squeeze_gap tidy_def del: replicate_Suc)
qed (simp add: tidy_def)

lemma split_words:
  "words_ok ws \<Longrightarrow> argc + length ws \<le> SHELL_MAX_ARGS \<Longrightarrow> sh_split argc (tidy ws) = Some (map (form_hidden \<circ> fst) ws)"
proof (induction ws arbitrary: argc)
  case (Cons x ws)
  obtain w gap where x: "x = (w, gap)" by force
  with Cons.prems have w: "form_ok w" "words_ok ws" by (auto simp: words_ok_def)
  have no: "\<forall>c \<in> set (form_hidden w). c \<noteq> sp" using hidden_no_space(1) [OF w(1)] by auto
  then have "takeWhile (\<lambda>c. c \<noteq> sp) (form_hidden w @ sp # tidy ws) = form_hidden w"
    "dropWhile (\<lambda>c. c \<noteq> sp) (form_hidden w @ sp # tidy ws) = sp # tidy ws"
    by (simp_all add: takeWhile_append2 dropWhile_append2)
  with Cons w(2) x show ?case by (subst sh_split.simps) (simp add: tidy_def)
qed (simp add: tidy_def sh_split.simps)

lemma last_form_text: "form_ok w \<Longrightarrow> form_text w \<noteq> [] \<and> List.last (form_text w) \<noteq> 10"
proof (cases w)
  case (Plain a)
  assume "form_ok w"
  then have "a \<noteq> []" "\<forall>c \<in> set a. c \<noteq> 10" using Plain by (auto simp: blank_def)
  then show ?thesis using Plain last_in_set by fastforce
next
  case (Quoted q a)
  assume "form_ok w"
  then have "q = quote1 \<or> q = quote2" using Quoted quoted_form(1) by blast
  then have "q \<noteq> 10" by (elim disjE) simp_all
  then show ?thesis using Quoted by simp
qed

lemma tidy_ends:
  assumes "words_ok ws" "ws \<noteq> []"
  shows "tidy ws \<noteq> []" "hd (tidy ws) \<noteq> sp" "List.last (tidy ws) = sp"
proof -
  obtain w gap ws1 where ws: "ws = (w, gap) # ws1" using assms(2) by (cases ws) auto
  then have "form_hidden w \<noteq> []" "hd (form_hidden w) \<noteq> sp" using assms(1) hd_hidden hidden_no_space(2) by (auto simp: words_ok_def)
  then show "tidy ws \<noteq> []" "hd (tidy ws) \<noteq> sp" by (auto simp: ws tidy_def)
  obtain w' gap' ws2 where "ws = ws2 @ [(w', gap')]" using assms(2) by (cases ws rule: rev_cases) auto
  then show "List.last (tidy ws) = sp" by (simp add: tidy_def)
qed

text \<open>Words with blanks between them, before the first and after the last one, are taken apart to the words.\<close>

lemma shell_args_words:
  assumes ws: "words_ok ws" "form_ok w" "length ws < SHELL_MAX_ARGS" and gaps: "\<forall>c \<in> set (lead @ trail). blank c"
    and cap: "length (lead @ line_of ws @ form_text w @ trail) + 2 \<le> cap"
  shows "shell_args cap (lead @ line_of ws @ form_text w @ trail) = Some (Inr (map (form_arg \<circ> fst) ws @ [form_arg w]))"
proof -
  let ?line = "lead @ line_of ws @ form_text w @ trail"
  define gap where "gap = (if List.last ?line \<noteq> 10 then trail @ [10] else trail)"
  define ws' where "ws' = ws @ [(w, gap)]"
  have ne: "form_text w \<noteq> []" "List.last (form_text w) \<noteq> 10" using last_form_text [OF ws(2)] by auto
  then have "gap \<noteq> []" "\<forall>c \<in> set gap. blank c" using gaps by (auto simp: gap_def blank_def)
  then have ok: "words_ok ws'" using ws by (auto simp: ws'_def words_ok_def)
  have line: "(if List.last ?line \<noteq> 10 then ?line @ [10] else ?line) = lead @ line_of ws'" "?line \<noteq> []"
    using ne by (auto simp: gap_def ws'_def line_of_def)
  have hide: "sh_hide None (map sh_blank (lead @ line_of ws')) =
      (replicate (length lead) sp @ concat (map (\<lambda>(w, gap). form_hidden w @ replicate (length gap) sp) ws'), None)"
    using gaps ok by (simp add: sh_hide_append sh_blank_gap sh_hide_gap hide_words del: map_append)
      (simp add: sh_hide_append sh_blank_gap sh_hide_gap hide_words)
  define t where "t = tidy ws'"
  have t: "t \<noteq> []" "hd t \<noteq> sp" "List.last t = sp" using tidy_ends [OF ok] by (simp_all add: t_def ws'_def)
  define X where "X = concat (map (\<lambda>(w, gap). form_hidden w @ replicate (length gap) sp) ws')"
  have X: "sh_squeeze X = t" "X \<noteq> []" "hd X \<noteq> sp"
  proof -
    show sq: "sh_squeeze X = t" using squeeze_words [OF ok] by (simp add: X_def t_def)
    with t(1) show "X \<noteq> []" by auto
    with sq t(2) show "hd X \<noteq> sp" by (cases X) auto
  qed
  have squeeze: "sh_squeeze (replicate (length lead) sp @ X) = (if lead = [] then t else sp # t)"
    using X sh_squeeze_gap [of X "length lead - 1"] by (cases lead) simp_all
  have neq: "(if lead = [] then t else sp # t) \<noteq> [sp]" using t(1,2) by (cases t) auto
  have "sh_split 0 t = Some (map (form_hidden \<circ> fst) ws')" using split_words [OF ok, of 0] ws(3) by (simp add: t_def ws'_def)
  moreover have "map sh_unquote (map (form_hidden \<circ> fst) ws') = map (form_arg \<circ> fst) ws'"
    using ok sh_unquote_form by (auto simp: words_ok_def)
  moreover have "(if List.last ?line \<noteq> 10 then if length ?line + 2 \<le> cap then Some (?line @ [10]) else None else Some ?line) = Some (lead @ line_of ws')"
    using cap line(1) by (simp only: if_True simp_thms split: if_splits)
  ultimately show ?thesis
    using line(2) hide squeeze neq t unfolding shell_args_def X_def [symmetric]
    by (simp add: Let_def ws'_def split: if_splits)
qed

text \<open>C28. The shell takes a command line apart into its words: whatever blanks surround them, whether a word is plain or in
  quotes, with spaces inside or not, the handler of the command with the name of the first word is called with exactly
  the words. The line stays within its buffer.\<close>

theorem shell_runs_command:
  assumes "words_ok ws" and "form_ok w" and "length ws < SHELL_MAX_ARGS" and "\<forall>c \<in> set (lead @ trail). blank c"
    and "length (lead @ line_of ws @ form_text w @ trail) + 2 \<le> cap"
    and "find (\<lambda>c. strcaseeq (cmd c) (hd (map (form_arg \<circ> fst) ws @ [form_arg w]))) tab = Some pcmd"
    and "handler_func pcmd = Some f"
  shows "shellh_execute_command L tab cap (lead @ line_of ws @ form_text w @ trail) True S
    = map_option (\<lambda>S'. (Some (Some pcmd), S')) (f (map (form_arg \<circ> fst) ws @ [form_arg w]) S)"
proof -
  define argv where "argv = map (form_arg \<circ> fst) ws @ [form_arg w]"
  obtain a as where a: "argv = a # as" by (cases argv) (auto simp: argv_def)
  have args: "shell_args cap (lead @ line_of ws @ form_text w @ trail) = Some (Inr argv)"
    using shell_args_words [OF assms(1-5)] by (simp add: argv_def)
  have "sh_call L True pcmd argv S = f argv S" using assms(7) by (simp add: sh_call_def)
  then show ?thesis using assms(6) unfolding argv_def [symmetric]
    by (simp add: shellh_execute_command_def args a map_conv_bind_option comp_def)
qed

definition echo_cmd :: "(u8 list list) SHELL_COMMAND" where
  "echo_cmd = \<lparr>cmd = [0x70], handler_func = Some (\<lambda>argv (u, s). Some (u, argv))\<rparr>"

definition idle_ui :: ui where
  "idle_ui = \<lparr>ui_term = \<lparr>term_num_lines = 25, term_num_cols = 80, term_cx = 0, term_cy = 0, term_input = [], term_output = []\<rparr>, ui_out = []\<rparr>"

theorem shell_runs_command_witness:
  "shellh_execute_command Lua [echo_cmd] 51 [sp, 0x70, sp, 9, quote1, 0x61, sp, 0x62, quote1] True (idle_ui, [])
    = Some (Some (Some echo_cmd), idle_ui, [[0x70], [0x61, sp, 0x62]])"
  using shell_runs_command [of "[(Plain [0x70], [sp, 9])]" "Quoted quote1 [0x61, sp, 0x62]" "[sp]" "[]" 51 "[echo_cmd]" echo_cmd
      "\<lambda>argv (u, s). Some (u, argv)" Lua "(idle_ui, [])"]
  by (simp add: words_ok_def blank_def SHELL_MAX_ARGS_def SHELL_ALT_SPACE_def line_of_def echo_cmd_def strcaseeq_def)

text \<open>A command without a handler, which \<open>exit\<close> is, is called through a null pointer in a build with TinyScheme: the
  test of the handler is only compiled for the other languages.\<close>

theorem shell_exit_tinyscheme:
  assumes "find (\<lambda>c. strcaseeq (cmd c) exit_name) tab = Some pcmd" and "handler_func pcmd = None" and "6 \<le> cap"
  shows "shellh_execute_command Tinyscheme tab cap exit_name True S = None"
proof -
  have "form_ok (Plain exit_name)" by (simp add: exit_name_def blank_def SHELL_ALT_SPACE_def)
  then have "shell_args cap exit_name = Some (Inr [exit_name])"
    using shell_args_words [of "[]" "Plain exit_name" "[]" "[]" cap] assms(3)
    by (simp add: words_ok_def line_of_def SHELL_MAX_ARGS_def exit_name_def)
  then show ?thesis using assms(1,2) by (simp add: shellh_execute_command_def sh_call_def)
qed

theorem shell_exit_tinyscheme_witness:
  "shellh_execute_command Tinyscheme [\<lparr>cmd = exit_name, handler_func = None\<rparr>] 51 exit_name True (idle_ui, ()) = None"
  using shell_exit_tinyscheme [of "[\<lparr>cmd = exit_name, handler_func = None\<rparr>]" "\<lparr>cmd = exit_name, handler_func = None\<rparr>" 51 "(idle_ui, ())"]
  by (simp add: strcaseeq_def)

section \<open>A session\<close>

text \<open>Commands that print messages and change the system, but leave the keyboard alone.\<close>

type_synonym 's quiet = "u8 list list \<Rightarrow> 's \<Rightarrow> (shell_msg list \<times> 's) option"

definition quiet_handler :: "'s quiet \<Rightarrow> 's shell_handler" where
  "quiet_handler g argv w = do { (out, s) \<leftarrow> g argv (snd w); Some ((fst w)\<lparr>ui_out := ui_out (fst w) @ out\<rparr>, s) }"

definition quiet_table :: "(u8 list \<times> 's quiet option) list \<Rightarrow> 's SHELL_COMMAND list" where
  "quiet_table qs = map (\<lambda>(n, g). \<lparr>cmd = n, handler_func = map_option quiet_handler g\<rparr>) qs"

text \<open>What one line does, and what several lines do; \<open>None\<close> when a handler does not return, or for \<open>exit\<close>.\<close>

definition quiet_exec :: "(u8 list \<times> 's quiet option) list \<Rightarrow> u8 list \<Rightarrow> 's \<Rightarrow> (shell_msg list \<times> 's) option" where
  "quiet_exec qs line s =
     (case shell_args (SHELL_MAXSIZE + 1) line of
        None \<Rightarrow> None
      | Some (Inl msgs) \<Rightarrow> Some (msgs, s)
      | Some (Inr []) \<Rightarrow> None
      | Some (Inr (a # as)) \<Rightarrow>
          (case find (\<lambda>(n, g). strcaseeq n a) qs of
             None \<Rightarrow> Some ([Invalid_command], s)
           | Some (n, None) \<Rightarrow> None
           | Some (n, Some g) \<Rightarrow> g (a # as) s))"

fun quiet_session :: "(u8 list \<times> 's quiet option) list \<Rightarrow> u8 list list \<Rightarrow> 's \<Rightarrow> (shell_msg list \<times> 's) option" where
  "quiet_session qs [] s = Some ([], s)"
| "quiet_session qs (l # ls) s = do { (o1, s1) \<leftarrow> quiet_exec qs l s; (o2, s2) \<leftarrow> quiet_session qs ls s1; Some (o1 @ o2, s2) }"

lemma fold_say: "fold say msgs u = u\<lparr>ui_out := ui_out u @ msgs\<rparr>"
  by (induction msgs arbitrary: u) (simp_all add: say_def)

lemma find_quiet_table:
  "find (\<lambda>c. strcaseeq (cmd c) a) (quiet_table qs)
    = map_option (\<lambda>(n, g). \<lparr>cmd = n, handler_func = map_option quiet_handler g\<rparr>) (find (\<lambda>(n, g). strcaseeq n a) qs)"
  by (induction qs) (auto simp: quiet_table_def)

lemma quiet_execute:
  assumes "quiet_exec qs line s = Some (out, s')"
  obtains r where "shellh_execute_command L (quiet_table qs) (SHELL_MAXSIZE + 1) line True (u, s) = Some (r, u\<lparr>ui_out := ui_out u @ out\<rparr>, s')"
    "\<And>pcmd. r = Some (Some pcmd) \<Longrightarrow> handler_func pcmd \<noteq> None"
proof -
  have "\<exists>r. shellh_execute_command L (quiet_table qs) (SHELL_MAXSIZE + 1) line True (u, s) = Some (r, u\<lparr>ui_out := ui_out u @ out\<rparr>, s') \<and>
    (\<forall>pcmd. r = Some (Some pcmd) \<longrightarrow> handler_func pcmd \<noteq> None)"
    using assms
    by (auto simp: quiet_exec_def shellh_execute_command_def fold_say find_quiet_table sh_call_def quiet_handler_def say_def
        split: option.split_asm sum.split_asm list.split_asm prod.split_asm)
  with that show thesis by blast
qed

definition typed_line :: "u8 list \<Rightarrow> bool" where
  "typed_line l \<longleftrightarrow> l \<noteq> [] \<and> length l \<le> SHELL_MAXSIZE - 2 \<and> (\<forall>c \<in> set l. isprint (uint c))"

lemma fold_typed:
  "length (ed_text e) + length l \<le> cap \<Longrightarrow> fold (ed_key cap) (map Chr l) e = ed_set (ed_left e @ l) (ed_right e) e"
proof (induction l arbitrary: e)
  case (Cons c l)
  have "fold (ed_key cap) (map Chr l) (ed_set (ed_left e @ [c]) (ed_right e) e)
      = ed_set ((ed_left e @ [c]) @ l) (ed_right e) (ed_set (ed_left e @ [c]) (ed_right e) e)"
    using Cons.IH [of "ed_set (ed_left e @ [c]) (ed_right e) e"] Cons.prems by (simp add: ed_set_def ed_text_def)
  then show ?case using Cons.prems by (simp add: ed_set_def)
qed (simp add: ed_set_def)

lemma ed_run_typed: "length l \<le> cap \<Longrightarrow> ed_text (ed_run cap m (map Chr l) ls) = l"
  by (simp add: ed_run_def fold_typed ed_begin_def ed_text_def ed_set_def)

lemma typed_not_zero: "typed_line l \<Longrightarrow> 0 \<notin> set l"
  by (auto simp: typed_line_def isprint_def)

lemma nl_lines_typed: "typed_line l \<Longrightarrow> nl_lines l = [l]"
proof -
  have "nl_lines l = [l]" if "\<forall>c \<in> set l. c \<noteq> 10" for l :: "u8 list" using that by (induction l) auto
  moreover assume "typed_line l"
  then have "\<forall>c \<in> set l. c \<noteq> 10" by (auto simp: typed_line_def isprint_def)
  ultimately show ?thesis by blast
qed

definition shell_ready :: "nat \<Rightarrow> 's shell \<Rightarrow> u8 list list \<Rightarrow> bool" where
  "shell_ready m S ls \<longleftrightarrow> hist_ok (sh_hist S) ls \<and> history_max_len (sh_hist S) = m \<and> 0 < m \<and> (\<forall>l \<in> set ls. 0 \<notin> set l) \<and>
     length (sh_cmd S) = SHELL_MAXSIZE + 1"

lemma shell_getline_typed:
  assumes "shell_ready m S ls" "typed_line l" "length prompt < cols" "\<forall>l. dup_ok l" "term_input (ui_term (sh_ui S)) = entered (map Chr l) @ xs"
  obtains S1 ls1 where "shell_getline dup_ok True cols fgets prompt S = Some S1" "sh_line S1 = Some l" "shell_ready m S1 ls1"
    "sh_sys S1 = sh_sys S" "ui_out (sh_ui S1) = ui_out (sh_ui S)" "term_input (ui_term (sh_ui S1)) = xs"
proof -
  let ?ls1 = "ed_after (SHELL_MAXSIZE - 1 - 1) m (map Chr l) ls"
  have l: "\<forall>k \<in> set (map Chr l). edit_key k" "length l \<le> SHELL_MAXSIZE - 1 - 1" using assms(2) by (auto simp: typed_line_def)
  have r: "hist_ok (sh_hist S) ls" "history_max_len (sh_hist S) = m" "0 < m" "\<forall>l \<in> set ls. 0 \<notin> set l" "length (sh_cmd S) = SHELL_MAXSIZE + 1"
    using assms(1) by (auto simp: shell_ready_def)
  obtain rest h T where g: "linenoise_getline dup_ok True cols fgets prompt (sh_cmd S) (SHELL_MAXSIZE - 1) (sh_hist S) (ui_term (sh_ui S))
      = Some (int (length l), l @ 0 # rest, h, T)" "hist_ok h ?ls1" "term_input T = xs" "length (l @ 0 # rest) = length (sh_cmd S)"
      "history_max_len h = m" "\<forall>l \<in> set ?ls1. 0 \<notin> set l"
    using getline_refines [of "[]" "map Chr l" "ui_term (sh_ui S)" xs "sh_hist S" ls "SHELL_MAXSIZE - 1" "sh_cmd S" prompt cols dup_ok fgets]
      l r assms(3-5) ed_run_typed [OF l(2)] by (auto simp: SHELL_MAXSIZE_def)
  let ?S1 = "S\<lparr>sh_cmd := l @ 0 # rest, sh_hist := h, sh_ui := (sh_ui S)\<lparr>ui_term := T\<rparr>\<rparr>"
  show thesis
  proof (rule that)
    show "shell_getline dup_ok True cols fgets prompt S = Some ?S1"
      by (subst shell_getline.simps) (simp add: g(1) del: One_nat_def)
    show "sh_line ?S1 = Some l" using typed_not_zero [OF assms(2)] by (simp add: sh_line_def takeWhile_line)
    show "shell_ready m ?S1 ?ls1" using g r by (simp add: shell_ready_def)
  qed (simp_all add: g(3))
qed

lemma shell_run_history:
  fixes S :: "'s shell"
  assumes "shell_ready m S ls" "typed_line l" "\<forall>l. dup_ok l"
  obtains h where "linenoise_addhistory dup_ok True l (sh_hist S) = Some (1, h)"
    "\<And>S' :: 's shell. sh_hist S' = h \<Longrightarrow> length (sh_cmd S') = length (sh_cmd S) \<Longrightarrow> shell_ready m S' (newest m (ls @ [l]))"
proof -
  have r: "hist_ok (sh_hist S) ls" "history_max_len (sh_hist S) = m" "0 < m" "\<forall>l \<in> set ls. 0 \<notin> set l" "length (sh_cmd S) = SHELL_MAXSIZE + 1"
    using assms(1) by (auto simp: shell_ready_def)
  have "filter (\<lambda>l. l \<noteq> []) (nl_lines l) = [l]" using nl_lines_typed [OF assms(2)] assms(2) by (simp add: typed_line_def)
  then obtain h where h: "linenoise_addhistory dup_ok True l (sh_hist S) = Some (1, h)" "history_max_len h = m" "hist_ok h (newest m (ls @ [l]))"
    using linenoise_addhistory_rel [OF r(1), of dup_ok l] r(2,3) assms(3) by auto
  moreover have "\<forall>x \<in> set (newest m (ls @ [l])). 0 \<notin> set x"
    using r(4) typed_not_zero [OF assms(2)] by (auto simp: newest_def dest!: in_set_dropD)
  ultimately show thesis using that r(3,5) by (simp add: shell_ready_def)
qed

lemma shell_run_quiet:
  fixes S :: "'s shell"
  assumes "shell_ready m S ls" "typed_line l" "\<forall>l. dup_ok l" "quiet_exec qs l (sh_sys S) = Some (out, s')" "\<And>b. length (scrap b) = length b"
  obtains S1 ls1 where "shell_run dup_ok True L (quiet_table qs) scrap l S = Some (False, S1)" "shell_ready m S1 ls1" "sh_sys S1 = s'"
    "ui_out (sh_ui S1) = ui_out (sh_ui S) @ out" "term_input (ui_term (sh_ui S1)) = term_input (ui_term (sh_ui S))"
proof -
  have len: "length (sh_cmd S) = SHELL_MAXSIZE + 1" using assms(1) by (simp add: shell_ready_def)
  obtain h where h: "linenoise_addhistory dup_ok True l (sh_hist S) = Some (1, h)"
    "\<And>S' :: 's shell. sh_hist S' = h \<Longrightarrow> length (sh_cmd S') = length (sh_cmd S) \<Longrightarrow> shell_ready m S' (newest m (ls @ [l]))"
    using shell_run_history [OF assms(1-3)] by blast
  obtain r where r: "shellh_execute_command L (quiet_table qs) (SHELL_MAXSIZE + 1) l True (sh_ui S, sh_sys S)
      = Some (r, (sh_ui S)\<lparr>ui_out := ui_out (sh_ui S) @ out\<rparr>, s')" "\<And>pcmd. r = Some (Some pcmd) \<Longrightarrow> handler_func pcmd \<noteq> None"
    using quiet_execute [OF assms(4)] by blast
  let ?S1 = "S\<lparr>sh_hist := h, sh_ui := (sh_ui S)\<lparr>ui_out := ui_out (sh_ui S) @ out\<rparr>, sh_sys := s', sh_cmd := scrap (sh_cmd S)\<rparr>"
  show thesis
  proof (rule that)
    show "shell_run dup_ok True L (quiet_table qs) scrap l S = Some (False, ?S1)"
      using r(2) by (auto simp: shell_run_def h(1) len r(1) r(1) [unfolded Suc_eq_plus1 [symmetric]] split: option.split)
    show "shell_ready m ?S1 (newest m (ls @ [l]))" using h(2) assms(5) by simp
  qed simp_all
qed

lemma exit_args: "shell_args (SHELL_MAXSIZE + 1) exit_name = Some (Inr [exit_name])"
  using shell_args_words [of "[]" "Plain exit_name" "[]" "[]" "SHELL_MAXSIZE + 1"]
  by (simp add: words_ok_def line_of_def SHELL_MAX_ARGS_def exit_name_def blank_def SHELL_ALT_SPACE_def SHELL_MAXSIZE_def)

lemma exit_typed: "typed_line exit_name"
  by (simp add: typed_line_def exit_name_def SHELL_MAXSIZE_def isprint_def)

lemma shell_run_exit:
  assumes "shell_ready m S ls" "\<forall>l. dup_ok l" "L \<noteq> Tinyscheme" "find (\<lambda>(n, g). strcaseeq n exit_name) qs = Some (n, None)"
  obtains S1 where "shell_run dup_ok True L (quiet_table qs) scrap exit_name S = Some (True, S1)" "sh_sys S1 = sh_sys S" "sh_ui S1 = sh_ui S"
proof -
  have len: "length (sh_cmd S) = SHELL_MAXSIZE + 1" using assms(1) by (simp add: shell_ready_def)
  obtain h where h: "linenoise_addhistory dup_ok True exit_name (sh_hist S) = Some (1, h)"
    using shell_run_history [OF assms(1) exit_typed assms(2)] by blast
  have "shellh_execute_command L (quiet_table qs) (SHELL_MAXSIZE + 1) exit_name True (sh_ui S, sh_sys S)
      = Some (Some (Some \<lparr>cmd = n, handler_func = None\<rparr>), sh_ui S, sh_sys S)"
    using assms(3,4) exit_args by (simp add: shellh_execute_command_def find_quiet_table sh_call_def)
  with len h that show thesis by (simp add: shell_run_def)
qed

lemma shell_loop_session:
  assumes "\<forall>l \<in> set lines. typed_line l" "L \<noteq> Tinyscheme" "find (\<lambda>(n, g). strcaseeq n exit_name) qs = Some (n, None)"
    "length prompt < cols" "\<forall>l. dup_ok l" "\<And>b. length (scrap b) = length b"
    "quiet_session qs lines (sh_sys S) = Some (out, s')" "shell_ready m S ls"
    "term_input (ui_term (sh_ui S)) = concat (map (\<lambda>l. entered (map Chr l)) (lines @ [exit_name])) @ xs"
  shows "\<exists>S'. shell_loop dup_ok True cols fgets prompt L (quiet_table qs) scrap S = Some S' \<and> sh_sys S' = s' \<and>
    ui_out (sh_ui S') = ui_out (sh_ui S) @ out \<and> term_input (ui_term (sh_ui S')) = xs"
  using assms(1,7-9)
proof (induction lines arbitrary: S ls out)
  case Nil
  obtain S1 ls1 where S1: "shell_getline dup_ok True cols fgets prompt S = Some S1" "sh_line S1 = Some exit_name" "shell_ready m S1 ls1"
    "sh_sys S1 = sh_sys S" "ui_out (sh_ui S1) = ui_out (sh_ui S)" "term_input (ui_term (sh_ui S1)) = xs"
    using shell_getline_typed [OF Nil(3) exit_typed assms(4,5), of xs] Nil(4) by auto
  obtain S2 where S2: "shell_run dup_ok True L (quiet_table qs) scrap exit_name S1 = Some (True, S2)" "sh_sys S2 = sh_sys S1" "sh_ui S2 = sh_ui S1"
    using shell_run_exit [OF S1(3) assms(5,2,3)] by blast
  have "shell_loop dup_ok True cols fgets prompt L (quiet_table qs) scrap S = Some S2"
    by (subst shell_loop.simps) (simp add: S1 S2 exit_name_def [THEN arg_cong [where f = "\<lambda>x. x = []"]])
  with S1 S2 Nil(2) show ?case by auto
next
  case (Cons l lines)
  then obtain o1 s1 o2 where o: "quiet_exec qs l (sh_sys S) = Some (o1, s1)" "quiet_session qs lines s1 = Some (o2, s')" "out = o1 @ o2"
    by (auto split: bind_split_asm)
  let ?ys = "concat (map (\<lambda>l. entered (map Chr l)) (lines @ [exit_name])) @ xs"
  have l: "typed_line l" "l \<noteq> []" using Cons.prems(1) by (auto simp: typed_line_def)
  obtain S1 ls1 where S1: "shell_getline dup_ok True cols fgets prompt S = Some S1" "sh_line S1 = Some l" "shell_ready m S1 ls1"
    "sh_sys S1 = sh_sys S" "ui_out (sh_ui S1) = ui_out (sh_ui S)" "term_input (ui_term (sh_ui S1)) = ?ys"
    using shell_getline_typed [OF Cons.prems(3) l(1) assms(4,5), of ?ys] Cons.prems(4) by auto
  obtain S2 ls2 where S2: "shell_run dup_ok True L (quiet_table qs) scrap l S1 = Some (False, S2)" "shell_ready m S2 ls2" "sh_sys S2 = s1"
    "ui_out (sh_ui S2) = ui_out (sh_ui S1) @ o1" "term_input (ui_term (sh_ui S2)) = term_input (ui_term (sh_ui S1))"
    using shell_run_quiet [OF S1(3) l(1) assms(5), of qs o1 s1 scrap L] o(1) S1(4) assms(6) by auto
  have step: "shell_loop dup_ok True cols fgets prompt L (quiet_table qs) scrap S = shell_loop dup_ok True cols fgets prompt L (quiet_table qs) scrap S2"
    by (subst shell_loop.simps) (simp add: S1(1,2) S2(1) l(2))
  show ?case unfolding step using Cons.IH [of S2 o2 ls2] Cons.prems(1) S1 S2 o by auto
qed

text \<open>A command as it is typed: blanks, words with the blanks behind them, the last word, blanks. What the user expects of a
  sequence of commands is stated over their words: the command whose name is the first word runs with the words, and for a name
  that no command has there is a message.\<close>

record typed_cmd =
  tc_lead :: "u8 list"
  tc_words :: "(word_form \<times> u8 list) list"
  tc_last :: word_form
  tc_trail :: "u8 list"

definition cmd_text :: "typed_cmd \<Rightarrow> u8 list" where
  "cmd_text c = tc_lead c @ line_of (tc_words c) @ form_text (tc_last c) @ tc_trail c"

definition cmd_words :: "typed_cmd \<Rightarrow> u8 list list" where
  "cmd_words c = map (form_arg \<circ> fst) (tc_words c) @ [form_arg (tc_last c)]"

definition cmd_ok :: "typed_cmd \<Rightarrow> bool" where
  "cmd_ok c \<longleftrightarrow> words_ok (tc_words c) \<and> form_ok (tc_last c) \<and> length (tc_words c) < SHELL_MAX_ARGS \<and>
     (\<forall>b \<in> set (tc_lead c @ tc_trail c). blank b) \<and> typed_line (cmd_text c)"

fun words_session :: "(u8 list \<times> 's quiet option) list \<Rightarrow> u8 list list list \<Rightarrow> 's \<Rightarrow> (shell_msg list \<times> 's) option" where
  "words_session qs [] s = Some ([], s)"
| "words_session qs (argv # cs) s =
     do {
       (o1, s1) \<leftarrow> (case find (\<lambda>(n, g). strcaseeq n (hd argv)) qs of
           None \<Rightarrow> Some ([Invalid_command], s)
         | Some (n, None) \<Rightarrow> None
         | Some (n, Some g) \<Rightarrow> g argv s);
       (o2, s2) \<leftarrow> words_session qs cs s1;
       Some (o1 @ o2, s2)
     }"

lemma quiet_exec_words:
  assumes "cmd_ok c"
  shows "quiet_exec qs (cmd_text c) s = (case find (\<lambda>(n, g). strcaseeq n (hd (cmd_words c))) qs of
           None \<Rightarrow> Some ([Invalid_command], s)
         | Some (n, None) \<Rightarrow> None
         | Some (n, Some g) \<Rightarrow> g (cmd_words c) s)"
proof -
  have "length (cmd_text c) + 2 \<le> SHELL_MAXSIZE + 1"
    using assms by (simp add: cmd_ok_def typed_line_def SHELL_MAXSIZE_def)
  then have "shell_args (SHELL_MAXSIZE + 1) (cmd_text c) = Some (Inr (cmd_words c))"
    unfolding cmd_text_def cmd_words_def by (intro shell_args_words) (use assms in \<open>simp_all add: cmd_ok_def\<close>)
  moreover obtain a as where "cmd_words c = a # as" by (cases "cmd_words c") (simp_all add: cmd_words_def)
  ultimately show ?thesis by (simp add: quiet_exec_def cong: option.case_cong)
qed

lemma quiet_session_words:
  "\<forall>c \<in> set cs. cmd_ok c \<Longrightarrow> quiet_session qs (map cmd_text cs) s = words_session qs (map cmd_words cs) s"
  by (induction cs arbitrary: s) (simp_all add: quiet_exec_words)

text \<open>C27. A session with the shell: the user types commands of the given table, each a line of plain or quoted words with any blanks around them that
  fits the editor, and at last \<open>exit\<close>. The commands are ones that print messages and change the system but read no keys, and that return; the
  language of the build is not TinyScheme, where \<open>exit\<close> crashes (\<open>shell_exit_tinyscheme\<close>); \<open>strdup\<close> and \<open>malloc\<close> for the history succeed; the prompt is
  narrower than the screen. Then every line is read by the line editor and taken apart, and the command named by its first word runs with exactly its
  words, in the order in which the lines were typed; an unknown name gives a message; the messages appear in this order, the system is
  left as the commands leave it, and the shell returns without consuming what follows.\<close>

theorem shell_session:
  assumes "\<forall>c \<in> set cs. cmd_ok c" and "words_session qs (map cmd_words cs) s = Some (out, s')"
    and "find (\<lambda>(n, g). strcaseeq n exit_name) qs = Some (n, None)" and "L \<noteq> Tinyscheme"
    and "term_input (ui_term u) = concat (map (\<lambda>l. entered (map Chr l)) (map cmd_text cs @ [exit_name])) @ xs"
    and "hist_ok h ls" and "0 < history_max_len h" and "\<forall>l \<in> set ls. 0 \<notin> set l"
    and "length prompt < cols" and "\<forall>l. dup_ok l" and "length buf = SHELL_MAXSIZE + 1" and "\<forall>b. length (scrap b) = length b"
  shows "\<exists>S. shell_start dup_ok True cols fgets prompt L (quiet_table qs) scrap buf h (u, s) = Some S \<and> sh_sys S = s' \<and>
    ui_out (sh_ui S) = ui_out u @ Welcome # out \<and> term_input (ui_term (sh_ui S)) = xs"
proof -
  let ?S = "\<lparr>sh_hist = h, sh_cmd = buf, sh_ui = say Welcome u, sh_sys = s\<rparr>"
  have r: "shell_ready (history_max_len h) ?S ls" using assms by (simp add: shell_ready_def)
  have l: "\<forall>l \<in> set (map cmd_text cs). typed_line l" using assms(1) by (auto simp: cmd_ok_def)
  have q: "quiet_session qs (map cmd_text cs) (sh_sys ?S) = Some (out, s')"
    using quiet_session_words [OF assms(1), of qs s] assms(2) by simp
  have i: "term_input (ui_term (sh_ui ?S)) = concat (map (\<lambda>l. entered (map Chr l)) (map cmd_text cs @ [exit_name])) @ xs"
    using assms(5) by (simp add: say_def)
  have "\<exists>S'. shell_loop dup_ok True cols fgets prompt L (quiet_table qs) scrap ?S = Some S' \<and> sh_sys S' = s' \<and>
    ui_out (sh_ui S') = ui_out (sh_ui ?S) @ out \<and> term_input (ui_term (sh_ui S')) = xs"
    by (rule shell_loop_session [OF l assms(4,3,9,10) _ q r i]) (use assms(12) in simp)
  then show ?thesis by (simp add: shell_start_def say_def)
qed

text \<open>Two commands: \<open>p "a b"\<close> of the table, and \<open>q\<close>, which is not in it.\<close>

definition session_demo :: "typed_cmd list" where
  "session_demo = [\<lparr>tc_lead = [sp], tc_words = [(Plain [0x70], [sp, sp])], tc_last = Quoted quote1 [0x61, sp, 0x62], tc_trail = []\<rparr>,
     \<lparr>tc_lead = [], tc_words = [], tc_last = Plain [0x71], tc_trail = [sp]\<rparr>]"

definition session_table :: "(u8 list \<times> (u8 list list) quiet option) list" where
  "session_table = [([0x70], Some (\<lambda>argv s. Some ([Usage []], s @ argv))), (exit_name, None)]"

lemma session_demo_ok: "\<forall>c \<in> set session_demo. cmd_ok c"
  by (simp add: session_demo_def cmd_ok_def cmd_text_def words_ok_def line_of_def blank_def SHELL_MAX_ARGS_def SHELL_ALT_SPACE_def
      typed_line_def SHELL_MAXSIZE_def isprint_def)

theorem shell_session_witness:
  "\<exists>S. shell_start (\<lambda>_. True) True 80 (\<lambda>_ _. None) [0x23] Lua (quiet_table session_table) (\<lambda>b. b) (replicate 51 0)
        \<lparr>h_slots = None, history_length = 0, history_max_len = 4\<rparr>
        (idle_ui\<lparr>ui_term := (ui_term idle_ui)\<lparr>term_input := concat (map (\<lambda>l. entered (map Chr l)) (map cmd_text session_demo @ [exit_name])) @ []\<rparr>\<rparr>, []) = Some S \<and>
    sh_sys S = [[0x70], [0x61, sp, 0x62]] \<and> ui_out (sh_ui S) = [Welcome, Usage [], Invalid_command] \<and> term_input (ui_term (sh_ui S)) = []"
proof -
  have q: "words_session session_table (map cmd_words session_demo) [] = Some ([Usage [], Invalid_command], [[0x70], [0x61, sp, 0x62]])"
    by (simp add: session_demo_def session_table_def cmd_words_def strcaseeq_def exit_name_def tolower_def)
  have x: "find (\<lambda>(n, g). strcaseeq n exit_name) session_table = Some (exit_name, None)"
    by (simp add: session_table_def strcaseeq_def exit_name_def)
  show ?thesis
    using shell_session [where L = Lua and ls = "[]" and fgets = "\<lambda>_ _. None" and prompt = "[0x23]" and cols = 80
        and dup_ok = "\<lambda>_. True" and scrap = "\<lambda>b. b" and buf = "replicate 51 0" and h = "\<lparr>h_slots = None, history_length = 0, history_max_len = 4\<rparr>"
        and u = "idle_ui\<lparr>ui_term := (ui_term idle_ui)\<lparr>term_input := concat (map (\<lambda>l. entered (map Chr l)) (map cmd_text session_demo @ [exit_name])) @ []\<rparr>\<rparr>"
        and xs = "[]", OF session_demo_ok q x]
    by (simp add: SHELL_MAXSIZE_def hist_ok_def idle_ui_def)
qed

end
