(* ===== verification/Shell_Commands.thy ===== *)
theory Shell_Commands
  imports Shell
begin

text \<open>
  The commands of the shell that work on files: copying a file (\<open>src/src/shell/shell.c\<close>), \<open>cp\<close> and \<open>mv\<close>
  (\<open>src/src/shell/shell_adv_cp_mv.c\<close>), \<open>rm\<close> (\<open>src/src/shell/shell_adv_rm.c\<close>), \<open>ls\<close> (\<open>src/src/shell/shell_ls.c\<close>) and
  \<open>mkdir\<close> (\<open>src/src/shell/shell_mkdir.c\<close>), as in a build with the advanced shell. The calls of the C library for files are those of the device
  manager; \<open>k\<close> are the constants of the library.
\<close>

definition SHELL_F_RECURSIVE :: u8 where "SHELL_F_RECURSIVE = 1"
definition SHELL_F_FORCE_DESTINATION :: u8 where "SHELL_F_FORCE_DESTINATION = 2"
definition SHELL_F_ASK_CONFIRMATION :: u8 where "SHELL_F_ASK_CONFIRMATION = 4"
definition SHELL_F_SIMULATE_ONLY :: u8 where "SHELL_F_SIMULATE_ONLY = 8"
definition SHELL_F_SILENT :: u8 where "SHELL_F_SILENT = 16"
definition SHELL_F_MOVE :: u8 where "SHELL_F_MOVE = 32"

abbreviation has :: "u8 \<Rightarrow> u8 \<Rightarrow> bool" where "has flags f \<equiv> flags AND f \<noteq> 0"

section \<open>Asking\<close>

partial_function (option) ask_loop :: "ui \<Rightarrow> (bool \<times> ui) option" where
  "ask_loop u =
     do {
       (c, T) \<leftarrow> term_getch TERM_INPUT_WAIT (ui_term u);
       if c = 0x79 \<or> c = 0x59 then Some (True, say (Answer True) (u\<lparr>ui_term := T\<rparr>))
       else if c = 0x6E \<or> c = 0x4E then Some (False, say (Answer False) (u\<lparr>ui_term := T\<rparr>))
       else ask_loop (u\<lparr>ui_term := T\<rparr>)
     }"

text \<open>The prompt is a message; every caller but one prints its question itself.\<close>

definition shellh_ask_yes_no :: "shell_msg option \<Rightarrow> ui \<Rightarrow> (bool \<times> ui) option" where
  "shellh_ask_yes_no prompt u = ask_loop (case prompt of None \<Rightarrow> u | Some m \<Rightarrow> say m u)"

section \<open>Copying a file\<close>

definition plog :: "u8 \<Rightarrow> shell_msg \<Rightarrow> ui \<Rightarrow> ui" where
  "plog flags m u = (if has flags SHELL_F_SILENT then u else say m u)"

text \<open>The loop that copies; \<open>n\<close> is \<open>SHELL_COPY_BUFSIZE\<close>.\<close>

partial_function (option) cp_loop :: "nat \<Rightarrow> ('d, 'h, 's) dm_table \<Rightarrow> u8 list \<Rightarrow> u8 list \<Rightarrow> u8 \<Rightarrow> int \<Rightarrow> int \<Rightarrow> u32 \<Rightarrow> ui \<times> 's \<Rightarrow>
    (u32 option \<times> ui \<times> 's) option" where
  "cp_loop n T psrcname pdestname flags fds fdd nbytes w =
     do {
       (r, s1) \<leftarrow> read_r fds n T (snd w);
       case r of
         Inl _ \<Rightarrow> Some (None, plog flags (Read_error psrcname) (fst w), s1)
       | Inr bs \<Rightarrow>
           do {
             (r, s2) \<leftarrow> write_r fdd bs T s1;
             case r of
               Inl _ \<Rightarrow> Some (None, plog flags (Write_error pdestname) (fst w), s2)
             | Inr datawrote \<Rightarrow>
                 if datawrote < length bs then Some (None, plog flags No_space_left (fst w), s2)
                 else if length bs < n then Some (Some (nbytes + word_of_nat (length bs)), fst w, s2)
                 else cp_loop n T psrcname pdestname flags fds fdd (nbytes + word_of_nat (length bs)) (fst w, s2)
           }
     }"

text \<open>After the source was opened: the result, and the destination when it is open.\<close>

definition cp_opened :: "os_consts \<Rightarrow> nat \<Rightarrow> cmn_mem \<Rightarrow> ('d, 'h, 's) dm_table \<Rightarrow> u8 list \<Rightarrow> u8 list \<Rightarrow> u8 \<Rightarrow> int \<Rightarrow> ui \<times> 's \<Rightarrow>
    (bool \<times> int option \<times> ui \<times> 's) option" where
  "cp_opened k n M T psrcname pdestname flags fds w =
     do {
       (go, u1, s1) \<leftarrow>
         (if has flags SHELL_F_FORCE_DESTINATION then Some (True, w)
          else do {
            (r, s1) \<leftarrow> open_r (Some pdestname) (O_RDONLY k) 0 T (snd w);
            case r of
              Inl _ \<Rightarrow> Some (True, fst w, s1)
            | Inr fdd \<Rightarrow> do {
                (_, s2) \<leftarrow> close_r fdd T s1;
                (yes, u2) \<leftarrow> shellh_ask_yes_no None (say (Overwrite_question pdestname) (fst w));
                Some (yes, u2, s2)
              }
          });
       if \<not> go then Some (False, None, u1, s1)
       else if \<not> mem_str M n then Some (False, None, plog flags Copy_no_buffer u1, s1)
       else do {
         let u2 = plog flags (Copying psrcname pdestname) u1;
         if has flags SHELL_F_SIMULATE_ONLY then Some (True, None, plog flags (Copy_done 0) u2, s1)
         else do {
           (r, s2) \<leftarrow> open_r (Some pdestname) (O_WRONLY k OR O_CREAT k OR O_TRUNC k) 0 T s1;
           case r of
             Inl _ \<Rightarrow> Some (False, None, plog flags (Destination_error pdestname) u2, s2)
           | Inr fdd \<Rightarrow>
               do {
                 (c, u3, s3) \<leftarrow> cp_loop n T psrcname pdestname flags fds fdd 0 (u2, s2);
                 Some (case c of None \<Rightarrow> (False, Some fdd, u3, s3) | Some nbytes \<Rightarrow> (True, Some fdd, plog flags (Copy_done nbytes) u3, s3))
               }
         }
       }
     }"

definition shellh_cp_file :: "os_consts \<Rightarrow> nat \<Rightarrow> cmn_mem \<Rightarrow> ('d, 'h, 's) dm_table \<Rightarrow> u8 list \<Rightarrow> u8 list \<Rightarrow> u8 \<Rightarrow> ui \<times> 's \<Rightarrow>
    (bool \<times> ui \<times> 's) option" where
  "shellh_cp_file k n M T psrcname pdestname flags w =
     (if strcaseeq psrcname pdestname then Some (False, plog flags (Copy_itself psrcname) (fst w), snd w)
      else do {
        (yes, u1) \<leftarrow> (if has flags SHELL_F_ASK_CONFIRMATION then shellh_ask_yes_no None (say (Copy_question psrcname pdestname) (fst w))
                      else Some (True, fst w));
        if \<not> yes then Some (False, u1, snd w)
        else do {
          (r, s1) \<leftarrow> open_r (Some psrcname) (O_RDONLY k) 0 T (snd w);
          case r of
            Inl _ \<Rightarrow> Some (False, plog flags (Source_error psrcname) u1, s1)
          | Inr fds \<Rightarrow>
              do {
                (res, fdd, u2, s2) \<leftarrow> cp_opened k n M T psrcname pdestname flags fds (u1, s1);
                (_, s3) \<leftarrow> close_r fds T s2;
                (_, s4) \<leftarrow> (case fdd of None \<Rightarrow> Some (Inr 0, s3) | Some fd \<Rightarrow> close_r fd T s3);
                Some (res, u2, s4)
              }
        }
      })"

section \<open>Copying and moving\<close>

definition shellh_cp_or_mv_file :: "os_consts \<Rightarrow> nat \<Rightarrow> cmn_mem \<Rightarrow> ('d, 'h, 's) dm_table \<Rightarrow> u8 list \<Rightarrow> u8 list \<Rightarrow> u8 \<Rightarrow> ui \<times> 's \<Rightarrow>
    (bool \<times> ui \<times> 's) option" where
  "shellh_cp_or_mv_file k n M T psrc pdest flags w =
     do {
       (early, w1) \<leftarrow>
         (if has flags SHELL_F_MOVE
          then do {
            (r, s1) \<leftarrow> rename_r (Some psrc) (Some pdest) T (snd w);
            Some (case r of
                    Inl e \<Rightarrow> if e \<noteq> Some EXDEV then (Some False, say (Unable_to_rename psrc) (fst w), s1) else (None, fst w, s1)
                  | Inr _ \<Rightarrow> (Some True, say (Moved psrc pdest) (fst w), s1))
          }
          else Some (None, w));
       case early of
         Some b \<Rightarrow> Some (b, w1)
       | None \<Rightarrow>
           do {
             (ok, w2) \<leftarrow> shellh_cp_file k n M T psrc pdest flags w1;
             if \<not> ok then Some (False, w2)
             else if has flags SHELL_F_MOVE
             then do {
               (r, s3) \<leftarrow> unlink_r (Some psrc) T (snd w2);
               Some (case r of Inl _ \<Rightarrow> (False, say (Original_not_removed psrc) (fst w2), s3) | Inr _ \<Rightarrow> (True, fst w2, s3))
             }
             else Some (True, w2)
           }
     }"

text \<open>The state of the callback of \<open>cp\<close> and \<open>mv\<close>; the directories are \<open>None\<close> when they could not be allocated.\<close>

record SHELL_CP_STATE =
  pdestdir :: "u8 list option"
  psrcdir :: "u8 list option"
  dloc :: "u8 list"
  cp_flags :: u8

text \<open>Joining with the destination directory in front: a null pointer there ends the list of parts.\<close>

definition cp_join :: "cmn_mem \<Rightarrow> u8 list option \<Rightarrow> u8 list list \<Rightarrow> u8 list option option" where
  "cp_join M dir parts = (case dir of None \<Rightarrow> cmn_fs_path_join M [] | Some d \<Rightarrow> cmn_fs_path_join M (d # parts))"

definition cp_mkdir :: "cmn_mem \<Rightarrow> ('d, 'h, 's) dm_table \<Rightarrow> u8 \<Rightarrow> u8 list \<Rightarrow> ui \<times> 's \<Rightarrow> (bool \<times> ui \<times> 's) option" where
  "cp_mkdir M T flags tmp w =
     do {
       (r, s1) \<leftarrow> dm_opendir (mem_dir M) tmp T (snd w);
       case r of
         Inr d \<Rightarrow> do { (_, s2) \<leftarrow> dm_closedir d T s1; Some (True, fst w, s2) }
       | Inl _ \<Rightarrow>
           do {
             let u1 = say (Creating_directory tmp) (fst w);
             if has flags SHELL_F_SIMULATE_ONLY then Some (True, say Create_done u1, s1)
             else do {
               (r, s2) \<leftarrow> mkdir_r (Some tmp) 0 T s1;
               Some (case r of Inl _ \<Rightarrow> (False, say Create_failed u1, s2) | Inr _ \<Rightarrow> (True, say Create_done u1, s2))
             }
           }
     }"

definition shellh_cp_walkdir_cb :: "os_consts \<Rightarrow> nat \<Rightarrow> cmn_mem \<Rightarrow> ('d, 'h, 's) dm_table \<Rightarrow> SHELL_CP_STATE \<Rightarrow> (ui, 's) walker_cb" where
  "shellh_cp_walkdir_cb k n M T ps path pent info w =
     (case info of
        CMN_FS_INFO_BEFORE_READDIR \<Rightarrow>
          do {
            srcdir \<leftarrow> psrcdir ps;
            if take (length srcdir) path \<noteq> srcdir then Some (False, say (Internal_error path) (fst w), snd w)
            else do {
              j \<leftarrow> cp_join M (pdestdir ps) [drop (length srcdir - length (dloc ps)) path];
              case j of None \<Rightarrow> Some (False, say Not_enough_memory (fst w), snd w) | Some tmp \<Rightarrow> cp_mkdir M T (cp_flags ps) tmp w
            }
          }
      | CMN_FS_INFO_INSIDE_READDIR \<Rightarrow>
          do {
            ent \<leftarrow> pent;
            if DM_DIRENT_IS_DIR ent then Some (True, w)
            else do {
              srcdir \<leftarrow> psrcdir ps;
              if take (length srcdir) path \<noteq> srcdir then Some (False, say (Internal_error path) (fst w), snd w)
              else do {
                j1 \<leftarrow> cmn_fs_path_join M [path, dent_fname ent];
                case j1 of
                  None \<Rightarrow> Some (False, say Not_enough_memory (fst w), snd w)
                | Some tmp \<Rightarrow>
                    do {
                      j2 \<leftarrow> cp_join M (pdestdir ps) [drop (length srcdir - length (dloc ps)) path, dent_fname ent];
                      case j2 of
                        None \<Rightarrow> Some (False, say Not_enough_memory (fst w), snd w)
                      | Some tmp2 \<Rightarrow> do { (_, w1) \<leftarrow> shellh_cp_or_mv_file k n M T tmp tmp2 (cp_flags ps) w; Some (True, w1) }
                    }
              }
            }
          }
      | CMN_FS_INFO_OPENDIR_FAILED \<Rightarrow> Some (False, say (Unable_to_read path) (fst w), snd w)
      | _ \<Rightarrow> Some (True, w))"

text \<open>The options of \<open>cp\<close> and \<open>mv\<close>: flags, source and destination.\<close>

fun cp_options :: "u8 list list \<Rightarrow> u8 \<Rightarrow> u8 list option \<Rightarrow> u8 list option \<Rightarrow> ui \<Rightarrow> u8 \<times> u8 list option \<times> u8 list option \<times> ui" where
  "cp_options [] flags src dst u = (flags, src, dst, u)"
| "cp_options (a # as) flags src dst u =
     (if a = [0x2D, 0x52] then cp_options as (flags OR SHELL_F_RECURSIVE) src dst u
      else if a = [0x2D, 0x66] then cp_options as (flags OR SHELL_F_FORCE_DESTINATION) src dst u
      else if a = [0x2D, 0x63] then cp_options as (flags OR SHELL_F_ASK_CONFIRMATION) src dst u
      else if a = [0x2D, 0x73] then cp_options as (flags OR SHELL_F_SIMULATE_ONLY) src dst u
      else if firstchar a = slash
      then if src = None then cp_options as flags (Some a) dst u
           else if dst = None then cp_options as flags src (Some a) u
           else cp_options as flags src dst (say (Ignoring_argument a) u)
      else cp_options as flags src dst (say (Ignoring_argument a) u))"

text \<open>Source and destination are known.\<close>

definition cp_paths :: "nat \<Rightarrow> os_consts \<Rightarrow> nat \<Rightarrow> cmn_mem \<Rightarrow> (u8 list \<Rightarrow> bool) \<Rightarrow> ('d, 'h, 's) dm_table \<Rightarrow> u8 \<Rightarrow> u8 list \<Rightarrow> u8 list \<Rightarrow> ui \<times> 's \<Rightarrow>
    (ui \<times> 's) option" where
  "cp_paths stack k n M junk T flags srcpath dstpath w =
     do {
       (srctype, s1) \<leftarrow> cmn_fs_get_type M T (Some srcpath) (snd w);
       (dsttype, s2) \<leftarrow> cmn_fs_get_type M T (Some dstpath) s1;
       if dsttype = CMN_FS_TYPE_PATTERN then Some (say (Invalid_destination (Some dstpath)) (fst w), s2)
       else if srctype \<in> {CMN_FS_TYPE_ERROR, CMN_FS_TYPE_FILE_NOT_FOUND, CMN_FS_TYPE_DIR_NOT_FOUND, CMN_FS_TYPE_UNKNOWN_NOT_FOUND} \<or>
         dsttype \<in> {CMN_FS_TYPE_ERROR, CMN_FS_TYPE_DIR_NOT_FOUND}
       then Some (say (Invalid_paths srctype dsttype) (fst w), s2)
       else do {
         ((srcdir, srcfile), s3) \<leftarrow> cmn_fs_split_path M T (Some srcpath) s2;
         ((dstdir, dstfile), s4) \<leftarrow> cmn_fs_split_path M T (Some dstpath) s3;
         if srctype = CMN_FS_TYPE_FILE
         then if dsttype \<in> {CMN_FS_TYPE_FILE, CMN_FS_TYPE_FILE_NOT_FOUND, CMN_FS_TYPE_UNKNOWN_NOT_FOUND}
              then map_option snd (shellh_cp_or_mv_file k n M T srcpath dstpath flags (fst w, s4))
              else if dsttype = CMN_FS_TYPE_DIR
              then do {
                name \<leftarrow> srcfile;
                j \<leftarrow> cp_join M dstdir [name];
                case j of None \<Rightarrow> Some (say Not_enough_memory (fst w), s4)
                | Some tmp \<Rightarrow> map_option snd (shellh_cp_or_mv_file k n M T srcpath tmp flags (fst w, s4))
              }
              else Some (say (Invalid_destination None) (fst w), s4)
         else if dsttype = CMN_FS_TYPE_FILE \<or> dsttype = CMN_FS_TYPE_FILE_NOT_FOUND then Some (say (Invalid_destination (Some dstpath)) (fst w), s4)
         else do {
           dl \<leftarrow> (if has flags SHELL_F_RECURSIVE
                  then do { d \<leftarrow> srcdir; Some (if slash \<in> set d then slash # file_part d else []) } else Some []);
           (_, w1) \<leftarrow> cmn_fs_walkdir stack M junk T
                        (shellh_cp_walkdir_cb k n M T \<lparr>pdestdir = dstdir, psrcdir = srcdir, dloc = dl, cp_flags = flags\<rparr>)
                        (has flags SHELL_F_RECURSIVE) (Some srcpath) (fst w, s4);
           Some w1
         }
       }
     }"

definition shellh_adv_cp_mv_common :: "nat \<Rightarrow> os_consts \<Rightarrow> nat \<Rightarrow> cmn_mem \<Rightarrow> (u8 list \<Rightarrow> bool) \<Rightarrow> ('d, 'h, 's) dm_table \<Rightarrow> bool \<Rightarrow> 's shell_handler" where
  "shellh_adv_cp_mv_common stack k n M junk T is_move argv w =
     (if length argv < 3 then Some (say (Usage (if is_move then [0x6D, 0x76] else [0x63, 0x70])) (fst w), snd w)
      else (case cp_options (tl argv) (if is_move then SHELL_F_MOVE else 0) None None (fst w) of
              (flags, Some srcpath, Some dstpath, u1) \<Rightarrow> cp_paths stack k n M junk T flags srcpath dstpath (u1, snd w)
            | (_, _, _, u1) \<Rightarrow> Some (say No_source_or_destination u1, snd w)))"

definition shell_cp :: "nat \<Rightarrow> os_consts \<Rightarrow> nat \<Rightarrow> cmn_mem \<Rightarrow> (u8 list \<Rightarrow> bool) \<Rightarrow> ('d, 'h, 's) dm_table \<Rightarrow> 's shell_handler" where
  "shell_cp stack k n M junk T = shellh_adv_cp_mv_common stack k n M junk T False"

definition shell_adv_mv :: "nat \<Rightarrow> os_consts \<Rightarrow> nat \<Rightarrow> cmn_mem \<Rightarrow> (u8 list \<Rightarrow> bool) \<Rightarrow> ('d, 'h, 's) dm_table \<Rightarrow> 's shell_handler" where
  "shell_adv_mv stack k n M junk T = shellh_adv_cp_mv_common stack k n M junk T True"

section \<open>Removing\<close>

definition shellh_rm_one :: "cmn_mem \<Rightarrow> ('d, 'h, 's) dm_table \<Rightarrow> u8 list \<Rightarrow> u8 \<Rightarrow> ui \<times> 's \<Rightarrow> (ui \<times> 's) option" where
  "shellh_rm_one M T path flags w =
     do {
       (ftype, s1) \<leftarrow> cmn_fs_get_type M T (Some path) (snd w);
       (yes, u1) \<leftarrow> (if has flags SHELL_F_ASK_CONFIRMATION then shellh_ask_yes_no None (say (Remove_question path) (fst w)) else Some (True, fst w));
       if \<not> yes then Some (u1, s1)
       else if \<not> has flags SHELL_F_SIMULATE_ONLY \<and> ftype \<noteq> CMN_FS_TYPE_FILE \<and> ftype \<noteq> CMN_FS_TYPE_DIR
       then Some (say (Invalid_argument path) u1, s1)
       else do {
         (r, s2) \<leftarrow> (if has flags SHELL_F_SIMULATE_ONLY then Some (Inr 0, s1)
                     else if ftype = CMN_FS_TYPE_FILE then unlink_r (Some path) T s1 else rmdir (Some path) T s1);
         Some (case r of
                 Inl _ \<Rightarrow> if has flags SHELL_F_SILENT then u1 else say (Unable_to_remove path) u1
               | Inr x \<Rightarrow> if x \<noteq> 0 then if has flags SHELL_F_SILENT then u1 else say (Unable_to_remove path) u1
                           else say (Removed path) u1, s2)
       }
     }"

definition shellh_rm_walkdir_cb :: "cmn_mem \<Rightarrow> ('d, 'h, 's) dm_table \<Rightarrow> u8 \<Rightarrow> (ui, 's) walker_cb" where
  "shellh_rm_walkdir_cb M T flags path pent info w =
     (case info of
        CMN_FS_INFO_INSIDE_READDIR \<Rightarrow>
          do {
            ent \<leftarrow> pent;
            j \<leftarrow> cmn_fs_path_join M [path, dent_fname ent];
            case j of
              None \<Rightarrow> Some (False, say Not_enough_memory (fst w), snd w)
            | Some tmp \<Rightarrow>
                do {
                  (ftype, s1) \<leftarrow> cmn_fs_get_type M T (Some tmp) (snd w);
                  w1 \<leftarrow> (if ftype = CMN_FS_TYPE_FILE then shellh_rm_one M T tmp flags (fst w, s1) else Some (fst w, s1));
                  Some (True, w1)
                }
          }
      | CMN_FS_INFO_OPENDIR_FAILED \<Rightarrow> Some (False, say (Unable_to_read path) (fst w), snd w)
      | CMN_FS_INFO_DIRECTORY_DONE \<Rightarrow>
          if has flags SHELL_F_RECURSIVE \<and> \<not> cmn_fs_is_root_dir (Some path)
          then do { w1 \<leftarrow> shellh_rm_one M T path (flags OR SHELL_F_SILENT) w; Some (True, w1) }
          else Some (True, w)
      | _ \<Rightarrow> Some (True, w))"

fun rm_options :: "u8 list list \<Rightarrow> u8 \<Rightarrow> u8 list option \<Rightarrow> ui \<Rightarrow> u8 \<times> u8 list option \<times> ui" where
  "rm_options [] flags fmask u = (flags, fmask, u)"
| "rm_options (a # as) flags fmask u =
     (if firstchar a = slash
      then if fmask = None then rm_options as flags (Some a) u else rm_options as flags fmask (say (Ignoring_argument a) u)
      else if a = [0x2D, 0x52] then rm_options as (flags OR SHELL_F_RECURSIVE) fmask u
      else if a = [0x2D, 0x63] then rm_options as (flags OR SHELL_F_ASK_CONFIRMATION) fmask u
      else if a = [0x2D, 0x73] then rm_options as (flags OR SHELL_F_SIMULATE_ONLY) fmask u
      else rm_options as flags fmask (say (Ignoring_argument a) u))"

text \<open>The callback reads the first byte of the flags, which are an unsigned integer: on a processor with the most significant byte
  first, \<open>be\<close>, that is zero.\<close>

definition rm_cb_flags :: "bool \<Rightarrow> u8 \<Rightarrow> u8" where
  "rm_cb_flags be flags = (if be then 0 else flags)"

definition shell_adv_rm :: "bool \<Rightarrow> nat \<Rightarrow> cmn_mem \<Rightarrow> (u8 list \<Rightarrow> bool) \<Rightarrow> ('d, 'h, 's) dm_table \<Rightarrow> 's shell_handler" where
  "shell_adv_rm be stack M junk T argv w =
     (if length argv < 2 then Some (say (Usage [0x72, 0x6D]) (fst w), snd w)
      else (case rm_options (tl argv) 0 None (fst w) of
              (_, None, u1) \<Rightarrow> Some (say No_target u1, snd w)
            | (flags, Some fmask, u1) \<Rightarrow>
                do {
                  (masktype, s1) \<leftarrow> cmn_fs_get_type M T (Some fmask) (snd w);
                  if masktype = CMN_FS_TYPE_FILE then shellh_rm_one M T fmask flags (u1, s1)
                  else if masktype \<in> {CMN_FS_TYPE_ERROR, CMN_FS_TYPE_FILE_NOT_FOUND, CMN_FS_TYPE_DIR_NOT_FOUND, CMN_FS_TYPE_UNKNOWN_NOT_FOUND}
                  then Some (say (Invalid_target fmask) u1, s1)
                  else if masktype = CMN_FS_TYPE_DIR \<and> \<not> has flags SHELL_F_RECURSIVE then Some (say (Use_recursive fmask) u1, s1)
                  else do {
                    (_, w1) \<leftarrow> cmn_fs_walkdir stack M junk T (shellh_rm_walkdir_cb M T (rm_cb_flags be flags)) (has flags SHELL_F_RECURSIVE) (Some fmask) (u1, s1);
                    Some w1
                  }
                }))"

section \<open>Listing\<close>

record SHELL_LS_STATE =
  ls_dir_total :: u32
  ls_total :: u32
  ls_ndirs :: u8

definition shellh_ls_walkdir_cb :: "(SHELL_LS_STATE \<times> ui, 's) walker_cb" where
  "shellh_ls_walkdir_cb path pent info w =
     (let ps = fst (fst w); u = snd (fst w)
      in case info of
           CMN_FS_INFO_BEFORE_READDIR \<Rightarrow>
             Some (True, (ps\<lparr>ls_dir_total := 0, ls_ndirs := (if ls_ndirs ps \<noteq> 0xFF then ls_ndirs ps + 1 else ls_ndirs ps)\<rparr>, say (Ls_dir path) u), snd w)
         | CMN_FS_INFO_INSIDE_READDIR \<Rightarrow>
             do {
               ent \<leftarrow> pent;
               Some (True, if DM_DIRENT_IS_DIR ent then (ps, say (Ls_subdir (dent_fname ent)) u)
                           else (ps\<lparr>ls_dir_total := ls_dir_total ps + dent_fsize ent\<rparr>, say (Ls_file (dent_fname ent) (dent_fsize ent)) u), snd w)
             }
         | CMN_FS_INFO_AFTER_CLOSEDIR \<Rightarrow>
             Some (True, (ps\<lparr>ls_total := ls_total ps + ls_dir_total ps\<rparr>, say (Ls_dir_total path (ls_dir_total ps)) u), snd w)
         | CMN_FS_INFO_OPENDIR_FAILED \<Rightarrow> Some (True, (ps, say (Unable_to_open path) u), snd w)
         | _ \<Rightarrow> Some (True, w))"

fun ls_options :: "u8 list list \<Rightarrow> bool \<Rightarrow> u8 list option \<Rightarrow> ui \<Rightarrow> bool \<times> u8 list option \<times> ui" where
  "ls_options [] rec pname u = (rec, pname, u)"
| "ls_options (a # as) rec pname u =
     (if a = [0x2D, 0x52] then ls_options as True pname u
      else if firstchar a = slash \<and> pname = None then ls_options as rec (Some a) u
      else ls_options as rec pname (say (Ignoring_argument a) u))"

text \<open>One device; \<open>pname\<close> is the path that was asked for.\<close>

definition ls_device :: "nat \<Rightarrow> cmn_mem \<Rightarrow> (u8 list \<Rightarrow> bool) \<Rightarrow> ('d, 'h, 's) dm_table \<Rightarrow> bool \<Rightarrow> u8 list option \<Rightarrow>
    ('d, 'h, 's) DM_INSTANCE_DATA \<Rightarrow> ui \<times> 's \<Rightarrow> (ui \<times> 's) option" where
  "ls_device stack M junk T rec pname pinst w =
     (let dev = dm_pdev pinst; crtname = (case pname of None \<Rightarrow> dm_name pinst | Some p \<Rightarrow> p)
      in if p_opendir_r dev = None \<or> p_readdir_r dev = None \<or> p_closedir_r dev = None then Some w
         else if pname \<noteq> None \<and> take (length (dm_name pinst)) crtname \<noteq> dm_name pinst then Some w
         else do {
           (_, (st, u1), s1) \<leftarrow> cmn_fs_walkdir stack M junk T shellh_ls_walkdir_cb rec (Some crtname)
                                ((\<lparr>ls_dir_total = 0, ls_total = 0, ls_ndirs = 0\<rparr>, fst w), snd w);
           Some (if rec \<and> ls_ndirs st > 1 then say (Ls_total crtname (ls_total st)) u1 else u1, s1)
         })"

fun ls_devices :: "nat \<Rightarrow> cmn_mem \<Rightarrow> (u8 list \<Rightarrow> bool) \<Rightarrow> ('d, 'h, 's) dm_table \<Rightarrow> bool \<Rightarrow> u8 list option \<Rightarrow>
    ('d, 'h, 's) DM_INSTANCE_DATA list \<Rightarrow> ui \<times> 's \<Rightarrow> (ui \<times> 's) option" where
  "ls_devices stack M junk T rec pname [] w = Some w"
| "ls_devices stack M junk T rec pname (d # ds) w = do { w1 \<leftarrow> ls_device stack M junk T rec pname d w; ls_devices stack M junk T rec pname ds w1 }"

definition shell_ls :: "nat \<Rightarrow> cmn_mem \<Rightarrow> (u8 list \<Rightarrow> bool) \<Rightarrow> ('d, 'h, 's) dm_table \<Rightarrow> 's shell_handler" where
  "shell_ls stack M junk T argv w =
     (case ls_options (tl argv) False None (fst w) of (rec, pname, u1) \<Rightarrow> ls_devices stack M junk T rec pname T (u1, snd w))"

section \<open>Directories\<close>

definition shell_mkdir :: "('d, 'h, 's) dm_table \<Rightarrow> 's shell_handler" where
  "shell_mkdir T argv w =
     (case argv of
        [_, path] \<Rightarrow>
          do {
            (r, s1) \<leftarrow> mkdir_r (Some path) 0 T (snd w);
            Some (say (Mkdir_done path) (case r of Inr 0 \<Rightarrow> fst w | _ \<Rightarrow> say (Mkdir_error path) (fst w)), s1)
          }
      | _ \<Rightarrow> Some (say (Usage [0x6D, 0x6B, 0x64, 0x69, 0x72]) (fst w), snd w))"

section \<open>Receiving\<close>

text \<open>The loop of \<open>shell_recv\<close> (\<open>src/src/shell/shell_recv.c\<close>) that drops the padding of the last packet of a transfer, from the
  last byte \<open>buf[p - 1]\<close> down: before the first byte it reads outside of the buffer.\<close>

fun recv_strip :: "u8 list \<Rightarrow> nat \<Rightarrow> u8 list option" where
  "recv_strip buf 0 = None"
| "recv_strip buf (Suc q) = (if buf ! q = 0x1A then recv_strip buf q else Some (take (Suc q) buf))"

lemma recv_strip_padding:
  "recv_strip (xs @ replicate k 0x1A @ zs) (length xs + k) = recv_strip (xs @ replicate k 0x1A @ zs) (length xs)"
proof (induction k arbitrary: zs)
  case (Suc k)
  have "xs @ replicate (Suc k) 0x1A @ zs = xs @ replicate k 0x1A @ 0x1A # zs" by (simp add: replicate_app_Cons_same)
  then show ?case using Suc [of "0x1A # zs"] by (simp add: nth_append del: replicate.simps)
qed simp

lemma recv_strip_data: "xs \<noteq> [] \<Longrightarrow> last xs \<noteq> 0x1A \<Longrightarrow> recv_strip (xs @ replicate k 0x1A) (length xs + k) = Some xs"
  using recv_strip_padding [of xs k "[]"] by (cases xs rule: rev_cases) simp_all

lemma recv_strip_only_padding: "recv_strip (replicate k 0x1A) k = None"
  using recv_strip_padding [of "[]" k "[]"] by simp

end
