(* ===== verification/Shell_Files.thy ===== *)
theory Shell_Files
  imports Shell_Commands Romfs_Device
begin

text \<open>
  The commands of the shell on the file systems of the board: listing a file system, and copying a file from one to
  another.
\<close>

section \<open>Directories without subdirectories\<close>

text \<open>What the walker relies on in a directory: \<open>idle\<close> states are those in which it can be opened, \<open>at d rest\<close> those in which it is
  open and \<open>rest\<close> are the entries that are still to come.\<close>

locale flat_dir =
  fixes M :: cmn_mem and T :: "('d, 'h, 's) dm_table" and path :: "u8 list" and es :: "dm_dirent list"
    and idle :: "'s \<Rightarrow> bool" and at_entry :: "'h DM_DIR \<Rightarrow> dm_dirent list \<Rightarrow> 's \<Rightarrow> bool"
  assumes opens: "idle s \<Longrightarrow> \<exists>d s1. dm_opendir (mem_dir M) path T s = Some (Inr d, s1) \<and> at_entry d es s1"
    and reads: "at_entry d (e # rest) s \<Longrightarrow> \<exists>s1. dm_readdir d T s = Some (Inr e, s1) \<and> at_entry d rest s1"
    and ends: "at_entry d [] s \<Longrightarrow> \<exists>x s1. dm_readdir d T s = Some (Inl x, s1) \<and> at_entry d [] s1"
    and closes: "at_entry d rest s \<Longrightarrow> \<exists>x s1. dm_closedir d T s = Some (x, s1) \<and> idle s1"
    and files: "e \<in> set es \<Longrightarrow> \<not> DM_DIRENT_IS_DIR e"
begin

text \<open>A callback that never stops and leaves the files alone: \<open>fi\<close> for the entries, \<open>fo\<close> for the other calls.\<close>

lemma walk_files_all:
  assumes cb: "\<And>e c s. cb path (Some e) CMN_FS_INFO_INSIDE_READDIR (c, s) = Some (True, fi e c, s)"
  shows "at_entry d rest s \<Longrightarrow> set rest \<subseteq> set es \<Longrightarrow>
    \<exists>s1. walk_files T cb path pattern d hasdirs (c, s)
      = Some (Some hasdirs, fold fi (filter (\<lambda>e. cmn_pattern_matches (dent_fname e) pattern) rest) c, s1) \<and> at_entry d [] s1"
proof (induction rest arbitrary: c s)
  case Nil
  then show ?case using ends [OF Nil(1)] by (subst walk_files.simps) auto
next
  case (Cons e rest)
  obtain s1 where s1: "dm_readdir d T s = Some (Inr e, s1)" "at_entry d rest s1" using reads [OF Cons.prems(1)] by blast
  have e: "\<not> DM_DIRENT_IS_DIR e" using files Cons.prems(2) by simp
  let ?c = "if cmn_pattern_matches (dent_fname e) pattern then fi e c else c"
  have "walk_files T cb path pattern d hasdirs (c, s) = walk_files T cb path pattern d hasdirs (?c, s1)"
    by (subst walk_files.simps) (simp add: s1(1) cb e)
  with Cons.IH [OF s1(2), of ?c] Cons.prems(2) show ?case by auto
qed

lemma walk_dirs_none:
  "at_entry d rest s \<Longrightarrow> set rest \<subseteq> set es \<Longrightarrow> \<exists>s1. walk_dirs M T cb walk path d (c, s) = Some (True, c, s1) \<and> at_entry d [] s1"
proof (induction rest arbitrary: s)
  case Nil
  then show ?case using ends [OF Nil(1)] by (subst walk_dirs.simps) auto
next
  case (Cons e rest)
  obtain s1 where s1: "dm_readdir d T s = Some (Inr e, s1)" "at_entry d rest s1" using reads [OF Cons.prems(1)] by blast
  have e: "\<not> DM_DIRENT_IS_DIR e" using files Cons.prems(2) by simp
  have "walk_dirs M T cb walk path d (c, s) = walk_dirs M T cb walk path d (c, s1)"
    by (subst walk_dirs.simps) (simp add: s1(1) e)
  with Cons.IH [OF s1(2)] Cons.prems(2) show ?case by auto
qed

lemma walk_down_none:
  assumes "idle s"
  shows "\<exists>s1. walk_down M T cb walk path (c, s) = Some (True, c, s1) \<and> idle s1"
proof -
  obtain d s1 where s1: "dm_opendir (mem_dir M) path T s = Some (Inr d, s1)" "at_entry d es s1" using opens [OF assms] by blast
  obtain s2 where s2: "walk_dirs M T cb walk path d (c, s1) = Some (True, c, s2)" "at_entry d [] s2" using walk_dirs_none [OF s1(2) subset_refl, of cb walk c] by blast
  obtain x s3 where "dm_closedir d T s2 = Some (x, s3)" "idle s3" using closes [OF s2(2)] by blast
  with s1(1) s2(1) show ?thesis by (simp add: walk_down_def walk_close_def)
qed

lemma walk_all:
  assumes "idle s" "\<And>e c s. cb path (Some e) CMN_FS_INFO_INSIDE_READDIR (c, s) = Some (True, fi e c, s)"
    "\<And>i c s. i \<noteq> CMN_FS_INFO_INSIDE_READDIR \<Longrightarrow> cb path None i (c, s) = Some (True, fo i c, s)"
  shows "\<exists>s1. cmn_fs_actual_walkdir (Suc stack) M junk T cb pattern recursive path (c, s) =
      Some (True, fo CMN_FS_INFO_DIRECTORY_DONE (fo CMN_FS_INFO_AFTER_CLOSEDIR
        (fold fi (filter (\<lambda>e. cmn_pattern_matches (dent_fname e) pattern) es) (fo CMN_FS_INFO_BEFORE_READDIR c))), s1) \<and> idle s1"
proof -
  let ?c1 = "fo CMN_FS_INFO_BEFORE_READDIR c"
  let ?c2 = "fold fi (filter (\<lambda>e. cmn_pattern_matches (dent_fname e) pattern) es) ?c1"
  let ?c3 = "fo CMN_FS_INFO_AFTER_CLOSEDIR ?c2"
  obtain d s1 where s1: "dm_opendir (mem_dir M) path T s = Some (Inr d, s1)" "at_entry d es s1" using opens [OF assms(1)] by blast
  obtain s2 where s2: "walk_files T cb path pattern d (junk path) (?c1, s1) = Some (Some (junk path), ?c2, s2)" "at_entry d [] s2"
    using walk_files_all [where cb = cb and fi = fi, OF assms(2) s1(2) subset_refl] by blast
  obtain x s3 where s3: "dm_closedir d T s2 = Some (x, s3)" "idle s3" using closes [OF s2(2)] by blast
  let ?walk = "cmn_fs_actual_walkdir stack M junk T cb pattern True"
  obtain s4 where s4: "(if recursive \<and> junk path then walk_down M T cb ?walk path (?c3, s3) else Some (True, ?c3, s3)) = Some (True, ?c3, s4)" "idle s4"
    using walk_down_none [OF s3(2), of cb ?walk ?c3] s3(2) by (cases "recursive \<and> junk path") auto
  show ?thesis
    using s4 by (auto simp: s1(1) s2(1) walk_close_def s3(1) assms(3) split: if_splits)
qed

end

section \<open>The file systems of the board as directories\<close>

definition same_files :: "romfs_sys \<Rightarrow> romfs_sys \<Rightarrow> bool" where
  "same_files s s0 \<longleftrightarrow> sys_inst s = sys_inst s0 \<and> sys_fds s = sys_fds s0"

definition rom_dev :: "(nat, unit, romfs_sys) dm_table \<Rightarrow> nat \<Rightarrow> os_consts \<Rightarrow> u8 list \<Rightarrow> bool" where
  "rom_dev T i k nm \<longleftrightarrow> i < length T \<and> dm_pdev (T ! i) = romfs_device k \<and> dm_device_id_from_name nm T = Some (i, [])"

definition rom_idle :: "cmn_mem \<Rightarrow> (nat, unit, romfs_sys) dm_table \<Rightarrow> nat \<Rightarrow> os_consts \<Rightarrow> u8 list \<Rightarrow> rom_file list \<Rightarrow> romfs_sys \<Rightarrow> romfs_sys \<Rightarrow> bool" where
  "rom_idle M T i k nm fs s0 s \<longleftrightarrow> mem_dir M \<and> rom_dev T i k nm \<and> same_files s s0 \<and>
     romfs_listing (Suc (length fs)) (sys_inst s0 (dm_pdata (T ! i))) 0 = Some (map dirent_of (filter (\<lambda>f. \<not> f_deleted f) fs))"

definition rom_at :: "cmn_mem \<Rightarrow> (nat, unit, romfs_sys) dm_table \<Rightarrow> nat \<Rightarrow> os_consts \<Rightarrow> u8 list \<Rightarrow> rom_file list \<Rightarrow> romfs_sys \<Rightarrow>
    unit DM_DIR \<Rightarrow> dm_dirent list \<Rightarrow> romfs_sys \<Rightarrow> bool" where
  "rom_at M T i k nm fs s0 d rest s \<longleftrightarrow> rom_idle M T i k nm fs s0 s \<and> dir_devid d = i \<and>
     (\<exists>n. romfs_listing n (sys_inst s0 (dm_pdata (T ! i))) (sys_dir s) = Some rest)"

lemma rom_idle_dir: "rom_idle M T i k nm fs s0 (s\<lparr>sys_dir := x\<rparr>) \<longleftrightarrow> rom_idle M T i k nm fs s0 s"
  by (simp add: rom_idle_def same_files_def)

lemma romfs_listing_Cons:
  assumes "romfs_listing n pfs off = Some (e # rest)"
  obtains m off' where "romfs_readdir_r pfs off = Some (Some (e, off'))" "romfs_listing m pfs off' = Some rest"
  using assms by (cases n) (auto split: bind_split_asm option.split_asm)

lemma romfs_listing_Nil: "romfs_listing n pfs off = Some [] \<Longrightarrow> romfs_readdir_r pfs off = Some None"
  by (cases n) (auto split: bind_split_asm option.split_asm)

interpretation romdir: flat_dir M T nm "map dirent_of (filter (\<lambda>f. \<not> f_deleted f) fs)" "rom_idle M T i k nm fs s0" "rom_at M T i k nm fs s0"
  for M T nm fs i k s0
proof
  fix s assume idle: "rom_idle M T i k nm fs s0 s"
  then have "dm_opendir (mem_dir M) nm T s = Some (Inr \<lparr>dir_devid = i, dir_userdata = ()\<rparr>, s\<lparr>sys_dir := 0\<rparr>)"
    by (simp add: rom_idle_def rom_dev_def dm_opendir_def romfs_device_def dev_opendir_def romfs_opendir_r_def)
  moreover have "rom_at M T i k nm fs s0 \<lparr>dir_devid = i, dir_userdata = ()\<rparr> (map dirent_of (filter (\<lambda>f. \<not> f_deleted f) fs)) (s\<lparr>sys_dir := 0\<rparr>)"
    using idle unfolding rom_at_def rom_idle_dir by (simp add: rom_idle_def exI [of _ "Suc (length fs)"] del: romfs_listing.simps)
  ultimately show "\<exists>d s1. dm_opendir (mem_dir M) nm T s = Some (Inr d, s1) \<and>
      rom_at M T i k nm fs s0 d (map dirent_of (filter (\<lambda>f. \<not> f_deleted f) fs)) s1" by blast
next
  fix d e rest s assume at: "rom_at M T i k nm fs s0 d (e # rest) s"
  then obtain n where "romfs_listing n (sys_inst s (dm_pdata (T ! i))) (sys_dir s) = Some (e # rest)"
    by (auto simp: rom_at_def rom_idle_def same_files_def)
  then obtain m off where "romfs_readdir_r (sys_inst s (dm_pdata (T ! i))) (sys_dir s) = Some (Some (e, off))"
    "romfs_listing m (sys_inst s (dm_pdata (T ! i))) off = Some rest" by (rule romfs_listing_Cons)
  moreover from this(1) have "dm_readdir d T s = Some (Inr e, s\<lparr>sys_dir := off\<rparr>)"
    using at by (simp add: rom_at_def rom_idle_def rom_dev_def dm_readdir_def romfs_device_def dev_readdir_def)
  ultimately show "\<exists>s1. dm_readdir d T s = Some (Inr e, s1) \<and> rom_at M T i k nm fs s0 d rest s1"
    using at by (auto simp: rom_at_def rom_idle_dir) (auto simp: rom_idle_def same_files_def)
next
  fix d s assume at: "rom_at M T i k nm fs s0 d [] s"
  then have "romfs_readdir_r (sys_inst s (dm_pdata (T ! i))) (sys_dir s) = Some None"
    by (auto simp: rom_at_def rom_idle_def same_files_def dest: romfs_listing_Nil)
  then have "dm_readdir d T s = Some (Inl None, s)"
    using at by (simp add: rom_at_def rom_idle_def rom_dev_def dm_readdir_def romfs_device_def dev_readdir_def)
  with at show "\<exists>x s1. dm_readdir d T s = Some (Inl x, s1) \<and> rom_at M T i k nm fs s0 d [] s1" by blast
next
  fix d rest s assume at: "rom_at M T i k nm fs s0 d rest s"
  then have "dm_closedir d T s = Some (Inr 0, s\<lparr>sys_dir := romfs_closedir_r (sys_dir s)\<rparr>)"
    by (simp add: rom_at_def rom_idle_def rom_dev_def dm_closedir_def romfs_device_def dev_closedir_def)
  with at show "\<exists>x s1. dm_closedir d T s = Some (x, s1) \<and> rom_idle M T i k nm fs s0 s1" by (auto simp: rom_at_def rom_idle_dir)
next
  fix e assume "e \<in> set (map dirent_of (filter (\<lambda>f. \<not> f_deleted f) fs))"
  then show "\<not> DM_DIRENT_IS_DIR e" by (auto simp: dirent_of_def DM_DIRENT_IS_DIR_def)
qed

section \<open>Listing\<close>

text \<open>A path that \<open>ls\<close> takes for the device \<open>nm\<close>: its name, or its name and a pattern.\<close>

definition ls_path :: "u8 list \<Rightarrow> u8 list \<Rightarrow> u8 list \<Rightarrow> bool" where
  "ls_path nm pat p \<longleftrightarrow> (p = nm \<and> pat = [star]) \<or> (p = nm @ slash # pat \<and> slash \<notin> set pat \<and> (star \<in> set pat \<or> quest \<in> set pat))"

lemma strchr_none: "strchr xs c = None \<longleftrightarrow> c \<notin> set xs"
  by (rule strchr_None_iff)

lemma until_char:
  assumes "c \<notin> set xs"
  shows "takeWhile (\<lambda>x. x \<noteq> c) (xs @ c # ys) = xs" "dropWhile (\<lambda>x. x \<noteq> c) (xs @ c # ys) = c # ys"
  using assms by (induction xs) auto

lemma split_ls_path:
  assumes "ls_path nm pat p" "2 \<le> length nm" "hd nm = slash" "slash \<notin> set (tl nm)" "\<And>n. mem_str M n"
  shows "cmn_fs_split_path M T (Some p) s = Some ((Some nm, Some pat), s)"
proof (cases "p = nm \<and> pat = [star]")
  case True
  then show ?thesis using assms by (simp add: cmn_fs_split_path_def strchr_none cmn_strdup_def)
next
  case False
  then have p: "p = nm @ slash # pat" "slash \<notin> set pat" "star \<in> set pat \<or> quest \<in> set pat" using assms(1) by (auto simp: ls_path_def)
  then have ne: "pat \<noteq> []" "nm \<noteq> []" using assms(2) by auto
  have "takeWhile (\<lambda>c. c \<noteq> slash) (rev p) = rev pat" "dropWhile (\<lambda>c. c \<noteq> slash) (rev p) = slash # rev nm"
    using p(1,2) until_char [of slash "rev pat" "rev nm"] by simp_all
  then have parts: "dir_part p = nm" "file_part p = pat" by (simp_all add: dir_part_def file_part_def)
  have "List.last p \<noteq> slash" using p(1,2) ne(1) by (metis last.simps last_appendR last_in_set list.distinct(1))
  moreover have "slash \<in> set (tl p)" "length p \<ge> 2" "hd p = slash" "star \<in> set p \<or> quest \<in> set p" using p ne assms(2,3) by auto
  ultimately show ?thesis using parts assms(5) by (simp add: cmn_fs_split_path_def strchr_none cmn_strdup_def)
qed

text \<open>The callback of \<open>ls\<close> as functions on its state.\<close>

definition ls_file :: "dm_dirent \<Rightarrow> SHELL_LS_STATE \<times> ui \<Rightarrow> SHELL_LS_STATE \<times> ui" where
  "ls_file e c = (if DM_DIRENT_IS_DIR e then (fst c, say (Ls_subdir (dent_fname e)) (snd c))
     else ((fst c)\<lparr>ls_dir_total := ls_dir_total (fst c) + dent_fsize e\<rparr>, say (Ls_file (dent_fname e) (dent_fsize e)) (snd c)))"

fun ls_other :: "u8 list \<Rightarrow> cmn_info \<Rightarrow> SHELL_LS_STATE \<times> ui \<Rightarrow> SHELL_LS_STATE \<times> ui" where
  "ls_other p CMN_FS_INFO_BEFORE_READDIR (ps, u) =
     (ps\<lparr>ls_dir_total := 0, ls_ndirs := (if ls_ndirs ps \<noteq> 0xFF then ls_ndirs ps + 1 else ls_ndirs ps)\<rparr>, say (Ls_dir p) u)"
| "ls_other p CMN_FS_INFO_AFTER_CLOSEDIR (ps, u) = (ps\<lparr>ls_total := ls_total ps + ls_dir_total ps\<rparr>, say (Ls_dir_total p (ls_dir_total ps)) u)"
| "ls_other p CMN_FS_INFO_OPENDIR_FAILED (ps, u) = (ps, say (Unable_to_open p) u)"
| "ls_other p _ c = c"

lemma ls_cb:
  "shellh_ls_walkdir_cb p (Some e) CMN_FS_INFO_INSIDE_READDIR (c, s) = Some (True, ls_file e c, s)"
  "i \<noteq> CMN_FS_INFO_INSIDE_READDIR \<Longrightarrow> shellh_ls_walkdir_cb p None i (c, s) = Some (True, ls_other p i c, s)"
  by (cases c; cases i; simp add: shellh_ls_walkdir_cb_def ls_file_def Let_def)+

lemma fold_ls_file:
  assumes "\<forall>e \<in> set es. \<not> DM_DIRENT_IS_DIR e"
  shows "fold ls_file es (ps, u) = (ps\<lparr>ls_dir_total := ls_dir_total ps + sum_list (map dent_fsize es)\<rparr>,
    u\<lparr>ui_out := ui_out u @ map (\<lambda>e. Ls_file (dent_fname e) (dent_fsize e)) es\<rparr>)"
  using assms by (induction es arbitrary: ps u) (simp_all add: ls_file_def say_def add.assoc)

definition ls_output :: "u8 list \<Rightarrow> u8 list \<Rightarrow> rom_file list \<Rightarrow> shell_msg list" where
  "ls_output nm pat fs =
     (let shown = filter (\<lambda>f. \<not> f_deleted f \<and> cmn_pattern_matches (f_name f) pat) fs
      in [Ls_dir nm] @ map (\<lambda>f. Ls_file (f_name f) (word_of_nat (length (f_data f)))) shown @
         [Ls_dir_total nm (word_of_nat (sum_list (map (length \<circ> f_data) shown)))])"

lemma filter_dirents:
  "filter (\<lambda>e. cmn_pattern_matches (dent_fname e) pat) (map dirent_of (filter (\<lambda>f. \<not> f_deleted f) fs))
    = map dirent_of (filter (\<lambda>f. \<not> f_deleted f \<and> cmn_pattern_matches (f_name f) pat) fs)"
  by (induction fs) (auto simp: dirent_of_def)

lemma sum_dirents: "sum_list (map dent_fsize (map dirent_of fs)) = word_of_nat (sum_list (map (length \<circ> f_data) fs))"
  by (induction fs) (simp_all add: dirent_of_def)

lemma ls_device_rom:
  assumes "rom_idle M T i k nm fs s s" "ls_path nm pat p" "2 \<le> length nm" "hd nm = slash" "slash \<notin> set (tl nm)" "\<And>n. mem_str M n"
    "dm_name (T ! i) = nm"
  shows "\<exists>s1. ls_device (Suc stack) M junk T rec (Some p) (T ! i) (u, s) = Some (u\<lparr>ui_out := ui_out u @ ls_output nm pat fs\<rparr>, s1) \<and>
    rom_idle M T i k nm fs s s1"
proof -
  let ?shown = "filter (\<lambda>f. \<not> f_deleted f \<and> cmn_pattern_matches (f_name f) pat) fs"
  let ?c = "(\<lparr>ls_dir_total = 0, ls_total = 0, ls_ndirs = 0\<rparr>, u)"
  have nodirs: "\<forall>e \<in> set (map dirent_of ?shown). \<not> DM_DIRENT_IS_DIR e" by (auto simp: dirent_of_def DM_DIRENT_IS_DIR_def)
  obtain s1 where s1: "cmn_fs_actual_walkdir (Suc stack) M junk T shellh_ls_walkdir_cb pat rec nm (?c, s) =
      Some (True, ls_other nm CMN_FS_INFO_DIRECTORY_DONE (ls_other nm CMN_FS_INFO_AFTER_CLOSEDIR
        (fold ls_file (map dirent_of ?shown) (ls_other nm CMN_FS_INFO_BEFORE_READDIR ?c))), s1)" "rom_idle M T i k nm fs s s1"
    using romdir.walk_all [where cb = shellh_ls_walkdir_cb and fi = ls_file and fo = "ls_other nm" and c = ?c and stack = stack and junk = junk
        and pattern = pat and recursive = rec, OF assms(1) ls_cb]
    unfolding filter_dirents by blast
  have "cmn_fs_walkdir (Suc stack) M junk T shellh_ls_walkdir_cb rec (Some p) (?c, s)
      = Some (True, (\<lparr>ls_dir_total = word_of_nat (sum_list (map (length \<circ> f_data) ?shown)), ls_total = word_of_nat (sum_list (map (length \<circ> f_data) ?shown)),
          ls_ndirs = 1\<rparr>, u\<lparr>ui_out := ui_out u @ ls_output nm pat fs\<rparr>), s1)"
    using s1(1) sum_dirents [of ?shown]
    by (simp add: cmn_fs_walkdir_def split_ls_path [OF assms(2-6)] fold_ls_file [OF nodirs] say_def ls_output_def Let_def dirent_of_def comp_def
        del: cmn_fs_actual_walkdir.simps)
  moreover have "take (length nm) p = nm" using assms(2) by (auto simp: ls_path_def)
  moreover have "dm_pdev (T ! i) = romfs_device k" using assms(1) by (simp add: rom_idle_def rom_dev_def)
  ultimately show ?thesis using s1(2) assms(7) by (simp add: ls_device_def romfs_device_def)
qed

lemma dm_device_id_self:
  assumes "dm_inv T" "i < length T"
  shows "dm_device_id_from_name (dm_name (T ! i)) T = Some (i, [])"
proof -
  have self: "dm_prefix (dm_name (T ! i)) (T ! i)" by (simp add: dm_prefix_def strncaseeq_def)
  have "length (dm_name (T ! j)) < length (dm_name (T ! i))" if "j < length T" "j \<noteq> i" "dm_prefix (dm_name (T ! i)) (T ! j)" for j
  proof -
    have "length (dm_name (T ! j)) \<le> length (dm_name (T ! i))"
      using arg_cong [of _ _ length, OF that(3) [unfolded dm_prefix_def strncaseeq_def]] by simp
    moreover have "\<not> strcaseeq (dm_name (T ! j)) (dm_name (T ! i))"
      using assms that(1,2) nth_eq_iff_index_eq [of "map (\<lambda>e. map tolower (dm_name e)) T" j i] by (auto simp: dm_inv_def strcaseeq_def)
    ultimately show ?thesis using dm_prefix_same_length [OF that(3) self] by linarith
  qed
  then show ?thesis using dm_device_id_longest [OF assms(1), of "dm_name (T ! i)" i "[]"] assms(2) self by simp
qed

lemma ls_devices_skip:
  "\<forall>d \<in> set ds. p_opendir_r (dm_pdev d) = None \<or> take (length (dm_name d)) p \<noteq> dm_name d \<Longrightarrow>
    ls_devices stack M junk T rec (Some p) ds w = Some w"
  by (induction ds) (auto simp: ls_device_def Let_def)

lemma ls_devices_append:
  "ls_devices stack M junk T rec pname (xs @ ys) w = do { w1 \<leftarrow> ls_devices stack M junk T rec pname xs w; ls_devices stack M junk T rec pname ys w1 }"
  by (induction xs arbitrary: w) (simp_all cong: Option.bind_cong)

lemma rom_idle_holds:
  assumes "dm_inv T" "i < length T" "dm_pdev (T ! i) = romfs_device k" "sys_holds s (dm_pdata (T ! i)) fs" "mem_dir M"
  shows "rom_idle M T i k (dm_name (T ! i)) fs s s"
proof -
  obtain e lim where img: "fs_reads (sys_inst s (dm_pdata (T ! i))) lim" "e < lim" "lim + 3 < 2 ^ 32"
    "fs_img (romfsh_is_wofs (sys_inst s (dm_pdata (T ! i)))) (medium (sys_inst s (dm_pdata (T ! i)))) 0 fs e"
    using assms(4) by (auto simp: sys_holds_def)
  then have "romfs_listing (Suc (length fs)) (sys_inst s (dm_pdata (T ! i))) (word_of_nat 0) = Some (map dirent_of (filter (\<lambda>f. \<not> f_deleted f) fs))"
    by (intro romfs_listing_eq [OF img(1) refl img(2)]) simp_all
  then show ?thesis
    using dm_device_id_self [OF assms(1,2)] assms(2,3,5) by (simp add: rom_idle_def rom_dev_def same_files_def del: romfs_listing.simps)
qed

text \<open>C30. The command \<open>ls\<close> with the name of a file system, or with its name and a pattern, prints exactly the files that are
  not deleted and match, in the order of the image and with their sizes, and the sum of the sizes (modulo
  2^32); it returns and changes no file, whether or not it reads an uninitialised variable.\<close>

theorem ls_lists_files:
  assumes "dm_inv T" and "i < length T" and "dm_pdev (T ! i) = romfs_device k" and "sys_holds s (dm_pdata (T ! i)) fs"
    and "2 \<le> length (dm_name (T ! i))" and "slash \<notin> set (tl (dm_name (T ! i)))" and "ls_path (dm_name (T ! i)) pat p"
    and "\<forall>j < length T. j \<noteq> i \<longrightarrow> p_opendir_r (dm_pdev (T ! j)) = None \<or> take (length (dm_name (T ! j))) p \<noteq> dm_name (T ! j)"
    and "mem_dir M" and "\<forall>n. mem_str M n"
  shows "\<exists>s'. shell_ls (Suc stack) M junk T [name, p] (u, s) = Some (u\<lparr>ui_out := ui_out u @ ls_output (dm_name (T ! i)) pat fs\<rparr>, s') \<and>
    same_files s' s"
proof -
  let ?nm = "dm_name (T ! i)"
  have nm: "hd ?nm = slash" "?nm \<noteq> []" using assms(1,2) by (auto simp: dm_inv_def dm_name_ok_def)
  then have p: "firstchar p = slash" using assms(7) by (auto simp: ls_path_def firstchar_def)
  then have p2: "p \<noteq> [0x2D, 0x52]" by (auto simp: firstchar_def)
  have T: "T = take i T @ T ! i # drop (Suc i) T" using assms(2) by (rule id_take_nth_drop)
  have others: "\<forall>d \<in> set (take i T) \<union> set (drop (Suc i) T). p_opendir_r (dm_pdev d) = None \<or> take (length (dm_name d)) p \<noteq> dm_name d"
  proof
    fix d assume "d \<in> set (take i T) \<union> set (drop (Suc i) T)"
    then obtain j where j: "d = T ! j" "j < length T" "j \<noteq> i"
    proof
      assume "d \<in> set (take i T)"
      then obtain j where "j < length (take i T)" "d = take i T ! j" by (metis in_set_conv_nth)
      then show thesis by (intro that [of j]) simp_all
    next
      assume "d \<in> set (drop (Suc i) T)"
      then obtain j where "j < length (drop (Suc i) T)" "d = drop (Suc i) T ! j" by (metis in_set_conv_nth)
      then show thesis by (intro that [of "Suc i + j"]) simp_all
    qed
    show "p_opendir_r (dm_pdev d) = None \<or> take (length (dm_name d)) p \<noteq> dm_name d" unfolding j(1) by (rule assms(8) [rule_format, OF j(2,3)])
  qed
  obtain s1 where "ls_device (Suc stack) M junk T False (Some p) (T ! i) (u, s) = Some (u\<lparr>ui_out := ui_out u @ ls_output ?nm pat fs\<rparr>, s1)"
    "rom_idle M T i k ?nm fs s s1"
    using ls_device_rom [OF rom_idle_holds [OF assms(1-4,9)] assms(7,5) nm(1) assms(6)] assms(10) by blast
  moreover have "shell_ls (Suc stack) M junk T [name, p] (u, s) = ls_devices (Suc stack) M junk T False (Some p) T (u, s)"
    using p p2 by (simp add: shell_ls_def)
  moreover have "ls_devices (Suc stack) M junk T False (Some p) (take i T @ T ! i # drop (Suc i) T) (u, s)
      = ls_device (Suc stack) M junk T False (Some p) (T ! i) (u, s)"
    using others by (simp add: ls_devices_append ls_devices_skip cong: Option.bind_cong)
  ultimately show ?thesis using T by (auto simp: rom_idle_def)
qed

theorem ls_lists_files_witness:
  "\<exists>s'. shell_ls (Suc 0) \<lparr>mem_str = (\<lambda>_. True), mem_dir = True, mem_file = True\<rparr> (\<lambda>_. True) tiny_table [[0x6C, 0x73], [slash, 0x72, 0x6F, 0x6D, slash, star]]
        (\<lparr>ui_term = \<lparr>term_num_lines = 25, term_num_cols = 80, term_cx = 0, term_cy = 0, term_input = [], term_output = []\<rparr>, ui_out = []\<rparr>, tiny_sys)
      = Some (\<lparr>ui_term = \<lparr>term_num_lines = 25, term_num_cols = 80, term_cx = 0, term_cy = 0, term_input = [], term_output = []\<rparr>,
          ui_out = [Ls_dir [slash, 0x72, 0x6F, 0x6D], Ls_file [0x61] 2, Ls_dir_total [slash, 0x72, 0x6F, 0x6D] 2]\<rparr>, s')"
proof -
  let ?f = "\<lparr>f_name = [0x61], f_data = [7, 8], f_deleted = False\<rparr>"
  have T: "dm_inv tiny_table" "0 < length tiny_table" "dm_pdev (tiny_table ! 0) = romfs_device newlib_consts"
    by (simp_all add: tiny_table_def dm_inv_def dm_name_ok_def DM_MAX_DEVICES_def DM_MAX_DEV_NAME_def)
  have nm: "dm_name (tiny_table ! 0) = [slash, 0x72, 0x6F, 0x6D]" "length tiny_table = 1" by (simp_all add: tiny_table_def)
  have "\<exists>e lim. fs_reads tiny_romfs lim \<and> e < lim \<and> lim + 3 < 2 ^ 32 \<and> fs_img (romfsh_is_wofs tiny_romfs) (medium tiny_romfs) 0 [?f] e"
    by (rule exI [of _ 10], rule exI [of _ 11]) (simp add: tiny_romfs_img(1,2) del: fs_img.simps)
  then have s: "sys_holds tiny_sys (dm_pdata (tiny_table ! 0)) [?f]"
    using romfs_inv_init unfolding sys_holds_def by (simp add: tiny_sys_def romfs_init_fds_def TOTAL_MAX_FDS_def del: fs_img.simps)
  have out: "ls_output [slash, 0x72, 0x6F, 0x6D] [star] [?f] = [Ls_dir [slash, 0x72, 0x6F, 0x6D], Ls_file [0x61] 2, Ls_dir_total [slash, 0x72, 0x6F, 0x6D] 2]"
    by (simp add: ls_output_def)
  show ?thesis
    using ls_lists_files [OF T s, unfolded nm, of "[star]" "[slash, 0x72, 0x6F, 0x6D, slash, star]" "\<lparr>mem_str = (\<lambda>_. True), mem_dir = True, mem_file = True\<rparr>"
        0 "\<lambda>_. True" "[0x6C, 0x73]" "\<lparr>ui_term = \<lparr>term_num_lines = 25, term_num_cols = 80, term_cx = 0, term_cy = 0, term_input = [], term_output = []\<rparr>, ui_out = []\<rparr>"]
    unfolding out by (auto simp: ls_path_def)
qed

section \<open>Copying\<close>

text \<open>What the copy loop relies on: \<open>at_copy xs rest\<close> are the states in which \<open>xs\<close> has been written to the destination and \<open>rest\<close> is
  still to be read from the source; reading and writing in turn leads from one to the next.\<close>

locale copy_pair =
  fixes T :: "('d, 'h, 's) dm_table" and n :: nat and fds fdd :: int and at_copy :: "u8 list \<Rightarrow> u8 list \<Rightarrow> 's \<Rightarrow> bool"
  assumes copy_step: "at_copy xs rest s \<Longrightarrow> \<exists>s1 s2. read_r fds n T s = Some (Inr (take n rest), s1) \<and>
    write_r fdd (take n rest) T s1 = Some (Inr (length (take n rest)), s2) \<and> at_copy (xs @ take n rest) (drop n rest) s2"
begin

lemma copy_all:
  assumes "0 < n"
  shows "at_copy xs rest s \<Longrightarrow> \<exists>s1. cp_loop n T src dst flags fds fdd t (u, s) = Some (Some (t + word_of_nat (length rest)), u, s1) \<and>
    at_copy (xs @ rest) [] s1"
proof (induction "length rest" arbitrary: xs rest s t rule: less_induct)
  case less
  obtain s1 s2 where s: "read_r fds n T s = Some (Inr (take n rest), s1)" "write_r fdd (take n rest) T s1 = Some (Inr (length (take n rest)), s2)"
    "at_copy (xs @ take n rest) (drop n rest) s2" using copy_step [OF less.prems] by blast
  show ?case
  proof (cases "length rest < n")
    case True
    then have "cp_loop n T src dst flags fds fdd t (u, s) = Some (Some (t + word_of_nat (length rest)), u, s2)"
      using s(1,2) by (subst cp_loop.simps) simp
    with s(3) True show ?thesis by simp
  next
    case False
    then have step: "cp_loop n T src dst flags fds fdd t (u, s) = cp_loop n T src dst flags fds fdd (t + word_of_nat n) (u, s2)"
      using s(1,2) by (subst cp_loop.simps) (simp add: min_def)
    have "length (drop n rest) < length rest" using False assms by simp
    from less.hyps [OF this s(3), of "t + word_of_nat n"] obtain s3
      where "cp_loop n T src dst flags fds fdd (t + word_of_nat n) (u, s2) = Some (Some (t + word_of_nat n + word_of_nat (length (drop n rest))), u, s3)"
        "at_copy ((xs @ take n rest) @ drop n rest) [] s3" by blast
    moreover have "(word_of_nat n :: u32) + word_of_nat (length (drop n rest)) = word_of_nat (length rest)"
      using False by (simp flip: of_nat_add)
    ultimately show ?thesis by (simp add: step add.assoc)
  qed
qed

end

lemma open_slot:
  assumes "romfs_open_r k path flags R pfs = Some (Inr fd, R', pfs')"
  shows "fd < length (fd_table R)" "fd_is_empty (fd_table R ! fd)" "\<exists>F. fd_table R' = (fd_table R)[fd := F]" "romfs_num_fd R' = romfs_num_fd R + 1"
proof -
  obtain F where "romfs_install F R = Some (fd, R')"
    using assms by (auto simp: romfs_open_r_def Let_def split: bind_split_asm if_split_asm sum.split_asm open_result.split_asm)
  then show "fd < length (fd_table R)" "fd_is_empty (fd_table R ! fd)" "\<exists>F. fd_table R' = (fd_table R)[fd := F]" "romfs_num_fd R' = romfs_num_fd R + 1"
    by (auto simp: romfs_install_def romfs_find_empty_fd_def find_index_from_Some_iff split: bind_split_asm)
qed

lemma reading_not_empty: "reading pfs lim base data off f \<Longrightarrow> \<not> fd_is_empty f"
proof
  assume r: "reading pfs lim base data off f" and "fd_is_empty f"
  then have "unat (word_of_nat base :: u32) = 0xFFFFFFFF" "unat (word_of_nat (length data) :: u32) = 0xFFFFFFFF" "base + length data < 2 ^ 32"
    by (simp_all add: reading_def fd_is_empty_def)
  moreover from this(3) have "unat (word_of_nat base :: u32) = base" "unat (word_of_nat (length data) :: u32) = length data"
    by (intro unat_of_nat_less; simp)+
  ultimately show False by simp
qed

lemma writing_not_empty: "wofs_writing pfs f m fs e path d \<Longrightarrow> \<not> fd_is_empty f"
proof
  assume w: "wofs_writing pfs f m fs e path d" and "fd_is_empty f"
  then have "unat (word_of_nat (length d) :: u32) = 0xFFFFFFFF" "length d < 2 ^ 31"
    by (simp_all add: wofs_writing_def fd_is_empty_def wofs_ok_def)
  moreover from this(2) have "unat (word_of_nat (length d) :: u32) = length d" by (intro unat_of_nat_less) simp
  ultimately show False by simp
qed

lemma inv_update:
  assumes "romfs_inv R" "fd < length (fd_table R)" "\<not> fd_is_empty (fd_table R ! fd)" "\<not> fd_is_empty f"
  shows "romfs_inv (R\<lparr>fd_table := (fd_table R)[fd := f]\<rparr>)"
  using assms length_filter_update_same [of fd "fd_table R" "\<lambda>f. \<not> fd_is_empty f" f] by (simp add: romfs_inv_def open_fds_def)

lemma inv_close:
  assumes "romfs_inv R" "fd < length (fd_table R)" "\<not> fd_is_empty (fd_table R ! fd)"
  shows "romfs_inv (R\<lparr>fd_table := (fd_table R)[fd := empty_fd], romfs_num_fd := romfs_num_fd R - 1\<rparr>)"
  using assms length_filter_update_less [of fd "fd_table R" "\<lambda>f. \<not> fd_is_empty f" empty_fd] by (simp add: romfs_inv_def open_fds_def)

lemma read_keeps_flags:
  "romfs_read_r fd n R pfs = Some (r, R\<lparr>fd_table := (fd_table R)[fd := f]\<rparr>) \<Longrightarrow> fd < length (fd_table R) \<Longrightarrow> fd_flags f = fd_flags (fd_table R ! fd)"
  by (auto simp: romfs_read_r_def Let_def split: if_split_asm dest!: arg_cong [of _ _ "\<lambda>R. fd_flags (fd_table R ! fd)"])

text \<open>Descriptors of the file systems of the board.\<close>

definition rom_device_at :: "(nat, unit, romfs_sys) dm_table \<Rightarrow> os_consts \<Rightarrow> nat \<Rightarrow> bool" where
  "rom_device_at T k i \<longleftrightarrow> i < length T \<and> dm_pdev (T ! i) = romfs_device k"

lemma rom_calls:
  assumes "rom_device_at T k i" "fd < TOTAL_MAX_FDS"
  shows "read_r (DM_MAKE_DESC i fd) n T s = dev_read fd n (dm_pdata (T ! i)) s"
    "write_r (DM_MAKE_DESC i fd) bs T s = dev_write fd bs (dm_pdata (T ! i)) s"
    "close_r (DM_MAKE_DESC i fd) T s = dev_close fd (dm_pdata (T ! i)) s"
proof -
  have "fd < 2 ^ 11" using assms(2) by (simp add: TOTAL_MAX_FDS_def)
  with assms(1) show "read_r (DM_MAKE_DESC i fd) n T s = dev_read fd n (dm_pdata (T ! i)) s"
    "write_r (DM_MAKE_DESC i fd) bs T s = dev_write fd bs (dm_pdata (T ! i)) s" "close_r (DM_MAKE_DESC i fd) T s = dev_close fd (dm_pdata (T ! i)) s"
    by (simp_all add: rom_device_at_def read_r_def write_r_def close_r_def DM_GET_DEVID_make DM_GET_FD_make dm_get_instance_nth romfs_device_def)
qed

text \<open>The states during a copy from the file system of device \<open>i\<close>, through its descriptor \<open>fd1\<close>, to the write-once file system of
  device \<open>j\<close>, through its descriptor \<open>fd2\<close>. \<open>s0\<close> is the state when the copy began, \<open>lim\<close>, \<open>base\<close> and \<open>m\<close> are where the data are and
  what the destination held.\<close>

record copy_job =
  job_table :: "(nat, unit, romfs_sys) dm_table"
  job_consts :: os_consts
  job_src :: nat
  job_dst :: nat
  job_fds :: nat
  job_fdd :: nat
  job_data :: "u8 list"
  job_lim :: nat
  job_base :: nat
  job_mem :: mem
  job_files :: "rom_file list"
  job_end :: nat
  job_name :: "u8 list"
  job_start :: romfs_sys

abbreviation src_inst :: "copy_job \<Rightarrow> nat" where "src_inst J \<equiv> dm_pdata (job_table J ! job_src J)"
abbreviation dst_inst :: "copy_job \<Rightarrow> nat" where "dst_inst J \<equiv> dm_pdata (job_table J ! job_dst J)"

definition copy_ok :: "copy_job \<Rightarrow> bool" where
  "copy_ok J \<longleftrightarrow> rom_device_at (job_table J) (job_consts J) (job_src J) \<and> rom_device_at (job_table J) (job_consts J) (job_dst J) \<and>
     src_inst J \<noteq> dst_inst J \<and> job_fds J \<noteq> job_fdd J \<and> job_fds J < TOTAL_MAX_FDS \<and> job_fdd J < TOTAL_MAX_FDS \<and>
     new_base (job_end J) (job_name J) + length (job_data J) + 4 \<le> unat (max_size (sys_inst (job_start J) (dst_inst J)))"

definition copy_at :: "copy_job \<Rightarrow> nat \<Rightarrow> u8 list \<Rightarrow> u8 list \<Rightarrow> romfs_sys \<Rightarrow> bool" where
  "copy_at J n xs rest s \<longleftrightarrow> copy_ok J \<and> n < 2 ^ 31 \<and> xs @ rest = job_data J \<and> romfs_inv (sys_fds s) \<and>
     romfs_num_fd (sys_fds s) = romfs_num_fd (sys_fds (job_start J)) + 2 \<and>
     (\<forall>d. d \<noteq> dst_inst J \<longrightarrow> sys_inst s d = sys_inst (job_start J) d) \<and>
     reading (sys_inst s (src_inst J)) (job_lim J) (job_base J) (job_data J) (length xs) (fd_table (sys_fds s) ! job_fds J) \<and>
     \<not> romfs_writing (fd_table (sys_fds s) ! job_fds J) \<and>
     wofs_writing (sys_inst s (dst_inst J)) (fd_table (sys_fds s) ! job_fdd J) (job_mem J) (job_files J) (job_end J) (job_name J) xs \<and>
     max_size (sys_inst s (dst_inst J)) = max_size (sys_inst (job_start J) (dst_inst J))"

lemma copy_read:
  assumes "copy_at J n xs rest s"
  obtains f where "read_r (DM_MAKE_DESC (job_src J) (job_fds J)) n (job_table J) s
      = Some (Inr (take n rest), s\<lparr>sys_fds := (sys_fds s)\<lparr>fd_table := (fd_table (sys_fds s))[job_fds J := f]\<rparr>\<rparr>)"
    "reading (sys_inst s (src_inst J)) (job_lim J) (job_base J) (job_data J) (length xs + length (take n rest)) f" "\<not> romfs_writing f"
proof -
  note c = assms [unfolded copy_at_def copy_ok_def]
  let ?R = "sys_fds s" and ?p = "sys_inst s (src_inst J)"
  have len: "job_fds J < length (fd_table ?R)" using c by (simp add: romfs_inv_def)
  have rest: "drop (length xs) (job_data J) = rest" using c by (metis append_eq_conv_conj)
  have n: "n < 2 ^ 32" using c by simp
  have r: "reading ?p (job_lim J) (job_base J) (job_data J) (length xs) (fd_table ?R ! job_fds J)" using c by blast
  obtain f where f: "romfs_read_r (job_fds J) n ?R ?p = Some (Inr (take n rest), ?R\<lparr>fd_table := (fd_table ?R)[job_fds J := f]\<rparr>)"
    "reading ?p (job_lim J) (job_base J) (job_data J) (length xs + length (take n rest)) f"
    by (rule romfs_read_r_eq [OF len r n, unfolded rest])
  have "\<not> romfs_writing f" using read_keeps_flags [OF f(1) len] c by (simp add: romfs_writing_def)
  with f show thesis using c by (intro that) (simp_all add: rom_calls [of _ "job_consts J"] dev_read_def)
qed

lemma copy_write:
  assumes c: "copy_at J n xs rest s"
    and f: "reading (sys_inst s (src_inst J)) (job_lim J) (job_base J) (job_data J) (length xs + length (take n rest)) f" "\<not> romfs_writing f"
  shows "\<exists>s2. write_r (DM_MAKE_DESC (job_dst J) (job_fdd J)) (take n rest) (job_table J)
        (s\<lparr>sys_fds := (sys_fds s)\<lparr>fd_table := (fd_table (sys_fds s))[job_fds J := f]\<rparr>\<rparr>) = Some (Inr (length (take n rest)), s2) \<and>
      copy_at J n (xs @ take n rest) (drop n rest) s2"
proof -
  note c' = c [unfolded copy_at_def copy_ok_def]
  let ?R = "(sys_fds s)\<lparr>fd_table := (fd_table (sys_fds s))[job_fds J := f]\<rparr>" and ?p = "sys_inst s (dst_inst J)" and ?bs = "take n rest"
  have lens: "job_fds J < length (fd_table (sys_fds s))" "job_fdd J < length (fd_table ?R)" using c' by (simp_all add: romfs_inv_def)
  have w: "wofs_writing ?p (fd_table ?R ! job_fdd J) (job_mem J) (job_files J) (job_end J) (job_name J) xs" using c' by simp
  have inv: "romfs_inv ?R" using c' lens(1) reading_not_empty f(1) by (blast intro: inv_update)
  have room: "take (wofs_room ?p (job_end J) (job_name J) xs) ?bs = ?bs"
  proof (rule take_all)
    have "length xs + length rest = length (job_data J)" using c' by (metis length_append)
    moreover have "new_base (job_end J) (job_name J) + length (job_data J) + 4 \<le> unat (max_size ?p)" using c' by simp
    ultimately show "length ?bs \<le> wofs_room ?p (job_end J) (job_name J) xs" unfolding wofs_room_def by simp
  qed
  have bs: "length ?bs < 2 ^ 31" using c' by (simp add: min_less_iff_disj)
  obtain f2 p2 where w2: "romfs_write_r (job_fdd J) ?bs ?R ?p = Some (Inr (length ?bs), ?R\<lparr>fd_table := (fd_table ?R)[job_fdd J := f2]\<rparr>, p2)"
    "wofs_writing p2 f2 (job_mem J) (job_files J) (job_end J) (job_name J) (xs @ ?bs)" "max_size p2 = max_size ?p"
    using romfs_write_r_eq [OF lens(2) w bs] unfolding room by metis
  have inv2: "romfs_inv (?R\<lparr>fd_table := (fd_table ?R)[job_fdd J := f2]\<rparr>)"
    by (rule inv_update [OF inv lens(2) writing_not_empty [OF w] writing_not_empty [OF w2(2)]])
  let ?s2 = "s\<lparr>sys_fds := ?R\<lparr>fd_table := (fd_table ?R)[job_fdd J := f2]\<rparr>, sys_inst := (sys_inst s)(dst_inst J := p2)\<rparr>"
  have "write_r (DM_MAKE_DESC (job_dst J) (job_fdd J)) ?bs (job_table J) (s\<lparr>sys_fds := ?R\<rparr>) = Some (Inr (length ?bs), ?s2)"
    using c' w2(1) by (simp add: rom_calls [of _ "job_consts J"] dev_write_def)
  moreover have "copy_at J n (xs @ ?bs) (drop n rest) ?s2"
    using c' f inv2 w2(2,3) lens by (simp add: copy_at_def copy_ok_def)
  ultimately show ?thesis by blast
qed

interpretation romcopy: copy_pair "job_table J" n "DM_MAKE_DESC (job_src J) (job_fds J)" "DM_MAKE_DESC (job_dst J) (job_fdd J)" "copy_at J n" for J n
proof
  fix xs rest s assume at: "copy_at J n xs rest s"
  obtain f where "read_r (DM_MAKE_DESC (job_src J) (job_fds J)) n (job_table J) s
      = Some (Inr (take n rest), s\<lparr>sys_fds := (sys_fds s)\<lparr>fd_table := (fd_table (sys_fds s))[job_fds J := f]\<rparr>\<rparr>)"
    "reading (sys_inst s (src_inst J)) (job_lim J) (job_base J) (job_data J) (length xs + length (take n rest)) f" "\<not> romfs_writing f"
    by (rule copy_read [OF at])
  with copy_write [OF at this(2,3)] show "\<exists>s1 s2. read_r (DM_MAKE_DESC (job_src J) (job_fds J)) n (job_table J) s = Some (Inr (take n rest), s1) \<and>
      write_r (DM_MAKE_DESC (job_dst J) (job_fdd J)) (take n rest) (job_table J) s1 = Some (Inr (length (take n rest)), s2) \<and>
      copy_at J n (xs @ take n rest) (drop n rest) s2" by blast
qed


text \<open>The file \<open>f\<close> of device \<open>i\<close>, named \<open>a\<close> there, can be copied to the name \<open>b\<close> of the write-once file system of device \<open>j\<close>, which
  holds \<open>fs\<close>: two descriptors are free and there is room for the name and the data.\<close>

definition cp_ready :: "(nat, unit, romfs_sys) dm_table \<Rightarrow> os_consts \<Rightarrow> nat \<Rightarrow> nat \<Rightarrow> u8 list \<Rightarrow> u8 list \<Rightarrow> rom_file \<Rightarrow> rom_file list \<Rightarrow>
    nat \<Rightarrow> romfs_sys \<Rightarrow> bool" where
  "cp_ready T k i j a b f fs e s \<longleftrightarrow> dm_inv T \<and> rom_device_at T k i \<and> rom_device_at T k j \<and> dm_pdata (T ! i) \<noteq> dm_pdata (T ! j) \<and>
     a \<noteq> [] \<and> b \<noteq> [] \<and> read_flags k (O_RDONLY k) \<and> (\<exists>fs1. sys_holds s (dm_pdata (T ! i)) fs1 \<and> find (name_matches a) fs1 = Some f) \<and>
     romfs_num_fd (sys_fds s) + 2 \<le> int TOTAL_MAX_FDS \<and>
     wofs_can_write (sys_inst s (dm_pdata (T ! j))) fs e (sys_fds s) k (O_WRONLY k OR O_CREAT k OR O_TRUNC k) b \<and>
     wofs_fits (sys_inst s (dm_pdata (T ! j))) e b \<and>
     new_base e b + length (f_data f) + 4 \<le> unat (max_size (sys_inst s (dm_pdata (T ! j))))"

lemma rom_open:
  assumes "dm_inv T" "rom_device_at T k i" "dm_path_of (dm_name (T ! i)) a p" "a \<noteq> []"
    and "romfs_open_r k a flags (sys_fds s) (sys_inst s (dm_pdata (T ! i))) = Some (r, R, pfs)"
  shows "open_r (Some p) flags mode T s =
    Some (map_sum Some (DM_MAKE_DESC i) r, s\<lparr>sys_fds := R, sys_inst := (sys_inst s)(dm_pdata (T ! i) := pfs)\<rparr>)"
proof -
  have "find_dm_entry (Some p) T = Some (i, a)" using assms by (simp add: find_dm_entry_eq rom_device_at_def)
  with assms show ?thesis by (cases r) (simp_all add: open_r_def rom_device_at_def romfs_device_def dev_open_def)
qed

text \<open>The source is open.\<close>

lemma cp_open_source:
  assumes c: "cp_ready T k i j a b f fs e s" and p: "dm_path_of (dm_name (T ! i)) a p"
  obtains fd F lim base R where "open_r (Some p) (O_RDONLY k) 0 T s = Some (Inr (DM_MAKE_DESC i fd), s\<lparr>sys_fds := R\<rparr>)"
    "romfs_inv R" "romfs_num_fd R = romfs_num_fd (sys_fds s) + 1" "fd < TOTAL_MAX_FDS" "fd_table R ! fd = F"
    "reading (sys_inst s (dm_pdata (T ! i))) lim base (f_data f) 0 F" "\<not> romfs_writing F"
proof -
  note c' = c [unfolded cp_ready_def]
  let ?d = "dm_pdata (T ! i)"
  obtain fs1 where fs1: "sys_holds s ?d fs1" "find (name_matches a) fs1 = Some f" using c' by blast
  obtain e1 lim where img: "fs_reads (sys_inst s ?d) lim" "fs_img (romfsh_is_wofs (sys_inst s ?d)) (medium (sys_inst s ?d)) 0 fs1 e1"
    "e1 < lim" "lim + 3 < 2 ^ 32" and inv: "romfs_inv (sys_fds s)" "romfs_num_fd (sys_fds s) \<noteq> int TOTAL_MAX_FDS"
    using fs1(1) by (auto simp: sys_holds_def)
  have fl: "read_flags k (O_RDONLY k)" using c' by blast
  obtain fd R base F where o: "romfs_open_r k a (O_RDONLY k) (sys_fds s) (sys_inst s ?d) = Some (Inr fd, R, sys_inst s ?d)" "romfs_inv R"
    "fd < TOTAL_MAX_FDS" "fd_table R = (fd_table (sys_fds s))[fd := F]" "reading (sys_inst s ?d) lim base (f_data f) 0 F" "fd_flags F = ROMFS_FILE_FLAG_READ"
    by (rule open_reading [OF img inv fl fs1(2)])
  have "open_r (Some p) (O_RDONLY k) 0 T s = Some (Inr (DM_MAKE_DESC i fd), s\<lparr>sys_fds := R\<rparr>)"
    using c' by (subst rom_open [OF _ _ p _ o(1)]) (auto simp: fun_upd_idem)
  moreover have "fd_table R ! fd = F" using o(3,4) inv(1) by (simp add: romfs_inv_def)
  moreover have "\<not> romfs_writing F" using o(6) by (simp add: romfs_writing_def romfs_flags)
  ultimately show thesis using o open_slot(4) [OF o(1)] by (intro that)
qed

text \<open>The destination is open too: the copy can begin.\<close>

lemma cp_open_dest:
  assumes c: "cp_ready T k i j a b f fs e s" and p: "dm_path_of (dm_name (T ! j)) b p"
    and R: "romfs_inv R" "romfs_num_fd R = romfs_num_fd (sys_fds s) + 1" "fds < TOTAL_MAX_FDS" "fd_table R ! fds = F"
    and F: "reading (sys_inst s (dm_pdata (T ! i))) lim base (f_data f) 0 F" "\<not> romfs_writing F" and n: "n < 2 ^ 31"
  obtains fdd s2 m where "open_r (Some p) (O_WRONLY k OR O_CREAT k OR O_TRUNC k) 0 T (s\<lparr>sys_fds := R\<rparr>) = Some (Inr (DM_MAKE_DESC j fdd), s2)"
    "copy_at \<lparr>job_table = T, job_consts = k, job_src = i, job_dst = j, job_fds = fds, job_fdd = fdd, job_data = f_data f, job_lim = lim,
       job_base = base, job_mem = m, job_files = mark_deleted b fs, job_end = e, job_name = b, job_start = s\<rparr> n [] (f_data f) s2"
proof -
  note c' = c [unfolded cp_ready_def]
  let ?d = "dm_pdata (T ! j)" and ?fl = "O_WRONLY k OR O_CREAT k OR O_TRUNC k"
  have w: "wofs_can_write (sys_inst s ?d) fs e (sys_fds s) k ?fl b" using c' by blast
  have pre: "wofs_ok (sys_inst s ?d) fs e" "write_flags k ?fl" "\<not> romfs_fs_is_flag_set (sys_inst s ?d) ROMFS_FS_FLAG_WRITING" "name_ok b" "b \<noteq> [1]"
    using w [unfolded wofs_can_write_def] by blast+
  have num: "romfs_num_fd R \<noteq> int TOTAL_MAX_FDS" using c' R(2) by simp
  have fits: "wofs_fits (sys_inst s ?d) e b" using c' by blast
  obtain fdd R' pfs' m where o: "romfs_open_r k b ?fl R (sys_inst s ?d) = Some (Inr fdd, R', pfs')"
      "romfs_inv R'" "wofs_writing pfs' (fd_table R' ! fdd) m (mark_deleted b fs) e b []" "max_size pfs' = max_size (sys_inst s ?d)"
      "romfs_num_fd R' = romfs_num_fd R + 1"
    by (rule wofs_open [OF pre(1) R(1) num pre(2-5)]) (use fits in blast)+
  have b: "b \<noteq> []" using c' by blast
  have ne: "fds \<noteq> fdd" using open_slot(2) [OF o(1)] reading_not_empty [OF F(1)] R(4) by auto
  have keep: "fd_table R' ! fds = F" using open_slot(3) [OF o(1)] ne R(4) by auto
  have fdd: "fdd < TOTAL_MAX_FDS" using open_slot(1) [OF o(1)] R(1) by (simp add: romfs_inv_def)
  have "open_r (Some p) ?fl 0 T (s\<lparr>sys_fds := R\<rparr>) = Some (Inr (DM_MAKE_DESC j fdd), s\<lparr>sys_fds := R', sys_inst := (sys_inst s)(?d := pfs')\<rparr>)"
    using c' b o(1) by (subst rom_open [OF _ _ p b, of k]) auto
  then show thesis
    by (rule that) (use c' o(2-5) R(2,3) F n ne keep fdd in \<open>simp add: copy_at_def copy_ok_def\<close>)
qed


lemma cp_close:
  assumes c: "copy_at J n (job_data J) [] s"
  obtains s1 s2 e where "close_r (DM_MAKE_DESC (job_src J) (job_fds J)) (job_table J) s = Some (Inr 0, s1)"
    "close_r (DM_MAKE_DESC (job_dst J) (job_fdd J)) (job_table J) s1 = Some (Inr 0, s2)"
    "romfs_inv (sys_fds s2)" "romfs_num_fd (sys_fds s2) = romfs_num_fd (sys_fds (job_start J))"
    "wofs_ok (sys_inst s2 (dst_inst J)) (job_files J @ [\<lparr>f_name = job_name J, f_data = job_data J, f_deleted = False\<rparr>]) e"
    "\<forall>d. d \<noteq> dst_inst J \<longrightarrow> sys_inst s2 d = sys_inst (job_start J) d"
proof -
  note c' = c [unfolded copy_at_def copy_ok_def]
  let ?R = "sys_fds s" and ?p = "sys_inst s (dst_inst J)"
  let ?R1 = "?R\<lparr>fd_table := (fd_table ?R)[job_fds J := empty_fd], romfs_num_fd := romfs_num_fd ?R - 1\<rparr>"
  have lens: "job_fds J < length (fd_table ?R)" "job_fdd J < length (fd_table ?R1)" using c' by (simp_all add: romfs_inv_def)
  have r: "reading (sys_inst s (src_inst J)) (job_lim J) (job_base J) (job_data J) (length (job_data J)) (fd_table ?R ! job_fds J)"
    and inv: "romfs_inv ?R" using c' by blast+
  have dev: "rom_device_at (job_table J) (job_consts J) (job_src J)" "rom_device_at (job_table J) (job_consts J) (job_dst J)"
    "job_fds J < TOTAL_MAX_FDS" "job_fdd J < TOTAL_MAX_FDS" using c' by blast+
  have w: "wofs_writing ?p (fd_table ?R1 ! job_fdd J) (job_mem J) (job_files J) (job_end J) (job_name J) (job_data J)"
    using c' by simp
  have inv1: "romfs_inv ?R1" by (rule inv_close [OF inv lens(1) reading_not_empty [OF r]])
  obtain p2 e where p2: "romfs_close_r (job_fdd J) ?R1 ?p = Some (?R1\<lparr>fd_table := (fd_table ?R1)[job_fdd J := empty_fd], romfs_num_fd := romfs_num_fd ?R1 - 1\<rparr>, p2)"
    "wofs_ok p2 (job_files J @ [\<lparr>f_name = job_name J, f_data = job_data J, f_deleted = False\<rparr>]) e"
    by (rule wofs_close [OF lens(2) w])
  have "romfs_close_r (job_fds J) ?R (sys_inst s (src_inst J)) = Some (?R1, sys_inst s (src_inst J))"
    using c' lens(1) by (simp add: romfs_close_r_def romfs_close_fd_def)
  then have "close_r (DM_MAKE_DESC (job_src J) (job_fds J)) (job_table J) s = Some (Inr 0, s\<lparr>sys_fds := ?R1\<rparr>)"
    by (simp add: rom_calls(3) [OF dev(1,3)] dev_close_def)
  moreover have "close_r (DM_MAKE_DESC (job_dst J) (job_fdd J)) (job_table J) (s\<lparr>sys_fds := ?R1\<rparr>) = Some (Inr 0, s\<lparr>sys_fds :=
      ?R1\<lparr>fd_table := (fd_table ?R1)[job_fdd J := empty_fd], romfs_num_fd := romfs_num_fd ?R1 - 1\<rparr>, sys_inst := (sys_inst s)(dst_inst J := p2)\<rparr>)"
    using p2(1) by (simp add: rom_calls(3) [OF dev(2,4)] dev_close_def)
  ultimately show thesis
    by (rule that) (use c' p2(2) inv_close [OF inv1 lens(2) writing_not_empty [OF w]] in simp_all)
qed

text \<open>A destination that is not there needs no confirmation.\<close>

lemma cp_no_dest:
  assumes c: "cp_ready T k i j a b f fs e s" and p: "dm_path_of (dm_name (T ! j)) b p"
    and R: "romfs_inv R" "romfs_num_fd R = romfs_num_fd (sys_fds s) + 1" and no: "find (name_matches b) fs = None"
  shows "open_r (Some p) (O_RDONLY k) 0 T (s\<lparr>sys_fds := R\<rparr>) = Some (Inl (Some ENOENT), s\<lparr>sys_fds := R\<rparr>)"
proof -
  note c' = c [unfolded cp_ready_def]
  let ?p = "sys_inst s (dm_pdata (T ! j))"
  have "wofs_ok ?p fs e" using c' by (auto simp: wofs_can_write_def)
  then have img: "fs_reads ?p (unat (max_size ?p))" "fs_img (romfsh_is_wofs ?p) (medium ?p) 0 fs e" "e < unat (max_size ?p)"
    "unat (max_size ?p) + 3 < 2 ^ 32" by (auto simp: wofs_ok_def)
  have "romfs_num_fd R \<noteq> int TOTAL_MAX_FDS" "read_flags k (O_RDONLY k)" using c' R(2) by auto
  then have "romfs_open_r k b (O_RDONLY k) R ?p = Some (Inl ENOENT, R, ?p)"
    using open_and_read [OF img R(1), of k "O_RDONLY k" b] no by simp
  then show ?thesis
    using c' by (subst rom_open [OF _ _ p, of k]) (auto simp: fun_upd_idem)
qed

text \<open>C29. Copying a file of one file system of the board to a write-once file system that has room for it returns success, says how many
  bytes were copied, appends the file with the same data to the destination, where a file of that name is deleted first, gives back both
  descriptors and changes no other file system. This holds when no confirmation is asked for: the flags force the destination or
  it does not exist.\<close>

theorem cp_copies_file:
  assumes c: "cp_ready T k i j a b f fs e s" and p: "dm_path_of (dm_name (T ! i)) a p1" "dm_path_of (dm_name (T ! j)) b p2" "\<not> strcaseeq p1 p2"
    and fl: "\<not> has flags SHELL_F_ASK_CONFIRMATION" "\<not> has flags SHELL_F_SIMULATE_ONLY"
      "has flags SHELL_F_FORCE_DESTINATION \<or> find (name_matches b) fs = None"
    and n: "mem_str M n" "0 < n" "n < 2 ^ 31"
  shows "\<exists>s' e'. shellh_cp_file k n M T p1 p2 flags (u, s)
        = Some (True, plog flags (Copy_done (word_of_nat (length (f_data f)))) (plog flags (Copying p1 p2) u), s') \<and>
      romfs_inv (sys_fds s') \<and> romfs_num_fd (sys_fds s') = romfs_num_fd (sys_fds s) \<and>
      wofs_ok (sys_inst s' (dm_pdata (T ! j))) (mark_deleted b fs @ [\<lparr>f_name = b, f_data = f_data f, f_deleted = False\<rparr>]) e' \<and>
      (\<forall>d. d \<noteq> dm_pdata (T ! j) \<longrightarrow> sys_inst s' d = sys_inst s d)"
proof -
  obtain fds F lim base R where o: "open_r (Some p1) (O_RDONLY k) 0 T s = Some (Inr (DM_MAKE_DESC i fds), s\<lparr>sys_fds := R\<rparr>)"
    "romfs_inv R" "romfs_num_fd R = romfs_num_fd (sys_fds s) + 1" "fds < TOTAL_MAX_FDS" "fd_table R ! fds = F"
    "reading (sys_inst s (dm_pdata (T ! i))) lim base (f_data f) 0 F" "\<not> romfs_writing F"
    by (rule cp_open_source [OF c p(1)])
  obtain fdd s2 m where o2: "open_r (Some p2) (O_WRONLY k OR O_CREAT k OR O_TRUNC k) 0 T (s\<lparr>sys_fds := R\<rparr>) = Some (Inr (DM_MAKE_DESC j fdd), s2)"
    "copy_at \<lparr>job_table = T, job_consts = k, job_src = i, job_dst = j, job_fds = fds, job_fdd = fdd, job_data = f_data f, job_lim = lim,
       job_base = base, job_mem = m, job_files = mark_deleted b fs, job_end = e, job_name = b, job_start = s\<rparr> n [] (f_data f) s2"
      (is "copy_at ?J _ _ _ _")
    by (rule cp_open_dest [OF c p(2) o(2-7) n(3)])
  let ?u = "plog flags (Copying p1 p2) u"
  obtain s3 where l: "cp_loop n T p1 p2 flags (DM_MAKE_DESC i fds) (DM_MAKE_DESC j fdd) 0 (?u, s2) = Some (Some (word_of_nat (length (f_data f))), ?u, s3)"
    "copy_at ?J n (job_data ?J) [] s3"
    using romcopy.copy_all [OF n(2) o2(2), of p1 p2 flags 0 ?u] by auto
  obtain s4 s5 e' where cl: "close_r (DM_MAKE_DESC i fds) T s3 = Some (Inr 0, s4)" "close_r (DM_MAKE_DESC j fdd) T s4 = Some (Inr 0, s5)"
    "romfs_inv (sys_fds s5)" "romfs_num_fd (sys_fds s5) = romfs_num_fd (sys_fds s)"
    "wofs_ok (sys_inst s5 (dm_pdata (T ! j))) (mark_deleted b fs @ [\<lparr>f_name = b, f_data = f_data f, f_deleted = False\<rparr>]) e'"
    "\<forall>d. d \<noteq> dm_pdata (T ! j) \<longrightarrow> sys_inst s5 d = sys_inst s d"
    by (rule cp_close [OF l(2), simplified]) blast
  have "cp_opened k n M T p1 p2 flags (DM_MAKE_DESC i fds) (u, s\<lparr>sys_fds := R\<rparr>)
      = Some (True, Some (DM_MAKE_DESC j fdd), plog flags (Copy_done (word_of_nat (length (f_data f)))) ?u, s3)"
    using fl(2,3) n(1) o2(1) l(1) cp_no_dest [OF c p(2) o(2,3)] by (auto simp: cp_opened_def)
  then have "shellh_cp_file k n M T p1 p2 flags (u, s) = Some (True, plog flags (Copy_done (word_of_nat (length (f_data f)))) ?u, s5)"
    using p(3) fl(1) o(1) cl(1,2) by (simp add: shellh_cp_file_def)
  with cl(3-6) show ?thesis by blast
qed


definition two_table :: "(nat, unit, romfs_sys) dm_table" where
  "two_table = [\<lparr>dm_name = [slash, 0x72], dm_pdata = 0, dm_pdev = romfs_device newlib_consts\<rparr>,
     \<lparr>dm_name = [slash, 0x77], dm_pdata = 1, dm_pdev = romfs_device newlib_consts\<rparr>]"

definition two_sys :: romfs_sys where
  "two_sys = \<lparr>sys_fds = romfs_init_fds, sys_inst = (\<lambda>d. if d = 0 then tiny_romfs else lm3s_wofs), sys_dir = 0\<rparr>"

lemma two_ready:
  "cp_ready two_table newlib_consts 0 1 [0x61] [0x61, 0x2E, 0x62] \<lparr>f_name = [0x61], f_data = [7, 8], f_deleted = False\<rparr> [] 0 two_sys"
proof -
  let ?f = "\<lparr>f_name = [0x61], f_data = [7, 8], f_deleted = False\<rparr> :: rom_file"
  have "\<exists>e lim. fs_reads tiny_romfs lim \<and> e < lim \<and> lim + 3 < 2 ^ 32 \<and> fs_img (romfsh_is_wofs tiny_romfs) (medium tiny_romfs) 0 [?f] e"
    by (rule exI [of _ 10], rule exI [of _ 11]) (simp add: tiny_romfs_img(1,2) del: fs_img.simps)
  then have "sys_holds two_sys 0 [?f]"
    using romfs_inv_init unfolding sys_holds_def by (simp add: two_sys_def romfs_init_fds_def TOTAL_MAX_FDS_def del: fs_img.simps)
  moreover have "find (name_matches [0x61]) [?f] = Some ?f" by (simp add: name_matches_def strncaseeq_def)
  ultimately have "\<exists>fs1. sys_holds two_sys 0 fs1 \<and> find (name_matches [0x61]) fs1 = Some ?f" by blast
  moreover have "dm_inv two_table"
    by (simp add: two_table_def dm_inv_def dm_name_ok_def DM_MAX_DEVICES_def DM_MAX_DEV_NAME_def tolower_def)
  moreover have "O_WRONLY newlib_consts OR O_CREAT newlib_consts OR O_TRUNC newlib_consts = 0x601" by (simp add: newlib_consts_def)
  ultimately show ?thesis
    using lm3s_can_write unfolding cp_ready_def
    by (simp add: two_table_def two_sys_def rom_device_at_def read_flags_def newlib_consts_def romfs_init_fds_def TOTAL_MAX_FDS_def
        new_base_def align4_def lm3s_wofs_def)
qed

theorem cp_copies_file_witness:
  "\<exists>s' e'. shellh_cp_file newlib_consts 256 \<lparr>mem_str = (\<lambda>_. True), mem_dir = True, mem_file = True\<rparr> two_table
        [slash, 0x72, slash, 0x61] [slash, 0x77, slash, 0x61, 0x2E, 0x62] SHELL_F_SILENT
        (\<lparr>ui_term = \<lparr>term_num_lines = 25, term_num_cols = 80, term_cx = 0, term_cy = 0, term_input = [], term_output = []\<rparr>, ui_out = []\<rparr>, two_sys)
      = Some (True, \<lparr>ui_term = \<lparr>term_num_lines = 25, term_num_cols = 80, term_cx = 0, term_cy = 0, term_input = [], term_output = []\<rparr>, ui_out = []\<rparr>, s') \<and>
    wofs_ok (sys_inst s' 1) [\<lparr>f_name = [0x61, 0x2E, 0x62], f_data = [7, 8], f_deleted = False\<rparr>] e'"
proof -
  have p: "dm_path_of (dm_name (two_table ! 0)) [0x61] [slash, 0x72, slash, 0x61]"
    "dm_path_of (dm_name (two_table ! 1)) [0x61, 0x2E, 0x62] [slash, 0x77, slash, 0x61, 0x2E, 0x62]"
    using dm_path_of_below [of "[0x72]" "[slash, 0x72]" "[0x61]" "[0x61]"]
      dm_path_of_below [of "[0x77]" "[slash, 0x77]" "[0x61, 0x2E, 0x62]" "[0x61, 0x2E, 0x62]"]
    by (simp_all add: two_table_def strcaseeq_def)
  have d: "dm_pdata (two_table ! 1) = 1" by (simp add: two_table_def)
  show ?thesis
    using cp_copies_file [OF two_ready p, of SHELL_F_SILENT "\<lparr>mem_str = (\<lambda>_. True), mem_dir = True, mem_file = True\<rparr>" 256
        "\<lparr>ui_term = \<lparr>term_num_lines = 25, term_num_cols = 80, term_cx = 0, term_cy = 0, term_input = [], term_output = []\<rparr>, ui_out = []\<rparr>"]
    unfolding d by (auto simp: strcaseeq_def tolower_def plog_def SHELL_F_SILENT_def SHELL_F_ASK_CONFIRMATION_def SHELL_F_SIMULATE_ONLY_def)
qed

end
