(* ===== verification/Mmcfs.thy ===== *)
theory Mmcfs
  imports Shell_Commands Wofs
begin

text \<open>
  The device for FAT file systems on memory cards, \<open>src/src/mmcfs.c\<close>: the translation of the calls of the device manager to
  those of FatFs, and the table of open files.

  FatFs (\<open>src/src/fatfs\<close>) is third-party code and a parameter: a record of its functions, which work on the state \<open>'m\<close>
  of the cards. A result of type \<open>FRESULT\<close> is a number; zero is success. The model is of the configuration in
  \<open>src/src/fatfs/ffconf.h\<close>, with writing and long file names.
\<close>

section \<open>The interface of FatFs\<close>

text \<open>The fields of a file object that the device uses: whether the pointer to its file system is set, the position and the
  length. \<open>'x\<close> are the others.\<close>

record 'x FIL =
  fil_fs :: bool
  fil_fptr :: u32
  fil_fsize :: u32
  fil_rest :: 'x

record FILINFO =
  fi_fsize :: u32
  fi_ftime :: u16
  fi_fattrib :: u8
  fi_fname :: "u8 list"
  fi_lfname :: "u8 list"

record ('x, 'y, 'm) fatfs =
  f_open :: "u8 list \<Rightarrow> u8 \<Rightarrow> 'm \<Rightarrow> nat \<times> 'x FIL \<times> 'm"
  f_close :: "'x FIL \<Rightarrow> 'm \<Rightarrow> nat \<times> 'x FIL \<times> 'm"
  f_write :: "'x FIL \<Rightarrow> u8 list \<Rightarrow> 'm \<Rightarrow> nat \<times> nat \<times> 'x FIL \<times> 'm"
  f_read :: "'x FIL \<Rightarrow> nat \<Rightarrow> 'm \<Rightarrow> nat \<times> u8 list \<times> 'x FIL \<times> 'm"
  f_lseek :: "'x FIL \<Rightarrow> u32 \<Rightarrow> 'm \<Rightarrow> nat \<times> 'x FIL \<times> 'm"
  f_opendir :: "u8 list \<Rightarrow> 'm \<Rightarrow> nat \<times> 'y \<times> 'm"
  f_readdir :: "'y \<Rightarrow> 'm \<Rightarrow> nat \<times> FILINFO \<times> 'y \<times> 'm"
  f_mkdir :: "u8 list \<Rightarrow> 'm \<Rightarrow> nat \<times> 'm"
  f_unlink :: "u8 list \<Rightarrow> 'm \<Rightarrow> nat \<times> 'm"
  f_rename :: "u8 list \<Rightarrow> u8 list \<Rightarrow> 'm \<Rightarrow> nat \<times> 'm"
  f_mount :: "nat \<Rightarrow> 'm \<Rightarrow> nat \<times> 'm"
  f_zero :: 'x

definition FR_OK :: nat where "FR_OK = 0"
definition FA_READ :: u8 where "FA_READ = 1"
definition FA_OPEN_EXISTING :: u8 where "FA_OPEN_EXISTING = 0"
definition FA_WRITE :: u8 where "FA_WRITE = 2"
definition FA_CREATE_ALWAYS :: u8 where "FA_CREATE_ALWAYS = 8"
definition FA_OPEN_ALWAYS :: u8 where "FA_OPEN_ALWAYS = 0x10"
definition AM_DIR :: u8 where "AM_DIR = 0x10"

lemmas fa_flags = FA_READ_def FA_OPEN_EXISTING_def FA_WRITE_def FA_CREATE_ALWAYS_def FA_OPEN_ALWAYS_def

section \<open>State\<close>

definition MMCFS_MAX_FDS :: nat where "MMCFS_MAX_FDS = 4"

text \<open>The tables of the device. The directories that are open are numbered in the order they were opened; one that was closed is
  \<open>None\<close>.\<close>

record ('x, 'y, 'm) mmc_state =
  mmcfs_fd_table :: "'x FIL list"
  mmcfs_num_fd :: int
  mmc_fileObject :: "'x FIL"
  mmc_dirs :: "'y option list"
  mmc_cards :: 'm

text \<open>The C library: its constants, \<open>O_BINARY\<close> if it has one, whether \<open>asprintf\<close> succeeds (when it does not, \<open>None\<close> is that it leaves
  the pointer as it was), and which of the three allocations of \<open>mmcfs_opendir_r\<close> succeed.\<close>

record mmc_lib =
  lib_consts :: os_consts
  lib_binary :: "u32 option"
  lib_asprintf :: "bool option"
  lib_data :: bool
  lib_dir :: bool
  lib_ent :: bool

definition fil_cleared :: "('x, 'y, 'm) fatfs \<Rightarrow> 'x FIL" where
  "fil_cleared F = \<lparr>fil_fs = False, fil_fptr = 0, fil_fsize = 0, fil_rest = f_zero F\<rparr>"

text \<open>The state before the first call.\<close>

definition mmc_start :: "('x, 'y, 'm) fatfs \<Rightarrow> 'm \<Rightarrow> ('x, 'y, 'm) mmc_state" where
  "mmc_start F m = \<lparr>mmcfs_fd_table = replicate MMCFS_MAX_FDS (fil_cleared F), mmcfs_num_fd = 0, mmc_fileObject = fil_cleared F,
     mmc_dirs = [], mmc_cards = m\<rparr>"

section \<open>Files\<close>

fun mmcfs_find_empty_fd :: "'x FIL list \<Rightarrow> nat option" where
  "mmcfs_find_empty_fd [] = None"
| "mmcfs_find_empty_fd (f # fs) = (if \<not> fil_fs f then Some 0 else map_option Suc (mmcfs_find_empty_fd fs))"

text \<open>\<open>%d\<close> of a drive number.\<close>

fun dec :: "nat \<Rightarrow> u8 list" where
  "dec n = (if n < 10 then [0x30 + word_of_nat n] else dec (n div 10) @ [0x30 + word_of_nat (n mod 10)])"

declare dec.simps [simp del]

abbreviation colon :: u8 where "colon \<equiv> 0x3A"

definition mmc_path :: "nat \<Rightarrow> u8 list \<Rightarrow> u8 list" where
  "mmc_path drv_num path = (if strchr path slash = None then dec drv_num @ [colon, slash] @ path else dec drv_num @ [colon] @ path)"

definition O_ACCMODE :: "os_consts \<Rightarrow> u32" where
  "O_ACCMODE k = O_RDONLY k OR O_WRONLY k OR O_RDWR k"

text \<open>The translation of the flags.\<close>

definition mmc_create_mode :: "os_consts \<Rightarrow> u32 \<Rightarrow> u8 option" where
  "mmc_create_mode k flags =
     (if flags AND (O_CREAT k OR O_TRUNC k) = O_CREAT k OR O_TRUNC k \<and> flags AND (O_RDWR k OR O_WRONLY k) \<noteq> 0 then Some FA_CREATE_ALWAYS
      else if flags AND (O_CREAT k OR O_EXCL k) = O_CREAT k OR O_EXCL k then Some FA_OPEN_EXISTING
      else if flags AND O_CREAT k = O_CREAT k then Some FA_OPEN_ALWAYS
      else if flags = O_RDONLY k \<or> flags = O_WRONLY k \<or> flags = O_RDWR k then Some FA_OPEN_EXISTING
      else None)"

definition mmc_access_mode :: "os_consts \<Rightarrow> u32 \<Rightarrow> u8 option" where
  "mmc_access_mode k flags =
     (if flags AND O_ACCMODE k = O_RDONLY k then Some FA_READ
      else if flags AND O_ACCMODE k = O_WRONLY k then Some FA_WRITE
      else if flags AND O_ACCMODE k = O_RDWR k then Some (FA_READ OR FA_WRITE)
      else None)"

definition mmc_mode :: "os_consts \<Rightarrow> u32 \<Rightarrow> u8 option" where
  "mmc_mode k flags = do { c \<leftarrow> mmc_create_mode k flags; a \<leftarrow> mmc_access_mode k flags; Some (c OR a) }"

definition scrub_binary :: "mmc_lib \<Rightarrow> u32 \<Rightarrow> u32" where
  "scrub_binary L flags = (case lib_binary L of None \<Rightarrow> flags | Some b \<Rightarrow> flags AND NOT b)"

definition mmcfs_open_r :: "mmc_lib \<Rightarrow> ('x, 'y, 'm) fatfs \<Rightarrow> u8 list \<Rightarrow> u32 \<Rightarrow> int \<Rightarrow> nat \<Rightarrow> (nat, ('x, 'y, 'm) mmc_state) dm_op" where
  "mmcfs_open_r L F path flags mode drv_num s =
     (if mmcfs_num_fd s = int MMCFS_MAX_FDS then Some (Inl (Some ENFILE), s)
      else
        case lib_asprintf L of None \<Rightarrow> None
        | Some False \<Rightarrow> Some (Inl (Some ENOMEM), s)
        | Some True \<Rightarrow>
            (case mmc_mode (lib_consts L) (scrub_binary L flags) of None \<Rightarrow> Some (Inl (Some EINVAL), s)
             | Some m \<Rightarrow>
                 let (res, fil, cards) = f_open F (mmc_path drv_num path) m (mmc_cards s);
                     s1 = s\<lparr>mmc_fileObject := fil, mmc_cards := cards\<rparr>
                 in if res \<noteq> FR_OK then Some (Inl (Some ENOENT), s1)
                    else
                      let fil1 = (if word_of_int mode AND O_APPEND (lib_consts L) \<noteq> 0 then fil\<lparr>fil_fptr := fil_fsize fil\<rparr> else fil)
                      in do {
                           fd \<leftarrow> mmcfs_find_empty_fd (mmcfs_fd_table s);
                           Some (Inr fd, s1\<lparr>mmcfs_fd_table := (mmcfs_fd_table s)[fd := fil1], mmcfs_num_fd := mmcfs_num_fd s + 1, mmc_fileObject := fil1\<rparr>)
                         }))"

definition mmcfs_close_r :: "('x, 'y, 'm) fatfs \<Rightarrow> nat \<Rightarrow> nat \<Rightarrow> (nat, ('x, 'y, 'm) mmc_state) dm_op" where
  "mmcfs_close_r F fd drv_num s =
     (if length (mmcfs_fd_table s) \<le> fd then None
      else let (_, _, cards) = f_close F (mmcfs_fd_table s ! fd) (mmc_cards s)
           in Some (Inr 0, s\<lparr>mmcfs_fd_table := (mmcfs_fd_table s)[fd := fil_cleared F], mmcfs_num_fd := mmcfs_num_fd s - 1, mmc_cards := cards\<rparr>))"

definition mmcfs_write_r :: "('x, 'y, 'm) fatfs \<Rightarrow> nat \<Rightarrow> u8 list \<Rightarrow> nat \<Rightarrow> (nat, ('x, 'y, 'm) mmc_state) dm_op" where
  "mmcfs_write_r F fd bs drv_num s =
     (if length (mmcfs_fd_table s) \<le> fd then None
      else let (res, bytesWritten, fil, cards) = f_write F (mmcfs_fd_table s ! fd) bs (mmc_cards s)
           in Some (if res \<noteq> FR_OK then Inl (Some EIO) else Inr bytesWritten, s\<lparr>mmcfs_fd_table := (mmcfs_fd_table s)[fd := fil], mmc_cards := cards\<rparr>))"

definition mmcfs_read_r :: "('x, 'y, 'm) fatfs \<Rightarrow> nat \<Rightarrow> nat \<Rightarrow> nat \<Rightarrow> (u8 list, ('x, 'y, 'm) mmc_state) dm_op" where
  "mmcfs_read_r F fd len drv_num s =
     (if length (mmcfs_fd_table s) \<le> fd then None
      else let (res, bs, fil, cards) = f_read F (mmcfs_fd_table s ! fd) len (mmc_cards s)
           in Some (if res \<noteq> FR_OK then Inl (Some EIO) else Inr bs, s\<lparr>mmcfs_fd_table := (mmcfs_fd_table s)[fd := fil], mmc_cards := cards\<rparr>))"

definition mmcfs_lseek_r :: "mmc_lib \<Rightarrow> ('x, 'y, 'm) fatfs \<Rightarrow> nat \<Rightarrow> u32 \<Rightarrow> u32 \<Rightarrow> nat \<Rightarrow> (u32, ('x, 'y, 'm) mmc_state) dm_op" where
  "mmcfs_lseek_r L F fd off whence drv_num s =
     (if length (mmcfs_fd_table s) \<le> fd then None
      else
        let pFile = mmcfs_fd_table s ! fd; k = lib_consts L;
            target = (if whence = SEEK_SET k then Some off
                      else if whence = SEEK_CUR k then Some (fil_fptr pFile + off)
                      else if whence = SEEK_END k then Some (fil_fsize pFile + off)
                      else None)
        in case target of None \<Rightarrow> Some (Inl None, s)
           | Some newpos \<Rightarrow>
               let (res, fil, cards) = f_lseek F pFile newpos (mmc_cards s)
               in Some (if res \<noteq> FR_OK then Inl None else Inr newpos, s\<lparr>mmcfs_fd_table := (mmcfs_fd_table s)[fd := fil], mmc_cards := cards\<rparr>))"

section \<open>Directories\<close>

definition mmcfs_opendir_r :: "mmc_lib \<Rightarrow> ('x, 'y, 'm) fatfs \<Rightarrow> u8 list \<Rightarrow> nat \<Rightarrow> (nat, ('x, 'y, 'm) mmc_state) dm_op" where
  "mmcfs_opendir_r L F dname drv_num s =
     (if \<not> (lib_data L \<and> lib_dir L \<and> lib_ent L) then Some (Inl None, s)
      else if lib_asprintf L \<noteq> Some True then None
      else let (res, dir, cards) = f_opendir F (if dname = [] then dec drv_num @ [colon, slash] else dec drv_num @ [colon] @ dname) (mmc_cards s)
           in if res \<noteq> FR_OK then Some (Inl None, s\<lparr>mmc_cards := cards\<rparr>)
              else Some (Inr (length (mmc_dirs s)), s\<lparr>mmc_dirs := mmc_dirs s @ [Some dir], mmc_cards := cards\<rparr>))"

text \<open>Using a directory that was closed is using memory that was freed.\<close>

definition mmc_dir :: "nat \<Rightarrow> ('x, 'y, 'm) mmc_state \<Rightarrow> 'y option" where
  "mmc_dir d s = (if d < length (mmc_dirs s) then mmc_dirs s ! d else None)"

definition mmcfs_readdir_r :: "('x, 'y, 'm) fatfs \<Rightarrow> nat \<Rightarrow> nat \<Rightarrow> (dm_dirent, ('x, 'y, 'm) mmc_state) dm_op" where
  "mmcfs_readdir_r F d drv_num s =
     do {
       dir \<leftarrow> mmc_dir d s;
       let (res, info, dir1, cards) = f_readdir F dir (mmc_cards s);
       let s1 = s\<lparr>mmc_dirs := (mmc_dirs s)[d := Some dir1], mmc_cards := cards\<rparr>;
       if res \<noteq> FR_OK \<or> fi_fname info = [] then Some (Inl None, s1)
       else do {
         let fn = (if fi_lfname info \<noteq> [] then fi_lfname info else fi_fname info);
         Some (Inr \<lparr>dent_fsize = fi_fsize info, dent_fname = take DM_MAX_FNAME_LENGTH fn, dent_ftime = ucast (fi_ftime info),
                 dent_flags = (if fi_fattrib info AND AM_DIR \<noteq> 0 then DM_DIRENT_FLAG_DIR else 0)\<rparr>, s1)
       }
     }"

definition mmcfs_closedir_r :: "nat \<Rightarrow> nat \<Rightarrow> (nat, ('x, 'y, 'm) mmc_state) dm_op" where
  "mmcfs_closedir_r d drv_num s = do { dir \<leftarrow> mmc_dir d s; Some (Inr 0, s\<lparr>mmc_dirs := (mmc_dirs s)[d := None]\<rparr>) }"

text \<open>These return the result of FatFs as it is: a failure is a positive number.\<close>

definition mmcfs_mkdir_r :: "('x, 'y, 'm) fatfs \<Rightarrow> u8 list \<Rightarrow> int \<Rightarrow> nat \<Rightarrow> (nat, ('x, 'y, 'm) mmc_state) dm_op" where
  "mmcfs_mkdir_r F name mode drv_num s = (let (res, cards) = f_mkdir F name (mmc_cards s) in Some (Inr res, s\<lparr>mmc_cards := cards\<rparr>))"

definition mmcfs_unlink_r :: "('x, 'y, 'm) fatfs \<Rightarrow> u8 list \<Rightarrow> nat \<Rightarrow> (nat, ('x, 'y, 'm) mmc_state) dm_op" where
  "mmcfs_unlink_r F fname drv_num s = (let (res, cards) = f_unlink F fname (mmc_cards s) in Some (Inr res, s\<lparr>mmc_cards := cards\<rparr>))"

definition mmcfs_rename_r :: "('x, 'y, 'm) fatfs \<Rightarrow> u8 list \<Rightarrow> u8 list \<Rightarrow> nat \<Rightarrow> (nat, ('x, 'y, 'm) mmc_state) dm_op" where
  "mmcfs_rename_r F oldname newname drv_num s =
     (let (res, cards) = f_rename F oldname newname (mmc_cards s) in Some (Inr res, s\<lparr>mmc_cards := cards\<rparr>))"

section \<open>The device\<close>

definition mmcfs_device :: "mmc_lib \<Rightarrow> ('x, 'y, 'm) fatfs \<Rightarrow> (nat, nat, ('x, 'y, 'm) mmc_state) DM_DEVICE" where
  "mmcfs_device L F = \<lparr>p_open_r = Some (mmcfs_open_r L F), p_close_r = Some (mmcfs_close_r F), p_write_r = Some (mmcfs_write_r F),
     p_read_r = Some (mmcfs_read_r F), p_lseek_r = Some (mmcfs_lseek_r L F), p_opendir_r = Some (mmcfs_opendir_r L F),
     p_readdir_r = Some (mmcfs_readdir_r F), p_closedir_r = Some mmcfs_closedir_r, p_getaddr_r = None,
     p_mkdir_r = Some (mmcfs_mkdir_r F), p_unlink_r = Some (mmcfs_unlink_r F), p_rmdir_r = Some (mmcfs_unlink_r F),
     p_rename_r = Some (mmcfs_rename_r F)\<rparr>"

text \<open>The name of a card: \<open>/mmc\<close> when there is one, with its number behind when there are more.\<close>

definition mmc_name :: "u8 list" where "mmc_name = [slash, 0x6D, 0x6D, 0x63]"

fun mmc_register :: "mmc_lib \<Rightarrow> ('x, 'y, 'm) fatfs \<Rightarrow> nat list \<Rightarrow> 'm \<Rightarrow> (nat, nat, ('x, 'y, 'm) mmc_state) dm_table \<Rightarrow>
    'm \<times> (nat, nat, ('x, 'y, 'm) mmc_state) dm_table" where
  "mmc_register L F [] m T = (m, T)"
| "mmc_register L F (i # is) m T =
     (let (res, m1) = f_mount F i m
      in mmc_register L F is m1 (if res = FR_OK then snd (dm_register (Some (mmc_name @ dec i)) i (Some (mmcfs_device L F)) T) else T))"

text \<open>\<open>None\<close> as a result stands for \<open>DM_OK\<close>. The initialisation of the card driver, which comes first, is not part of this layer.\<close>

definition mmcfs_init :: "mmc_lib \<Rightarrow> ('x, 'y, 'm) fatfs \<Rightarrow> nat \<Rightarrow> 'm \<Rightarrow> (nat, nat, ('x, 'y, 'm) mmc_state) dm_table \<Rightarrow>
    (dm_err + nat) option \<times> 'm \<times> (nat, nat, ('x, 'y, 'm) mmc_state) dm_table" where
  "mmcfs_init L F num_cards m T =
     (if num_cards = 1
      then let (res, m1) = f_mount F 0 m
           in if res \<noteq> FR_OK then (Some (Inl DM_ERR_INIT), m1, T)
              else (case dm_register (Some mmc_name) 0 (Some (mmcfs_device L F)) T of (r, T1) \<Rightarrow> (Some r, m1, T1))
      else (case mmc_register L F [0..<num_cards] m T of (m1, T1) \<Rightarrow> (None, m1, T1)))"


section \<open>The table of open files\<close>

text \<open>What the device relies on in FatFs: a file that was opened has its file system, and the other calls leave it.\<close>

definition fat_ok :: "('x, 'y, 'm) fatfs \<Rightarrow> bool" where
  "fat_ok F \<longleftrightarrow> (\<forall>p m c f c1. f_open F p m c = (FR_OK, f, c1) \<longrightarrow> fil_fs f) \<and>
     (\<forall>f bs c. fil_fs (fst (snd (snd (f_write F f bs c)))) = fil_fs f) \<and> (\<forall>f n c. fil_fs (fst (snd (snd (f_read F f n c)))) = fil_fs f) \<and>
     (\<forall>f p c. fil_fs (fst (snd (f_lseek F f p c))) = fil_fs f)"

definition mmc_inv :: "('x, 'y, 'm) mmc_state \<Rightarrow> bool" where
  "mmc_inv s \<longleftrightarrow> length (mmcfs_fd_table s) = MMCFS_MAX_FDS \<and> mmcfs_num_fd s = int (length (filter fil_fs (mmcfs_fd_table s)))"

lemma mmcfs_find_empty_fd_Some: "mmcfs_find_empty_fd fs = Some i \<Longrightarrow> i < length fs \<and> \<not> fil_fs (fs ! i)"
  by (induction fs arbitrary: i) (auto split: if_split_asm)

lemma mmcfs_find_empty_fd_None: "mmcfs_find_empty_fd fs = None \<Longrightarrow> length (filter fil_fs fs) = length fs"
  by (induction fs) (auto split: if_split_asm)

lemma mmc_inv_cards [simp]: "mmc_inv (s\<lparr>mmc_cards := c\<rparr>) = mmc_inv s" "mmc_inv (s\<lparr>mmc_dirs := d\<rparr>) = mmc_inv s" "mmc_inv (s\<lparr>mmc_fileObject := f\<rparr>) = mmc_inv s"
  by (simp_all add: mmc_inv_def)

lemma mmc_start_inv: "mmc_inv (mmc_start F m)"
  by (simp add: mmc_inv_def mmc_start_def fil_cleared_def)

lemma mmc_open_err: "mmcfs_open_r L F path flags mode d s = Some (Inl e, s') \<Longrightarrow> mmcfs_fd_table s' = mmcfs_fd_table s \<and> mmcfs_num_fd s' = mmcfs_num_fd s"
  by (auto simp: mmcfs_open_r_def Let_def split: if_split_asm option.split_asm bool.split_asm prod.split_asm bind_split_asm)

lemma mmc_open_ok:
  assumes "mmcfs_open_r L F path flags mode d s = Some (Inr fd, s')"
  obtains m f c where "mmc_mode (lib_consts L) (scrub_binary L flags) = Some m" "f_open F (mmc_path d path) m (mmc_cards s) = (FR_OK, f, c)"
    "mmcfs_find_empty_fd (mmcfs_fd_table s) = Some fd" "mmc_cards s' = c" "mmcfs_num_fd s' = mmcfs_num_fd s + 1"
    "mmcfs_fd_table s' = (mmcfs_fd_table s)[fd := if word_of_int mode AND O_APPEND (lib_consts L) \<noteq> 0 then f\<lparr>fil_fptr := fil_fsize f\<rparr> else f]"
proof -
  have pre: "mmcfs_num_fd s \<noteq> int MMCFS_MAX_FDS" "lib_asprintf L = Some True" "mmc_mode (lib_consts L) (scrub_binary L flags) \<noteq> None"
    using assms by (auto simp: mmcfs_open_r_def split: if_split_asm option.split_asm bool.split_asm)
  then obtain m where m: "mmc_mode (lib_consts L) (scrub_binary L flags) = Some m" by blast
  obtain r f c where f: "f_open F (mmc_path d path) m (mmc_cards s) = (r, f, c)" by (metis prod_cases3)
  note o = assms [unfolded mmcfs_open_r_def Let_def, simplified pre m, simplified, unfolded f, simplified]
  have x: "mmcfs_find_empty_fd (mmcfs_fd_table s) = Some fd" "r = FR_OK" using o by (simp_all split: if_split_asm bind_split_asm)
  show thesis using o by (intro that [OF m]) (auto simp: f x)
qed

lemma mmc_open_inv:
  assumes F: "fat_ok F" and s: "mmc_inv s" and o: "mmcfs_open_r L F path flags mode d s = Some (r, s')"
  shows "mmc_inv s'"
proof (cases r)
  case (Inl e)
  with mmc_open_err o have "mmcfs_fd_table s' = mmcfs_fd_table s \<and> mmcfs_num_fd s' = mmcfs_num_fd s" by blast
  with s show ?thesis by (simp add: mmc_inv_def)
next
  case (Inr fd)
  obtain m f c where f: "f_open F (mmc_path d path) m (mmc_cards s) = (FR_OK, f, c)"
    "mmcfs_find_empty_fd (mmcfs_fd_table s) = Some fd" "mmcfs_num_fd s' = mmcfs_num_fd s + 1"
    "mmcfs_fd_table s' = (mmcfs_fd_table s)[fd := if word_of_int mode AND O_APPEND (lib_consts L) \<noteq> 0 then f\<lparr>fil_fptr := fil_fsize f\<rparr> else f]"
    using o unfolding Inr by (rule mmc_open_ok)
  have "fil_fs f" using F f(1) unfolding fat_ok_def by blast
  with mmcfs_find_empty_fd_Some [OF f(2)] s f(3,4) show ?thesis by (simp add: mmc_inv_def length_filter_update)
qed

lemma mmc_update_inv:
  "mmc_inv s \<Longrightarrow> fd < length (mmcfs_fd_table s) \<Longrightarrow> fil_fs f = fil_fs (mmcfs_fd_table s ! fd) \<Longrightarrow> mmc_inv (s\<lparr>mmcfs_fd_table := (mmcfs_fd_table s)[fd := f]\<rparr>)"
  by (simp add: mmc_inv_def length_filter_update_same)

lemma mmc_files_inv:
  assumes F: "fat_ok F" and s: "mmc_inv s"
  shows "mmcfs_write_r F fd bs d s = Some (r, s') \<Longrightarrow> mmc_inv s'" "mmcfs_read_r F fd n d s = Some (q, s') \<Longrightarrow> mmc_inv s'"
    "mmcfs_lseek_r L F fd off wh d s = Some (t, s') \<Longrightarrow> mmc_inv s'"
proof -
  note laws = F [unfolded fat_ok_def, THEN conjunct2]
  show "mmcfs_write_r F fd bs d s = Some (r, s') \<Longrightarrow> mmc_inv s'"
    using s laws [THEN conjunct1, rule_format, of "mmcfs_fd_table s ! fd" bs "mmc_cards s"]
    by (auto simp: mmcfs_write_r_def mmc_update_inv split: if_split_asm prod.split_asm)
  show "mmcfs_read_r F fd n d s = Some (q, s') \<Longrightarrow> mmc_inv s'"
    using s laws [THEN conjunct2, THEN conjunct1, rule_format, of "mmcfs_fd_table s ! fd" n "mmc_cards s"]
    by (auto simp: mmcfs_read_r_def mmc_update_inv split: if_split_asm prod.split_asm)
  show "mmcfs_lseek_r L F fd off wh d s = Some (t, s') \<Longrightarrow> mmc_inv s'"
    using s laws [THEN conjunct2, THEN conjunct2]
    by (auto simp: mmcfs_lseek_r_def Let_def mmc_update_inv split: if_split_asm prod.split_asm option.split_asm) (metis fst_conv mmc_update_inv not_le snd_conv)+
qed

lemma mmc_close_inv:
  assumes "mmc_inv s" "mmcfs_close_r F fd d s = Some (r, s')" "fil_fs (mmcfs_fd_table s ! fd)"
  shows "mmc_inv s'"
proof -
  have "fd < length (mmcfs_fd_table s)" using assms(2) by (simp add: mmcfs_close_r_def split: if_split_asm)
  with length_filter_update_less [OF this, of fil_fs "fil_cleared F"] assms show ?thesis
    by (auto simp: mmcfs_close_r_def mmc_inv_def fil_cleared_def split: prod.split_asm)
qed

lemma mmc_dirs_inv:
  assumes "mmc_inv s"
  shows "mmcfs_opendir_r L F nm d s = Some (r, s') \<Longrightarrow> mmc_inv s'" "mmcfs_readdir_r F h d s = Some (e, s') \<Longrightarrow> mmc_inv s'"
    "mmcfs_closedir_r h d s = Some (r, s') \<Longrightarrow> mmc_inv s'" "mmcfs_mkdir_r F nm mo d s = Some (r, s') \<Longrightarrow> mmc_inv s'"
    "mmcfs_unlink_r F nm d s = Some (r, s') \<Longrightarrow> mmc_inv s'" "mmcfs_rename_r F nm nm2 d s = Some (r, s') \<Longrightarrow> mmc_inv s'"
  using assms
  by (auto simp: mmcfs_opendir_r_def mmcfs_readdir_r_def mmcfs_closedir_r_def mmcfs_mkdir_r_def mmcfs_unlink_r_def mmcfs_rename_r_def Let_def
      split: if_split_asm prod.split_asm bind_split_asm)

text \<open>The states that calls of the device lead to, in any order, when only open files are closed.\<close>

inductive mmc_reachable :: "mmc_lib \<Rightarrow> ('x, 'y, 'm) fatfs \<Rightarrow> ('x, 'y, 'm) mmc_state \<Rightarrow> bool" for L F where
  mmc_begin: "mmc_reachable L F (mmc_start F m)"
| mmc_open: "mmc_reachable L F s \<Longrightarrow> mmcfs_open_r L F path flags mode d s = Some (r, s') \<Longrightarrow> mmc_reachable L F s'"
| mmc_close: "mmc_reachable L F s \<Longrightarrow> mmcfs_close_r F fd d s = Some (r, s') \<Longrightarrow> fil_fs (mmcfs_fd_table s ! fd) \<Longrightarrow> mmc_reachable L F s'"
| mmc_write: "mmc_reachable L F s \<Longrightarrow> mmcfs_write_r F fd bs d s = Some (r, s') \<Longrightarrow> mmc_reachable L F s'"
| mmc_read: "mmc_reachable L F s \<Longrightarrow> mmcfs_read_r F fd n d s = Some (q, s') \<Longrightarrow> mmc_reachable L F s'"
| mmc_lseek: "mmc_reachable L F s \<Longrightarrow> mmcfs_lseek_r L F fd off wh d s = Some (t, s') \<Longrightarrow> mmc_reachable L F s'"
| mmc_opendir: "mmc_reachable L F s \<Longrightarrow> mmcfs_opendir_r L F nm d s = Some (r, s') \<Longrightarrow> mmc_reachable L F s'"
| mmc_readdir: "mmc_reachable L F s \<Longrightarrow> mmcfs_readdir_r F h d s = Some (e, s') \<Longrightarrow> mmc_reachable L F s'"
| mmc_closedir: "mmc_reachable L F s \<Longrightarrow> mmcfs_closedir_r h d s = Some (r, s') \<Longrightarrow> mmc_reachable L F s'"
| mmc_mkdir: "mmc_reachable L F s \<Longrightarrow> mmcfs_mkdir_r F nm mo d s = Some (r, s') \<Longrightarrow> mmc_reachable L F s'"
| mmc_unlink: "mmc_reachable L F s \<Longrightarrow> mmcfs_unlink_r F nm d s = Some (r, s') \<Longrightarrow> mmc_reachable L F s'"
| mmc_rename: "mmc_reachable L F s \<Longrightarrow> mmcfs_rename_r F nm nm2 d s = Some (r, s') \<Longrightarrow> mmc_reachable L F s'"

lemma mmc_reachable_inv: "mmc_reachable L F s \<Longrightarrow> fat_ok F \<Longrightarrow> mmc_inv s"
  by (induction rule: mmc_reachable.induct)
    (blast intro: mmc_start_inv mmc_open_inv mmc_close_inv mmc_files_inv mmc_dirs_inv)+


lemma mmc_free_entry: "mmc_inv s \<Longrightarrow> mmcfs_num_fd s \<noteq> int MMCFS_MAX_FDS \<Longrightarrow> \<exists>fd. mmcfs_find_empty_fd (mmcfs_fd_table s) = Some fd"
  by (cases "mmcfs_find_empty_fd (mmcfs_fd_table s)") (simp_all add: mmc_inv_def mmcfs_find_empty_fd_None)

lemma mmc_open_total:
  assumes "mmc_inv s" "lib_asprintf L \<noteq> None"
  shows "mmcfs_open_r L F path flags mode d s \<noteq> None"
proof (cases "mmcfs_num_fd s = int MMCFS_MAX_FDS")
  case False
  with mmc_free_entry [OF assms(1)] assms(2) show ?thesis by (auto simp: mmcfs_open_r_def Let_def split: option.split bool.split prod.split)
qed (simp add: mmcfs_open_r_def)

lemma mmc_open_fresh: "mmcfs_open_r L F path flags mode d s = Some (Inr fd, s') \<Longrightarrow> fd < length (mmcfs_fd_table s) \<and> \<not> fil_fs (mmcfs_fd_table s ! fd)"
  by (elim mmc_open_ok) (rule mmcfs_find_empty_fd_Some)

interpretation mmcdev: dm_fs "mmcfs_device L F" "mmcfs_open_r L F" mmc_inv for L F
proof
  show "p_open_r (mmcfs_device L F) = Some (mmcfs_open_r L F)" by (simp add: mmcfs_device_def)
  show "fd < 2 ^ 11" if "mmc_inv s" "mmcfs_open_r L F nm flags mode d s = Some (Inr fd, s')" for s nm flags mode d fd s'
    using mmc_open_fresh [OF that(2)] that(1) by (simp add: mmc_inv_def MMCFS_MAX_FDS_def)
qed

text \<open>Reading.\<close>

lemma mmc_mode_read: "mmc_mode newlib_consts (scrub_binary L 0) = Some FA_READ"
  by (simp add: mmc_mode_def mmc_create_mode_def mmc_access_mode_def scrub_binary_def O_ACCMODE_def newlib_consts_def fa_flags split: option.split)

lemma mmc_open_read:
  assumes "mmc_inv s" "mmcfs_num_fd s \<noteq> int MMCFS_MAX_FDS" "lib_asprintf L = Some True" "lib_consts L = newlib_consts"
    and "f_open F (mmc_path d path) FA_READ (mmc_cards s) = (FR_OK, f, c)"
  obtains fd s' where "mmcfs_open_r L F path 0 0 d s = Some (Inr fd, s')" "mmc_cards s' = c" "fd < length (mmcfs_fd_table s')" "mmcfs_fd_table s' ! fd = f"
proof -
  obtain fd where fd: "mmcfs_find_empty_fd (mmcfs_fd_table s) = Some fd" using mmc_free_entry [OF assms(1,2)] by blast
  have "mmcfs_open_r L F path 0 0 d s = Some (Inr fd, s\<lparr>mmcfs_fd_table := (mmcfs_fd_table s)[fd := f], mmcfs_num_fd := mmcfs_num_fd s + 1, mmc_fileObject := f, mmc_cards := c\<rparr>)"
    using assms(2-5) fd by (simp add: mmcfs_open_r_def mmc_mode_read)
  then show thesis by (rule that) (use mmcfs_find_empty_fd_Some [OF fd] in simp_all)
qed

section \<open>Properties\<close>

text \<open>C22. Whatever calls of the device are made in whatever order, provided that only open files are closed (closing a number that is not open
  counts it again), that FatFs gives an opened file its file system and leaves it there in the other calls, and that \<open>asprintf\<close> gives a block or fails: the counter of open files is the
  number of entries of the table that are in use. So opening a file never runs over the end of the table: it returns an error and leaves the table
  as it is, or the number of an entry that was free and that is now in use, and no other entry changes.\<close>

theorem mmcfs_descriptors:
  assumes "fat_ok F" and "mmc_reachable L F s" and "lib_asprintf L \<noteq> None"
  shows "mmcfs_num_fd s = int (length (filter fil_fs (mmcfs_fd_table s))) \<and>
    (case mmcfs_open_r L F path flags mode d s of None \<Rightarrow> False
     | Some (Inl _, s') \<Rightarrow> mmcfs_fd_table s' = mmcfs_fd_table s
     | Some (Inr fd, s') \<Rightarrow> fd < MMCFS_MAX_FDS \<and> \<not> fil_fs (mmcfs_fd_table s ! fd) \<and> fil_fs (mmcfs_fd_table s' ! fd) \<and>
         (\<forall>x. x \<noteq> fd \<longrightarrow> mmcfs_fd_table s' ! x = mmcfs_fd_table s ! x))"
proof -
  have inv: "mmc_inv s" using mmc_reachable_inv assms(1,2) by blast
  obtain r s' where o: "mmcfs_open_r L F path flags mode d s = Some (r, s')" using mmc_open_total [OF inv assms(3)] by fast
  show ?thesis
  proof (cases r)
    case (Inl e)
    then show ?thesis using inv o mmc_open_err [of L F path flags mode d s e s'] by (simp add: mmc_inv_def)
  next
    case (Inr fd)
    obtain m f c where f: "f_open F (mmc_path d path) m (mmc_cards s) = (FR_OK, f, c)"
      "mmcfs_fd_table s' = (mmcfs_fd_table s)[fd := if word_of_int mode AND O_APPEND (lib_consts L) \<noteq> 0 then f\<lparr>fil_fptr := fil_fsize f\<rparr> else f]"
      using o unfolding Inr by (rule mmc_open_ok)
    have "fil_fs f" using assms(1) f(1) unfolding fat_ok_def by blast
    then show ?thesis using inv mmc_open_fresh [OF o [unfolded Inr]] o Inr f(2) by (simp add: mmc_inv_def)
  qed
qed

text \<open>A card with one file, whose contents are the state; it can be read and replaced, and nothing else.\<close>

definition demo_fat :: "(unit, unit, u8 list) fatfs" where
  "demo_fat = \<lparr>f_open = (\<lambda>p m c. (0, \<lparr>fil_fs = True, fil_fptr = 0, fil_fsize = word_of_nat (length c), fil_rest = ()\<rparr>, c)),
     f_close = (\<lambda>f c. (0, f, c)), f_write = (\<lambda>f bs c. (0, length bs, f, bs)), f_read = (\<lambda>f n c. (0, take n c, f, c)), f_lseek = (\<lambda>f p c. (1, f, c)),
     f_opendir = (\<lambda>p c. (4, (), c)), f_readdir = (\<lambda>d c. (4, \<lparr>fi_fsize = 0, fi_ftime = 0, fi_fattrib = 0, fi_fname = [], fi_lfname = []\<rparr>, (), c)),
     f_mkdir = (\<lambda>p c. (7, c)), f_unlink = (\<lambda>p c. (4, c)), f_rename = (\<lambda>p q c. (4, c)), f_mount = (\<lambda>i c. (0, c)), f_zero = ()\<rparr>"

definition demo_lib :: mmc_lib where
  "demo_lib = \<lparr>lib_consts = newlib_consts, lib_binary = Some 0x10000, lib_asprintf = Some True, lib_data = True, lib_dir = True, lib_ent = True\<rparr>"

definition demo_cards :: "(nat, nat, (unit, unit, u8 list) mmc_state) dm_table" where
  "demo_cards = [\<lparr>dm_name = mmc_name, dm_pdata = 0, dm_pdev = mmcfs_device demo_lib demo_fat\<rparr>]"

lemma demo_fat_ok: "fat_ok demo_fat"
  by (simp add: fat_ok_def demo_fat_def FR_OK_def)

lemma demo_paths:
  "dm_inv demo_cards" "0 < length demo_cards" "dm_pdev (demo_cards ! 0) = mmcfs_device demo_lib demo_fat" "dm_pdata (demo_cards ! 0) = 0"
  "dm_path_of (dm_name (demo_cards ! 0)) [c] [slash, 0x6D, 0x6D, 0x63, slash, c]"
  using dm_path_of_below [of "[0x6D, 0x6D, 0x63]" mmc_name "[c]" "[c]"]
  by (simp_all add: demo_cards_def mmc_name_def dm_inv_def dm_name_ok_def DM_MAX_DEVICES_def DM_MAX_DEV_NAME_def strcaseeq_def)

theorem mmcfs_descriptors_witness:
  "\<exists>s1 s2 s3 s4. mmcfs_open_r demo_lib demo_fat [0x61] 0 0 0 (mmc_start demo_fat [7, 8]) = Some (Inr 0, s1) \<and>
     mmcfs_open_r demo_lib demo_fat [0x61] 0 0 0 s1 = Some (Inr 1, s2) \<and> mmcfs_read_r demo_fat 0 1 0 s2 = Some (Inr [7], s3) \<and>
     mmcfs_close_r demo_fat 0 0 s3 = Some (Inr 0, s4) \<and> mmcfs_num_fd s4 = 1 \<and> length (filter fil_fs (mmcfs_fd_table s4)) = 1"
proof -
  let ?f = "\<lparr>fil_fs = True, fil_fptr = 0, fil_fsize = 2, fil_rest = ()\<rparr>"
  let ?s0 = "mmc_start demo_fat [7, 8]"
  define s1 where "s1 = ?s0\<lparr>mmcfs_fd_table := (mmcfs_fd_table ?s0)[0 := ?f], mmcfs_num_fd := 1, mmc_fileObject := ?f\<rparr>"
  define s2 where "s2 = s1\<lparr>mmcfs_fd_table := (mmcfs_fd_table s1)[1 := ?f], mmcfs_num_fd := 2, mmc_fileObject := ?f\<rparr>"
  define s4 where "s4 = s2\<lparr>mmcfs_fd_table := (mmcfs_fd_table s2)[0 := fil_cleared demo_fat], mmcfs_num_fd := 1\<rparr>"
  have o1: "mmcfs_open_r demo_lib demo_fat [0x61] 0 0 0 ?s0 = Some (Inr 0, s1)"
    by (simp add: mmcfs_open_r_def s1_def mmc_start_def mmc_mode_read demo_lib_def demo_fat_def FR_OK_def MMCFS_MAX_FDS_def
        fil_cleared_def numeral_eq_Suc)
  have o2: "mmcfs_open_r demo_lib demo_fat [0x61] 0 0 0 s1 = Some (Inr 1, s2)"
    by (simp add: mmcfs_open_r_def s2_def s1_def mmc_start_def mmc_mode_read demo_lib_def demo_fat_def FR_OK_def MMCFS_MAX_FDS_def
        fil_cleared_def numeral_eq_Suc)
  have r: "mmcfs_read_r demo_fat 0 1 0 s2 = Some (Inr [7], s2)" and c: "mmcfs_close_r demo_fat 0 0 s2 = Some (Inr 0, s4)"
    by (simp_all add: mmcfs_read_r_def mmcfs_close_r_def s4_def s2_def s1_def mmc_start_def demo_fat_def FR_OK_def MMCFS_MAX_FDS_def
        fil_cleared_def numeral_eq_Suc)
  have "mmc_reachable demo_lib demo_fat s2"
    by (rule mmc_open [OF mmc_open [OF mmc_begin o1] o2])
  moreover have "fil_fs (mmcfs_fd_table s2 ! 0)"
    by (simp add: s2_def s1_def mmc_start_def MMCFS_MAX_FDS_def numeral_eq_Suc)
  ultimately have "mmc_reachable demo_lib demo_fat s4"
    using mmc_close [OF mmc_read [OF _ r] c] by simp
  from mmcfs_descriptors [OF demo_fat_ok this] have "mmcfs_num_fd s4 = int (length (filter fil_fs (mmcfs_fd_table s4)))"
    by (simp add: demo_lib_def)
  moreover have "mmcfs_num_fd s4 = 1" by (simp add: s4_def)
  ultimately show ?thesis using o1 o2 r c by auto
qed

text \<open>Opening the path of a file on a card for reading and reading from the descriptor gives the bytes that FatFs reads from the file with
  the number of the card in front of its name.\<close>

theorem mmc_reads_file:
  assumes T: "dm_inv T" "i < length T" "dm_pdev (T ! i) = mmcfs_device L F" "dm_path_of (dm_name (T ! i)) a p" "a \<noteq> []"
    and s: "mmc_inv s" "mmcfs_num_fd s \<noteq> int MMCFS_MAX_FDS" and L: "lib_asprintf L = Some True" "lib_consts L = newlib_consts"
    and f: "f_open F (mmc_path (dm_pdata (T ! i)) a) FA_READ (mmc_cards s) = (FR_OK, f, c1)" "f_read F f n c1 = (FR_OK, bs, f2, c2)"
  shows "\<exists>desc s1 s2. open_r (Some p) (O_RDONLY newlib_consts) 0 T s = Some (Inr desc, s1) \<and> read_r desc n T s1 = Some (Inr bs, s2) \<and> mmc_cards s2 = c2"
proof -
  obtain fd s1 where o: "mmcfs_open_r L F a 0 0 (dm_pdata (T ! i)) s = Some (Inr fd, s1)" "mmc_cards s1 = c1" "fd < length (mmcfs_fd_table s1)"
    "mmcfs_fd_table s1 ! fd = f"
    by (rule mmc_open_read [OF s L f(1)])
  have ent: "find_dm_entry (Some p) T = Some (i, a)" using T by (simp add: find_dm_entry_eq)
  then have op: "open_r (Some p) 0 0 T s = Some (Inr (DM_MAKE_DESC i fd), s1)" using o(1) by (simp add: open_r_def T(3) mmcdev.has_open)
  obtain s2 where rd: "mmcfs_read_r F fd n (dm_pdata (T ! i)) s1 = Some (Inr bs, s2)" "mmc_cards s2 = c2"
    using o(2-4) f(2) by (simp add: mmcfs_read_r_def)
  have "read_r (DM_MAKE_DESC i fd) n T s1 = Some (Inr bs, s2)"
    using mmcdev.open_dispatch [OF s(1) T(2,3) ent op] o(1) rd(1) by (auto simp: mmcfs_device_def)
  with op rd(2) show ?thesis by (auto simp: newlib_consts_def)
qed

theorem mmc_reads_file_witness:
  "\<exists>desc s1 s2. open_r (Some [slash, 0x6D, 0x6D, 0x63, slash, 0x61]) (O_RDONLY newlib_consts) 0 demo_cards (mmc_start demo_fat [7, 8]) = Some (Inr desc, s1) \<and>
     read_r desc 1 demo_cards s1 = Some (Inr [7], s2) \<and> mmc_cards s2 = [7, 8]"
  by (rule mmc_reads_file [OF demo_paths(1-3,5) _ mmc_start_inv, where ?f = "\<lparr>fil_fs = True, fil_fptr = 0, fil_fsize = 2, fil_rest = ()\<rparr>" and
        ?c1.0 = "[7, 8]" and ?f2.0 = "\<lparr>fil_fs = True, fil_fptr = 0, fil_fsize = 2, fil_rest = ()\<rparr>"])
    (simp_all add: mmc_start_def MMCFS_MAX_FDS_def demo_lib_def demo_fat_def FR_OK_def)

text \<open>C23. Moving a file of a card to another name of the card is reported as done whatever FatFs says: a failure is a positive number, and the shell
  only looks for -1. So \<open>mv\<close> of a file that is not there, or to a name that is taken, prints that it was moved.\<close>

theorem mv_reports_failed_rename:
  assumes T: "dm_inv T" "i < length T" "dm_pdev (T ! i) = mmcfs_device L F" "dm_path_of (dm_name (T ! i)) a p" "dm_path_of (dm_name (T ! i)) b q" "a \<noteq> []" "b \<noteq> []"
    and flags: "has flags SHELL_F_MOVE" and r: "f_rename F a b (mmc_cards s) = (res, c)"
  shows "shellh_cp_or_mv_file k n M T p q flags (u, s) = Some (True, say (Moved p q) u, s\<lparr>mmc_cards := c\<rparr>)"
proof -
  have "find_dm_entry (Some p) T = Some (i, a)" "find_dm_entry (Some q) T = Some (i, b)" using T by (simp_all add: find_dm_entry_eq)
  then have "rename_r (Some p) (Some q) T s = Some (Inr res, s\<lparr>mmc_cards := c\<rparr>)"
    using r by (simp add: rename_r_def T(3) mmcfs_device_def mmcfs_rename_r_def)
  with flags show ?thesis by (simp add: shellh_cp_or_mv_file_def)
qed

theorem mv_reports_failed_rename_witness:
  "f_rename demo_fat [0x61] [0x62] [7] = (4, [7]) \<and>
   shellh_cp_or_mv_file newlib_consts 256 \<lparr>mem_str = (\<lambda>_. True), mem_dir = True, mem_file = True\<rparr> demo_cards
     [slash, 0x6D, 0x6D, 0x63, slash, 0x61] [slash, 0x6D, 0x6D, 0x63, slash, 0x62] SHELL_F_MOVE
     (\<lparr>ui_term = \<lparr>term_num_lines = 25, term_num_cols = 80, term_cx = 0, term_cy = 0, term_input = [], term_output = []\<rparr>, ui_out = []\<rparr>, mmc_start demo_fat [7])
   = Some (True, \<lparr>ui_term = \<lparr>term_num_lines = 25, term_num_cols = 80, term_cx = 0, term_cy = 0, term_input = [], term_output = []\<rparr>,
       ui_out = [Moved [slash, 0x6D, 0x6D, 0x63, slash, 0x61] [slash, 0x6D, 0x6D, 0x63, slash, 0x62]]\<rparr>, mmc_start demo_fat [7])"
proof -
  have r: "f_rename demo_fat [0x61] [0x62] (mmc_cards (mmc_start demo_fat [7])) = (4, [7])" by (simp add: demo_fat_def mmc_start_def)
  have m: "has SHELL_F_MOVE SHELL_F_MOVE" by (simp add: SHELL_F_MOVE_def)
  show ?thesis
    using r by (subst mv_reports_failed_rename [OF demo_paths(1-3,5,5) _ _ m r]) (simp_all add: say_def mmc_start_def)
qed

text \<open>Opening for appending, as \<open>fopen\<close> does it, does not move the position: the device looks for \<open>O_APPEND\<close> in the mode of the new file
  and not in the flags, so the first write goes where FatFs starts, at the beginning of the file.\<close>

theorem mmc_append_position:
  assumes "lib_consts L = newlib_consts" and "lib_binary L \<in> {None, Some 0x10000}"
    and "mmcfs_open_r L F path (O_WRONLY newlib_consts OR O_CREAT newlib_consts OR O_APPEND newlib_consts) 0x1B6 d s = Some (Inr fd, s')"
  shows "\<exists>f. f_open F (mmc_path d path) (FA_OPEN_ALWAYS OR FA_WRITE) (mmc_cards s) = (FR_OK, f, mmc_cards s') \<and>
    mmcfs_write_r F fd bs d s' = (let (res, n, f1, c) = f_write F f bs (mmc_cards s')
      in Some (if res \<noteq> FR_OK then Inl (Some EIO) else Inr n, s'\<lparr>mmcfs_fd_table := (mmcfs_fd_table s')[fd := f1], mmc_cards := c\<rparr>))"
proof -
  let ?fl = "O_WRONLY newlib_consts OR O_CREAT newlib_consts OR O_APPEND newlib_consts"
  have m: "mmc_mode (lib_consts L) (scrub_binary L ?fl) = Some (FA_OPEN_ALWAYS OR FA_WRITE)"
    using assms(1,2) by (auto simp: mmc_mode_def mmc_create_mode_def mmc_access_mode_def scrub_binary_def O_ACCMODE_def newlib_consts_def fa_flags)
  obtain m f c where f: "mmc_mode (lib_consts L) (scrub_binary L ?fl) = Some m" "f_open F (mmc_path d path) m (mmc_cards s) = (FR_OK, f, c)"
    "mmc_cards s' = c" "mmcfs_fd_table s' = (mmcfs_fd_table s)[fd := if word_of_int 0x1B6 AND O_APPEND (lib_consts L) \<noteq> 0 then f\<lparr>fil_fptr := fil_fsize f\<rparr> else f]"
    using assms(3) by (rule mmc_open_ok)
  have "(word_of_int 0x1B6 :: u32) AND O_APPEND (lib_consts L) = 0" by (simp add: assms(1) newlib_consts_def)
  then have tab: "mmcfs_fd_table s' ! fd = f" "fd < length (mmcfs_fd_table s')" using f(4) mmc_open_fresh [OF assms(3)] by simp_all
  show ?thesis using f(1-3) m tab by (auto simp: mmcfs_write_r_def)
qed

theorem mmc_append_position_witness:
  "\<exists>fd s' f. mmcfs_open_r demo_lib demo_fat [0x61] 0x209 0x1B6 0 (mmc_start demo_fat [1, 2]) = Some (Inr fd, s') \<and>
     f_open demo_fat (mmc_path 0 [0x61]) (FA_OPEN_ALWAYS OR FA_WRITE) [1, 2] = (FR_OK, f, mmc_cards s') \<and> fil_fptr f = 0 \<and> fil_fsize f = 2"
proof -
  have fl: "O_WRONLY newlib_consts OR O_CREAT newlib_consts OR O_APPEND newlib_consts = 0x209" by (simp add: newlib_consts_def)
  obtain r s' where o: "mmcfs_open_r demo_lib demo_fat [0x61] 0x209 0x1B6 0 (mmc_start demo_fat [1, 2]) = Some (r, s')" "\<exists>fd. r = Inr fd"
    by (simp add: mmcfs_open_r_def mmc_start_def demo_lib_def demo_fat_def FR_OK_def MMCFS_MAX_FDS_def mmc_mode_def mmc_create_mode_def mmc_access_mode_def
        scrub_binary_def O_ACCMODE_def newlib_consts_def fa_flags numeral_eq_Suc fil_cleared_def)
  then show ?thesis
    using mmc_append_position [of demo_lib demo_fat "[0x61]" 0 "mmc_start demo_fat [1, 2]", unfolded fl]
    by (auto simp: demo_lib_def demo_fat_def mmc_start_def)
qed

end
