(* ===== verification/Wofs_Format.thy ===== *)
theory Wofs_Format
  imports Wofs Shell_Commands
begin

text \<open>
  Formatting the write-once file system in internal flash: \<open>wofs_format\<close> of \<open>src/src/romfs.c\<close>, in the variant for real
  hardware, and the command \<open>wofmt\<close> (\<open>src/src/shell/shell_wofmt.c\<close>). The operation of the board that erases a sector is a parameter; the
  interface \<open>erases_sectors\<close> states what the code relies on.
\<close>

section \<open>Definitions\<close>

text \<open>The loop over the sectors. The erase function gives whether it succeeded and the flash; with the last sector number of the
  type as the last sector the loop would not end.\<close>

partial_function (option) format_loop :: "(u32 \<Rightarrow> mem \<Rightarrow> bool \<times> mem) \<Rightarrow> u32 \<Rightarrow> u32 \<Rightarrow> mem \<Rightarrow> (bool \<times> mem) option" where
  "format_loop erase sect_first sect_last M =
     (if sect_first \<le> sect_last
      then case erase sect_first M of (ok, M1) \<Rightarrow> if \<not> ok then Some (False, M1) else format_loop erase (sect_first + 1) sect_last M1
      else Some (True, M))"

text \<open>\<open>low\<close> is the flash below the file system, which starts at \<open>pbase\<close>. A file with the name that is looked for would leave \<open>sect_last\<close>
  without a value. The result has the whole flash.\<close>

definition wofs_format :: "(u32 \<Rightarrow> mem \<Rightarrow> bool \<times> mem) \<Rightarrow> flash_conf \<Rightarrow> u32 \<Rightarrow> mem \<Rightarrow> u32 \<Rightarrow> FSDATA \<Rightarrow> (bool \<times> mem \<times> FSDATA) option" where
  "wofs_format erase k flash_used_size low pbase pfs =
     do {
       let sect_first = snd (platform_flash_get_first_free_block_address k flash_used_size);
       r \<leftarrow> romfs_open_file pfs [1] 0;
       free \<leftarrow> (case r of FS_FILE_NOT_FOUND a \<Rightarrow> Some a | FS_FILE_OK _ _ _ \<Rightarrow> None);
       let sect_last = platform_flash_get_sector_of_address k (free + pbase);
       (ok, M) \<leftarrow> format_loop erase sect_first sect_last (flash_at low pbase (medium pfs));
       Some (ok, M, pfs\<lparr>medium := (\<lambda>x. M (unat pbase + x))\<rparr>)
     }"

text \<open>The command; \<open>fmt\<close> is \<open>wofs_format\<close> on the state of the system.\<close>

definition shell_wofmt :: "('s \<Rightarrow> (bool \<times> 's) option) \<Rightarrow> 's shell_handler" where
  "shell_wofmt fmt argv w =
     (if length argv \<noteq> 1 then Some (say (Usage [0x77, 0x6F, 0x66, 0x6D, 0x74]) (fst w), snd w)
      else do {
        (yes, u1) \<leftarrow> shellh_ask_yes_no (Some Format_question) (say Format_warning (fst w));
        if \<not> yes then Some (u1, snd w)
        else do {
          let u2 = say Formatting u1;
          (ok, s) \<leftarrow> fmt (snd w);
          Some (if ok then say Format_done u2 else say Format_advice (say Format_failed u2), s)
        }
      })"

text \<open>The erase function of the LM3S boards (\<open>src/src/platform/lm3s/platform.c\<close>); \<open>FlashErase\<close> is the function of the driver library.\<close>

definition platform_flash_erase_sector :: "(u32 \<Rightarrow> mem \<Rightarrow> nat \<times> mem) \<Rightarrow> u32 \<Rightarrow> u32 \<Rightarrow> mem \<Rightarrow> bool \<times> mem" where
  "platform_flash_erase_sector FlashErase ssize sector_id M = (case FlashErase (sector_id * ssize) M of (r, M1) \<Rightarrow> (r = 0, M1))"

section \<open>Erasing\<close>

text \<open>The flash with all bytes from \<open>a\<close> up to \<open>b\<close> erased.\<close>

definition erase_range :: "nat \<Rightarrow> nat \<Rightarrow> mem \<Rightarrow> mem" where
  "erase_range a b M = (\<lambda>x. if a \<le> x \<and> x < b then 0xFF else M x)"

lemma erase_range_step: "a \<le> b \<Longrightarrow> b \<le> c \<Longrightarrow> erase_range b c (erase_range a b M) = erase_range a c M"
  by (auto simp: erase_range_def)

text \<open>The sectors \<open>0\<close> to \<open>n - 1\<close> of size \<open>S\<close>, from the address \<open>st\<close> on.\<close>

locale erases_sectors =
  fixes erase :: "u32 \<Rightarrow> mem \<Rightarrow> bool \<times> mem" and st S n :: nat
  assumes erase_sector: "unat s < n \<Longrightarrow> erase s M = (True, erase_range (st + unat s * S) (st + (unat s + 1) * S) M)"
begin

lemma loop_erases:
  "a \<le> b \<Longrightarrow> unat b < n \<Longrightarrow> unat b + 1 < 2 ^ 32 \<Longrightarrow>
   format_loop erase a b M = Some (True, erase_range (st + unat a * S) (st + (unat b + 1) * S) M)"
proof (induction "unat b - unat a" arbitrary: a M)
  case 0
  then have ab: "a = b" by (simp add: word_le_nat_alt word_unat_eq_iff)
  have "unat (b + 1) = unat b + 1" using "0.prems"(3) unat_add_lem [of b 1] by simp
  then have "\<not> b + 1 \<le> b" by (simp add: word_le_nat_alt)
  with ab "0.prems" erase_sector [of b M] show ?case
    by (subst format_loop.simps) (simp add: format_loop.simps [of erase "b + 1"])
next
  case (Suc d)
  have ab: "unat a < unat b" "unat (a + 1) = unat a + 1"
    using Suc.hyps(2) Suc.prems(3) unat_add_lem [of a 1] by (simp_all, linarith)
  have "format_loop erase a b M = format_loop erase (a + 1) b (erase_range (st + unat a * S) (st + (unat a + 1) * S) M)"
    using Suc.prems ab(1) erase_sector [of a M] by (subst format_loop.simps) simp
  also have "\<dots> = Some (True, erase_range (st + (unat a + 1) * S) (st + (unat b + 1) * S) (erase_range (st + unat a * S) (st + (unat a + 1) * S) M))"
    using Suc.hyps Suc.prems ab by (subst Suc.hyps(1)) (simp_all add: word_le_nat_alt)
  also have "\<dots> = Some (True, erase_range (st + unat a * S) (st + (unat b + 1) * S) M)"
    using ab(1) by (subst erase_range_step) (simp_all add: mult_le_mono1)
  finally show ?case .
qed

end

text \<open>The driver library on a flash that works, and the boards with 256 sectors of a kilobyte.\<close>

definition nor_erase :: "u32 \<Rightarrow> u32 \<Rightarrow> mem \<Rightarrow> nat \<times> mem" where
  "nor_erase ssize a M = (0, erase_range (unat a) (unat a + unat ssize) M)"

interpretation lm3s_erase: erases_sectors "platform_flash_erase_sector (nor_erase 1024) 1024" 0 1024 256
proof
  fix s :: u32 and M assume "unat s < 256"
  then have "unat (s * 1024) = unat s * 1024" using unat_mult_lem [of s 1024] by simp
  moreover have "unat (1024 :: u32) = 1024" by simp
  ultimately show "platform_flash_erase_sector (nor_erase 1024) 1024 s M = (True, erase_range (0 + unat s * 1024) (0 + (unat s + 1) * 1024) M)"
    unfolding platform_flash_erase_sector_def nor_erase_def by (simp only: prod.case add_0 add_mult_distrib mult_1 simp_thms prod.inject)
qed

section \<open>Formatting\<close>

lemma first_free_block:
  assumes k: "flash_conf_ok k" "flash_layout k = FLASH_SECTOR_SIZE ss" "in_flash k (used + FLASH_START_ADDRESS k - 1)"
    and f: "platform_flash_get_first_free_block_address k used = (pbase, sect)"
  shows "unat pbase = unat (FLASH_START_ADDRESS k) + unat sect * unat ss"
proof -
  let ?st = "FLASH_START_ADDRESS k"
  define q where "q = (used + ?st - 1 - ?st) div ss"
  note u = find_sector_uniform [OF k(1,3,2), folded q_def]
  have "pbase = (q + 1) * ss + ?st" "sect = q + 1"
    using f by (auto simp: platform_flash_get_first_free_block_address_def flashh_find_sector_def k(2) Let_def q_def)
  moreover have "unat ((q + 1) * ss + ?st) = unat ((q + 1) * ss) + unat ?st"
    using u(3) k(1) by (intro unat_add_le) (simp add: flash_conf_ok_def)
  ultimately show ?thesis using u(7) by simp
qed

lemma wofs_ok_erased:
  assumes "wofs_ok pfs fs e" "erased m 0 (unat (max_size pfs))"
  shows "wofs_ok (pfs\<lparr>medium := m\<rparr>) [] 0"
proof -
  note o = assms(1) [unfolded wofs_ok_def]
  have "m 0 = 0xFF" using assms(2) o unfolding erased_def by (metis add_0 add_gr_0 less_le_trans zero_less_numeral)
  with o assms(2) show ?thesis
    by (simp add: wofs_ok_def romfsh_is_wofs_def fs_reads_def live_names_def WOFS_END_MARKER_CHAR_def)
qed

text \<open>C21. Formatting the write-once file system of a board with sectors of one size, whatever files it holds, succeeds and erases
  exactly the sectors from the first of the file system up to the one with its first free byte \<open>e\<close>: these read 0xFF, every
  other byte of the flash keeps its value, those of the program below the file system and those of the sectors above the first free byte
  included. That is enough: afterwards it is a file system without files, with all of its space free.\<close>

theorem wofs_format_empties:
  assumes er: "erases_sectors erase (unat (FLASH_START_ADDRESS k)) (unat ss) (unat (FLASH_SIZE k) div unat ss)"
    and k: "flash_conf_ok k" "flash_layout k = FLASH_SECTOR_SIZE ss" "in_flash k (used + FLASH_START_ADDRESS k - 1)"
    and base: "pbase = fst (platform_flash_get_first_free_block_address k used)"
    and fs: "wofs_ok pfs fs e" "unat pbase + unat (max_size pfs) \<le> unat (FLASH_START_ADDRESS k) + unat (FLASH_SIZE k)"
  shows "\<exists>M pfs'. wofs_format erase k used low pbase pfs = Some (True, M, pfs') \<and> wofs_ok pfs' [] 0 \<and> max_size pfs' = max_size pfs \<and>
    M = erase_range (unat pbase) (unat (FLASH_START_ADDRESS k) + ((unat pbase + e - unat (FLASH_START_ADDRESS k)) div unat ss + 1) * unat ss)
      (flash_at low pbase (medium pfs))"
proof -
  let ?st = "FLASH_START_ADDRESS k" and ?mx = "unat (max_size pfs)"
  note o = fs(1) [unfolded wofs_ok_def]
  define sect where "sect = snd (platform_flash_get_first_free_block_address k used)"
  have pb: "unat pbase = unat ?st + unat sect * unat ss" by (rule first_free_block [OF k]) (simp add: base sect_def)
  have e: "e < ?mx" "unat (word_of_nat e :: u32) = e" using o by (simp, intro unat_of_nat_less, simp)
  have look: "romfs_open_file pfs [1] 0 = Some (FS_FILE_NOT_FOUND (word_of_nat e))"
    using romfs_open_file_eq [of pfs ?mx True 0 fs e "[1]"] img_lookup_None [of True "medium pfs" 0 fs e "[1]"] o by simp
  have ad: "unat (word_of_nat e + pbase) = e + unat pbase"
    using e fs(2) k(1) by (subst unat_add_le) (simp_all add: flash_conf_ok_def)
  have inf: "in_flash k (word_of_nat e + pbase)" using ad e(1) fs(2) pb by (simp add: in_flash_def)
  define q where "q = (word_of_nat e + pbase - ?st) div ss"
  note u = find_sector_uniform [OF k(1) inf k(2), folded q_def]
  have sl: "platform_flash_get_sector_of_address k (word_of_nat e + pbase) = q"
    by (simp add: platform_flash_get_sector_of_address_def flashh_find_sector_def k(2) Let_def q_def)
  have qn: "unat q < unat (FLASH_SIZE k) div unat ss" using u(4) by (simp add: word_less_nat_alt unat_div)
  have ss: "0 < unat ss" using k(1,2) by (simp add: flash_conf_ok_def unat_gt_0)
  have "unat q = (e + unat sect * unat ss) div unat ss" using u(5) ad pb by simp
  then have le: "sect \<le> q" using ss by (simp add: word_le_nat_alt)
  have q1: "unat q + 1 < 2 ^ 32" using u(6) unsigned_less [of "q + 1", where ?'a = nat] by simp
  let ?M = "erase_range (unat pbase) (unat ?st + (unat q + 1) * unat ss) (flash_at low pbase (medium pfs))"
  have loop: "format_loop erase sect q (flash_at low pbase (medium pfs)) = Some (True, ?M)"
    using erases_sectors.loop_erases [OF er le qn q1] pb by simp
  have top: "unat pbase + e < unat ?st + (unat q + 1) * unat ss" using u(2,6,7) ad pb by simp
  have "?M (unat pbase + x) = 0xFF" if "x < ?mx" for x
  proof (cases "x \<le> e")
    case True
    with top show ?thesis by (simp add: erase_range_def)
  next
    case False
    have "\<forall>y<?mx - e. medium pfs (e + y) = 0xFF" using o by (simp add: erased_def)
    from this [rule_format, of "x - e"] False that have "medium pfs x = 0xFF" by simp
    then show ?thesis by (simp add: erase_range_def flash_at_def)
  qed
  then have "wofs_ok (pfs\<lparr>medium := (\<lambda>x. ?M (unat pbase + x))\<rparr>) [] 0" by (intro wofs_ok_erased [OF fs(1)]) (simp add: erased_def)
  moreover have "wofs_format erase k used low pbase pfs = Some (True, ?M, pfs\<lparr>medium := (\<lambda>x. ?M (unat pbase + x))\<rparr>)"
    by (simp add: wofs_format_def look sl loop flip: sect_def)
  moreover have "unat q = (unat pbase + e - unat ?st) div unat ss" using u(5) ad by (simp add: add.commute)
  ultimately show ?thesis by (intro exI conjI) (assumption | simp)+
qed

text \<open>A file system with the file \<open>a\<close>, whose contents are the bytes 7 and 8.\<close>

definition format_demo :: FSDATA where
  "format_demo = lm3s_wofs\<lparr>medium := (\<lambda>x. if x < 16 then [0x61, 0, 0xFF, 0xFF, 0xFF, 0xFF, 0xFF, 0xFF, 2, 0, 0, 0, 7, 8, 0xFF, 0xFF] ! x else 0xFF)\<rparr>"

lemma format_demo_ok: "wofs_ok format_demo [\<lparr>f_name = [0x61], f_data = [7, 8], f_deleted = False\<rparr>] 16"
  using lm3s_wofs.wofs_storage_axioms [of "\<lambda>x. 0"]
  by (simp add: format_demo_def wofs_ok_def lm3s_wofs_def romfsh_is_wofs_def romfs_flags fs_reads_def fs_entry_def data_pos_def hdr_pos_def
      next_pos_def align4_def name_ok_def DM_MAX_FNAME_LENGTH_def rd_bytes_def upt_rec le32_def WOFS_END_MARKER_CHAR_def del_field_def
      erased_def live_names_def name_matches_def strncaseeq_def tolower_def)

theorem wofs_format_empties_witness:
  "\<exists>M pfs'. wofs_format (platform_flash_erase_sector (nor_erase 1024) 1024) \<lparr>FLASH_START_ADDRESS = 0, FLASH_SIZE = 0x40000, flash_layout = FLASH_SECTOR_SIZE 1024\<rparr>
       0x20000 (\<lambda>x. 5) 0x20000 format_demo = Some (True, M, pfs') \<and> medium format_demo 0 = 0x61 \<and> wofs_ok pfs' [] 0 \<and>
     M 0x1FFFF = 5 \<and> M 0x20000 = 0xFF \<and> M 0x203FF = 0xFF"
proof -
  let ?k = "\<lparr>FLASH_START_ADDRESS = 0, FLASH_SIZE = 0x40000, flash_layout = FLASH_SECTOR_SIZE 1024\<rparr>"
  have er: "erases_sectors (platform_flash_erase_sector (nor_erase 1024) 1024) (unat (FLASH_START_ADDRESS ?k)) (unat (1024 :: u32)) (unat (FLASH_SIZE ?k) div unat (1024 :: u32))"
    using lm3s_erase.erases_sectors_axioms by simp
  have k: "flash_conf_ok ?k" "flash_layout ?k = FLASH_SECTOR_SIZE 1024" "in_flash ?k (0x20000 + FLASH_START_ADDRESS ?k - 1)"
    by (simp_all add: flash_conf_ok_def in_flash_def)
  have base: "0x20000 = fst (platform_flash_get_first_free_block_address ?k 0x20000)"
    by (simp add: platform_flash_get_first_free_block_address_def flashh_find_sector_def)
  have mx: "unat (0x20000 :: u32) + unat (max_size format_demo) \<le> unat (FLASH_START_ADDRESS ?k) + unat (FLASH_SIZE ?k)"
    by (simp add: format_demo_def lm3s_wofs_def)
  have "medium format_demo 0 = 0x61" by (simp add: format_demo_def)
  with wofs_format_empties [OF er k base format_demo_ok mx, of "\<lambda>x. 5"] show ?thesis by (auto simp: erase_range_def flash_at_def)
qed

end
