(* ===== verification/Spec2Isabelle.thy ===== *)
theory Spec2Isabelle
  imports Buf Elua_Int Rfs_Client Sermux Romfs_Device Timers Genstd Salloc_Store Xmodem_Transfer Adc_Setup Shell_Session Shell_Files Mmcfs Wofs_Format
begin

text \<open>
  A verification library for the portable core of Alcor6L, a run-time system for microcontrollers (sources under
  \<open>src/\<close>). The interpreters, the network stack, FatFs and the chip libraries that the system carries along are
  third-party code; the development models what Alcor6L itself adds: buffers, interrupts, timers, the
  device manager and its file systems, the remote file system, the serial multiplexer, memory, the console and
  the shell's means of input and transfer.

  \<^bold>\<open>How the code is modelled.\<close>
  Integers with a width in C are words of that width; sizes that cannot wrap are naturals. A
  structure is a record, the variables of a module are the record of its state, and every function is a
  definition of the same name that returns the new state. \<open>None\<close> stands for what C leaves undefined, such as an
  access outside of an allocation or a call through a null pointer, and for a loop that does not end;
  return codes and \<open>errno\<close> are values. A theorem that says that an operation gives \<open>Some\<close> a
  result therefore includes that it ends and stays within its memory. Interrupts are explicit: a
  handler is a step that may happen between two steps of the interrupted function. Functions that
  are not in the repository, or belong to a chip (\<open>realloc\<close>, flash controller, UART, POSIX calls of the host),
  are parameters, and what is relied upon is stated as a hypothesis or as a locale that is interpreted.

  \<^bold>\<open>Theories and sources.\<close>

  \<^item> \<open>Prelude\<close>: word types, byte memories, little-endian codecs, C strings, shared lemmas.
  \<^item> \<open>Queues\<close>: the contract of a bounded queue between an interrupt handler and the main program, the locale
    \<open>fifo_queue\<close>. It is interpreted by the buffers (\<open>Buf\<close>) and by the interrupt queue (\<open>Elua_Int\<close>).
  \<^item> \<open>Buf\<close>: \<open>src/src/buf.c\<close>. Ring buffers over the bytes that \<open>realloc\<close> returns. Any run of calls, full and
    empty buffers included, returns what the specification on a list returns; a read that interrupt handlers interrupt with writes at any
    points is a read followed by the writes, as long as there is room.
  \<^item> \<open>Elua_Int\<close>: \<open>src/src/elua_int.c\<close>. The queue of pending interrupts, its hook, the enable flags and the handlers. Any run of
    raising, enabling, disabling and of the VM reaching the hook is that of an abstract list of pending interrupts, with handlers that use interrupts themselves.
  \<^item> \<open>Eluarpc\<close>: \<open>src/src/eluarpc.c\<close>. Packets: what is written is read back, and exactly the well-formed packets are
    accepted. The locale \<open>field_codec\<close> has one interpretation for each kind of field.
  \<^item> \<open>Remotefs\<close>, \<open>Rfs_Server\<close>, \<open>Rfs_Client\<close>: \<open>src/src/remotefs\<close>, \<open>src/rfs_server_src\<close>. The messages, the
    server over the POSIX calls and its memory transport, the client and its device driver. Calls on the device
    are shown to do what the calls on the host do; reads and writes of any length end. What the client needs from
    the line is the locale \<open>rfs_transport\<close>, interpreted by the loop of client, line and server.
  \<^item> \<open>Sermux\<close>: \<open>src/src/common_uart.c\<close>, \<open>src/mux_src/main.c\<close>. Virtual UARTs over one line: bytes reach the host's services in one direction
    and the buffers of the device in the other, and the recovery by a repeated byte.
  \<^item> \<open>Devman\<close>: \<open>src/src/newlib/devman.c\<close>, \<open>src/src/newlib/stubs.c\<close>. The table of devices, paths, descriptors, and the
    system calls. What it needs from a file system is the locale \<open>dm_fs\<close>, interpreted by \<open>Romfs_Device\<close>.
  \<^item> \<open>Flash\<close>, \<open>Romfs\<close>, \<open>Wofs\<close>, \<open>Romfs_Device\<close>: flash functions of \<open>src/src/common.c\<close>, \<open>src/src/romfs.c\<close>. Lookup, reading,
    listing, writing once; What a write to flash does is stated in the locale \<open>flash_driver\<close> and in the two contracts that give it, \<open>flash_once\<close> (a word
    can be programmed once between erases, as the driver documents) and \<open>nor_flash\<close> (programming clears bits, which is how the write-once file system marks
    files deleted); the driver's function, with and without a write buffer, interprets them. The locale \<open>wofs_storage\<close> is interpreted by the flash of the lm3s
    family. Files are found, read and written as in an abstract list of files; the table of descriptors that the file systems share keeps all
    positions within the files.
  \<^item> \<open>Timers\<close>: \<open>src/src/common_tmr.c\<close>. Virtual timers, match interrupts, the system timer, time differences of any timer and
    where they overflow.
  \<^item> \<open>Genstd\<close>: \<open>src/src/newlib/genstd.c\<close>. Lines from the console with their corrections.
  \<^item> \<open>Sbrk\<close>, \<open>Salloc\<close>, \<open>Salloc_Heap\<close>, \<open>Salloc_Store\<close>: \<open>_sbrk_r\<close> and \<open>src/src/salloc.c\<close>. The allocator over the bytes
    of the memory refines a store of separate blocks; the interface of its clients is the locale \<open>block_heap\<close>.
  \<^item> \<open>Xmodem\<close>, \<open>Xmodem_Transfer\<close>: \<open>src/src/xmodem.c\<close>. The receiver, and complete transfers over a line with
    errors; the locale \<open>serial_line\<close> is interpreted by a sender that follows the protocol.
  \<^item> \<open>Adc\<close>, \<open>Adc_Sampling\<close>, \<open>Adc_Setup\<close>: \<open>src/src/elua_adc.c\<close>, the functions for it in \<open>src/src/common.c\<close>, and the interrupt
    handler in \<open>src/src/platform/lm3s/platform.c\<close>. From setting up a channel to smoothed samples: the values read are means of
    the last samples.
  \<^item> \<open>Terminal\<close>, \<open>Linenoise\<close>, \<open>Linenoise_Edit\<close>: \<open>src/src/term.c\<close>, the console functions of \<open>src/src/common.c\<close>,
    \<open>src/src/linenoise.c\<close>. Keys as bytes, and a line editor that refines an editor on lists for the
    characters and keys that it has a case for (other key codes reach \<open>isprint\<close> outside of its domain, and the model gives \<open>None\<close>).
  \<^item> \<open>Common_Fs\<close>: \<open>src/src/common_fs.c\<close>. Patterns of file names, paths, and the walker over directories.
  \<^item> \<open>Shell\<close>, \<open>Shell_Session\<close>: \<open>src/src/shell/shell.c\<close>. The command line, and sessions over the line editor, specified by the words of the lines typed.
  \<^item> \<open>Shell_Commands\<close>: \<open>src/src/shell/shell.c\<close> (\<open>shellh_ask_yes_no\<close>, \<open>shellh_cp_file\<close>), \<open>shell_adv_cp_mv.c\<close>, \<open>shell_adv_rm.c\<close>, \<open>shell_ls.c\<close>,
    \<open>shell_mkdir.c\<close>, and the loop of \<open>shell_recv.c\<close> that drops padding. The handlers, over the walker and the device manager.
  \<^item> \<open>Shell_Files\<close>: the commands on the file systems of the board. The locale \<open>flat_dir\<close> is a directory without subdirectories as the walker
    sees it, \<open>copy_pair\<close> a pair of descriptors as the copy loop sees it; both are interpreted on the ROM and write-once file systems.
    \<open>ls\<close> prints exactly the matching files with their sizes, and a copy to a write-once file system that has room has the data of the source.
  \<^item> \<open>Mmcfs\<close>: \<open>src/src/mmcfs.c\<close>. The device for memory cards over a parameter for FatFs; it is an instance of the interface \<open>dm_fs\<close> of
    \<open>Devman\<close>. Its table of open files keeps its invariant, and what it does with errors and with \<open>O_APPEND\<close> is shown.
  \<^item> \<open>Wofs_Format\<close>: \<open>wofs_format\<close> of \<open>src/src/romfs.c\<close> and \<open>shell_wofmt.c\<close>. The interface \<open>erases_sectors\<close> is what erasing a sector
    does; formatting then erases exactly the sectors that hold files and leaves an empty file system.

  \<^bold>\<open>Loops.\<close> Loops over an index or a list are structural recursions. Loops that wait for the outside world are
  \<open>partial_function (option)\<close>, and the theorems about them show that they return. Fuel is used where the source
  bounds the loop itself, such as the retries of the XMODEM receiver, so that no fuel has to be chosen.

  \<^bold>\<open>Not modelled.\<close> Vendored code (Lua, PicoC, PicoLisp, TinyScheme, uIP, FatFs, dlmalloc, iv, chip libraries);
  the modules that bind platform functions to these interpreters and the remote calls between
  interpreters, which consist of operations on their stacks and values; drivers of chips, semihosting and the SPI driver of memory
  cards, which consist of register accesses; host programs' option parsing, serial ports and sockets; texts of
  messages. Sizes of \<open>int\<close> and pointers are those of the 32-bit targets.
\<close>

end
